(* ===== verification/Prelude.thy ===== *)
theory Prelude
  imports Main "HOL-Library.Sublist"
begin

text \<open>
  What every component of the quickchr model shares: the error values, the JavaScript
  string primitives the sources call, decimal numerals, and a few generic facts on lists
  and maps.

  A JavaScript string is modelled by the list of its code units, restricted to the 256
  values of the type \<^typ>\<open>char\<close> (the names, paths, options and specifiers the program
  handles are ASCII). A \<open>QuickCHRError\<close> is a value: its \<open>code\<close> and the fixed text that
  tells its branch apart; the interpolated parts of a message are not modelled.
\<close>

section \<open>Errors\<close>

text \<open>The error codes of \<open>src/lib/types.ts\<close>.\<close>

datatype error_code =
    INVALID_NAME | INVALID_VERSION | INVALID_ARCH | INVALID_NETWORK | INVALID_FORWARD_SPEC
  | INVALID_DISK_SIZE | INVALID_SIZE_STRING | INVALID_SETTING_KEY | INVALID_SETTING_VALUE
  | INVALID_ARGUMENT | PORT_CONFLICT | NETWORK_UNAVAILABLE | STATE_ERROR | PROCESS_FAILED
  | MACHINE_NOT_FOUND | MACHINE_EXISTS | MACHINE_LOCKED | MACHINE_STOPPED | MACHINE_RUNNING
  | REST_UNAVAILABLE | PROVISIONING_VERSION_UNSUPPORTED | PROVISIONING_WINDOW_CLOSED
  | INSUFFICIENT_DISK_SPACE | SPAWN_FAILED | BOOT_TIMEOUT | DOWNLOAD_FAILED | QGA_UNSUPPORTED
  | MISSING_QEMU | MISSING_FIRMWARE | MISSING_BUN | MISSING_UNZIP | REBOOT_FAILED | QGA_TIMEOUT
  | DOWNLOAD_STALLED | DOWNLOAD_TOO_SLOW | EXEC_FAILED

datatype qerror = QuickCHRError (err_code: error_code) (err_text: string)

text \<open>A computation that may throw: \<open>Inl\<close> the error, \<open>Inr\<close> the value.\<close>

type_synonym 'a result = "qerror + 'a"

definition bind_result :: "'a result \<Rightarrow> ('a \<Rightarrow> 'b result) \<Rightarrow> 'b result" where
  "bind_result m f = (case m of Inl e \<Rightarrow> Inl e | Inr x \<Rightarrow> f x)"

definition throws :: "'a result \<Rightarrow> error_code \<Rightarrow> bool" where
  "throws m c = (case m of Inl e \<Rightarrow> err_code e = c | Inr _ \<Rightarrow> False)"

definition is_ok :: "'a result \<Rightarrow> bool" where
  "is_ok m = (case m of Inl _ \<Rightarrow> False | Inr _ \<Rightarrow> True)"

lemma bind_result_simps [simp]:
  "bind_result (Inl e) f = Inl e" "bind_result (Inr x) f = f x"
  by (simp_all add: bind_result_def)

lemma throws_simps [simp]:
  "throws (Inl (QuickCHRError c t)) d \<longleftrightarrow> c = d" "\<not> throws (Inr x) d"
  by (simp_all add: throws_def)

lemma is_ok_simps [simp]: "\<not> is_ok (Inl e)" "is_ok (Inr x)"
  by (simp_all add: is_ok_def)

lemma is_ok_iff: "is_ok m \<longleftrightarrow> (\<exists>x. m = Inr x)"
  by (cases m) auto

lemma bind_result_Inr_iff:
  "bind_result m f = Inr y \<longleftrightarrow> (\<exists>x. m = Inr x \<and> f x = Inr y)"
  by (cases m) auto

text \<open>\<open>Array.map\<close> with a callback that may throw: the first error wins.\<close>

fun map_result :: "('a \<Rightarrow> 'b result) \<Rightarrow> 'a list \<Rightarrow> 'b list result" where
  "map_result f [] = Inr []"
| "map_result f (x # xs) =
     (case f x of Inl e \<Rightarrow> Inl e
      | Inr y \<Rightarrow> (case map_result f xs of Inl e \<Rightarrow> Inl e | Inr ys \<Rightarrow> Inr (y # ys)))"

lemma map_result_length: "map_result f xs = Inr ys \<Longrightarrow> length ys = length xs"
  by (induction xs arbitrary: ys) (auto split: sum.splits)

lemma map_result_nth:
  "map_result f xs = Inr ys \<Longrightarrow> i < length xs \<Longrightarrow> f (xs ! i) = Inr (ys ! i)"
  by (induction xs arbitrary: ys i) (auto split: sum.splits simp: nth_Cons')

lemma map_result_list_all2:
  "map_result f xs = Inr ys \<Longrightarrow> list_all2 (\<lambda>x y. f x = Inr y) xs ys"
  by (auto simp: list_all2_conv_all_nth map_result_length map_result_nth)

section \<open>Filtering and mapping at once\<close>

lemma map_filter_append [simp]: "List.map_filter f (xs @ ys) = List.map_filter f xs @ List.map_filter f ys"
  by (simp add: List.map_filter_def)

lemma map_filter_Cons: "List.map_filter f (x # xs) = (case f x of None \<Rightarrow> [] | Some y \<Rightarrow> [y]) @ List.map_filter f xs"
  by (simp add: List.map_filter_def split: option.splits)

lemma map_filter_Nil [simp]: "List.map_filter f [] = []"
  by (simp add: List.map_filter_def)

section \<open>Characters and strings\<close>

abbreviation code :: "char \<Rightarrow> nat" where
  "code c \<equiv> of_char c"

text \<open>\<open>\\d\<close>, \<open>[A-Za-z]\<close> and \<open>\\s\<close> of the regular expressions; \<open>\\s\<close> is also what
  \<open>String.prototype.trim\<close> strips.\<close>

definition is_digit :: "char \<Rightarrow> bool" where
  "is_digit c \<longleftrightarrow> 48 \<le> code c \<and> code c \<le> 57"

definition is_upper :: "char \<Rightarrow> bool" where
  "is_upper c \<longleftrightarrow> 65 \<le> code c \<and> code c \<le> 90"

definition is_lower :: "char \<Rightarrow> bool" where
  "is_lower c \<longleftrightarrow> 97 \<le> code c \<and> code c \<le> 122"

definition is_alnum :: "char \<Rightarrow> bool" where
  "is_alnum c \<longleftrightarrow> is_digit c \<or> is_upper c \<or> is_lower c"

definition is_space :: "char \<Rightarrow> bool" where
  "is_space c \<longleftrightarrow> (9 \<le> code c \<and> code c \<le> 13) \<or> code c = 32 \<or> code c = 160"

definition trim :: "string \<Rightarrow> string" where
  "trim s = rev (dropWhile is_space (rev (dropWhile is_space s)))"

text \<open>\<open>toLowerCase\<close> and \<open>toUpperCase\<close> on one code unit. The three Latin-1 letters whose
  upper case is not one Latin-1 letter (micro sign, sharp s, y with diaeresis) are left as
  they are; no pattern the program matches contains them.\<close>

definition lower_char :: "char \<Rightarrow> char" where
  "lower_char c =
     (if is_upper c \<or> (192 \<le> code c \<and> code c \<le> 222 \<and> code c \<noteq> 215)
      then char_of (code c + 32) else c)"

definition upper_char :: "char \<Rightarrow> char" where
  "upper_char c =
     (if is_lower c \<or> (224 \<le> code c \<and> code c \<le> 254 \<and> code c \<noteq> 247)
      then char_of (code c - 32) else c)"

definition to_lower :: "string \<Rightarrow> string" where
  "to_lower = map lower_char"

definition to_upper :: "string \<Rightarrow> string" where
  "to_upper = map upper_char"

text \<open>\<open>startsWith\<close>, \<open>endsWith\<close>, \<open>indexOf\<close> and \<open>lastIndexOf\<close> of one character
  (\<open>None\<close> for \<open>-1\<close>).\<close>

definition starts_with :: "string \<Rightarrow> string \<Rightarrow> bool" where
  "starts_with p s \<longleftrightarrow> take (length p) s = p"

definition ends_with :: "string \<Rightarrow> string \<Rightarrow> bool" where
  "ends_with p s \<longleftrightarrow> starts_with (rev p) (rev s)"

fun index_of :: "char \<Rightarrow> string \<Rightarrow> nat option" where
  "index_of c [] = None"
| "index_of c (x # xs) = (if x = c then Some 0 else map_option Suc (index_of c xs))"

fun last_index_of :: "char \<Rightarrow> string \<Rightarrow> nat option" where
  "last_index_of c [] = None"
| "last_index_of c (x # xs) =
     (case last_index_of c xs of Some i \<Rightarrow> Some (Suc i)
      | None \<Rightarrow> if x = c then Some 0 else None)"

text \<open>\<open>s.split(c)\<close> for a one-character separator: never empty. \<open>join\<close> is
  \<open>Array.join\<close>.\<close>

fun split_on :: "char \<Rightarrow> string \<Rightarrow> string list" where
  "split_on c [] = [[]]"
| "split_on c (x # xs) =
     (if x = c then [] # split_on c xs
      else (case split_on c xs of [] \<Rightarrow> [[x]] | y # ys \<Rightarrow> (x # y) # ys))"

fun join :: "string \<Rightarrow> string list \<Rightarrow> string" where
  "join sep [] = []"
| "join sep [x] = x"
| "join sep (x # y # xs) = x @ sep @ join sep (y # xs)"

lemma starts_with_append [simp]: "starts_with p (p @ s)"
  by (simp add: starts_with_def)

lemma starts_with_iff: "starts_with p s \<longleftrightarrow> (\<exists>r. s = p @ r)"
  unfolding starts_with_def by (metis append_eq_conv_conj append_take_drop_id)

lemma starts_with_drop: "starts_with p s \<Longrightarrow> p @ drop (length p) s = s"
  unfolding starts_with_def by (metis append_take_drop_id)

lemma ends_with_append [simp]: "ends_with p (s @ p)"
  by (simp add: ends_with_def)

lemma ends_with_iff: "ends_with p s \<longleftrightarrow> (\<exists>r. s = r @ p)"
  unfolding ends_with_def starts_with_iff by (metis rev_append rev_rev_ident)

lemma index_of_None [simp]: "index_of c s = None \<longleftrightarrow> c \<notin> set s"
  by (induction s) auto

lemma index_of_Some:
  "index_of c s = Some i \<longleftrightarrow> i < length s \<and> s ! i = c \<and> c \<notin> set (take i s)"
proof (induction s arbitrary: i)
  case (Cons x xs)
  then show ?case by (cases i) auto
qed simp

lemma index_of_append [simp]: "c \<notin> set xs \<Longrightarrow> index_of c (xs @ c # ys) = Some (length xs)"
  by (induction xs) auto

lemma last_index_of_None [simp]: "last_index_of c s = None \<longleftrightarrow> c \<notin> set s"
  by (induction s) (auto split: option.splits)

lemma last_index_of_append [simp]:
  "c \<notin> set ys \<Longrightarrow> last_index_of c (xs @ c # ys) = Some (length xs)"
proof (induction xs)
  case Nil
  then show ?case by (simp del: last_index_of_None add: last_index_of_None [THEN iffD2])
qed simp

lemma last_index_of_split:
  "last_index_of c s = Some i \<Longrightarrow> s = take i s @ c # drop (Suc i) s \<and> c \<notin> set (drop (Suc i) s)"
proof (induction s arbitrary: i)
  case (Cons x xs)
  then show ?case by (cases "last_index_of c xs") (auto split: if_splits)
qed simp

subsection \<open>Splitting and joining\<close>

lemma split_on_not_Nil [simp]: "split_on c s \<noteq> []"
  by (induction s) (auto split: list.splits)

lemma split_on_pieces: "p \<in> set (split_on c s) \<Longrightarrow> c \<notin> set p"
proof (induction s arbitrary: p)
  case (Cons x xs)
  then show ?case by (cases "split_on c xs") (auto split: if_splits)
qed simp

lemma split_on_no_sep [simp]: "c \<notin> set s \<Longrightarrow> split_on c s = [s]"
  by (induction s) auto

lemma split_on_append_sep: "c \<notin> set s \<Longrightarrow> split_on c (s @ c # r) = s # split_on c r"
  by (induction s) auto

lemma split_on_append: "split_on c (a @ c # r) = split_on c a @ split_on c r"
proof (induction a)
  case (Cons x xs)
  then show ?case by (cases "split_on c xs") auto
qed simp

lemma join_split_on: "join [c] (split_on c s) = s"
proof (induction s)
  case (Cons x xs)
  then show ?case
    by (cases "split_on c xs"; cases "tl (split_on c xs)") auto
qed simp

lemma split_on_join:
  "xs \<noteq> [] \<Longrightarrow> (\<And>x. x \<in> set xs \<Longrightarrow> c \<notin> set x) \<Longrightarrow> split_on c (join [c] xs) = xs"
  by (induction "[c]" xs rule: join.induct) (auto simp: split_on_append_sep)

subsection \<open>Trimming\<close>

lemma dropWhile_id: "(s = [] \<or> \<not> P (hd s)) \<Longrightarrow> dropWhile P s = s"
  by (cases s) auto

lemma trim_id: "(s = [] \<or> (\<not> is_space (hd s) \<and> \<not> is_space (last s))) \<Longrightarrow> trim s = s"
  by (auto simp: trim_def dropWhile_id hd_rev)

lemma trim_no_space: "(\<And>c. c \<in> set s \<Longrightarrow> \<not> is_space c) \<Longrightarrow> trim s = s"
  by (rule trim_id) (cases s, auto)

lemma hd_dropWhile_not: "dropWhile P s \<noteq> [] \<Longrightarrow> \<not> P (hd (dropWhile P s))"
  by (induction s) auto

lemma trim_ends: "trim s \<noteq> [] \<Longrightarrow> \<not> is_space (hd (trim s)) \<and> \<not> is_space (last (trim s))"
proof -
  assume ne: "trim s \<noteq> []"
  let ?l = "dropWhile is_space s"
  let ?r = "dropWhile is_space (rev ?l)"
  have tr: "trim s = rev ?r" by (simp add: trim_def)
  have r: "?r \<noteq> []" using ne tr by simp
  have "\<not> is_space (hd ?r)" by (rule hd_dropWhile_not [OF r])
  then have l: "\<not> is_space (last (trim s))" using r tr by (simp add: last_rev)
  have lne: "?l \<noteq> []" using r by (metis dropWhile.simps(1) rev.simps(1))
  obtain p where p: "rev ?l = p @ ?r" by (metis takeWhile_dropWhile_id)
  then have "?l = rev ?r @ rev p" by (metis rev_append rev_rev_ident)
  then have "hd ?l = hd (rev ?r)" using r by (metis hd_append2 rev_is_Nil_conv)
  then have "\<not> is_space (hd (trim s))" using hd_dropWhile_not [OF lne] tr by simp
  with l show ?thesis by simp
qed

lemma trim_trim [simp]: "trim (trim s) = trim s"
  using trim_id trim_ends by blast

lemma set_trim: "set (trim s) \<subseteq> set s"
  unfolding trim_def by (auto dest!: set_dropWhileD)

section \<open>Decimal numerals\<close>

definition digit_char :: "nat \<Rightarrow> char" where
  "digit_char d = char_of (48 + d)"

definition digit_val :: "char \<Rightarrow> nat" where
  "digit_val c = code c - 48"

text \<open>\<open>String(n)\<close> for a natural number, and \<open>Number(s)\<close> / \<open>parseInt(s, 10)\<close> for a
  non-empty string of digits (exact below \<open>2\<^sup>5\<^sup>3\<close>, the integers the program handles).\<close>

fun show_nat :: "nat \<Rightarrow> string" where
  "show_nat n = (if n < 10 then [digit_char n] else show_nat (n div 10) @ [digit_char (n mod 10)])"

declare show_nat.simps [simp del]

definition read_nat :: "string \<Rightarrow> nat" where
  "read_nat s = foldl (\<lambda>a c. 10 * a + digit_val c) 0 s"

definition all_digits :: "string \<Rightarrow> bool" where
  "all_digits s \<longleftrightarrow> s \<noteq> [] \<and> list_all is_digit s"

lemma digit_char_code: "d < 10 \<Longrightarrow> code (digit_char d) = 48 + d"
  by (simp add: digit_char_def)

lemma digit_val_char [simp]: "d < 10 \<Longrightarrow> digit_val (digit_char d) = d"
  by (simp add: digit_val_def digit_char_code)

lemma is_digit_char [simp]: "d < 10 \<Longrightarrow> is_digit (digit_char d)"
  by (simp add: is_digit_def digit_char_code)

lemma show_nat_digits: "list_all is_digit (show_nat n)"
proof (induction n rule: show_nat.induct)
  case (1 n)
  then show ?case by (cases "n < 10") (simp_all add: show_nat.simps [of n])
qed

lemma show_nat_not_Nil [simp]: "show_nat n \<noteq> []"
  by (subst show_nat.simps) simp

lemma all_digits_show_nat [simp]: "all_digits (show_nat n)"
  by (simp add: all_digits_def show_nat_digits)

lemma read_nat_append: "read_nat (s @ [c]) = 10 * read_nat s + digit_val c"
  by (simp add: read_nat_def)

lemma read_show_nat [simp]: "read_nat (show_nat n) = n"
proof (induction n rule: show_nat.induct)
  case (1 n)
  show ?case
  proof (cases "n < 10")
    case True
    then show ?thesis by (simp add: show_nat.simps [of n] read_nat_def)
  next
    case False
    with 1 show ?thesis by (simp add: show_nat.simps [of n] read_nat_append)
  qed
qed

lemma show_nat_inj [simp]: "show_nat m = show_nat n \<longleftrightarrow> m = n"
  by (metis read_show_nat)

lemma is_digit_not_space: "is_digit c \<Longrightarrow> \<not> is_space c"
  by (auto simp: is_digit_def is_space_def)

lemma all_digits_notin: "all_digits s \<Longrightarrow> \<not> is_digit c \<Longrightarrow> c \<notin> set s"
  by (auto simp: all_digits_def list_all_iff)

lemma show_nat_notin: "\<not> is_digit c \<Longrightarrow> c \<notin> set (show_nat n)"
  by (rule all_digits_notin) simp_all

section \<open>The host platform and POSIX paths\<close>

text \<open>\<open>process.platform\<close>, as far as the program tells platforms apart.\<close>

datatype platform = Linux | Darwin | Win32 | OtherPlatform

text \<open>
  \<open>path.join\<close> of an absolute POSIX directory and one more part: empty and \<open>.\<close> segments
  vanish, \<open>..\<close> removes the segment before it (and nothing at the root). A path is the
  list of its segments.
\<close>

fun norm_segs :: "string list \<Rightarrow> string list \<Rightarrow> string list" where
  "norm_segs acc [] = rev acc"
| "norm_segs acc (s # ss) =
     (if s = [] \<or> s = ''.'' then norm_segs acc ss
      else if s = ''..'' then norm_segs (tl acc) ss
      else norm_segs (s # acc) ss)"

definition path_join :: "string list \<Rightarrow> string \<Rightarrow> string list" where
  "path_join dir part = norm_segs [] (dir @ split_on CHR ''/'' part)"

text \<open>A normalised path has no segment that \<open>path.join\<close> would rewrite.\<close>

definition plain_seg :: "string \<Rightarrow> bool" where
  "plain_seg s \<longleftrightarrow> s \<noteq> [] \<and> s \<noteq> ''.'' \<and> s \<noteq> ''..'' \<and> CHR ''/'' \<notin> set s"

definition normal_path :: "string list \<Rightarrow> bool" where
  "normal_path dir \<longleftrightarrow> list_all plain_seg dir"

definition render_path :: "string list \<Rightarrow> string" where
  "render_path dir = concat (map (\<lambda>s. CHR ''/'' # s) dir)"

lemma norm_segs_plain_app:
  "list_all plain_seg xs \<Longrightarrow> norm_segs acc (xs @ ys) = norm_segs (rev xs @ acc) ys"
  by (induction xs arbitrary: acc) (auto simp: plain_seg_def)

lemma path_join_plain:
  assumes "normal_path dir" and "plain_seg s"
  shows "path_join dir s = dir @ [s]"
proof -
  from assms have "list_all plain_seg (dir @ [s])" by (simp add: normal_path_def)
  then have "norm_segs [] ((dir @ [s]) @ []) = norm_segs (rev (dir @ [s])) []"
    using norm_segs_plain_app [of "dir @ [s]" "[]" "[]"] by simp
  with assms show ?thesis by (simp add: path_join_def plain_seg_def)
qed

end
