(* ===== verification/Js_Number.thy ===== *)
theory Js_Number
  imports Prelude Complex_Main
begin

text \<open>
  JavaScript numbers as far as the program tells them apart: an exact rational, or one of
  \<open>NaN\<close> and the infinities. Rounding to the 53-bit mantissa is not modelled: every number the
  modelled code computes with is far below \<open>2\<^sup>5\<^sup>3\<close>. \<open>Number_of\<close> is the conversion
  \<open>Number(s)\<close> of a string.
\<close>

datatype js_number = Finite rat | NonFinite

definition pow10 :: "int \<Rightarrow> rat" where
  "pow10 k = (if 0 \<le> k then 10 ^ nat k else 1 / 10 ^ nat (- k))"

definition radix_digit :: "char \<Rightarrow> nat" where
  "radix_digit c = (if is_digit c then code c - 48 else if is_lower c then code c - 87
     else if is_upper c then code c - 55 else 36)"

definition radix_number :: "nat \<Rightarrow> string \<Rightarrow> js_number" where
  "radix_number r ds =
     (if ds \<noteq> [] \<and> list_all (\<lambda>c. radix_digit c < r) ds
      then Finite (of_nat (foldl (\<lambda>a c. r * a + radix_digit c) 0 ds)) else NonFinite)"

text \<open>An optional sign: negative or not, and the rest.\<close>

definition split_sign :: "string \<Rightarrow> bool \<times> string" where
  "split_sign s = (case s of [] \<Rightarrow> (False, [])
     | c # r \<Rightarrow> if c = CHR ''-'' then (True, r) else if c = CHR ''+'' then (False, r) else (False, s))"

definition exponent_part :: "string \<Rightarrow> int option" where
  "exponent_part s =
     (case s of [] \<Rightarrow> Some 0
      | c # r \<Rightarrow>
          if c = CHR ''e'' \<or> c = CHR ''E'' then
            (let (neg, ds) = split_sign r in
             if all_digits ds then Some (if neg then - int (read_nat ds) else int (read_nat ds)) else None)
          else None)"

definition decimal_number :: "string \<Rightarrow> js_number" where
  "decimal_number s =
     (let (neg, r) = split_sign s;
          i = takeWhile is_digit r; r1 = dropWhile is_digit r;
          (f, r2) = (case r1 of [] \<Rightarrow> ([], [])
             | c # r' \<Rightarrow> if c = CHR ''.'' then (takeWhile is_digit r', dropWhile is_digit r') else ([], r1)) in
      if i = [] \<and> f = [] then NonFinite
      else (case exponent_part r2 of None \<Rightarrow> NonFinite
            | Some e \<Rightarrow> (let q = of_nat (read_nat (i @ f)) * pow10 (e - int (length f)) in
                         Finite (if neg then - q else q))))"

definition Number_of :: "string \<Rightarrow> js_number" where
  "Number_of s =
     (let t = trim s; p = to_lower (take 2 t) in
      if t = [] then Finite 0
      else if p = ''0x'' then radix_number 16 (drop 2 t)
      else if p = ''0o'' then radix_number 8 (drop 2 t)
      else if p = ''0b'' then radix_number 2 (drop 2 t)
      else decimal_number t)"

text \<open>\<open>Number.isInteger\<close>\<close>

definition is_integer :: "js_number \<Rightarrow> bool" where
  "is_integer n = (case n of Finite q \<Rightarrow> of_int \<lfloor>q\<rfloor> = q | NonFinite \<Rightarrow> False)"

definition int_value :: "js_number \<Rightarrow> int" where
  "int_value n = (case n of Finite q \<Rightarrow> \<lfloor>q\<rfloor> | NonFinite \<Rightarrow> 0)"

lemma takeWhile_all_digits: "list_all is_digit s \<Longrightarrow> takeWhile is_digit s = s \<and> dropWhile is_digit s = []"
  by (induction s) auto

lemma digit_chars_lower: "is_digit c \<Longrightarrow> lower_char c = c"
  by (auto simp: lower_char_def is_digit_def is_upper_def)

lemma take2_digits: "all_digits s \<Longrightarrow> to_lower (take 2 s) \<notin> {''0x'', ''0o'', ''0b''}"
proof -
  assume a: "all_digits s"
  have "list_all is_digit (take 2 s)"
    using a by (auto simp: all_digits_def list_all_iff dest: in_set_takeD)
  then have "to_lower (take 2 s) = take 2 s"
    by (auto simp: to_lower_def list_all_iff digit_chars_lower intro: map_idI)
  moreover have "\<not> is_digit CHR ''x''" "\<not> is_digit CHR ''o''" "\<not> is_digit CHR ''b''"
    by (simp_all add: is_digit_def)
  ultimately show ?thesis using \<open>list_all is_digit (take 2 s)\<close> by (auto simp: list_all_iff)
qed

lemma split_sign_digits: "all_digits s \<Longrightarrow> split_sign s = (False, s)"
proof -
  assume "all_digits s"
  then obtain c r where "s = c # r" "is_digit c" by (cases s) (auto simp: all_digits_def)
  moreover have "\<not> is_digit CHR ''-''" "\<not> is_digit CHR ''+''" by (simp_all add: is_digit_def)
  ultimately show ?thesis by (auto simp: split_sign_def)
qed

lemma Number_of_digits: "all_digits s \<Longrightarrow> Number_of s = Finite (of_nat (read_nat s))"
proof -
  assume a: "all_digits s"
  have t: "trim s = s"
    using a by (intro trim_no_space) (auto simp: all_digits_def list_all_iff is_digit_not_space)
  have tw: "takeWhile is_digit s = s" "dropWhile is_digit s = []" and ne: "s \<noteq> []"
    using a takeWhile_all_digits [of s] by (auto simp: all_digits_def)
  have "decimal_number s = Finite (of_nat (read_nat s))"
    by (simp add: decimal_number_def split_sign_digits [OF a] exponent_part_def pow10_def Let_def tw ne)
  then show ?thesis
    using a take2_digits [OF a] by (auto simp: Number_of_def t Let_def all_digits_def)
qed

lemma Number_of_show [simp]: "Number_of (show_nat n) = Finite (of_nat n)"
  by (simp add: Number_of_digits)

lemma is_integer_nat [simp]: "is_integer (Finite (of_nat n))" "int_value (Finite (of_nat n)) = int n"
  by (simp_all add: is_integer_def int_value_def)

end
