(* ===== verification/Versions.thy ===== *)
theory Versions
  imports Js_Number
begin

text \<open>
  \<open>src/lib/versions.ts\<close>: RouterOS version strings (their grammar, their order, the support
  gates built on it), the download names, the default machine name, the channels and the
  retry loop that resolves a channel to a version.
\<close>

section \<open>Architectures and channels (\<open>types.ts\<close>)\<close>

datatype arch = ARM64 | X86

definition arch_str :: "arch \<Rightarrow> string" where
  "arch_str a = (case a of ARM64 \<Rightarrow> ''arm64'' | X86 \<Rightarrow> ''x86'')"

datatype channel = Stable | LongTerm | Testing | Development

definition channel_str :: "channel \<Rightarrow> string" where
  "channel_str c = (case c of Stable \<Rightarrow> ''stable'' | LongTerm \<Rightarrow> ''long-term''
     | Testing \<Rightarrow> ''testing'' | Development \<Rightarrow> ''development'')"

definition CHANNELS :: "channel list" where
  "CHANNELS = [Stable, LongTerm, Testing, Development]"

section \<open>Parsing\<close>

text \<open>
  The groups of \<open>/^(\d+)\.(\d+)(?:\.(\d+))?(?:(beta|rc)(\d+))?$/\<close>. Digits are greedy and no
  digit follows them in the pattern, so matching is deterministic; an optional group that
  does not match consumes nothing.
\<close>

definition patch_group :: "string \<Rightarrow> string option \<times> string" where
  "patch_group s =
     (case s of [] \<Rightarrow> (None, s)
      | c # r \<Rightarrow> if c = CHR ''.'' \<and> takeWhile is_digit r \<noteq> []
                 then (Some (takeWhile is_digit r), dropWhile is_digit r) else (None, s))"

definition tagged_digits :: "string \<Rightarrow> string \<Rightarrow> (string \<times> string) option" where
  "tagged_digits tag s =
     (if starts_with tag s \<and> takeWhile is_digit (drop (length tag) s) \<noteq> []
      then Some (takeWhile is_digit (drop (length tag) s), dropWhile is_digit (drop (length tag) s))
      else None)"

definition stage_group :: "string \<Rightarrow> (string \<times> string) option \<times> string" where
  "stage_group s =
     (case tagged_digits ''beta'' s of Some (d, r) \<Rightarrow> (Some (''beta'', d), r)
      | None \<Rightarrow> (case tagged_digits ''rc'' s of Some (d, r) \<Rightarrow> (Some (''rc'', d), r)
                 | None \<Rightarrow> (None, s)))"

definition version_match ::
    "string \<Rightarrow> (string \<times> string \<times> string option \<times> (string \<times> string) option) option" where
  "version_match s =
     (let a = takeWhile is_digit s in
      if a = [] then None else
      (case dropWhile is_digit s of [] \<Rightarrow> None
       | c # r \<Rightarrow>
         if c \<noteq> CHR ''.'' then None else
         (let b = takeWhile is_digit r in
          if b = [] then None else
          (let (p, r2) = patch_group (dropWhile is_digit r); (st, r3) = stage_group r2 in
           if r3 = [] then Some (a, b, p, st) else None))))"

definition isValidVersion :: "string \<Rightarrow> bool" where
  "isValidVersion v \<longleftrightarrow> version_match v \<noteq> None"

text \<open>\<open>STAGE_RANK\<close> and \<open>ParsedVersion\<close>.\<close>

definition RANK_BETA :: nat where "RANK_BETA = 0"
definition RANK_RC :: nat where "RANK_RC = 1"
definition RANK_RELEASE :: nat where "RANK_RELEASE = 2"

datatype parsed_version =
  ParsedVersion (major: nat) (minor: nat) (patch: nat) (stage: nat) (stageNum: nat)

definition parseVersion :: "string \<Rightarrow> parsed_version result" where
  "parseVersion v =
     (case version_match v of
        None \<Rightarrow> Inl (QuickCHRError INVALID_VERSION ''Invalid version'')
      | Some (m1, m2, m3, m45) \<Rightarrow>
          Inr (ParsedVersion (read_nat m1) (read_nat m2)
                 (case m3 of None \<Rightarrow> 0 | Some p \<Rightarrow> read_nat p)
                 (case m45 of None \<Rightarrow> RANK_RELEASE
                  | Some (tag, _) \<Rightarrow> if tag = ''beta'' then RANK_BETA else RANK_RC)
                 (case m45 of None \<Rightarrow> 0 | Some (_, d) \<Rightarrow> read_nat d)))"

definition parseVersionParts :: "string \<Rightarrow> (nat \<times> nat \<times> nat) result" where
  "parseVersionParts v = bind_result (parseVersion v) (\<lambda>p. Inr (major p, minor p, patch p))"

section \<open>Comparison\<close>

definition compare_parsed :: "parsed_version \<Rightarrow> parsed_version \<Rightarrow> int" where
  "compare_parsed a b =
     (if major a \<noteq> major b then int (major a) - int (major b)
      else if minor a \<noteq> minor b then int (minor a) - int (minor b)
      else if patch a \<noteq> patch b then int (patch a) - int (patch b)
      else if stage a \<noteq> stage b then int (stage a) - int (stage b)
      else int (stageNum a) - int (stageNum b))"

definition compareRouterOsVersion :: "string \<Rightarrow> string \<Rightarrow> int result" where
  "compareRouterOsVersion l r =
     bind_result (parseVersion l) (\<lambda>a. bind_result (parseVersion r) (\<lambda>b. Inr (compare_parsed a b)))"

definition MIN_PROVISION_VERSION :: string where
  "MIN_PROVISION_VERSION = ''7.20.8''"

definition isProvisioningSupportedVersion :: "string \<Rightarrow> string \<Rightarrow> bool result" where
  "isProvisioningSupportedVersion v m =
     bind_result (compareRouterOsVersion v m) (\<lambda>d. Inr (d \<ge> 0))"

definition isRouterOs6 :: "string \<Rightarrow> bool" where
  "isRouterOs6 v \<longleftrightarrow> starts_with ''6.'' v"

definition assertRouterOs6Arch :: "string \<Rightarrow> arch \<Rightarrow> unit result" where
  "assertRouterOs6Arch v a =
     (if \<not> isRouterOs6 v \<or> a = X86 then Inr ()
      else Inl (QuickCHRError INVALID_ARCH ''RouterOS 6 CHR is published for x86 only''))"

definition assertRestAvailable :: "string \<Rightarrow> unit result" where
  "assertRestAvailable v =
     (if \<not> isRouterOs6 v then Inr ()
      else Inl (QuickCHRError REST_UNAVAILABLE ''RouterOS 6: not available''))"

definition assertProvisioningSupportedVersion :: "string \<Rightarrow> string \<Rightarrow> unit result" where
  "assertProvisioningSupportedVersion v m =
     (if isRouterOs6 v
      then Inl (QuickCHRError PROVISIONING_VERSION_UNSUPPORTED ''RouterOS 6 is boot-only'')
      else bind_result (isProvisioningSupportedVersion v m)
        (\<lambda>ok. if ok then Inr ()
              else Inl (QuickCHRError PROVISIONING_VERSION_UNSUPPORTED ''below the provisioning baseline'')))"

section \<open>Names and URLs\<close>

definition DOWNLOAD_BASE :: string where
  "DOWNLOAD_BASE = ''https://download.mikrotik.com/routeros''"

definition chrDownloadUrl :: "string \<Rightarrow> arch \<Rightarrow> string" where
  "chrDownloadUrl v a =
     (let suffix = (if a = ARM64 then ''-arm64'' else []) in
      DOWNLOAD_BASE @ ''/'' @ v @ ''/chr-'' @ v @ suffix @ ''.img.zip'')"

definition packagesDownloadUrl :: "string \<Rightarrow> arch \<Rightarrow> string" where
  "packagesDownloadUrl v a =
     (let mtArch = (if a = ARM64 then ''arm64'' else ''x86'') in
      DOWNLOAD_BASE @ ''/'' @ v @ ''/all_packages-'' @ mtArch @ ''-'' @ v @ ''.zip'')"

definition chrImageBasename :: "string \<Rightarrow> arch \<Rightarrow> string" where
  "chrImageBasename v a =
     (if a = ARM64 then ''chr-'' @ v @ ''-arm64'' else ''chr-'' @ v)"

definition machine_base :: "string \<Rightarrow> arch \<Rightarrow> string" where
  "machine_base v a = v @ ''-'' @ arch_str a"

definition numbered :: "string \<Rightarrow> nat \<Rightarrow> string" where
  "numbered base n = base @ ''-'' @ show_nat n"

lemma numbered_inj [simp]: "numbered base m = numbered base n \<longleftrightarrow> m = n"
  by (simp add: numbered_def)

lemma finite_taken: "finite {m. numbered base m \<in> set names}"
proof -
  have "finite (numbered base -` set names)"
    by (rule finite_vimageI) (auto simp: inj_def)
  then show ?thesis by (simp add: vimage_def)
qed

text \<open>The \<open>while\<close> loop of \<open>generateMachineName\<close>: it stops because only finitely many of the
  numbered names can be taken.\<close>

function first_free :: "string \<Rightarrow> string list \<Rightarrow> nat \<Rightarrow> nat" where
  "first_free base names n =
     (if numbered base n \<in> set names then first_free base names (Suc n) else n)"
  by pat_completeness auto
termination
proof (relation "measure (\<lambda>(base, names, n). card {m. n \<le> m \<and> numbered base m \<in> set names})")
  fix base names n
  assume taken: "numbered base n \<in> set names"
  have fin: "finite {m. n \<le> m \<and> numbered base m \<in> set names}"
    by (rule finite_subset [OF _ finite_taken [of base names]]) auto
  have "n \<in> {m. n \<le> m \<and> numbered base m \<in> set names}" using taken by simp
  moreover have "n \<notin> {m. Suc n \<le> m \<and> numbered base m \<in> set names}" by simp
  moreover have "{m. Suc n \<le> m \<and> numbered base m \<in> set names} \<subseteq> {m. n \<le> m \<and> numbered base m \<in> set names}"
    by auto
  ultimately have "{m. Suc n \<le> m \<and> numbered base m \<in> set names} \<subset> {m. n \<le> m \<and> numbered base m \<in> set names}"
    by blast
  then show "((base, names, Suc n), (base, names, n))
      \<in> measure (\<lambda>(base, names, n). card {m. n \<le> m \<and> numbered base m \<in> set names})"
    using fin by (simp add: psubset_card_mono)
qed simp

declare first_free.simps [simp del]

definition generateMachineName :: "string \<Rightarrow> arch \<Rightarrow> string list \<Rightarrow> string" where
  "generateMachineName v a existing =
     numbered (machine_base v a) (first_free (machine_base v a) existing 1)"

section \<open>Channel recency\<close>

datatype channel_maturity = Released | Prerelease

definition channelMaturity :: "channel \<Rightarrow> channel_maturity" where
  "channelMaturity c = (if c \<in> set [Stable, LongTerm] then Released else Prerelease)"

record channel_status =
  cs_channel :: channel
  cs_version :: string
  cs_maturity :: channel_maturity
  cs_aheadOfStable :: bool

definition classifyChannels :: "(channel \<Rightarrow> string) \<Rightarrow> channel_status list result" where
  "classifyChannels versions =
     map_result (\<lambda>c. bind_result (compareRouterOsVersion (versions c) (versions Stable))
         (\<lambda>d. Inr \<lparr>cs_channel = c, cs_version = versions c, cs_maturity = channelMaturity c,
                   cs_aheadOfStable = (d \<ge> 0)\<rparr>)) CHANNELS"

text \<open>\<open>Array.filter\<close> with a predicate that may throw.\<close>

fun filter_result :: "('a \<Rightarrow> bool result) \<Rightarrow> 'a list \<Rightarrow> 'a list result" where
  "filter_result p [] = Inr []"
| "filter_result p (x # xs) =
     bind_result (p x) (\<lambda>b. bind_result (filter_result p xs) (\<lambda>ys. Inr (if b then x # ys else ys)))"

definition selectActiveChannels :: "(channel \<Rightarrow> string) \<Rightarrow> channel option \<Rightarrow> channel list result" where
  "selectActiveChannels versions aheadOf =
     (let reference = versions (case aheadOf of None \<Rightarrow> Stable | Some c \<Rightarrow> c) in
      filter_result (\<lambda>c. if channelMaturity c = Released then Inr True
          else bind_result (compareRouterOsVersion (versions c) reference) (\<lambda>d. Inr (d \<ge> 0))) CHANNELS)"

section \<open>Resolving a channel\<close>

definition positiveInt :: "js_number option \<Rightarrow> nat \<Rightarrow> nat" where
  "positiveInt value fallback =
     (case value of Some (Finite q) \<Rightarrow> nat (max 1 \<lfloor>q\<rfloor>) | _ \<Rightarrow> fallback)"

definition nonNegativeMs :: "js_number option \<Rightarrow> rat \<Rightarrow> rat" where
  "nonNegativeMs value fallback =
     (case value of Some (Finite q) \<Rightarrow> max 0 q | _ \<Rightarrow> fallback)"

definition VERSION_RESOLVE_MAX_ATTEMPTS :: nat where
  "VERSION_RESOLVE_MAX_ATTEMPTS = 3"

definition VERSION_RESOLVE_RETRY_MS :: rat where
  "VERSION_RESOLVE_RETRY_MS = 2000"

text \<open>
  What one \<open>fetchResilient\<close> call does, as \<open>net.ts\<close> classifies it: it throws (a proxy
  refusal, a connection-class failure or anything else), or it answers with a status and a
  body whose reading may itself throw.
\<close>

datatype transport_error = ProxyRefusal | ConnectionFailure | OtherFailure

datatype fetch_outcome =
    FetchThrows transport_error
  | FetchResponse nat "transport_error + string"

datatype resolve_result = Resolved string | Failed qerror | Rethrown transport_error

text \<open>\<open>text.trim().split(/\s+/)[0]?.trim()\<close>\<close>

definition first_token :: "string \<Rightarrow> string" where
  "first_token text = trim (takeWhile (\<lambda>c. \<not> is_space c) (trim text))"

definition read_version_text :: "string \<Rightarrow> resolve_result" where
  "read_version_text text =
     (let v = first_token text in
      if v = [] \<or> \<not> isValidVersion v
      then Failed (QuickCHRError INVALID_VERSION ''Unexpected version format'') else Resolved v)"

text \<open>The verdict on one attempt: \<open>None\<close> is a connection failure, the only retried one.\<close>

definition transport_verdict :: "transport_error \<Rightarrow> resolve_result option" where
  "transport_verdict e =
     (case e of ProxyRefusal \<Rightarrow> Some (Failed (QuickCHRError DOWNLOAD_FAILED ''the egress proxy refused''))
      | ConnectionFailure \<Rightarrow> None
      | OtherFailure \<Rightarrow> Some (Rethrown OtherFailure))"

definition attempt_verdict :: "bool \<Rightarrow> fetch_outcome \<Rightarrow> resolve_result option" where
  "attempt_verdict proxyConfigured outcome =
     (case outcome of
        FetchThrows e \<Rightarrow> transport_verdict e
      | FetchResponse status body \<Rightarrow>
          if \<not> (200 \<le> status \<and> status \<le> 299) then
            (if status = 403 \<and> proxyConfigured
             then Some (Failed (QuickCHRError DOWNLOAD_FAILED ''HTTP 403 via the egress proxy''))
             else Some (Failed (QuickCHRError DOWNLOAD_FAILED ''HTTP status'')))
          else (case body of Inl e \<Rightarrow> transport_verdict e
                | Inr text \<Rightarrow> Some (read_version_text text)))"

text \<open>The loop from attempt \<open>n\<close>: its result, the attempts made and the sleeps between them.\<close>

function resolve_loop ::
    "(nat \<Rightarrow> fetch_outcome) \<Rightarrow> bool \<Rightarrow> nat \<Rightarrow> rat \<Rightarrow> nat \<Rightarrow> resolve_result \<times> nat \<times> rat list" where
  "resolve_loop fetch proxy maxAttempts delay n =
     (if n \<le> maxAttempts then
        (case attempt_verdict proxy (fetch n) of
           Some r \<Rightarrow> (r, 1, [])
         | None \<Rightarrow>
             (let (r, k, ss) = resolve_loop fetch proxy maxAttempts delay (Suc n) in
              (r, Suc k, (if n < maxAttempts then [of_nat n * delay] else []) @ ss)))
      else (Failed (QuickCHRError DOWNLOAD_FAILED ''on all attempts''), 0, []))"
  by pat_completeness auto
termination
  by (relation "measure (\<lambda>(f, p, m, d, n). Suc m - n)") auto

declare resolve_loop.simps [simp del]

definition resolveVersion ::
    "(nat \<Rightarrow> fetch_outcome) \<Rightarrow> bool \<Rightarrow> js_number option \<Rightarrow> js_number option
     \<Rightarrow> resolve_result \<times> nat \<times> rat list" where
  "resolveVersion fetch proxy maxAttempts retryDelayMs =
     resolve_loop fetch proxy (positiveInt maxAttempts VERSION_RESOLVE_MAX_ATTEMPTS)
       (nonNegativeMs retryDelayMs VERSION_RESOLVE_RETRY_MS) 1"

section \<open>The order on versions\<close>

text \<open>
  The library's order on parsed versions is the comparator's: the laws of a linear order are
  laws of the code, and sorting, minima and order reasoning on versions come with them.
\<close>

instantiation parsed_version :: linorder
begin

definition less_eq_parsed_version :: "parsed_version \<Rightarrow> parsed_version \<Rightarrow> bool" where
  "a \<le> b \<longleftrightarrow> compare_parsed a b \<le> 0"

definition less_parsed_version :: "parsed_version \<Rightarrow> parsed_version \<Rightarrow> bool" where
  "a < b \<longleftrightarrow> compare_parsed a b < 0"

instance
proof
  fix x y z :: parsed_version
  show "(x < y) = (x \<le> y \<and> \<not> y \<le> x)"
    by (auto simp: less_eq_parsed_version_def less_parsed_version_def compare_parsed_def)
  show "x \<le> x"
    by (simp add: less_eq_parsed_version_def compare_parsed_def)
  show "x \<le> z" if "x \<le> y" "y \<le> z"
    using that by (simp add: less_eq_parsed_version_def compare_parsed_def split: if_splits)
  show "x = y" if "x \<le> y" "y \<le> x"
    using that by (simp add: less_eq_parsed_version_def compare_parsed_def parsed_version.expand split: if_splits)
  show "x \<le> y \<or> y \<le> x"
    by (auto simp: less_eq_parsed_version_def compare_parsed_def)
qed

end

lemma compare_parsed_refl [simp]: "compare_parsed a a = 0"
  by (simp add: compare_parsed_def)

lemma compare_parsed_anti: "compare_parsed b a = - compare_parsed a b"
  by (simp add: compare_parsed_def)

lemma compare_parsed_zero [simp]: "compare_parsed a b = 0 \<longleftrightarrow> a = b"
  by (auto simp: compare_parsed_def parsed_version.expand)

lemma compare_parsed_order:
  "compare_parsed a b < 0 \<longleftrightarrow> a < b" "compare_parsed a b \<le> 0 \<longleftrightarrow> a \<le> b"
  "compare_parsed a b > 0 \<longleftrightarrow> b < a" "compare_parsed a b \<ge> 0 \<longleftrightarrow> b \<le> a"
  using compare_parsed_anti [of a b]
  by (auto simp: less_parsed_version_def less_eq_parsed_version_def)

lemma compare_ok_iff:
  "compareRouterOsVersion l r = Inr d \<longleftrightarrow>
     (\<exists>a b. parseVersion l = Inr a \<and> parseVersion r = Inr b \<and> d = compare_parsed a b)"
  by (auto simp: compareRouterOsVersion_def bind_result_Inr_iff)

lemma parse_ok_iff: "is_ok (parseVersion v) \<longleftrightarrow> isValidVersion v"
  by (auto simp: parseVersion_def isValidVersion_def split: option.splits)

lemma compare_valid:
  "isValidVersion l \<Longrightarrow> isValidVersion r \<Longrightarrow> is_ok (compareRouterOsVersion l r)"
  unfolding parse_ok_iff [symmetric] is_ok_iff compare_ok_iff by blast

section \<open>Rendering a version and reading it back\<close>

text \<open>The specification's rendering of a version: \<open>MAJOR.MINOR[.PATCH][betaN|rcN]\<close>.\<close>

datatype version_stage = BetaN nat | RcN nat | ReleaseV

definition render_stage :: "version_stage \<Rightarrow> string" where
  "render_stage st = (case st of BetaN n \<Rightarrow> ''beta'' @ show_nat n | RcN n \<Rightarrow> ''rc'' @ show_nat n
     | ReleaseV \<Rightarrow> [])"

definition render_version :: "nat \<Rightarrow> nat \<Rightarrow> nat option \<Rightarrow> version_stage \<Rightarrow> string" where
  "render_version a b p st =
     show_nat a @ ''.'' @ show_nat b @ (case p of None \<Rightarrow> [] | Some q \<Rightarrow> ''.'' @ show_nat q)
     @ render_stage st"

definition stage_rank :: "version_stage \<Rightarrow> nat" where
  "stage_rank st = (case st of BetaN _ \<Rightarrow> RANK_BETA | RcN _ \<Rightarrow> RANK_RC | ReleaseV \<Rightarrow> RANK_RELEASE)"

definition stage_number :: "version_stage \<Rightarrow> nat" where
  "stage_number st = (case st of BetaN n \<Rightarrow> n | RcN n \<Rightarrow> n | ReleaseV \<Rightarrow> 0)"

definition no_digit_start :: "string \<Rightarrow> bool" where
  "no_digit_start r \<longleftrightarrow> r = [] \<or> \<not> is_digit (hd r)"

lemma take_digits [simp]:
  "no_digit_start r \<Longrightarrow> takeWhile is_digit (show_nat n @ r) = show_nat n"
  "no_digit_start r \<Longrightarrow> dropWhile is_digit (show_nat n @ r) = r"
proof -
  assume r: "no_digit_start r"
  have d: "\<forall>c\<in>set (show_nat n). is_digit c"
    using show_nat_digits [of n] by (simp add: list_all_iff)
  show "takeWhile is_digit (show_nat n @ r) = show_nat n"
    using r d by (cases r) (auto simp: no_digit_start_def takeWhile_tail)
  show "dropWhile is_digit (show_nat n @ r) = r"
    using r d by (cases r) (auto simp: no_digit_start_def)
qed

lemma take_digits_nil [simp]:
  "takeWhile is_digit (show_nat n) = show_nat n" "dropWhile is_digit (show_nat n) = []"
  using take_digits [of "[]" n] by (simp_all add: no_digit_start_def)

lemma is_digit_ground [simp]:
  "\<not> is_digit CHR ''.''" "\<not> is_digit CHR ''b''" "\<not> is_digit CHR ''r''" "\<not> is_digit CHR ''-''"
  by (simp_all add: is_digit_def)

lemma no_digit_start_stage [simp]: "no_digit_start (render_stage st)"
  by (simp add: no_digit_start_def render_stage_def split: version_stage.splits)

lemma no_digit_start_dot [simp]: "no_digit_start (CHR ''.'' # r)"
  by (simp add: no_digit_start_def)

lemma stage_group_render:
  "stage_group (render_stage st) =
     (case st of BetaN n \<Rightarrow> (Some (''beta'', show_nat n), []) | RcN n \<Rightarrow> (Some (''rc'', show_nat n), [])
      | ReleaseV \<Rightarrow> (None, []))"
  by (cases st) (simp_all add: stage_group_def tagged_digits_def render_stage_def starts_with_def)

lemma patch_group_render:
  "patch_group ((case p of None \<Rightarrow> [] | Some q \<Rightarrow> ''.'' @ show_nat q) @ render_stage st) =
     (map_option show_nat p, render_stage st)"
  by (cases p; cases st) (simp_all add: patch_group_def render_stage_def no_digit_start_def)

lemma parse_render:
  "parseVersion (render_version a b p st) =
     Inr (ParsedVersion a b (case p of None \<Rightarrow> 0 | Some q \<Rightarrow> q) (stage_rank st) (stage_number st))"
proof -
  have "version_match (render_version a b p st) =
      Some (show_nat a, show_nat b, map_option show_nat p, fst (stage_group (render_stage st)))"
  proof -
    have "no_digit_start ((case p of None \<Rightarrow> [] | Some q \<Rightarrow> ''.'' @ show_nat q) @ render_stage st)"
      by (cases p) simp_all
    then show ?thesis
      by (simp add: version_match_def render_version_def patch_group_render stage_group_render
          split: version_stage.splits)
  qed
  then show ?thesis
    by (cases p; cases st)
      (simp_all add: parseVersion_def stage_group_render stage_rank_def stage_number_def)
qed

section \<open>Default machine names\<close>

lemma first_free_spec:
  "n \<le> first_free base names n
   \<and> numbered base (first_free base names n) \<notin> set names
   \<and> (\<forall>m. n \<le> m \<and> m < first_free base names n \<longrightarrow> numbered base m \<in> set names)"
proof (induction base names n rule: first_free.induct)
  case (1 base names n)
  show ?case
  proof (cases "numbered base n \<in> set names")
    case True
    then have ff: "first_free base names n = first_free base names (Suc n)"
      by (simp add: first_free.simps [of base names n])
    have "numbered base m \<in> set names" if "n \<le> m" "m < first_free base names n" for m
      using 1 [OF True] True that ff by (cases "m = n") auto
    with 1 [OF True] ff show ?thesis by auto
  next
    case False
    then show ?thesis by (auto simp: first_free.simps [of base names n])
  qed
qed

text \<open>the loop of \<open>generateMachineName\<close> ends, its name is free, and it is the
  lowest-numbered free one: every lower number from 1 on is taken.\<close>

theorem generateMachineName_fresh:
  "generateMachineName v a existing \<notin> set existing
   \<and> (\<exists>n\<ge>1. generateMachineName v a existing = numbered (machine_base v a) n
        \<and> set (map (numbered (machine_base v a)) [1..<n]) \<subseteq> set existing)"
proof -
  let ?n = "first_free (machine_base v a) existing 1"
  have "set (map (numbered (machine_base v a)) [1..<?n]) \<subseteq> set existing"
    using first_free_spec [of 1 "machine_base v a" existing] by auto
  then show ?thesis
    using first_free_spec [of 1 "machine_base v a" existing]
    by (auto simp: generateMachineName_def)
qed

section \<open>Comparison results\<close>

text \<open>on valid version strings the comparator never throws and is a total
  preorder: reversing the arguments negates the result, it is transitive, and it is zero
  exactly for strings with the same parsed parts.\<close>

theorem compareRouterOsVersion_order:
  assumes "isValidVersion x" and "isValidVersion y" and "isValidVersion z"
  shows "\<exists>dxy dyx dyz dxz.
      compareRouterOsVersion x y = Inr dxy \<and> compareRouterOsVersion y x = Inr dyx
    \<and> compareRouterOsVersion y z = Inr dyz \<and> compareRouterOsVersion x z = Inr dxz
    \<and> dyx = - dxy
    \<and> (dxy = 0 \<longleftrightarrow> parseVersion x = parseVersion y)
    \<and> (dxy \<le> 0 \<and> dyz \<le> 0 \<longrightarrow> dxz \<le> 0) \<and> (dxy < 0 \<and> dyz \<le> 0 \<longrightarrow> dxz < 0)"
proof -
  obtain a b c where p: "parseVersion x = Inr a" "parseVersion y = Inr b" "parseVersion z = Inr c"
    using assms unfolding parse_ok_iff [symmetric] is_ok_iff by blast
  show ?thesis
    unfolding compare_ok_iff
    by (rule exI [of _ "compare_parsed a b"], rule exI [of _ "compare_parsed b a"],
        rule exI [of _ "compare_parsed b c"], rule exI [of _ "compare_parsed a c"])
      (auto simp: p compare_parsed_order compare_parsed_anti [of b a])
qed

theorem compareRouterOsVersion_order_witness:
  "\<exists>dxy dyx dyz dxz.
      compareRouterOsVersion ''7.24beta2'' ''7.24'' = Inr dxy
    \<and> compareRouterOsVersion ''7.24'' ''7.24beta2'' = Inr dyx
    \<and> compareRouterOsVersion ''7.24'' ''7.24.1'' = Inr dyz
    \<and> compareRouterOsVersion ''7.24beta2'' ''7.24.1'' = Inr dxz
    \<and> dyx = - dxy
    \<and> (dxy = 0 \<longleftrightarrow> parseVersion ''7.24beta2'' = parseVersion ''7.24'')
    \<and> (dxy \<le> 0 \<and> dyz \<le> 0 \<longrightarrow> dxz \<le> 0) \<and> (dxy < 0 \<and> dyz \<le> 0 \<longrightarrow> dxz < 0)"
proof -
  have "isValidVersion ''7.24beta2''" "isValidVersion ''7.24''" "isValidVersion ''7.24.1''"
    by code_simp+
  then show ?thesis by (rule compareRouterOsVersion_order)
qed

text \<open>for one \<open>MAJOR.MINOR\<close>, every beta precedes every release candidate, every release
  candidate the final release, the final release every later patch, and betas and patches
  are ordered by their numbers.\<close>

theorem prerelease_order:
  "(\<exists>d<0. compareRouterOsVersion (render_version a b None (BetaN m)) (render_version a b None (RcN n)) = Inr d)
   \<and> (\<exists>d<0. compareRouterOsVersion (render_version a b None (RcN n)) (render_version a b None ReleaseV) = Inr d)
   \<and> (\<exists>d<0. compareRouterOsVersion (render_version a b None ReleaseV) (render_version a b (Some (Suc q)) ReleaseV) = Inr d)
   \<and> (compareRouterOsVersion (render_version a b None (BetaN m)) (render_version a b None (BetaN n))
        = Inr (int m - int n))
   \<and> (compareRouterOsVersion (render_version a b (Some m) ReleaseV) (render_version a b (Some n) ReleaseV)
        = Inr (int m - int n))"
  by (simp add: compareRouterOsVersion_def parse_render compare_parsed_def stage_rank_def
      stage_number_def RANK_BETA_def RANK_RC_def RANK_RELEASE_def)

section \<open>The provisioning gate\<close>

lemma starts_6_major:
  assumes "isRouterOs6 v" and "parseVersion v = Inr p"
  shows "major p = 6"
proof -
  from assms(1) obtain r where "v = CHR ''6'' # CHR ''.'' # r"
    by (auto simp: isRouterOs6_def starts_with_iff)
  with assms(2) show ?thesis
    by (auto simp: parseVersion_def version_match_def Let_def read_nat_def digit_val_def
        is_digit_def split: option.splits if_splits prod.splits)
qed

lemma parse_MIN_PROVISION: "parseVersion MIN_PROVISION_VERSION = Inr (ParsedVersion 7 20 8 RANK_RELEASE 0)"
  by code_simp

text \<open>the provisioning gate accepts a valid version exactly when it is at or above the
  7.20.8 baseline (which no RouterOS 6 version is), refuses every other valid version with
  \<open>PROVISIONING_VERSION_UNSUPPORTED\<close>, and a 7.x string that is no version at all with
  \<open>INVALID_VERSION\<close>.\<close>

theorem provisioning_gate:
  "(case parseVersion v of
      Inl _ \<Rightarrow> throws (assertProvisioningSupportedVersion v MIN_PROVISION_VERSION)
                 (if isRouterOs6 v then PROVISIONING_VERSION_UNSUPPORTED else INVALID_VERSION)
    | Inr p \<Rightarrow> if ParsedVersion 7 20 8 RANK_RELEASE 0 \<le> p
               then assertProvisioningSupportedVersion v MIN_PROVISION_VERSION = Inr ()
               else throws (assertProvisioningSupportedVersion v MIN_PROVISION_VERSION)
                      PROVISIONING_VERSION_UNSUPPORTED)"
proof (cases "parseVersion v")
  case (Inl e)
  then have "e = QuickCHRError INVALID_VERSION ''Invalid version''"
    by (auto simp: parseVersion_def split: option.splits)
  with Inl show ?thesis
    by (simp add: assertProvisioningSupportedVersion_def isProvisioningSupportedVersion_def
        compareRouterOsVersion_def)
next
  case (Inr p)
  have 6: "isRouterOs6 v \<Longrightarrow> p < ParsedVersion 7 20 8 RANK_RELEASE 0"
    using starts_6_major [OF _ Inr] by (simp add: less_parsed_version_def compare_parsed_def)
  show ?thesis
    using 6 by (auto simp: Inr assertProvisioningSupportedVersion_def isProvisioningSupportedVersion_def
        compareRouterOsVersion_def parse_MIN_PROVISION compare_parsed_order not_le)
qed

section \<open>The retry loop\<close>

lemma resolve_loop_spec:
  "resolve_loop fetch proxy N delay n = (r, k, ss) \<Longrightarrow> n \<le> N \<Longrightarrow>
     1 \<le> k \<and> n + k \<le> Suc N
     \<and> (\<forall>i. n \<le> i \<and> i < n + k - 1 \<longrightarrow> attempt_verdict proxy (fetch i) = None)
     \<and> ss = map (\<lambda>i. of_nat i * delay) [n..<n + k - 1]
     \<and> (case attempt_verdict proxy (fetch (n + k - 1)) of
          Some x \<Rightarrow> r = x
        | None \<Rightarrow> n + k = Suc N \<and> r = Failed (QuickCHRError DOWNLOAD_FAILED ''on all attempts''))"
proof (induction fetch proxy N delay n arbitrary: r k ss rule: resolve_loop.induct)
  case (1 fetch proxy N delay n)
  show ?case
  proof (cases "attempt_verdict proxy (fetch n)")
    case (Some x)
    with 1(2,3) show ?thesis by (auto simp: resolve_loop.simps [of fetch proxy N delay n])
  next
    case None
    obtain r' k' ss' where rec: "resolve_loop fetch proxy N delay (Suc n) = (r', k', ss')"
      by (metis prod_cases3)
    have eqs: "r = r'" "k = Suc k'" "ss = (if n < N then [of_nat n * delay] else []) @ ss'"
      using 1(2,3) None rec by (auto simp: resolve_loop.simps [of fetch proxy N delay n])
    show ?thesis
    proof (cases "n < N")
      case True
      note IH = 1(1) [OF 1(3) None rec]
      have "[n..<n + k - 1] = n # [Suc n..<Suc n + k' - 1]"
        using IH True by (simp add: eqs upt_conv_Cons)
      moreover have "attempt_verdict proxy (fetch i) = None" if "n \<le> i" "i < n + k - 1" for i
        using that IH True None eqs by (cases "i = n") auto
      ultimately show ?thesis using IH True eqs by (auto split: option.splits)
    next
      case False
      with rec 1(3) have "k' = 0" "ss' = []" "r' = Failed (QuickCHRError DOWNLOAD_FAILED ''on all attempts'')"
        by (auto simp: resolve_loop.simps [of fetch proxy N delay "Suc n"])
      with False 1(3) None eqs show ?thesis by auto
    qed
  qed
qed

lemma positiveInt_pos: "0 < fallback \<Longrightarrow> 1 \<le> positiveInt value fallback"
proof -
  assume f: "0 < fallback"
  have "1 \<le> nat (max 1 \<lfloor>q\<rfloor>)" for q :: rat by linarith
  with f show ?thesis by (auto simp: positiveInt_def split: option.splits js_number.splits)
qed

text \<open>resolving a channel makes between one and the configured number of attempts;
  it goes on to another attempt only after a connection-class failure, waits \<open>i\<close> times the
  configured delay after failed attempt \<open>i\<close>, returns the verdict of the first attempt that
  has one, and gives up with \<open>DOWNLOAD_FAILED\<close> only when every attempt failed to connect.\<close>

theorem resolveVersion_policy:
  "let N = positiveInt ma VERSION_RESOLVE_MAX_ATTEMPTS;
       D = nonNegativeMs rd VERSION_RESOLVE_RETRY_MS;
       (r, k, sleeps) = resolveVersion fetch proxy ma rd
   in 1 \<le> k \<and> k \<le> N
    \<and> list_all (\<lambda>i. attempt_verdict proxy (fetch i) = None) [1..<k]
    \<and> sleeps = map (\<lambda>i. of_nat i * D) [1..<k]
    \<and> (case attempt_verdict proxy (fetch k) of
         Some x \<Rightarrow> r = x
       | None \<Rightarrow> k = N \<and> r = Failed (QuickCHRError DOWNLOAD_FAILED ''on all attempts''))"
proof -
  let ?N = "positiveInt ma VERSION_RESOLVE_MAX_ATTEMPTS"
  let ?D = "nonNegativeMs rd VERSION_RESOLVE_RETRY_MS"
  obtain r k ss where res: "resolve_loop fetch proxy ?N ?D 1 = (r, k, ss)"
    by (metis prod_cases3)
  have N: "1 \<le> ?N" by (rule positiveInt_pos) (simp add: VERSION_RESOLVE_MAX_ATTEMPTS_def)
  show ?thesis
    using resolve_loop_spec [OF res N] unfolding Let_def resolveVersion_def res
    by (auto simp: list_all_iff split: option.splits)
qed

end
