(* ===== verification/Names.thy ===== *)
theory Names
  imports Prelude
begin

text \<open>
  \<open>src/lib/names.ts\<close>: which strings may name a machine or a named socket, and how a name is
  quoted for a POSIX shell. A name becomes a path segment under the data directory and an
  argument of printed commands; the theorems say that an accepted name is both.
\<close>

definition MAX_NAME_LENGTH :: nat where
  "MAX_NAME_LENGTH = 64"

text \<open>\<open>/^[A-Za-z0-9][A-Za-z0-9._-]*$/\<close>\<close>

definition name_char :: "char \<Rightarrow> bool" where
  "name_char c \<longleftrightarrow> is_alnum c \<or> c = CHR ''.'' \<or> c = CHR ''_'' \<or> c = CHR ''-''"

definition VALID_NAME :: "string \<Rightarrow> bool" where
  "VALID_NAME s = (case s of [] \<Rightarrow> False | c # cs \<Rightarrow> is_alnum c \<and> list_all name_char cs)"

definition assertValidResourceName :: "string \<Rightarrow> unit result" where
  "assertValidResourceName name =
     (if length name = 0 then Inl (QuickCHRError INVALID_NAME ''names cannot be empty'')
      else if starts_with ''-'' name
        then Inl (QuickCHRError INVALID_NAME ''names cannot start with -'')
      else if length name > MAX_NAME_LENGTH
        then Inl (QuickCHRError INVALID_NAME ''names are limited to 64 characters'')
      else if \<not> VALID_NAME name
        then Inl (QuickCHRError INVALID_NAME ''names may contain only letters, digits, dot, underscore and hyphen'')
      else Inr ())"

definition isPathSafeName :: "platform \<Rightarrow> string \<Rightarrow> bool" where
  "isPathSafeName plat name =
     (if length name = 0 then False
      else if name = ''.'' \<or> name = ''..'' then False
      else if CHR ''/'' \<in> set name \<or> CHR 0x00 \<in> set name then False
      else if plat = Win32 \<and> CHR 0x5C \<in> set name then False
      else True)"

definition assertPathSafeName :: "platform \<Rightarrow> string \<Rightarrow> unit result" where
  "assertPathSafeName plat name =
     (if \<not> isPathSafeName plat name
      then Inl (QuickCHRError INVALID_NAME ''a name cannot be empty, . or .., or contain a path separator'')
      else Inr ())"

definition isValidResourceName :: "string \<Rightarrow> bool" where
  "isValidResourceName name = is_ok (assertValidResourceName name)"

text \<open>\<open>/^[A-Za-z0-9._:=@,+/-]+$/\<close>\<close>

definition shell_safe_char :: "char \<Rightarrow> bool" where
  "shell_safe_char c \<longleftrightarrow> is_alnum c \<or> c \<in> set ''._:=@,+/-''"

definition squote :: char where
  "squote = CHR 0x27"

definition backslash :: char where
  "backslash = CHR 0x5C"

definition shellQuote :: "string \<Rightarrow> string" where
  "shellQuote v =
     (if length v > 0 \<and> list_all shell_safe_char v then v
      else [squote]
        @ concat (map (\<lambda>c. if c = squote then [squote, backslash, squote, squote] else [c]) v)
        @ [squote])"

section \<open>Properties\<close>

lemmas char_class_defs = is_alnum_def is_digit_def is_upper_def is_lower_def

lemma is_alnum_ground [simp]:
  "\<not> is_alnum CHR ''-''" "\<not> is_alnum CHR ''.''" "\<not> is_alnum CHR ''/''"
  "\<not> is_alnum (CHR 0x00)" "\<not> is_alnum (CHR 0x5C)" "\<not> is_alnum (CHR 0x27)"
  by (simp_all add: char_class_defs)

lemma name_char_ground [simp]:
  "\<not> name_char CHR ''/''" "\<not> name_char (CHR 0x00)" "\<not> name_char (CHR 0x5C)"
  by (simp_all add: name_char_def)

lemma assertValid_iff:
  "assertValidResourceName name = Inr () \<longleftrightarrow> length name \<le> MAX_NAME_LENGTH \<and> VALID_NAME name"
proof (cases name)
  case Nil
  then show ?thesis by (simp add: assertValidResourceName_def VALID_NAME_def)
next
  case (Cons c cs)
  have "VALID_NAME name \<Longrightarrow> \<not> starts_with ''-'' name"
    by (auto simp: Cons VALID_NAME_def starts_with_def)
  then show ?thesis by (auto simp: assertValidResourceName_def Cons)
qed

lemma VALID_NAME_chars: "VALID_NAME s \<Longrightarrow> list_all name_char s"
  by (auto simp: VALID_NAME_def name_char_def split: list.splits)

lemma VALID_NAME_path_safe: "VALID_NAME s \<Longrightarrow> isPathSafeName plat s"
  using VALID_NAME_chars [of s]
  by (auto simp: isPathSafeName_def list_all_iff VALID_NAME_def)

lemma path_safe_plain_seg: "isPathSafeName plat s \<Longrightarrow> plain_seg s"
  by (auto simp: isPathSafeName_def plain_seg_def split: if_splits)

text \<open>
  The POSIX shell's reading of one word, the specification \<open>shellQuote\<close> is judged against:
  a single-quoted stretch is literal up to the next single quote, a backslash outside quotes
  makes the next character literal, and outside quotes only the characters that no shell
  treats specially are taken as they are. \<open>None\<close> means that the text is not one word.
\<close>

fun sh_word :: "bool \<Rightarrow> string \<Rightarrow> string option" where
  "sh_word quoted [] = (if quoted then None else Some [])"
| "sh_word True (c # cs) =
     (if c = squote then sh_word False cs else map_option ((#) c) (sh_word True cs))"
| "sh_word False (c # cs) =
     (if c = squote then sh_word True cs
      else if c = backslash
        then (case cs of [] \<Rightarrow> None | d # ds \<Rightarrow> map_option ((#) d) (sh_word False ds))
      else if shell_safe_char c then map_option ((#) c) (sh_word False cs)
      else None)"

lemma shell_safe_ground [simp]: "\<not> shell_safe_char squote" "\<not> shell_safe_char backslash"
  by (simp_all add: shell_safe_char_def squote_def backslash_def)

lemma sh_word_safe: "list_all shell_safe_char v \<Longrightarrow> sh_word False v = Some v"
proof (induction v)
  case (Cons c v)
  then have "c \<noteq> squote" "c \<noteq> backslash" by auto
  with Cons show ?case by simp
qed simp

lemma sh_word_quoted:
  "sh_word True (concat (map (\<lambda>c. if c = squote then [squote, backslash, squote, squote] else [c]) v)
     @ [squote]) = Some v"
  by (induction v) (simp_all add: squote_def backslash_def)



lemma set_norm_segs: "set (norm_segs acc ss) \<subseteq> set acc \<union> set ss"
proof (induction acc ss rule: norm_segs.induct)
  case (2 acc s ss)
  have "set (tl acc) \<subseteq> set acc" by (cases acc) auto
  with 2 show ?case by auto
qed simp

lemma norm_segs_dotdot:
  "list_all plain_seg dir \<Longrightarrow> norm_segs [] (dir @ [''..'']) = butlast dir"
  by (simp add: norm_segs_plain_app butlast_rev [of "rev dir", simplified])

lemma path_safe_iff_child:
  assumes "normal_path dir" and "plat \<noteq> Win32" and "CHR 0x00 \<notin> set name"
  shows "isPathSafeName plat name \<longleftrightarrow> path_join dir name = dir @ [name]"
proof
  assume "isPathSafeName plat name"
  then show "path_join dir name = dir @ [name]"
    using assms(1) by (auto intro: path_join_plain path_safe_plain_seg)
next
  assume eq: "path_join dir name = dir @ [name]"
  have "set (path_join dir name) \<subseteq> set dir \<union> set (split_on CHR ''/'' name)"
    using set_norm_segs [of "[]" "dir @ split_on CHR ''/'' name"] by (simp add: path_join_def)
  then have "name \<in> set dir \<or> name \<in> set (split_on CHR ''/'' name)" using eq by auto
  then have noslash: "CHR ''/'' \<notin> set name"
    using assms(1) split_on_pieces [of name "CHR ''/''" name]
    by (auto simp: normal_path_def list_all_iff plain_seg_def)
  have dir: "list_all plain_seg dir" using assms(1) by (simp add: normal_path_def)
  have "norm_segs [] (dir @ [name]) = dir @ [name]"
    using eq noslash by (simp add: path_join_def)
  then have "name \<noteq> []" "name \<noteq> ''.''" "name \<noteq> ''..''"
    using norm_segs_plain_app [OF dir, of "[]"] norm_segs_dotdot [OF dir]
    by (auto dest: arg_cong [of _ _ length])
  with noslash assms(2,3) show "isPathSafeName plat name"
    by (simp add: isPathSafeName_def)
qed

text \<open>on a POSIX host the path-safety test accepts exactly the names that
  \<open>path.join\<close> turns into a direct child of the directory (so a recursive delete of
  \<open>machines/<name>\<close> can reach neither \<open>machines/\<close> itself nor anything outside it), and every
  name accepted at creation passes it and needs no shell quoting.\<close>

theorem isPathSafeName_exact:
  assumes "normal_path dir" and "plat \<noteq> Win32" and "CHR 0x00 \<notin> set name"
  shows "(isPathSafeName plat name \<longleftrightarrow> path_join dir name = dir @ [name])
    \<and> {n. assertValidResourceName n = Inr ()}
         \<subseteq> {n. isPathSafeName plat n \<and> shellQuote n = n \<and> \<not> starts_with ''-'' n}"
proof -
  have "isPathSafeName plat name \<and> shellQuote name = name \<and> \<not> starts_with ''-'' name"
    if "assertValidResourceName name = Inr ()" for name
  proof -
    from that have v: "VALID_NAME name" by (simp add: assertValid_iff)
    then have "\<not> starts_with ''-'' name" "name \<noteq> []"
      by (auto simp: VALID_NAME_def starts_with_def split: list.splits)
    moreover have "list_all shell_safe_char name"
      using VALID_NAME_chars [OF v] by (auto simp: list_all_iff shell_safe_char_def name_char_def)
    ultimately show ?thesis using VALID_NAME_path_safe [OF v] by (simp add: shellQuote_def)
  qed
  then show ?thesis using path_safe_iff_child [OF assms] by blast
qed

theorem isPathSafeName_exact_witness:
  "(isPathSafeName Linux ''lab.1'' \<longleftrightarrow> path_join [''data'', ''machines''] ''lab.1'' = [''data'', ''machines'', ''lab.1''])
    \<and> {n. assertValidResourceName n = Inr ()}
         \<subseteq> {n. isPathSafeName Linux n \<and> shellQuote n = n \<and> \<not> starts_with ''-'' n}"
proof -
  have "normal_path [''data'', ''machines'']" "Linux \<noteq> Win32" "CHR 0x00 \<notin> set ''lab.1''"
    by (simp_all add: normal_path_def plain_seg_def)
  from isPathSafeName_exact [OF this] show ?thesis unfolding append.simps .
qed

end
