(* ===== verification/Forward_Spec.thy ===== *)
theory Forward_Spec
  imports Prelude
begin

text \<open>
  \<open>src/lib/guest-ports.ts\<close> and \<open>src/lib/forward-spec.ts\<close>: the registry of well-known guest
  ports and the two grammars of a \<open>--forward\<close> argument, a single port
  (\<open>parseForwardSpec\<close>) and a port range (\<open>expandForwardSpec\<close>, the entry point the CLI uses).
\<close>

section \<open>Port mappings and the guest-port registry\<close>

datatype proto = TCP | UDP

definition proto_str :: "proto \<Rightarrow> string" where
  "proto_str p = (case p of TCP \<Rightarrow> ''tcp'' | UDP \<Rightarrow> ''udp'')"

text \<open>\<open>PortMapping\<close> of \<open>types.ts\<close>; host port 0 stands for "allocate one".\<close>

record port_mapping =
  pm_name :: string
  pm_host :: nat
  pm_guest :: nat
  pm_proto :: proto

record guest_port_def =
  gp_name :: string
  gp_guest :: nat
  gp_proto :: proto
  gp_aliases :: "string list"

abbreviation gp :: "string \<Rightarrow> nat \<Rightarrow> proto \<Rightarrow> string list \<Rightarrow> guest_port_def" where
  "gp n g p al \<equiv> \<lparr>gp_name = n, gp_guest = g, gp_proto = p, gp_aliases = al\<rparr>"

definition WELL_KNOWN_GUEST_PORTS :: "guest_port_def list" where
  "WELL_KNOWN_GUEST_PORTS =
    [gp ''ftp'' 21 TCP [], gp ''ssh'' 22 TCP [], gp ''telnet'' 23 TCP [],
     gp ''http'' 80 TCP [''www'', ''webfig''], gp ''https'' 443 TCP [''www-ssl'', ''webfig-ssl''],
     gp ''snmp'' 161 UDP [], gp ''bandwidth-test'' 2000 TCP [''btest''],
     gp ''dude'' 2210 TCP [], gp ''dude-secure'' 2211 TCP [], gp ''upnp'' 2828 TCP [],
     gp ''winbox'' 8291 TCP [], gp ''api'' 8728 TCP [], gp ''api-ssl'' 8729 TCP [],
     gp ''socks'' 1080 TCP [],
     gp ''dns'' 53 UDP [], gp ''dns-tcp'' 53 TCP [], gp ''ntp'' 123 UDP [],
     gp ''smb'' 445 TCP [''cifs''], gp ''syslog'' 514 UDP [], gp ''mqtt'' 1883 TCP [],
     gp ''winrm'' 5985 TCP [], gp ''winrm-https'' 5986 TCP [], gp ''http-alt'' 8080 TCP [],
     gp ''https-alt'' 8443 TCP [], gp ''mqtts'' 8883 TCP []]"

definition lookupGuestPort :: "string \<Rightarrow> guest_port_def option" where
  "lookupGuestPort nameOrAlias =
     (if nameOrAlias = [] then None
      else (let key = to_lower nameOrAlias in
        find (\<lambda>e. gp_name e = key \<or> list_ex (\<lambda>a. to_lower a = key) (gp_aliases e))
          WELL_KNOWN_GUEST_PORTS))"

section \<open>One port\<close>

definition fwd_fail :: "string \<Rightarrow> 'a result" where
  "fwd_fail reason = Inl (QuickCHRError INVALID_FORWARD_SPEC reason)"

definition parsePort :: "string \<Rightarrow> bool \<Rightarrow> nat result" where
  "parsePort raw allowZero =
     (if \<not> all_digits raw then fwd_fail ''port is not a number''
      else (let n = read_nat raw; lo = (if allowZero then 0 else 1) in
        if n < lo \<or> n > 65535 then fwd_fail ''port out of range'' else Inr n))"

text \<open>The \<open>/proto\<close> suffix, split off at the last slash: the body and the protocol, if any.\<close>

definition split_proto :: "string \<Rightarrow> (string \<times> proto option) result" where
  "split_proto trimmed =
     (case last_index_of CHR ''/'' trimmed of
        None \<Rightarrow> Inr (trimmed, None)
      | Some slash \<Rightarrow>
          (let p = to_lower (drop (Suc slash) trimmed) in
           if p = ''tcp'' then Inr (take slash trimmed, Some TCP)
           else if p = ''udp'' then Inr (take slash trimmed, Some UDP)
           else fwd_fail ''protocol must be tcp or udp''))"

text \<open>\<open>parts[i]\<close>: the empty string and a missing part are the two "not given" cases.\<close>

definition part :: "string list \<Rightarrow> nat \<Rightarrow> string" where
  "part parts i = (if i < length parts then parts ! i else [])"

definition mapping_proto :: "proto option \<Rightarrow> guest_port_def option \<Rightarrow> proto" where
  "mapping_proto explicit known =
     (case explicit of Some p \<Rightarrow> p
      | None \<Rightarrow> (case known of Some k \<Rightarrow> gp_proto k | None \<Rightarrow> TCP))"

definition parseForwardSpec :: "string \<Rightarrow> port_mapping result" where
  "parseForwardSpec spec =
     (if trim spec = [] then fwd_fail ''Empty --forward spec'' else
      bind_result (split_proto (trim spec)) (\<lambda>(body, protoStr).
      (let parts = split_on CHR '':'' body in
       if length parts > 3 then fwd_fail ''too many segments'' else
       (let name = trim (part parts 0) in
        if name = [] then fwd_fail ''name is required'' else
        (let known = lookupGuestPort name in
         bind_result (if part parts 1 \<noteq> [] then parsePort (part parts 1) True else Inr 0) (\<lambda>host.
         bind_result (if part parts 2 \<noteq> [] then parsePort (part parts 2) False
                      else (case known of Some k \<Rightarrow> Inr (gp_guest k)
                            | None \<Rightarrow> fwd_fail ''guest port required for unknown service''))
           (\<lambda>guest. Inr \<lparr>pm_name = name, pm_host = host, pm_guest = guest,
                         pm_proto = mapping_proto protoStr known\<rparr>)))))))"

section \<open>Port ranges\<close>

definition FORWARD_RANGE_MAX :: nat where
  "FORWARD_RANGE_MAX = 64"

text \<open>\<open>parseRange\<close> is called on segments that contain a dash; the split is at the first one.\<close>

definition parseRange :: "string \<Rightarrow> (nat \<times> nat) result" where
  "parseRange raw =
     (case index_of CHR ''-'' raw of
        None \<Rightarrow> bind_result (parsePort (butlast raw) False)
                  (\<lambda>s. bind_result (parsePort raw False)
                  (\<lambda>e. if e < s then fwd_fail ''range end is below start'' else Inr (s, e)))
      | Some dash \<Rightarrow>
          bind_result (parsePort (take dash raw) False)
            (\<lambda>s. bind_result (parsePort (drop (Suc dash) raw) False)
            (\<lambda>e. if e < s then fwd_fail ''range end is below start'' else Inr (s, e))))"

definition has_dash :: "string \<Rightarrow> bool" where
  "has_dash s \<longleftrightarrow> CHR ''-'' \<in> set s"

definition range_mapping :: "string \<Rightarrow> proto \<Rightarrow> nat \<Rightarrow> nat \<Rightarrow> nat \<Rightarrow> port_mapping" where
  "range_mapping name p hostStart guestStart i =
     \<lparr>pm_name = name @ ''-'' @ show_nat (hostStart + i), pm_host = hostStart + i,
      pm_guest = guestStart + i, pm_proto = p\<rparr>"

definition expandForwardSpec :: "string \<Rightarrow> port_mapping list result" where
  "expandForwardSpec spec =
     (if trim spec = [] then fwd_fail ''Empty --forward spec'' else
      bind_result (split_proto (trim spec)) (\<lambda>(body, protoStr).
      (let parts = split_on CHR '':'' body in
       if \<not> (has_dash (part parts 1) \<or> has_dash (part parts 2))
       then bind_result (parseForwardSpec spec) (\<lambda>m. Inr [m])
       else if length parts > 3 then fwd_fail ''too many segments'' else
       (let name = trim (part parts 0) in
        if name = [] then fwd_fail ''name is required''
        else if \<not> has_dash (part parts 1)
          then fwd_fail ''a range --forward requires an explicit host range'' else
        bind_result (parseRange (part parts 1)) (\<lambda>(hs, he).
        bind_result (if part parts 2 \<noteq> [] then
                       (if \<not> has_dash (part parts 2)
                        then fwd_fail ''guest segment must be a range matching the host range''
                        else parseRange (part parts 2))
                     else Inr (hs, he)) (\<lambda>(gs, ge).
        (let hostCount = he - hs + 1; guestCount = ge - gs + 1 in
         if hostCount \<noteq> guestCount
           then fwd_fail ''host range and guest range must be the same length''
         else if hostCount > FORWARD_RANGE_MAX then fwd_fail ''range exceeds the port cap''
         else Inr (map (range_mapping name (mapping_proto protoStr (lookupGuestPort name)) hs gs)
                [0..<hostCount]))))))))"

section \<open>What a successful parse promises\<close>

lemma fwd_fail_simps [simp]: "fwd_fail r \<noteq> Inr x" "Inr x \<noteq> fwd_fail r" "throws (fwd_fail r) c \<longleftrightarrow> c = INVALID_FORWARD_SPEC"
  by (auto simp: fwd_fail_def)

lemma parsePort_Inr:
  "parsePort raw z = Inr n \<longleftrightarrow> all_digits raw \<and> n = read_nat raw \<and> (if z then 0 else 1) \<le> n \<and> n \<le> 65535"
  by (auto simp: parsePort_def Let_def)

lemma parsePort_show [simp]:
  "(if z then 0 else 1) \<le> n \<Longrightarrow> n \<le> 65535 \<Longrightarrow> parsePort (show_nat n) z = Inr n"
  by (simp add: parsePort_Inr)

lemma parseRange_dash:
  "CHR ''-'' \<in> set raw \<Longrightarrow> parseRange raw = Inr (a, b) \<Longrightarrow> 1 \<le> a \<and> a \<le> b \<and> b \<le> 65535"
  by (cases "index_of CHR ''-'' raw")
    (auto simp: parseRange_def bind_result_Inr_iff parsePort_Inr split: if_splits)

definition guest_ports_ok :: bool where
  "guest_ports_ok \<longleftrightarrow> list_all (\<lambda>e. 1 \<le> gp_guest e \<and> gp_guest e \<le> 65535) WELL_KNOWN_GUEST_PORTS"

lemma guest_ports_ok: guest_ports_ok
  by (simp add: guest_ports_ok_def WELL_KNOWN_GUEST_PORTS_def)

lemma lookupGuestPort_range:
  assumes "lookupGuestPort n = Some k" shows "1 \<le> gp_guest k \<and> gp_guest k \<le> 65535"
proof -
  have "k \<in> set WELL_KNOWN_GUEST_PORTS"
    using assms by (auto simp: lookupGuestPort_def Let_def find_Some_iff in_set_conv_nth split: if_splits)
  then show ?thesis using guest_ports_ok by (auto simp: guest_ports_ok_def list_all_iff)
qed

text \<open>A mapping with both ports in range; host 0 asks for allocation.\<close>

definition mapping_in_range :: "port_mapping \<Rightarrow> bool" where
  "mapping_in_range m \<longleftrightarrow> pm_name m \<noteq> [] \<and> pm_host m \<le> 65535 \<and> 1 \<le> pm_guest m \<and> pm_guest m \<le> 65535"

lemma parseForwardSpec_range: "parseForwardSpec spec = Inr m \<Longrightarrow> mapping_in_range m"
  by (auto simp: parseForwardSpec_def bind_result_Inr_iff Let_def parsePort_Inr mapping_in_range_def
      dest: lookupGuestPort_range split: if_splits option.splits)

lemma expandForwardSpec_cases:
  assumes "expandForwardSpec spec = Inr ms"
  shows "(\<exists>m. ms = [m] \<and> parseForwardSpec spec = Inr m)
    \<or> (\<exists>name p hs gs n. name \<noteq> [] \<and> ms = map (range_mapping name p hs gs) [0..<n]
          \<and> 1 \<le> n \<and> n \<le> FORWARD_RANGE_MAX \<and> 1 \<le> hs \<and> hs + n \<le> 65536 \<and> 1 \<le> gs \<and> gs + n \<le> 65536)"
proof -
  obtain body pr where sp: "split_proto (trim spec) = Inr (body, pr)"
    using assms by (auto simp: expandForwardSpec_def bind_result_Inr_iff split: if_splits)
  let ?parts = "split_on CHR '':'' body"
  show ?thesis
  proof (cases "has_dash (part ?parts 1) \<or> has_dash (part ?parts 2)")
    case False
    with assms sp show ?thesis
      by (auto simp: expandForwardSpec_def bind_result_Inr_iff Let_def split: if_splits)
  next
    case True
    then obtain hs he gs ge where h: "has_dash (part ?parts 1)" "parseRange (part ?parts 1) = Inr (hs, he)"
      and g: "(part ?parts 2 = [] \<and> gs = hs \<and> ge = he) \<or> (has_dash (part ?parts 2) \<and> parseRange (part ?parts 2) = Inr (gs, ge))"
      and n: "trim (part ?parts 0) \<noteq> []" "he - hs = ge - gs" "he - hs + 1 \<le> FORWARD_RANGE_MAX"
      and ms: "ms = map (range_mapping (trim (part ?parts 0))
                  (mapping_proto pr (lookupGuestPort (trim (part ?parts 0)))) hs gs) [0..<he - hs + 1]"
      using assms sp
      by (auto simp: expandForwardSpec_def bind_result_Inr_iff Let_def not_less split: if_splits)
    have hr: "1 \<le> hs \<and> hs \<le> he \<and> he \<le> 65535" using parseRange_dash h by (simp add: has_dash_def)
    moreover have "1 \<le> gs \<and> gs \<le> ge \<and> ge \<le> 65535"
      using g hr parseRange_dash [of "part ?parts 2" gs ge] by (auto simp: has_dash_def)
    ultimately show ?thesis using n ms
      by (intro disjI2 exI [of _ "trim (part ?parts 0)"] exI [of _ hs] exI [of _ gs]
          exI [of _ "mapping_proto pr (lookupGuestPort (trim (part ?parts 0)))"] exI [of _ "he - hs + 1"]) auto
  qed
qed

lemma inj_range_mapping: "range_mapping name p hs gs i = range_mapping name p hs gs j \<longleftrightarrow> i = j"
  by (auto simp: range_mapping_def)

lemma range_mapping_simps [simp]:
  "pm_name (range_mapping name p hs gs i) = name @ ''-'' @ show_nat (hs + i)"
  "pm_host (range_mapping name p hs gs i) = hs + i"
  "pm_guest (range_mapping name p hs gs i) = gs + i"
  "pm_proto (range_mapping name p hs gs i) = p"
  by (simp_all add: range_mapping_def)

text \<open>when a forward argument is accepted, it stands for between 1 and 64
  mappings with pairwise different names; every host port fits 16 bits and every guest port is
  in 1 to 65535; the mappings differ from one another by the same step on both sides (guest
  minus host is constant) under one protocol; and when there are several, all host ports are
  explicit (none is 0) and different.\<close>

theorem expandForwardSpec_sound:
  assumes "expandForwardSpec spec = Inr ms"
  shows "1 \<le> length ms \<and> length ms \<le> 64 \<and> distinct (map pm_name ms)
    \<and> list_all mapping_in_range ms
    \<and> list_all (\<lambda>m. int (pm_guest m) - int (pm_host m) = int (pm_guest (hd ms)) - int (pm_host (hd ms))
                   \<and> pm_proto m = pm_proto (hd ms)) ms
    \<and> (length ms = 1 \<or> (0 \<notin> set (map pm_host ms) \<and> distinct (map pm_host ms)))"
  using expandForwardSpec_cases [OF assms]
proof (elim disjE exE conjE)
  fix m assume "ms = [m]" "parseForwardSpec spec = Inr m"
  then show ?thesis using parseForwardSpec_range by simp
next
  fix name p hs gs n
  assume ms: "ms = map (range_mapping name p hs gs) [0..<n]"
    and b: "1 \<le> n" "n \<le> FORWARD_RANGE_MAX" "1 \<le> hs" "hs + n \<le> 65536" "1 \<le> gs" "gs + n \<le> 65536" and "name \<noteq> []"
  then have "hd ms = range_mapping name p hs gs 0" by (simp add: hd_map)
  moreover have "list_all mapping_in_range ms"
    using b \<open>name \<noteq> []\<close> by (auto simp: ms list_all_iff mapping_in_range_def)
  ultimately show ?thesis
    using b by (auto simp: ms list_all_iff distinct_map inj_on_def FORWARD_RANGE_MAX_def)
qed

section \<open>Round trip\<close>

definition render_forward :: "port_mapping \<Rightarrow> string" where
  "render_forward m = pm_name m @ '':'' @ show_nat (pm_host m) @ '':'' @ show_nat (pm_guest m)
     @ ''/'' @ proto_str (pm_proto m)"

definition render_range :: "string \<Rightarrow> proto \<Rightarrow> nat \<Rightarrow> nat \<Rightarrow> nat \<Rightarrow> string" where
  "render_range name p hs gs n = name @ '':'' @ show_nat hs @ ''-'' @ show_nat (hs + n - 1) @ '':''
     @ show_nat gs @ ''-'' @ show_nat (gs + n - 1) @ ''/'' @ proto_str p"

text \<open>A service name the grammar can carry: not empty, trimmed, without separators.\<close>

definition forward_name :: "string \<Rightarrow> bool" where
  "forward_name n \<longleftrightarrow> n \<noteq> [] \<and> trim n = n \<and> CHR '':'' \<notin> set n"

lemma trim_hd_last: "n \<noteq> [] \<Longrightarrow> trim n = n \<Longrightarrow> \<not> is_space (hd n) \<and> \<not> is_space (last n)"
  using trim_ends [of n] by simp

lemma proto_str_props [simp]:
  "proto_str p \<noteq> []" "CHR ''/'' \<notin> set (proto_str p)" "\<not> is_space (last (proto_str p))"
  "to_lower (proto_str p) = proto_str p"
  "proto_str p = ''tcp'' \<longleftrightarrow> p = TCP" "proto_str p = ''udp'' \<longleftrightarrow> p = UDP"
  by (cases p; simp add: proto_str_def is_space_def to_lower_def lower_char_def is_upper_def)+

lemma split_proto_render:
  "split_proto (body @ ''/'' @ proto_str p) = Inr (body, Some p)"
  by (cases p) (simp_all add: split_proto_def proto_str_def to_lower_def lower_char_def is_upper_def)

lemma trim_render:
  "forward_name n \<Longrightarrow> rest \<noteq> [] \<Longrightarrow> \<not> is_space (last rest) \<Longrightarrow> trim (n @ rest) = n @ rest"
  by (rule trim_id) (use trim_hd_last [of n] in \<open>auto simp: forward_name_def\<close>)

lemma part_simps [simp]:
  "part [] i = []" "part (x # xs) 0 = x" "part (x # xs) (Suc i) = part xs i"
  "part (x # xs) 1 = part xs 0" "part (x # xs) (numeral k) = part xs (pred_numeral k)"
  by (simp_all add: part_def numeral_eq_Suc)

lemma split_three:
  "CHR '':'' \<notin> set a \<Longrightarrow> CHR '':'' \<notin> set b \<Longrightarrow> CHR '':'' \<notin> set c \<Longrightarrow>
     split_on CHR '':'' (a @ CHR '':'' # b @ CHR '':'' # c) = [a, b, c]"
  by (simp add: split_on_append_sep)

lemma show_nat_seps [simp]:
  "CHR '':'' \<notin> set (show_nat n)" "CHR ''-'' \<notin> set (show_nat n)" "CHR ''/'' \<notin> set (show_nat n)"
  by (auto intro!: show_nat_notin simp: is_digit_def)

lemma parseRange_render:
  "1 \<le> a \<Longrightarrow> a \<le> b \<Longrightarrow> b \<le> 65535 \<Longrightarrow> parseRange (show_nat a @ CHR ''-'' # show_nat b) = Inr (a, b)"
  by (simp add: parseRange_def)

lemma parse_render_forward:
  assumes "forward_name (pm_name m)" and "mapping_in_range m"
  shows "parseForwardSpec (render_forward m) = Inr m \<and> expandForwardSpec (render_forward m) = Inr [m]"
proof -
  let ?body = "pm_name m @ CHR '':'' # show_nat (pm_host m) @ CHR '':'' # show_nat (pm_guest m)"
  have r: "render_forward m = ?body @ ''/'' @ proto_str (pm_proto m)" by (simp add: render_forward_def)
  have t: "trim (render_forward m) = render_forward m"
    unfolding render_forward_def using assms(1) by (intro trim_render) simp_all
  have ne: "render_forward m \<noteq> []" by (simp add: r)
  have sp: "split_proto (render_forward m) = Inr (?body, Some (pm_proto m))"
    by (simp only: r split_proto_render)
  have parts: "split_on CHR '':'' ?body = [pm_name m, show_nat (pm_host m), show_nat (pm_guest m)]"
    using assms(1) by (simp add: split_three forward_name_def)
  have n: "trim (pm_name m) = pm_name m" "pm_name m \<noteq> []" using assms(1) by (auto simp: forward_name_def)
  have pf: "parseForwardSpec (render_forward m) = Inr m"
    using assms(2)
    by (simp add: parseForwardSpec_def t ne sp parts n mapping_proto_def mapping_in_range_def)
  then show ?thesis by (simp add: expandForwardSpec_def t ne sp parts has_dash_def)
qed

lemma expand_render_range:
  assumes "forward_name name" and "1 \<le> hs" "1 \<le> gs" "1 \<le> n" "n \<le> 64" "hs + n \<le> 65536" "gs + n \<le> 65536"
  shows "expandForwardSpec (render_range name p hs gs n) = Inr (map (range_mapping name p hs gs) [0..<n])"
proof -
  let ?h = "show_nat hs @ CHR ''-'' # show_nat (hs + n - 1)"
  let ?g = "show_nat gs @ CHR ''-'' # show_nat (gs + n - 1)"
  let ?body = "name @ CHR '':'' # ?h @ CHR '':'' # ?g"
  let ?s = "render_range name p hs gs n"
  have r: "?s = ?body @ ''/'' @ proto_str p" by (simp add: render_range_def)
  have t: "trim ?s = ?s"
    unfolding render_range_def using assms(1) by (intro trim_render) simp_all
  have ne: "?s \<noteq> []" by (simp add: r)
  have sp: "split_proto ?s = Inr (?body, Some p)" by (simp only: r split_proto_render)
  have parts: "split_on CHR '':'' ?body = [name, ?h, ?g]"
    using assms(1) by (intro split_three) (auto simp: forward_name_def)
  have nm: "trim name = name" "name \<noteq> []" using assms(1) by (auto simp: forward_name_def)
  have pr: "parseRange ?h = Inr (hs, hs + n - 1)" "parseRange ?g = Inr (gs, gs + n - 1)"
    using assms by (intro parseRange_render; simp)+
  show ?thesis
    unfolding expandForwardSpec_def t sp bind_result_simps prod.case Let_def parts part_simps
    using assms ne nm pr by (simp add: has_dash_def mapping_proto_def FORWARD_RANGE_MAX_def)
qed

text \<open>the grammar reads back what it can write: a mapping printed as
  \<open>name:host:guest/proto\<close> parses to exactly that mapping (also through the range-aware entry
  point), and a printed range of \<open>n\<close> ports expands to the \<open>n\<close> consecutive mappings.\<close>

theorem forward_roundtrip:
  assumes "forward_name (pm_name m)" and "mapping_in_range m"
    and "1 \<le> n" and "n \<le> 64" and "1 \<le> pm_host m" and "pm_host m + n \<le> 65536" and "pm_guest m + n \<le> 65536"
  shows "parseForwardSpec (render_forward m) = Inr m
    \<and> expandForwardSpec (render_forward m) = Inr [m]
    \<and> expandForwardSpec (render_range (pm_name m) (pm_proto m) (pm_host m) (pm_guest m) n)
        = Inr (map (range_mapping (pm_name m) (pm_proto m) (pm_host m) (pm_guest m)) [0..<n])"
  using parse_render_forward [OF assms(1,2)] expand_render_range [OF assms(1,5) _ assms(3,4,6,7)] assms(2)
  by (simp add: mapping_in_range_def)

definition sample_mapping :: port_mapping where
  "sample_mapping = \<lparr>pm_name = ''my-svc'', pm_host = 9200, pm_guest = 2000, pm_proto = UDP\<rparr>"

theorem forward_roundtrip_witness:
  "parseForwardSpec (render_forward sample_mapping) = Inr sample_mapping
    \<and> expandForwardSpec (render_forward sample_mapping) = Inr [sample_mapping]
    \<and> expandForwardSpec (render_range (pm_name sample_mapping) (pm_proto sample_mapping)
          (pm_host sample_mapping) (pm_guest sample_mapping) 3)
        = Inr (map (range_mapping (pm_name sample_mapping) (pm_proto sample_mapping)
            (pm_host sample_mapping) (pm_guest sample_mapping)) [0..<3])"
  by (rule forward_roundtrip) (simp_all add: sample_mapping_def forward_name_def mapping_in_range_def
      trim_def is_space_def)

theorem expandForwardSpec_sound_witness:
  "let ms = map (range_mapping ''btest'' UDP 9200 2000) [0..<3] in
    expandForwardSpec (render_range ''btest'' UDP 9200 2000 3) = Inr ms
    \<and> 1 \<le> length ms \<and> length ms \<le> 64 \<and> distinct (map pm_name ms)
    \<and> list_all mapping_in_range ms
    \<and> list_all (\<lambda>m. int (pm_guest m) - int (pm_host m) = int (pm_guest (hd ms)) - int (pm_host (hd ms))
                   \<and> pm_proto m = pm_proto (hd ms)) ms
    \<and> (length ms = 1 \<or> (0 \<notin> set (map pm_host ms) \<and> distinct (map pm_host ms)))"
proof -
  have e: "expandForwardSpec (render_range ''btest'' UDP 9200 2000 3)
      = Inr (map (range_mapping ''btest'' UDP 9200 2000) [0..<3])"
    by (rule expand_render_range) (simp_all add: forward_name_def trim_def is_space_def)
  show ?thesis
    unfolding Let_def by (rule conjI [OF e expandForwardSpec_sound [OF e]])
qed

end
