(* ===== verification/Network_Ports.thy ===== *)
theory Network_Ports
  imports Forward_Spec "HOL-Library.AList"
begin

text \<open>
  The port half of \<open>src/lib/network.ts\<close>: the 10-port blocks machines are given, the mappings
  built from a block, the validation of explicit extra ports, the probe loop that finds a free
  block, and the QEMU \<open>hostfwd\<close> string.

  A \<open>Record<string, PortMapping>\<close> is an association list in insertion order; assigning to an
  existing key keeps its place (\<^const>\<open>AList.update\<close>). (JavaScript lists integer-like keys
  first; only the order of the \<open>hostfwd\<close> directives depends on it.)
\<close>

section \<open>Blocks\<close>

definition PORTS_PER_BLOCK :: nat where
  "PORTS_PER_BLOCK = 10"

definition DEFAULT_PORT_BASE :: nat where
  "DEFAULT_PORT_BASE = 9100"

text \<open>\<open>Math.abs(a - b) < PORTS_PER_BLOCK\<close>: the blocks that start at the two bases overlap.\<close>

definition overlaps :: "nat \<Rightarrow> nat \<Rightarrow> bool" where
  "overlaps a b \<longleftrightarrow> \<bar>int a - int b\<bar> < int PORTS_PER_BLOCK"

definition next_step :: "nat \<Rightarrow> nat \<Rightarrow> nat" where
  "next_step used base = (if overlaps base used then used + PORTS_PER_BLOCK else base)"

definition nextUnusedBase :: "nat \<Rightarrow> nat list \<Rightarrow> nat" where
  "nextUnusedBase from_base usedBases = fold next_step (sort usedBases) from_base"

definition allocatePortBlock :: "nat list \<Rightarrow> nat option \<Rightarrow> nat" where
  "allocatePortBlock usedBases requestedBase =
     (case requestedBase of Some b \<Rightarrow> b | None \<Rightarrow> nextUnusedBase DEFAULT_PORT_BASE usedBases)"

section \<open>Mappings\<close>

record service_port =
  sp_name :: string
  sp_guest :: nat
  sp_offset :: nat
  sp_proto :: proto

abbreviation svc :: "string \<Rightarrow> nat \<Rightarrow> nat \<Rightarrow> service_port" where
  "svc n g off \<equiv> \<lparr>sp_name = n, sp_guest = g, sp_offset = off, sp_proto = TCP\<rparr>"

definition SERVICE_PORTS :: "service_port list" where
  "SERVICE_PORTS =
    [svc ''http'' 80 0, svc ''https'' 443 1, svc ''ssh'' 22 2, svc ''api'' 8728 3,
     svc ''api-ssl'' 8729 4, svc ''winbox'' 8291 5]"

type_synonym port_table = "(string \<times> port_mapping) list"

definition service_mapping :: "nat \<Rightarrow> service_port \<Rightarrow> port_mapping" where
  "service_mapping portBase s =
     \<lparr>pm_name = sp_name s, pm_host = portBase + sp_offset s, pm_guest = sp_guest s, pm_proto = sp_proto s\<rparr>"

definition extra_label :: "nat \<Rightarrow> port_mapping \<Rightarrow> string" where
  "extra_label i extra = (if pm_name extra \<noteq> [] then pm_name extra else ''custom-'' @ show_nat i)"

definition extra_mapping :: "nat \<Rightarrow> nat \<Rightarrow> port_mapping \<Rightarrow> port_mapping" where
  "extra_mapping portBase i extra =
     \<lparr>pm_name = extra_label i extra, pm_host = (if pm_host extra \<noteq> 0 then pm_host extra else portBase + 6 + i),
      pm_guest = pm_guest extra, pm_proto = pm_proto extra\<rparr>"

definition put_mapping :: "port_mapping \<Rightarrow> port_table \<Rightarrow> port_table" where
  "put_mapping m tbl = AList.update (pm_name m) m tbl"

definition buildPortMappings :: "nat \<Rightarrow> string list \<Rightarrow> port_mapping list \<Rightarrow> port_table" where
  "buildPortMappings portBase excludePorts extraPorts =
     (let services = filter (\<lambda>s. sp_name s \<notin> set excludePorts) SERVICE_PORTS;
          base = fold put_mapping (map (service_mapping portBase) services) [] in
      fold put_mapping (map2 (extra_mapping portBase) [0..<length extraPorts] extraPorts) base)"

section \<open>Explicit extra ports\<close>

text \<open>What the port code reads of a \<open>MachineState\<close>.\<close>

record machine_ports =
  mc_name :: string
  mc_portBase :: nat
  mc_ports :: "port_table option"

definition service_hosts :: "nat \<Rightarrow> string list \<Rightarrow> nat \<rightharpoonup> string" where
  "service_hosts portBase excludePorts =
     fold (\<lambda>s m. m(portBase + sp_offset s \<mapsto> sp_name s))
       (filter (\<lambda>s. sp_name s \<notin> set excludePorts) SERVICE_PORTS) Map.empty"

definition other_hosts :: "string option \<Rightarrow> 'a machine_ports_scheme list \<Rightarrow> nat \<rightharpoonup> string \<times> string" where
  "other_hosts own machines =
     fold (\<lambda>m tbl. if own \<noteq> None \<and> own \<noteq> Some [] \<and> own = Some (mc_name m) then tbl
             else fold (\<lambda>(_, p) t. t(pm_host p \<mapsto> (mc_name m, pm_name p)))
                    (case mc_ports m of None \<Rightarrow> [] | Some ps \<Rightarrow> ps) tbl)
       machines Map.empty"

fun check_extras ::
    "(nat \<rightharpoonup> string) \<Rightarrow> (nat \<rightharpoonup> string \<times> string) \<Rightarrow> nat \<Rightarrow> (nat \<rightharpoonup> string) \<Rightarrow> port_mapping list \<Rightarrow> unit result"
where
  "check_extras svcs others i seen [] = Inr ()"
| "check_extras svcs others i seen (e # es) =
     (if pm_host e = 0 then check_extras svcs others (Suc i) seen es
      else if svcs (pm_host e) \<noteq> None
        then Inl (QuickCHRError PORT_CONFLICT ''collides with built-in service'')
      else if seen (pm_host e) \<noteq> None
        then Inl (QuickCHRError PORT_CONFLICT ''both request the host port'')
      else if others (pm_host e) \<noteq> None
        then Inl (QuickCHRError PORT_CONFLICT ''already allocated to another machine'')
      else check_extras svcs others (Suc i) (seen(pm_host e \<mapsto> extra_label i e)) es)"

definition validateExplicitExtraPorts ::
    "port_mapping list option \<Rightarrow> nat \<Rightarrow> string list \<Rightarrow> 'a machine_ports_scheme list \<Rightarrow> string option \<Rightarrow> unit result"
where
  "validateExplicitExtraPorts extraPorts portBase excludePorts existingMachines ownMachineName =
     (case extraPorts of None \<Rightarrow> Inr ()
      | Some [] \<Rightarrow> Inr ()
      | Some es \<Rightarrow> check_extras (service_hosts portBase excludePorts)
                     (other_hosts ownMachineName existingMachines) 0 Map.empty es)"

section \<open>hostfwd and the probe loop\<close>

definition hostfwd_directive :: "port_mapping \<Rightarrow> string" where
  "hostfwd_directive p =
     ''hostfwd='' @ proto_str (pm_proto p) @ ''::'' @ show_nat (pm_host p) @ ''-:'' @ show_nat (pm_guest p)"

definition buildHostfwdString :: "port_table \<Rightarrow> string" where
  "buildHostfwdString ports = join '','' (map (\<lambda>(_, p). hostfwd_directive p) ports)"

text \<open>The events a connect probe to \<open>127.0.0.1\<close> can end with, and what they are taken to mean.\<close>

datatype probe_event = ProbeConnected | ProbeError string | ProbeTimeout

definition isPortAvailable :: "probe_event \<Rightarrow> bool" where
  "isPortAvailable ev =
     (case ev of ProbeConnected \<Rightarrow> False | ProbeError c \<Rightarrow> c = ''ECONNREFUSED'' | ProbeTimeout \<Rightarrow> True)"

definition checkPortConflicts :: "(nat \<Rightarrow> probe_event) \<Rightarrow> port_table \<Rightarrow> port_mapping list" where
  "checkPortConflicts probe ports = filter (\<lambda>p. \<not> isPortAvailable (probe (pm_host p))) (map snd ports)"

text \<open>The \<open>for\<close> loop: \<open>net k\<close> answers the probes of attempt \<open>k\<close>.\<close>

fun probe_blocks ::
    "(nat \<Rightarrow> nat \<Rightarrow> probe_event) \<Rightarrow> nat list \<Rightarrow> string list \<Rightarrow> port_mapping list \<Rightarrow> nat \<Rightarrow> nat \<Rightarrow> nat \<Rightarrow> nat result"
where
  "probe_blocks net used excl extras 0 k base =
     Inl (QuickCHRError PORT_CONFLICT ''Could not find available port block'')"
| "probe_blocks net used excl extras (Suc n) k base =
     (if checkPortConflicts (net k) (buildPortMappings base excl extras) = [] then Inr base
      else probe_blocks net used excl extras n (Suc k) (nextUnusedBase (base + PORTS_PER_BLOCK) used))"

definition findAvailablePortBlock ::
    "(nat \<Rightarrow> nat \<Rightarrow> probe_event) \<Rightarrow> nat list \<Rightarrow> string list \<Rightarrow> port_mapping list \<Rightarrow> nat option \<Rightarrow> nat result"
where
  "findAvailablePortBlock net used excl extras startBase =
     probe_blocks net used excl extras 20 0
       (case startBase of Some b \<Rightarrow> b | None \<Rightarrow> allocatePortBlock used None)"

section \<open>The public port map\<close>

text \<open>\<open>name.replace(/-([a-z])/g, upper case)\<close>\<close>

fun kebab_to_camel :: "string \<Rightarrow> string" where
  "kebab_to_camel [] = []"
| "kebab_to_camel [c] = [c]"
| "kebab_to_camel (c # d # cs) =
     (if c = CHR ''-'' \<and> is_lower d then upper_char d # kebab_to_camel cs
      else c # kebab_to_camel (d # cs))"

definition toChrPorts :: "port_table \<Rightarrow> (string \<times> nat) list" where
  "toChrPorts ports = fold (\<lambda>(n, m) r. AList.update (kebab_to_camel n) (pm_host m) r) ports []"

section \<open>The base search\<close>

lemma overlaps_sym: "overlaps a b \<longleftrightarrow> overlaps b a"
  by (auto simp: overlaps_def)

lemma overlaps_iff: "overlaps a b \<longleftrightarrow> a < b + 10 \<and> b < a + 10"
  by (auto simp: overlaps_def PORTS_PER_BLOCK_def)

lemma fold_next_step:
  assumes "sorted us"
  shows "b \<le> fold next_step us b
    \<and> (\<forall>u\<in>set us. \<not> overlaps (fold next_step us b) u)
    \<and> (\<forall>c. b \<le> c \<and> c < fold next_step us b \<longrightarrow> (\<exists>u\<in>set us. overlaps c u))
    \<and> (\<forall>v. (\<forall>u\<in>set us. v \<le> u) \<and> v + 10 \<le> b \<longrightarrow> v + 10 \<le> fold next_step us b)"
  using assms
proof (induction us arbitrary: b)
  case (Cons u us)
  let ?b = "next_step u b"
  let ?r = "fold next_step us ?b"
  have s: "sorted us" and le: "\<forall>x\<in>set us. u \<le> x" using Cons.prems by auto
  note IH = Cons.IH [OF s, of ?b]
  have step: "b \<le> ?b" "u + 10 \<le> ?b \<or> (?b = b \<and> b + 10 \<le> u)"
    by (auto simp: next_step_def overlaps_iff PORTS_PER_BLOCK_def)
  have "\<not> overlaps ?r u"
  proof (cases "u + 10 \<le> ?b")
    case True
    then have "u + 10 \<le> ?r" using IH le by blast
    then show ?thesis by (simp add: overlaps_iff)
  next
    case False
    with step have b: "?b = b" "b + 10 \<le> u" by auto
    have "?r = b"
    proof (rule ccontr)
      assume "?r \<noteq> b"
      then have "b < ?r" using IH b by auto
      then obtain x where "x \<in> set us" "overlaps b x" using IH b by auto
      then show False using le b by (auto simp: overlaps_iff)
    qed
    then show ?thesis using b by (simp add: overlaps_iff)
  qed
  moreover have "\<exists>x\<in>set (u # us). overlaps c x" if "b \<le> c" "c < ?r" for c
  proof (cases "c < ?b")
    case True
    with that(1) have "overlaps c u"
      by (auto simp: next_step_def overlaps_iff PORTS_PER_BLOCK_def split: if_splits)
    then show ?thesis by simp
  next
    case False
    then show ?thesis using IH that by auto
  qed
  ultimately show ?case using IH step by fastforce
qed simp

lemma nextUnusedBase_props:
  "f \<le> nextUnusedBase f used" "u \<in> set used \<Longrightarrow> \<not> overlaps (nextUnusedBase f used) u"
  "f \<le> c \<Longrightarrow> c < nextUnusedBase f used \<Longrightarrow> \<exists>u\<in>set used. overlaps c u"
  using fold_next_step [of "sort used" f] by (auto simp: nextUnusedBase_def)

text \<open>one pass over the sorted bases is enough: the base found is at or above the
  start, its 10-port block overlaps no used block, and it is the lowest such base (every base
  between the start and it overlaps a used block).\<close>

theorem nextUnusedBase_lowest:
  "f \<le> nextUnusedBase f used
   \<and> \<not> list_ex (overlaps (nextUnusedBase f used)) used
   \<and> list_all (\<lambda>c. list_ex (overlaps c) used) [f..<nextUnusedBase f used]"
  using nextUnusedBase_props(1) [of f used] nextUnusedBase_props(2,3)
  by (auto simp: list_ex_iff list_all_iff)

section \<open>The probe loop\<close>

definition attempt_base :: "nat list \<Rightarrow> nat \<Rightarrow> nat \<Rightarrow> nat" where
  "attempt_base used b0 k = ((\<lambda>b. nextUnusedBase (b + PORTS_PER_BLOCK) used) ^^ k) b0"

lemma attempt_base_Suc:
  "attempt_base used b0 (Suc k) = nextUnusedBase (attempt_base used b0 k + PORTS_PER_BLOCK) used"
  by (simp add: attempt_base_def)

lemma attempt_base_mono: "b0 + 10 * k \<le> attempt_base used b0 k"
proof (induction k)
  case 0
  then show ?case by (simp add: attempt_base_def)
next
  case (Suc k)
  then show ?case
    using nextUnusedBase_props(1) [of "attempt_base used b0 k + PORTS_PER_BLOCK" used]
    unfolding attempt_base_Suc by (simp add: PORTS_PER_BLOCK_def)
qed

definition block_conflicts ::
    "(nat \<Rightarrow> nat \<Rightarrow> probe_event) \<Rightarrow> string list \<Rightarrow> port_mapping list \<Rightarrow> nat \<Rightarrow> nat \<Rightarrow> bool" where
  "block_conflicts net excl extras k b \<longleftrightarrow> checkPortConflicts (net k) (buildPortMappings b excl extras) \<noteq> []"

lemma probe_blocks_spec:
  "case probe_blocks net used excl extras n k (attempt_base used b0 k) of
      Inr b \<Rightarrow> \<exists>j. k \<le> j \<and> j < k + n \<and> b = attempt_base used b0 j \<and> \<not> block_conflicts net excl extras j b
                 \<and> (\<forall>i. k \<le> i \<and> i < j \<longrightarrow> block_conflicts net excl extras i (attempt_base used b0 i))
    | Inl e \<Rightarrow> err_code e = PORT_CONFLICT
                 \<and> (\<forall>i. k \<le> i \<and> i < k + n \<longrightarrow> block_conflicts net excl extras i (attempt_base used b0 i))"
proof (induction n arbitrary: k)
  case (Suc n)
  let ?B = "attempt_base used b0"
  show ?case
  proof (cases "block_conflicts net excl extras k (?B k)")
    case False
    then show ?thesis by (auto simp: block_conflicts_def intro!: exI [of _ k])
  next
    case True
    have e: "probe_blocks net used excl extras (Suc n) k (?B k)
        = probe_blocks net used excl extras n (Suc k) (?B (Suc k))"
      using True by (simp add: block_conflicts_def attempt_base_Suc)
    have split: "k \<le> i \<longleftrightarrow> i = k \<or> Suc k \<le> i" for i by auto
    show ?thesis
      unfolding e using Suc.IH [of "Suc k"] True
      by (auto simp: split split: sum.splits intro: Suc_leD)
  qed
qed auto

lemma no_conflicts_iff:
  "\<not> block_conflicts net excl extras k b
   \<longleftrightarrow> list_all (\<lambda>(_, p). isPortAvailable (net k (pm_host p))) (buildPortMappings b excl extras)"
  by (auto simp: block_conflicts_def checkPortConflicts_def filter_empty_conv list_all_iff)

text \<open>with no start base given, a returned block starts at or above 9100,
  overlaps no used block, every one of its ports was probed available, and every earlier attempt
  met an occupied port; the search gives up (with \<open>PORT_CONFLICT\<close>) only after 20 different
  blocks, at least 10 apart, each met an occupied port.\<close>

theorem findAvailablePortBlock_result:
  "let B = attempt_base used (nextUnusedBase DEFAULT_PORT_BASE used) in
   (case findAvailablePortBlock net used excl extras None of
      Inr b \<Rightarrow> DEFAULT_PORT_BASE \<le> b \<and> \<not> list_ex (overlaps b) used
        \<and> (\<exists>k<20. b = B k
             \<and> list_all (\<lambda>(_, p). isPortAvailable (net k (pm_host p))) (buildPortMappings b excl extras)
             \<and> list_all (\<lambda>i. block_conflicts net excl extras i (B i)) [0..<k])
    | Inl e \<Rightarrow> err_code e = PORT_CONFLICT
        \<and> list_all (\<lambda>i. block_conflicts net excl extras i (B i) \<and> DEFAULT_PORT_BASE + 10 * i \<le> B i) [0..<20])"
proof -
  let ?b0 = "nextUnusedBase DEFAULT_PORT_BASE used"
  let ?B = "attempt_base used ?b0"
  have b0: "?B 0 = ?b0" by (simp add: attempt_base_def)
  have spec: "findAvailablePortBlock net used excl extras None = probe_blocks net used excl extras 20 0 (?B 0)"
    by (simp add: findAvailablePortBlock_def allocatePortBlock_def b0)
  have ge: "DEFAULT_PORT_BASE + 10 * k \<le> ?B k" for k
    using attempt_base_mono [of ?b0 k used] nextUnusedBase_props(1) [of DEFAULT_PORT_BASE used] by linarith
  have free: "\<not> list_ex (overlaps (?B k)) used" for k
    by (cases k) (auto simp: b0 attempt_base_Suc list_ex_iff dest: nextUnusedBase_props(2))
  note sp = probe_blocks_spec [where net = net and used = used and excl = excl and extras = extras
      and n = 20 and k = 0 and ?b0.0 = ?b0]
  show ?thesis
  proof (cases "probe_blocks net used excl extras 20 0 (?B 0)")
    case (Inl e)
    with sp ge show ?thesis by (simp add: Let_def spec list_all_iff)
  next
    case (Inr b)
    with sp obtain j where j: "j < 20" "b = ?B j" "\<not> block_conflicts net excl extras j b"
      "list_all (\<lambda>i. block_conflicts net excl extras i (?B i)) [0..<j]"
      by (auto simp: list_all_iff)
    then have "DEFAULT_PORT_BASE \<le> b" "\<not> list_ex (overlaps b) used"
      using free le_trans [OF le_add1 ge] by auto
    then show ?thesis
      using j unfolding Let_def spec Inr sum.case no_conflicts_iff by blast
  qed
qed

section \<open>Building a table\<close>

lemma AList_update_new: "k \<notin> fst ` set al \<Longrightarrow> AList.update k v al = al @ [(k, v)]"
  by (induction al) auto

lemma fold_put_new:
  "distinct (map pm_name ms) \<Longrightarrow> set (map pm_name ms) \<inter> fst ` set al = {} \<Longrightarrow>
     fold put_mapping ms al = al @ map (\<lambda>m. (pm_name m, m)) ms"
proof (induction ms arbitrary: al)
  case (Cons m ms)
  have "put_mapping m al = al @ [(pm_name m, m)]"
    using Cons.prems by (simp add: put_mapping_def AList_update_new)
  then show ?case using Cons by (auto simp: image_iff)
qed simp

definition wf_table :: "port_table \<Rightarrow> bool" where
  "wf_table t \<longleftrightarrow> distinct (map fst t) \<and> list_all (\<lambda>(k, m). k = pm_name m) t"

lemma wf_put: "wf_table t \<Longrightarrow> wf_table (put_mapping m t)"
proof -
  assume a: "wf_table t"
  have "set (AList.update (pm_name m) m t) \<subseteq> set t \<union> {(pm_name m, m)}" for t
    by (induction t) auto
  then have "list_all (\<lambda>(k, p). k = pm_name p) (AList.update (pm_name m) m t)"
    using a by (fastforce simp: wf_table_def list_all_iff)
  then show ?thesis using a by (simp add: wf_table_def put_mapping_def distinct_update)
qed

lemma wf_fold_put: "wf_table t \<Longrightarrow> wf_table (fold put_mapping ms t)"
  by (induction ms arbitrary: t) (auto simp: wf_put)

lemma wf_buildPortMappings: "wf_table (buildPortMappings b excl extras)"
  unfolding buildPortMappings_def Let_def by (intro wf_fold_put) (simp add: wf_table_def)

definition included_services :: "string list \<Rightarrow> service_port list" where
  "included_services excl = filter (\<lambda>s. sp_name s \<notin> set excl) SERVICE_PORTS"

definition extra_mappings :: "nat \<Rightarrow> port_mapping list \<Rightarrow> port_mapping list" where
  "extra_mappings b extras = map2 (extra_mapping b) [0..<length extras] extras"

lemma service_names_distinct: "distinct (map sp_name SERVICE_PORTS)" "distinct (map sp_offset SERVICE_PORTS)"
  by (simp_all add: SERVICE_PORTS_def)

lemma service_offsets: "s \<in> set SERVICE_PORTS \<Longrightarrow> sp_offset s < 6"
  by (auto simp: SERVICE_PORTS_def)

lemma buildPortMappings_plain:
  assumes "distinct (map pm_name (extra_mappings b extras))"
    and "set (map pm_name (extra_mappings b extras)) \<inter> set (map sp_name SERVICE_PORTS) = {}"
  shows "map snd (buildPortMappings b excl extras)
    = map (service_mapping b) (included_services excl) @ extra_mappings b extras"
proof -
  let ?S = "map (service_mapping b) (included_services excl)"
  have nm: "map pm_name ?S = map sp_name (included_services excl)"
    by (simp add: service_mapping_def)
  have d: "distinct (map pm_name ?S)"
    unfolding nm unfolding included_services_def using service_names_distinct(1) by (rule distinct_map_filter)
  have t: "fold put_mapping ?S [] = map (\<lambda>m. (pm_name m, m)) ?S"
    using fold_put_new [OF d, of "[]"] by simp
  have "set (map pm_name (extra_mappings b extras)) \<inter> fst ` set (fold put_mapping ?S []) = {}"
    using assms(2) unfolding t by (auto simp: included_services_def service_mapping_def)
  from fold_put_new [OF assms(1) this]
  have "buildPortMappings b excl extras = map (\<lambda>m. (pm_name m, m)) ?S @ map (\<lambda>m. (pm_name m, m)) (extra_mappings b extras)"
    by (simp add: buildPortMappings_def Let_def included_services_def [symmetric] extra_mappings_def [symmetric] t)
  then show ?thesis by (simp add: comp_def)
qed

section \<open>What the validation of explicit extras decides\<close>

definition table_hosts :: "port_table \<Rightarrow> nat list" where
  "table_hosts t = map (\<lambda>(_, p). pm_host p) t"

definition machine_hosts :: "'a machine_ports_scheme \<Rightarrow> nat list" where
  "machine_hosts m = (case mc_ports m of None \<Rightarrow> [] | Some t \<Rightarrow> table_hosts t)"

definition is_own :: "string option \<Rightarrow> 'a machine_ports_scheme \<Rightarrow> bool" where
  "is_own own m \<longleftrightarrow> own \<noteq> Some [] \<and> own = Some (mc_name m)"

definition foreign_hosts :: "string option \<Rightarrow> 'a machine_ports_scheme list \<Rightarrow> nat list" where
  "foreign_hosts own ms = concat (map machine_hosts (filter (\<lambda>m. \<not> is_own own m) ms))"

definition explicit_hosts :: "port_mapping list \<Rightarrow> nat list" where
  "explicit_hosts es = filter (\<lambda>h. h \<noteq> 0) (map pm_host es)"

lemma explicit_hosts_simps [simp]:
  "explicit_hosts [] = []"
  "explicit_hosts (e # es) = (if pm_host e = 0 then [] else [pm_host e]) @ explicit_hosts es"
  by (simp_all add: explicit_hosts_def)

lemma dom_fold_upd: "dom (fold (\<lambda>s m. m(f s \<mapsto> g s)) xs m0) = dom m0 \<union> f ` set xs"
  by (induction xs arbitrary: m0) auto

lemma dom_service_hosts:
  "dom (service_hosts b excl) = set (map (\<lambda>s. b + sp_offset s) (included_services excl))"
  by (simp add: service_hosts_def dom_fold_upd included_services_def)

lemma dom_other_hosts: "dom (other_hosts own ms) = set (foreign_hosts own ms)"
proof -
  have inner: "dom (fold (\<lambda>(_, p) t. t(pm_host p \<mapsto> (n, pm_name p))) ps t) = dom t \<union> set (table_hosts ps)"
    for n ps t
    by (induction ps arbitrary: t) (auto simp: table_hosts_def)
  have "dom (fold (\<lambda>m tbl. if own \<noteq> None \<and> own \<noteq> Some [] \<and> own = Some (mc_name m) then tbl
             else fold (\<lambda>(_, p) t. t(pm_host p \<mapsto> (mc_name m, pm_name p)))
                    (case mc_ports m of None \<Rightarrow> [] | Some ps \<Rightarrow> ps) tbl) ms t) = dom t \<union> set (foreign_hosts own ms)"
    for t
  proof (induction ms arbitrary: t)
    case (Cons m ms)
    show ?case
      unfolding fold_Cons comp_apply Cons.IH
      by (auto simp: foreign_hosts_def is_own_def machine_hosts_def inner table_hosts_def
          simp del: Un_iff split: option.splits)
  qed (simp add: foreign_hosts_def)
  then show ?thesis by (simp add: other_hosts_def)
qed

lemma check_extras_ok:
  "check_extras svcs others i seen es = Inr () \<longleftrightarrow>
     distinct (explicit_hosts es)
     \<and> set (explicit_hosts es) \<inter> (dom svcs \<union> dom others \<union> dom seen) = {}"
proof (induction svcs others i seen es rule: check_extras.induct)
  case (2 svcs others i seen e es)
  let ?h = "pm_host e"
  show ?case
  proof (cases "?h = 0 \<or> ?h \<in> dom svcs \<union> dom seen \<union> dom others")
    case True
    then show ?thesis using 2(1) by auto
  next
    case False
    then have *: "?h \<noteq> 0" "svcs ?h = None" "seen ?h = None" "others ?h = None" by auto
    have "check_extras svcs others i seen (e # es) = Inr ()
        \<longleftrightarrow> check_extras svcs others (Suc i) (seen(?h \<mapsto> extra_label i e)) es = Inr ()"
      by (simp only: check_extras.simps) (simp add: *)
    also have "\<dots> \<longleftrightarrow> distinct (explicit_hosts es)
        \<and> set (explicit_hosts es) \<inter> (dom svcs \<union> dom others \<union> insert ?h (dom seen)) = {}"
    proof -
      have "dom (\<lambda>a. if a = ?h then Some (extra_label i e) else seen a) = insert ?h (dom seen)"
        by (auto split: if_splits)
      then show ?thesis using 2(2) * by (simp add: fun_upd_def)
    qed
    also have "\<dots> \<longleftrightarrow> distinct (explicit_hosts (e # es))
        \<and> set (explicit_hosts (e # es)) \<inter> (dom svcs \<union> dom others \<union> dom seen) = {}"
      using * False by auto
    finally show ?thesis .
  qed
qed simp

lemma check_extras_error:
  "check_extras svcs others i seen es = Inl e \<Longrightarrow> err_code e = PORT_CONFLICT"
  by (induction svcs others i seen es rule: check_extras.induct) (auto split: if_splits)

lemma validate_is_check:
  "validateExplicitExtraPorts (Some es) base excl machines own
     = check_extras (service_hosts base excl) (other_hosts own machines) 0 Map.empty es"
  by (cases es) (simp_all add: validateExplicitExtraPorts_def)

text \<open>the validation accepts a list of extra ports exactly when the
  host ports given explicitly are pairwise different, none is a slot of one of the machine's own
  included services, and none is in the stored port table of another machine (a machine with the
  name being validated does not count, unless that name is empty); everything else is refused
  with \<open>PORT_CONFLICT\<close>.\<close>

theorem validateExplicitExtraPorts_exact:
  "if distinct (explicit_hosts es)
      \<and> set (explicit_hosts es) \<inter> set (map (\<lambda>s. base + sp_offset s) (included_services excl)) = {}
      \<and> set (explicit_hosts es) \<inter> set (foreign_hosts own machines) = {}
   then validateExplicitExtraPorts (Some es) base excl machines own = Inr ()
   else throws (validateExplicitExtraPorts (Some es) base excl machines own) PORT_CONFLICT"
proof -
  let ?r = "check_extras (service_hosts base excl) (other_hosts own machines) 0 Map.empty es"
  have "throws ?r PORT_CONFLICT \<longleftrightarrow> ?r \<noteq> Inr ()"
    by (cases ?r) (auto simp: throws_def dest: check_extras_error)
  then show ?thesis
    unfolding validate_is_check check_extras_ok dom_service_hosts dom_other_hosts by auto
qed

section \<open>Collisions inside one table\<close>

lemma extra_mappings_hosts:
  "map pm_host (extra_mappings b es)
    = map (\<lambda>(i, e). if pm_host e \<noteq> 0 then pm_host e else b + 6 + i) (zip [0..<length es] es)"
  by (simp add: extra_mappings_def extra_mapping_def split_beta)

lemma distinct_extra_hosts:
  assumes "distinct (explicit_hosts es)"
    and "set (explicit_hosts es) \<inter> {c + k..<c + k + length es} = {}"
  shows "distinct (map (\<lambda>(i, e). if pm_host e \<noteq> 0 then pm_host e else c + i) (zip [k..<k + length es] es))
    \<and> set (map (\<lambda>(i, e). if pm_host e \<noteq> 0 then pm_host e else c + i) (zip [k..<k + length es] es))
        \<subseteq> set (explicit_hosts es) \<union> {c + k..<c + k + length es}"
  using assms
proof (induction es arbitrary: k)
  case (Cons e es)
  let ?f = "\<lambda>(i, e). if pm_host e \<noteq> 0 then pm_host e else c + i"
  have "set (explicit_hosts es) \<inter> {c + Suc k..<c + Suc k + length es} = {}"
    using Cons.prems(2) by (auto split: if_splits)
  moreover have "distinct (explicit_hosts es)" using Cons.prems(1) by simp
  ultimately have IH: "distinct (map ?f (zip [Suc k..<Suc k + length es] es))"
    "set (map ?f (zip [Suc k..<Suc k + length es] es)) \<subseteq> set (explicit_hosts es) \<union> {c + Suc k..<c + Suc k + length es}"
    using Cons.IH [of "Suc k"] by blast+
  have upt: "[k..<k + length (e # es)] = k # [Suc k..<Suc k + length es]"
    by (simp add: upt_conv_Cons del: upt_Suc)
  have "?f (k, e) \<notin> set (map ?f (zip [Suc k..<Suc k + length es] es))"
  proof
    assume "?f (k, e) \<in> set (map ?f (zip [Suc k..<Suc k + length es] es))"
    then have "?f (k, e) \<in> set (explicit_hosts es) \<union> {c + Suc k..<c + Suc k + length es}"
      using IH(2) by blast
    then show False using Cons.prems by (auto split: if_splits)
  qed
  moreover have "?f (k, e) \<in> set (explicit_hosts (e # es)) \<union> {c + k..<c + k + length (e # es)}" by simp
  moreover have "set (explicit_hosts es) \<union> {c + Suc k..<c + Suc k + length es}
      \<subseteq> set (explicit_hosts (e # es)) \<union> {c + k..<c + k + length (e # es)}"
    by auto
  ultimately show ?case
    using IH unfolding upt zip_Cons_Cons list.map(2) distinct.simps list.set(2) insert_subset by blast
qed simp

text \<open>for a machine whose extra ports have distinct names that are no service
  names, the validation of the explicit host ports makes the whole port table free of duplicate
  host ports, provided no explicit host port is one of the slots \<open>portBase + 6 + i\<close> that the
  automatic extras use; and every automatic port lies between \<open>portBase\<close> and the end of
  the machine's 10-port block, or the last extra's slot when there are more than four extras.\<close>

theorem port_table_hosts_distinct:
  assumes "validateExplicitExtraPorts (Some es) base excl machines own = Inr ()"
    and "distinct (map pm_name (extra_mappings base es))"
    and "set (map pm_name (extra_mappings base es)) \<inter> set (map sp_name SERVICE_PORTS) = {}"
    and "set (explicit_hosts es) \<inter> set [base + 6..<base + 6 + length es] = {}"
  shows "distinct (table_hosts (buildPortMappings base excl es))
    \<and> set (table_hosts (buildPortMappings base excl es))
          \<subseteq> set (explicit_hosts es) \<union> set [base..<base + max PORTS_PER_BLOCK (6 + length es)]"
proof -
  let ?f = "\<lambda>(i, e). if pm_host e \<noteq> 0 then pm_host e else base + 6 + i"
  let ?S = "map (\<lambda>s. base + sp_offset s) (included_services excl)"
  have v: "distinct (explicit_hosts es)" "set (explicit_hosts es) \<inter> set ?S = {}"
    using assms(1) unfolding validate_is_check check_extras_ok dom_service_hosts dom_other_hosts by auto
  have hosts: "table_hosts (buildPortMappings base excl es) = ?S @ map ?f (zip [0..<length es] es)"
    using arg_cong [OF buildPortMappings_plain [OF assms(2,3), of excl], of "map pm_host"]
    by (simp add: table_hosts_def extra_mappings_hosts service_mapping_def comp_def case_prod_unfold)
  have ex: "distinct (map ?f (zip [0..<length es] es))"
    "set (map ?f (zip [0..<length es] es)) \<subseteq> set (explicit_hosts es) \<union> {base + 6..<base + 6 + length es}"
    using distinct_extra_hosts [OF v(1), of "base + 6" 0] assms(4) by (simp_all add: add.assoc)
  have S: "distinct ?S" "set ?S \<subseteq> {base..<base + 6}"
    using distinct_map_filter [OF service_names_distinct(2)] service_offsets
    by (auto simp: included_services_def distinct_map inj_on_def)
  have "set ?S \<inter> set (map ?f (zip [0..<length es] es)) = {}"
  proof -
    have "{base..<base + 6} \<inter> {base + 6..<base + 6 + length es} = {}" by auto
    then show ?thesis using ex(2) S(2) v(2) by blast
  qed
  then have "distinct (?S @ map ?f (zip [0..<length es] es))"
    using S(1) ex(1) by (simp only: distinct_append)
  moreover have "set (?S @ map ?f (zip [0..<length es] es))
    \<subseteq> set (explicit_hosts es) \<union> {base..<base + max 10 (6 + length es)}"
  proof -
    have "{base..<base + 6} \<subseteq> {base..<base + max 10 (6 + length es)}"
      "{base + 6..<base + 6 + length es} \<subseteq> {base..<base + max 10 (6 + length es)}" by auto
    with S(2) ex(2) show ?thesis by (simp only: set_append) blast
  qed
  ultimately show ?thesis
    unfolding hosts PORTS_PER_BLOCK_def set_upt by blast
qed

abbreviation gx :: "string \<Rightarrow> nat \<Rightarrow> port_mapping" where
  "gx n g \<equiv> \<lparr>pm_name = n, pm_host = 0, pm_guest = g, pm_proto = TCP\<rparr>"

definition clashing_extras :: "port_mapping list" where
  "clashing_extras = [gx ''smb'' 445, gx ''mqtt'' 1883\<lparr>pm_host := 9106\<rparr>]"

definition sample_extras :: "port_mapping list" where
  "sample_extras =
    [\<lparr>pm_name = ''smb'', pm_host = 0, pm_guest = 445, pm_proto = TCP\<rparr>,
     \<lparr>pm_name = ''dns'', pm_host = 9300, pm_guest = 53, pm_proto = UDP\<rparr>]"

theorem port_table_hosts_distinct_witness:
  "distinct (table_hosts (buildPortMappings 9100 [''winbox''] sample_extras))
    \<and> set (table_hosts (buildPortMappings 9100 [''winbox''] sample_extras))
          \<subseteq> set (explicit_hosts sample_extras) \<union> set [9100..<9100 + max PORTS_PER_BLOCK (6 + length sample_extras)]"
proof (rule port_table_hosts_distinct)
  show "validateExplicitExtraPorts (Some sample_extras) 9100 [''winbox''] ([] :: machine_ports list) None = Inr ()"
    by (simp add: validateExplicitExtraPorts_def sample_extras_def service_hosts_def SERVICE_PORTS_def other_hosts_def)
qed (simp_all add: sample_extras_def extra_mappings_def extra_mapping_def extra_label_def SERVICE_PORTS_def)

definition fifth_extras :: "port_mapping list" where
  "fifth_extras = [gx ''a'' 1001, gx ''b'' 1002, gx ''c'' 1003, gx ''d'' 1004, gx ''e'' 1005]"

text \<open>the validation does not make the table free of collisions by itself: an
  explicit host port may name the slot an automatic extra of the same machine is given, and a
  fifth automatic extra is placed outside the machine's block, on the first port of the block
  that the allocator hands to the next machine.\<close>

theorem extra_ports_collide:
  "validateExplicitExtraPorts (Some clashing_extras) 9100 [] ([] :: machine_ports list) None = Inr ()
   \<and> \<not> distinct (table_hosts (buildPortMappings 9100 [] clashing_extras))
   \<and> validateExplicitExtraPorts (Some fifth_extras) 9100 [] ([] :: machine_ports list) None = Inr ()
   \<and> nextUnusedBase DEFAULT_PORT_BASE [9100] = 9110
   \<and> 9110 \<in> set (table_hosts (buildPortMappings 9100 [] fifth_extras))
   \<and> 9110 \<in> set (table_hosts (buildPortMappings 9110 [] []))"
proof -
  note defs = validateExplicitExtraPorts_def clashing_extras_def fifth_extras_def service_hosts_def
    other_hosts_def SERVICE_PORTS_def table_hosts_def buildPortMappings_def Let_def put_mapping_def
    service_mapping_def extra_mapping_def extra_label_def nextUnusedBase_def next_step_def
    overlaps_iff DEFAULT_PORT_BASE_def PORTS_PER_BLOCK_def
  have "validateExplicitExtraPorts (Some clashing_extras) 9100 [] ([] :: machine_ports list) None = Inr ()"
    "validateExplicitExtraPorts (Some fifth_extras) 9100 [] ([] :: machine_ports list) None = Inr ()"
    "nextUnusedBase DEFAULT_PORT_BASE [9100] = 9110"
    by (simp_all add: defs)
  moreover have "table_hosts (buildPortMappings 9100 [] clashing_extras) = [9100..<9107] @ [9106]"
    "table_hosts (buildPortMappings 9100 [] fifth_extras) = [9100..<9111]"
    "table_hosts (buildPortMappings 9110 [] []) = [9110..<9116]"
    by (simp_all add: defs upt_rec)
  ultimately show ?thesis by simp
qed

end
