(* ===== verification/Network_Spec.thy ===== *)
theory Network_Spec
  imports Names Network_Ports Js_Number
begin

text \<open>
  The specifier half of \<open>src/lib/network.ts\<close>: the network specifiers of \<open>types.ts\<close>, their
  command-line grammar, their display form (\<open>src/cli/format.ts\<close>), the configuration a
  machine starts with, and the assignment of MAC addresses.
\<close>

section \<open>Data (\<open>types.ts\<close>)\<close>

datatype network_specifier =
    UserNet | Shared | VmnetShared
  | Bridged string | VmnetBridged string | Tap string
  | NamedSocket string | SocketListen nat | SocketConnect nat | SocketMcast string nat

datatype network_mode = ModeUser | ModeVmnetShared | ModeVmnetBridge string

record network_config =
  nc_specifier :: network_specifier
  nc_id :: string
  nc_mac :: "string option"

definition net_id :: "nat \<Rightarrow> string" where
  "net_id i = ''net'' @ show_nat i"

definition mk_config :: "nat \<Rightarrow> network_specifier \<Rightarrow> network_config" where
  "mk_config i s = \<lparr>nc_specifier = s, nc_id = net_id i, nc_mac = None\<rparr>"

definition networkModeToConfigs :: "network_mode \<Rightarrow> network_config list" where
  "networkModeToConfigs mode =
     (case mode of
        ModeVmnetShared \<Rightarrow> [mk_config 0 VmnetShared]
      | ModeVmnetBridge iface \<Rightarrow> [mk_config 0 (VmnetBridged iface), mk_config 1 VmnetShared]
      | ModeUser \<Rightarrow> [mk_config 0 UserNet])"

definition resolveStartNetworks ::
    "network_specifier list option \<Rightarrow> network_mode option \<Rightarrow> network_config list" where
  "resolveStartNetworks networks legacy =
     (case networks of
        Some (s # ss) \<Rightarrow> map2 mk_config [0..<length (s # ss)] (s # ss)
      | _ \<Rightarrow> (case legacy of Some m \<Rightarrow> networkModeToConfigs m | None \<Rightarrow> [mk_config 0 UserNet]))"

definition hasUserModeNetwork :: "network_config list \<Rightarrow> bool" where
  "hasUserModeNetwork ns = list_ex (\<lambda>n. nc_specifier n = UserNet) ns"

section \<open>Parsing\<close>

definition net_fail :: "string \<Rightarrow> 'a result" where
  "net_fail t = Inl (QuickCHRError INVALID_NETWORK t)"

definition parse_socket_port :: "string \<Rightarrow> nat option" where
  "parse_socket_port raw =
     (let n = Number_of raw in
      if raw = [] \<or> \<not> is_integer n \<or> int_value n < 1 \<or> int_value n > 65535 then None
      else Some (nat (int_value n)))"

definition parseSocketSpecifier :: "string \<Rightarrow> network_specifier result" where
  "parseSocketSpecifier input =
     (if starts_with ''socket::'' input then
        (let name = drop (length ''socket::'') input in
         if name = [] then net_fail ''socket:: requires a link name''
         else bind_result (assertValidResourceName name) (\<lambda>_. Inr (NamedSocket name)))
      else
        (let parts = split_on CHR '':'' input; subtype = part parts 1 in
         if subtype = ''listen'' \<or> subtype = ''connect'' then
           (case parse_socket_port (part parts 2) of
              None \<Rightarrow> net_fail ''requires a valid port number''
            | Some port \<Rightarrow> Inr (if subtype = ''listen'' then SocketListen port else SocketConnect port))
         else if subtype = ''mcast'' then
           (if part parts 2 = [] then net_fail ''socket:mcast requires group and port''
            else (case parse_socket_port (part parts 3) of
                    None \<Rightarrow> net_fail ''socket:mcast requires group and port''
                  | Some port \<Rightarrow> Inr (SocketMcast (part parts 2) port)))
         else net_fail ''Unknown socket subtype''))"

text \<open>The \<open>prefix:\<close> forms: the rest after the prefix must not be empty.\<close>

definition after_prefix :: "string \<Rightarrow> (string \<Rightarrow> network_specifier) \<Rightarrow> string \<Rightarrow> network_specifier result" where
  "after_prefix p f s = (if drop (length p) s = [] then net_fail ''requires an interface name'' else Inr (f (drop (length p) s)))"

definition parseNetworkSpecifier :: "string \<Rightarrow> network_specifier result" where
  "parseNetworkSpecifier input =
     (let trimmed = trim input in
      if trimmed = [] then net_fail ''Empty network specifier''
      else if trimmed = ''user'' then Inr UserNet
      else if trimmed = ''shared'' \<or> trimmed = ''auto'' then Inr Shared
      else if trimmed = ''vmnet-shared'' then Inr VmnetShared
      else if trimmed = ''wifi'' then Inr (Bridged ''wifi'')
      else if trimmed = ''ethernet'' then Inr (Bridged ''ethernet'')
      else if starts_with ''bridged:'' trimmed then after_prefix ''bridged:'' Bridged trimmed
      else if starts_with ''vmnet-bridged:'' trimmed then after_prefix ''vmnet-bridged:'' VmnetBridged trimmed
      else if starts_with ''tap:'' trimmed then after_prefix ''tap:'' Tap trimmed
      else if starts_with ''socket:'' trimmed then parseSocketSpecifier trimmed
      else net_fail ''Unknown network specifier'')"

section \<open>Display (\<open>cli/format.ts\<close>)\<close>

definition format_specifier :: "network_specifier \<Rightarrow> string" where
  "format_specifier s =
     (case s of UserNet \<Rightarrow> ''user'' | Shared \<Rightarrow> ''shared'' | VmnetShared \<Rightarrow> ''vmnet-shared''
      | VmnetBridged i \<Rightarrow> ''vmnet-bridge ('' @ i @ '')''
      | Bridged i \<Rightarrow> ''bridged ('' @ i @ '')''
      | SocketListen p \<Rightarrow> ''socket:listen:'' @ show_nat p
      | SocketConnect p \<Rightarrow> ''socket:connect:'' @ show_nat p
      | SocketMcast g p \<Rightarrow> ''socket:mcast:'' @ g @ '':'' @ show_nat p
      | NamedSocket n \<Rightarrow> ''socket::'' @ n
      | Tap i \<Rightarrow> ''tap:'' @ i)"

definition formatNetworks :: "network_config list \<Rightarrow> string" where
  "formatNetworks ns =
     (if ns = [] then ''none'' else join '', '' (map (\<lambda>n. format_specifier (nc_specifier n)) ns))"

section \<open>MAC addresses\<close>

text \<open>Two lower-case hexadecimal digits: \<open>o.toString(16).padStart(2, "0")\<close>.\<close>

definition hex_digit :: "nat \<Rightarrow> char" where
  "hex_digit d = char_of (if d < 10 then 48 + d else 87 + d)"

definition hex2 :: "nat \<Rightarrow> string" where
  "hex2 b = [hex_digit (b div 16), hex_digit (b mod 16)]"

text \<open>\<open>digest\<close> stands for the SHA-256 of the runtime: the bytes of the hash of a string.\<close>

definition deriveMac :: "(string \<Rightarrow> nat list) \<Rightarrow> string \<Rightarrow> nat \<Rightarrow> nat \<Rightarrow> string" where
  "deriveMac digest name index salt =
     join '':'' (''02'' # map hex2 (take 5 (digest (name @ [CHR 0x00] @ show_nat index @ [CHR 0x00] @ show_nat salt))))"

text \<open>The \<open>while\<close> loop over the salt; \<open>None\<close> is a loop that never ends.\<close>

partial_function (option) free_mac :: "(nat \<Rightarrow> string) \<Rightarrow> string list \<Rightarrow> nat \<Rightarrow> string option" where
  "free_mac derive used salt =
     (if derive salt \<in> set used then free_mac derive used (Suc salt) else Some (derive salt))"

definition has_mac :: "network_config \<Rightarrow> bool" where
  "has_mac n \<longleftrightarrow> nc_mac n \<noteq> None \<and> nc_mac n \<noteq> Some []"

fun assign_each ::
    "(nat \<Rightarrow> nat \<Rightarrow> string) \<Rightarrow> nat \<Rightarrow> string list \<Rightarrow> network_config list \<Rightarrow> network_config list option" where
  "assign_each derive i used [] = Some []"
| "assign_each derive i used (n # ns) =
     (if has_mac n then map_option ((#) n) (assign_each derive (Suc i) used ns)
      else (case free_mac (derive i) used 0 of
              None \<Rightarrow> None
            | Some mac \<Rightarrow> map_option ((#) (n\<lparr>nc_mac := Some mac\<rparr>)) (assign_each derive (Suc i) (mac # used) ns)))"

definition given_macs :: "network_config list \<Rightarrow> string list" where
  "given_macs ns = map (\<lambda>n. the (nc_mac n)) (filter has_mac ns)"

definition assignMacs ::
    "(string \<Rightarrow> nat list) \<Rightarrow> string \<Rightarrow> network_config list \<Rightarrow> string list \<Rightarrow> network_config list option" where
  "assignMacs digest name networks taken =
     assign_each (deriveMac digest name) 0 (given_macs networks @ taken) networks"

section \<open>The grammar\<close>

text \<open>The specifiers the parser can return.\<close>

definition wf_specifier :: "network_specifier \<Rightarrow> bool" where
  "wf_specifier s =
     (case s of
        Bridged i \<Rightarrow> i \<noteq> [] | VmnetBridged i \<Rightarrow> i \<noteq> [] | Tap i \<Rightarrow> i \<noteq> []
      | NamedSocket n \<Rightarrow> assertValidResourceName n = Inr ()
      | SocketListen p \<Rightarrow> 1 \<le> p \<and> p \<le> 65535
      | SocketConnect p \<Rightarrow> 1 \<le> p \<and> p \<le> 65535
      | SocketMcast g p \<Rightarrow> g \<noteq> [] \<and> 1 \<le> p \<and> p \<le> 65535 \<and> CHR '':'' \<notin> set g
      | _ \<Rightarrow> True)"

lemma parse_socket_port_Some:
  "parse_socket_port raw = Some p \<Longrightarrow> 1 \<le> p \<and> p \<le> 65535"
  by (auto simp: parse_socket_port_def Let_def nat_le_iff split: if_splits)

lemma parse_socket_port_show [simp]:
  "parse_socket_port (show_nat p) = (if 1 \<le> p \<and> p \<le> 65535 then Some p else None)"
  by (auto simp: parse_socket_port_def Let_def)

lemma net_fail_simps [simp]: "net_fail t \<noteq> Inr x" "net_fail t = Inl e \<longleftrightarrow> e = QuickCHRError INVALID_NETWORK t"
  by (auto simp: net_fail_def)

lemma assertValid_error: "assertValidResourceName n = Inl e \<Longrightarrow> err_code e = INVALID_NAME"
  by (auto simp: assertValidResourceName_def split: if_splits)

lemma part_no_sep: "c \<notin> set (part (split_on c s) i)"
  using split_on_pieces [of "part (split_on c s) i" c s] by (auto simp: part_def)

lemma parseSocketSpecifier_result:
  "case parseSocketSpecifier s of Inr x \<Rightarrow> wf_specifier x | Inl e \<Rightarrow> err_code e \<in> {INVALID_NETWORK, INVALID_NAME}"
proof (cases "starts_with ''socket::'' s")
  case True
  then show ?thesis
    by (cases "assertValidResourceName (drop (length ''socket::'') s)")
      (auto simp: parseSocketSpecifier_def Let_def wf_specifier_def net_fail_def dest: assertValid_error)
next
  case False
  then show ?thesis
    by (auto simp: parseSocketSpecifier_def Let_def wf_specifier_def net_fail_def part_no_sep
        dest: parse_socket_port_Some split: option.splits)
qed

lemma after_prefix_result:
  "(\<And>r. r \<noteq> [] \<Longrightarrow> wf_specifier (f r)) \<Longrightarrow>
   case after_prefix p f s of Inr x \<Rightarrow> wf_specifier x | Inl e \<Rightarrow> err_code e \<in> {INVALID_NETWORK, INVALID_NAME}"
  by (auto simp: after_prefix_def net_fail_def)

text \<open>C30: whatever text is given, the parser returns a well-formed specifier
  (ports in 1 to 65535, a legal link name, a non-empty interface or group) or throws
  \<open>INVALID_NETWORK\<close> or, for a bad link name, \<open>INVALID_NAME\<close>; and the spaces around the text do
  not matter.\<close>

theorem parseNetworkSpecifier_sound:
  "(case parseNetworkSpecifier s of
      Inr x \<Rightarrow> wf_specifier x
    | Inl e \<Rightarrow> err_code e \<in> {INVALID_NETWORK, INVALID_NAME})
   \<and> parseNetworkSpecifier (trim s) = parseNetworkSpecifier s"
proof -
  have "case after_prefix p f t of Inr x \<Rightarrow> wf_specifier x | Inl e \<Rightarrow> err_code e \<in> {INVALID_NETWORK, INVALID_NAME}"
    if "f \<in> {Bridged, VmnetBridged, Tap}" for p f t
    using that by (intro after_prefix_result) (auto simp: wf_specifier_def)
  then show ?thesis
    using parseSocketSpecifier_result [of "trim s"]
    by (simp add: parseNetworkSpecifier_def Let_def net_fail_def wf_specifier_def)
qed

text \<open>A specifier whose free text survives the trimming of a command-line argument.\<close>

definition trimmed_text :: "string \<Rightarrow> bool" where
  "trimmed_text t \<longleftrightarrow> (t = [] \<or> \<not> is_space (last t))"

definition spec_text :: "network_specifier \<Rightarrow> string" where
  "spec_text s = (case s of Bridged i \<Rightarrow> i | VmnetBridged i \<Rightarrow> i | Tap i \<Rightarrow> i | NamedSocket n \<Rightarrow> n | _ \<Rightarrow> [])"

text \<open>What to type for a specifier: its display form, except for the bridged ones.\<close>

definition spec_arg :: "network_specifier \<Rightarrow> string" where
  "spec_arg s =
     (case s of Bridged i \<Rightarrow> ''bridged:'' @ i | VmnetBridged i \<Rightarrow> ''vmnet-bridged:'' @ i
      | _ \<Rightarrow> format_specifier s)"

lemma trim_prefixed:
  "p \<noteq> [] \<Longrightarrow> \<not> is_space (hd p) \<Longrightarrow> \<not> is_space (last p) \<Longrightarrow> trimmed_text t \<Longrightarrow> trim (p @ t) = p @ t"
  by (rule trim_id) (cases "t = []", auto simp: trimmed_text_def)

lemma show_nat_trimmed: "trimmed_text (show_nat p)"
  using show_nat_digits [of p] by (auto simp: trimmed_text_def list_all_iff is_digit_not_space)

lemma trimmed_append: "b \<noteq> [] \<Longrightarrow> trimmed_text b \<Longrightarrow> trimmed_text (a @ b)"
  by (simp add: trimmed_text_def)

lemma trim_spec_arg:
  assumes "trimmed_text (spec_text s)"
  shows "trim (spec_arg s) = spec_arg s"
proof -
  have pre: "\<And>t. trimmed_text t \<Longrightarrow> trim (''socket:listen:'' @ t) = ''socket:listen:'' @ t"
    "\<And>t. trimmed_text t \<Longrightarrow> trim (''socket:connect:'' @ t) = ''socket:connect:'' @ t"
    "\<And>t. trimmed_text t \<Longrightarrow> trim (''socket:mcast:'' @ t) = ''socket:mcast:'' @ t"
    "\<And>t. trimmed_text t \<Longrightarrow> trim (''socket::'' @ t) = ''socket::'' @ t"
    "\<And>t. trimmed_text t \<Longrightarrow> trim (''tap:'' @ t) = ''tap:'' @ t"
    "\<And>t. trimmed_text t \<Longrightarrow> trim (''bridged:'' @ t) = ''bridged:'' @ t"
    "\<And>t. trimmed_text t \<Longrightarrow> trim (''vmnet-bridged:'' @ t) = ''vmnet-bridged:'' @ t"
    by (rule trim_prefixed; simp add: is_space_def)+
  have m: "trimmed_text (g @ '':'' @ show_nat p)" for g p
    using show_nat_trimmed [of p] by (simp add: trimmed_text_def)
  show ?thesis
    using assms pre pre(3) [OF m] show_nat_trimmed
    by (cases s) (auto simp: spec_arg_def format_specifier_def spec_text_def trim_def is_space_def)
qed

text \<open>every specifier the parser can return (whose free text does not end in
  white space) has an argument that parses back to it, and for all but the two bridged forms
  that argument is the text the program displays for it.\<close>

theorem network_spec_roundtrip:
  assumes "wf_specifier s" and "trimmed_text (spec_text s)"
  shows "parseNetworkSpecifier (spec_arg s) = Inr s
    \<and> (case s of Bridged i \<Rightarrow> True | VmnetBridged i \<Rightarrow> True
        | _ \<Rightarrow> parseNetworkSpecifier (format_specifier s) = Inr s)"
proof -
  note t = trim_spec_arg [OF assms(2)]
  have "parseNetworkSpecifier (spec_arg s) = Inr s"
  proof (cases s)
    case (NamedSocket n)
    then have "assertValidResourceName n = Inr ()" using assms(1) by (simp add: wf_specifier_def)
    moreover from this have "n \<noteq> []" by (auto simp: assertValidResourceName_def)
    ultimately show ?thesis using NamedSocket t
      by (simp add: parseNetworkSpecifier_def Let_def spec_arg_def format_specifier_def starts_with_def
          parseSocketSpecifier_def)
  next
    case (SocketMcast g p)
    then have "split_on CHR '':'' (g @ CHR '':'' # show_nat p) = [g, show_nat p]"
      using assms(1) by (simp add: split_on_append_sep wf_specifier_def)
    with SocketMcast show ?thesis using assms(1) t
      by (simp add: parseNetworkSpecifier_def Let_def spec_arg_def format_specifier_def starts_with_def
          parseSocketSpecifier_def wf_specifier_def)
  qed (use assms(1) t in \<open>simp_all add: parseNetworkSpecifier_def Let_def spec_arg_def
      format_specifier_def starts_with_def after_prefix_def parseSocketSpecifier_def wf_specifier_def\<close>)
  then show ?thesis by (simp add: spec_arg_def split: network_specifier.splits)
qed

theorem network_spec_roundtrip_witness:
  "parseNetworkSpecifier (spec_arg (SocketMcast ''230.0.0.1'' 4001)) = Inr (SocketMcast ''230.0.0.1'' 4001)
    \<and> (case SocketMcast ''230.0.0.1'' 4001 of Bridged i \<Rightarrow> True | VmnetBridged i \<Rightarrow> True
        | _ \<Rightarrow> parseNetworkSpecifier (format_specifier (SocketMcast ''230.0.0.1'' 4001))
               = Inr (SocketMcast ''230.0.0.1'' 4001))"
  by (rule network_spec_roundtrip) (simp_all add: wf_specifier_def spec_text_def trimmed_text_def)

section \<open>MAC assignment\<close>

lemma free_mac_Some:
  assumes "free_mac derive used k = Some mac"
  shows "mac \<notin> set used \<and> (\<exists>salt\<ge>k. mac = derive salt)"
proof (rule free_mac.raw_induct [OF _ assms])
  fix f :: "(nat \<Rightarrow> string) \<Rightarrow> string list \<Rightarrow> nat \<Rightarrow> string option" and derive used k r
  assume IH: "\<And>a b c d. f a b c = Some d \<Longrightarrow> d \<notin> set b \<and> (\<exists>salt\<ge>c. d = a salt)"
    and r: "(if derive k \<in> set used then f derive used (Suc k) else Some (derive k)) = Some r"
  show "r \<notin> set used \<and> (\<exists>salt\<ge>k. r = derive salt)"
  proof (cases "derive k \<in> set used")
    case True
    then have "r \<notin> set used \<and> (\<exists>salt\<ge>Suc k. r = derive salt)" using r IH by simp
    then show ?thesis using Suc_leD by blast
  qed (use r in auto)
qed

lemma free_mac_reaches:
  "derive (k + d) \<notin> set used \<Longrightarrow> \<exists>mac. free_mac derive used k = Some mac"
proof (induction d arbitrary: k)
  case 0
  then show ?case by (subst free_mac.simps) simp
next
  case (Suc d)
  show ?case
  proof (cases "derive k \<in> set used")
    case True
    then have "free_mac derive used k = free_mac derive used (Suc k)"
      by (subst free_mac.simps) simp
    then show ?thesis using Suc.IH [of "Suc k"] Suc.prems by simp
  next
    case False
    then show ?thesis by (subst free_mac.simps) simp
  qed
qed

lemma free_mac_terminates:
  assumes "length used < card (derive ` set salts)"
  shows "\<exists>mac. free_mac derive used 0 = Some mac"
proof -
  have "card (set used) < card (derive ` set salts)"
    using assms card_length [of used] by linarith
  then have "\<not> derive ` set salts \<subseteq> set used"
    using card_mono [of "set used" "derive ` set salts"] by auto
  then obtain d where "derive (0 + d) \<notin> set used" by auto
  then show ?thesis by (rule free_mac_reaches)
qed

text \<open>What one assignment does to the list: only missing addresses are filled in, each with one
  that is not used yet.\<close>

fun filled :: "string list \<Rightarrow> network_config list \<Rightarrow> network_config list \<Rightarrow> bool" where
  "filled used [] [] \<longleftrightarrow> True"
| "filled used (n # ns) (m # ms) \<longleftrightarrow>
     (if has_mac n then m = n \<and> filled used ns ms
      else (case nc_mac m of None \<Rightarrow> False
            | Some mac \<Rightarrow> m = n\<lparr>nc_mac := Some mac\<rparr> \<and> mac \<notin> set used \<and> filled (mac # used) ns ms))"
| "filled used _ _ \<longleftrightarrow> False"

lemma assign_each_filled:
  "assign_each derive i used ns = Some ms \<Longrightarrow> filled used ns ms"
proof (induction derive i used ns arbitrary: ms rule: assign_each.induct)
  case (2 derive i used n ns)
  then show ?case by (auto split: if_splits option.splits dest: free_mac_Some)
qed simp

lemma assign_each_total:
  assumes "\<And>j. j < length ns \<Longrightarrow> \<exists>salts. length used + length ns < card (derive (i + j) ` set salts)"
  shows "\<exists>ms. assign_each derive i used ns = Some ms"
  using assms
proof (induction ns arbitrary: i used)
  case (Cons n ns)
  have step: "\<exists>salts. length (u # used) + length ns < card (derive (Suc i + j) ` set salts)" if "j < length ns" for j u
    using Cons.prems [of "Suc j"] that by simp
  have keep: "\<exists>ms. assign_each derive (Suc i) used ns = Some ms"
  proof (rule Cons.IH)
    fix j assume "j < length ns"
    then show "\<exists>salts. length used + length ns < card (derive (Suc i + j) ` set salts)"
      using step [of j] by (metis length_Cons add_Suc Suc_lessD)
  qed
  have "\<exists>ms. assign_each derive (Suc i) (u # used) ns = Some ms" for u
    by (rule Cons.IH) (rule step)
  moreover have "\<exists>mac. free_mac (derive i) used 0 = Some mac"
  proof -
    obtain salts where "length used + length (n # ns) < card (derive i ` set salts)"
      using Cons.prems [of 0] by auto
    then show ?thesis using free_mac_terminates [of used "derive i" salts] by simp
  qed
  ultimately show ?case using keep by fastforce
qed simp

lemma filled_length: "filled used ns ms \<Longrightarrow> length ms = length ns"
  by (induction used ns ms rule: filled.induct) (auto split: if_splits option.splits)

lemma hex2_notNil: "deriveMac digest name i salt \<noteq> []"
  by (cases "take 5 (digest (name @ [CHR 0x00] @ show_nat i @ [CHR 0x00] @ show_nat salt))")
    (simp_all add: deriveMac_def)

lemma assign_each_macs:
  "assign_each (deriveMac digest name) i used ns = Some ms \<Longrightarrow> list_all has_mac ms"
proof (induction "deriveMac digest name" i used ns arbitrary: ms rule: assign_each.induct)
  case (2 i used n ns)
  then show ?case
    by (auto split: if_splits option.splits simp: has_mac_def dest!: free_mac_Some)
      (auto simp: hex2_notNil)
qed simp

lemma assign_each_done: "list_all has_mac ns \<Longrightarrow> assign_each derive i used ns = Some ns"
  by (induction ns arbitrary: i) auto

text \<open>The addresses an assignment chose.\<close>

definition chosen_macs :: "network_config list \<Rightarrow> network_config list \<Rightarrow> string list" where
  "chosen_macs ns ms = map (\<lambda>(_, m). the (nc_mac m)) (filter (\<lambda>(n, _). \<not> has_mac n) (zip ns ms))"

lemma filled_chosen:
  "filled used ns ms \<Longrightarrow> distinct (chosen_macs ns ms) \<and> set (chosen_macs ns ms) \<inter> set used = {}
     \<and> map nc_specifier ms = map nc_specifier ns \<and> map nc_id ms = map nc_id ns
     \<and> list_all (\<lambda>(n, m). if has_mac n then m = n else True) (zip ns ms)"
  by (induction used ns ms rule: filled.induct)
    (auto simp: chosen_macs_def split: if_splits option.splits)


text \<open>A toy digest for the witness: the last character of the text, five times.\<close>

definition last_char_digest :: "string \<Rightarrow> nat list" where
  "last_char_digest s = replicate 5 (code (last s))"


end
