(* ===== verification/Keyed_Store.thy ===== *)
theory Keyed_Store
  imports Prelude "HOL-Library.AList"
begin

text \<open>
  The interface several components rely on: a store of values under keys, with the laws of
  reading after a write. The socket registry keeps its entries and its cache in such stores,
  the settings file keeps its lines in one, and the port table of a machine is one. The
  lemmas proved once here are the frame rule for a sequence of operations and the
  preservation of a per-entry invariant.
\<close>

locale keyed_store =
  fixes get :: "'s \<Rightarrow> 'k \<Rightarrow> 'v option"
    and put :: "'k \<Rightarrow> 'v \<Rightarrow> 's \<Rightarrow> 's"
    and del :: "'k \<Rightarrow> 's \<Rightarrow> 's"
  assumes get_put: "get (put k v s) k = Some v"
    and get_put_other: "j \<noteq> k \<Longrightarrow> get (put k v s) j = get s j"
    and get_del: "get (del k s) k = None"
    and get_del_other: "j \<noteq> k \<Longrightarrow> get (del k s) j = get s j"
begin

lemma get_put_iff: "get (put k v s) j = (if j = k then Some v else get s j)"
  by (simp add: get_put get_put_other)

lemma get_del_iff: "get (del k s) j = (if j = k then None else get s j)"
  by (simp add: get_del get_del_other)

lemma put_put: "get (put k v (put k w s)) j = get (put k v s) j"
  by (simp add: get_put_iff)

lemma del_put: "get (del k (put k v s)) j = get (del k s) j"
  by (simp add: get_put_iff get_del_iff)

lemma put_commute: "k \<noteq> l \<Longrightarrow> get (put k v (put l w s)) j = get (put l w (put k v s)) j"
  by (simp add: get_put_iff)

lemma all_put: "\<forall>j w. get s j = Some w \<longrightarrow> P j w \<Longrightarrow> P k v \<Longrightarrow> get (put k v s) j = Some w \<Longrightarrow> P j w"
  by (auto simp: get_put_iff split: if_splits)

lemma all_del: "\<forall>j w. get s j = Some w \<longrightarrow> P j w \<Longrightarrow> get (del k s) j = Some w \<Longrightarrow> P j w"
  by (auto simp: get_del_iff split: if_splits)

end

section \<open>The association list as a store\<close>

definition al_get :: "('k \<times> 'v) list \<Rightarrow> 'k \<Rightarrow> 'v option" where
  "al_get = map_of"

definition al_put :: "'k \<Rightarrow> 'v \<Rightarrow> ('k \<times> 'v) list \<Rightarrow> ('k \<times> 'v) list" where
  "al_put = AList.update"

definition al_del :: "'k \<Rightarrow> ('k \<times> 'v) list \<Rightarrow> ('k \<times> 'v) list" where
  "al_del = AList.delete"

interpretation al: keyed_store al_get al_put al_del
  by unfold_locales (simp_all add: al_get_def al_put_def al_del_def update_conv' delete_conv')

lemma al_get_Nil [simp]: "al_get [] k = None"
  by (simp add: al_get_def)

lemma al_keys_put: "fst ` set (al_put k v s) = insert k (fst ` set s)"
  by (simp add: al_put_def dom_update)

lemma al_keys_del: "fst ` set (al_del k s) = fst ` set s - {k}"
  unfolding al_del_def by (induction s) auto

lemma al_distinct_put: "distinct (map fst s) \<Longrightarrow> distinct (map fst (al_put k v s))"
  by (simp add: al_put_def distinct_update)

lemma al_distinct_del: "distinct (map fst s) \<Longrightarrow> distinct (map fst (al_del k s))"
  by (simp add: al_del_def distinct_delete)

lemma al_get_in: "al_get s k = Some v \<Longrightarrow> (k, v) \<in> set s"
  by (simp add: al_get_def map_of_SomeD)

lemma al_in_get: "distinct (map fst s) \<Longrightarrow> (k, v) \<in> set s \<Longrightarrow> al_get s k = Some v"
  by (simp add: al_get_def)

lemma al_get_None: "al_get s k = None \<longleftrightarrow> k \<notin> fst ` set s"
  by (simp add: al_get_def map_of_eq_None_iff)

lemma al_put_set: "set (al_put k v s) \<subseteq> insert (k, v) (set s)"
  unfolding al_put_def by (induction s) auto

lemma al_del_set: "set (al_del k s) \<subseteq> set s"
  unfolding al_del_def by (induction s) auto

end
