(* ===== verification/Socket_Registry.thy ===== *)
theory Socket_Registry
  imports Names Keyed_Store
begin

text \<open>
  \<open>src/lib/socket-registry.ts\<close>: the persistent registry of named L2 links. The state is what
  one process sees: its write-through cache (a JavaScript \<open>Map\<close>), the \<open><name>.json\<close> files of
  the shared directory, and the endpoint sockets in it. The body of an operation runs under
  the entry lock and is one atomic step here.
\<close>

section \<open>Entries\<close>

datatype socket_mode = Mcast | ListenConnect | Dgram

record socket_entry =
  se_name :: string
  se_mode :: socket_mode
  se_mcastGroup :: "string option"
  se_port :: "nat option"
  se_createdAt :: string
  se_members :: "string list"
  se_endpoints :: "string option list option"
  se_autoCreated :: bool

text \<open>The JSON of an entry file, in which the later fields may be missing, and a file whose
  reading or parsing throws.\<close>

record raw_entry =
  rw_name :: string
  rw_mode :: socket_mode
  rw_mcastGroup :: "string option"
  rw_port :: "nat option"
  rw_createdAt :: string
  rw_members :: "string list option"
  rw_endpoints :: "string option list option"
  rw_autoCreated :: "bool option"

datatype entry_file = Unreadable | Json raw_entry

record registry =
  rg_cache :: "(string \<times> socket_entry) list"
  rg_disk :: "(string \<times> entry_file) list"
  rg_socks :: "(string \<times> nat) list"

text \<open>An operation: a result and the registry it leaves, also when it throws.\<close>

type_synonym 'a rop = "registry \<Rightarrow> 'a result \<times> registry"

definition DEFAULT_START_PORT :: nat where "DEFAULT_START_PORT = 4000"
definition DEFAULT_MCAST_GROUP :: string where "DEFAULT_MCAST_GROUP = ''230.0.0.1''"
definition SUN_PATH_MAX :: nat where "SUN_PATH_MAX = 104"

definition defaultSocketMode :: "platform \<Rightarrow> socket_mode" where
  "defaultSocketMode plat = (if plat = Win32 then ListenConnect else Dgram)"

definition normalizeEntry :: "raw_entry \<Rightarrow> socket_entry" where
  "normalizeEntry raw =
     \<lparr>se_name = rw_name raw, se_mode = rw_mode raw, se_mcastGroup = rw_mcastGroup raw,
      se_port = rw_port raw, se_createdAt = rw_createdAt raw,
      se_members = (case rw_members raw of Some ms \<Rightarrow> ms | None \<Rightarrow> []),
      se_endpoints = (case rw_endpoints raw of Some es \<Rightarrow> Some es
                      | None \<Rightarrow> if rw_mode raw = Mcast then None else Some [None, None]),
      se_autoCreated = (case rw_autoCreated raw of Some b \<Rightarrow> b | None \<Rightarrow> False)\<rparr>"

text \<open>\<open>JSON.stringify\<close>: an undefined field is left out.\<close>

definition to_raw :: "socket_entry \<Rightarrow> raw_entry" where
  "to_raw e =
     \<lparr>rw_name = se_name e, rw_mode = se_mode e, rw_mcastGroup = se_mcastGroup e, rw_port = se_port e,
      rw_createdAt = se_createdAt e, rw_members = Some (se_members e), rw_endpoints = se_endpoints e,
      rw_autoCreated = Some (se_autoCreated e)\<rparr>"

section \<open>Files and cache\<close>

definition saveEntry :: "socket_entry \<Rightarrow> registry \<Rightarrow> registry" where
  "saveEntry e r = r\<lparr>rg_disk := al_put (se_name e) (Json (to_raw e)) (rg_disk r),
                     rg_cache := al_put (se_name e) e (rg_cache r)\<rparr>"

definition read_entry :: "string \<Rightarrow> registry \<Rightarrow> socket_entry option" where
  "read_entry name r =
     (case al_get (rg_disk r) name of Some (Json raw) \<Rightarrow> Some (normalizeEntry raw) | _ \<Rightarrow> None)"

definition reloadEntry :: "string \<Rightarrow> registry \<Rightarrow> socket_entry option \<times> registry" where
  "reloadEntry name r =
     (case read_entry name r of
        Some e \<Rightarrow> (Some e, r\<lparr>rg_cache := al_put name e (rg_cache r)\<rparr>)
      | None \<Rightarrow> (None, r\<lparr>rg_cache := al_del name (rg_cache r)\<rparr>))"

definition file_port :: "entry_file \<Rightarrow> nat option" where
  "file_port f = (case f of Json raw \<Rightarrow> rw_port raw | Unreadable \<Rightarrow> None)"

definition portsInUse :: "registry \<Rightarrow> nat list" where
  "portsInUse r = List.map_filter (\<lambda>(_, e). se_port e) (rg_cache r)
                  @ List.map_filter (\<lambda>(_, f). file_port f) (rg_disk r)"

definition allocatePort :: "registry \<Rightarrow> nat" where
  "allocatePort r = (let used = portsInUse r in if used = [] then DEFAULT_START_PORT else Max (set used) + 1)"

text \<open>\<open>Buffer.byteLength\<close> of a path: two bytes for a code unit above 127.\<close>

definition byte_length :: "string \<Rightarrow> nat" where
  "byte_length s = sum_list (map (\<lambda>c. if code c < 128 then 1 else 2) s)"

definition endpoint_path :: "string \<Rightarrow> string \<Rightarrow> nat \<Rightarrow> string" where
  "endpoint_path dir name slot = dir @ ''/'' @ name @ ''.'' @ show_nat slot @ ''.sock''"

definition socketEndpointPath :: "platform \<Rightarrow> string \<Rightarrow> string \<Rightarrow> nat \<Rightarrow> string result" where
  "socketEndpointPath plat dir name slot =
     bind_result (assertPathSafeName plat name) (\<lambda>_. Inr (endpoint_path dir name slot))"

definition assertEndpointPathsFit :: "string \<Rightarrow> string \<Rightarrow> unit result" where
  "assertEndpointPathsFit dir name =
     (if list_ex (\<lambda>slot. byte_length (endpoint_path dir name slot) > SUN_PATH_MAX) [0, 1]
      then Inl (QuickCHRError INVALID_NETWORK ''Unix socket path is over the limit'') else Inr ())"

section \<open>Creating\<close>

record create_opts =
  co_mode :: "socket_mode option"
  co_port :: "nat option"
  co_mcastGroup :: "string option"
  co_autoCreated :: "bool option"

definition no_opts :: create_opts where
  "no_opts = \<lparr>co_mode = None, co_port = None, co_mcastGroup = None, co_autoCreated = None\<rparr>"

definition build_entry :: "string \<Rightarrow> socket_mode \<Rightarrow> create_opts \<Rightarrow> string \<Rightarrow> nat option \<Rightarrow> socket_entry" where
  "build_entry name mode opts now port =
     \<lparr>se_name = name, se_mode = mode,
      se_mcastGroup = (if mode = Mcast then Some (case co_mcastGroup opts of Some g \<Rightarrow> g | None \<Rightarrow> DEFAULT_MCAST_GROUP) else None),
      se_port = port, se_createdAt = now, se_members = [],
      se_endpoints = (if mode = Mcast then None else Some [None, None]),
      se_autoCreated = (case co_autoCreated opts of Some b \<Rightarrow> b | None \<Rightarrow> False)\<rparr>"

definition create_mode :: "platform \<Rightarrow> create_opts \<Rightarrow> socket_mode" where
  "create_mode plat opts = (case co_mode opts of Some m \<Rightarrow> m | None \<Rightarrow> defaultSocketMode plat)"

definition createEntry ::
    "platform \<Rightarrow> string \<Rightarrow> string \<Rightarrow> string \<Rightarrow> create_opts \<Rightarrow> socket_entry rop" where
  "createEntry plat dir now name opts r =
     (case assertValidResourceName name of
        Inl e \<Rightarrow> (Inl e, r)
      | Inr _ \<Rightarrow>
        (let mode = create_mode plat opts in
         if co_mcastGroup opts \<noteq> None \<and> mode \<noteq> Mcast
           then (Inl (QuickCHRError INVALID_NETWORK ''mcastGroup only applies to mode mcast''), r)
         else if co_port opts \<noteq> None \<and> mode = Dgram
           then (Inl (QuickCHRError INVALID_NETWORK ''port does not apply to mode dgram''), r)
         else
           (case (if mode = Dgram then assertEndpointPathsFit dir name else Inr ()) of
              Inl e \<Rightarrow> (Inl e, r)
            | Inr _ \<Rightarrow>
               (let port = (if mode = Dgram then None
                            else (case co_port opts of Some p \<Rightarrow> Some p | None \<Rightarrow> Some (allocatePort r)));
                    e = build_entry name mode opts now port in
                (Inr e, saveEntry e r)))))"

text \<open>\<open>withEntryLock\<close>: the lock's path is the entry's, so the path check comes first.\<close>

definition with_entry :: "platform \<Rightarrow> string \<Rightarrow> 'a rop \<Rightarrow> 'a rop" where
  "with_entry plat name body r =
     (case assertPathSafeName plat name of Inl e \<Rightarrow> (Inl e, r) | Inr _ \<Rightarrow> body r)"

definition createNamedSocket ::
    "platform \<Rightarrow> string \<Rightarrow> string \<Rightarrow> string \<Rightarrow> create_opts \<Rightarrow> socket_entry rop" where
  "createNamedSocket plat dir now name opts = with_entry plat name (\<lambda>r.
     (case reloadEntry name r of
        (Some _, r') \<Rightarrow> (Inl (QuickCHRError STATE_ERROR ''Named socket already exists''), r')
      | (None, r') \<Rightarrow> createEntry plat dir now name opts r'))"

section \<open>Reading\<close>

definition getNamedSocket :: "platform \<Rightarrow> string \<Rightarrow> registry \<Rightarrow> socket_entry option \<times> registry" where
  "getNamedSocket plat name r =
     (case al_get (rg_cache r) name of
        Some e \<Rightarrow> (Some e, r)
      | None \<Rightarrow> (if assertPathSafeName plat name \<noteq> Inr () then (None, r)
                 else (case read_entry name r of
                         Some e \<Rightarrow> (Some e, r\<lparr>rg_cache := al_put name e (rg_cache r)\<rparr>)
                       | None \<Rightarrow> (None, r))))"

definition list_step :: "string \<Rightarrow> registry \<Rightarrow> registry" where
  "list_step name r =
     (if al_get (rg_cache r) name \<noteq> None then r
      else (case read_entry name r of Some e \<Rightarrow> r\<lparr>rg_cache := al_put name e (rg_cache r)\<rparr> | None \<Rightarrow> r))"

definition listNamedSockets :: "registry \<Rightarrow> socket_entry list \<times> registry" where
  "listNamedSockets r = (let r' = fold list_step (map fst (rg_disk r)) r in (map snd (rg_cache r'), r'))"

definition slot_of :: "string option list \<Rightarrow> string \<Rightarrow> nat option" where
  "slot_of es m = (let i = length (takeWhile (\<lambda>x. x \<noteq> Some m) es) in if i < length es then Some i else None)"

definition getSocketSlot :: "socket_entry \<Rightarrow> string \<Rightarrow> nat option" where
  "getSocketSlot e m = (case se_endpoints e of None \<Rightarrow> None | Some es \<Rightarrow> slot_of es m)"

section \<open>Joining and leaving\<close>

definition free_slot :: "string option list \<Rightarrow> nat option" where
  "free_slot es = (let i = length (takeWhile (\<lambda>x. x \<noteq> None) es) in if i < length es then Some i else None)"

text \<open>The entry after \<open>claimEndpoint\<close>, or the refusal.\<close>

definition claim_slot :: "socket_entry \<Rightarrow> string \<Rightarrow> socket_entry result" where
  "claim_slot e m =
     (case se_endpoints e of
        None \<Rightarrow> Inr e
      | Some es \<Rightarrow>
          if Some m \<in> set es then Inr e
          else (case free_slot es of
                  None \<Rightarrow> Inl (QuickCHRError NETWORK_UNAVAILABLE ''both ends are held'')
                | Some i \<Rightarrow> Inr (e\<lparr>se_endpoints := Some (es[i := Some m])\<rparr>)))"

definition claimEndpoint :: "socket_entry \<Rightarrow> string \<Rightarrow> socket_entry rop" where
  "claimEndpoint e m r =
     (case claim_slot e m of
        Inl err \<Rightarrow> (Inl err, r)
      | Inr e1 \<Rightarrow>
         (let e2 = (if m \<in> set (se_members e1) then e1 else e1\<lparr>se_members := se_members e1 @ [m]\<rparr>) in
          (Inr e2, if e2 = e then r else saveEntry e2 r)))"

definition addSocketMember :: "platform \<Rightarrow> string \<Rightarrow> string \<Rightarrow> socket_entry rop" where
  "addSocketMember plat name m = with_entry plat name (\<lambda>r.
     (case reloadEntry name r of
        (None, r') \<Rightarrow> (Inl (QuickCHRError STATE_ERROR ''Named socket not found''), r')
      | (Some e, r') \<Rightarrow> claimEndpoint e m r'))"

definition joinNamedSocket ::
    "platform \<Rightarrow> string \<Rightarrow> string \<Rightarrow> string \<Rightarrow> string \<Rightarrow> bool option \<Rightarrow> socket_entry rop" where
  "joinNamedSocket plat dir now name m auto = with_entry plat name (\<lambda>r.
     (case reloadEntry name r of
        (Some e, r') \<Rightarrow> claimEndpoint e m r'
      | (None, r') \<Rightarrow>
         (case createEntry plat dir now name
                 (no_opts\<lparr>co_autoCreated := Some (case auto of Some b \<Rightarrow> b | None \<Rightarrow> False)\<rparr>) r' of
            (Inl err, r'') \<Rightarrow> (Inl err, r'')
          | (Inr e, r'') \<Rightarrow> claimEndpoint e m r'')))"

definition removeEntry :: "string \<Rightarrow> registry \<Rightarrow> bool \<times> registry" where
  "removeEntry name r =
     (let wasCached = al_get (rg_cache r) name \<noteq> None;
          r1 = r\<lparr>rg_cache := al_del name (rg_cache r),
                 rg_socks := filter (\<lambda>(n, _). n \<noteq> name) (rg_socks r)\<rparr> in
      if al_get (rg_disk r1) name = None then (wasCached, r1)
      else (True, r1\<lparr>rg_disk := al_del name (rg_disk r1)\<rparr>))"

definition removeNamedSocket :: "platform \<Rightarrow> string \<Rightarrow> bool rop" where
  "removeNamedSocket plat name = with_entry plat name (\<lambda>r.
     (case reloadEntry name r of
        (Some e, r') \<Rightarrow>
          if se_members e \<noteq> [] then (Inl (QuickCHRError STATE_ERROR ''Named socket is in use''), r')
          else (let (b, r'') = removeEntry name r' in (Inr b, r''))
      | (None, r') \<Rightarrow> (let (b, r'') = removeEntry name r' in (Inr b, r''))))"

definition drop_member :: "string \<Rightarrow> socket_entry \<Rightarrow> socket_entry" where
  "drop_member m e =
     e\<lparr>se_members := filter (\<lambda>x. x \<noteq> m) (se_members e),
       se_endpoints := map_option (map (\<lambda>x. if x = Some m then None else x)) (se_endpoints e)\<rparr>"

definition removeSocketMember :: "platform \<Rightarrow> string \<Rightarrow> string \<Rightarrow> unit rop" where
  "removeSocketMember plat name m = with_entry plat name (\<lambda>r.
     (case reloadEntry name r of
        (None, r') \<Rightarrow> (Inr (), r')
      | (Some e, r') \<Rightarrow>
          (let e' = drop_member m e in
           if se_members e' = [] \<and> se_autoCreated e' then (Inr (), snd (removeEntry name r'))
           else (Inr (), saveEntry e' r'))))"

section \<open>Several processes\<close>

text \<open>Processes share the directory; each has its own cache.\<close>

datatype reg_op =
    OpCreate string create_opts | OpJoin string string "bool option" | OpAdd string string
  | OpLeave string string | OpRemove string | OpGet string | OpList

fun op_run :: "platform \<Rightarrow> string \<Rightarrow> string \<Rightarrow> reg_op \<Rightarrow> registry \<Rightarrow> registry" where
  "op_run plat dir now (OpCreate name opts) r = snd (createNamedSocket plat dir now name opts r)"
| "op_run plat dir now (OpJoin name m auto) r = snd (joinNamedSocket plat dir now name m auto r)"
| "op_run plat dir now (OpAdd name m) r = snd (addSocketMember plat name m r)"
| "op_run plat dir now (OpLeave name m) r = snd (removeSocketMember plat name m r)"
| "op_run plat dir now (OpRemove name) r = snd (removeNamedSocket plat name r)"
| "op_run plat dir now (OpGet name) r = snd (getNamedSocket plat name r)"
| "op_run plat dir now OpList r = snd (listNamedSockets r)"

record world =
  wd_caches :: "nat \<Rightarrow> (string \<times> socket_entry) list"
  wd_disk :: "(string \<times> entry_file) list"
  wd_socks :: "(string \<times> nat) list"

definition view :: "nat \<Rightarrow> world \<Rightarrow> registry" where
  "view p w = \<lparr>rg_cache = wd_caches w p, rg_disk = wd_disk w, rg_socks = wd_socks w\<rparr>"

definition world_step :: "platform \<Rightarrow> string \<Rightarrow> nat \<times> string \<times> reg_op \<Rightarrow> world \<Rightarrow> world" where
  "world_step plat dir ev w =
     (let (p, now, rop) = ev; r = op_run plat dir now rop (view p w) in
      \<lparr>wd_caches = (wd_caches w)(p := rg_cache r), wd_disk = rg_disk r, wd_socks = rg_socks r\<rparr>)"

definition run_world :: "platform \<Rightarrow> string \<Rightarrow> (nat \<times> string \<times> reg_op) list \<Rightarrow> world \<Rightarrow> world" where
  "run_world plat dir evs w = fold (world_step plat dir) evs w"

definition empty_world :: world where
  "empty_world = \<lparr>wd_caches = (\<lambda>_. []), wd_disk = [], wd_socks = []\<rparr>"

section \<open>The invariant of an entry\<close>

definition held :: "string option list \<Rightarrow> string list" where
  "held es = List.map_filter id es"

lemma set_held: "set (held es) = {m. Some m \<in> set es}"
  by (force simp: held_def map_filter_def)

lemma held_Cons [simp]: "held [] = []" "held (None # es) = held es" "held (Some m # es) = m # held es"
  by (simp_all add: held_def map_filter_simps)

text \<open>A mode and the fields it implies agree, nobody is a member twice, and on a two-ended link the
  members are exactly the machines that hold an end, each of them one end.\<close>

definition wf_entry :: "socket_entry \<Rightarrow> bool" where
  "wf_entry e \<longleftrightarrow>
     distinct (se_members e)
     \<and> (se_mode e = Dgram \<longleftrightarrow> se_port e = None)
     \<and> (se_mode e = Mcast \<longleftrightarrow> se_mcastGroup e \<noteq> None)
     \<and> (case se_endpoints e of
          None \<Rightarrow> se_mode e = Mcast
        | Some es \<Rightarrow> se_mode e \<noteq> Mcast \<and> length es = 2 \<and> distinct (held es)
                     \<and> set (held es) = set (se_members e))"

lemma normalize_to_raw: "wf_entry e \<Longrightarrow> normalizeEntry (to_raw e) = e"
  by (cases e) (auto simp: normalizeEntry_def to_raw_def wf_entry_def split: option.splits)

definition wf_file :: "string \<Rightarrow> entry_file \<Rightarrow> bool" where
  "wf_file n f \<longleftrightarrow> (case f of Unreadable \<Rightarrow> False
     | Json raw \<Rightarrow> (let e = normalizeEntry raw in
         to_raw e = raw \<and> wf_entry e \<and> se_name e = n \<and> assertValidResourceName n = Inr ()))"

definition wf_disk :: "(string \<times> entry_file) list \<Rightarrow> bool" where
  "wf_disk d \<longleftrightarrow> distinct (map fst d) \<and> list_all (\<lambda>(n, f). wf_file n f) d"

lemma wf_disk_Nil [simp]: "wf_disk []"
  by (simp add: wf_disk_def)

lemma wf_disk_put:
  "wf_disk d \<Longrightarrow> wf_entry e \<Longrightarrow> assertValidResourceName (se_name e) = Inr () \<Longrightarrow>
     wf_disk (al_put (se_name e) (Json (to_raw e)) d)"
  using al_put_set [of "se_name e" "Json (to_raw e)" d]
  by (fastforce simp: wf_disk_def list_all_iff al_distinct_put wf_file_def normalize_to_raw)

lemma wf_disk_del: "wf_disk d \<Longrightarrow> wf_disk (al_del n d)"
  using al_del_set [of n d] by (auto simp: wf_disk_def list_all_iff al_distinct_del)

lemma wf_disk_read:
  assumes "wf_disk (rg_disk r)" and "read_entry n r = Some e"
  shows "wf_entry e \<and> se_name e = n \<and> assertValidResourceName n = Inr ()
    \<and> al_get (rg_disk r) n = Some (Json (to_raw e))"
proof -
  obtain raw where raw: "al_get (rg_disk r) n = Some (Json raw)" "e = normalizeEntry raw"
    using assms(2) by (auto simp: read_entry_def split: option.splits entry_file.splits)
  then have "wf_file n (Json raw)"
    using assms(1) al_get_in [OF raw(1)] by (auto simp: wf_disk_def list_all_iff)
  with raw show ?thesis by (simp add: wf_file_def Let_def)
qed

lemma read_entry_None: "wf_disk (rg_disk r) \<Longrightarrow> read_entry n r = None \<Longrightarrow> al_get (rg_disk r) n = None"
proof (rule ccontr)
  assume d: "wf_disk (rg_disk r)" and n: "read_entry n r = None" and "al_get (rg_disk r) n \<noteq> None"
  then obtain f where f: "al_get (rg_disk r) n = Some f" by auto
  then have "wf_file n f" using d al_get_in [OF f] by (auto simp: wf_disk_def list_all_iff)
  with n f show False by (auto simp: read_entry_def wf_file_def split: entry_file.splits)
qed

subsection \<open>Slots\<close>

lemma two_slots: "length es = 2 \<longleftrightarrow> (\<exists>a b. es = [a, b])"
  by (auto simp: length_Suc_conv numeral_2_eq_2)

lemma slot_of_two: "slot_of [a, b] m = (if a = Some m then Some 0 else if b = Some m then Some 1 else None)"
  by (simp add: slot_of_def)

lemma free_slot_two: "free_slot [a, b] = (if a = None then Some 0 else if b = None then Some 1 else None)"
  by (simp add: free_slot_def)

text \<open>The fields no join or leave touches.\<close>

definition same_link :: "socket_entry \<Rightarrow> socket_entry \<Rightarrow> bool" where
  "same_link e e' \<longleftrightarrow> se_name e = se_name e' \<and> se_mode e = se_mode e' \<and> se_port e = se_port e'
     \<and> se_mcastGroup e = se_mcastGroup e' \<and> se_createdAt e = se_createdAt e' \<and> se_autoCreated e = se_autoCreated e'"

definition with_member :: "string \<Rightarrow> socket_entry \<Rightarrow> socket_entry" where
  "with_member m e = (if m \<in> set (se_members e) then e else e\<lparr>se_members := se_members e @ [m]\<rparr>)"

lemma claim_slot_result:
  assumes "wf_entry e"
  shows "case claim_slot e m of
      Inl err \<Rightarrow> err_code err = NETWORK_UNAVAILABLE \<and> m \<notin> set (se_members e)
          \<and> (\<exists>a b. se_endpoints e = Some [Some a, Some b] \<and> a \<noteq> b)
    | Inr e1 \<Rightarrow> wf_entry (with_member m e1) \<and> same_link e1 e \<and> se_members e1 = se_members e
          \<and> (se_endpoints e \<noteq> None \<longrightarrow> getSocketSlot e1 m \<noteq> None)
          \<and> (\<forall>k i. getSocketSlot e k = Some i \<longrightarrow> getSocketSlot e1 k = Some i)"
proof (cases "se_endpoints e")
  case None
  then have "claim_slot e m = Inr e" by (simp add: claim_slot_def)
  then show ?thesis using assms None by (auto simp: wf_entry_def same_link_def with_member_def)
next
  case (Some es)
  obtain a b where ab: "es = [a, b]" and md: "se_mode e \<noteq> Mcast" "distinct (held es)"
    "set (held es) = set (se_members e)"
    using assms Some by (auto simp: wf_entry_def two_slots)
  have mem: "m \<in> set (se_members e) \<longleftrightarrow> a = Some m \<or> b = Some m"
    using md(3) unfolding ab set_held by auto
  consider "a = Some m \<or> b = Some m" | "a = None" "b \<noteq> Some m" | x where "a = Some x" "x \<noteq> m" "b = None"
    | x y where "a = Some x" "b = Some y" "x \<noteq> m" "y \<noteq> m"
    by (cases a; cases b) auto
  then show ?thesis
  proof cases
    case 1
    then have "claim_slot e m = Inr e" by (auto simp: claim_slot_def Some ab)
    then show ?thesis using assms Some ab mem 1
      by (auto simp: same_link_def with_member_def getSocketSlot_def slot_of_two)
  next
    case 2
    then have "claim_slot e m = Inr (e\<lparr>se_endpoints := Some [Some m, b]\<rparr>)"
      by (simp add: claim_slot_def Some ab free_slot_two)
    then show ?thesis using assms Some ab mem md 2
      by (cases b) (auto simp: same_link_def with_member_def getSocketSlot_def slot_of_two wf_entry_def)
  next
    case (3 x)
    then have "claim_slot e m = Inr (e\<lparr>se_endpoints := Some [a, Some m]\<rparr>)"
      by (simp add: claim_slot_def Some ab free_slot_two)
    then show ?thesis using assms Some ab mem md 3
      by (auto simp: same_link_def with_member_def getSocketSlot_def slot_of_two wf_entry_def)
  next
    case (4 x y)
    then show ?thesis using Some ab md mem by (simp add: claim_slot_def free_slot_two)
  qed
qed

section \<open>Every operation keeps the invariant\<close>

definition reg_ok :: "registry \<Rightarrow> bool" where
  "reg_ok r \<longleftrightarrow> wf_disk (rg_disk r)"

lemma reload_fields [simp]:
  "rg_disk (snd (reloadEntry n r)) = rg_disk r" "rg_socks (snd (reloadEntry n r)) = rg_socks r"
  "fst (reloadEntry n r) = read_entry n r" "read_entry k (snd (reloadEntry n r)) = read_entry k r"
  by (auto simp: reloadEntry_def read_entry_def split: option.splits)

lemma save_fields [simp]:
  "rg_disk (saveEntry e r) = al_put (se_name e) (Json (to_raw e)) (rg_disk r)"
  "rg_cache (saveEntry e r) = al_put (se_name e) e (rg_cache r)" "rg_socks (saveEntry e r) = rg_socks r"
  by (simp_all add: saveEntry_def)

lemma read_save: "wf_entry e \<Longrightarrow> read_entry n (saveEntry e r) = (if n = se_name e then Some e else read_entry n r)"
  by (simp add: read_entry_def al.get_put_iff normalize_to_raw)

lemma removeEntry_disk: "rg_disk (snd (removeEntry n r)) = rg_disk r \<or> rg_disk (snd (removeEntry n r)) = al_del n (rg_disk r)"
  by (simp add: removeEntry_def Let_def)

lemma read_removeEntry: "read_entry k (snd (removeEntry n r)) = (if k = n then None else read_entry k r)"
  by (auto simp: removeEntry_def Let_def read_entry_def al.get_del_iff)

text \<open>The effect of one operation on the files: nothing, one well-formed entry written, one removed.\<close>

definition entry_effect :: "string \<Rightarrow> registry \<Rightarrow> registry \<Rightarrow> bool" where
  "entry_effect n r r' \<longleftrightarrow>
     rg_disk r' = rg_disk r \<or> rg_disk r' = al_del n (rg_disk r)
     \<or> (\<exists>e. wf_entry e \<and> se_name e = n \<and> assertValidResourceName n = Inr ()
            \<and> rg_disk r' = al_put n (Json (to_raw e)) (rg_disk r))"

lemma entry_effect_ok: "reg_ok r \<Longrightarrow> entry_effect n r r' \<Longrightarrow> reg_ok r'"
  by (auto simp: entry_effect_def reg_ok_def intro: wf_disk_del wf_disk_put)

lemma same_link_with_member: "same_link (with_member m e) e' \<longleftrightarrow> same_link e e'"
  by (simp add: with_member_def same_link_def)

lemma with_member_set: "set (se_members (with_member m e)) = insert m (set (se_members e))"
  by (auto simp: with_member_def)

lemma claimEndpoint_cases:
  assumes "wf_entry e" and "assertValidResourceName (se_name e) = Inr ()"
  shows "case claimEndpoint e m r of
      (Inl err, r') \<Rightarrow> r' = r \<and> err_code err = NETWORK_UNAVAILABLE \<and> m \<notin> set (se_members e)
          \<and> (\<exists>a b. se_endpoints e = Some [Some a, Some b] \<and> a \<noteq> b)
    | (Inr e', r') \<Rightarrow> wf_entry e' \<and> same_link e' e \<and> set (se_members e') = insert m (set (se_members e))
          \<and> (se_endpoints e \<noteq> None \<longrightarrow> getSocketSlot e' m \<noteq> None)
          \<and> (\<forall>k i. getSocketSlot e k = Some i \<longrightarrow> getSocketSlot e' k = Some i)
          \<and> (if e' = e then r' = r else r' = saveEntry e' r)"
proof (cases "claim_slot e m")
  case (Inl err)
  then show ?thesis using claim_slot_result [OF assms(1), of m] by (simp add: claimEndpoint_def)
next
  case (Inr e1)
  have c: "claimEndpoint e m r = (Inr (with_member m e1), if with_member m e1 = e then r else saveEntry (with_member m e1) r)"
    by (simp add: claimEndpoint_def Inr Let_def with_member_def)
  have slots: "getSocketSlot (with_member m e1) = getSocketSlot e1"
    by (simp add: with_member_def getSocketSlot_def fun_eq_iff)
  show ?thesis
    using claim_slot_result [OF assms(1), of m]
    by (simp add: c Inr slots same_link_with_member with_member_set)
qed

lemma claimEndpoint_effect:
  assumes "wf_entry e" "assertValidResourceName (se_name e) = Inr ()"
  shows "entry_effect (se_name e) r (snd (claimEndpoint e m r))"
  using claimEndpoint_cases [OF assms, where m = m and r = r] assms
  by (auto simp: entry_effect_def same_link_def split: prod.splits sum.splits if_splits)

lemma build_entry_wf:
  "(mode = Dgram \<longleftrightarrow> port = None) \<Longrightarrow> wf_entry (build_entry name mode opts now port)"
  by (auto simp: wf_entry_def build_entry_def)

lemma build_entry_fields [simp]:
  "se_name (build_entry name mode opts now port) = name" "se_mode (build_entry name mode opts now port) = mode"
  "se_port (build_entry name mode opts now port) = port" "se_members (build_entry name mode opts now port) = []"
  by (simp_all add: build_entry_def)

lemma createEntry_cases:
  "case createEntry plat dir now name opts r of
      (Inl err, r') \<Rightarrow> r' = r \<and> err_code err \<in> {INVALID_NAME, INVALID_NETWORK}
    | (Inr e, r') \<Rightarrow> wf_entry e \<and> se_name e = name \<and> assertValidResourceName name = Inr () \<and> r' = saveEntry e r
        \<and> se_members e = [] \<and> se_mode e = create_mode plat opts
        \<and> (se_port e \<noteq> None \<longrightarrow> co_port opts = None \<longrightarrow> se_port e = Some (allocatePort r))"
proof (cases "assertValidResourceName name")
  case (Inl e)
  then have "err_code e = INVALID_NAME"
    by (auto simp: assertValidResourceName_def split: if_splits)
  with Inl show ?thesis by (simp add: createEntry_def)
next
  case (Inr u)
  have fit: "assertEndpointPathsFit dir name = Inl e \<Longrightarrow> err_code e = INVALID_NETWORK" for e
    by (auto simp: assertEndpointPathsFit_def split: if_splits)
  show ?thesis
    by (auto simp: createEntry_def Inr Let_def fit build_entry_wf
        split: sum.splits option.splits if_splits)
qed

lemma createEntry_effect: "entry_effect name r (snd (createEntry plat dir now name opts r))"
  using createEntry_cases [where plat = plat and dir = dir and now = now and name = name and opts = opts and r = r]
  by (auto simp: entry_effect_def split: prod.splits sum.splits)

lemma drop_member_wf: "wf_entry e \<Longrightarrow> wf_entry (drop_member m e) \<and> same_link (drop_member m e) e"
proof -
  assume w: "wf_entry e"
  have h: "held (map (\<lambda>x. if x = Some m then None else x) es) = filter (\<lambda>x. x \<noteq> m) (held es)" for es
  proof (induction es)
    case (Cons x es)
    then show ?case by (cases x) auto
  qed simp
  have "same_link (drop_member m e) e" by (simp add: same_link_def drop_member_def)
  with w h show ?thesis
    by (cases "se_endpoints e") (auto simp: wf_entry_def drop_member_def)
qed

lemma drop_member_slots:
  "wf_entry e \<Longrightarrow> m \<noteq> k \<Longrightarrow> getSocketSlot (drop_member k e) m = getSocketSlot e m"
  by (auto simp: getSocketSlot_def drop_member_def wf_entry_def two_slots slot_of_two split: option.splits)

lemma slot_member: "wf_entry e \<Longrightarrow> getSocketSlot e m = Some i \<Longrightarrow> m \<in> set (se_members e) \<and> i < 2"
proof -
  assume w: "wf_entry e" and s: "getSocketSlot e m = Some i"
  then obtain a b where ab: "se_endpoints e = Some [a, b]"
    by (auto simp: getSocketSlot_def wf_entry_def two_slots split: option.splits)
  then have "set (held [a, b]) = set (se_members e)" using w by (simp add: wf_entry_def)
  then have "x \<in> set (se_members e) \<longleftrightarrow> a = Some x \<or> b = Some x" for x
    unfolding set_held by auto
  then show ?thesis using s ab by (auto simp: getSocketSlot_def slot_of_two split: if_splits)
qed

lemma list_step_disk: "rg_disk (fold list_step ns r) = rg_disk r"
proof (induction ns arbitrary: r)
  case (Cons n ns)
  have "rg_disk (list_step n r) = rg_disk r" by (simp add: list_step_def split: option.splits)
  then show ?case using Cons by simp
qed simp

lemma read_only_disk:
  "rg_disk (snd (getNamedSocket plat n r)) = rg_disk r" "rg_disk (snd (listNamedSockets r)) = rg_disk r"
  by (simp_all add: getNamedSocket_def listNamedSockets_def Let_def list_step_disk split: option.splits)

text \<open>The entry an operation is about.\<close>

fun op_key :: "reg_op \<Rightarrow> string option" where
  "op_key (OpCreate name opts) = Some name" | "op_key (OpJoin name m auto) = Some name"
| "op_key (OpAdd name m) = Some name" | "op_key (OpLeave name m) = Some name"
| "op_key (OpRemove name) = Some name" | "op_key (OpGet name) = None" | "op_key OpList = None"

lemma entry_effect_refl [simp]: "rg_disk r' = rg_disk r \<Longrightarrow> entry_effect n r r'"
  by (simp add: entry_effect_def)

lemma entry_effect_cong: "rg_disk r1 = rg_disk r \<Longrightarrow> entry_effect n r1 r' \<Longrightarrow> entry_effect n r r'"
  by (simp add: entry_effect_def)

lemma removeEntry_effect: "entry_effect n r (snd (removeEntry n r))"
  using removeEntry_disk [of n r] by (auto simp: entry_effect_def)

lemma claim_after_create:
  assumes "createEntry plat dir now name opts r = (Inr e, r1)"
  shows "entry_effect name r (snd (claimEndpoint e m r1))"
proof -
  have e: "wf_entry e" "se_name e = name" "assertValidResourceName name = Inr ()" "r1 = saveEntry e r"
    using createEntry_cases [where plat = plat and dir = dir and now = now and name = name and opts = opts and r = r] assms by auto
  have pp: "al_put k v (al_put k w d) = al_put k v d" for k :: string and v w :: entry_file and d
    unfolding al_put_def by (rule update_last)
  have c: "case claimEndpoint e m r1 of (Inl err, r') \<Rightarrow> r' = r1
      | (Inr e', r') \<Rightarrow> wf_entry e' \<and> se_name e' = name \<and> (r' = r1 \<or> r' = saveEntry e' r1)"
    using claimEndpoint_cases [of e, where m = m and r = r1] e
    by (auto simp: same_link_def split: prod.splits sum.splits if_splits)
  then show ?thesis
    using e by (auto simp: entry_effect_def pp split: prod.splits sum.splits)
qed

lemma op_effect:
  assumes "reg_ok r"
  shows "case op_key op of None \<Rightarrow> rg_disk (op_run plat dir now op r) = rg_disk r
    | Some n \<Rightarrow> entry_effect n r (op_run plat dir now op r)"
proof (cases op)
  case (OpCreate name opts)
  show ?thesis
  proof (cases "reloadEntry name r")
    case (Pair x r1)
    have d: "rg_disk r1 = rg_disk r" using reload_fields(1) [of name r] Pair by simp
    show ?thesis
      using entry_effect_cong [OF d createEntry_effect] d
      by (auto simp: OpCreate createNamedSocket_def with_entry_def Pair split: sum.splits option.splits)
  qed
next
  case (OpJoin name m auto)
  show ?thesis
  proof (cases "reloadEntry name r")
    case (Pair x r1)
    have d: "rg_disk r1 = rg_disk r" and x: "x = read_entry name r"
      using reload_fields(1,3) [of name r] Pair by auto
    have join: "entry_effect name r (snd (claimEndpoint e m r1))" if "x = Some e" for e
    proof -
      have "wf_entry e" "se_name e = name" "assertValidResourceName name = Inr ()"
        using wf_disk_read [of r name e] that x assms by (auto simp: reg_ok_def)
      then show ?thesis using claimEndpoint_effect [of e r1 m] entry_effect_cong [OF d] by simp
    qed
    have "entry_effect name r (snd (claimEndpoint e m r2))"
      if "createEntry plat dir now name o2 r1 = (Inr e, r2)" for e r2 o2
      using entry_effect_cong [OF d claim_after_create [OF that]] .
    moreover have "entry_effect name r r2" if "createEntry plat dir now name o2 r1 = (Inl e, r2)" for e r2 o2
      using entry_effect_cong [OF d createEntry_effect [of name r1 plat dir now o2]] that by simp
    ultimately show ?thesis
      using join by (auto simp: OpJoin joinNamedSocket_def with_entry_def Pair split: sum.splits option.splits prod.splits)
  qed
next
  case (OpAdd name m)
  show ?thesis
  proof (cases "reloadEntry name r")
    case (Pair x r1)
    have d: "rg_disk r1 = rg_disk r" and x: "x = read_entry name r"
      using reload_fields(1,3) [of name r] Pair by auto
    have "entry_effect name r (snd (claimEndpoint e m r1))" if "x = Some e" for e
    proof -
      have "wf_entry e" "se_name e = name" "assertValidResourceName name = Inr ()"
        using wf_disk_read [of r name e] that x assms by (auto simp: reg_ok_def)
      then show ?thesis using claimEndpoint_effect [of e r1 m] entry_effect_cong [OF d] by simp
    qed
    then show ?thesis using d
      by (auto simp: OpAdd addSocketMember_def with_entry_def Pair split: sum.splits option.splits)
  qed
next
  case (OpLeave name m)
  show ?thesis
  proof (cases "reloadEntry name r")
    case (Pair x r1)
    have d: "rg_disk r1 = rg_disk r" and x: "x = read_entry name r"
      using reload_fields(1,3) [of name r] Pair by auto
    have save: "entry_effect name r (saveEntry (drop_member m e) r1)" if "x = Some e" for e
    proof -
      have "wf_entry e" "se_name e = name" "assertValidResourceName name = Inr ()"
        using wf_disk_read [of r name e] that x assms by (auto simp: reg_ok_def)
      then show ?thesis using drop_member_wf [of e m] d
        by (auto simp: entry_effect_def same_link_def)
    qed
    then show ?thesis
      using d entry_effect_cong [OF d removeEntry_effect]
      by (auto simp: OpLeave removeSocketMember_def with_entry_def Pair Let_def split: sum.splits option.splits)
  qed
next
  case (OpRemove name)
  show ?thesis
  proof (cases "reloadEntry name r")
    case (Pair x r1)
    have d: "rg_disk r1 = rg_disk r" using reload_fields(1) [of name r] Pair by simp
    show ?thesis
      using d entry_effect_cong [OF d removeEntry_effect]
      by (auto simp: OpRemove removeNamedSocket_def with_entry_def Pair split_beta split: sum.splits option.splits)
  qed
qed (simp_all add: read_only_disk)

definition world_ok :: "world \<Rightarrow> bool" where
  "world_ok w \<longleftrightarrow> wf_disk (wd_disk w)"

lemma world_step_ok: "world_ok w \<Longrightarrow> world_ok (world_step plat dir ev w)"
proof -
  assume w: "world_ok w"
  obtain p now rop where ev: "ev = (p, now, rop)" by (metis prod_cases3)
  have "reg_ok (view p w)" using w by (simp add: reg_ok_def world_ok_def view_def)
  then have "reg_ok (op_run plat dir now rop (view p w))"
    using op_effect [of "view p w", where op = rop and plat = plat and dir = dir and now = now] entry_effect_ok [of "view p w"]
    by (cases "op_key rop") (auto simp: reg_ok_def)
  then show ?thesis by (simp add: world_ok_def world_step_def ev Let_def reg_ok_def)
qed

lemma run_world_ok: "world_ok w \<Longrightarrow> world_ok (run_world plat dir evs w)"
  unfolding run_world_def by (induction evs arbitrary: w) (auto simp: world_step_ok)

text \<open>whatever operations any number of processes run, in whatever order and with
  whatever stale caches, every entry file stays readable and well-formed: it carries its own legal
  name, its mode agrees with its port, group and endpoints, no machine is a member twice, and a
  two-ended link has at most two members, each of which holds exactly one end.\<close>

theorem registry_invariant: "wf_disk (wd_disk (run_world plat dir evs empty_world))"
  using run_world_ok [of empty_world] by (simp add: world_ok_def empty_world_def)

section \<open>Ends are kept\<close>

definition link_slot :: "world \<Rightarrow> string \<Rightarrow> string \<Rightarrow> nat option" where
  "link_slot w name m = (case read_entry name (view 0 w) of None \<Rightarrow> None | Some e \<Rightarrow> getSocketSlot e m)"

lemma read_entry_disk: "rg_disk r = rg_disk r' \<Longrightarrow> read_entry n r = read_entry n r'"
  by (simp add: read_entry_def)

lemma view_disk [simp]: "rg_disk (view p w) = wd_disk w"
  by (simp add: view_def)

lemma read_view: "read_entry n (view p w) = read_entry n (view 0 w)"
  by (rule read_entry_disk) simp

lemma entry_effect_other: "entry_effect k r r' \<Longrightarrow> n \<noteq> k \<Longrightarrow> read_entry n r' = read_entry n r"
  by (auto simp: entry_effect_def read_entry_def al.get_put_iff al.get_del_iff)

lemma same_link_refl [simp]: "same_link e e"
  by (simp add: same_link_def)

lemma claim_keeps_slot:
  assumes "wf_entry e" "assertValidResourceName (se_name e) = Inr ()" "read_entry (se_name e) r = Some e"
    and "getSocketSlot e m = Some i"
  shows "\<exists>e'. read_entry (se_name e) (snd (claimEndpoint e k r)) = Some e' \<and> getSocketSlot e' m = Some i
    \<and> same_link e' e"
  using claimEndpoint_cases [OF assms(1,2), where m = k and r = r] assms(3,4)
  by (auto simp: read_save same_link_def split: prod.splits sum.splits if_splits)

lemma op_keeps_slot:
  assumes ok: "reg_ok r" and e: "read_entry n r = Some e" and slot: "getSocketSlot e m = Some i"
    and op: "op \<noteq> OpLeave n m"
  shows "\<exists>e'. read_entry n (op_run plat dir now op r) = Some e' \<and> getSocketSlot e' m = Some i \<and> same_link e' e"
proof (cases "op_key op = Some n")
  case False
  have "read_entry n (op_run plat dir now op r) = read_entry n r"
    using op_effect [OF ok, where op = op and plat = plat and dir = dir and now = now] False entry_effect_other
    by (cases "op_key op") (auto intro: read_entry_disk)
  then show ?thesis using e slot by simp
next
  case True
  have w: "wf_entry e" "se_name e = n" "assertValidResourceName n = Inr ()"
    using wf_disk_read [of r n e] ok e by (auto simp: reg_ok_def)
  have mem: "m \<in> set (se_members e)" using slot_member [OF w(1) slot] by simp
  obtain x r1 where rl0: "reloadEntry n r = (x, r1)" by (cases "reloadEntry n r")
  have rl: "reloadEntry n r = (Some e, r1)" and e1: "read_entry n r1 = Some e"
    using e rl0 reload_fields(3) [of n r] reload_fields(4) [where k = n and n = n and r = r] by simp_all
  have claim: "\<exists>e'. read_entry n (snd (claimEndpoint e k r1)) = Some e' \<and> getSocketSlot e' m = Some i \<and> same_link e' e" for k
    using claim_keeps_slot [of e r1 m i k] w e1 slot by simp
  show ?thesis
  proof (cases op)
    case (OpCreate name opts)
    with True show ?thesis using e1 e slot
      by (simp add: createNamedSocket_def with_entry_def rl split: sum.splits)
  next
    case (OpJoin name k auto)
    with True show ?thesis using claim [of k] e slot
      by (simp add: joinNamedSocket_def with_entry_def rl split: sum.splits)
  next
    case (OpAdd name k)
    with True show ?thesis using claim [of k] e slot
      by (simp add: addSocketMember_def with_entry_def rl split: sum.splits)
  next
    case (OpLeave name k)
    with True op have k: "name = n" "m \<noteq> k" by auto
    have "se_members (drop_member k e) \<noteq> []"
    proof -
      have "m \<in> set (se_members (drop_member k e))" using mem k by (simp add: drop_member_def)
      then show ?thesis by auto
    qed
    moreover have "read_entry n (saveEntry (drop_member k e) r1) = Some (drop_member k e)"
      using drop_member_wf [OF w(1), of k] w(2) by (simp add: read_save same_link_def)
    ultimately show ?thesis
      using OpLeave k e slot drop_member_slots [OF w(1) k(2)] drop_member_wf [OF w(1), of k]
      by (simp add: removeSocketMember_def with_entry_def rl Let_def split: sum.splits)
  next
    case (OpRemove name)
    with True mem show ?thesis using e1 e slot
      by (auto simp: removeNamedSocket_def with_entry_def rl split: sum.splits)
  qed (use True in auto)
qed

text \<open>The entry of a link on disk, with the end a machine holds on it.\<close>

definition holds_end :: "world \<Rightarrow> string \<Rightarrow> string \<Rightarrow> nat \<Rightarrow> socket_entry \<Rightarrow> bool" where
  "holds_end w n m i e \<longleftrightarrow> read_entry n (view 0 w) = Some e \<and> getSocketSlot e m = Some i"

lemma link_slot_holds_end: "link_slot w n m = Some i \<longleftrightarrow> (\<exists>e. holds_end w n m i e)"
  by (auto simp: link_slot_def holds_end_def split: option.splits)

lemma world_step_end:
  assumes "world_ok w" and "holds_end w n m i e" and "snd (snd ev) \<noteq> OpLeave n m"
  shows "\<exists>e'. holds_end (world_step plat dir ev w) n m i e' \<and> same_link e' e"
proof -
  obtain p now rop where ev: "ev = (p, now, rop)" by (metis prod_cases3)
  have ok: "reg_ok (view p w)" using assms(1) by (simp add: reg_ok_def world_ok_def)
  have e: "read_entry n (view p w) = Some e" "getSocketSlot e m = Some i"
    using assms(2) read_view [of n p w] by (auto simp: holds_end_def)
  obtain e' where e': "read_entry n (op_run plat dir now rop (view p w)) = Some e'" "getSocketSlot e' m = Some i"
      "same_link e' e"
    using op_keeps_slot [OF ok e, of rop plat dir now] assms(3) by (auto simp: ev)
  moreover have "read_entry n (view 0 (world_step plat dir ev w)) = read_entry n (op_run plat dir now rop (view p w))"
    by (rule read_entry_disk) (simp add: world_step_def ev Let_def)
  ultimately show ?thesis by (auto simp: holds_end_def)
qed

lemma same_link_trans: "same_link a b \<Longrightarrow> same_link b c \<Longrightarrow> same_link a c"
  by (simp add: same_link_def)

lemma run_world_end:
  "world_ok w \<Longrightarrow> holds_end w n m i e \<Longrightarrow> OpLeave n m \<notin> set (map (snd \<circ> snd) evs)
    \<Longrightarrow> \<exists>e'. holds_end (run_world plat dir evs w) n m i e' \<and> same_link e' e"
proof (induction evs arbitrary: w e)
  case (Cons ev evs)
  then obtain e' where e': "holds_end (world_step plat dir ev w) n m i e'" "same_link e' e"
    using world_step_end [of w n m i e ev plat dir] by auto
  with Cons.IH [OF world_step_ok [OF Cons.prems(1)] e'(1)] Cons.prems(3) show ?case
    using same_link_trans by (fastforce simp: run_world_def)
qed (auto simp: run_world_def)

lemma slots_exclusive:
  assumes "world_ok w" "link_slot w n m = Some i" "link_slot w n k = Some j" "m \<noteq> k"
  shows "i \<noteq> j \<and> i < 2 \<and> j < 2"
proof -
  obtain e where e: "read_entry n (view 0 w) = Some e" "getSocketSlot e m = Some i" "getSocketSlot e k = Some j"
    using assms(2,3) by (auto simp: link_slot_def split: option.splits)
  then have w: "wf_entry e" using wf_disk_read [of "view 0 w"] assms(1) by (auto simp: world_ok_def)
  then obtain a b where "se_endpoints e = Some [a, b]"
    using e by (auto simp: getSocketSlot_def wf_entry_def two_slots split: option.splits)
  then show ?thesis using e(2,3) assms(4)
    by (auto simp: getSocketSlot_def slot_of_two split: if_splits)
qed

text \<open>C2: once a machine holds an end of a link, it keeps that very end, whatever operations
  other machines and processes run on any link (creations, joins, leaves, removals, reads) and
  however stale their caches are, until it leaves itself; and another machine on the same link
  always holds the other end. So the listener of a pair stays the listener, and two datagram
  peers always name each other's path.\<close>

theorem slot_is_kept:
  assumes "link_slot (run_world plat dir before empty_world) name m = Some i"
    and "OpLeave name m \<notin> set (map (snd \<circ> snd) after)"
  shows "let w = run_world plat dir (before @ after) empty_world in
    link_slot w name m = Some i \<and> i < 2
    \<and> (link_slot w name k = None \<or> k = m \<or> link_slot w name k = Some (1 - i))"
proof -
  let ?v = "run_world plat dir before empty_world"
  have ok0: "world_ok ?v" by (rule run_world_ok) (simp add: world_ok_def empty_world_def)
  let ?w = "run_world plat dir (before @ after) empty_world"
  have w: "?w = run_world plat dir after ?v" by (simp add: run_world_def)
  have slot: "link_slot ?w name m = Some i" 
    using run_world_end [OF ok0 _ assms(2)] assms(1) unfolding w link_slot_holds_end by blast
  have ok: "world_ok ?w" by (rule run_world_ok) (simp add: world_ok_def empty_world_def)
  obtain e where e: "read_entry name (view 0 ?w) = Some e" "getSocketSlot e m = Some i"
    using slot by (auto simp: link_slot_def split: option.splits)
  then have "wf_entry e" using wf_disk_read [of "view 0 ?w" name e] ok by (simp add: world_ok_def)
  then have "i < 2" using slot_member [OF _ e(2)] by simp
  moreover have "link_slot ?w name k = Some (1 - i)" if "link_slot ?w name k \<noteq> None" "k \<noteq> m"
    using slots_exclusive [OF ok slot, of k] that by fastforce
  ultimately show ?thesis using slot by (auto simp: Let_def)
qed

theorem slot_is_kept_witness:
  "let w = run_world Linux ''/d'' ([(1, ''t'', OpJoin ''lk'' ''a'' None)] @ [(2, ''u'', OpJoin ''lk'' ''b'' None)]) empty_world in
    link_slot w ''lk'' ''a'' = Some 0 \<and> 0 < (2::nat)
    \<and> (link_slot w ''lk'' ''b'' = None \<or> ''b'' = ''a'' \<or> link_slot w ''lk'' ''b'' = Some (1 - 0))"
proof (rule slot_is_kept)
  show "link_slot (run_world Linux ''/d'' [(1, ''t'', OpJoin ''lk'' ''a'' None)] empty_world) ''lk'' ''a'' = Some 0"
    by code_simp
qed simp

section \<open>Joining\<close>

lemma join_cases:
  assumes wok: "world_ok w"
  shows "let (res, r') = joinNamedSocket plat dir now name m auto (view p w) in
   (case res of
      Inr e \<Rightarrow> read_entry name r' = Some e \<and> m \<in> set (se_members e)
               \<and> (se_mode e = Mcast \<or> (\<exists>i. getSocketSlot e m = Some i))
    | Inl err \<Rightarrow> rg_disk r' = wd_disk w
        \<and> (if err_code err = NETWORK_UNAVAILABLE
           then (\<exists>e a b. read_entry name (view p w) = Some e \<and> se_endpoints e = Some [Some a, Some b]
                   \<and> a \<noteq> b \<and> m \<noteq> a \<and> m \<noteq> b)
           else err_code err \<in> {INVALID_NAME, INVALID_NETWORK}))
   \<and> (other = name \<or> read_entry other r' = read_entry other (view p w))"
proof -
  let ?r = "view p w"
  have ok: "reg_ok ?r" using wok by (simp add: reg_ok_def world_ok_def)
  obtain x r1 where rl: "reloadEntry name ?r = (x, r1)" by (cases "reloadEntry name ?r")
  have x: "x = read_entry name ?r" and d: "rg_disk r1 = wd_disk w"
    using reload_fields(1,3) [of name ?r] rl by auto
  have frame: "other = name \<or> read_entry other (snd (joinNamedSocket plat dir now name m auto ?r)) = read_entry other ?r"
    using op_effect [OF ok, where op = "OpJoin name m auto" and plat = plat and dir = dir and now = now]
      entry_effect_other [of name ?r _ other] by auto
  have claim: "case claimEndpoint e m r2 of
      (Inr e', r') \<Rightarrow> read_entry name r' = Some e' \<and> m \<in> set (se_members e') \<and> (se_mode e' = Mcast \<or> getSocketSlot e' m \<noteq> None)
    | (Inl err, r') \<Rightarrow> r' = r2 \<and> err_code err = NETWORK_UNAVAILABLE \<and> m \<notin> set (se_members e)
        \<and> (\<exists>a b. se_endpoints e = Some [Some a, Some b] \<and> a \<noteq> b)"
    if "wf_entry e" "se_name e = name" "assertValidResourceName name = Inr ()" "read_entry name r2 = Some e" for e r2
  proof -
    have "se_mode e = Mcast" if "se_endpoints e = None"
      using \<open>wf_entry e\<close> that by (simp add: wf_entry_def)
    then show ?thesis
      using claimEndpoint_cases [of e, where m = m and r = r2] that
      by (auto simp: same_link_def read_save split: prod.splits sum.splits if_splits)
  qed
  show ?thesis
  proof (cases "assertPathSafeName plat name")
    case (Inl e)
    then have "err_code e = INVALID_NAME" by (auto simp: assertPathSafeName_def split: if_splits)
    then show ?thesis by (simp add: joinNamedSocket_def with_entry_def Inl)
  next
    case (Inr u)
    show ?thesis
    proof (cases x)
      case (Some e)
      have w: "wf_entry e" "se_name e = name" "assertValidResourceName name = Inr ()"
        using wf_disk_read [of ?r name e] Some x wok by (auto simp: world_ok_def)
      have "read_entry name r1 = Some e" using Some x d by (simp add: read_entry_disk [of r1 ?r])
      note c = claim [OF w this]
      have "m \<noteq> a \<and> m \<noteq> b" if "se_endpoints e = Some [Some a, Some b]" "m \<notin> set (se_members e)" for a b
        using w(1) that by (auto simp: wf_entry_def)
      then show ?thesis
        using c d frame Some x
        by (auto simp: joinNamedSocket_def with_entry_def Inr rl split: prod.splits sum.splits)
    next
      case None
      obtain y r2 where ce: "createEntry plat dir now name
          (no_opts\<lparr>co_autoCreated := Some (case auto of Some b \<Rightarrow> b | None \<Rightarrow> False)\<rparr>) r1 = (y, r2)"
        by (metis prod.exhaust)
      show ?thesis
      proof (cases y)
        case (Inl err)
        then have "r2 = r1" "err_code err \<in> {INVALID_NAME, INVALID_NETWORK}"
          using createEntry_cases [where plat = plat and dir = dir and now = now and name = name and r = r1
              and opts = "no_opts\<lparr>co_autoCreated := Some (case auto of Some b \<Rightarrow> b | None \<Rightarrow> False)\<rparr>"] ce Inl
          by auto
        then show ?thesis using d frame
          by (auto simp: joinNamedSocket_def with_entry_def Inr rl None ce Inl)
      next
        case (Inr e)
        have e: "wf_entry e" "se_name e = name" "assertValidResourceName name = Inr ()" "r2 = saveEntry e r1" "se_members e = []"
          using createEntry_cases [where plat = plat and dir = dir and now = now and name = name and r = r1
              and opts = "no_opts\<lparr>co_autoCreated := Some (case auto of Some b \<Rightarrow> b | None \<Rightarrow> False)\<rparr>"] ce Inr
          by auto
        then have "read_entry name r2 = Some e" by (simp add: read_save)
        note c = claim [OF e(1,2,3) this]
        have "se_endpoints e \<noteq> Some [Some a, Some b]" for a b
          using e(1,5) by (auto simp: wf_entry_def)
        then show ?thesis using c frame
          by (auto simp: joinNamedSocket_def with_entry_def \<open>assertPathSafeName plat name = Inr u\<close> rl None ce Inr
              split: prod.splits sum.splits)
      qed
    qed
  qed
qed

text \<open>joining a link from any reachable state either succeeds, and then the entry on disk
  is the returned one, the machine is a member of it and, unless it is a multicast segment, holds
  an end; or it throws and the link is not joined: with \<open>NETWORK_UNAVAILABLE\<close> exactly when two
  other machines hold both ends, and otherwise because the name or the endpoint path is not
  acceptable. No other link changes in either case.\<close>

theorem join_result:
  "let w = run_world plat dir evs empty_world;
       (res, r') = joinNamedSocket plat dir now name m auto (view p w) in
   (case res of
      Inr e \<Rightarrow> read_entry name r' = Some e \<and> m \<in> set (se_members e)
               \<and> (se_mode e = Mcast \<or> (\<exists>i. getSocketSlot e m = Some i))
    | Inl err \<Rightarrow> rg_disk r' = wd_disk w
        \<and> (if err_code err = NETWORK_UNAVAILABLE
           then (\<exists>e a b. read_entry name (view p w) = Some e \<and> se_endpoints e = Some [Some a, Some b]
                   \<and> a \<noteq> b \<and> m \<noteq> a \<and> m \<noteq> b)
           else err_code err \<in> {INVALID_NAME, INVALID_NETWORK}))
   \<and> (other = name \<or> read_entry other r' = read_entry other (view p w))"
  unfolding Let_def
  by (rule join_cases [unfolded Let_def]) (rule run_world_ok, simp add: world_ok_def empty_world_def)

lemma join_cached:
  assumes ok: "world_ok w" and join: "joinNamedSocket plat dir now name m auto (view p w) = (Inr e, r')"
  shows "al_get (rg_cache r') name = Some e"
proof -
  have claim: "al_get (rg_cache r') name = Some e"
    if c: "claimEndpoint e0 m r0 = (Inr e, r')" and n: "se_name e0 = name" "al_get (rg_cache r0) name = Some e0" for e0 r0
  proof -
    obtain e1 where e1: "claim_slot e0 m = Inr e1" using c by (auto simp: claimEndpoint_def split: sum.splits)
    then have "se_name e1 = name" using n by (auto simp: claim_slot_def split: option.splits if_splits)
    then show ?thesis using c n e1
      by (auto simp: claimEndpoint_def Let_def al.get_put_iff split: if_splits)
  qed
  obtain x r1 where rl: "reloadEntry name (view p w) = (x, r1)" by (cases "reloadEntry name (view p w)")
  have safe: "assertPathSafeName plat name = Inr ()"
    using join by (auto simp: joinNamedSocket_def with_entry_def split: sum.splits)
  show ?thesis
  proof (cases x)
    case (Some e0)
    then have "read_entry name (view p w) = Some e0" using rl reload_fields(3) [of name "view p w"] by simp
    then have "se_name e0 = name" using wf_disk_read [of "view p w"] ok by (auto simp: world_ok_def)
    moreover have "al_get (rg_cache r1) name = Some e0"
      using rl Some by (auto simp: reloadEntry_def al.get_put_iff split: option.splits)
    ultimately show ?thesis using claim [of e0 r1] join
      by (simp add: joinNamedSocket_def with_entry_def safe rl Some)
  next
    case None
    let ?opts = "no_opts\<lparr>co_autoCreated := Some (case auto of Some b \<Rightarrow> b | None \<Rightarrow> False)\<rparr>"
    obtain e0 r2 where ce: "createEntry plat dir now name ?opts r1 = (Inr e0, r2)"
      and cl: "claimEndpoint e0 m r2 = (Inr e, r')"
      using join by (auto simp: joinNamedSocket_def with_entry_def safe rl None split: prod.splits sum.splits)
    have "se_name e0 = name" "r2 = saveEntry e0 r1"
      using createEntry_cases [where plat = plat and dir = dir and now = now and name = name and r = r1 and opts = ?opts] ce
      by auto
    then show ?thesis using claim [OF cl] by (simp add: al.get_put_iff)
  qed
qed

section \<open>Allocated ports\<close>

definition port_at :: "(string \<times> entry_file) list \<Rightarrow> string \<Rightarrow> nat option" where
  "port_at d n = (case al_get d n of None \<Rightarrow> None | Some f \<Rightarrow> file_port f)"

lemma map_filter_in: "(k, v) \<in> set xs \<Longrightarrow> f v = Some y \<Longrightarrow> y \<in> set (List.map_filter (\<lambda>(_, v). f v) xs)"
  by (force simp: map_filter_def)

lemma allocatePort_above: "p \<in> set (portsInUse r) \<Longrightarrow> p < allocatePort r"
  by (auto simp: allocatePort_def Let_def less_Suc_eq_le)

lemma allocatePort_fresh:
  "port_at (rg_disk r) n = Some p \<Longrightarrow> p < allocatePort r"
proof (rule allocatePort_above)
  assume "port_at (rg_disk r) n = Some p"
  then obtain f where "al_get (rg_disk r) n = Some f" "file_port f = Some p"
    by (auto simp: port_at_def split: option.splits)
  then have "p \<in> set (List.map_filter (\<lambda>(_, f). file_port f) (rg_disk r))"
    by (intro map_filter_in) (auto dest: al_get_in)
  then show "p \<in> set (portsInUse r)" by (simp add: portsInUse_def)
qed

lemma port_at_read: "read_entry n r = Some e \<Longrightarrow> port_at (rg_disk r) n = se_port e"
  by (auto simp: read_entry_def port_at_def file_port_def normalizeEntry_def split: option.splits entry_file.splits)

text \<open>The port of the touched entry afterwards: the one it had, none, or a fresh one.\<close>

definition port_effect :: "string \<Rightarrow> registry \<Rightarrow> registry \<Rightarrow> bool" where
  "port_effect n r r' \<longleftrightarrow>
     port_at (rg_disk r') n \<in> {port_at (rg_disk r) n, None}
     \<or> (\<forall>k p. port_at (rg_disk r) k = Some p \<longrightarrow> Some p \<noteq> port_at (rg_disk r') n)"

lemma port_effect_cong: "rg_disk r1 = rg_disk r \<Longrightarrow> port_effect n r1 r' \<Longrightarrow> port_effect n r r'"
  by (simp add: port_effect_def)

lemma port_effect_same: "rg_disk r' = rg_disk r \<Longrightarrow> port_effect n r r'"
  by (simp add: port_effect_def)

lemma port_put [simp]: "port_at (al_put n (Json (to_raw e)) d) k = (if k = n then se_port e else port_at d k)"
  by (simp add: port_at_def al.get_put_iff file_port_def to_raw_def)

lemma createEntry_port:
  assumes "co_port opts = None"
  shows "port_effect name r (snd (createEntry plat dir now name opts r))"
proof -
  obtain y r' where ce: "createEntry plat dir now name opts r = (y, r')" by fastforce
  show ?thesis
  proof (cases y)
    case (Inl err)
    then show ?thesis
      using createEntry_cases [where plat = plat and dir = dir and now = now and name = name and opts = opts and r = r] ce
      by (auto intro: port_effect_same)
  next
    case (Inr e)
    then have e: "se_name e = name" "r' = saveEntry e r" "se_port e = None \<or> se_port e = Some (allocatePort r)"
      using createEntry_cases [where plat = plat and dir = dir and now = now and name = name and opts = opts and r = r]
        ce assms by auto
    then have "port_at (rg_disk r') name = se_port e" by simp
    then show ?thesis using e(3) ce by (auto simp: port_effect_def dest: allocatePort_fresh)
  qed
qed

lemma claim_port:
  assumes "wf_entry e" "assertValidResourceName (se_name e) = Inr ()" "read_entry (se_name e) r = Some e"
  shows "port_at (rg_disk (snd (claimEndpoint e m r))) (se_name e) = port_at (rg_disk r) (se_name e)"
  using claimEndpoint_cases [OF assms(1,2), where m = m and r = r] port_at_read [OF assms(3)]
  by (auto simp: same_link_def split: prod.splits sum.splits if_splits)

lemma removeEntry_port: "port_effect n r (snd (removeEntry n r))"
  by (auto simp: port_effect_def removeEntry_def Let_def port_at_def al.get_del_iff)

fun op_automatic :: "reg_op \<Rightarrow> bool" where
  "op_automatic (OpCreate name opts) = (co_port opts = None)"
| "op_automatic _ = True"

lemma op_port:
  assumes ok: "reg_ok r" and auto: "op_automatic op" and n: "op_key op = Some n"
  shows "port_effect n r (op_run plat dir now op r)"
proof -
  obtain x r1 where rl: "reloadEntry n r = (x, r1)" by (cases "reloadEntry n r")
  have x: "x = read_entry n r" and d: "rg_disk r1 = rg_disk r"
    using reload_fields(1,3) [of n r] rl by auto
  have w: "wf_entry e" "se_name e = n" "assertValidResourceName n = Inr ()" "read_entry n r1 = Some e" if "x = Some e" for e
    using wf_disk_read [of r n e] x that ok d read_entry_disk [OF d] by (auto simp: reg_ok_def)
  have claim: "port_effect n r (snd (claimEndpoint e k r1))" if "x = Some e" for e k
    using claim_port [of e r1 k] w [OF that] d by (simp add: port_effect_def)
  have same: "port_effect n r r1" "port_effect n r r" by (simp_all add: d port_effect_same)
  have rem: "port_effect n r (snd (removeEntry n r1))" by (rule port_effect_cong [OF d removeEntry_port])
  show ?thesis
  proof (cases op)
    case (OpCreate name opts)
    then show ?thesis
      using n auto same port_effect_cong [OF d createEntry_port [of opts n r1 plat dir now]]
      by (auto simp: createNamedSocket_def with_entry_def rl split: sum.splits option.splits)
  next
    case (OpJoin name m au)
    let ?o = "no_opts\<lparr>co_autoCreated := Some (case au of Some b \<Rightarrow> b | None \<Rightarrow> False)\<rparr>"
    obtain y r2 where ce: "createEntry plat dir now n ?o r1 = (y, r2)" by fastforce
    have p2: "port_effect n r r2"
      using port_effect_cong [OF d createEntry_port [of ?o n r1 plat dir now]] ce by (simp add: no_opts_def)
    have "port_effect n r (snd (claimEndpoint e m r2))" if "y = Inr e" for e
    proof -
      have e: "wf_entry e" "se_name e = n" "assertValidResourceName n = Inr ()" "r2 = saveEntry e r1"
        using createEntry_cases [where plat = plat and dir = dir and now = now and name = n and r = r1 and opts = ?o] ce that
        by auto
      then have "port_at (rg_disk (snd (claimEndpoint e m r2))) n = port_at (rg_disk r2) n"
        using claim_port [of e r2 m] by (simp add: read_save)
      with p2 show ?thesis by (simp add: port_effect_def)
    qed
    then show ?thesis
      using OpJoin n claim p2 same ce
      by (auto simp: joinNamedSocket_def with_entry_def rl split: sum.splits option.splits)
  next
    case (OpAdd name m)
    then show ?thesis using n claim same
      by (auto simp: addSocketMember_def with_entry_def rl split: sum.splits option.splits)
  next
    case (OpLeave name m)
    have "port_effect n r (saveEntry (drop_member m e) r1)" if "x = Some e" for e
      using drop_member_wf [OF w(1) [OF that], of m] w [OF that] port_at_read [of n r1 e] d
      by (simp add: port_effect_def same_link_def)
    then show ?thesis using OpLeave n same rem
      by (auto simp: removeSocketMember_def with_entry_def rl Let_def split: sum.splits option.splits)
  next
    case (OpRemove name)
    then show ?thesis using n same rem
      by (auto simp: removeNamedSocket_def with_entry_def rl split_beta split: sum.splits option.splits)
  qed (use n in auto)
qed

definition ports_distinct :: "(string \<times> entry_file) list \<Rightarrow> bool" where
  "ports_distinct d \<longleftrightarrow> (\<forall>n k p. port_at d n = Some p \<and> port_at d k = Some p \<longrightarrow> n = k)"

lemma op_ports_distinct:
  assumes ok: "reg_ok r" and auto: "op_automatic op" and pd: "ports_distinct (rg_disk r)"
  shows "ports_distinct (rg_disk (op_run plat dir now op r))"
proof (cases "op_key op")
  case None
  then show ?thesis using op_effect [OF ok, where op = op and plat = plat and dir = dir and now = now] pd by simp
next
  case (Some n)
  let ?d = "rg_disk (op_run plat dir now op r)"
  have eff: "entry_effect n r (op_run plat dir now op r)"
    using op_effect [OF ok, where op = op and plat = plat and dir = dir and now = now] Some by simp
  have other: "port_at ?d k = port_at (rg_disk r) k" if "k \<noteq> n" for k
    using eff that by (auto simp: entry_effect_def port_at_def al.get_put_iff al.get_del_iff)
  show ?thesis
    using op_port [OF ok auto Some, of plat dir now] pd other unfolding port_effect_def ports_distinct_def
    by (smt (verit) insert_iff option.distinct(1) singletonD)
qed

text \<open>C28: as long as no caller picks a port itself, no two links ever share a
  port, whatever the order of operations of the processes and however stale their caches are.\<close>

theorem allocated_ports_distinct:
  assumes "list_all (\<lambda>(_, _, rop). op_automatic rop) evs"
  shows "ports_distinct (wd_disk (run_world plat dir evs empty_world))"
proof -
  have run: "world_ok w \<Longrightarrow> ports_distinct (wd_disk w) \<Longrightarrow> list_all (\<lambda>(_, _, rop). op_automatic rop) es
      \<Longrightarrow> ports_distinct (wd_disk (run_world plat dir es w))" for es w
  proof (induction es arbitrary: w)
    case (Cons ev es)
    obtain p now rop where ev: "ev = (p, now, rop)" by (metis prod_cases3)
    have "ports_distinct (rg_disk (op_run plat dir now rop (view p w)))"
      using Cons.prems by (intro op_ports_distinct) (auto simp: ev reg_ok_def world_ok_def)
    then have "ports_distinct (wd_disk (world_step plat dir ev w))"
      by (simp add: world_step_def ev Let_def)
    then show ?case using Cons by (simp add: run_world_def world_step_ok)
  qed (simp add: run_world_def)
  have "world_ok empty_world" "ports_distinct (wd_disk empty_world)"
    by (simp_all add: world_ok_def empty_world_def ports_distinct_def port_at_def)
  from run [OF this assms] show ?thesis .
qed

theorem allocated_ports_distinct_witness:
  "ports_distinct (wd_disk (run_world Win32 ''/d''
     [(1, ''t'', OpCreate ''a'' no_opts), (2, ''t'', OpCreate ''b'' no_opts), (1, ''t'', OpRemove ''a''),
      (2, ''t'', OpJoin ''c'' ''m'' None)] empty_world))"
  by (rule allocated_ports_distinct) (simp add: no_opts_def)

end
