(* ===== verification/Network_Resolve.thy ===== *)
theory Network_Resolve
  imports Network_Spec Socket_Registry
begin

text \<open>
  The last part of \<open>src/lib/network.ts\<close>: turning the network interfaces of a machine into QEMU
  arguments on a given host, with \<open>resolveInterfaceAlias\<close> of \<open>src/lib/platform.ts\<close>. Resolving
  a named socket reads the registry through its cache, so the registry is threaded through.
\<close>

section \<open>The host\<close>

record host_interface =
  hi_device :: string
  hi_alias :: "string option"

record socket_vmnet_info =
  sv_client :: string
  sv_sharedSocket :: "string option"
  sv_bridgedSockets :: "(string \<times> string) list"

record resolution_context =
  rc_os :: platform
  rc_platformVmnet :: "socket_vmnet_info option"
  rc_socketVmnet :: "socket_vmnet_info option"
  rc_machine :: "string option"
  rc_qemuVersion :: "string option"

text \<open>What the code asks the host: the interfaces \<open>detectPhysicalInterfaces\<close> finds, whether the
  daemon behind a socket runs, the platform of the process and the registry directory.\<close>

record host_env =
  he_interfaces :: "host_interface list"
  he_daemonRunning :: "string \<Rightarrow> bool"
  he_platform :: platform
  he_registryDir :: string

record resolved_network =
  rn_qemuNetdevArgs :: "string list"
  rn_wrapper :: "string list option"
  rn_downgraded :: "(string \<times> string) option"

record resolved_config = network_config +
  nc_resolved :: resolved_network

definition unavailable :: "string \<Rightarrow> 'a result" where
  "unavailable t = Inl (QuickCHRError NETWORK_UNAVAILABLE t)"

text \<open>A string option that is also tested for truth: the empty string is none.\<close>

definition truthy :: "string option \<Rightarrow> bool" where
  "truthy x \<longleftrightarrow> x \<noteq> None \<and> x \<noteq> Some []"

text \<open>An optional field in a template literal.\<close>

definition opt_text :: "('a \<Rightarrow> string) \<Rightarrow> 'a option \<Rightarrow> string" where
  "opt_text f x = (case x of None \<Rightarrow> ''undefined'' | Some v \<Rightarrow> f v)"

section \<open>Interface aliases (\<open>platform.ts\<close>)\<close>

definition KNOWN_ALIASES :: "string list" where
  "KNOWN_ALIASES = [''wifi'', ''ethernet'', ''auto'']"

definition find_alias :: "string \<Rightarrow> host_interface list \<Rightarrow> host_interface option" where
  "find_alias a ifaces = find (\<lambda>i. hi_alias i = Some a) ifaces"

definition resolveInterfaceAlias :: "string \<Rightarrow> host_interface list \<Rightarrow> string result" where
  "resolveInterfaceAlias alias ifaces =
     (if alias \<notin> set KNOWN_ALIASES then Inr alias
      else if alias = ''auto'' then
        (case find_alias ''ethernet'' ifaces of
           Some eth \<Rightarrow> Inr (hi_device eth)
         | None \<Rightarrow> (case find_alias ''wifi'' ifaces of
             Some wifi \<Rightarrow> Inr (hi_device wifi)
           | None \<Rightarrow> unavailable ''No physical network interface found for auto''))
      else (case find_alias alias ifaces of
              Some i \<Rightarrow> Inr (hi_device i)
            | None \<Rightarrow> unavailable ''No interface found for alias''))"

section \<open>One NIC\<close>

definition device_value :: "'a network_config_scheme \<Rightarrow> string" where
  "device_value c = ''virtio-net-pci,netdev='' @ nc_id c
     @ (if truthy (nc_mac c) then '',mac='' @ the (nc_mac c) else [])"

definition deviceArgs :: "'a network_config_scheme \<Rightarrow> string list" where
  "deviceArgs c = [''-device'', device_value c]"

definition nic_args :: "string \<Rightarrow> 'a network_config_scheme \<Rightarrow> string list" where
  "nic_args netdev c = [''-netdev'', netdev] @ deviceArgs c"

text \<open>\<open>kind,id=<id><rest>\<close>\<close>

definition netdev :: "string \<Rightarrow> 'a network_config_scheme \<Rightarrow> string \<Rightarrow> string" where
  "netdev kind c rest = kind @ '',id='' @ nc_id c @ rest"

definition plain_nic :: "string \<Rightarrow> 'a network_config_scheme \<Rightarrow> resolved_network" where
  "plain_nic v c = \<lparr>rn_qemuNetdevArgs = nic_args v c, rn_wrapper = None, rn_downgraded = None\<rparr>"

definition resolveUser :: "network_config \<Rightarrow> string \<Rightarrow> resolved_network" where
  "resolveUser c hostfwd = plain_nic (netdev ''user'' c (if hostfwd \<noteq> [] then '','' @ hostfwd else [])) c"

definition vmnet_of :: "resolution_context \<Rightarrow> socket_vmnet_info option" where
  "vmnet_of ctx = (case rc_socketVmnet ctx of Some s \<Rightarrow> Some s | None \<Rightarrow> rc_platformVmnet ctx)"

definition fd_nic :: "network_config \<Rightarrow> string \<Rightarrow> string \<Rightarrow> resolved_network" where
  "fd_nic c client sock =
     (plain_nic (netdev ''socket'' c '',fd=3'') c)\<lparr>rn_wrapper := Some [client, sock]\<rparr>"

definition resolveShared :: "host_env \<Rightarrow> resolution_context \<Rightarrow> network_config \<Rightarrow> resolved_network result" where
  "resolveShared env ctx c =
     (if rc_os ctx = Darwin then
        (case (case vmnet_of ctx of Some s \<Rightarrow> if truthy (sv_sharedSocket s) then Some (sv_client s, the (sv_sharedSocket s)) else None
               | None \<Rightarrow> None) of
           Some (client, sock) \<Rightarrow>
             if \<not> he_daemonRunning env sock then unavailable ''socket_vmnet daemon is not running''
             else Inr (fd_nic c client sock)
         | None \<Rightarrow> Inr ((plain_nic (netdev ''vmnet-shared'' c []) c)
                     \<lparr>rn_downgraded := Some (''shared (socket_vmnet)'', ''Requires root -- socket_vmnet not available'')\<rparr>))
      else unavailable ''shared network is not yet supported'')"

definition resolveVmnetShared :: "resolution_context \<Rightarrow> network_config \<Rightarrow> resolved_network result" where
  "resolveVmnetShared ctx c =
     (if rc_os ctx \<noteq> Darwin then unavailable ''vmnet-shared is macOS only''
      else Inr (plain_nic (netdev ''vmnet-shared'' c []) c))"

definition bridge_socket :: "resolution_context \<Rightarrow> string \<Rightarrow> (string \<times> string) option" where
  "bridge_socket ctx resolved =
     (case vmnet_of ctx of None \<Rightarrow> None
      | Some s \<Rightarrow> (let b = map_of (sv_bridgedSockets s) resolved in
                   if truthy b then Some (sv_client s, the b) else None))"

definition resolveBridged ::
    "host_env \<Rightarrow> resolution_context \<Rightarrow> network_config \<Rightarrow> string \<Rightarrow> resolved_network result" where
  "resolveBridged env ctx c iface =
     (if rc_os ctx = Darwin then
        bind_result (resolveInterfaceAlias iface (he_interfaces env)) (\<lambda>resolved.
          case bridge_socket ctx resolved of
            Some (client, sock) \<Rightarrow>
              if \<not> he_daemonRunning env sock then unavailable ''socket_vmnet bridged daemon is not running''
              else Inr (fd_nic c client sock)
          | None \<Rightarrow> Inr ((plain_nic (netdev ''vmnet-bridged'' c ('',ifname='' @ resolved)) c)
                      \<lparr>rn_downgraded := Some (''bridged:'' @ iface @ '' (socket_vmnet)'',
                                              ''Requires root -- socket_vmnet not available'')\<rparr>))
      else unavailable ''bridged network is not yet supported'')"

definition resolveVmnetBridged :: "resolution_context \<Rightarrow> network_config \<Rightarrow> string \<Rightarrow> resolved_network result" where
  "resolveVmnetBridged ctx c iface =
     (if rc_os ctx \<noteq> Darwin then unavailable ''vmnet-bridged is macOS only''
      else Inr (plain_nic (netdev ''vmnet-bridged'' c ('',ifname='' @ iface)) c))"

definition listen_netdev :: "'a network_config_scheme \<Rightarrow> string \<Rightarrow> string" where
  "listen_netdev c port = netdev ''socket'' c ('',listen=:'' @ port)"

definition connect_netdev :: "'a network_config_scheme \<Rightarrow> string \<Rightarrow> string" where
  "connect_netdev c port = netdev ''socket'' c ('',connect=127.0.0.1:'' @ port)"

definition mcast_netdev :: "'a network_config_scheme \<Rightarrow> string \<Rightarrow> string \<Rightarrow> string" where
  "mcast_netdev c grp port = netdev ''socket'' c ('',mcast='' @ grp @ '':'' @ port)"

definition dgram_netdev :: "'a network_config_scheme \<Rightarrow> string \<Rightarrow> string \<Rightarrow> string" where
  "dgram_netdev c local remote = netdev ''dgram'' c
     ('',local.type=unix,local.path='' @ local @ '',remote.type=unix,remote.path='' @ remote)"

definition resolveSocketListen :: "network_config \<Rightarrow> nat \<Rightarrow> resolved_network" where
  "resolveSocketListen c port = plain_nic (listen_netdev c (show_nat port)) c"

definition resolveSocketConnect :: "network_config \<Rightarrow> nat \<Rightarrow> resolved_network" where
  "resolveSocketConnect c port = plain_nic (connect_netdev c (show_nat port)) c"

definition resolveSocketMcast :: "network_config \<Rightarrow> string \<Rightarrow> nat \<Rightarrow> resolved_network" where
  "resolveSocketMcast c grp port = plain_nic (mcast_netdev c grp (show_nat port)) c"

definition resolveTap :: "resolution_context \<Rightarrow> network_config \<Rightarrow> string \<Rightarrow> resolved_network result" where
  "resolveTap ctx c ifname =
     (if rc_os ctx \<noteq> Linux then unavailable ''TAP networking is Linux only''
      else Inr (plain_nic (netdev ''tap'' c ('',ifname='' @ ifname @ '',script=no,downscript=no'')) c))"

section \<open>Named sockets\<close>

text \<open>\<open>Number.parseInt(p, 10) || 0\<close>\<close>

definition parse_int_or_0 :: "string \<Rightarrow> int" where
  "parse_int_or_0 p =
     (let s = dropWhile is_space p;
          (neg, ds) = (case s of [] \<Rightarrow> (False, [])
                       | c # cs \<Rightarrow> if c = CHR ''-'' then (True, cs) else if c = CHR ''+'' then (False, cs) else (False, s));
          n = int (read_nat (takeWhile is_digit ds)) in
      if neg then - n else n)"

definition qemuSupportsDgram :: "string \<Rightarrow> bool" where
  "qemuSupportsDgram version =
     (let parts = map parse_int_or_0 (split_on CHR ''.'' version);
          major = (if 0 < length parts then parts ! 0 else 0);
          minor = (if 1 < length parts then parts ! 1 else 0) in
      major > 7 \<or> (major = 7 \<and> minor \<ge> 2))"

definition peer_slot :: "nat \<Rightarrow> nat" where
  "peer_slot slot = (if slot = 0 then 1 else 0)"

definition describeSocketTransport :: "host_env \<Rightarrow> socket_entry \<Rightarrow> nat option \<Rightarrow> string result" where
  "describeSocketTransport env e slot =
     (let port = opt_text show_nat (se_port e);
          path = socketEndpointPath (he_platform env) (he_registryDir env) (se_name e) in
      case se_mode e of
        Mcast \<Rightarrow> Inr (''UDP multicast '' @ opt_text id (se_mcastGroup e) @ '':'' @ port @ '' (N-way)'')
      | ListenConnect \<Rightarrow>
          Inr (case slot of
                 None \<Rightarrow> ''TCP pair on 127.0.0.1:'' @ port
               | Some i \<Rightarrow> ''TCP 127.0.0.1:'' @ port @ (if i = 0 then '' (listening)'' else '' (connecting)''))
      | Dgram \<Rightarrow>
          (case slot of
             None \<Rightarrow> bind_result (path 0) (\<lambda>p.
               Inr (''unix datagram '' @ (if ends_with ''.0.sock'' p
                     then take (length p - length ''.0.sock'') p @ ''.{0,1}.sock'' else p)))
           | Some i \<Rightarrow> bind_result (path i) (\<lambda>a. bind_result (path (peer_slot i)) (\<lambda>b.
               Inr (''unix datagram '' @ a @ '' -> '' @ b)))))"

text \<open>The transport of an entry for a machine, once the entry has been read.\<close>

definition resolve_entry ::
    "host_env \<Rightarrow> resolution_context \<Rightarrow> network_config \<Rightarrow> string \<Rightarrow> socket_entry \<Rightarrow> resolved_network result" where
  "resolve_entry env ctx c name e =
     (let port = opt_text show_nat (se_port e) in
      if se_mode e = Mcast then Inr (plain_nic (mcast_netdev c (opt_text id (se_mcastGroup e)) port) c)
      else
        (case (if truthy (rc_machine ctx) then getSocketSlot e (the (rc_machine ctx)) else None) of
           None \<Rightarrow> unavailable ''holds no endpoint''
         | Some slot \<Rightarrow>
             if se_mode e = Dgram then
               (if rc_os ctx = Win32 then unavailable ''unix-datagram link on Windows''
                else if truthy (rc_qemuVersion ctx) \<and> \<not> qemuSupportsDgram (the (rc_qemuVersion ctx))
                  then unavailable ''needs QEMU 7.2 or newer''
                else
                  bind_result (socketEndpointPath (he_platform env) (he_registryDir env) name slot) (\<lambda>local.
                  bind_result (socketEndpointPath (he_platform env) (he_registryDir env) name (peer_slot slot)) (\<lambda>remote.
                    Inr (plain_nic (dgram_netdev c local remote) c))))
             else Inr (plain_nic (if slot = 0 then listen_netdev c port else connect_netdev c port) c)))"

definition resolveSocketNamed ::
    "host_env \<Rightarrow> resolution_context \<Rightarrow> network_config \<Rightarrow> string \<Rightarrow> resolved_network rop" where
  "resolveSocketNamed env ctx c name r =
     (case getNamedSocket (he_platform env) name r of
        (None, r') \<Rightarrow> (unavailable ''Named socket not found'', r')
      | (Some e, r') \<Rightarrow> (resolve_entry env ctx c name e, r'))"

section \<open>Dispatch\<close>

definition resolve_specifier ::
    "host_env \<Rightarrow> resolution_context \<Rightarrow> string \<Rightarrow> network_config \<Rightarrow> resolved_network rop" where
  "resolve_specifier env ctx hostfwd c r =
     (case nc_specifier c of
        UserNet \<Rightarrow> (Inr (resolveUser c hostfwd), r)
      | Shared \<Rightarrow> (resolveShared env ctx c, r)
      | VmnetShared \<Rightarrow> (resolveVmnetShared ctx c, r)
      | Bridged iface \<Rightarrow> (resolveBridged env ctx c iface, r)
      | VmnetBridged iface \<Rightarrow> (resolveVmnetBridged ctx c iface, r)
      | NamedSocket name \<Rightarrow> resolveSocketNamed env ctx c name r
      | SocketListen port \<Rightarrow> (Inr (resolveSocketListen c port), r)
      | SocketConnect port \<Rightarrow> (Inr (resolveSocketConnect c port), r)
      | SocketMcast grp port \<Rightarrow> (Inr (resolveSocketMcast c grp port), r)
      | Tap ifname \<Rightarrow> (resolveTap ctx c ifname, r))"

definition resolveNetworkConfig ::
    "host_env \<Rightarrow> resolution_context \<Rightarrow> string \<Rightarrow> network_config \<Rightarrow> resolved_config rop" where
  "resolveNetworkConfig env ctx hostfwd c r =
     (case resolve_specifier env ctx hostfwd c r of
        (Inl err, r') \<Rightarrow> (Inl err, r')
      | (Inr rn, r') \<Rightarrow> (Inr (network_config.extend c (resolved_config.fields rn)), r'))"

fun resolve_each ::
    "host_env \<Rightarrow> resolution_context \<Rightarrow> string \<Rightarrow> network_config list \<Rightarrow> resolved_config list rop" where
  "resolve_each env ctx hostfwd [] r = (Inr [], r)"
| "resolve_each env ctx hostfwd (c # cs) r =
     (case resolveNetworkConfig env ctx hostfwd c r of
        (Inl err, r') \<Rightarrow> (Inl err, r')
      | (Inr x, r') \<Rightarrow>
         (case resolve_each env ctx hostfwd cs r' of
            (Inl err, r'') \<Rightarrow> (Inl err, r'')
          | (Inr xs, r'') \<Rightarrow> (Inr (x # xs), r'')))"

definition has_wrapper :: "resolved_config \<Rightarrow> bool" where
  "has_wrapper c \<longleftrightarrow> rn_wrapper (nc_resolved c) \<noteq> None"

definition resolveAllNetworks ::
    "host_env \<Rightarrow> resolution_context \<Rightarrow> string \<Rightarrow> network_config list \<Rightarrow> resolved_config list rop" where
  "resolveAllNetworks env ctx hostfwd configs r =
     (case resolve_each env ctx hostfwd configs r of
        (Inl err, r') \<Rightarrow> (Inl err, r')
      | (Inr resolved, r') \<Rightarrow>
          if length (filter (\<lambda>c. nc_specifier c = UserNet) configs) > 1
            then (net_fail ''Multiple user-mode NICs'', r')
          else if length (filter has_wrapper resolved) > 1
            then (net_fail ''Multiple networks require socket_vmnet wrappers'', r')
          else (Inr resolved, r'))"

section \<open>Every NIC is one netdev with its device\<close>

text \<open>The four arguments of a NIC: a \<open>-netdev\<close> carrying the id of the interface, and the one
  \<open>-device\<close> that refers to it and carries its MAC.\<close>

definition nic_shape :: "resolved_network \<Rightarrow> network_config \<Rightarrow> bool" where
  "nic_shape rn c \<longleftrightarrow> (\<exists>kind rest. rn_qemuNetdevArgs rn =
     [''-netdev'', kind @ '',id='' @ nc_id c @ rest,
      ''-device'', ''virtio-net-pci,netdev='' @ nc_id c
         @ (case nc_mac c of None \<Rightarrow> [] | Some mac \<Rightarrow> if mac = [] then [] else '',mac='' @ mac)]
     \<and> set kind \<inter> {CHR '','', CHR ''=''} = {} \<and> (rest = [] \<or> hd rest = CHR '',''))"

definition wrapper_ok :: "host_env \<Rightarrow> resolution_context \<Rightarrow> resolved_network \<Rightarrow> network_config \<Rightarrow> bool" where
  "wrapper_ok env ctx rn c \<longleftrightarrow>
     (rn_wrapper rn = None
      \<or> (\<exists>client sock. rn_wrapper rn = Some [client, sock] \<and> rc_os ctx = Darwin \<and> he_daemonRunning env sock
           \<and> rn_qemuNetdevArgs rn = nic_args (netdev ''socket'' c '',fd=3'') c))"

lemma nic_args_text:
  "nic_args (netdev kind c rest) c = [''-netdev'', kind @ '',id='' @ nc_id c @ rest,
      ''-device'', ''virtio-net-pci,netdev='' @ nc_id c
         @ (case nc_mac c of None \<Rightarrow> [] | Some mac \<Rightarrow> if mac = [] then [] else '',mac='' @ mac)]"
  by (auto simp: nic_args_def deviceArgs_def device_value_def netdev_def truthy_def split: option.splits)

lemma nic_shapeI:
  "rn_qemuNetdevArgs rn = nic_args (netdev kind c rest) c \<Longrightarrow> set kind \<inter> {CHR '','', CHR ''=''} = {}
     \<Longrightarrow> rest = [] \<or> hd rest = CHR '','' \<Longrightarrow> nic_shape rn c"
  unfolding nic_shape_def nic_args_text by blast

lemma plain_nic_shape:
  "set kind \<inter> {CHR '','', CHR ''=''} = {} \<Longrightarrow> rest = [] \<or> hd rest = CHR '','' \<Longrightarrow> nic_shape (plain_nic (netdev kind c rest) c) c"
  "set kind \<inter> {CHR '','', CHR ''=''} = {} \<Longrightarrow> rest = [] \<or> hd rest = CHR '','' \<Longrightarrow> nic_shape ((plain_nic (netdev kind c rest) c)\<lparr>rn_downgraded := d\<rparr>) c"
  "wrapper_ok env ctx (plain_nic v c) c" "wrapper_ok env ctx ((plain_nic v c)\<lparr>rn_downgraded := d\<rparr>) c"
  by (simp_all add: nic_shapeI [of _ kind c rest] wrapper_ok_def plain_nic_def)

lemma fd_nic_shape:
  "nic_shape (fd_nic c client sock) c"
  "rc_os ctx = Darwin \<Longrightarrow> he_daemonRunning env sock \<Longrightarrow> wrapper_ok env ctx (fd_nic c client sock) c"
  by (simp_all add: nic_shapeI [of _ "''socket''" c "'',fd=3''"] wrapper_ok_def plain_nic_def fd_nic_def)

lemmas nic_shapes = plain_nic_shape fd_nic_shape

lemma resolve_entry_shape:
  "resolve_entry env ctx c name e = Inr rn \<Longrightarrow> nic_shape rn c \<and> wrapper_ok env ctx rn c"
  by (auto simp: resolve_entry_def Let_def unavailable_def bind_result_Inr_iff nic_shapes
      listen_netdev_def connect_netdev_def mcast_netdev_def dgram_netdev_def split: option.splits if_splits)

lemma resolveShared_shape:
  "resolveShared env ctx c = Inr rn \<Longrightarrow> nic_shape rn c \<and> wrapper_ok env ctx rn c"
  by (auto simp: resolveShared_def unavailable_def nic_shapes split: if_splits option.splits)

lemma resolveBridged_shape:
  assumes "resolveBridged env ctx c iface = Inr rn"
  shows "nic_shape rn c \<and> wrapper_ok env ctx rn c"
proof -
  obtain x where d: "rc_os ctx = Darwin" and x: "resolveInterfaceAlias iface (he_interfaces env) = Inr x"
    using assms by (auto simp: resolveBridged_def unavailable_def bind_result_Inr_iff split: if_splits)
  show ?thesis
  proof (cases "bridge_socket ctx x")
    case (Some y)
    then show ?thesis using assms d x
      by (cases y) (auto simp: resolveBridged_def unavailable_def nic_shapes split: if_splits)
  qed (use assms d x in \<open>auto simp: resolveBridged_def nic_shapes\<close>)
qed

lemma resolve_specifier_shape:
  assumes "resolve_specifier env ctx hostfwd c r = (Inr rn, r')"
  shows "nic_shape rn c \<and> wrapper_ok env ctx rn c"
proof (cases "nc_specifier c")
  case (NamedSocket name)
  then show ?thesis using assms resolve_entry_shape
    by (auto simp: resolve_specifier_def resolveSocketNamed_def unavailable_def split: prod.splits option.splits)
next
  case Shared
  then show ?thesis using assms resolveShared_shape by (auto simp: resolve_specifier_def)
next
  case (Bridged iface)
  then show ?thesis using assms resolveBridged_shape by (auto simp: resolve_specifier_def)
qed (use assms in \<open>auto simp: resolve_specifier_def resolveUser_def resolveVmnetShared_def resolveVmnetBridged_def resolveSocketListen_def resolveSocketConnect_def
      resolveSocketMcast_def resolveTap_def unavailable_def nic_shapes bind_result_Inr_iff
      listen_netdev_def connect_netdev_def mcast_netdev_def split: if_splits option.splits prod.splits\<close>)

lemma getNamedSocket_disk [simp]: "rg_disk (snd (getNamedSocket plat name r)) = rg_disk r"
  by (auto simp: getNamedSocket_def split: option.splits)

lemma getNamedSocket_reads: "getNamedSocket plat name r = (x, r') \<Longrightarrow> rg_disk r' = rg_disk r"
  using getNamedSocket_disk [of plat name r] by simp

lemma resolve_specifier_disk: "rg_disk (snd (resolve_specifier env ctx hostfwd c r)) = rg_disk r"
  by (auto simp: resolve_specifier_def resolveSocketNamed_def getNamedSocket_reads
      split: network_specifier.splits prod.splits option.splits)

lemma socketEndpointPath_code: "socketEndpointPath plat dir name slot = Inl err \<Longrightarrow> err_code err = INVALID_NAME"
  by (auto simp: socketEndpointPath_def assertPathSafeName_def split: if_splits)

lemma resolve_specifier_code:
  "resolve_specifier env ctx hostfwd c r = (Inl err, r') \<Longrightarrow> err_code err \<in> {NETWORK_UNAVAILABLE, INVALID_NAME}"
  by (auto simp: resolve_specifier_def resolveSocketNamed_def resolve_entry_def resolveShared_def
      resolveVmnetShared_def resolveBridged_def resolveVmnetBridged_def resolveTap_def unavailable_def Let_def
      resolveInterfaceAlias_def bind_result_def dest: socketEndpointPath_code
      split: network_specifier.splits prod.splits option.splits if_splits sum.splits)

lemma resolve_each_result:
  "case resolve_each env ctx hostfwd configs r of
     (Inr rs, r') \<Rightarrow> rg_disk r' = rg_disk r
       \<and> list_all2 (\<lambda>c x. network_config.truncate x = c \<and> nic_shape (nc_resolved x) c
            \<and> wrapper_ok env ctx (nc_resolved x) c) configs rs
   | (Inl err, r') \<Rightarrow> rg_disk r' = rg_disk r \<and> err_code err \<in> {NETWORK_UNAVAILABLE, INVALID_NAME}"
proof (induction configs arbitrary: r)
  case (Cons c cs)
  obtain x r1 where x: "resolve_specifier env ctx hostfwd c r = (x, r1)" by (cases "resolve_specifier env ctx hostfwd c r")
  have d: "rg_disk r1 = rg_disk r" using resolve_specifier_disk [where env = env and ctx = ctx and hostfwd = hostfwd and c = c and r = r] x by simp
  show ?case
  proof (cases x)
    case (Inl err)
    then show ?thesis using resolve_specifier_code [where env = env and ctx = ctx and hostfwd = hostfwd and c = c and r = r] x d
      by (simp add: resolveNetworkConfig_def)
  next
    case (Inr rn)
    then show ?thesis using resolve_specifier_shape [where env = env and ctx = ctx and hostfwd = hostfwd and c = c and r = r] x d Cons.IH [of r1]
      by (auto simp: resolveNetworkConfig_def network_config.truncate_def network_config.extend_def
          resolved_config.fields_def split: prod.splits sum.splits)
  qed
qed simp

text \<open>C9: resolving the interfaces of a machine either throws one of three
  codes or keeps every interface, in order and unchanged, and gives each exactly one \<open>-netdev\<close>
  that carries the interface's id and one \<open>-device\<close> that refers to that id and carries its MAC;
  a \<open>socket_vmnet\<close> wrapper appears only on macOS, for a daemon that runs, with the netdev that
  reads the wrapper's descriptor; and the machine has at most one user-mode interface and at most
  one wrapper. The registry's files are only read.\<close>

theorem resolveAllNetworks_result:
  "case resolveAllNetworks env ctx hostfwd configs r of
     (Inr rs, r') \<Rightarrow> rg_disk r' = rg_disk r
       \<and> list_all2 (\<lambda>c x. network_config.truncate x = c \<and> nic_shape (nc_resolved x) c
            \<and> wrapper_ok env ctx (nc_resolved x) c) configs rs
       \<and> length (filter (\<lambda>c. nc_specifier c = UserNet) configs) \<le> 1 \<and> length (filter has_wrapper rs) \<le> 1
   | (Inl err, r') \<Rightarrow> rg_disk r' = rg_disk r
       \<and> err_code err \<in> {NETWORK_UNAVAILABLE, INVALID_NETWORK, INVALID_NAME}"
  using resolve_each_result [where env = env and ctx = ctx and hostfwd = hostfwd and configs = configs and r = r]
  by (auto simp: resolveAllNetworks_def net_fail_def split: prod.splits sum.splits)

section \<open>The two ends of a link\<close>

text \<open>The argument lists of two interfaces that carry the same link.\<close>

definition peers :: "socket_mode \<Rightarrow> string list \<Rightarrow> network_config \<Rightarrow> string list \<Rightarrow> network_config \<Rightarrow> bool" where
  "peers mode xs c ys d \<longleftrightarrow>
     (case mode of
        ListenConnect \<Rightarrow>
          (\<exists>port. xs = nic_args (listen_netdev c port) c \<and> ys = nic_args (connect_netdev d port) d)
          \<or> (\<exists>port. xs = nic_args (connect_netdev c port) c \<and> ys = nic_args (listen_netdev d port) d)
      | Dgram \<Rightarrow> (\<exists>x y. x \<noteq> y \<and> xs = nic_args (dgram_netdev c x y) c \<and> ys = nic_args (dgram_netdev d y x) d)
      | Mcast \<Rightarrow> False)"

lemma endpoint_path_inj: "i < 2 \<Longrightarrow> j < 2 \<Longrightarrow> endpoint_path dir n i = endpoint_path dir n j \<Longrightarrow> i = j"
  by (simp add: endpoint_path_def)

lemma resolve_entry_slot:
  assumes "resolve_entry env ctx c n e = Inr rn" "se_mode e \<noteq> Mcast" "rc_machine ctx = Some m"
  shows "\<exists>i. getSocketSlot e m = Some i \<and>
    (if se_mode e = Dgram
     then rn_qemuNetdevArgs rn = nic_args (dgram_netdev c (endpoint_path (he_registryDir env) n i)
            (endpoint_path (he_registryDir env) n (peer_slot i))) c
     else rn_qemuNetdevArgs rn = nic_args (if i = 0 then listen_netdev c (opt_text show_nat (se_port e))
            else connect_netdev c (opt_text show_nat (se_port e))) c)"
proof (cases "truthy (Some m) \<and> getSocketSlot e m \<noteq> None")
  case False
  then have "(if truthy (Some m) then getSocketSlot e m else None) = None" by simp
  then have "resolve_entry env ctx c n e = unavailable ''holds no endpoint''"
    using assms(2,3) by (simp only: resolve_entry_def Let_def option.sel option.case if_False)
  then show ?thesis using assms(1) by (simp add: unavailable_def)
next
  case True
  then obtain i where i: "truthy (Some m)" "getSocketSlot e m = Some i" by auto
  show ?thesis
  proof (cases "se_mode e")
    case Dgram
    then show ?thesis using assms i
      by (simp add: resolve_entry_def Let_def unavailable_def bind_result_Inr_iff plain_nic_def
          socketEndpointPath_def split: if_splits) force
  next
    case ListenConnect
    then show ?thesis using assms i by (auto simp: resolve_entry_def Let_def plain_nic_def)
  qed (use assms in simp)
qed

lemma resolve_cached:
  "al_get (rg_cache r) n = Some e \<Longrightarrow> resolveSocketNamed env ctx c n r = (resolve_entry env ctx c n e, r)"
  by (simp add: resolveSocketNamed_def getNamedSocket_def)

lemma entries_peer:
  assumes n1: "resolve_entry env ctx1 c1 n e1 = Inr n1" "rc_machine ctx1 = Some a"
    and n2: "resolve_entry env ctx2 c2 n e2 = Inr n2" "rc_machine ctx2 = Some b"
    and same: "same_link e2 e1" "se_mode e1 \<noteq> Mcast"
    and slots: "getSocketSlot e1 a = Some i" "getSocketSlot e2 b = Some j" "i \<noteq> j" "i < 2" "j < 2"
  shows "peers (se_mode e1) (rn_qemuNetdevArgs n1) c1 (rn_qemuNetdevArgs n2) c2"
proof -
  have m: "se_mode e2 = se_mode e1" "se_port e2 = se_port e1" using same by (auto simp: same_link_def)
  have peer: "peer_slot i = j" "peer_slot j = i" using slots by (auto simp: peer_slot_def)
  note r = resolve_entry_slot [OF n1(1) same(2) n1(2)] resolve_entry_slot [OF n2(1) _ n2(2)]
  show ?thesis
  proof (cases "se_mode e1")
    case Dgram
    moreover have "endpoint_path (he_registryDir env) n i \<noteq> endpoint_path (he_registryDir env) n j"
      using endpoint_path_inj slots by blast
    ultimately show ?thesis using r m slots peer by (auto simp: peers_def)
  next
    case ListenConnect
    then show ?thesis using r m slots by (cases "i = 0") (auto simp: peers_def)
  qed (use same in simp)
qed

lemma join_reads:
  "world_ok w \<Longrightarrow> joinNamedSocket plat dir t n a auto (view p w) = (Inr e, r) \<Longrightarrow> read_entry n r = Some e"
  using join_cases [of w plat dir t n a auto p] by auto

lemma join_end:
  assumes ok: "world_ok w" and join: "joinNamedSocket plat dir t n a auto (view p w) = (Inr e, r)" and "se_mode e \<noteq> Mcast"
  shows "al_get (rg_cache r) n = Some e"
    and "\<exists>i. holds_end (world_step plat dir (p, t, OpJoin n a auto) w) n a i e"
proof -
  let ?w' = "world_step plat dir (p, t, OpJoin n a auto) w"
  have "read_entry n (view 0 ?w') = read_entry n r"
    by (rule read_entry_disk) (simp add: world_step_def Let_def join)
  then show "\<exists>i. holds_end ?w' n a i e"
    using join_cases [OF ok, of plat dir t n a auto p] join assms(3) by (auto simp: holds_end_def)
  show "al_get (rg_cache r) n = Some e" by (rule join_cached [OF ok join])
qed

text \<open>C3: two machines that join a two-ended link, each resolving its interface
  right after its own join, get the two opposite ends: on a TCP pair one listens on the port the
  other connects to, on a datagram pair each sends to the path the other receives on, and the two
  paths differ. Any operations may happen between the two joins, by any processes, as long as the
  first machine does not leave.\<close>

theorem link_ends_complement:
  assumes "joinNamedSocket (he_platform env) (he_registryDir env) t1 n a auto1
      (view p (run_world (he_platform env) (he_registryDir env) before empty_world)) = (Inr e1, r1)"
    and "se_mode e1 \<noteq> Mcast"
    and "resolveSocketNamed env ctx1 c1 n r1 = (Inr n1, r1')" and "rc_machine ctx1 = Some a"
    and "OpLeave n a \<notin> set (map (snd \<circ> snd) between)"
    and "joinNamedSocket (he_platform env) (he_registryDir env) t2 n b auto2
      (view q (run_world (he_platform env) (he_registryDir env)
        (before @ (p, t1, OpJoin n a auto1) # between) empty_world)) = (Inr e2, r2)"
    and "resolveSocketNamed env ctx2 c2 n r2 = (Inr n2, r2')" and "rc_machine ctx2 = Some b" and "a \<noteq> b"
  shows "peers (se_mode e1) (rn_qemuNetdevArgs n1) c1 (rn_qemuNetdevArgs n2) c2"
proof -
  let ?run = "run_world (he_platform env) (he_registryDir env)" and ?step = "world_step (he_platform env) (he_registryDir env)"
  obtain w1 where w1: "w1 = ?run before empty_world" by blast
  obtain w2 where w2: "w2 = ?run (before @ (p, t1, OpJoin n a auto1) # between) empty_world" by blast
  have ok1: "world_ok w1" and ok2: "world_ok w2"
    unfolding w1 w2 by (rule run_world_ok, simp add: world_ok_def empty_world_def)+
  note j1 = join_end [OF ok1 assms(1) [folded w1] assms(2)]
  obtain i where i: "holds_end (?step (p, t1, OpJoin n a auto1) w1) n a i e1" using j1(2) by blast
  have "w2 = ?run between (?step (p, t1, OpJoin n a auto1) w1)" by (simp add: w1 w2 run_world_def)
  then obtain e where e: "holds_end w2 n a i e" "same_link e e1"
    using run_world_end [OF world_step_ok [OF ok1] i assms(5)] by metis
  let ?w3 = "?step (q, t2, OpJoin n b auto2) w2"
  obtain e' where e': "holds_end ?w3 n a i e'" "same_link e' e1"
    using world_step_end [OF ok2 e(1), of "(q, t2, OpJoin n b auto2)"] same_link_trans [OF _ e(2)] by fastforce
  have "read_entry n (view 0 ?w3) = read_entry n r2"
    by (rule read_entry_disk) (simp add: world_step_def Let_def assms(6) [folded w2])
  moreover have "read_entry n r2 = Some e2" by (rule join_reads [OF ok2 assms(6) [folded w2]])
  ultimately have e2: "e' = e2" using e'(1) by (simp add: holds_end_def)
  have "se_mode e2 \<noteq> Mcast" using e'(2) assms(2) e2 by (simp add: same_link_def)
  note j2 = join_end [OF ok2 assms(6) [folded w2] this]
  obtain j where j: "holds_end ?w3 n b j e2" using j2(2) by blast
  have "i \<noteq> j \<and> i < 2 \<and> j < 2"
    using slots_exclusive [OF world_step_ok [OF ok2], of _ _ _ n a i b j] e'(1) j assms(9) link_slot_holds_end by blast
  moreover have r1: "resolve_entry env ctx1 c1 n e1 = Inr n1" and r2: "resolve_entry env ctx2 c2 n e2 = Inr n2"
    using resolve_cached [OF j1(1), of env ctx1 c1] resolve_cached [OF j2(1), of env ctx2 c2] assms(3,7) by auto
  moreover have "getSocketSlot e1 a = Some i" "getSocketSlot e2 b = Some j" "same_link e2 e1"
    using i j e' e2 by (simp_all add: holds_end_def)
  ultimately show ?thesis
    using entries_peer [OF r1 assms(4) r2 assms(8) _ assms(2), of i j] by simp
qed

text \<open>Two machines on one Linux host, in different processes.\<close>

definition demo_env :: host_env where
  "demo_env = \<lparr>he_interfaces = [], he_daemonRunning = (\<lambda>_. False), he_platform = Linux, he_registryDir = ''/d''\<rparr>"

definition demo_ctx :: "string \<Rightarrow> resolution_context" where
  "demo_ctx m = \<lparr>rc_os = Linux, rc_platformVmnet = None, rc_socketVmnet = None, rc_machine = Some m,
                 rc_qemuVersion = Some ''8.2.1''\<rparr>"

definition demo_nic :: network_config where
  "demo_nic = \<lparr>nc_specifier = NamedSocket ''lk'', nc_id = ''net1'', nc_mac = None\<rparr>"

definition demo_dgram :: "nat \<Rightarrow> nat \<Rightarrow> resolved_network" where
  "demo_dgram i j = plain_nic (dgram_netdev demo_nic (endpoint_path ''/d'' ''lk'' i) (endpoint_path ''/d'' ''lk'' j)) demo_nic"

definition demo_join ::
    "nat \<Rightarrow> string \<Rightarrow> (nat \<times> string \<times> reg_op) list \<Rightarrow> socket_entry result \<times> registry" where
  "demo_join p m evs = joinNamedSocket (he_platform demo_env) (he_registryDir demo_env) ''t'' ''lk'' m None
     (view p (run_world (he_platform demo_env) (he_registryDir demo_env) evs empty_world))"

definition demo_check :: "socket_entry result \<times> registry \<Rightarrow> string \<Rightarrow> resolved_network \<Rightarrow> bool" where
  "demo_check jr m n = (case jr of (Inl _, _) \<Rightarrow> False
     | (Inr e, r) \<Rightarrow> se_mode e = Dgram \<and> fst (resolveSocketNamed demo_env (demo_ctx m) demo_nic ''lk'' r) = Inr n)"

lemma demo_check_obtain:
  assumes "demo_check jr m n"
  obtains e r r' where "jr = (Inr e, r)" "se_mode e = Dgram"
    "resolveSocketNamed demo_env (demo_ctx m) demo_nic ''lk'' r = (Inr n, r')"
proof -
  obtain e r where jr: "jr = (Inr e, r)" "se_mode e = Dgram"
      "fst (resolveSocketNamed demo_env (demo_ctx m) demo_nic ''lk'' r) = Inr n"
    using assms by (auto simp: demo_check_def split: prod.splits sum.splits)
  then obtain r' where "resolveSocketNamed demo_env (demo_ctx m) demo_nic ''lk'' r = (Inr n, r')"
    by (metis surjective_pairing)
  with jr show ?thesis by (intro that)
qed

theorem link_ends_complement_witness:
  "peers Dgram (rn_qemuNetdevArgs (demo_dgram 0 1)) demo_nic (rn_qemuNetdevArgs (demo_dgram 1 0)) demo_nic"
proof -
  have "demo_check (demo_join 1 ''a'' []) ''a'' (demo_dgram 0 1)" by code_simp
  then obtain e1 r1 r1' where a: "demo_join 1 ''a'' [] = (Inr e1, r1)" "se_mode e1 = Dgram"
      "resolveSocketNamed demo_env (demo_ctx ''a'') demo_nic ''lk'' r1 = (Inr (demo_dgram 0 1), r1')"
    by (rule demo_check_obtain)
  have "demo_check (demo_join 2 ''b'' ([] @ (1, ''t'', OpJoin ''lk'' ''a'' None) # [(3, ''u'', OpList)])) ''b'' (demo_dgram 1 0)"
    by code_simp
  then obtain e2 r2 r2' where
      b: "demo_join 2 ''b'' ([] @ (1, ''t'', OpJoin ''lk'' ''a'' None) # [(3, ''u'', OpList)]) = (Inr e2, r2)" "se_mode e2 = Dgram"
      "resolveSocketNamed demo_env (demo_ctx ''b'') demo_nic ''lk'' r2 = (Inr (demo_dgram 1 0), r2')"
    by (rule demo_check_obtain)
  have "peers (se_mode e1) (rn_qemuNetdevArgs (demo_dgram 0 1)) demo_nic (rn_qemuNetdevArgs (demo_dgram 1 0)) demo_nic"
    by (rule link_ends_complement [OF a(1) [unfolded demo_join_def] _ a(3) _ _ b(1) [unfolded demo_join_def] b(3)])
       (simp_all add: a(2) demo_ctx_def)
  then show ?thesis by (simp add: a(2))
qed

end
