(* ===== verification/Lock_Log.thy ===== *)
theory Lock_Log
  imports Keyed_Store
begin

text \<open>
  \<open>src/lib/lock.ts\<close>: the cross-process lock. A lock is a directory holding an append-only log
  of numbered records; the highest number of the current incarnation is its state. The model
  runs any number of contenders, each at the granularity of one file-system call, against one
  lock directory: the directory can be removed by a holder and made again, and a process can
  crash between any two calls.

  A contender is one \<open>acquireLock\<close> / \<open>acquireLockNow\<close> call with the handle it may return;
  \<open>pid_of\<close> says which process it runs in (two contenders may share one, as two asynchronous
  operations of a process do). \<open>crypto.randomUUID()\<close> is a counter, \<open>readdir\<close> is one atomic
  step, and a process id is not used again after its process died. The time stamp of a record
  is left out; the token alone makes a record unique. A failing system call is one that finds
  no directory; failures such as a full disk are not modelled.
\<close>

section \<open>Records and the directory\<close>

datatype lock_op =
    OpAddMachine | OpStart | OpForeground | OpStop | OpShutdown | OpContinue | OpClean | OpRemoveMachine
  | OpDeviceMode | OpInstallPackage | OpRemoveOrphan | OpAllocate | OpStorage

type_synonym reservation = "nat \<times> string list"

record lrec =
  lr_pid :: nat
  lr_op :: lock_op
  lr_token :: nat
  lr_reserve :: "reservation option"
  lr_released :: bool

text \<open>The \<open>id\<close> file, the record files \<open><id>.<gen>\<close>, and the temporary files that \<open>linkNew\<close> has
  written and not linked yet.\<close>

record lockdir =
  ld_id :: "nat option"
  ld_recs :: "((nat \<times> nat) \<times> lrec) list"
  ld_tmps :: "nat list"

definition empty_dir :: lockdir where
  "empty_dir = \<lparr>ld_id = None, ld_recs = [], ld_tmps = []\<rparr>"

section \<open>Where a contender stands\<close>

datatype lock_outcome = Released | RefusedLive lrec | RefusedLegacy | Missing

text \<open>
  The next system call of a contender, with the local variables it still needs: \<open>i\<close> an
  incarnation, \<open>g\<close> a record number, \<open>r\<close> the contender's own record, the judged record.
\<close>

datatype lock_pc =
    Idle
  | EnsureDir                                            \<comment> \<open>\<open>mkdirSync(lockDir)\<close>\<close>
  | ReadId                                               \<comment> \<open>\<open>incarnation(lockDir, true)\<close>\<close>
  | WriteIdTmp
  | LinkId nat
  | ReadIdAgain
  | ListTop nat                                          \<comment> \<open>\<open>readTop\<close>: \<open>generations\<close>\<close>
  | ReadTop nat nat                                      \<comment> \<open>\<open>inspect\<close>: \<open>readFileSync\<close>\<close>
  | CheckAlive nat nat lrec                              \<comment> \<open>\<open>inspect\<close>: \<open>process.kill(pid, 0)\<close>\<close>
  | WriteTmp nat nat "lrec option"                       \<comment> \<open>\<open>claim\<close>: \<open>linkNew\<close>\<close>
  | LinkRec nat nat "lrec option" lrec
  | ListClaim nat nat "lrec option" lrec                 \<comment> \<open>\<open>generations\<close> after the link\<close>
  | ReadPred nat nat lrec lrec bool                      \<comment> \<open>\<open>readRaw\<close> of record \<open>gen - 1\<close>\<close>
  | ReadIdent nat nat lrec                               \<comment> \<open>\<open>incarnation(lockDir, false)\<close>\<close>
  | RejectUnlink nat nat
  | CollectList nat nat lrec "lock_outcome option"       \<comment> \<open>\<open>collect\<close>; \<open>Some\<close> inside \<open>release\<close>\<close>
  | CollectUnlink nat nat lrec "lock_outcome option" "nat list"
  | LegacyCheck nat nat lrec
  | Held nat nat lrec
  | RelRead nat nat lrec lock_outcome                    \<comment> \<open>\<open>release\<close>: is the own record still there?\<close>
  | RelWriteTmp nat nat lrec lock_outcome
  | RelLink nat nat lrec lock_outcome nat
  | HeldGone nat nat lrec                                \<comment> \<open>a holder that removed the directory\<close>
  | GoneRead nat nat lrec
  | Ended lock_outcome
  | Crashed

record lstate =
  lk_parent :: bool
  lk_dir :: "lockdir option"
  lk_next :: nat
  lk_dead :: "nat list"
  lk_pc :: "nat \<Rightarrow> lock_pc"
  lk_req :: "nat \<Rightarrow> lock_op \<times> reservation option"

definition lk_init :: lstate where
  "lk_init = \<lparr>lk_parent = True, lk_dir = None, lk_next = 0, lk_dead = [], lk_pc = (\<lambda>_. Idle),
     lk_req = (\<lambda>_. (OpStart, None))\<rparr>"

section \<open>The file-system calls\<close>

definition set_pc :: "nat \<Rightarrow> lock_pc \<Rightarrow> lstate \<Rightarrow> lstate" where
  "set_pc c p s = s\<lparr>lk_pc := (lk_pc s)(c := p)\<rparr>"

text \<open>\<open>generations(lockDir, id)\<close>\<close>

definition gens_of :: "nat \<Rightarrow> lockdir \<Rightarrow> nat list" where
  "gens_of i d = map (\<lambda>(k, _). snd k) (filter (\<lambda>(k, _). fst k = i) (ld_recs d))"

definition read_id :: "lstate \<Rightarrow> nat option" where
  "read_id s = (case lk_dir s of None \<Rightarrow> None | Some d \<Rightarrow> ld_id d)"

definition read_rec :: "nat \<Rightarrow> nat \<Rightarrow> lstate \<Rightarrow> lrec option" where
  "read_rec i g s = (case lk_dir s of None \<Rightarrow> None | Some d \<Rightarrow> al_get (ld_recs d) (i, g))"

definition unlink_rec :: "nat \<Rightarrow> nat \<Rightarrow> lstate \<Rightarrow> lstate" where
  "unlink_rec i g s = s\<lparr>lk_dir := map_option (\<lambda>d. d\<lparr>ld_recs := al_del (i, g) (ld_recs d)\<rparr>) (lk_dir s)\<rparr>"

text \<open>\<open>record.released\<close>, or a process that is gone: \<open>inspect\<close> answers \<open>free\<close>.\<close>

definition rec_free :: "nat list \<Rightarrow> lrec \<Rightarrow> bool" where
  "rec_free dead r \<longleftrightarrow> lr_released r \<or> lr_pid r \<in> set dead"

definition new_rec :: "(nat \<Rightarrow> nat) \<Rightarrow> nat \<Rightarrow> lstate \<Rightarrow> lrec" where
  "new_rec pid_of c s =
     \<lparr>lr_pid = pid_of c, lr_op = fst (lk_req s c), lr_token = lk_next s, lr_reserve = snd (lk_req s c),
      lr_released = False\<rparr>"

definition marker :: "lrec \<Rightarrow> lrec" where
  "marker r = r\<lparr>lr_released := True, lr_reserve := None\<rparr>"

text \<open>\<open>linkSync(tmp, target)\<close> after which the temporary file is unlinked: it fails when the
  directory that held the temporary file is gone.\<close>

datatype link_result = LinkMissing | LinkExists lockdir | Linked lockdir

definition link_rec :: "nat \<Rightarrow> nat \<times> nat \<Rightarrow> lrec \<Rightarrow> lstate \<Rightarrow> link_result" where
  "link_rec tmp k r s =
     (case lk_dir s of None \<Rightarrow> LinkMissing
      | Some d \<Rightarrow>
          if tmp \<notin> set (ld_tmps d) then LinkMissing
          else (let d' = d\<lparr>ld_tmps := removeAll tmp (ld_tmps d)\<rparr> in
                if al_get (ld_recs d) k \<noteq> None then LinkExists d'
                else Linked (d'\<lparr>ld_recs := al_put k r (ld_recs d)\<rparr>)))"

definition link_id :: "nat \<Rightarrow> lstate \<Rightarrow> link_result" where
  "link_id u s =
     (case lk_dir s of None \<Rightarrow> LinkMissing
      | Some d \<Rightarrow>
          if u \<notin> set (ld_tmps d) then LinkMissing
          else (let d' = d\<lparr>ld_tmps := removeAll u (ld_tmps d)\<rparr> in
                if ld_id d \<noteq> None then LinkExists d' else Linked (d'\<lparr>ld_id := Some u\<rparr>)))"

text \<open>\<open>writeFileSync(tmp)\<close> under a fresh name.\<close>

definition write_tmp :: "lstate \<Rightarrow> lstate option" where
  "write_tmp s =
     (case lk_dir s of None \<Rightarrow> None
      | Some d \<Rightarrow> Some (s\<lparr>lk_dir := Some (d\<lparr>ld_tmps := lk_next s # ld_tmps d\<rparr>), lk_next := Suc (lk_next s)\<rparr>))"

section \<open>One step of a contender\<close>

text \<open>After \<open>collect\<close>: the legacy check of a fresh claim, or the marker of a release.\<close>

definition after_collect :: "nat \<Rightarrow> nat \<Rightarrow> lrec \<Rightarrow> lock_outcome option \<Rightarrow> lock_pc" where
  "after_collect i g r rel = (case rel of None \<Rightarrow> LegacyCheck i g r | Some out \<Rightarrow> RelWriteTmp i g r out)"

definition lock_step :: "(nat \<Rightarrow> nat) \<Rightarrow> nat \<Rightarrow> bool \<Rightarrow> lstate \<Rightarrow> lstate" where
  "lock_step pid_of c blocked s =
     (case lk_pc s c of
        EnsureDir \<Rightarrow>
          (if lk_dir s \<noteq> None then set_pc c ReadId s
           else if lk_parent s then set_pc c ReadId (s\<lparr>lk_dir := Some empty_dir\<rparr>)
           else set_pc c (Ended Missing) s)
      | ReadId \<Rightarrow> (case read_id s of Some i \<Rightarrow> set_pc c (ListTop i) s | None \<Rightarrow> set_pc c WriteIdTmp s)
      | WriteIdTmp \<Rightarrow>
          (case write_tmp s of None \<Rightarrow> set_pc c (Ended Missing) s
           | Some s' \<Rightarrow> set_pc c (LinkId (lk_next s)) s')
      | LinkId u \<Rightarrow>
          (case link_id u s of LinkMissing \<Rightarrow> set_pc c (Ended Missing) s
           | LinkExists d \<Rightarrow> set_pc c ReadIdAgain (s\<lparr>lk_dir := Some d\<rparr>)
           | Linked d \<Rightarrow> set_pc c ReadIdAgain (s\<lparr>lk_dir := Some d\<rparr>))
      | ReadIdAgain \<Rightarrow>
          (case read_id s of Some i \<Rightarrow> set_pc c (ListTop i) s | None \<Rightarrow> set_pc c (Ended Missing) s)
      | ListTop i \<Rightarrow>
          (case lk_dir s of None \<Rightarrow> set_pc c (Ended Missing) s
           | Some d \<Rightarrow> if gens_of i d = [] then set_pc c (WriteTmp i 1 None) s
                       else set_pc c (ReadTop i (Max (set (gens_of i d)))) s)
      | ReadTop i g \<Rightarrow>
          (case read_rec i g s of None \<Rightarrow> set_pc c ReadId s | Some r \<Rightarrow> set_pc c (CheckAlive i g r) s)
      | CheckAlive i g r \<Rightarrow>
          (if rec_free (lk_dead s) r then set_pc c (WriteTmp i (Suc g) (Some r)) s
           else set_pc c (Ended (RefusedLive r)) s)
      | WriteTmp i g judged \<Rightarrow>
          (case write_tmp s of None \<Rightarrow> set_pc c (Ended Missing) s
           | Some s' \<Rightarrow> set_pc c (LinkRec i g judged (new_rec pid_of c s)) s')
      | LinkRec i g judged r \<Rightarrow>
          (case link_rec (lr_token r) (i, g) r s of LinkMissing \<Rightarrow> set_pc c (Ended Missing) s
           | LinkExists d \<Rightarrow> set_pc c ReadId (s\<lparr>lk_dir := Some d\<rparr>)
           | Linked d \<Rightarrow> set_pc c (ListClaim i g judged r) (s\<lparr>lk_dir := Some d\<rparr>))
      | ListClaim i g judged r \<Rightarrow>
          (case lk_dir s of None \<Rightarrow> set_pc c (Ended Missing) s
           | Some d \<Rightarrow>
              (let gens = gens_of i d; isTop = \<not> list_ex (\<lambda>x. x > g) gens in
               case judged of
                 None \<Rightarrow> if isTop \<and> g = 1 \<and> length gens = 1 then set_pc c (ReadIdent i g r) s
                         else set_pc c (RejectUnlink i g) s
               | Some j \<Rightarrow> set_pc c (ReadPred i g j r isTop) s))
      | ReadPred i g j r isTop \<Rightarrow>
          (if isTop \<and> read_rec i (g - 1) s = Some j then set_pc c (ReadIdent i g r) s
           else set_pc c (RejectUnlink i g) s)
      | ReadIdent i g r \<Rightarrow>
          (if read_id s = Some i then set_pc c (CollectList i g r None) s
           else set_pc c (RejectUnlink i g) s)
      | RejectUnlink i g \<Rightarrow> set_pc c ReadId (unlink_rec i g s)
      | CollectList i g r rel \<Rightarrow>
          (case lk_dir s of None \<Rightarrow> set_pc c (after_collect i g r rel) s
           | Some d \<Rightarrow> set_pc c (CollectUnlink i g r rel (filter (\<lambda>x. x < g) (gens_of i d))) s)
      | CollectUnlink i g r rel gens \<Rightarrow>
          (case gens of [] \<Rightarrow> set_pc c (after_collect i g r rel) s
           | x # xs \<Rightarrow> set_pc c (CollectUnlink i g r rel xs) (unlink_rec i x s))
      | LegacyCheck i g r \<Rightarrow>
          (if blocked then set_pc c (RelRead i g r RefusedLegacy) s else set_pc c (Held i g r) s)
      | RelRead i g r out \<Rightarrow>
          (if read_rec i g s = Some r then set_pc c (CollectList i g r (Some out)) s
           else set_pc c (Ended out) s)
      | RelWriteTmp i g r out \<Rightarrow>
          (case write_tmp s of None \<Rightarrow> set_pc c (Ended out) s
           | Some s' \<Rightarrow> set_pc c (RelLink i g r out (lk_next s)) s')
      | RelLink i g r out tmp \<Rightarrow>
          (case link_rec tmp (i, Suc g) (marker r) s of LinkMissing \<Rightarrow> set_pc c (Ended out) s
           | LinkExists d \<Rightarrow> set_pc c (Ended out) (s\<lparr>lk_dir := Some d\<rparr>)
           | Linked d \<Rightarrow> set_pc c (Ended out) (s\<lparr>lk_dir := Some d\<rparr>))
      | GoneRead i g r \<Rightarrow>
          (if read_rec i g s = Some r then set_pc c (CollectList i g r (Some Released)) s
           else set_pc c (Ended Released) s)
      | _ \<Rightarrow> s)"

section \<open>Events\<close>

datatype lock_event =
    Begin nat lock_op "reservation option"   \<comment> \<open>a contender starts an attempt\<close>
  | Sched nat bool                           \<comment> \<open>it makes its next call; the flag is a legacy lock in the way\<close>
  | ReleaseHeld nat                          \<comment> \<open>a holder calls \<open>release()\<close>\<close>
  | RemoveDir nat                            \<comment> \<open>a holder removes the machine's directory\<close>
  | MakeParent                               \<comment> \<open>somebody creates the machine's directory\<close>
  | Crash nat                                \<comment> \<open>a process dies\<close>

definition may_begin :: "lock_pc \<Rightarrow> bool" where
  "may_begin p = (case p of Idle \<Rightarrow> True | Ended _ \<Rightarrow> True | _ \<Rightarrow> False)"

fun lock_exec :: "(nat \<Rightarrow> nat) \<Rightarrow> lock_event \<Rightarrow> lstate \<Rightarrow> lstate" where
  "lock_exec pid_of (Begin c op res) s =
     (if may_begin (lk_pc s c) \<and> pid_of c \<notin> set (lk_dead s)
      then set_pc c EnsureDir (s\<lparr>lk_req := (lk_req s)(c := (op, res))\<rparr>) else s)"
| "lock_exec pid_of (Sched c blocked) s = lock_step pid_of c blocked s"
| "lock_exec pid_of (ReleaseHeld c) s =
     (case lk_pc s c of Held i g r \<Rightarrow> set_pc c (RelRead i g r Released) s
      | HeldGone i g r \<Rightarrow> set_pc c (GoneRead i g r) s
      | _ \<Rightarrow> s)"
| "lock_exec pid_of (RemoveDir c) s =
     (case lk_pc s c of Held i g r \<Rightarrow> set_pc c (HeldGone i g r) (s\<lparr>lk_dir := None, lk_parent := False\<rparr>)
      | _ \<Rightarrow> s)"
| "lock_exec pid_of MakeParent s = s\<lparr>lk_parent := True\<rparr>"
| "lock_exec pid_of (Crash p) s =
     s\<lparr>lk_dead := p # lk_dead s, lk_pc := (\<lambda>c. if pid_of c = p then Crashed else lk_pc s c)\<rparr>"

inductive lock_reach :: "(nat \<Rightarrow> nat) \<Rightarrow> lstate \<Rightarrow> bool" for pid_of where
  init: "lock_reach pid_of lk_init"
| step: "lock_reach pid_of s \<Longrightarrow> lock_reach pid_of (lock_exec pid_of ev s)"

definition run_lock :: "(nat \<Rightarrow> nat) \<Rightarrow> lock_event list \<Rightarrow> lstate \<Rightarrow> lstate" where
  "run_lock pid_of evs s = fold (lock_exec pid_of) evs s"

lemma run_lock_reach: "lock_reach pid_of s \<Longrightarrow> lock_reach pid_of (run_lock pid_of evs s)"
  unfolding run_lock_def by (induction evs arbitrary: s) (auto intro: lock_reach.step)

section \<open>Who holds the lock\<close>

text \<open>From the moment its claim stood the checks until its released marker is published.\<close>

definition hold_of :: "lock_pc \<Rightarrow> (nat \<times> nat \<times> lrec) option" where
  "hold_of p =
     (case p of CollectList i g r rel \<Rightarrow> Some (i, g, r) | CollectUnlink i g r rel gs \<Rightarrow> Some (i, g, r)
      | LegacyCheck i g r \<Rightarrow> Some (i, g, r) | Held i g r \<Rightarrow> Some (i, g, r)
      | RelRead i g r out \<Rightarrow> Some (i, g, r) | RelWriteTmp i g r out \<Rightarrow> Some (i, g, r)
      | RelLink i g r out t \<Rightarrow> Some (i, g, r) | _ \<Rightarrow> None)"

definition holds_lock :: "lstate \<Rightarrow> nat \<Rightarrow> bool" where
  "holds_lock s c \<longleftrightarrow> hold_of (lk_pc s c) \<noteq> None"

text \<open>\<open>currentHolder\<close>: the record at the top of the log, when it is live.\<close>

definition top_record :: "lstate \<Rightarrow> lrec option" where
  "top_record s =
     (case lk_dir s of None \<Rightarrow> None
      | Some d \<Rightarrow> (case ld_id d of None \<Rightarrow> None
          | Some i \<Rightarrow> if gens_of i d = [] then None else al_get (ld_recs d) (i, Max (set (gens_of i d)))))"

definition currentHolder :: "lstate \<Rightarrow> lrec option" where
  "currentHolder s =
     (case top_record s of None \<Rightarrow> None | Some r \<Rightarrow> if rec_free (lk_dead s) r then None else Some r)"

end
