(* ===== verification/Lock_Safety.thy ===== *)
theory Lock_Safety
  imports Lock_Log
begin

text \<open>
  Mutual exclusion of the lock of \<open>src/lib/lock.ts\<close>. The invariant is about the current
  incarnation \<open>i\<close> of the directory: \<open>v\<close> is the highest number that ever stood as the state of
  the lock (a claim that passed its checks, or a released marker). Record \<open>v\<close> is never removed;
  a record above \<open>v\<close> is a claim still being checked or one whose process died, and the record
  before it is there and is free. So while the holder of \<open>v\<close> lives nothing can be created above
  it, and a claim that finds itself on top is the only one that can go on.
\<close>

section \<open>Fresh names\<close>

definition pc_id :: "lock_pc \<Rightarrow> nat option" where
  "pc_id p =
     (case p of ListTop i \<Rightarrow> Some i | ReadTop i g \<Rightarrow> Some i | CheckAlive i g r \<Rightarrow> Some i
      | WriteTmp i g j \<Rightarrow> Some i | LinkRec i g j r \<Rightarrow> Some i | ListClaim i g j r \<Rightarrow> Some i
      | ReadPred i g j r b \<Rightarrow> Some i | ReadIdent i g r \<Rightarrow> Some i | RejectUnlink i g \<Rightarrow> Some i
      | CollectList i g r rel \<Rightarrow> Some i | CollectUnlink i g r rel gs \<Rightarrow> Some i
      | LegacyCheck i g r \<Rightarrow> Some i | Held i g r \<Rightarrow> Some i | RelRead i g r out \<Rightarrow> Some i
      | RelWriteTmp i g r out \<Rightarrow> Some i | RelLink i g r out t \<Rightarrow> Some i
      | HeldGone i g r \<Rightarrow> Some i | GoneRead i g r \<Rightarrow> Some i | _ \<Rightarrow> None)"

text \<open>The contender's own record.\<close>

definition pc_own :: "lock_pc \<Rightarrow> lrec option" where
  "pc_own p =
     (case p of LinkRec i g j r \<Rightarrow> Some r | ListClaim i g j r \<Rightarrow> Some r
      | ReadPred i g j r b \<Rightarrow> Some r | ReadIdent i g r \<Rightarrow> Some r
      | CollectList i g r rel \<Rightarrow> Some r | CollectUnlink i g r rel gs \<Rightarrow> Some r
      | LegacyCheck i g r \<Rightarrow> Some r | Held i g r \<Rightarrow> Some r | RelRead i g r out \<Rightarrow> Some r
      | RelWriteTmp i g r out \<Rightarrow> Some r | RelLink i g r out t \<Rightarrow> Some r
      | HeldGone i g r \<Rightarrow> Some r | GoneRead i g r \<Rightarrow> Some r | _ \<Rightarrow> None)"

lemmas pc_fun_defs = pc_id_def pc_own_def hold_of_def

type_synonym rec_table = "((nat \<times> nat) \<times> lrec) list"

definition pc_idle :: "lock_pc \<Rightarrow> bool" where
  "pc_idle p \<longleftrightarrow> (case p of Idle \<Rightarrow> True | Ended out \<Rightarrow> True | Crashed \<Rightarrow> True | _ \<Rightarrow> False)"

text \<open>The own record of a holder that removed the directory.\<close>

definition pc_gone :: "lock_pc \<Rightarrow> lrec option" where
  "pc_gone p = (case p of HeldGone i g r \<Rightarrow> Some r | GoneRead i g r \<Rightarrow> Some r | _ \<Rightarrow> None)"

text \<open>Ids and tokens come from one supply, and a pending id is nobody's id yet.\<close>

definition ids_ok :: "nat option \<Rightarrow> rec_table \<Rightarrow> nat \<Rightarrow> (nat \<Rightarrow> lock_pc) \<Rightarrow> bool" where
  "ids_ok did recs nxt pcs \<longleftrightarrow>
     (\<forall>i. did = Some i \<longrightarrow> i < nxt)
     \<and> (\<forall>c i. pc_id (pcs c) = Some i \<longrightarrow> i < nxt)
     \<and> (\<forall>x\<in>set recs. fst (fst x) < nxt \<and> lr_token (snd x) < nxt)
     \<and> (\<forall>c u. pcs c = LinkId u \<longrightarrow> u < nxt \<and> did \<noteq> Some u
           \<and> (\<forall>d. pc_id (pcs d) \<noteq> Some u) \<and> (\<forall>d. pcs d = LinkId u \<longrightarrow> d = c)
           \<and> (\<forall>x\<in>set recs. fst (fst x) \<noteq> u))"

text \<open>Own records carry the contender's live process and differ in their tokens.\<close>

definition own_ok :: "(nat \<Rightarrow> nat) \<Rightarrow> nat \<Rightarrow> nat list \<Rightarrow> (nat \<Rightarrow> lock_pc) \<Rightarrow> bool" where
  "own_ok pid_of nxt dead pcs \<longleftrightarrow>
     (\<forall>c r. pc_own (pcs c) = Some r \<longrightarrow>
           lr_token r < nxt \<and> lr_pid r = pid_of c \<and> \<not> lr_released r
           \<and> (\<forall>d q. pc_own (pcs d) = Some q \<and> lr_token q = lr_token r \<longrightarrow> d = c))
     \<and> (\<forall>c. pc_idle (pcs c) \<or> pid_of c \<notin> set dead)"

definition gone_ok :: "rec_table \<Rightarrow> (nat \<Rightarrow> lock_pc) \<Rightarrow> bool" where
  "gone_ok recs pcs \<longleftrightarrow>
     (\<forall>c r. pc_gone (pcs c) = Some r \<longrightarrow> (\<forall>x\<in>set recs. lr_token (snd x) \<noteq> lr_token r))"

section \<open>The log of the current incarnation\<close>

definition rec_at :: "nat \<Rightarrow> rec_table \<Rightarrow> nat \<Rightarrow> lrec option" where
  "rec_at i recs g = al_get recs (i, g)"

definition seen_ok :: "nat \<Rightarrow> nat \<Rightarrow> rec_table \<Rightarrow> nat \<Rightarrow> lrec \<Rightarrow> bool" where
  "seen_ok i v recs g j \<longleftrightarrow> 0 < g \<and> (rec_at i recs g = Some j \<or> g < v)"

definition judged_ok :: "nat \<Rightarrow> nat \<Rightarrow> rec_table \<Rightarrow> nat list \<Rightarrow> nat \<Rightarrow> lrec option \<Rightarrow> bool" where
  "judged_ok i v recs dead g judged \<longleftrightarrow>
     (case judged of None \<Rightarrow> g = 1
      | Some j \<Rightarrow> 1 < g \<and> rec_free dead j \<and> seen_ok i v recs (g - 1) j)"

text \<open>What the local variables of a contender are known to say about the log.\<close>

definition pc_ok :: "nat \<Rightarrow> nat \<Rightarrow> rec_table \<Rightarrow> nat list \<Rightarrow> lock_pc \<Rightarrow> bool" where
  "pc_ok i v recs dead p \<longleftrightarrow>
     (case p of
        ReadTop k g \<Rightarrow> k = i \<longrightarrow> 0 < g
      | CheckAlive k g j \<Rightarrow> k = i \<longrightarrow> seen_ok i v recs g j
      | WriteTmp k g judged \<Rightarrow> k = i \<longrightarrow> judged_ok i v recs dead g judged
      | LinkRec k g judged r \<Rightarrow> k = i \<longrightarrow> judged_ok i v recs dead g judged
      | ListClaim k g judged r \<Rightarrow> k = i \<longrightarrow> judged_ok i v recs dead g judged
                                   \<and> ((rec_at i recs g = Some r \<and> g \<noteq> v) \<or> g < v)
      | ReadPred k g j r isTop \<Rightarrow> k = i \<longrightarrow> judged_ok i v recs dead g (Some j)
                                   \<and> (if isTop then v < g \<and> rec_at i recs g = Some r else g < v)
      | ReadIdent k g r \<Rightarrow> k = i \<longrightarrow> v < g \<and> rec_at i recs g = Some r
      | RejectUnlink k g \<Rightarrow> k = i \<longrightarrow> g < v
      | CollectUnlink k g r rel gs \<Rightarrow> k = i \<longrightarrow> list_all (\<lambda>x. x < g) gs
      | _ \<Rightarrow> True)"

definition log_ok :: "nat \<Rightarrow> nat \<Rightarrow> rec_table \<Rightarrow> nat list \<Rightarrow> bool" where
  "log_ok i v recs dead \<longleftrightarrow>
     rec_at i recs 0 = None \<and> (v = 0 \<or> rec_at i recs v \<noteq> None)
     \<and> (\<forall>g r. rec_at i recs g = Some r \<and> v < g \<longrightarrow>
          g = 1 \<or> (\<exists>j. rec_at i recs (g - 1) = Some j \<and> rec_free dead j))"

definition hold_ok :: "nat \<Rightarrow> nat \<Rightarrow> rec_table \<Rightarrow> (nat \<times> nat \<times> lrec) option \<Rightarrow> bool" where
  "hold_ok i v recs h \<longleftrightarrow> (case h of None \<Rightarrow> True | Some (k, g, r) \<Rightarrow> k = i \<and> g = v \<and> rec_at i recs v = Some r)"

definition core_ok :: "nat \<Rightarrow> nat \<Rightarrow> rec_table \<Rightarrow> nat list \<Rightarrow> (nat \<Rightarrow> lock_pc) \<Rightarrow> bool" where
  "core_ok i v recs dead pcs \<longleftrightarrow>
     log_ok i v recs dead
     \<and> (\<forall>c. hold_ok i v recs (hold_of (pcs c))) \<and> (\<forall>c. pc_ok i v recs dead (pcs c))"

definition linv :: "(nat \<Rightarrow> nat) \<Rightarrow> nat option \<Rightarrow> rec_table \<Rightarrow> nat \<Rightarrow> nat list \<Rightarrow> (nat \<Rightarrow> lock_pc) \<Rightarrow> bool" where
  "linv pid_of did recs nxt dead pcs \<longleftrightarrow>
     ids_ok did recs nxt pcs \<and> own_ok pid_of nxt dead pcs \<and> gone_ok recs pcs
     \<and> (case did of None \<Rightarrow> \<forall>c. hold_of (pcs c) = None | Some i \<Rightarrow> \<exists>v. core_ok i v recs dead pcs)"

lemma hold_ok_None [simp]: "hold_ok i v recs None"
  by (simp add: hold_ok_def)

lemma core_hold:
  "core_ok i v recs dead pcs \<Longrightarrow> hold_of (pcs c) = Some (k, g, r) \<Longrightarrow> k = i \<and> g = v \<and> rec_at i recs v = Some r"
  unfolding core_ok_def hold_ok_def by (elim conjE allE [of _ c]) simp

lemma hold_of_own: "hold_of p = Some (k, g, r) \<Longrightarrow> pc_own p = Some r \<and> pc_id p = Some k \<and> \<not> pc_idle p \<and> pc_gone p = None"
  by (cases p) (simp_all add: pc_fun_defs pc_idle_def pc_gone_def)

lemma pc_own_active: "pc_own p = Some r \<Longrightarrow> \<not> pc_idle p"
  by (cases p) (simp_all add: pc_own_def pc_idle_def)

lemma own_live:
  assumes "own_ok pid_of nxt dead pcs" and "pc_own (pcs c) = Some r"
  shows "\<not> rec_free dead r"
  using assms pc_own_active [OF assms(2)] by (auto simp: own_ok_def rec_free_def)

lemma own_unique:
  assumes "own_ok pid_of nxt dead pcs" "pc_own (pcs c) = Some r" "pc_own (pcs d) = Some r"
  shows "c = d"
  using assms unfolding own_ok_def by metis

text \<open>Below a record above \<open>v\<close> every record down to \<open>v\<close> is there and free.\<close>

lemma chain_down:
  assumes "log_ok i v recs dead" and "rec_at i recs g = Some r" and "v < g"
    and "v \<le> h" "h < g" "0 < h"
  shows "\<exists>j. rec_at i recs h = Some j \<and> rec_free dead j"
  using assms
proof (induction "g - h" arbitrary: g r)
  case (Suc d)
  have pred: "g = 1 \<or> (\<exists>j. rec_at i recs (g - 1) = Some j \<and> rec_free dead j)"
    using Suc.prems by (auto simp: log_ok_def)
  have g1: "g \<noteq> 1" using Suc.prems by simp
  then obtain j where j: "rec_at i recs (g - 1) = Some j" "rec_free dead j" using pred by auto
  show ?case
  proof (cases "h = g - 1")
    case False
    with Suc show ?thesis using j by (intro Suc.hyps(1) [of "g - 1" j]) auto
  qed (use j in auto)
qed simp

lemma live_is_top:
  assumes "log_ok i v recs dead" and "rec_at i recs h = Some r" "\<not> rec_free dead r" "v \<le> h"
    and "rec_at i recs g = Some q"
  shows "g \<le> h"
proof (rule ccontr)
  assume "\<not> g \<le> h"
  moreover have "0 < h" using assms(1,2) by (cases h) (auto simp: log_ok_def)
  ultimately have "\<exists>j. rec_at i recs h = Some j \<and> rec_free dead j"
    using chain_down [OF assms(1,5), of h] assms(4) by simp
  then show False using assms(2,3) by simp
qed

lemma holder_is_top:
  assumes "own_ok pid_of nxt dead pcs" "core_ok i v recs dead pcs" "hold_of (pcs c) = Some (k, g, r)"
    and "rec_at i recs h = Some q"
  shows "h \<le> v"
proof -
  have h: "rec_at i recs v = Some r" using core_hold [OF assms(2,3)] by simp
  have l: "log_ok i v recs dead" using assms(2) by (simp add: core_ok_def)
  have f: "\<not> rec_free dead r" using own_live [OF assms(1)] hold_of_own [OF assms(3)] by blast
  show ?thesis by (rule live_is_top [OF l h f le_refl assms(4)])
qed

section \<open>Single changes\<close>

lemma ids_pc:
  assumes ok: "ids_ok did recs nxt pcs" and p: "pc_id p = None \<or> pc_id p = pc_id (pcs c) \<or> pc_id p = did"
    and nl: "\<forall>u. p \<noteq> LinkId u"
  shows "ids_ok did recs nxt (pcs(c := p))"
proof -
  have old: "pc_id ((pcs(c := p)) d) = Some i \<Longrightarrow> did = Some i \<or> (\<exists>e. pc_id (pcs e) = Some i)" for d i
    using p by (cases "d = c") (auto simp: eq_commute)
  have link: "(pcs(c := p)) d = LinkId u \<Longrightarrow> pcs d = LinkId u" for d u
    using nl by (auto split: if_splits)
  have "i < nxt" if "pc_id ((pcs(c := p)) d) = Some i" for d i
    using old [OF that] ok unfolding ids_ok_def by blast
  moreover have "u < nxt \<and> did \<noteq> Some u \<and> (\<forall>e. pc_id ((pcs(c := p)) e) \<noteq> Some u)
      \<and> (\<forall>e. (pcs(c := p)) e = LinkId u \<longrightarrow> e = d) \<and> (\<forall>x\<in>set recs. fst (fst x) \<noteq> u)"
    if "(pcs(c := p)) d = LinkId u" for d u
  proof -
    note d = link [OF that]
    have "u < nxt \<and> did \<noteq> Some u \<and> (\<forall>e. pc_id (pcs e) \<noteq> Some u)
        \<and> (\<forall>e. pcs e = LinkId u \<longrightarrow> e = d) \<and> (\<forall>x\<in>set recs. fst (fst x) \<noteq> u)"
      using ok d unfolding ids_ok_def by blast
    then show ?thesis using old link by blast
  qed
  ultimately show ?thesis using ok unfolding ids_ok_def by blast
qed

lemma own_pc:
  assumes ok: "own_ok pid_of nxt dead pcs" and p: "pc_own p = None \<or> pc_own p = pc_own (pcs c)"
    and idle: "pc_idle p \<or> \<not> pc_idle (pcs c) \<or> pid_of c \<notin> set dead"
  shows "own_ok pid_of nxt dead (pcs(c := p))"
proof -
  have old: "pc_own ((pcs(c := p)) d) = Some r \<Longrightarrow> pc_own (pcs d) = Some r" for d r
    using p by (cases "d = c") auto
  have "lr_token r < nxt \<and> lr_pid r = pid_of d \<and> \<not> lr_released r
      \<and> (\<forall>e q. pc_own ((pcs(c := p)) e) = Some q \<and> lr_token q = lr_token r \<longrightarrow> e = d)"
    if "pc_own ((pcs(c := p)) d) = Some r" for d r
    using old [OF that] old ok unfolding own_ok_def by blast
  moreover have "pc_idle ((pcs(c := p)) d) \<or> pid_of d \<notin> set dead" for d
    using ok idle unfolding own_ok_def by (cases "d = c") auto
  ultimately show ?thesis unfolding own_ok_def by blast
qed

lemma gone_pc:
  assumes "gone_ok recs pcs" and "pc_gone p = None \<or> pc_gone p = pc_gone (pcs c)"
  shows "gone_ok recs (pcs(c := p))"
proof -
  have "\<exists>e. pc_gone (pcs e) = Some r" if "pc_gone ((pcs(c := p)) d) = Some r" for d r
  proof (cases "d = c")
    case True
    with that assms(2) show ?thesis by (intro exI [of _ c]) auto
  next
    case False
    with that show ?thesis by (intro exI [of _ d]) simp
  qed
  then show ?thesis using assms(1) unfolding gone_ok_def by blast
qed

lemma core_pc:
  assumes "core_ok i v recs dead pcs" and "hold_of p = None \<or> hold_of p = hold_of (pcs c)"
    and "pc_ok i v recs dead p"
  shows "core_ok i v recs dead (pcs(c := p))"
proof -
  have "hold_ok i v recs (hold_of (pcs d))" for d using assms(1) by (simp add: core_ok_def)
  then have "hold_ok i v recs (hold_of p)" using assms(2) by (metis hold_ok_None)
  then show ?thesis using assms(1,3) by (simp add: core_ok_def)
qed

lemma linv_pc:
  assumes "linv pid_of did recs nxt dead pcs"
    and "pc_id p = None \<or> pc_id p = pc_id (pcs c) \<or> pc_id p = did" and "\<forall>u. p \<noteq> LinkId u"
    and "pc_own p = None \<or> pc_own p = pc_own (pcs c)"
    and "pc_idle p \<or> \<not> pc_idle (pcs c) \<or> pid_of c \<notin> set dead"
    and "pc_gone p = None \<or> pc_gone p = pc_gone (pcs c)"
    and "hold_of p = None \<or> hold_of p = hold_of (pcs c)"
    and "\<And>i v. did = Some i \<Longrightarrow> core_ok i v recs dead pcs \<Longrightarrow> pc_ok i v recs dead p"
  shows "linv pid_of did recs nxt dead (pcs(c := p))"
proof -
  have 1: "ids_ok did recs nxt (pcs(c := p))"
    using assms(1,2,3) by (intro ids_pc) (simp_all add: linv_def)
  have 2: "own_ok pid_of nxt dead (pcs(c := p))"
    using assms(1,4,5) by (intro own_pc) (simp_all add: linv_def)
  have 3: "gone_ok recs (pcs(c := p))" using assms(1,6) by (intro gone_pc) (simp_all add: linv_def)
  have 4: "case did of None \<Rightarrow> \<forall>d. hold_of ((pcs(c := p)) d) = None | Some i \<Rightarrow> \<exists>v. core_ok i v recs dead (pcs(c := p))"
  proof (cases did)
    case None
    with assms(1,7) show ?thesis by (auto simp: linv_def)
  next
    case (Some i)
    then obtain v where v: "core_ok i v recs dead pcs" using assms(1) by (auto simp: linv_def)
    then have "core_ok i v recs dead (pcs(c := p))" using assms(7,8) Some by (intro core_pc) auto
    with Some show ?thesis by auto
  qed
  show ?thesis using 1 2 3 4 by (simp add: linv_def)
qed

lemma linv_next: "linv pid_of did recs nxt dead pcs \<Longrightarrow> linv pid_of did recs (Suc nxt) dead pcs"
proof -
  assume a: "linv pid_of did recs nxt dead pcs"
  have "ids_ok did recs (Suc nxt) pcs"
    using a unfolding linv_def ids_ok_def by (simp add: less_SucI)
  moreover have "own_ok pid_of (Suc nxt) dead pcs"
    using a unfolding linv_def own_ok_def by (simp add: less_SucI)
  ultimately show ?thesis using a by (simp add: linv_def)
qed

text \<open>Removing a record below \<open>v\<close>, or one of another incarnation.\<close>

lemma rec_at_del: "rec_at i (al_del (k, h) recs) g = (if i = k \<and> g = h then None else rec_at i recs g)"
  by (simp add: rec_at_def al.get_del_iff)

lemma rec_at_put: "rec_at i (al_put (k, h) r recs) g = (if i = k \<and> g = h then Some r else rec_at i recs g)"
  by (simp add: rec_at_def al.get_put_iff)

lemma seen_del: "seen_ok i v recs g j \<Longrightarrow> (k = i \<longrightarrow> h < v) \<Longrightarrow> seen_ok i v (al_del (k, h) recs) g j"
  by (auto simp: seen_ok_def rec_at_del)

lemma judged_del:
  "judged_ok i v recs dead g j \<Longrightarrow> (k = i \<longrightarrow> h < v) \<Longrightarrow> judged_ok i v (al_del (k, h) recs) dead g j"
  by (auto simp: judged_ok_def seen_del split: option.splits)

lemma pc_ok_del:
  "pc_ok i v recs dead p \<Longrightarrow> (k = i \<longrightarrow> h < v) \<Longrightarrow> pc_ok i v (al_del (k, h) recs) dead p"
  by (cases p) (auto simp: pc_ok_def seen_del judged_del rec_at_del)

lemma log_ok_del:
  assumes "log_ok i v recs dead" and "k = i \<longrightarrow> h < v"
  shows "log_ok i v (al_del (k, h) recs) dead"
proof -
  have "g = 1 \<or> (\<exists>j. rec_at i (al_del (k, h) recs) (g - 1) = Some j \<and> rec_free dead j)"
    if "rec_at i (al_del (k, h) recs) g = Some r" "v < g" for g r
  proof -
    have "rec_at i recs g = Some r" using that(1) by (simp add: rec_at_del split: if_splits)
    then have "g = 1 \<or> (\<exists>j. rec_at i recs (g - 1) = Some j \<and> rec_free dead j)"
      using assms(1) that(2) by (auto simp: log_ok_def)
    then show ?thesis using assms(2) that(2) by (auto simp: rec_at_del)
  qed
  then show ?thesis using assms by (auto simp: log_ok_def rec_at_del)
qed

lemma core_del:
  assumes "core_ok i v recs dead pcs" and "k = i \<longrightarrow> h < v"
  shows "core_ok i v (al_del (k, h) recs) dead pcs"
proof -
  have "hold_ok i v recs x \<Longrightarrow> hold_ok i v (al_del (k, h) recs) x" for x
    using assms(2) by (auto simp: hold_ok_def rec_at_del split: option.splits prod.splits)
  then show ?thesis
    using assms log_ok_del [of i v recs dead k h] pc_ok_del [of i v recs dead _ k h]
    unfolding core_ok_def by simp
qed

lemma ids_sub: "ids_ok did recs nxt pcs \<Longrightarrow> set recs' \<subseteq> set recs \<Longrightarrow> ids_ok did recs' nxt pcs"
  unfolding ids_ok_def by (elim conjE, intro conjI) blast+

lemma linv_del:
  assumes "linv pid_of did recs nxt dead pcs"
    and "\<And>i v. did = Some i \<Longrightarrow> core_ok i v recs dead pcs \<Longrightarrow> k = i \<Longrightarrow> h < v"
  shows "linv pid_of did (al_del (k, h) recs) nxt dead pcs"
proof -
  have sub: "set (al_del (k, h) recs) \<subseteq> set recs" by (rule al_del_set)
  have "ids_ok did (al_del (k, h) recs) nxt pcs"
    using assms(1) ids_sub [OF _ sub] by (simp add: linv_def)
  moreover have "gone_ok (al_del (k, h) recs) pcs"
    using assms(1) sub unfolding linv_def gone_ok_def by (meson subsetD)
  moreover have "case did of None \<Rightarrow> \<forall>c. hold_of (pcs c) = None | Some i \<Rightarrow> \<exists>v. core_ok i v (al_del (k, h) recs) dead pcs"
  proof (cases did)
    case None
    with assms(1) show ?thesis by (simp add: linv_def)
  next
    case (Some i)
    then obtain v where v: "core_ok i v recs dead pcs" using assms(1) by (auto simp: linv_def)
    have "core_ok i v (al_del (k, h) recs) dead pcs"
      using assms(2) [OF Some v] by (intro core_del [OF v]) blast
    with Some show ?thesis by auto
  qed
  ultimately show ?thesis using assms(1) by (simp add: linv_def)
qed

text \<open>Adding a record where there was none. Above \<open>v\<close> its predecessor must be there and free.\<close>

lemma rec_at_keep:
  "rec_at i recs g = Some q \<Longrightarrow> al_get recs (k, h) = None \<Longrightarrow> rec_at i (al_put (k, h) r recs) g = Some q"
  by (auto simp: rec_at_put) (simp add: rec_at_def)

lemma seen_put: "seen_ok i v recs g j \<Longrightarrow> al_get recs (k, h) = None \<Longrightarrow> seen_ok i v (al_put (k, h) r recs) g j"
  by (auto simp: seen_ok_def rec_at_keep)

lemma judged_put:
  "judged_ok i v recs dead g j \<Longrightarrow> al_get recs (k, h) = None \<Longrightarrow> judged_ok i v (al_put (k, h) r recs) dead g j"
  by (auto simp: judged_ok_def seen_put split: option.splits)

lemma pc_ok_put:
  "pc_ok i v recs dead p \<Longrightarrow> al_get recs (k, h) = None \<Longrightarrow> pc_ok i v (al_put (k, h) r recs) dead p"
  by (cases p) (auto simp: pc_ok_def seen_put judged_put rec_at_keep)

lemma log_ok_put:
  assumes "log_ok i v recs dead" and new: "al_get recs (k, h) = None" and "k = i \<Longrightarrow> 0 < h"
    and "k = i \<Longrightarrow> v < h \<Longrightarrow> h = 1 \<or> (\<exists>j. rec_at i recs (h - 1) = Some j \<and> rec_free dead j)"
  shows "log_ok i v (al_put (k, h) r recs) dead"
proof -
  have keep: "rec_at i (al_put (k, h) r recs) g = Some q" if "rec_at i recs g = Some q" for g q
    using that new by (rule rec_at_keep)
  have "g = 1 \<or> (\<exists>j. rec_at i (al_put (k, h) r recs) (g - 1) = Some j \<and> rec_free dead j)"
    if "rec_at i (al_put (k, h) r recs) g = Some q" "v < g" for g q
  proof (cases "i = k \<and> g = h")
    case True
    then show ?thesis using assms(4) that(2) keep by blast
  next
    case False
    then have "rec_at i recs g = Some q" using that(1) by (simp add: rec_at_put split: if_splits)
    then show ?thesis using assms(1) that(2) keep unfolding log_ok_def by blast
  qed
  then show ?thesis using assms(1,3) keep by (auto simp: log_ok_def rec_at_put)
qed

lemma core_put:
  assumes "core_ok i v recs dead pcs" and "al_get recs (k, h) = None" and "k = i \<Longrightarrow> 0 < h"
    and "k = i \<Longrightarrow> v < h \<Longrightarrow> h = 1 \<or> (\<exists>j. rec_at i recs (h - 1) = Some j \<and> rec_free dead j)"
  shows "core_ok i v (al_put (k, h) r recs) dead pcs"
proof -
  have "hold_ok i v recs x \<Longrightarrow> hold_ok i v (al_put (k, h) r recs) x" for x
    using rec_at_keep [OF _ assms(2)] by (auto simp: hold_ok_def split: option.splits prod.splits)
  then show ?thesis
    using assms log_ok_put [of i v recs dead k h r] pc_ok_put [of i v recs dead _ k h r]
    unfolding core_ok_def by simp
qed

section \<open>The changes that matter\<close>

lemma linvD:
  assumes "linv pid_of did recs nxt dead pcs"
  shows "ids_ok did recs nxt pcs" "own_ok pid_of nxt dead pcs" "gone_ok recs pcs"
    "did = Some i \<Longrightarrow> \<exists>v. core_ok i v recs dead pcs" "did = None \<Longrightarrow> hold_of (pcs c) = None"
  using assms by (auto simp: linv_def split: option.splits)

lemma pc_gone_own: "pc_gone p = Some r \<Longrightarrow> pc_own p = Some r"
  by (cases p) (simp_all add: pc_gone_def pc_own_def)

lemma al_put_in: "x \<in> set (al_put k v s) \<Longrightarrow> x = (k, v) \<or> x \<in> set s"
  using al_put_set [of k v s] by blast

text \<open>A record with the token of a contender's own record does not touch a removed holder.\<close>

lemma gone_put:
  assumes "own_ok pid_of nxt dead pcs" "gone_ok recs pcs" "pc_own (pcs c) = Some r" "pc_gone (pcs c) = None"
    and "lr_token q = lr_token r"
  shows "gone_ok (al_put k q recs) pcs"
  unfolding gone_ok_def
proof (intro allI impI ballI)
  fix d x rd
  assume d: "pc_gone (pcs d) = Some rd" and x: "x \<in> set (al_put k q recs)"
  have "d \<noteq> c" using d assms(4) by auto
  then have "lr_token q \<noteq> lr_token rd"
    using assms(1,3,5) pc_gone_own [OF d] unfolding own_ok_def by metis
  moreover have "x \<in> set recs \<Longrightarrow> lr_token (snd x) \<noteq> lr_token rd"
    using assms(2) d unfolding gone_ok_def by blast
  ultimately show "lr_token (snd x) \<noteq> lr_token rd" using al_put_in [OF x] by auto
qed

lemma ids_put:
  assumes "ids_ok did recs nxt pcs" and "pc_id (pcs c) = Some i" and "lr_token q < nxt"
  shows "ids_ok did (al_put (i, g) q recs) nxt pcs"
proof -
  have i: "i < nxt" "\<And>d u. pcs d = LinkId u \<Longrightarrow> u \<noteq> i"
    using assms(1,2) unfolding ids_ok_def by blast+
  have old: "\<And>x. x \<in> set recs \<Longrightarrow> fst (fst x) < nxt \<and> lr_token (snd x) < nxt"
    "\<And>x d u. x \<in> set recs \<Longrightarrow> pcs d = LinkId u \<Longrightarrow> fst (fst x) \<noteq> u"
    using assms(1) unfolding ids_ok_def by blast+
  have "fst (fst x) < nxt \<and> lr_token (snd x) < nxt" if "x \<in> set (al_put (i, g) q recs)" for x
    using al_put_in [OF that] i(1) old(1) [of x] assms(3) by auto
  moreover have "fst (fst x) \<noteq> u" if "x \<in> set (al_put (i, g) q recs)" "pcs d = LinkId u" for x d u
    using al_put_in [OF that(1)] i(2) [OF that(2)] old(2) [of x d u] that(2) by auto
  ultimately show ?thesis using assms(1) unfolding ids_ok_def by blast
qed

lemma linv_claim:
  assumes inv: "linv pid_of did recs nxt dead pcs" and c: "pcs c = LinkRec i g judged r"
    and new: "al_get recs (i, g) = None"
  shows "linv pid_of did (al_put (i, g) r recs) nxt dead (pcs(c := ListClaim i g judged r))"
proof -
  let ?p = "ListClaim i g judged r"
  have own: "pc_own (pcs c) = Some r" and id: "pc_id (pcs c) = Some i" by (simp_all add: c pc_fun_defs)
  have tok: "lr_token r < nxt" using linvD(2) [OF inv] own unfolding own_ok_def by blast
  have 1: "ids_ok did (al_put (i, g) r recs) nxt (pcs(c := ?p))"
    by (rule ids_pc [OF ids_put [OF linvD(1) [OF inv] id tok]]) (simp_all add: c pc_fun_defs)
  have 2: "own_ok pid_of nxt dead (pcs(c := ?p))"
    by (rule own_pc [OF linvD(2) [OF inv]]) (simp_all add: c pc_fun_defs pc_idle_def)
  have 3: "gone_ok (al_put (i, g) r recs) (pcs(c := ?p))"
    using gone_put [OF linvD(2,3) [OF inv] own _ refl] by (intro gone_pc) (simp_all add: c pc_gone_def)
  have 4: "\<exists>v. core_ok k v (al_put (i, g) r recs) dead (pcs(c := ?p))" if "did = Some k" for k
  proof -
    obtain v where v: "core_ok k v recs dead pcs" using linvD(4) [OF inv \<open>did = Some k\<close>] by blast
    have j: "i = k \<Longrightarrow> judged_ok k v recs dead g judged"
      using v by (auto simp: core_ok_def pc_ok_def c dest!: spec [of _ c])
    have l: "log_ok k v recs dead" using v by (simp add: core_ok_def)
    have pos: "i = k \<Longrightarrow> 0 < g" using j by (auto simp: judged_ok_def split: option.splits)
    have pred: "g = 1 \<or> (\<exists>q. rec_at k recs (g - 1) = Some q \<and> rec_free dead q)" if "i = k" "v < g"
      using j [OF that(1)] that(2) by (auto simp: judged_ok_def seen_ok_def split: option.splits)
    have core: "core_ok k v (al_put (i, g) r recs) dead pcs"
      by (rule core_put [OF v new pos pred])
    have "i = k \<Longrightarrow> g \<noteq> v"
      using l pos new by (auto simp: log_ok_def rec_at_def)
    then have "pc_ok k v (al_put (i, g) r recs) dead ?p"
      using judged_put [OF j new] by (auto simp: pc_ok_def rec_at_put)
    then have "core_ok k v (al_put (i, g) r recs) dead (pcs(c := ?p))"
      by (intro core_pc [OF core]) (simp_all add: hold_of_def)
    then show ?thesis by blast
  qed
  have 5: "hold_of ((pcs(c := ?p)) d) = None" if "did = None" for d
    using linvD(5) [OF inv that, of d] by (simp add: hold_of_def)
  show ?thesis unfolding linv_def using 1 2 3 4 5 by (cases did) simp_all
qed

lemma seen_raise: "seen_ok i v recs h j \<Longrightarrow> v \<le> w \<Longrightarrow> seen_ok i w recs h j"
  by (auto simp: seen_ok_def)

lemma judged_raise: "judged_ok i v recs dead h j \<Longrightarrow> v \<le> w \<Longrightarrow> judged_ok i w recs dead h j"
  by (auto simp: judged_ok_def seen_raise split: option.splits)

lemma pc_ok_raise:
  assumes "log_ok i v recs dead" "v < g" "rec_at i recs g = Some r" "\<not> rec_free dead r"
    and "pc_ok i v recs dead p" and own: "\<And>q. pc_own p = Some q \<Longrightarrow> \<not> rec_free dead q \<and> q \<noteq> r"
  shows "pc_ok i g recs dead p"
proof -
  have no: False if "v < h" "rec_at i recs h = Some q" "pc_own p = Some q" for h q
    using live_is_top [OF assms(1,3,4), of h q] live_is_top [OF assms(1) that(2), of g r] that assms(2,3) own [OF that(3)]
    by auto
  have "v \<le> g" using assms(2) by simp
  note raise = seen_raise [OF _ this] judged_raise [OF _ this]
  show ?thesis
  proof (cases p)
    case (ListClaim k h j q)
    then have "pc_own p = Some q" by (simp add: pc_own_def)
    then show ?thesis using assms(2,3,5) no [of h q] ListClaim own raise by (auto simp: pc_ok_def)
  next
    case (ReadPred k h j q b)
    then have "pc_own p = Some q" by (simp add: pc_own_def)
    then show ?thesis using assms(2,5) no [of h q] ReadPred raise by (auto simp: pc_ok_def)
  next
    case (ReadIdent k h q)
    then have "pc_own p = Some q" by (simp add: pc_own_def)
    then show ?thesis using assms(5) no [of h q] ReadIdent by (auto simp: pc_ok_def)
  qed (use assms(2,5) raise in \<open>auto simp: pc_ok_def\<close>)
qed

lemma linv_validate:
  assumes inv: "linv pid_of did recs nxt dead pcs" and c: "pcs c = ReadIdent i g r" and did: "did = Some i"
  shows "linv pid_of did recs nxt dead (pcs(c := CollectList i g r None))"
proof -
  let ?p = "CollectList i g r None"
  have own: "pc_own (pcs c) = Some r" by (simp add: c pc_fun_defs)
  have 1: "ids_ok did recs nxt (pcs(c := ?p))"
    by (rule ids_pc [OF linvD(1) [OF inv]]) (simp_all add: did pc_fun_defs)
  have 2: "own_ok pid_of nxt dead (pcs(c := ?p))"
    by (rule own_pc [OF linvD(2) [OF inv]]) (simp_all add: c pc_fun_defs pc_idle_def)
  have 3: "gone_ok recs (pcs(c := ?p))" by (rule gone_pc [OF linvD(3) [OF inv]]) (simp add: pc_gone_def)
  obtain v where v: "core_ok i v recs dead pcs" using linvD(4) [OF inv did] by blast
  have vg: "v < g" "rec_at i recs g = Some r"
    using v c by (auto simp: core_ok_def pc_ok_def dest!: spec [of _ c])
  have l: "log_ok i v recs dead" using v by (simp add: core_ok_def)
  have live: "\<not> rec_free dead r" by (rule own_live [OF linvD(2) [OF inv] own])
  have nohold: "hold_of (pcs d) = None" for d
    using holder_is_top [OF linvD(2) [OF inv] v _ vg(2)] vg(1) by (cases "hold_of (pcs d)") fastforce+
  have pcok: "pc_ok i g recs dead (pcs d)" if "d \<noteq> c" for d
  proof (rule pc_ok_raise [OF l vg live])
    show "pc_ok i v recs dead (pcs d)" using v by (simp add: core_ok_def)
    show "\<not> rec_free dead q \<and> q \<noteq> r" if "pc_own (pcs d) = Some q" for q
      using own_live [OF linvD(2) [OF inv] that] own_unique [OF linvD(2) [OF inv] own, of d] that \<open>d \<noteq> c\<close> by auto
  qed
  have "log_ok i g recs dead" using l vg by (auto simp: log_ok_def)
  then have "core_ok i g recs dead (pcs(c := ?p))"
    using nohold pcok vg(2) by (simp add: core_ok_def hold_ok_def hold_of_def pc_ok_def)
  then show ?thesis unfolding linv_def did using 1 2 3 did by auto
qed

lemma pc_ok_release:
  assumes top: "\<And>h q. rec_at i recs h = Some q \<Longrightarrow> h \<le> v" and "pc_ok i v recs dead p"
  shows "pc_ok i (Suc v) recs dead p"
proof -
  have "v \<le> Suc v" by simp
  note raise = seen_raise [OF _ this] judged_raise [OF _ this]
  have no: "rec_at i recs h = Some q \<Longrightarrow> \<not> v < h" for h q using top by fastforce
  show ?thesis
    using assms(2) raise no by (cases p) (auto simp: pc_ok_def less_Suc_eq dest: top)
qed

lemma linv_marker:
  assumes inv: "linv pid_of did recs nxt dead pcs" and c: "pcs c = RelLink i g r out t"
    and new: "al_get recs (i, Suc g) = None"
  shows "linv pid_of did (al_put (i, Suc g) (marker r) recs) nxt dead (pcs(c := Ended out))"
proof -
  let ?p = "Ended out" and ?recs = "al_put (i, Suc g) (marker r) recs"
  have own: "pc_own (pcs c) = Some r" and id: "pc_id (pcs c) = Some i" and hold: "hold_of (pcs c) = Some (i, g, r)"
    by (simp_all add: c pc_fun_defs)
  have tok: "lr_token (marker r) < nxt" using linvD(2) [OF inv] own unfolding own_ok_def by (auto simp: marker_def)
  have 1: "ids_ok did ?recs nxt (pcs(c := ?p))"
    by (rule ids_pc [OF ids_put [OF linvD(1) [OF inv] id tok]]) (simp_all add: pc_fun_defs)
  have 2: "own_ok pid_of nxt dead (pcs(c := ?p))"
    by (rule own_pc [OF linvD(2) [OF inv]]) (simp_all add: pc_fun_defs pc_idle_def)
  have 3: "gone_ok ?recs (pcs(c := ?p))"
    using gone_put [OF linvD(2,3) [OF inv] own, of "marker r" "(i, Suc g)"]
    by (intro gone_pc) (simp_all add: c pc_gone_def marker_def)
  obtain k where did: "did = Some k" using linvD(5) [OF inv, of c] hold by (cases did) auto
  obtain v where v: "core_ok k v recs dead pcs" using linvD(4) [OF inv did] by blast
  have h: "i = k" "g = v" "rec_at k recs v = Some r" using core_hold [OF v hold] by auto
  have top: "h \<le> v" if "rec_at k recs h = Some q" for h q
    by (rule holder_is_top [OF linvD(2) [OF inv] v hold that])
  have l: "log_ok k v recs dead" using v by (simp add: core_ok_def)
  have l': "log_ok k (Suc v) ?recs dead"
    using l top h by (auto simp: log_ok_def rec_at_put dest: top split: if_splits)
  have nohold: "hold_of (pcs d) = None" if "d \<noteq> c" for d
  proof (cases "hold_of (pcs d)")
    case (Some x)
    obtain k' g' r' where x: "x = (k', g', r')" by (metis prod_cases3)
    have "r' = r" using core_hold [OF v, of d k' g' r'] h(3) Some x by simp
    then show ?thesis
      using own_unique [OF linvD(2) [OF inv] own, of d] hold_of_own [of "pcs d" k' g' r'] Some x that by simp
  qed simp
  have pcok: "pc_ok k (Suc v) ?recs dead (pcs d)" for d
    using v top new by (intro pc_ok_put pc_ok_release) (auto simp: core_ok_def)
  have "core_ok k (Suc v) ?recs dead (pcs(c := ?p))"
    using l' nohold pcok by (simp add: core_ok_def hold_of_def pc_ok_def)
  then show ?thesis unfolding linv_def did using 1 2 3 did by auto
qed

lemma pc_ok_other: "pc_id p \<noteq> Some i \<Longrightarrow> pc_ok i v recs dead p"
  by (cases p) (auto simp: pc_ok_def pc_id_def)

lemma linv_link_id:
  assumes inv: "linv pid_of None recs nxt dead pcs" and c: "pcs c = LinkId u"
  shows "linv pid_of (Some u) recs nxt dead (pcs(c := ReadIdAgain))"
proof -
  have u: "u < nxt" "\<And>d. pc_id (pcs d) \<noteq> Some u" "\<And>d. pcs d = LinkId u \<Longrightarrow> d = c"
    "\<And>x. x \<in> set recs \<Longrightarrow> fst (fst x) \<noteq> u"
    using linvD(1) [OF inv] c unfolding ids_ok_def by blast+
  have "ids_ok None recs nxt (pcs(c := ReadIdAgain))"
    by (rule ids_pc [OF linvD(1) [OF inv]]) (simp_all add: pc_id_def)
  moreover have "(pcs(c := ReadIdAgain)) d \<noteq> LinkId u" for d
    using u(3) [of d] by auto
  ultimately have 1: "ids_ok (Some u) recs nxt (pcs(c := ReadIdAgain))"
    using u(1) unfolding ids_ok_def by blast
  have 2: "own_ok pid_of nxt dead (pcs(c := ReadIdAgain))"
    by (rule own_pc [OF linvD(2) [OF inv]]) (simp_all add: c pc_fun_defs pc_idle_def)
  have 3: "gone_ok recs (pcs(c := ReadIdAgain))" by (rule gone_pc [OF linvD(3) [OF inv]]) (simp add: pc_gone_def)
  have none: "rec_at u recs g = None" for g
    using u(4) al_get_in [of recs "(u, g)"] unfolding rec_at_def by (cases "al_get recs (u, g)") fastforce+
  have "hold_of ((pcs(c := ReadIdAgain)) d) = None" for d
    using linvD(5) [OF inv refl, of d] by (simp add: hold_of_def)
  moreover have "pc_ok u 0 recs dead ((pcs(c := ReadIdAgain)) d)" for d
    using u(2) [of d] by (intro pc_ok_other) (simp add: pc_id_def)
  ultimately have "core_ok u 0 recs dead (pcs(c := ReadIdAgain))"
    by (simp add: core_ok_def log_ok_def none)
  then show ?thesis unfolding linv_def using 1 2 3 by auto
qed

lemma linv_remove:
  assumes inv: "linv pid_of did recs nxt dead pcs" and c: "pcs c = Held i g r"
  shows "linv pid_of None [] nxt dead (pcs(c := HeldGone i g r))"
proof -
  let ?p = "HeldGone i g r"
  have own: "pc_own (pcs c) = Some r" and hold: "hold_of (pcs c) = Some (i, g, r)"
    by (simp_all add: c pc_fun_defs)
  have "ids_ok did recs nxt (pcs(c := ?p))"
    by (rule ids_pc [OF linvD(1) [OF inv]]) (simp_all add: c pc_fun_defs)
  then have 1: "ids_ok None [] nxt (pcs(c := ?p))" unfolding ids_ok_def list.set by blast
  have 2: "own_ok pid_of nxt dead (pcs(c := ?p))"
    by (rule own_pc [OF linvD(2) [OF inv]]) (simp_all add: c pc_fun_defs pc_idle_def)
  have 3: "gone_ok [] (pcs(c := ?p))" by (simp add: gone_ok_def)
  obtain k where did: "did = Some k" using linvD(5) [OF inv, of c] hold by (cases did) auto
  obtain v where v: "core_ok k v recs dead pcs" using linvD(4) [OF inv did] by blast
  have "hold_of ((pcs(c := ?p)) d) = None" for d
  proof (cases "d = c \<or> hold_of (pcs d) = None")
    case False
    then obtain x where x: "hold_of (pcs d) = Some x" by auto
    obtain k' g' r' where k: "x = (k', g', r')" by (metis prod_cases3)
    have "r' = r" using core_hold [OF v, of d k' g' r'] core_hold [OF v hold] x k by simp
    then have "d = c"
      using own_unique [OF linvD(2) [OF inv] own, of d] hold_of_own [of "pcs d" k' g' r'] x k by simp
    with False show ?thesis by simp
  qed (auto simp: hold_of_def)
  then show ?thesis unfolding linv_def using 1 2 3 by simp
qed

lemma linv_write:
  assumes inv: "linv pid_of did recs nxt dead pcs" and c: "pcs c = WriteTmp i g judged"
    and r: "lr_token r = nxt" "lr_pid r = pid_of c" "\<not> lr_released r"
  shows "linv pid_of did recs (Suc nxt) dead (pcs(c := LinkRec i g judged r))"
proof -
  let ?p = "LinkRec i g judged r"
  note inv' = linv_next [OF inv]
  have 1: "ids_ok did recs (Suc nxt) (pcs(c := ?p))"
    by (rule ids_pc [OF linvD(1) [OF inv']]) (simp_all add: c pc_fun_defs)
  have lt: "lr_token q < nxt" if "pc_own (pcs d) = Some q" for d q
    using linvD(2) [OF inv] that unfolding own_ok_def by blast
  have own: "pc_own ((pcs(c := ?p)) d) = Some q \<longleftrightarrow> (if d = c then q = r else pc_own (pcs d) = Some q)" for d q
    by (auto simp: pc_own_def)
  have old: "d \<noteq> c \<Longrightarrow> pc_own (pcs d) = Some q \<Longrightarrow> lr_token q < nxt \<and> lr_pid q = pid_of d \<and> \<not> lr_released q
      \<and> (\<forall>e q'. pc_own (pcs e) = Some q' \<and> lr_token q' = lr_token q \<longrightarrow> e = d)" for d q
    using linvD(2) [OF inv] unfolding own_ok_def by blast
  have idle: "pc_idle ((pcs(c := ?p)) d) \<or> pid_of d \<notin> set dead" for d
  proof (cases "d = c")
    case True
    have "pc_idle (pcs c) \<or> pid_of c \<notin> set dead" using linvD(2) [OF inv] unfolding own_ok_def by blast
    then show ?thesis using c True by (simp add: pc_idle_def)
  next
    case False
    have "pc_idle (pcs d) \<or> pid_of d \<notin> set dead" using linvD(2) [OF inv] unfolding own_ok_def by blast
    then show ?thesis using False by simp
  qed
  have 2: "own_ok pid_of (Suc nxt) dead (pcs(c := ?p))"
    unfolding own_ok_def
  proof (intro conjI allI impI)
    fix d q e q'
    assume d: "pc_own ((pcs(c := ?p)) d) = Some q"
    show "lr_token q < Suc nxt" "lr_pid q = pid_of d" "\<not> lr_released q"
      using d old [of d q] r unfolding own by (auto split: if_splits)
    assume e: "pc_own ((pcs(c := ?p)) e) = Some q' \<and> lr_token q' = lr_token q"
    show "e = d"
      using d e old [of d q] old [of e q'] r(1) unfolding own by (auto split: if_splits)
  next
    fix d show "pc_idle ((pcs(c := ?p)) d) \<or> pid_of d \<notin> set dead" by (rule idle)
  qed
  have 3: "gone_ok recs (pcs(c := ?p))" by (rule gone_pc [OF linvD(3) [OF inv]]) (simp add: pc_gone_def)
  have 4: "\<exists>v. core_ok k v recs dead (pcs(c := ?p))" if "did = Some k" for k
  proof -
    obtain v where v: "core_ok k v recs dead pcs" using linvD(4) [OF inv \<open>did = Some k\<close>] by blast
    then have "pc_ok k v recs dead (WriteTmp i g judged)" by (auto simp: core_ok_def c dest!: spec [of _ c])
    then have "core_ok k v recs dead (pcs(c := ?p))"
      by (intro core_pc [OF v]) (simp_all add: hold_of_def pc_ok_def)
    then show ?thesis by blast
  qed
  have 5: "hold_of ((pcs(c := ?p)) d) = None" if "did = None" for d
    using linvD(5) [OF inv that, of d] by (simp add: hold_of_def)
  show ?thesis unfolding linv_def using 1 2 3 4 5 by (cases did) simp_all
qed

lemma linv_write_id:
  assumes inv: "linv pid_of did recs nxt dead pcs" and c: "pcs c = WriteIdTmp"
  shows "linv pid_of did recs (Suc nxt) dead (pcs(c := LinkId nxt))"
proof -
  let ?p = "LinkId nxt"
  have old: "\<And>i. did = Some i \<Longrightarrow> i < nxt" "\<And>d i. pc_id (pcs d) = Some i \<Longrightarrow> i < nxt"
    "\<And>x. x \<in> set recs \<Longrightarrow> fst (fst x) < nxt \<and> lr_token (snd x) < nxt"
    using linvD(1) [OF inv] unfolding ids_ok_def by blast+
  have pend: "\<And>d u. pcs d = LinkId u \<Longrightarrow> u < nxt \<and> did \<noteq> Some u"
    "\<And>d e u. pcs d = LinkId u \<Longrightarrow> pc_id (pcs e) \<noteq> Some u"
    "\<And>d e u. pcs d = LinkId u \<Longrightarrow> pcs e = LinkId u \<Longrightarrow> e = d"
    "\<And>d x u. pcs d = LinkId u \<Longrightarrow> x \<in> set recs \<Longrightarrow> fst (fst x) \<noteq> u"
    using linvD(1) [OF inv] unfolding ids_ok_def by blast+
  have id: "pc_id ((pcs(c := ?p)) d) = Some i \<Longrightarrow> pc_id (pcs d) = Some i" for d i
    by (auto simp: pc_id_def split: if_splits)
  have 1: "ids_ok did recs (Suc nxt) (pcs(c := ?p))"
    unfolding ids_ok_def
  proof (intro conjI allI impI ballI)
    show "i < Suc nxt" if "did = Some i" for i using old(1) [OF that] by simp
    show "i < Suc nxt" if "pc_id ((pcs(c := ?p)) d) = Some i" for d i using old(2) [OF id [OF that]] by simp
    show "fst (fst x) < Suc nxt" "lr_token (snd x) < Suc nxt" if "x \<in> set recs" for x
      using old(3) [OF that] by simp_all
    fix d u assume d: "(pcs(c := ?p)) d = LinkId u"
    have du: "(d = c \<and> u = nxt) \<or> (d \<noteq> c \<and> pcs d = LinkId u)" using d by (auto split: if_splits)
    show "u < Suc nxt" "did \<noteq> Some u" using du old(1) [of nxt] pend(1) [of d u] by auto
    show "pc_id ((pcs(c := ?p)) e) \<noteq> Some u" for e
      using du old(2) [of e nxt] pend(2) [of d u e] id [of e u] by auto
    show "e = d" if "(pcs(c := ?p)) e = LinkId u" for e
    proof -
      have eu: "(e = c \<and> u = nxt) \<or> (e \<noteq> c \<and> pcs e = LinkId u)" using that by (auto split: if_splits)
      then show ?thesis using du pend(1) [of d u] pend(1) [of e u] pend(3) [of d u e] by auto
    qed
    show "fst (fst x) \<noteq> u" if "x \<in> set recs" for x
      using du old(3) [OF that] pend(4) [of d u x] that by auto
  qed
  have 2: "own_ok pid_of (Suc nxt) dead (pcs(c := ?p))"
    using linvD(2) [OF linv_next [OF inv]] by (rule own_pc) (simp_all add: c pc_fun_defs pc_idle_def)
  have 3: "gone_ok recs (pcs(c := ?p))" by (rule gone_pc [OF linvD(3) [OF inv]]) (simp add: pc_gone_def)
  have 4: "\<exists>v. core_ok k v recs dead (pcs(c := ?p))" if "did = Some k" for k
  proof -
    obtain v where "core_ok k v recs dead pcs" using linvD(4) [OF inv \<open>did = Some k\<close>] by blast
    then have "core_ok k v recs dead (pcs(c := ?p))"
      by (rule core_pc) (simp_all add: hold_of_def pc_ok_def)
    then show ?thesis by blast
  qed
  have 5: "hold_of ((pcs(c := ?p)) d) = None" if "did = None" for d
    using linvD(5) [OF inv that, of d] by (simp add: hold_of_def)
  show ?thesis unfolding linv_def using 1 2 3 4 5 by (cases did) simp_all
qed

lemma rec_free_Cons: "rec_free dead r \<Longrightarrow> rec_free (p # dead) r"
  by (auto simp: rec_free_def)

lemma linv_crash:
  assumes inv: "linv pid_of did recs nxt dead pcs"
  shows "linv pid_of did recs nxt (p # dead) (\<lambda>c. if pid_of c = p then Crashed else pcs c)"
proof -
  let ?pcs = "\<lambda>c. if pid_of c = p then Crashed else pcs c"
  have dead: "pc_id Crashed = None" "pc_own Crashed = None" "pc_gone Crashed = None" "hold_of Crashed = None" "pc_idle Crashed"
    by (simp_all add: pc_fun_defs pc_gone_def pc_idle_def)
  have 1: "ids_ok did recs nxt ?pcs"
    using linvD(1) [OF inv] unfolding ids_ok_def by (simp add: dead)
  have 2: "own_ok pid_of nxt (p # dead) ?pcs"
    using linvD(2) [OF inv] unfolding own_ok_def by (simp add: dead)
  have 3: "gone_ok recs ?pcs"
    using linvD(3) [OF inv] unfolding gone_ok_def by (simp add: dead)
  have j: "judged_ok i v recs dead g q \<Longrightarrow> judged_ok i v recs (p # dead) g q" for i v g q
    by (auto simp: judged_ok_def rec_free_Cons split: option.splits)
  have "pc_ok i v recs dead q \<Longrightarrow> pc_ok i v recs (p # dead) q" for i v q
    by (cases q) (auto simp: pc_ok_def j)
  moreover have "log_ok i v recs dead \<Longrightarrow> log_ok i v recs (p # dead)" for i v
    unfolding log_ok_def using rec_free_Cons by blast
  moreover have "pc_ok i v recs (p # dead) Crashed" for i v by (simp add: pc_ok_def)
  ultimately have "core_ok i v recs dead pcs \<Longrightarrow> core_ok i v recs (p # dead) ?pcs" for i v
    by (simp add: core_ok_def dead)
  then show ?thesis
    using 1 2 3 inv unfolding linv_def by (auto simp: dead split: option.splits)
qed

section \<open>Every step keeps the invariant\<close>

definition recs_of :: "lstate \<Rightarrow> rec_table" where
  "recs_of s = (case lk_dir s of None \<Rightarrow> [] | Some d \<Rightarrow> ld_recs d)"

definition sinv :: "(nat \<Rightarrow> nat) \<Rightarrow> lstate \<Rightarrow> bool" where
  "sinv pid_of s \<longleftrightarrow> linv pid_of (read_id s) (recs_of s) (lk_next s) (lk_dead s) (lk_pc s)
     \<and> distinct (map fst (recs_of s))"

lemma set_pc_fields [simp]:
  "read_id (set_pc c p s) = read_id s" "recs_of (set_pc c p s) = recs_of s" "lk_next (set_pc c p s) = lk_next s"
  "lk_dead (set_pc c p s) = lk_dead s" "lk_pc (set_pc c p s) = (lk_pc s)(c := p)" "lk_dir (set_pc c p s) = lk_dir s"
  by (simp_all add: set_pc_def read_id_def recs_of_def)

lemma dir_fields [simp]:
  "read_id (s\<lparr>lk_dir := d\<rparr>) = (case d of None \<Rightarrow> None | Some d \<Rightarrow> ld_id d)"
  "recs_of (s\<lparr>lk_dir := d\<rparr>) = (case d of None \<Rightarrow> [] | Some d \<Rightarrow> ld_recs d)"
  by (simp_all add: read_id_def recs_of_def)

lemma other_fields [simp]:
  "read_id (s\<lparr>lk_next := n\<rparr>) = read_id s" "recs_of (s\<lparr>lk_next := n\<rparr>) = recs_of s"
  "read_id (s\<lparr>lk_req := q\<rparr>) = read_id s" "recs_of (s\<lparr>lk_req := q\<rparr>) = recs_of s"
  "read_id (s\<lparr>lk_parent := b\<rparr>) = read_id s" "recs_of (s\<lparr>lk_parent := b\<rparr>) = recs_of s"
  "read_id (s\<lparr>lk_dead := l\<rparr>) = read_id s" "recs_of (s\<lparr>lk_dead := l\<rparr>) = recs_of s"
  "read_id (s\<lparr>lk_pc := f\<rparr>) = read_id s" "recs_of (s\<lparr>lk_pc := f\<rparr>) = recs_of s"
  by (simp_all add: read_id_def recs_of_def)

lemma unlink_fields [simp]:
  "read_id (unlink_rec i g s) = read_id s" "lk_next (unlink_rec i g s) = lk_next s"
  "lk_dead (unlink_rec i g s) = lk_dead s" "lk_pc (unlink_rec i g s) = lk_pc s"
  "recs_of (unlink_rec i g s) = al_del (i, g) (recs_of s)"
  by (auto simp: unlink_rec_def read_id_def recs_of_def al_del_def split: option.splits)

lemma read_rec_at: "read_rec i g s = rec_at i (recs_of s) g"
  by (auto simp: read_rec_def rec_at_def recs_of_def split: option.splits)

lemma gens_of_iff: "g \<in> set (gens_of i d) \<longleftrightarrow> rec_at i (ld_recs d) g \<noteq> None"
  unfolding rec_at_def al_get_None gens_of_def by force

lemma gens_distinct:
  assumes "distinct (map fst (ld_recs d))" shows "distinct (gens_of i d)"
proof -
  have "distinct (filter (\<lambda>k. fst k = i) (map fst (ld_recs d)))" using assms by simp
  then have "distinct (map snd (filter (\<lambda>k. fst k = i) (map fst (ld_recs d))))"
    by (auto simp: distinct_map inj_on_def)
  moreover have "gens_of i d = map snd (filter (\<lambda>k. fst k = i) (map fst (ld_recs d)))"
    by (simp add: gens_of_def filter_map comp_def case_prod_unfold)
  ultimately show ?thesis by simp
qed

lemma write_tmp_cases:
  "case write_tmp s of None \<Rightarrow> lk_dir s = None
   | Some s' \<Rightarrow> read_id s' = read_id s \<and> recs_of s' = recs_of s \<and> lk_next s' = Suc (lk_next s)
       \<and> lk_dead s' = lk_dead s \<and> lk_pc s' = lk_pc s"
  by (auto simp: write_tmp_def read_id_def recs_of_def split: option.splits)

lemma link_rec_cases:
  "case link_rec t k r s of LinkMissing \<Rightarrow> True
   | LinkExists d \<Rightarrow> ld_id d = read_id s \<and> ld_recs d = recs_of s
   | Linked d \<Rightarrow> ld_id d = read_id s \<and> ld_recs d = al_put k r (recs_of s) \<and> al_get (recs_of s) k = None"
  by (auto simp: link_rec_def read_id_def recs_of_def Let_def split: option.splits)

lemma link_id_cases:
  "case link_id u s of LinkMissing \<Rightarrow> True
   | LinkExists d \<Rightarrow> ld_id d = read_id s \<and> ld_recs d = recs_of s
   | Linked d \<Rightarrow> ld_id d = Some u \<and> read_id s = None \<and> ld_recs d = recs_of s"
  by (auto simp: link_id_def read_id_def recs_of_def Let_def split: option.splits)

text \<open>A change of the program counter alone.\<close>

lemma sinv_pc:
  assumes "sinv pid_of s" and "pc_id p = None \<or> pc_id p = pc_id (lk_pc s c) \<or> pc_id p = read_id s"
    and "\<forall>u. p \<noteq> LinkId u" and "pc_own p = None \<or> pc_own p = pc_own (lk_pc s c)"
    and "pc_idle p \<or> \<not> pc_idle (lk_pc s c) \<or> pid_of c \<notin> set (lk_dead s)"
    and "pc_gone p = None \<or> pc_gone p = pc_gone (lk_pc s c)"
    and "hold_of p = None \<or> hold_of p = hold_of (lk_pc s c)"
    and "\<And>i v. read_id s = Some i \<Longrightarrow> core_ok i v (recs_of s) (lk_dead s) (lk_pc s)
           \<Longrightarrow> pc_ok i v (recs_of s) (lk_dead s) p"
  shows "sinv pid_of (set_pc c p s)"
  using linv_pc [of pid_of "read_id s" "recs_of s" "lk_next s" "lk_dead s" "lk_pc s" p c] assms
  by (simp add: sinv_def)

lemma sinv_same:
  "sinv pid_of s \<Longrightarrow> read_id s' = read_id s \<Longrightarrow> recs_of s' = recs_of s \<Longrightarrow> lk_next s' = lk_next s \<Longrightarrow>
     lk_dead s' = lk_dead s \<Longrightarrow> lk_pc s' = lk_pc s \<Longrightarrow> sinv pid_of s'"
  by (simp add: sinv_def)

lemma core_pc_ok: "core_ok i v recs dead pcs \<Longrightarrow> pcs c = p \<Longrightarrow> pc_ok i v recs dead p"
  by (auto simp: core_ok_def)

text \<open>After the listing that follows the link: on top means alone above \<open>v\<close>, and not on top means
  overtaken.\<close>

lemma list_claim_verdict:
  assumes core: "core_ok i v recs dead pcs" and own: "own_ok pid_of nxt dead pcs"
    and c: "pcs c = ListClaim i g judged r"
  shows "if \<forall>h. rec_at i recs h \<noteq> None \<longrightarrow> h \<le> g then v < g \<and> rec_at i recs g = Some r else g < v"
proof -
  have l: "log_ok i v recs dead" using core by (simp add: core_ok_def)
  have pc: "(rec_at i recs g = Some r \<and> g \<noteq> v) \<or> g < v"
    using core_pc_ok [OF core c] by (simp add: pc_ok_def)
  have live: "\<not> rec_free dead r" by (rule own_live [OF own, of c]) (simp add: c pc_own_def)
  have vr: "v = 0 \<or> rec_at i recs v \<noteq> None" using l by (simp add: log_ok_def)
  show ?thesis
  proof (cases "\<forall>h. rec_at i recs h \<noteq> None \<longrightarrow> h \<le> g")
    case True
    then have "v \<le> g" using vr by auto
    with pc True show ?thesis by auto
  next
    case False
    then obtain h where h: "rec_at i recs h \<noteq> None" "g < h" by (auto simp: not_le)
    have "\<not> v < g" if "rec_at i recs g = Some r"
      using live_is_top [OF l that live, of h] h by auto
    with pc False show ?thesis by auto
  qed
qed

lemmas pc_defs = pc_id_def pc_own_def hold_of_def pc_gone_def pc_idle_def

lemma sinvD:
  assumes "sinv pid_of s"
  shows "own_ok pid_of (lk_next s) (lk_dead s) (lk_pc s)" "gone_ok (recs_of s) (lk_pc s)"
    "distinct (map fst (recs_of s))" "read_id s = Some i \<Longrightarrow> \<exists>v. core_ok i v (recs_of s) (lk_dead s) (lk_pc s)"
    "read_id s = None \<Longrightarrow> hold_of (lk_pc s c) = None"
proof -
  have l: "linv pid_of (read_id s) (recs_of s) (lk_next s) (lk_dead s) (lk_pc s)" and d: "distinct (map fst (recs_of s))"
    using assms by (simp_all add: sinv_def)
  show "own_ok pid_of (lk_next s) (lk_dead s) (lk_pc s)" by (rule linvD(2) [OF l])
  show "gone_ok (recs_of s) (lk_pc s)" by (rule linvD(3) [OF l])
  show "distinct (map fst (recs_of s))" by (rule d)
  show "\<exists>v. core_ok i v (recs_of s) (lk_dead s) (lk_pc s)" if "read_id s = Some i" by (rule linvD(4) [OF l that])
  show "hold_of (lk_pc s c) = None" if "read_id s = None" by (rule linvD(5) [OF l that])
qed

lemma core_pc_okS: "core_ok i v recs dead (lk_pc s) \<Longrightarrow> lk_pc s c = p \<Longrightarrow> pc_ok i v recs dead p"
  by (auto simp: core_ok_def)

text \<open>The claim that finds itself on top, or not.\<close>

lemma step_ListClaim:
  assumes inv: "sinv pid_of s" and c: "lk_pc s c = ListClaim i g judged r"
  shows "sinv pid_of (lock_step pid_of c b s)"
proof (cases "lk_dir s")
  case None
  then show ?thesis by (simp add: lock_step_def c) (rule sinv_pc [OF inv]; simp add: c pc_defs pc_ok_def)
next
  case (Some d)
  have recs: "recs_of s = ld_recs d" by (simp add: recs_of_def Some)
  obtain T where T: "T \<longleftrightarrow> \<not> list_ex (\<lambda>x. x > g) (gens_of i d)" by blast
  have top: "T \<longleftrightarrow> (\<forall>h. rec_at i (recs_of s) h \<noteq> None \<longrightarrow> h \<le> g)"
    unfolding T recs list_ex_iff gens_of_iff [symmetric] by (auto simp: not_less)
  have verdict: "if T then v < g \<and> rec_at i (recs_of s) g = Some r else g < v"
    if "core_ok i v (recs_of s) (lk_dead s) (lk_pc s)" for v
    unfolding top by (rule list_claim_verdict [OF that sinvD(1) [OF inv] c])
  have jd: "judged_ok i v (recs_of s) (lk_dead s) g judged"
    if "core_ok i v (recs_of s) (lk_dead s) (lk_pc s)" for v
    using core_pc_okS [OF that c] by (simp add: pc_ok_def)
  show ?thesis
  proof (cases judged)
    case (Some j)
    have "sinv pid_of (set_pc c (ReadPred i g j r T) s)"
      using verdict jd Some by (intro sinv_pc [OF inv]) (auto simp: c pc_defs pc_ok_def split: if_splits)
    then show ?thesis by (simp add: lock_step_def c \<open>lk_dir s = Some d\<close> Some Let_def T)
  next
    case None
    have one: "length (gens_of i d) = 1" if "core_ok i v (recs_of s) (lk_dead s) (lk_pc s)" T for v
    proof -
      have g1: "g = 1" using jd [OF that(1)] None by (simp add: judged_ok_def)
      have 0: "rec_at i (recs_of s) 0 = None" using that(1) by (simp add: core_ok_def log_ok_def)
      have r: "rec_at i (recs_of s) 1 = Some r" using verdict [OF that(1)] that(2) g1 by simp
      have "h = 1" if "rec_at i (recs_of s) h \<noteq> None" for h
        using that 0 \<open>T\<close> g1 unfolding top by (cases h) auto
      then have "set (gens_of i d) = {1}"
        using r gens_of_iff [of _ i d] unfolding recs by auto
      then show ?thesis
        using distinct_card [OF gens_distinct [of d i]] sinvD(3) [OF inv] recs by simp
    qed
    have 1: "sinv pid_of (set_pc c (ReadIdent i g r) s)" if T
      using verdict that by (intro sinv_pc [OF inv]) (auto simp: c pc_defs pc_ok_def)
    have 2: "sinv pid_of (set_pc c (RejectUnlink i g) s)" if q: "\<not> (T \<and> g = 1 \<and> length (gens_of i d) = 1)"
    proof (rule sinv_pc [OF inv])
      fix k v assume k: "core_ok k v (recs_of s) (lk_dead s) (lk_pc s)"
      show "pc_ok k v (recs_of s) (lk_dead s) (RejectUnlink i g)"
      proof (cases "i = k")
        case True
        then have "g = 1" using jd [of v] k None by (simp add: judged_ok_def)
        then have "\<not> T" using q one [of v] k True by auto
        then show ?thesis using verdict [of v] k True by (simp add: pc_ok_def)
      qed (simp add: pc_ok_def)
    qed (simp_all add: pc_defs c)
    show ?thesis using 1 2 by (auto simp: lock_step_def c \<open>lk_dir s = Some d\<close> None Let_def T)
  qed
qed

lemma step_ReadPred:
  assumes inv: "sinv pid_of s" and c: "lk_pc s c = ReadPred i g j r isTop"
  shows "sinv pid_of (lock_step pid_of c b s)"
proof -
  have ok: "if isTop then v < g \<and> rec_at i (recs_of s) g = Some r \<and> rec_at i (recs_of s) (g - 1) = Some j else g < v"
    if "core_ok i v (recs_of s) (lk_dead s) (lk_pc s)" for v
    using core_pc_okS [OF that c] by (auto simp: pc_ok_def judged_ok_def seen_ok_def)
  have 1: "sinv pid_of (set_pc c (ReadIdent i g r) s)" if isTop
    using ok that by (intro sinv_pc [OF inv]) (auto simp: c pc_defs pc_ok_def)
  have 2: "sinv pid_of (set_pc c (RejectUnlink i g) s)" if "\<not> (isTop \<and> read_rec i (g - 1) s = Some j)"
  proof (rule sinv_pc [OF inv])
    fix k v assume k: "core_ok k v (recs_of s) (lk_dead s) (lk_pc s)"
    show "pc_ok k v (recs_of s) (lk_dead s) (RejectUnlink i g)"
      using ok [of v] k that by (cases "i = k"; cases isTop) (simp_all add: pc_ok_def read_rec_at)
  qed (simp_all add: c pc_defs)
  show ?thesis using 1 2 by (simp add: lock_step_def c)
qed

lemma step_ReadIdent:
  assumes inv: "sinv pid_of s" and c: "lk_pc s c = ReadIdent i g r"
  shows "sinv pid_of (lock_step pid_of c b s)"
proof (cases "read_id s = Some i")
  case True
  have "sinv pid_of (set_pc c (CollectList i g r None) s)"
    using linv_validate [of pid_of "read_id s" "recs_of s" "lk_next s" "lk_dead s" "lk_pc s" c i g r] c True inv
    by (simp add: sinv_def)
  then show ?thesis by (simp add: lock_step_def c True)
next
  case False
  have "sinv pid_of (set_pc c (RejectUnlink i g) s)"
    using False by (intro sinv_pc [OF inv]) (auto simp: c pc_defs pc_ok_def)
  then show ?thesis using False by (simp add: lock_step_def c)
qed

lemma sinv_del:
  assumes "sinv pid_of s"
    and "\<And>i v. read_id s = Some i \<Longrightarrow> core_ok i v (recs_of s) (lk_dead s) (lk_pc s) \<Longrightarrow> k = i \<Longrightarrow> h < v"
  shows "sinv pid_of (unlink_rec k h s)"
  using linv_del [of pid_of "read_id s" "recs_of s" "lk_next s" "lk_dead s" "lk_pc s" k h] assms
  by (simp add: sinv_def al_distinct_del)

lemma step_RejectUnlink:
  assumes inv: "sinv pid_of s" and c: "lk_pc s c = RejectUnlink i g"
  shows "sinv pid_of (lock_step pid_of c b s)"
proof -
  have "sinv pid_of (unlink_rec i g s)"
    using core_pc_okS [OF _ c] by (intro sinv_del [OF inv]) (fastforce simp: pc_ok_def)
  then have "sinv pid_of (set_pc c ReadId (unlink_rec i g s))"
    by (rule sinv_pc) (simp_all add: c pc_defs pc_ok_def)
  then show ?thesis by (simp add: lock_step_def c)
qed

lemma step_Collect:
  assumes inv: "sinv pid_of s" and c: "lk_pc s c = CollectList i g r rel \<or> lk_pc s c = CollectUnlink i g r rel gens"
  shows "sinv pid_of (lock_step pid_of c b s)"
proof -
  have after: "sinv pid_of (set_pc c (after_collect i g r rel) s)"
    using c by (intro sinv_pc [OF inv]) (auto simp: pc_defs pc_ok_def after_collect_def split: option.splits)
  from c show ?thesis
  proof
    assume c: "lk_pc s c = CollectList i g r rel"
    have "sinv pid_of (set_pc c (CollectUnlink i g r rel (filter (\<lambda>x. x < g) l)) s)" for l
      by (intro sinv_pc [OF inv]) (auto simp: c pc_defs pc_ok_def list_all_iff)
    then show ?thesis using after by (simp add: lock_step_def c split: option.splits)
  next
    assume c: "lk_pc s c = CollectUnlink i g r rel gens"
    have "sinv pid_of (set_pc c (CollectUnlink i g r rel xs) (unlink_rec i x s))" if g: "gens = x # xs" for x xs
    proof -
      have "x < v" if "read_id s = Some k" "core_ok k v (recs_of s) (lk_dead s) (lk_pc s)" "i = k" for k v
      proof -
        have "hold_of (lk_pc s c) = Some (i, g, r)" by (simp add: c hold_of_def)
        then have "g = v" using core_hold [OF that(2)] by blast
        moreover have "x < g" using core_pc_okS [OF that(2) c] that(3) g by (simp add: pc_ok_def)
        ultimately show ?thesis by simp
      qed
      then have d: "sinv pid_of (unlink_rec i x s)" by (intro sinv_del [OF inv])
      show ?thesis
      proof (rule sinv_pc [OF d])
        fix k v assume "core_ok k v (recs_of (unlink_rec i x s)) (lk_dead (unlink_rec i x s)) (lk_pc (unlink_rec i x s))"
        then show "pc_ok k v (recs_of (unlink_rec i x s)) (lk_dead (unlink_rec i x s)) (CollectUnlink i g r rel xs)"
          using core_pc_okS [of k v _ _ s c] c g by (fastforce simp: pc_ok_def)
      qed (simp_all add: c pc_defs)
    qed
    then show ?thesis using after by (simp add: lock_step_def c split: list.splits)
  qed
qed

lemma step_LinkRec:
  assumes inv: "sinv pid_of s" and c: "lk_pc s c = LinkRec i g judged r"
  shows "sinv pid_of (lock_step pid_of c b s)"
proof (cases "link_rec (lr_token r) (i, g) r s")
  case LinkMissing
  have "sinv pid_of (set_pc c (Ended Missing) s)"
    by (rule sinv_pc [OF inv]) (simp_all add: c pc_defs pc_ok_def)
  then show ?thesis by (simp add: lock_step_def c LinkMissing)
next
  case (LinkExists d)
  then have "sinv pid_of (s\<lparr>lk_dir := Some d\<rparr>)"
    using link_rec_cases [where t = "lr_token r" and k = "(i, g)" and r = r and s = s] inv by (intro sinv_same [OF inv]) simp_all
  then have "sinv pid_of (set_pc c ReadId (s\<lparr>lk_dir := Some d\<rparr>))"
    by (rule sinv_pc) (simp_all add: c pc_defs pc_ok_def)
  then show ?thesis by (simp add: lock_step_def c LinkExists)
next
  case (Linked d)
  then have d: "ld_id d = read_id s" "ld_recs d = al_put (i, g) r (recs_of s)" "al_get (recs_of s) (i, g) = None"
    using link_rec_cases [where t = "lr_token r" and k = "(i, g)" and r = r and s = s] by simp_all
  have "sinv pid_of (set_pc c (ListClaim i g judged r) (s\<lparr>lk_dir := Some d\<rparr>))"
    using linv_claim [of pid_of "read_id s" "recs_of s" "lk_next s" "lk_dead s" "lk_pc s" c i g judged r] inv d c
    by (simp add: sinv_def al_distinct_put)
  then show ?thesis by (simp add: lock_step_def c Linked)
qed

lemma step_RelLink:
  assumes inv: "sinv pid_of s" and c: "lk_pc s c = RelLink i g r out t"
  shows "sinv pid_of (lock_step pid_of c b s)"
proof (cases "link_rec t (i, Suc g) (marker r) s")
  case LinkMissing
  have "sinv pid_of (set_pc c (Ended out) s)"
    by (rule sinv_pc [OF inv]) (simp_all add: c pc_defs pc_ok_def)
  then show ?thesis by (simp add: lock_step_def c LinkMissing)
next
  case (LinkExists d)
  then have "sinv pid_of (s\<lparr>lk_dir := Some d\<rparr>)"
    using link_rec_cases [where t = t and k = "(i, Suc g)" and r = "marker r" and s = s] inv by (intro sinv_same [OF inv]) simp_all
  then have "sinv pid_of (set_pc c (Ended out) (s\<lparr>lk_dir := Some d\<rparr>))"
    by (rule sinv_pc) (simp_all add: c pc_defs pc_ok_def)
  then show ?thesis by (simp add: lock_step_def c LinkExists)
next
  case (Linked d)
  then have d: "ld_id d = read_id s" "ld_recs d = al_put (i, Suc g) (marker r) (recs_of s)" "al_get (recs_of s) (i, Suc g) = None"
    using link_rec_cases [where t = t and k = "(i, Suc g)" and r = "marker r" and s = s] by simp_all
  have "sinv pid_of (set_pc c (Ended out) (s\<lparr>lk_dir := Some d\<rparr>))"
    using linv_marker [of pid_of "read_id s" "recs_of s" "lk_next s" "lk_dead s" "lk_pc s" c i g r out t] inv d c
    by (simp add: sinv_def al_distinct_put)
  then show ?thesis by (simp add: lock_step_def c Linked)
qed

lemma step_write:
  assumes inv: "sinv pid_of s" and w: "write_tmp s = Some s'"
    and c: "lk_pc s c = WriteTmp i g judged"
  shows "sinv pid_of (set_pc c (LinkRec i g judged (new_rec pid_of c s)) s')"
  using linv_write [of pid_of "read_id s" "recs_of s" "lk_next s" "lk_dead s" "lk_pc s" c i g judged "new_rec pid_of c s"]
    write_tmp_cases [of s] inv c w
  by (simp add: sinv_def new_rec_def)

lemma step_write_id:
  assumes inv: "sinv pid_of s" and w: "write_tmp s = Some s'" and c: "lk_pc s c = WriteIdTmp"
  shows "sinv pid_of (set_pc c (LinkId (lk_next s)) s')"
  using linv_write_id [of pid_of "read_id s" "recs_of s" "lk_next s" "lk_dead s" "lk_pc s" c]
    write_tmp_cases [of s] inv c w
  by (simp add: sinv_def)

lemma step_RelWrite:
  assumes inv: "sinv pid_of s" and w: "write_tmp s = Some s'" and c: "lk_pc s c = RelWriteTmp i g r out"
  shows "sinv pid_of (set_pc c (RelLink i g r out t) s')"
proof -
  have s': "read_id s' = read_id s" "recs_of s' = recs_of s" "lk_next s' = Suc (lk_next s)" "lk_dead s' = lk_dead s" "lk_pc s' = lk_pc s"
    using write_tmp_cases [of s] w by simp_all
  have "sinv pid_of s'" using inv linv_next s' by (simp add: sinv_def)
  then show ?thesis by (rule sinv_pc) (simp_all add: s' c pc_defs pc_ok_def)
qed

lemma step_LinkId:
  assumes inv: "sinv pid_of s" and c: "lk_pc s c = LinkId u"
  shows "sinv pid_of (lock_step pid_of c b s)"
proof (cases "link_id u s")
  case LinkMissing
  have "sinv pid_of (set_pc c (Ended Missing) s)"
    by (rule sinv_pc [OF inv]) (simp_all add: c pc_defs pc_ok_def)
  then show ?thesis by (simp add: lock_step_def c LinkMissing)
next
  case (LinkExists d)
  then have "sinv pid_of (s\<lparr>lk_dir := Some d\<rparr>)"
    using link_id_cases [where u = u and s = s] by (intro sinv_same [OF inv]) simp_all
  then have "sinv pid_of (set_pc c ReadIdAgain (s\<lparr>lk_dir := Some d\<rparr>))"
    by (rule sinv_pc) (simp_all add: c pc_defs pc_ok_def)
  then show ?thesis by (simp add: lock_step_def c LinkExists)
next
  case (Linked d)
  then have d: "ld_id d = Some u" "read_id s = None" "ld_recs d = recs_of s"
    using link_id_cases [where u = u and s = s] by simp_all
  have "sinv pid_of (set_pc c ReadIdAgain (s\<lparr>lk_dir := Some d\<rparr>))"
    using linv_link_id [of pid_of "recs_of s" "lk_next s" "lk_dead s" "lk_pc s" c u] inv d c
    by (simp add: sinv_def)
  then show ?thesis by (simp add: lock_step_def c Linked)
qed

lemma step_ListTop:
  assumes inv: "sinv pid_of s" and c: "lk_pc s c = ListTop i"
  shows "sinv pid_of (lock_step pid_of c b s)"
proof (cases "lk_dir s")
  case None
  have "sinv pid_of (set_pc c (Ended Missing) s)"
    by (rule sinv_pc [OF inv]) (simp_all add: c pc_defs pc_ok_def)
  then show ?thesis by (simp add: lock_step_def c None)
next
  case (Some d)
  have recs: "recs_of s = ld_recs d" by (simp add: recs_of_def Some)
  have 1: "sinv pid_of (set_pc c (WriteTmp i 1 None) s)"
    by (rule sinv_pc [OF inv]) (simp_all add: c pc_defs pc_ok_def judged_ok_def)
  have 2: "sinv pid_of (set_pc c (ReadTop i (Max (set (gens_of i d)))) s)" if "gens_of i d \<noteq> []"
  proof (rule sinv_pc [OF inv])
    fix k v assume k: "core_ok k v (recs_of s) (lk_dead s) (lk_pc s)"
    have "Max (set (gens_of i d)) \<in> set (gens_of i d)" using that by simp
    from iffD1 [OF gens_of_iff this]
    have "rec_at i (recs_of s) (Max (set (gens_of i d))) \<noteq> None" by (simp only: recs not_False_eq_True)
    moreover have "rec_at k (recs_of s) 0 = None" using k by (simp add: core_ok_def log_ok_def)
    ultimately have "i = k \<longrightarrow> 0 < Max (set (gens_of i d))" by (metis not_gr_zero)
    then show "pc_ok k v (recs_of s) (lk_dead s) (ReadTop i (Max (set (gens_of i d))))" by (simp add: pc_ok_def)
  qed (simp_all add: c pc_defs)
  show ?thesis using 1 2 by (simp add: lock_step_def c Some)
qed

lemma step_ReadTop:
  assumes inv: "sinv pid_of s" and c: "lk_pc s c = ReadTop i g \<or> lk_pc s c = CheckAlive i g q"
  shows "sinv pid_of (lock_step pid_of c b s)"
  using c
proof
  assume c: "lk_pc s c = ReadTop i g"
  have 1: "sinv pid_of (set_pc c ReadId s)"
    by (rule sinv_pc [OF inv]) (simp_all add: c pc_defs pc_ok_def)
  have 2: "sinv pid_of (set_pc c (CheckAlive i g r) s)" if "read_rec i g s = Some r" for r
    using core_pc_okS [OF _ c] that
    by (intro sinv_pc [OF inv]) (fastforce simp: c pc_defs pc_ok_def seen_ok_def read_rec_at)+
  show ?thesis using 1 2 by (auto simp: lock_step_def c split: option.splits)
next
  assume c: "lk_pc s c = CheckAlive i g q"
  have 1: "sinv pid_of (set_pc c (Ended (RefusedLive q)) s)"
    by (rule sinv_pc [OF inv]) (simp_all add: c pc_defs pc_ok_def)
  have 2: "sinv pid_of (set_pc c (WriteTmp i (Suc g) (Some q)) s)" if "rec_free (lk_dead s) q"
  proof (rule sinv_pc [OF inv])
    fix k v assume "core_ok k v (recs_of s) (lk_dead s) (lk_pc s)"
    from core_pc_okS [OF this c] that
    show "pc_ok k v (recs_of s) (lk_dead s) (WriteTmp i (Suc g) (Some q))"
      by (auto simp: pc_ok_def judged_ok_def seen_ok_def)
  qed (simp_all add: c pc_defs)
  show ?thesis using 1 2 by (simp add: lock_step_def c)
qed

lemma step_Gone:
  assumes inv: "sinv pid_of s" and c: "lk_pc s c = GoneRead i g r"
  shows "sinv pid_of (lock_step pid_of c b s)"
proof -
  have tok: "lr_token q \<noteq> lr_token r" if "(k, q) \<in> set (recs_of s)" for k q
    using sinvD(2) [OF inv, unfolded gone_ok_def, rule_format, of c r "(k, q)"] c that
    by (simp add: pc_gone_def)
  have "read_rec i g s \<noteq> Some r"
    unfolding read_rec_at rec_at_def using al_get_in [of "recs_of s" "(i, g)" r] tok by blast
  moreover have "sinv pid_of (set_pc c (Ended Released) s)"
    by (rule sinv_pc [OF inv]) (simp_all add: c pc_defs pc_ok_def)
  ultimately show ?thesis by (simp add: lock_step_def c)
qed

lemma lock_step_inv:
  assumes inv: "sinv pid_of s"
  shows "sinv pid_of (lock_step pid_of c b s)"
proof (cases "lk_pc s c")
  case EnsureDir
  have new: "sinv pid_of (s\<lparr>lk_dir := Some empty_dir\<rparr>)" if "lk_dir s = None"
    using that by (intro sinv_same [OF inv]) (simp_all add: empty_dir_def read_id_def recs_of_def)
  show ?thesis
    using new sinv_pc [OF inv, of ReadId c] sinv_pc [OF inv, of "Ended Missing" c] sinv_pc [OF new, of ReadId c]
    by (simp add: lock_step_def EnsureDir pc_defs pc_ok_def)
next
  case ReadId
  have "sinv pid_of (set_pc c WriteIdTmp s)"
    by (rule sinv_pc [OF inv]) (simp_all add: ReadId pc_defs pc_ok_def)
  moreover have "sinv pid_of (set_pc c (ListTop i) s)" if "read_id s = Some i" for i
    by (rule sinv_pc [OF inv]) (simp_all add: ReadId pc_defs pc_ok_def that)
  ultimately show ?thesis by (simp add: lock_step_def ReadId split: option.splits)
next
  case WriteIdTmp
  have "sinv pid_of (set_pc c (Ended Missing) s)"
    by (rule sinv_pc [OF inv]) (simp_all add: WriteIdTmp pc_defs pc_ok_def)
  then show ?thesis
    using step_write_id [OF inv _ WriteIdTmp] by (simp add: lock_step_def WriteIdTmp split: option.splits)
next
  case ReadIdAgain
  have "sinv pid_of (set_pc c (Ended Missing) s)"
    by (rule sinv_pc [OF inv]) (simp_all add: ReadIdAgain pc_defs pc_ok_def)
  moreover have "sinv pid_of (set_pc c (ListTop i) s)" if "read_id s = Some i" for i
    by (rule sinv_pc [OF inv]) (simp_all add: ReadIdAgain pc_defs pc_ok_def that)
  ultimately show ?thesis by (simp add: lock_step_def ReadIdAgain split: option.splits)
next
  case (WriteTmp i g judged)
  have "sinv pid_of (set_pc c (Ended Missing) s)"
    by (rule sinv_pc [OF inv]) (simp_all add: WriteTmp pc_defs pc_ok_def)
  then show ?thesis
    using step_write [OF inv _ WriteTmp] by (simp add: lock_step_def WriteTmp split: option.splits)
next
  case (LegacyCheck i g r)
  have "sinv pid_of (set_pc c (RelRead i g r RefusedLegacy) s)"
    by (rule sinv_pc [OF inv]) (simp_all add: LegacyCheck pc_defs pc_ok_def)
  moreover have "sinv pid_of (set_pc c (Held i g r) s)"
    by (rule sinv_pc [OF inv]) (simp_all add: LegacyCheck pc_defs pc_ok_def)
  ultimately show ?thesis by (simp add: lock_step_def LegacyCheck)
next
  case (RelRead i g r out)
  have "sinv pid_of (set_pc c (CollectList i g r (Some out)) s)"
    by (rule sinv_pc [OF inv]) (simp_all add: RelRead pc_defs pc_ok_def)
  moreover have "sinv pid_of (set_pc c (Ended out) s)"
    by (rule sinv_pc [OF inv]) (simp_all add: RelRead pc_defs pc_ok_def)
  ultimately show ?thesis by (simp add: lock_step_def RelRead)
next
  case (RelWriteTmp i g r out)
  have "sinv pid_of (set_pc c (Ended out) s)"
    by (rule sinv_pc [OF inv]) (simp_all add: RelWriteTmp pc_defs pc_ok_def)
  then show ?thesis
    using step_RelWrite [OF inv _ RelWriteTmp] by (simp add: lock_step_def RelWriteTmp split: option.splits)
next
  case (LinkId u)
  then show ?thesis by (rule step_LinkId [OF inv])
next
  case (ListTop i)
  then show ?thesis by (rule step_ListTop [OF inv])
next
  case (ReadTop i g)
  then show ?thesis by (intro step_ReadTop [OF inv] disjI1)
next
  case (CheckAlive i g q)
  then show ?thesis by (intro step_ReadTop [OF inv] disjI2)
next
  case (LinkRec i g j r)
  then show ?thesis by (rule step_LinkRec [OF inv])
next
  case (ListClaim i g j r)
  then show ?thesis by (rule step_ListClaim [OF inv])
next
  case (ReadPred i g j r t)
  then show ?thesis by (rule step_ReadPred [OF inv])
next
  case (ReadIdent i g r)
  then show ?thesis by (rule step_ReadIdent [OF inv])
next
  case (RejectUnlink i g)
  then show ?thesis by (rule step_RejectUnlink [OF inv])
next
  case (CollectList i g r rel)
  then show ?thesis by (intro step_Collect [OF inv] disjI1)
next
  case (CollectUnlink i g r rel gens)
  then show ?thesis by (intro step_Collect [OF inv] disjI2)
next
  case (RelLink i g r out t)
  then show ?thesis by (rule step_RelLink [OF inv])
next
  case (GoneRead i g r)
  then show ?thesis by (rule step_Gone [OF inv])
qed (simp_all add: lock_step_def inv)

lemma lock_exec_inv:
  assumes inv: "sinv pid_of s"
  shows "sinv pid_of (lock_exec pid_of ev s)"
proof (cases ev)
  case (Begin c op res)
  have s': "sinv pid_of (s\<lparr>lk_req := (lk_req s)(c := (op, res))\<rparr>)"
    by (rule sinv_same [OF inv]) simp_all
  have "sinv pid_of (set_pc c EnsureDir (s\<lparr>lk_req := (lk_req s)(c := (op, res))\<rparr>))"
    if "may_begin (lk_pc s c)" "pid_of c \<notin> set (lk_dead s)"
    using that by (intro sinv_pc [OF s']) (simp_all add: pc_defs pc_ok_def)
  then show ?thesis using inv by (simp add: Begin)
next
  case (ReleaseHeld c)
  have "sinv pid_of (set_pc c (RelRead i g r Released) s)" if "lk_pc s c = Held i g r" for i g r
    by (rule sinv_pc [OF inv]) (simp_all add: that pc_defs pc_ok_def)
  moreover have "sinv pid_of (set_pc c (GoneRead i g r) s)" if "lk_pc s c = HeldGone i g r" for i g r
    by (rule sinv_pc [OF inv]) (simp_all add: that pc_defs pc_ok_def)
  ultimately show ?thesis using inv by (simp add: ReleaseHeld split: lock_pc.splits)
next
  case (RemoveDir c)
  have "sinv pid_of (set_pc c (HeldGone i g r) (s\<lparr>lk_dir := None, lk_parent := False\<rparr>))" if "lk_pc s c = Held i g r" for i g r
    using linv_remove [of pid_of "read_id s" "recs_of s" "lk_next s" "lk_dead s" "lk_pc s" c i g r] inv that
    by (simp add: sinv_def read_id_def recs_of_def set_pc_def)
  then show ?thesis using inv by (simp add: RemoveDir split: lock_pc.splits)
next
  case MakeParent
  then show ?thesis using sinv_same [OF inv, of "s\<lparr>lk_parent := True\<rparr>"] by simp
next
  case (Crash p)
  then show ?thesis
    using linv_crash [of pid_of "read_id s" "recs_of s" "lk_next s" "lk_dead s" "lk_pc s" p] inv
    by (simp add: sinv_def read_id_def recs_of_def)
qed (simp add: lock_step_inv inv)

lemma sinv_init: "sinv pid_of lk_init"
  by (simp add: sinv_def linv_def lk_init_def read_id_def recs_of_def ids_ok_def own_ok_def gone_ok_def pc_defs)

lemma reach_inv: "lock_reach pid_of s \<Longrightarrow> sinv pid_of s"
  by (induction rule: lock_reach.induct) (simp_all add: sinv_init lock_exec_inv)

section \<open>Safety\<close>

lemma top_record_at:
  assumes "read_id s = Some i" and "rec_at i (recs_of s) g = Some r"
    and "\<And>h q. rec_at i (recs_of s) h = Some q \<Longrightarrow> h \<le> g"
  shows "top_record s = Some r"
proof -
  obtain d where d: "lk_dir s = Some d" "ld_id d = Some i"
    using assms(1) by (auto simp: read_id_def split: option.splits)
  have recs: "recs_of s = ld_recs d" by (simp add: recs_of_def d)
  have g: "g \<in> set (gens_of i d)" using assms(2) by (simp add: gens_of_iff recs)
  have "h \<le> g" if "h \<in> set (gens_of i d)" for h
    using that assms(3) [of h] by (auto simp: gens_of_iff recs)
  then have "Max (set (gens_of i d)) = g" using g by (intro Max_eqI) auto
  then show ?thesis using g assms(2) by (auto simp: top_record_def d recs rec_at_def)
qed

lemma holder_facts:
  assumes inv: "sinv pid_of s" and h: "hold_of (lk_pc s c) = Some (i, g, r)"
  shows "read_id s = Some i \<and> read_rec i g s = Some r \<and> currentHolder s = Some r
    \<and> lr_pid r = pid_of c \<and> \<not> lr_released r \<and> pid_of c \<notin> set (lk_dead s)"
proof -
  obtain k where k: "read_id s = Some k" using sinvD(5) [OF inv, of c] h by (cases "read_id s") auto
  obtain v where v: "core_ok k v (recs_of s) (lk_dead s) (lk_pc s)" using sinvD(4) [OF inv k] by blast
  have e: "i = k" "g = v" "rec_at k (recs_of s) v = Some r" using core_hold [OF v h] by auto
  have own: "pc_own (lk_pc s c) = Some r" "\<not> pc_idle (lk_pc s c)" using hold_of_own [OF h] by auto
  have live: "\<not> rec_free (lk_dead s) r" by (rule own_live [OF sinvD(1) [OF inv] own(1)])
  have "top_record s = Some r"
    using top_record_at [OF k e(3)] holder_is_top [OF sinvD(1) [OF inv] v h] by blast
  then have "currentHolder s = Some r" using live by (simp add: currentHolder_def)
  moreover have "lr_pid r = pid_of c \<and> \<not> lr_released r"
    using sinvD(1) [OF inv] own(1) unfolding own_ok_def by blast
  moreover have "pid_of c \<notin> set (lk_dead s)"
    using sinvD(1) [OF inv] own(2) unfolding own_ok_def by blast
  ultimately show ?thesis using e k by (simp add: read_rec_at)
qed

lemma holder_unique:
  assumes inv: "sinv pid_of s" and "holds_lock s c" "holds_lock s d"
  shows "d = c"
proof -
  obtain i g r where c: "hold_of (lk_pc s c) = Some (i, g, r)"
    using assms(2) by (cases "hold_of (lk_pc s c)") (auto simp: holds_lock_def)
  obtain j h q where d: "hold_of (lk_pc s d) = Some (j, h, q)"
    using assms(3) by (cases "hold_of (lk_pc s d)") (auto simp: holds_lock_def)
  have "q = r" using holder_facts [OF inv c] holder_facts [OF inv d] by simp
  then show ?thesis
    using own_unique [OF sinvD(1) [OF inv], of c r d] hold_of_own [OF c] hold_of_own [OF d] by simp
qed

text \<open>C1: whatever the contenders, processes, crashes, releases, directory removals
  and re-creations, and however their file-system calls interleave, at most one contender holds the
  lock; and while one does, the directory is the incarnation it claimed in, its record is in
  place, live, and the top of the log, so everyone who looks sees it as the current holder.\<close>

theorem lock_mutual_exclusion:
  assumes "holds_lock (run_lock pid_of evs lk_init) c"
  shows "let s = run_lock pid_of evs lk_init in
    (holds_lock s d \<longrightarrow> d = c)
    \<and> (\<exists>i g r. hold_of (lk_pc s c) = Some (i, g, r) \<and> read_id s = Some i \<and> read_rec i g s = Some r
         \<and> currentHolder s = Some r \<and> lr_pid r = pid_of c \<and> \<not> lr_released r \<and> pid_of c \<notin> set (lk_dead s))"
proof -
  let ?s = "run_lock pid_of evs lk_init"
  have inv: "sinv pid_of ?s" by (intro reach_inv run_lock_reach lock_reach.init)
  obtain i g r where h: "hold_of (lk_pc ?s c) = Some (i, g, r)"
    using assms by (cases "hold_of (lk_pc ?s c)") (auto simp: holds_lock_def)
  show ?thesis
    unfolding Let_def using holder_unique [OF inv assms, of d] holder_facts [OF inv h] h by blast
qed

text \<open>The events that are a contender's own, or the death of its process.\<close>

fun own_event :: "(nat \<Rightarrow> nat) \<Rightarrow> nat \<Rightarrow> lock_event \<Rightarrow> bool" where
  "own_event pid_of c (Begin d op res) = (d = c)"
| "own_event pid_of c (Sched d b) = (d = c)"
| "own_event pid_of c (ReleaseHeld d) = (d = c)"
| "own_event pid_of c (RemoveDir d) = (d = c)"
| "own_event pid_of c MakeParent = False"
| "own_event pid_of c (Crash p) = (p = pid_of c)"

lemma lock_step_other_pc: "d \<noteq> c \<Longrightarrow> lk_pc (lock_step pid_of d b s) c = lk_pc s c"
  by (auto simp: lock_step_def set_pc_def unlink_rec_def write_tmp_def Let_def
      split: lock_pc.splits option.splits link_result.splits list.splits if_splits)

lemma other_event_pc: "\<not> own_event pid_of c ev \<Longrightarrow> lk_pc (lock_exec pid_of ev s) c = lk_pc s c"
  by (cases ev) (auto simp: lock_step_other_pc set_pc_def split: lock_pc.splits)

text \<open>nothing other contenders do can take the lock from a holder: after any
  sequence of events none of which is the holder's own or its process's death (claims, rejected
  claims, collections, crashes and takeovers of others included), it still holds the lock and its
  record is still the top of the log; a recovery never deletes a record somebody holds.\<close>

theorem holder_undisturbed:
  assumes "holds_lock (run_lock pid_of before lk_init) c"
    and "list_all (\<lambda>ev. \<not> own_event pid_of c ev) after"
  shows "lk_pc (run_lock pid_of (before @ after) lk_init) c = lk_pc (run_lock pid_of before lk_init) c
    \<and> currentHolder (run_lock pid_of (before @ after) lk_init) = currentHolder (run_lock pid_of before lk_init)
    \<and> currentHolder (run_lock pid_of before lk_init) \<noteq> None"
proof -
  let ?s = "run_lock pid_of before lk_init" and ?t = "run_lock pid_of (before @ after) lk_init"
  have t: "?t = run_lock pid_of after ?s" by (simp add: run_lock_def)
  have pc: "lk_pc (run_lock pid_of evs s) c = lk_pc s c" if "list_all (\<lambda>ev. \<not> own_event pid_of c ev) evs" for evs s
    using that unfolding run_lock_def by (induction evs arbitrary: s) (simp_all add: other_event_pc)
  have same: "lk_pc ?t c = lk_pc ?s c" unfolding t by (rule pc [OF assms(2)])
  have inv: "sinv pid_of ?s" "sinv pid_of ?t" by (intro reach_inv run_lock_reach lock_reach.init)+
  obtain i g r where h: "hold_of (lk_pc ?s c) = Some (i, g, r)"
    using assms(1) by (cases "hold_of (lk_pc ?s c)") (auto simp: holds_lock_def)
  have h': "hold_of (lk_pc ?t c) = Some (i, g, r)" using h same by simp
  show ?thesis using same holder_facts [OF inv(1) h] holder_facts [OF inv(2) h'] by simp
qed

text \<open>Two contenders of two processes; the first dies holding the lock, the second takes over.\<close>

definition takeover_trace :: "lock_event list" where
  "takeover_trace = [Begin 0 OpStart None] @ replicate 13 (Sched 0 False) @ [Begin 1 OpStop None, Crash 0]
     @ replicate 14 (Sched 1 False)"

lemma takeover_trace_holds: "holds_lock (run_lock id takeover_trace lk_init) 1"
  by code_simp

theorem lock_mutual_exclusion_witness:
  "let s = run_lock id takeover_trace lk_init in
    (holds_lock s 0 \<longrightarrow> 0 = (1::nat))
    \<and> (\<exists>i g r. hold_of (lk_pc s 1) = Some (i, g, r) \<and> read_id s = Some i \<and> read_rec i g s = Some r
         \<and> currentHolder s = Some r \<and> lr_pid r = id 1 \<and> \<not> lr_released r \<and> id 1 \<notin> set (lk_dead s))"
  by (rule lock_mutual_exclusion [OF takeover_trace_holds])

theorem holder_undisturbed_witness:
  "let rest = [Begin 2 OpClean None] @ replicate 9 (Sched 2 False) @ [Crash 2] in
   lk_pc (run_lock id (takeover_trace @ rest) lk_init) 1 = lk_pc (run_lock id takeover_trace lk_init) 1
    \<and> currentHolder (run_lock id (takeover_trace @ rest) lk_init) = currentHolder (run_lock id takeover_trace lk_init)
    \<and> currentHolder (run_lock id takeover_trace lk_init) \<noteq> None"
  unfolding Let_def by (rule holder_undisturbed [OF takeover_trace_holds]) (simp add: list_all_iff)

end
