(* ===== verification/Lock_Progress.thy ===== *)
theory Lock_Progress
  imports Lock_Safety
begin

text \<open>
  Progress of the lock of \<open>src/lib/lock.ts\<close>: a contender that is not disturbed gets the lock in
  a bounded number of file-system calls unless a live holder is in the way, from every reachable
  state, whatever dead, half-finished or rejected claims the directory holds. Releasing frees it.
\<close>

section \<open>Running one contender alone\<close>

definition goes :: "(nat \<Rightarrow> nat) \<Rightarrow> nat \<Rightarrow> nat \<Rightarrow> lstate \<Rightarrow> lstate \<Rightarrow> bool" where
  "goes pid_of c k s s' \<longleftrightarrow> (\<exists>n\<le>k. run_lock pid_of (replicate n (Sched c False)) s = s')"

lemma run_lock_simps [simp]:
  "run_lock pid_of [] s = s" "run_lock pid_of (ev # evs) s = run_lock pid_of evs (lock_exec pid_of ev s)"
  "run_lock pid_of (xs @ ys) s = run_lock pid_of ys (run_lock pid_of xs s)"
  by (simp_all add: run_lock_def)

lemma goes_refl: "goes pid_of c k s s"
  unfolding goes_def by (rule exI [of _ 0]) simp

lemma goes_step: "goes pid_of c k (lock_step pid_of c False s) s' \<Longrightarrow> goes pid_of c (Suc k) s s'"
  unfolding goes_def
proof (elim exE conjE)
  fix n assume "n \<le> k" "run_lock pid_of (replicate n (Sched c False)) (lock_step pid_of c False s) = s'"
  then show "\<exists>n\<le>Suc k. run_lock pid_of (replicate n (Sched c False)) s = s'"
    by (intro exI [of _ "Suc n"]) simp
qed

lemma goes_trans: "goes pid_of c k s t \<Longrightarrow> goes pid_of c l t u \<Longrightarrow> goes pid_of c (k + l) s u"
  unfolding goes_def
proof (elim exE conjE)
  fix m n
  assume "m \<le> k" "run_lock pid_of (replicate m (Sched c False)) s = t"
    "n \<le> l" "run_lock pid_of (replicate n (Sched c False)) t = u"
  then show "\<exists>n\<le>k + l. run_lock pid_of (replicate n (Sched c False)) s = u"
    by (intro exI [of _ "m + n"]) (simp add: replicate_add)
qed

lemma goes_mono: "goes pid_of c k s t \<Longrightarrow> k \<le> l \<Longrightarrow> goes pid_of c l s t"
  unfolding goes_def using le_trans by blast

lemma goes_inv: "sinv pid_of s \<Longrightarrow> goes pid_of c k s t \<Longrightarrow> sinv pid_of t"
proof -
  assume s: "sinv pid_of s" and "goes pid_of c k s t"
  then obtain n where n: "run_lock pid_of (replicate n (Sched c False)) s = t" by (auto simp: goes_def)
  have "sinv pid_of (run_lock pid_of (replicate n (Sched c False)) s)"
    using s by (induction n arbitrary: s) (auto simp: lock_step_inv)
  with n show ?thesis by simp
qed

section \<open>Finding the incarnation and its top record\<close>

definition at_list :: "lstate \<Rightarrow> nat \<Rightarrow> lstate \<Rightarrow> bool" where
  "at_list s c t \<longleftrightarrow> (\<exists>i d. lk_pc t c = ListTop i \<and> lk_dir t = Some d \<and> ld_id d = Some i
     \<and> top_record t = top_record s \<and> lk_dead t = lk_dead s \<and> length (ld_recs d) = length (recs_of s))"

lemma fresh_id_empty: "sinv pid_of s \<Longrightarrow> lk_dir s = Some d \<Longrightarrow> gens_of (lk_next s) d = []"
proof -
  assume inv: "sinv pid_of s" and d: "lk_dir s = Some d"
  have "fst (fst x) < lk_next s" if "x \<in> set (ld_recs d)" for x
    using inv that d by (auto simp: sinv_def linv_def ids_ok_def recs_of_def)
  then show ?thesis by (force simp: gens_of_def filter_empty_conv)
qed

lemma goes_to_list:
  assumes inv: "sinv pid_of s" and pc: "lk_pc s c = ReadId" and d: "lk_dir s = Some d"
  shows "\<exists>t. goes pid_of c 4 s t \<and> at_list s c t"
proof (cases "ld_id d")
  case (Some i)
  have "goes pid_of c 4 s (set_pc c (ListTop i) s)"
    by (simp add: numeral_eq_Suc, rule goes_step)
      (simp add: lock_step_def pc read_id_def d Some goes_refl)
  moreover have "at_list s c (set_pc c (ListTop i) s)"
    by (simp add: at_list_def d Some top_record_def set_pc_def recs_of_def)
  ultimately show ?thesis by blast
next
  case None
  let ?u = "lk_next s"
  let ?d2 = "d\<lparr>ld_tmps := removeAll ?u (ld_tmps d), ld_id := Some ?u\<rparr>"
  let ?t = "set_pc c (ListTop ?u) (s\<lparr>lk_dir := Some ?d2, lk_next := Suc ?u\<rparr>)"
  have "goes pid_of c 4 s ?t"
    by (simp add: numeral_eq_Suc, (rule goes_step,
        simp add: lock_step_def pc read_id_def d None write_tmp_def link_id_def set_pc_def Let_def)+)
      (simp add: goes_def)
  moreover have "gens_of ?u ?d2 = []"
    using fresh_id_empty [OF inv d] by (simp add: gens_of_def)
  then have "at_list s c ?t"
    by (simp add: at_list_def d None top_record_def set_pc_def recs_of_def)
  ultimately show ?thesis by blast
qed

section \<open>Judging the top record\<close>

lemma goes_to_verdict:
  assumes pc: "lk_pc s c = ListTop i" and d: "lk_dir s = Some d" "ld_id d = Some i"
  shows "case top_record s of
      None \<Rightarrow> if gens_of i d = [] then goes pid_of c 3 s (set_pc c (WriteTmp i 1 None) s) else False
    | Some r \<Rightarrow> gens_of i d \<noteq> [] \<and> al_get (ld_recs d) (i, Max (set (gens_of i d))) = Some r
        \<and> goes pid_of c 3 s (set_pc c (if rec_free (lk_dead s) r
              then WriteTmp i (Suc (Max (set (gens_of i d)))) (Some r) else Ended (RefusedLive r)) s)"
proof (cases "gens_of i d = []")
  case True
  have "goes pid_of c (Suc 2) s (set_pc c (WriteTmp i 1 None) s)"
    by (rule goes_step) (simp add: lock_step_def pc d True goes_refl)
  then show ?thesis using True by (simp add: top_record_def d numeral_3_eq_3)
next
  case False
  let ?m = "Max (set (gens_of i d))"
  have "?m \<in> set (gens_of i d)" using False by simp
  from iffD1 [OF gens_of_iff this] obtain r where r: "al_get (ld_recs d) (i, ?m) = Some r"
    by (auto simp: rec_at_def)
  let ?q = "if rec_free (lk_dead s) r then WriteTmp i (Suc ?m) (Some r) else Ended (RefusedLive r)"
  have "goes pid_of c (Suc (Suc (Suc 0))) s (set_pc c ?q s)"
  proof (rule goes_step)
    have 1: "lock_step pid_of c False s = set_pc c (ReadTop i ?m) s"
      using False by (simp add: lock_step_def pc d)
    have 2: "lock_step pid_of c False (set_pc c (ReadTop i ?m) s) = set_pc c (CheckAlive i ?m r) s"
      by (simp add: lock_step_def read_rec_def set_pc_def d r)
    have 3: "lock_step pid_of c False (set_pc c (CheckAlive i ?m r) s) = set_pc c ?q s"
      by (simp add: lock_step_def set_pc_def)
    show "goes pid_of c (Suc (Suc 0)) (lock_step pid_of c False s) (set_pc c ?q s)"
      unfolding 1 by (rule goes_step, unfold 2, rule goes_step, unfold 3, rule goes_refl)
  qed
  then show ?thesis using False r by (simp add: top_record_def d numeral_3_eq_3)
qed

section \<open>Claiming\<close>

lemma gens_put:
  "al_get recs (i, g) = None \<Longrightarrow> gens_of i (d\<lparr>ld_recs := al_put (i, g) r recs\<rparr>) = gens_of i (d\<lparr>ld_recs := recs\<rparr>) @ [g]"
proof -
  assume "al_get recs (i, g) = None"
  then have "al_put (i, g) r recs = recs @ [((i, g), r)]"
    unfolding al_put_def al_get_None by (induction recs) auto
  then show ?thesis by (simp add: gens_of_def)
qed

lemma goes_claim:
  assumes inv: "sinv pid_of s" and pc: "lk_pc s c = WriteTmp i g judged" and d: "lk_dir s = Some d" "ld_id d = Some i"
    and above: "\<And>h. h \<in> set (gens_of i d) \<Longrightarrow> h < g"
    and judged: "case judged of None \<Rightarrow> g = 1 \<and> gens_of i d = [] | Some j \<Rightarrow> al_get (ld_recs d) (i, g - 1) = Some j \<and> 1 < g"
  shows "\<exists>t r. goes pid_of c 5 s t \<and> lk_pc t c = CollectList i g r None
    \<and> (\<exists>d'. lk_dir t = Some d' \<and> gens_of i d' = gens_of i d @ [g])"
proof -
  let ?r = "new_rec pid_of c s"
  let ?u = "lk_next s"
  have new: "al_get (ld_recs d) (i, g) = None"
    using above [of g] gens_of_iff [of g i d] by (auto simp: rec_at_def)
  let ?d1 = "d\<lparr>ld_tmps := ?u # ld_tmps d\<rparr>"
  let ?s1 = "set_pc c (LinkRec i g judged ?r) (s\<lparr>lk_dir := Some ?d1, lk_next := Suc ?u\<rparr>)"
  let ?d2 = "d\<lparr>ld_tmps := removeAll ?u (ld_tmps d), ld_recs := al_put (i, g) ?r (ld_recs d)\<rparr>"
  let ?s2 = "set_pc c (ListClaim i g judged ?r) (s\<lparr>lk_dir := Some ?d2, lk_next := Suc ?u\<rparr>)"
  have 1: "lock_step pid_of c False s = ?s1"
    by (simp add: lock_step_def pc write_tmp_def d set_pc_def)
  have tok: "lr_token ?r = ?u" by (simp add: new_rec_def)
  have 2: "lock_step pid_of c False ?s1 = ?s2"
    by (simp add: lock_step_def link_rec_def set_pc_def Let_def new tok)
  have gens: "gens_of i ?d2 = gens_of i d @ [g]"
    using gens_put [OF new, where d = "d\<lparr>ld_tmps := removeAll ?u (ld_tmps d)\<rparr>"] by (simp add: gens_of_def)
  have top: "\<not> list_ex (\<lambda>x. x > g) (gens_of i ?d2)"
    unfolding gens using above by (auto simp: list_ex_iff) (meson less_not_sym)
  let ?s4 = "set_pc c (ReadIdent i g ?r) ?s2" and ?t = "set_pc c (CollectList i g ?r None) ?s2"
  have 4: "goes pid_of c (Suc (Suc 0)) ?s2 ?s4"
  proof (cases judged)
    case None
    then have "lock_step pid_of c False ?s2 = ?s4"
      using judged top gens by (simp add: lock_step_def set_pc_def Let_def)
    then show ?thesis using goes_refl goes_step by metis
  next
    case (Some j)
    let ?s3 = "set_pc c (ReadPred i g j ?r True) ?s2"
    have a: "lock_step pid_of c False ?s2 = ?s3"
      using Some top by (simp add: lock_step_def set_pc_def Let_def)
    have "al_get (al_put (i, g) ?r (ld_recs d)) (i, g - 1) = Some j"
      using judged Some by (auto simp: al.get_put_iff)
    then have "lock_step pid_of c False ?s3 = ?s4"
      by (simp add: lock_step_def set_pc_def read_rec_def)
    then show ?thesis using a goes_refl goes_step by metis
  qed
  have 5: "lock_step pid_of c False ?s4 = ?t"
    by (simp add: lock_step_def set_pc_def read_id_def d)
  have "goes pid_of c (Suc (Suc 0) + Suc 0) ?s2 ?t"
    by (rule goes_trans [OF 4 goes_step]) (simp only: 5 goes_refl)
  then have "goes pid_of c (Suc (Suc (Suc (Suc 0) + Suc 0))) s ?t"
    by (intro goes_step) (simp only: 1 2)
  then have "goes pid_of c 5 s ?t" by (rule goes_mono) simp
  moreover have "lk_pc ?t c = CollectList i g ?r None" by simp
  moreover have "lk_dir ?t = Some ?d2" by simp
  ultimately show ?thesis using gens by blast
qed

lemma goes_collect:
  assumes "lk_pc s c = CollectUnlink i g r None xs"
  shows "\<exists>t. goes pid_of c (length xs + 2) s t \<and> lk_pc t c = Held i g r"
  using assms
proof (induction xs arbitrary: s)
  case Nil
  let ?t = "set_pc c (LegacyCheck i g r) s"
  have 1: "lock_step pid_of c False s = ?t" using Nil by (simp add: lock_step_def after_collect_def)
  have 2: "lock_step pid_of c False ?t = set_pc c (Held i g r) s" by (simp add: lock_step_def set_pc_def)
  have "goes pid_of c (Suc (Suc 0)) s (set_pc c (Held i g r) s)"
    by (rule goes_step, unfold 1, rule goes_step, unfold 2, rule goes_refl)
  then show ?case by (intro exI [of _ "set_pc c (Held i g r) s"]) simp
next
  case (Cons x xs)
  let ?t = "set_pc c (CollectUnlink i g r None xs) (unlink_rec i x s)"
  have 1: "lock_step pid_of c False s = ?t" using Cons.prems by (simp add: lock_step_def)
  obtain t where t: "goes pid_of c (length xs + 2) ?t t" "lk_pc t c = Held i g r"
    using Cons.IH [of ?t] by auto
  then have "goes pid_of c (Suc (length xs + 2)) s t" by (intro goes_step) (simp only: 1)
  then show ?case using t(2) by auto
qed

lemma goes_hold:
  assumes "lk_pc s c = CollectList i g r None" and "lk_dir s = Some d" and "length (gens_of i d) \<le> n"
  shows "\<exists>t. goes pid_of c (n + 3) s t \<and> lk_pc t c = Held i g r"
proof -
  let ?xs = "filter (\<lambda>x. x < g) (gens_of i d)"
  let ?t = "set_pc c (CollectUnlink i g r None ?xs) s"
  have 1: "lock_step pid_of c False s = ?t" using assms(1,2) by (simp add: lock_step_def)
  obtain t where t: "goes pid_of c (length ?xs + 2) ?t t" "lk_pc t c = Held i g r"
    using goes_collect [of ?t c i g r ?xs] by auto
  have "length ?xs + 2 \<le> n + 2" using length_filter_le [of "\<lambda>x. x < g" "gens_of i d"] assms(3) by linarith
  then have "goes pid_of c (Suc (n + 2)) s t"
    using t(1) by (intro goes_step) (simp only: 1, rule goes_mono)
  then show ?thesis using t(2) by (auto simp: numeral_eq_Suc)
qed

text \<open>C6: from every reachable state, a contender that begins in a live process, in a
  directory that exists or can be made, and is not disturbed, ends within \<open>17 + n\<close> system calls
  (\<open>n\<close> the number of record files): it holds the lock when the top of the log is not a live
  record (no log at all, a released marker, a dead holder, or a dead claim), and is refused with
  the live holder's record otherwise. So a crashed holder never wedges the lock.\<close>

theorem lock_progress:
  assumes "may_begin (lk_pc (run_lock pid_of evs lk_init) c)"
    and "pid_of c \<notin> set (lk_dead (run_lock pid_of evs lk_init))"
    and "lk_dir (run_lock pid_of evs lk_init) \<noteq> None \<or> lk_parent (run_lock pid_of evs lk_init)"
  shows "let s = run_lock pid_of evs lk_init in
    \<exists>n \<le> 17 + length (recs_of s). let t = run_lock pid_of (evs @ [Begin c op res] @ replicate n (Sched c False)) lk_init in
      (case currentHolder s of None \<Rightarrow> \<exists>i g r. lk_pc t c = Held i g r
       | Some h \<Rightarrow> lk_pc t c = Ended (RefusedLive h))"
proof -
  let ?s = "run_lock pid_of evs lk_init"
  obtain b where b0: "b = lock_exec pid_of (Begin c op res) ?s" by blast
  have inv: "sinv pid_of ?s" by (intro reach_inv run_lock_reach lock_reach.init)
  have binv: "sinv pid_of b" unfolding b0 by (rule lock_exec_inv [OF inv])
  have b: "b = set_pc c EnsureDir (?s\<lparr>lk_req := (lk_req ?s)(c := (op, res))\<rparr>)"
    unfolding b0 using assms(1,2) by simp
  have bf: "lk_pc b c = EnsureDir" "lk_dir b = lk_dir ?s" "lk_parent b = lk_parent ?s" "lk_dead b = lk_dead ?s"
    unfolding b by (simp_all add: set_pc_def)
  obtain s1 d1 where s1: "lock_step pid_of c False b = s1" "lk_pc s1 c = ReadId" "lk_dir s1 = Some d1"
      "top_record s1 = top_record ?s" "lk_dead s1 = lk_dead ?s" "length (ld_recs d1) = length (recs_of ?s)"
  proof (cases "lk_dir ?s")
    case None
    with assms(3) show ?thesis
      by (intro that [of "set_pc c ReadId (b\<lparr>lk_dir := Some empty_dir\<rparr>)" empty_dir])
        (simp_all add: lock_step_def bf set_pc_def top_record_def empty_dir_def recs_of_def)
  next
    case (Some d)
    then show ?thesis
      by (intro that [of "set_pc c ReadId b" d]) (simp_all add: lock_step_def bf set_pc_def top_record_def recs_of_def)
  qed
  have inv1: "sinv pid_of s1" using lock_step_inv [OF binv] s1(1) by metis
  obtain s2 where g2: "goes pid_of c 4 s1 s2" and l2: "at_list s1 c s2"
    using goes_to_list [OF inv1 s1(2,3)] by blast
  have inv2: "sinv pid_of s2" by (rule goes_inv [OF inv1 g2])
  obtain i d where s2: "lk_pc s2 c = ListTop i" "lk_dir s2 = Some d" "ld_id d = Some i" "top_record s2 = top_record ?s"
      "lk_dead s2 = lk_dead ?s" "length (ld_recs d) = length (recs_of ?s)"
    using l2 s1 unfolding at_list_def by (auto simp: recs_of_def)
  have lg: "length (gens_of i d) \<le> length (recs_of ?s)"
    unfolding gens_of_def s2(6) [symmetric] by simp
  have fin: "\<exists>t. goes pid_of c (3 + (5 + (Suc (length (recs_of ?s)) + 3))) s2 t
      \<and> (case currentHolder ?s of None \<Rightarrow> \<exists>i g r. lk_pc t c = Held i g r | Some h \<Rightarrow> lk_pc t c = Ended (RefusedLive h))"
  proof -
    note v = goes_to_verdict [OF s2(1,2,3), of pid_of]
    have claim: "\<exists>t. goes pid_of c (3 + (5 + (Suc (length (recs_of ?s)) + 3))) s2 t \<and> (\<exists>i g r. lk_pc t c = Held i g r)"
      if g: "goes pid_of c 3 s2 (set_pc c (WriteTmp i g judged) s2)"
        and above: "\<And>h. h \<in> set (gens_of i d) \<Longrightarrow> h < g"
        and j: "case judged of None \<Rightarrow> g = 1 \<and> gens_of i d = [] | Some j \<Rightarrow> al_get (ld_recs d) (i, g - 1) = Some j \<and> 1 < g"
      for g judged
    proof -
      have inv3: "sinv pid_of (set_pc c (WriteTmp i g judged) s2)" by (rule goes_inv [OF inv2 g])
      obtain t r d' where t: "goes pid_of c 5 (set_pc c (WriteTmp i g judged) s2) t" "lk_pc t c = CollectList i g r None"
          "lk_dir t = Some d'" "gens_of i d' = gens_of i d @ [g]"
        using goes_claim [OF inv3, of c i g judged d] s2 above j by auto
      have "length (gens_of i d') \<le> Suc (length (recs_of ?s))" using t(4) lg by simp
      then obtain u where u: "goes pid_of c (Suc (length (recs_of ?s)) + 3) t u" "lk_pc u c = Held i g r"
        using goes_hold [OF t(2,3)] by blast
      then show ?thesis using goes_trans [OF g goes_trans [OF t(1) u(1)]] by blast
    qed
    show ?thesis
    proof (cases "top_record s2")
      case None
      then have "currentHolder ?s = None" using s2(4) by (simp add: currentHolder_def)
      moreover have "gens_of i d = []" "goes pid_of c 3 s2 (set_pc c (WriteTmp i 1 None) s2)"
        using v None by (auto split: if_splits)
      ultimately show ?thesis using claim [of 1 None] by simp
    next
      case (Some r)
      let ?m = "Max (set (gens_of i d))"
      have r: "gens_of i d \<noteq> []" "al_get (ld_recs d) (i, ?m) = Some r"
        "goes pid_of c 3 s2 (set_pc c (if rec_free (lk_dead s2) r then WriteTmp i (Suc ?m) (Some r) else Ended (RefusedLive r)) s2)"
        using v Some by auto
      have ch: "currentHolder ?s = (if rec_free (lk_dead s2) r then None else Some r)"
        using Some s2(4,5) by (simp add: currentHolder_def)
      show ?thesis
      proof (cases "rec_free (lk_dead s2) r")
        case True
        obtain v where "core_ok i v (recs_of s2) (lk_dead s2) (lk_pc s2)"
          using sinvD(4) [OF inv2, of i] s2(2,3) by (auto simp: read_id_def)
        then have "al_get (ld_recs d) (i, 0) = None"
          using s2(2) by (simp add: core_ok_def log_ok_def rec_at_def recs_of_def)
        then have "0 < ?m" using r(2) by (metis neq0_conv option.distinct(1))
        then show ?thesis using claim [of "Suc ?m" "Some r"] r True ch by (simp add: less_Suc_eq_le)
      next
        case False
        have g: "goes pid_of c 3 s2 (set_pc c (Ended (RefusedLive r)) s2)"
          using r(3) unfolding if_not_P [OF False] .
        have "goes pid_of c (3 + (5 + (Suc (length (recs_of ?s)) + 3))) s2 (set_pc c (Ended (RefusedLive r)) s2)"
          by (rule goes_mono [OF g]) simp
        then show ?thesis using False ch by (intro exI [of _ "set_pc c (Ended (RefusedLive r)) s2"]) simp
      qed
    qed
  qed
  then obtain t where t: "goes pid_of c (3 + (5 + (Suc (length (recs_of ?s)) + 3))) s2 t"
      "case currentHolder ?s of None \<Rightarrow> \<exists>i g r. lk_pc t c = Held i g r | Some h \<Rightarrow> lk_pc t c = Ended (RefusedLive h)"
    by blast
  have "goes pid_of c (Suc (4 + (3 + (5 + (Suc (length (recs_of ?s)) + 3))))) b t"
    by (rule goes_step) (simp only: s1(1), rule goes_trans [OF g2 t(1)])
  then obtain n where n: "n \<le> 17 + length (recs_of ?s)" "run_lock pid_of (replicate n (Sched c False)) b = t"
    by (auto simp: goes_def intro: order_trans)
  have eq: "run_lock pid_of (evs @ [Begin c op res] @ replicate n (Sched c False)) lk_init = t"
    unfolding run_lock_simps b0 [symmetric] by (rule n(2))
  show ?thesis
    unfolding Let_def by (rule exI [of _ n], unfold eq) (rule conjI [OF n(1) t(2)])
qed

definition dead_holder_trace :: "lock_event list" where
  "dead_holder_trace = [Begin 0 OpStart None] @ replicate 13 (Sched 0 False) @ [Crash 0]"

theorem lock_progress_witness:
  "let s = run_lock id dead_holder_trace lk_init in
    \<exists>n \<le> 17 + length (recs_of s). let t = run_lock id (dead_holder_trace @ [Begin 1 OpStop None] @ replicate n (Sched 1 False)) lk_init in
      (case currentHolder s of None \<Rightarrow> \<exists>i g r. lk_pc t 1 = Held i g r
       | Some h \<Rightarrow> lk_pc t 1 = Ended (RefusedLive h))"
proof (rule lock_progress)
  show "may_begin (lk_pc (run_lock id dead_holder_trace lk_init) 1)" by code_simp
  show "id 1 \<notin> set (lk_dead (run_lock id dead_holder_trace lk_init))" by code_simp
  show "lk_dir (run_lock id dead_holder_trace lk_init) \<noteq> None \<or> lk_parent (run_lock id dead_holder_trace lk_init)" by code_simp
qed

section \<open>Releasing\<close>

lemma goes_collect_rel:
  assumes "lk_pc s c = CollectUnlink i g r (Some out) xs" "sinv pid_of s"
  shows "\<exists>t. goes pid_of c (length xs + 1) s t \<and> lk_pc t c = RelWriteTmp i g r out"
  using assms
proof (induction xs arbitrary: s)
  case Nil
  let ?t = "set_pc c (RelWriteTmp i g r out) s"
  have 1: "lock_step pid_of c False s = ?t" using Nil by (simp add: lock_step_def after_collect_def)
  have "goes pid_of c (Suc 0) s ?t" by (rule goes_step) (simp only: 1 goes_refl)
  then show ?case by (intro exI [of _ ?t]) simp
next
  case (Cons x xs)
  let ?t = "set_pc c (CollectUnlink i g r (Some out) xs) (unlink_rec i x s)"
  have 1: "lock_step pid_of c False s = ?t" using Cons.prems by (simp add: lock_step_def)
  have "sinv pid_of ?t" using lock_step_inv [OF Cons.prems(2), of c False] by (simp only: 1)
  then obtain t where t: "goes pid_of c (length xs + 1) ?t t" "lk_pc t c = RelWriteTmp i g r out"
    using Cons.IH [of ?t] by auto
  then have "goes pid_of c (Suc (length xs + 1)) s t" by (intro goes_step) (simp only: 1)
  then show ?case using t(2) by auto
qed

lemma release_marks:
  assumes inv: "sinv pid_of s" and pc: "lk_pc s c = RelWriteTmp i g r out"
  shows "\<exists>t. goes pid_of c 2 s t \<and> lk_pc t c = Ended out \<and> top_record t = Some (marker r) \<and> currentHolder t = None"
proof -
  have h: "hold_of (lk_pc s c) = Some (i, g, r)" by (simp add: pc hold_of_def)
  have id: "read_id s = Some i" using holder_facts [OF inv h] by simp
  obtain d where d: "lk_dir s = Some d" "ld_id d = Some i"
    using id by (auto simp: read_id_def split: option.splits)
  obtain v where v: "core_ok i v (recs_of s) (lk_dead s) (lk_pc s)" using sinvD(4) [OF inv id] by blast
  have gv: "g = v" using core_hold [OF v h] by simp
  have recs: "recs_of s = ld_recs d" by (simp add: recs_of_def d)
  have top: "q \<le> g" if "rec_at i (ld_recs d) q = Some x" for q x
    using holder_is_top [OF sinvD(1) [OF inv] v h] that gv recs by simp
  have new: "al_get (ld_recs d) (i, Suc g) = None"
  proof (rule ccontr)
    assume "al_get (ld_recs d) (i, Suc g) \<noteq> None"
    then obtain x where "rec_at i (ld_recs d) (Suc g) = Some x" by (auto simp: rec_at_def)
    from top [OF this] show False by simp
  qed
  let ?u = "lk_next s"
  let ?s1 = "set_pc c (RelLink i g r out ?u) (s\<lparr>lk_dir := Some (d\<lparr>ld_tmps := ?u # ld_tmps d\<rparr>), lk_next := Suc ?u\<rparr>)"
  let ?d2 = "d\<lparr>ld_tmps := removeAll ?u (ld_tmps d), ld_recs := al_put (i, Suc g) (marker r) (ld_recs d)\<rparr>"
  let ?t = "set_pc c (Ended out) (s\<lparr>lk_dir := Some ?d2, lk_next := Suc ?u\<rparr>)"
  have 1: "lock_step pid_of c False s = ?s1" by (simp add: lock_step_def pc write_tmp_def d set_pc_def)
  have 2: "lock_step pid_of c False ?s1 = ?t"
    by (simp add: lock_step_def link_rec_def set_pc_def Let_def new)
  have "goes pid_of c (Suc (Suc 0)) s ?t"
    by (rule goes_step, unfold 1, rule goes_step, unfold 2, rule goes_refl)
  moreover have "top_record ?t = Some (marker r)"
  proof (rule top_record_at [of _ i "Suc g"])
    show "read_id ?t = Some i" by (simp add: d)
    show "rec_at i (recs_of ?t) (Suc g) = Some (marker r)" by (simp add: rec_at_put)
    show "q \<le> Suc g" if "rec_at i (recs_of ?t) q = Some x" for q x
      using that top [of q x] by (auto simp: rec_at_put split: if_splits)
  qed
  ultimately show ?thesis
    by (intro exI [of _ ?t]) (simp add: currentHolder_def rec_free_def marker_def numeral_2_eq_2)
qed

text \<open>C8: a holder that releases and is scheduled reaches the end of its release within
  \<open>5 + n\<close> system calls, and then the top of the log is its own released marker, so the lock has no
  holder and the next contender can take it.\<close>

theorem release_frees:
  assumes "lk_pc (run_lock pid_of evs lk_init) c = Held i g r"
  shows "let s = run_lock pid_of evs lk_init in
    \<exists>n \<le> 5 + length (recs_of s). let t = run_lock pid_of (evs @ [ReleaseHeld c] @ replicate n (Sched c False)) lk_init in
      lk_pc t c = Ended Released \<and> top_record t = Some (marker r) \<and> currentHolder t = None"
proof -
  let ?s = "run_lock pid_of evs lk_init"
  let ?b = "set_pc c (RelRead i g r Released) ?s"
  have inv: "sinv pid_of ?s" by (intro reach_inv run_lock_reach lock_reach.init)
  have b: "lock_exec pid_of (ReleaseHeld c) ?s = ?b" using assms by simp
  have binv: "sinv pid_of ?b" using lock_exec_inv [OF inv, of "ReleaseHeld c"] by (simp only: b)
  have h: "hold_of (lk_pc ?s c) = Some (i, g, r)" by (simp add: assms hold_of_def)
  have f: "read_rec i g ?s = Some r" "read_id ?s = Some i" using holder_facts [OF inv h] by simp_all
  then obtain d where d: "lk_dir ?s = Some d" by (auto simp: read_id_def split: option.splits)
  let ?c = "set_pc c (CollectList i g r (Some Released)) ?s"
  let ?xs = "filter (\<lambda>x. x < g) (gens_of i d)"
  let ?u = "set_pc c (CollectUnlink i g r (Some Released) ?xs) ?s"
  have 1: "lock_step pid_of c False ?b = ?c"
    using f(1) by (simp add: lock_step_def read_rec_def set_pc_def)
  have 2: "lock_step pid_of c False ?c = ?u" by (simp add: lock_step_def set_pc_def d)
  have uinv: "sinv pid_of ?u"
    using lock_step_inv [OF lock_step_inv [OF binv], of c False c False] by (simp only: 1 2)
  obtain t where t: "goes pid_of c (length ?xs + 1) ?u t" "lk_pc t c = RelWriteTmp i g r Released"
    using goes_collect_rel [of ?u c i g r Released ?xs] uinv by auto
  obtain w where w: "goes pid_of c 2 t w" "lk_pc w c = Ended Released" "top_record w = Some (marker r)" "currentHolder w = None"
    using release_marks [OF goes_inv [OF uinv t(1)] t(2)] by blast
  have "goes pid_of c (Suc (Suc (length ?xs + 1 + 2))) ?b w"
    by (rule goes_step, unfold 1, rule goes_step, unfold 2, rule goes_trans [OF t(1) w(1)])
  moreover have "length ?xs \<le> length (recs_of ?s)"
    using length_filter_le [of "\<lambda>x. x < g" "gens_of i d"] length_filter_le [of "\<lambda>(k, _). fst k = i" "ld_recs d"]
    by (simp add: gens_of_def recs_of_def d)
  ultimately have "goes pid_of c (5 + length (recs_of ?s)) ?b w" by (elim goes_mono) simp
  then obtain n where n: "n \<le> 5 + length (recs_of ?s)" "run_lock pid_of (replicate n (Sched c False)) ?b = w"
    by (auto simp: goes_def)
  have eq: "run_lock pid_of (evs @ [ReleaseHeld c] @ replicate n (Sched c False)) lk_init = w"
    unfolding run_lock_simps b by (rule n(2))
  show ?thesis
    unfolding Let_def by (rule exI [of _ n], unfold eq) (intro conjI n(1) w(2,3,4))
qed

definition held_trace :: "lock_event list" where
  "held_trace = [Begin 0 OpStart None] @ replicate 13 (Sched 0 False)"

theorem release_frees_witness:
  "\<exists>r. let s = run_lock id held_trace lk_init in
    \<exists>n \<le> 5 + length (recs_of s). let t = run_lock id (held_trace @ [ReleaseHeld 0] @ replicate n (Sched 0 False)) lk_init in
      lk_pc t 0 = Ended Released \<and> top_record t = Some (marker r) \<and> currentHolder t = None"
proof -
  have "lk_pc (run_lock id held_trace lk_init) 0
      = Held 0 1 \<lparr>lr_pid = 0, lr_op = OpStart, lr_token = 1, lr_reserve = None, lr_released = False\<rparr>"
    by code_simp
  from release_frees [OF this] show ?thesis by (rule exI)
qed

end
