(* ===== verification/State.thy ===== *)
theory State
  imports Versions Network_Spec Keyed_Store
begin

text \<open>
  \<open>src/lib/state.ts\<close>: the machines on disk. A machine is a directory under \<open>machines/\<close> with a
  \<open>machine.json\<close>; a name is used as one path segment. A file whose content is a JSON object is
  modelled field by field: a required field is missing, answers another \<open>typeof\<close>, or holds its
  value; the optional fields are those that the modelled code reads or writes. A failing system
  call is \<open>None\<close> where the code lets it escape.
\<close>

section \<open>Machine state (\<open>types.ts\<close>)\<close>

datatype machine_status = Stopped | Running | ErrorStatus

datatype provisioning_step = StPackages | StDeviceMode | StLicense | StUser | StDisableAdmin | StSecureLogin

record provisioning_record =
  pr_at :: string
  pr_steps :: "provisioning_step list"

datatype boot_format = Raw | Qcow2

record device_mode_options =
  dm_mode :: "string option"
  dm_enable :: "string list option"
  dm_disable :: "string list option"

record managed_ssh_key =
  sk_privateKeyPath :: string
  sk_algorithm :: string
  sk_batchVerified :: bool
  sk_verifiedAt :: "string option"

text \<open>The optional fields, shared by a file and the state read from it. (\<open>createdAt\<close> is declared as
  required but not checked when a file is read.)\<close>

record machine_options =
  mo_network :: "network_mode option"
  mo_installAllPackages :: "bool option"
  mo_deviceMode :: "device_mode_options option"
  mo_user :: "(string \<times> string) option"
  mo_disableAdmin :: "bool option"
  mo_secureLogin :: "bool option"
  mo_licenseLevel :: "string option"
  mo_bootSize :: "string option"
  mo_extraDisks :: "string list option"
  mo_bootDiskFormat :: "boot_format option"
  mo_createdAt :: "string option"
  mo_provisioning :: "provisioning_record option"
  mo_pid :: "nat option"
  mo_frozen :: "bool option"
  mo_lastStartedAt :: "string option"
  mo_cleanedAt :: "string option"
  mo_lastAccel :: "string option"
  mo_managedSshKey :: "managed_ssh_key option"

record machine_state = machine_options +
  ms_name :: string
  ms_version :: string
  ms_arch :: arch
  ms_status :: machine_status
  ms_machineDir :: string
  ms_portBase :: nat
  ms_ports :: port_table
  ms_packages :: "string list"
  ms_networks :: "network_config list"

section \<open>Files\<close>

datatype 'a field = Missing | Invalid | Valid 'a

record raw_state = machine_options +
  rs_name :: "string field"
  rs_version :: "string field"
  rs_arch :: "arch field"
  rs_status :: "machine_status field"
  rs_machineDir :: "string field"
  rs_portBase :: "nat field"
  rs_ports :: "port_table field"
  rs_packages :: "string list field"
  rs_networks :: "network_config list option"

datatype machine_file = NotJson | NotObject | Object raw_state

text \<open>An entry of \<open>machines/\<close>: a plain file, or a directory with or without \<open>machine.json\<close>.\<close>

datatype machine_entry = PlainFile | MachineDir "machine_file option"

record datadir =
  dd_root :: string
  dd_machines :: "(string \<times> machine_entry) list"
  dd_removing :: "string list"
  dd_bootLog :: string

definition getMachineDir :: "datadir \<Rightarrow> string \<Rightarrow> string" where
  "getMachineDir d name = dd_root d @ ''/machines/'' @ name"

definition machine_json :: "datadir \<Rightarrow> string \<Rightarrow> machine_file option" where
  "machine_json d name = (case al_get (dd_machines d) name of Some (MachineDir f) \<Rightarrow> f | _ \<Rightarrow> None)"

text \<open>\<open>JSON.stringify\<close> of a state.\<close>

definition state_file :: "machine_state \<Rightarrow> machine_file" where
  "state_file s = Object (machine_options.extend (machine_options.truncate s)
     (raw_state.fields (Valid (ms_name s)) (Valid (ms_version s)) (Valid (ms_arch s)) (Valid (ms_status s))
        (Valid (ms_machineDir s)) (Valid (ms_portBase s)) (Valid (ms_ports s)) (Valid (ms_packages s))
        (Some (ms_networks s))))"

text \<open>\<open>ensureDir(state.machineDir)\<close> makes the directory when it is the machine's own; the write into
  a directory that is not there fails.\<close>

definition saveMachine :: "machine_state \<Rightarrow> datadir \<Rightarrow> datadir option" where
  "saveMachine s d =
     (let here = al_get (dd_machines d) (ms_name s);
          made = (here = None \<and> ms_machineDir s = getMachineDir d (ms_name s)) in
      if here = Some PlainFile \<or> (here = None \<and> \<not> made) then None
      else Some (d\<lparr>dd_machines := al_put (ms_name s) (MachineDir (Some (state_file s))) (dd_machines d)\<rparr>))"

section \<open>Loading\<close>

definition bad_field :: "string \<Rightarrow> 'a field \<Rightarrow> string list" where
  "bad_field key f = (case f of Valid _ \<Rightarrow> [] | _ \<Rightarrow> [key])"

definition bad_fields :: "raw_state \<Rightarrow> string list" where
  "bad_fields r = bad_field ''name'' (rs_name r) @ bad_field ''version'' (rs_version r)
     @ bad_field ''arch'' (rs_arch r) @ bad_field ''status'' (rs_status r)
     @ bad_field ''machineDir'' (rs_machineDir r) @ bad_field ''portBase'' (rs_portBase r)
     @ bad_field ''ports'' (rs_ports r) @ bad_field ''packages'' (rs_packages r)"

definition stateShapeProblem :: "machine_file \<Rightarrow> string option" where
  "stateShapeProblem f =
     (case f of
        Object r \<Rightarrow> if bad_fields r \<noteq> [] then Some (''missing or invalid: '' @ join '', '' (bad_fields r)) else None
      | _ \<Rightarrow> Some ''not a JSON object'')"

definition field_value :: "'a \<Rightarrow> 'a field \<Rightarrow> 'a" where
  "field_value dflt f = (case f of Valid x \<Rightarrow> x | _ \<Rightarrow> dflt)"

text \<open>The cast of a checked object, with the migration of the legacy \<open>network\<close> field. The defaults
  are never used: the check has established the fields.\<close>

definition migrate_networks :: "raw_state \<Rightarrow> network_config list" where
  "migrate_networks r =
     (case rs_networks r of
        Some ns \<Rightarrow> ns
      | None \<Rightarrow> (case mo_network r of Some m \<Rightarrow> networkModeToConfigs m | None \<Rightarrow> [mk_config 0 UserNet]))"

definition state_of :: "raw_state \<Rightarrow> machine_state" where
  "state_of r = machine_options.extend (machine_options.truncate r)
     (machine_state.fields (field_value [] (rs_name r)) (field_value [] (rs_version r)) (field_value X86 (rs_arch r))
        (field_value Stopped (rs_status r)) (field_value [] (rs_machineDir r)) (field_value 0 (rs_portBase r))
        (field_value [] (rs_ports r)) (field_value [] (rs_packages r)) (migrate_networks r))"

definition state_error :: "string \<Rightarrow> 'a result" where
  "state_error t = Inl (QuickCHRError STATE_ERROR t)"

definition loadMachine :: "datadir \<Rightarrow> string \<Rightarrow> machine_state option result" where
  "loadMachine d name =
     (case machine_json d name of
        None \<Rightarrow> Inr None
      | Some f \<Rightarrow>
          (case f of
             NotJson \<Rightarrow> state_error ''unreadable machine.json''
           | _ \<Rightarrow> (case stateShapeProblem f of
                    Some p \<Rightarrow> state_error p
                  | None \<Rightarrow> (case f of Object r \<Rightarrow> Inr (Some (state_of r)) | _ \<Rightarrow> state_error ''''))))"

datatype machine_load = Ok machine_state | MissingMachine | UnreadableMachine string

definition tryLoadMachine :: "datadir \<Rightarrow> string \<Rightarrow> machine_load" where
  "tryLoadMachine d name =
     (case loadMachine d name of
        Inr (Some s) \<Rightarrow> Ok s
      | Inr None \<Rightarrow> MissingMachine
      | Inl e \<Rightarrow> UnreadableMachine (err_text e))"

section \<open>Enumerations\<close>

definition is_directory :: "machine_entry \<Rightarrow> bool" where
  "is_directory e = (case e of MachineDir _ \<Rightarrow> True | PlainFile \<Rightarrow> False)"

definition listMachineNames :: "datadir \<Rightarrow> string list" where
  "listMachineNames d = map fst (filter (\<lambda>(_, e). is_directory e) (dd_machines d))"

definition loaded_state :: "datadir \<Rightarrow> string \<Rightarrow> machine_state option" where
  "loaded_state d name = (case tryLoadMachine d name of Ok s \<Rightarrow> Some s | _ \<Rightarrow> None)"

definition loadAllMachines :: "datadir \<Rightarrow> machine_state list" where
  "loadAllMachines d = List.map_filter (loaded_state d) (listMachineNames d)"

definition listUnreadableMachines :: "datadir \<Rightarrow> (string \<times> string) list" where
  "listUnreadableMachines d = List.map_filter
     (\<lambda>n. case tryLoadMachine d n of UnreadableMachine e \<Rightarrow> Some (n, e) | _ \<Rightarrow> None) (listMachineNames d)"

definition isReadableMachine :: "datadir \<Rightarrow> string \<Rightarrow> bool" where
  "isReadableMachine d name = (case tryLoadMachine d name of Ok _ \<Rightarrow> True | _ \<Rightarrow> False)"

definition isOrphanMachineDir :: "platform \<Rightarrow> datadir \<Rightarrow> string \<Rightarrow> bool" where
  "isOrphanMachineDir plat d name =
     (if \<not> isPathSafeName plat name then False
      else if al_get (dd_machines d) name = None then False
      else \<not> isReadableMachine d name)"

definition listOrphanMachineDirs :: "datadir \<Rightarrow> string list" where
  "listOrphanMachineDirs d = filter (\<lambda>n. \<not> isReadableMachine d n) (listMachineNames d)"

definition getUsedPortBases :: "datadir \<Rightarrow> nat list" where
  "getUsedPortBases d = map ms_portBase (loadAllMachines d)"

definition getUsedMacs :: "datadir \<Rightarrow> string list" where
  "getUsedMacs d = concat (map (\<lambda>m. given_macs (ms_networks m)) (loadAllMachines d))"

section \<open>Removing\<close>

text \<open>What \<open>process.kill(pid, 0)\<close> does.\<close>

datatype kill_result = KillOk | KillEperm | KillGone

definition REMOVE_RENAME_ATTEMPTS :: nat where
  "REMOVE_RENAME_ATTEMPTS = 10"

definition removal_pid :: "string \<Rightarrow> js_number" where
  "removal_pid entry =
     (let parts = split_on CHR ''.'' entry in
      if length parts < 2 then NonFinite else Number_of (parts ! (length parts - 2)))"

text \<open>\<open>rmFails\<close> are the entries whose deletion fails; the sweep ignores that.\<close>

definition swept :: "(nat \<Rightarrow> kill_result) \<Rightarrow> nat \<Rightarrow> (string \<Rightarrow> bool) \<Rightarrow> string \<Rightarrow> bool" where
  "swept kill self rmFails entry =
     (let n = removal_pid entry in
      if \<not> is_integer n \<or> int_value n \<le> 0 then False
      else if nat (int_value n) \<noteq> self \<and> kill (nat (int_value n)) \<noteq> KillGone then False
      else \<not> rmFails entry)"

definition sweepAbandonedRemovals ::
    "(nat \<Rightarrow> kill_result) \<Rightarrow> nat \<Rightarrow> (string \<Rightarrow> bool) \<Rightarrow> string list \<Rightarrow> string list" where
  "sweepAbandonedRemovals kill self rmFails entries = filter (\<lambda>e. \<not> swept kill self rmFails e) entries"

text \<open>The attempt at which the rename succeeds, if one does.\<close>

function rename_loop :: "(nat \<Rightarrow> bool) \<Rightarrow> nat \<Rightarrow> nat option" where
  "rename_loop renameFails attempt =
     (if \<not> renameFails attempt then Some attempt
      else if attempt \<ge> REMOVE_RENAME_ATTEMPTS then None
      else rename_loop renameFails (Suc attempt))"
  by pat_completeness auto
termination by (relation "measure (\<lambda>(_, n). REMOVE_RENAME_ATTEMPTS - n)") auto

declare rename_loop.simps [simp del]

definition trash_entry :: "string \<Rightarrow> nat \<Rightarrow> string \<Rightarrow> string" where
  "trash_entry name self uuid = name @ ''.'' @ show_nat self @ ''.'' @ uuid"

definition removeMachine ::
    "platform \<Rightarrow> (nat \<Rightarrow> kill_result) \<Rightarrow> nat \<Rightarrow> string \<Rightarrow> (string \<Rightarrow> bool) \<Rightarrow> (nat \<Rightarrow> bool) \<Rightarrow> string \<Rightarrow> datadir \<Rightarrow>
       unit result \<times> datadir" where
  "removeMachine plat kill self uuid rmFails renameFails name d =
     (case assertPathSafeName plat name of
        Inl e \<Rightarrow> (Inl e, d)
      | Inr _ \<Rightarrow>
          if al_get (dd_machines d) name = None then (Inl (QuickCHRError MACHINE_NOT_FOUND ''not found''), d)
          else
            (let trash = trash_entry name self uuid;
                 d1 = d\<lparr>dd_removing := sweepAbandonedRemovals kill self rmFails (dd_removing d)\<rparr> in
             case rename_loop renameFails 1 of
               None \<Rightarrow> (state_error ''moving aside failed'', d1)
             | Some _ \<Rightarrow>
                 (Inr (), d1\<lparr>dd_machines := al_del name (dd_machines d1),
                             dd_removing := (if rmFails trash then dd_removing d1 @ [trash] else dd_removing d1)\<rparr>)))"

section \<open>Status\<close>

definition updateMachineStatus ::
    "string \<Rightarrow> string \<Rightarrow> machine_status \<Rightarrow> nat option \<Rightarrow> datadir \<Rightarrow> datadir option result" where
  "updateMachineStatus now name status pid d =
     (case loadMachine d name of
        Inl e \<Rightarrow> Inl e
      | Inr None \<Rightarrow> Inl (QuickCHRError MACHINE_NOT_FOUND ''not found'')
      | Inr (Some s) \<Rightarrow>
          (let s1 = s\<lparr>ms_status := status, mo_pid := pid\<rparr>;
               s2 = (if status = Running then s1\<lparr>mo_lastStartedAt := Some now\<rparr> else s1) in
           Inr (saveMachine s2 d)))"

definition isMachineRunning :: "(nat \<Rightarrow> kill_result) \<Rightarrow> machine_state \<Rightarrow> bool" where
  "isMachineRunning kill s =
     (case mo_pid s of
        None \<Rightarrow> False
      | Some pid \<Rightarrow> ms_status s = Running \<and> pid \<noteq> 0 \<and> kill pid = KillOk)"

definition stale :: "(nat \<Rightarrow> kill_result) \<Rightarrow> machine_state \<Rightarrow> bool" where
  "stale kill m \<longleftrightarrow> ms_status m = Running \<and> \<not> isMachineRunning kill m"

definition mark_stopped :: "machine_state \<Rightarrow> machine_state" where
  "mark_stopped m = m\<lparr>ms_status := Stopped, mo_pid := None, mo_frozen := None\<rparr>"

fun refresh_each :: "(nat \<Rightarrow> kill_result) \<Rightarrow> machine_state list \<Rightarrow> datadir \<Rightarrow> (machine_state list \<times> datadir) option" where
  "refresh_each kill [] d = Some ([], d)"
| "refresh_each kill (m # ms) d =
     (if stale kill m then
        (case saveMachine (mark_stopped m) d of
           None \<Rightarrow> None
         | Some d' \<Rightarrow> map_option (\<lambda>(xs, e). (mark_stopped m # xs, e)) (refresh_each kill ms d'))
      else map_option (\<lambda>(xs, e). (m # xs, e)) (refresh_each kill ms d))"

definition refreshAllStatuses :: "(nat \<Rightarrow> kill_result) \<Rightarrow> datadir \<Rightarrow> (machine_state list \<times> datadir) option" where
  "refreshAllStatuses kill d = refresh_each kill (loadAllMachines d) d"

section \<open>Logs and sizes\<close>

definition BOOT_LOG_MAX_LINES :: nat where "BOOT_LOG_MAX_LINES = 1000"
definition BOOT_LOG_KEEP_LINES :: nat where "BOOT_LOG_KEEP_LINES = 500"

definition newline :: char where
  "newline = CHR 0x0A"

definition log_lines :: "string \<Rightarrow> string list" where
  "log_lines text = filter (\<lambda>l. l \<noteq> []) (split_on newline text)"

definition appendBootLog :: "string \<Rightarrow> datadir \<Rightarrow> datadir" where
  "appendBootLog entry d =
     (let text = dd_bootLog d @ entry @ [newline]; lines = log_lines text in
      d\<lparr>dd_bootLog := (if length lines > BOOT_LOG_MAX_LINES
          then join [newline] (drop (length lines - BOOT_LOG_KEEP_LINES) lines) @ [newline] else text)\<rparr>)"

text \<open>A directory tree; an entry that cannot be examined counts as nothing.\<close>

datatype fs_node = FileNode nat | NoStat | DirNode "(string \<times> fs_node) list"

fun node_size :: "fs_node \<Rightarrow> nat" where
  "node_size (FileNode n) = n"
| "node_size NoStat = 0"
| "node_size (DirNode es) = sum_list (map (\<lambda>(_, n). node_size n) es)"

definition directorySize :: "fs_node option \<Rightarrow> nat" where
  "directorySize n = (case n of None \<Rightarrow> 0 | Some x \<Rightarrow> node_size x)"

text \<open>The age-based \<open>pruneCache\<close> of this file: a directory is never removed by it (\<open>rmSync\<close> without
  \<open>recursive\<close> throws), and what throws is skipped.\<close>

record aged_file =
  af_name :: string
  af_isDirectory :: bool
  af_mtimeMs :: rat

definition too_old :: "rat \<Rightarrow> rat \<Rightarrow> aged_file \<Rightarrow> bool" where
  "too_old now maxAgeDays f \<longleftrightarrow> now - af_mtimeMs f > maxAgeDays * 24 * 60 * 60 * 1000"

definition age_prune :: "rat \<Rightarrow> rat \<Rightarrow> aged_file list option \<Rightarrow> nat \<times> aged_file list" where
  "age_prune now maxAgeDays cache =
     (case cache of
        None \<Rightarrow> (0, [])
      | Some fs \<Rightarrow>
          (let gone = (\<lambda>f. too_old now maxAgeDays f \<and> \<not> af_isDirectory f) in
           (length (filter gone fs), filter (\<lambda>f. \<not> gone f) fs)))"

section \<open>Saving and loading\<close>

lemma state_file_loads:
  obtains r where "state_file s = Object r" "bad_fields r = []" "state_of r = s"
proof (rule that)
  let ?r = "machine_options.extend (machine_options.truncate s)
     (raw_state.fields (Valid (ms_name s)) (Valid (ms_version s)) (Valid (ms_arch s)) (Valid (ms_status s))
        (Valid (ms_machineDir s)) (Valid (ms_portBase s)) (Valid (ms_ports s)) (Valid (ms_packages s))
        (Some (ms_networks s)))"
  show "state_file s = Object ?r" by (simp add: state_file_def)
  show "bad_fields ?r = []"
    by (simp add: bad_fields_def bad_field_def machine_options.defs raw_state.defs)
  show "state_of ?r = s"
    by (cases s) (simp add: state_of_def field_value_def migrate_networks_def machine_options.defs raw_state.defs
        machine_state.defs)
qed

lemma load_written:
  "al_get (dd_machines d) name = Some (MachineDir (Some (state_file s))) \<Longrightarrow> loadMachine d name = Inr (Some s)"
  by (rule state_file_loads [of s]) (simp add: loadMachine_def machine_json_def stateShapeProblem_def)

lemma load_depends: "al_get (dd_machines d) n = al_get (dd_machines e) n \<Longrightarrow> loadMachine d n = loadMachine e n"
  by (simp add: loadMachine_def machine_json_def)

lemma saveMachine_cases:
  assumes "saveMachine s d = Some d'"
  shows "d' = d\<lparr>dd_machines := al_put (ms_name s) (MachineDir (Some (state_file s))) (dd_machines d)\<rparr>"
  using assms by (auto simp: saveMachine_def Let_def split: if_splits)

text \<open>what \<open>saveMachine\<close> writes is what \<open>loadMachine\<close> reads: the state itself, whatever was
  in the file before, and no other machine changes. So migrating a legacy file is done once: a
  loaded state that is saved loads back unchanged.\<close>

theorem save_load:
  assumes "saveMachine s d = Some d'"
  shows "loadMachine d' (ms_name s) = Inr (Some s) \<and> (n = ms_name s \<or> loadMachine d' n = loadMachine d n)"
proof -
  have get: "al_get (dd_machines d') k = (if k = ms_name s then Some (MachineDir (Some (state_file s)))
      else al_get (dd_machines d) k)" for k
    using saveMachine_cases [OF assms] by (simp add: al.get_put_iff)
  then show ?thesis using load_written [of d' "ms_name s" s] load_depends [of d' n d] by (cases "n = ms_name s") auto
qed

text \<open>A data directory with one machine that claims to run, a file that is no JSON, and a directory a
  creation never finished.\<close>

definition demo_state :: machine_state where
  "demo_state = \<lparr>mo_network = None, mo_installAllPackages = None, mo_deviceMode = None, mo_user = None,
     mo_disableAdmin = None, mo_secureLogin = None, mo_licenseLevel = None, mo_bootSize = None,
     mo_extraDisks = None, mo_bootDiskFormat = None, mo_createdAt = Some ''2026-01-01'',
     mo_provisioning = None, mo_pid = Some 41, mo_frozen = Some True, mo_lastStartedAt = None, mo_cleanedAt = None,
     mo_lastAccel = None, mo_managedSshKey = None, ms_name = ''lab'', ms_version = ''7.20.8'',
     ms_arch = X86, ms_status = Running, ms_machineDir = ''/q/machines/lab'', ms_portBase = 9100, ms_ports = [],
     ms_packages = [], ms_networks = [mk_config 0 UserNet]\<rparr>"

definition demo_dir :: datadir where
  "demo_dir = \<lparr>dd_root = ''/q'',
     dd_machines = [(''lab'', MachineDir (Some (state_file demo_state))), (''bad'', MachineDir (Some NotJson)),
       (''new'', MachineDir None)], dd_removing = [], dd_bootLog = ''a'' @ [newline]\<rparr>"

theorem save_load_witness:
  "loadMachine (the (saveMachine (demo_state\<lparr>ms_name := ''new''\<rparr>) demo_dir)) ''new'' = Inr (Some (demo_state\<lparr>ms_name := ''new''\<rparr>))
   \<and> (''bad'' = ''new'' \<or> loadMachine (the (saveMachine (demo_state\<lparr>ms_name := ''new''\<rparr>) demo_dir)) ''bad'' = loadMachine demo_dir ''bad'')"
proof -
  have "saveMachine (demo_state\<lparr>ms_name := ''new''\<rparr>) demo_dir = Some (the (saveMachine (demo_state\<lparr>ms_name := ''new''\<rparr>) demo_dir))"
    by (simp add: saveMachine_def demo_dir_def al_get_def)
  from save_load [OF this, of "''bad''"] show ?thesis by simp
qed

section \<open>Enumerating\<close>

lemma length_map_filter: "length (List.map_filter f xs) = length (filter (\<lambda>x. f x \<noteq> None) xs)"
  by (simp add: map_filter_def)

lemma readable_loaded: "isReadableMachine d n \<longleftrightarrow> loaded_state d n \<noteq> None"
  by (simp add: isReadableMachine_def loaded_state_def split: machine_load.splits)

lemma readable_iff: "isReadableMachine d n \<longleftrightarrow> (case loadMachine d n of Inr (Some _) \<Rightarrow> True | _ \<Rightarrow> False)"
  by (simp add: isReadableMachine_def tryLoadMachine_def split: sum.splits option.splits)

lemma set_map_filter: "y \<in> set (List.map_filter f xs) \<longleftrightarrow> (\<exists>x \<in> set xs. f x = Some y)"
  by (induction xs) (auto simp: map_filter_simps split: option.splits)

lemma unreadable_iff:
  "n \<in> fst ` set (listUnreadableMachines d) \<longleftrightarrow> n \<in> set (listMachineNames d) \<and> (\<exists>e. loadMachine d n = Inl e)"
proof -
  have "(case tryLoadMachine d x of UnreadableMachine e \<Rightarrow> Some (x, e) | _ \<Rightarrow> None) = Some y
      \<longleftrightarrow> fst y = x \<and> (\<exists>e. loadMachine d x = Inl e \<and> snd y = err_text e)" for x y
    by (cases y) (auto simp: tryLoadMachine_def split: sum.splits option.splits)
  then have mem: "y \<in> set (listUnreadableMachines d) \<longleftrightarrow>
      fst y \<in> set (listMachineNames d) \<and> (\<exists>e. loadMachine d (fst y) = Inl e \<and> snd y = err_text e)" for y
    unfolding listUnreadableMachines_def set_map_filter by auto
  show ?thesis
  proof (intro iffI; (elim conjE exE)?)
    assume "n \<in> fst ` set (listUnreadableMachines d)"
    then obtain y where "n = fst y" "y \<in> set (listUnreadableMachines d)" by (rule imageE)
    then show "n \<in> set (listMachineNames d) \<and> (\<exists>e. loadMachine d n = Inl e)" using mem [of y] by blast
  next
    fix e assume "n \<in> set (listMachineNames d)" "loadMachine d n = Inl e"
    then have "(n, err_text e) \<in> set (listUnreadableMachines d)" using mem [of "(n, err_text e)"] by simp
    then show "n \<in> fst ` set (listUnreadableMachines d)" by (metis fst_conv image_eqI)
  qed
qed

text \<open>enumerating never fails and hides nothing: every machine directory is either
  loaded or listed as an orphan, never both, an orphan is exactly a directory without a
  \<open>machine.json\<close> or one that is named as unreadable, and for a name safe as a path segment the
  single-name test agrees with the list.\<close>

theorem enumeration_complete:
  "length (loadAllMachines d) + length (listOrphanMachineDirs d) = length (listMachineNames d)
   \<and> {n \<in> set (listMachineNames d). loadMachine d n = Inr None} \<union> fst ` set (listUnreadableMachines d)
       = set (listOrphanMachineDirs d)
   \<and> {n \<in> set (listMachineNames d). isPathSafeName plat n \<and> isOrphanMachineDir plat d n}
       = {n \<in> set (listOrphanMachineDirs d). isPathSafeName plat n}"
proof -
  have 1: "length (loadAllMachines d) + length (listOrphanMachineDirs d) = length (listMachineNames d)"
    unfolding loadAllMachines_def listOrphanMachineDirs_def length_map_filter readable_loaded
    using sum_length_filter_compl [of "\<lambda>n. loaded_state d n \<noteq> None"] by simp
  have "n \<in> fst ` set (listUnreadableMachines d) \<longleftrightarrow> n \<in> set (listMachineNames d) \<and> (\<exists>e. loadMachine d n = Inl e)" for n
    by (rule unreadable_iff)
  then have 2: "{n \<in> set (listMachineNames d). loadMachine d n = Inr None} \<union> fst ` set (listUnreadableMachines d)
      = set (listOrphanMachineDirs d)"
    unfolding listOrphanMachineDirs_def readable_iff set_filter by (intro set_eqI) (auto split: sum.splits option.splits)
  have "al_get (dd_machines d) n \<noteq> None" if "n \<in> set (listMachineNames d)" for n
    using that unfolding listMachineNames_def al_get_None by force
  then have 3: "{n \<in> set (listMachineNames d). isPathSafeName plat n \<and> isOrphanMachineDir plat d n}
      = {n \<in> set (listOrphanMachineDirs d). isPathSafeName plat n}"
    by (auto simp: isOrphanMachineDir_def listOrphanMachineDirs_def)
  from 1 2 3 show ?thesis by blast
qed

section \<open>Refreshing\<close>

text \<open>Directories are listed once, and a readable \<open>machine.json\<close> carries the name of its directory.\<close>

definition own_names :: "datadir \<Rightarrow> bool" where
  "own_names d \<longleftrightarrow> distinct (map fst (dd_machines d))
     \<and> list_all (\<lambda>n. case loaded_state d n of None \<Rightarrow> True | Some s \<Rightarrow> ms_name s = n) (listMachineNames d)"

lemma loaded_state_iff: "loaded_state d n = Some s \<longleftrightarrow> loadMachine d n = Inr (Some s)"
  by (auto simp: loaded_state_def tryLoadMachine_def split: sum.splits option.splits)

lemma loaded_entry: "loaded_state d n = Some s \<Longrightarrow> \<exists>f. al_get (dd_machines d) n = Some (MachineDir f)"
  by (auto simp: loaded_state_iff loadMachine_def machine_json_def split: option.splits machine_entry.splits)

lemma save_loaded:
  assumes "loaded_state d (ms_name s) \<noteq> None" and "distinct (map fst (dd_machines d))"
  shows "\<exists>d'. saveMachine s d = Some d' \<and> listMachineNames d' = listMachineNames d
    \<and> map fst (dd_machines d') = map fst (dd_machines d)
    \<and> (\<forall>n. loaded_state d' n = (if n = ms_name s then Some s else loaded_state d n))"
proof -
  obtain f where f: "al_get (dd_machines d) (ms_name s) = Some (MachineDir f)" using assms(1) loaded_entry by blast
  obtain d' where d': "d' = d\<lparr>dd_machines := al_put (ms_name s) (MachineDir (Some (state_file s))) (dd_machines d)\<rparr>" by blast
  have save: "saveMachine s d = Some d'" using f by (simp add: saveMachine_def d')
  have "ms_name s \<in> set (map fst (dd_machines d))" using al_get_in [OF f] by force
  then have keys: "map fst (dd_machines d') = map fst (dd_machines d)"
    by (simp add: d' al_put_def update_keys)
  have "is_directory (the (al_get (dd_machines d') n)) = is_directory (the (al_get (dd_machines d) n))" for n
    using f by (simp add: d' al.get_put_iff is_directory_def)
  moreover have names: "listMachineNames e = filter (\<lambda>n. is_directory (the (al_get (dd_machines e) n))) (map fst (dd_machines e))"
    if "distinct (map fst (dd_machines e))" for e
  proof -
    have "filter (\<lambda>(_, x). is_directory x) (dd_machines e)
        = filter (\<lambda>(n, _). is_directory (the (al_get (dd_machines e) n))) (dd_machines e)"
      by (rule filter_cong) (auto simp: al_in_get [OF that])
    then show ?thesis by (simp add: listMachineNames_def filter_map comp_def case_prod_unfold)
  qed
  ultimately have "listMachineNames d' = listMachineNames d"
    using names [of d] names [of d'] assms(2) keys by simp
  moreover have "loaded_state d' n = (if n = ms_name s then Some s else loaded_state d n)" for n
  proof -
    have "loadMachine d' (ms_name s) = Inr (Some s)" by (rule load_written) (simp add: d' al.get_put)
    moreover have "loadMachine d' n = loadMachine d n" if "n \<noteq> ms_name s"
      by (rule load_depends) (use that in \<open>simp add: d' al.get_put_iff\<close>)
    ultimately show ?thesis
      using loaded_state_iff [of d' n s] by (auto simp: loaded_state_def tryLoadMachine_def)
  qed
  ultimately show ?thesis using save keys by blast
qed

definition refreshed :: "(nat \<Rightarrow> kill_result) \<Rightarrow> machine_state \<Rightarrow> machine_state" where
  "refreshed kill m = (if stale kill m then mark_stopped m else m)"

lemma refreshed_name [simp]: "ms_name (refreshed kill m) = ms_name m"
  by (simp add: refreshed_def mark_stopped_def)

lemma refresh_each_result:
  assumes "distinct (map ms_name ms)" "distinct (map fst (dd_machines d))"
    and "\<And>m. m \<in> set ms \<Longrightarrow> loaded_state d (ms_name m) = Some m"
  shows "\<exists>d'. refresh_each kill ms d = Some (map (refreshed kill) ms, d')
    \<and> listMachineNames d' = listMachineNames d \<and> map fst (dd_machines d') = map fst (dd_machines d)
    \<and> (\<forall>n. loaded_state d' n = (if n \<in> ms_name ` set ms then map_option (refreshed kill) (loaded_state d n)
                              else loaded_state d n))"
  using assms
proof (induction ms arbitrary: d)
  case (Cons m ms)
  show ?case
  proof (cases "stale kill m")
    case False
    then show ?thesis using Cons.IH [of d] Cons.prems by (auto simp: refreshed_def)
  next
    case True
    have name: "ms_name (mark_stopped m) = ms_name m" by (simp add: mark_stopped_def)
    obtain d1 where d1: "saveMachine (mark_stopped m) d = Some d1" "listMachineNames d1 = listMachineNames d"
        "map fst (dd_machines d1) = map fst (dd_machines d)"
        "\<And>n. loaded_state d1 n = (if n = ms_name m then Some (mark_stopped m) else loaded_state d n)"
      using save_loaded [of d "mark_stopped m"] Cons.prems unfolding name by fastforce
    have "ms_name x \<noteq> ms_name m" if "x \<in> set ms" for x
    proof -
      have "ms_name m \<notin> ms_name ` set ms" using Cons.prems(1) by simp
      then show ?thesis using that by (metis image_eqI)
    qed
    then have "loaded_state d1 (ms_name x) = Some x" if "x \<in> set ms" for x
      using that Cons.prems(3) d1(4) by simp
    then obtain d' where d': "refresh_each kill ms d1 = Some (map (refreshed kill) ms, d')"
        "listMachineNames d' = listMachineNames d1" "map fst (dd_machines d') = map fst (dd_machines d1)"
        "\<And>n. loaded_state d' n = (if n \<in> ms_name ` set ms then map_option (refreshed kill) (loaded_state d1 n)
                              else loaded_state d1 n)"
      using Cons.IH [of d1] Cons.prems d1(3) by auto
    have "loaded_state d (ms_name m) = Some m" using Cons.prems by simp
    moreover have "ms_name m \<notin> ms_name ` set ms" using Cons.prems(1) by simp
    ultimately have "loaded_state d' n = (if n \<in> ms_name ` set (m # ms)
        then map_option (refreshed kill) (loaded_state d n) else loaded_state d n)" for n
      using d'(4) d1(4) True by (auto simp: refreshed_def)
    then show ?thesis using True d1 d' by (auto simp: refreshed_def)
  qed
qed auto

lemma map_filter_names:
  "(\<And>n s. n \<in> set ns \<Longrightarrow> f n = Some s \<Longrightarrow> ms_name s = n) \<Longrightarrow>
     map ms_name (List.map_filter f ns) = filter (\<lambda>n. f n \<noteq> None) ns"
  by (induction ns) (auto simp: map_filter_simps split: option.splits)

lemma own_names_loaded: "own_names d \<Longrightarrow> map ms_name (loadAllMachines d) = filter (\<lambda>n. loaded_state d n \<noteq> None) (listMachineNames d)"
  unfolding loadAllMachines_def own_names_def
  by (rule map_filter_names) (auto simp: list_all_iff split: option.splits)

lemma refreshed_not_stale: "\<not> stale kill (refreshed kill m)"
  by (simp add: refreshed_def stale_def mark_stopped_def)

lemma refresh_each_fresh: "list_all (\<lambda>m. \<not> stale kill m) ms \<Longrightarrow> refresh_each kill ms d = Some (ms, d)"
  by (induction ms) simp_all

lemma map_filter_map: "List.map_filter (\<lambda>n. map_option g (f n)) xs = map g (List.map_filter f xs)"
  by (induction xs) (auto simp: map_filter_simps split: option.splits)

lemma map_filter_cong: "(\<And>x. x \<in> set xs \<Longrightarrow> f x = g x) \<Longrightarrow> List.map_filter f xs = List.map_filter g xs"
  by (induction xs) (auto simp: map_filter_simps split: option.splits)

text \<open>C34: in a data directory whose readable files carry their directory's name, a refresh
  always finishes; what it returns is what is on disk afterwards; no returned machine claims to run
  under a process that does not answer; every machine that was not such a claim is left exactly as
  it was; and refreshing again changes nothing.\<close>

theorem refresh_statuses:
  assumes "own_names d"
  shows "\<exists>d'. refreshAllStatuses kill d = Some (loadAllMachines d', d')
    \<and> loadAllMachines d' = map (\<lambda>m. if stale kill m then m\<lparr>ms_status := Stopped, mo_pid := None, mo_frozen := None\<rparr> else m) (loadAllMachines d)
    \<and> list_all (\<lambda>m. ms_status m \<noteq> Running \<or> isMachineRunning kill m) (loadAllMachines d')
    \<and> listMachineNames d' = listMachineNames d
    \<and> refreshAllStatuses kill d' = Some (loadAllMachines d', d')"
proof -
  let ?ms = "loadAllMachines d"
  have dist: "distinct (map fst (dd_machines d))" using assms by (simp add: own_names_def)
  then have "distinct (listMachineNames d)"
    unfolding listMachineNames_def by (simp add: distinct_map_filter)
  then have names: "distinct (map ms_name ?ms)" using own_names_loaded [OF assms] by simp
  have own: "loaded_state d (ms_name m) = Some m" if "m \<in> set ?ms" for m
    using that assms unfolding loadAllMachines_def set_map_filter own_names_def list_all_iff
    by (force split: option.splits)
  obtain d' where d': "refresh_each kill ?ms d = Some (map (refreshed kill) ?ms, d')"
      "listMachineNames d' = listMachineNames d"
      "\<And>n. loaded_state d' n = (if n \<in> ms_name ` set ?ms then map_option (refreshed kill) (loaded_state d n)
                              else loaded_state d n)"
    using refresh_each_result [OF names dist own] by metis
  have in_ms: "n \<in> ms_name ` set ?ms" if "n \<in> set (listMachineNames d)" "loaded_state d n \<noteq> None" for n
  proof -
    have "n \<in> set (filter (\<lambda>n. loaded_state d n \<noteq> None) (listMachineNames d))" using that by simp
    then show ?thesis unfolding own_names_loaded [OF assms, symmetric] by simp
  qed
  have "loadAllMachines d' = List.map_filter (\<lambda>n. map_option (refreshed kill) (loaded_state d n)) (listMachineNames d)"
    unfolding loadAllMachines_def d'(2)
  proof (rule map_filter_cong)
    fix n assume "n \<in> set (listMachineNames d)"
    then show "loaded_state d' n = map_option (refreshed kill) (loaded_state d n)"
      using d'(3) [of n] in_ms [of n] by (cases "loaded_state d n") auto
  qed
  then have eq: "loadAllMachines d' = map (refreshed kill) ?ms"
    unfolding map_filter_map by (simp add: loadAllMachines_def)
  have fresh: "list_all (\<lambda>m. \<not> stale kill m) (loadAllMachines d')"
    unfolding eq by (simp add: list_all_iff refreshed_not_stale)
  then have "list_all (\<lambda>m. ms_status m \<noteq> Running \<or> isMachineRunning kill m) (loadAllMachines d')"
    by (auto simp: list_all_iff stale_def)
  moreover have "refreshAllStatuses kill d' = Some (loadAllMachines d', d')"
    unfolding refreshAllStatuses_def by (rule refresh_each_fresh [OF fresh])
  ultimately show ?thesis using d' eq
    by (intro exI [of _ d']) (simp add: refreshAllStatuses_def refreshed_def mark_stopped_def)
qed

theorem refresh_statuses_witness:
  "\<exists>d'. refreshAllStatuses (\<lambda>_. KillEperm) demo_dir = Some (loadAllMachines d', d')
    \<and> loadAllMachines d' = map (\<lambda>m. if stale (\<lambda>_. KillEperm) m then m\<lparr>ms_status := Stopped, mo_pid := None, mo_frozen := None\<rparr> else m) (loadAllMachines demo_dir)
    \<and> list_all (\<lambda>m. ms_status m \<noteq> Running \<or> isMachineRunning (\<lambda>_. KillEperm) m) (loadAllMachines d')
    \<and> listMachineNames d' = listMachineNames demo_dir
    \<and> refreshAllStatuses (\<lambda>_. KillEperm) d' = Some (loadAllMachines d', d')"
proof (rule refresh_statuses)
  have "loadMachine demo_dir ''lab'' = Inr (Some demo_state)"
    by (rule load_written) (simp add: demo_dir_def al_get_def)
  then show "own_names demo_dir"
    by (simp add: own_names_def listMachineNames_def is_directory_def loaded_state_def tryLoadMachine_def
        demo_state_def demo_dir_def loadMachine_def machine_json_def al_get_def state_error_def
        split: option.splits machine_load.splits)
qed

section \<open>Removing\<close>

lemma rename_loop_result:
  "case rename_loop fails n of
     Some k \<Rightarrow> n \<le> k \<and> k \<le> max n REMOVE_RENAME_ATTEMPTS \<and> \<not> fails k
   | None \<Rightarrow> (\<forall>k. n \<le> k \<and> k \<le> REMOVE_RENAME_ATTEMPTS \<longrightarrow> fails k)"
proof (induction fails n rule: rename_loop.induct)
  case (1 fails n)
  show ?case
  proof (cases "fails n \<and> n < REMOVE_RENAME_ATTEMPTS")
    case True
    then have "rename_loop fails n = rename_loop fails (Suc n)" by (simp add: rename_loop.simps [of fails n])
    then show ?thesis using 1 True
      by (auto split: option.splits) (metis Suc_leI le_neq_implies_less)
  next
    case False
    have "k = n" if "n \<le> k" "k \<le> REMOVE_RENAME_ATTEMPTS" "fails n" for k using that False by linarith
    then show ?thesis using False by (auto simp: rename_loop.simps [of fails n])
  qed
qed

lemma removal_pid_trash:
  "CHR ''.'' \<notin> set uuid \<Longrightarrow> removal_pid (trash_entry name p uuid) = Number_of (show_nat p)"
  by (simp add: removal_pid_def trash_entry_def split_on_append show_nat_notin is_digit_def Let_def nth_append)

lemma live_not_swept:
  "CHR ''.'' \<notin> set uuid \<Longrightarrow> p \<noteq> self \<Longrightarrow> kill p \<noteq> KillGone \<Longrightarrow> \<not> swept kill self rmFails (trash_entry name p uuid)"
  by (simp add: swept_def removal_pid_trash Number_of_show is_integer_def int_value_def Let_def)

text \<open>What is set aside by another process that is alive stays.\<close>

definition sweep_spares :: "nat \<Rightarrow> (nat \<Rightarrow> kill_result) \<Rightarrow> datadir \<Rightarrow> datadir \<Rightarrow> bool" where
  "sweep_spares self kill d d' \<longleftrightarrow>
     {e \<in> set (dd_removing d). \<exists>n p u. e = trash_entry n p u \<and> CHR ''.'' \<notin> set u \<and> p \<noteq> self \<and> kill p \<noteq> KillGone}
       \<subseteq> set (dd_removing d')"

lemma sweep_spares_refl: "sweep_spares self kill d d"
  by (auto simp: sweep_spares_def)

text \<open>a removal is refused for a name that is no path segment, or for one that names
  nothing; otherwise it tries the rename at most ten times and either frees the name and touches
  no other machine, or leaves every machine in place, having failed all ten times. Files another
  live process is still deleting are never swept.\<close>

theorem remove_machine:
  "case removeMachine plat kill self uuid rmFails renameFails name d of
     (Inr _, d') \<Rightarrow> isPathSafeName plat name \<and> al_get (dd_machines d) name \<noteq> None
         \<and> dd_machines d' = al_del name (dd_machines d) \<and> al_get (dd_machines d') name = None
         \<and> list_ex (\<lambda>k. \<not> renameFails k) [1..<11] \<and> sweep_spares self kill d d'
   | (Inl e, d') \<Rightarrow> dd_machines d' = dd_machines d \<and> sweep_spares self kill d d'
         \<and> (if \<not> isPathSafeName plat name then err_code e = INVALID_NAME
            else if al_get (dd_machines d) name = None then err_code e = MACHINE_NOT_FOUND
            else err_code e = STATE_ERROR \<and> list_all renameFails [1..<11])"
proof -
  have att: "REMOVE_RENAME_ATTEMPTS = 10" by (simp add: REMOVE_RENAME_ATTEMPTS_def)
  note loop = rename_loop_result [where n = 1 and fails = renameFails, unfolded att]
  have ex: "rename_loop renameFails 1 = Some k \<Longrightarrow> list_ex (\<lambda>k. \<not> renameFails k) [1..<11]" for k
    using loop by (auto simp: list_ex_iff intro!: bexI [of _ k])
  have all: "rename_loop renameFails 1 = None \<Longrightarrow> list_all renameFails [1..<11]"
    using loop by (auto simp: list_all_iff)
  have spare: "sweep_spares self kill d d'"
    if "set (sweepAbandonedRemovals kill self rmFails (dd_removing d)) \<subseteq> set (dd_removing d')" for d' :: datadir
    using that live_not_swept [of _ _ self kill rmFails] unfolding sweep_spares_def sweepAbandonedRemovals_def by fastforce
  show ?thesis
    using ex all
    by (auto simp: removeMachine_def Let_def assertPathSafeName_def state_error_def al.get_del sweep_spares_refl
        split: option.splits intro!: spare)
qed


section \<open>The boot log\<close>

lemma log_lines_close: "log_lines (t @ [newline]) = log_lines t"
  using split_on_append [of newline t "[]"] by (simp add: log_lines_def)

lemma log_lines_append:
  assumes "tx = [] \<or> last tx = newline" "entry \<noteq> []" "newline \<notin> set entry"
  shows "log_lines (tx @ entry @ [newline]) = log_lines tx @ [entry]"
proof -
  have e: "log_lines (entry @ [newline]) = [entry]"
    using assms(2,3) log_lines_close [of entry] by (simp add: log_lines_def)
  show ?thesis
  proof (cases tx rule: rev_cases)
    case Nil
    then show ?thesis using e by (simp add: log_lines_def)
  next
    case (snoc t c)
    then have t: "tx = t @ [newline]" using assms(1) by simp
    have "log_lines (t @ newline # entry @ [newline]) = log_lines t @ log_lines (entry @ [newline])"
      by (simp add: log_lines_def split_on_append)
    then show ?thesis using e log_lines_close [of t] by (simp add: t)
  qed
qed

lemma log_lines_join:
  assumes "\<And>l. l \<in> set ls \<Longrightarrow> l \<noteq> [] \<and> newline \<notin> set l"
  shows "log_lines (join [newline] ls @ [newline]) = ls"
proof (cases "ls = []")
  case False
  have "filter (\<lambda>l. l \<noteq> []) ls = ls" using assms by (simp add: filter_id_conv)
  then show ?thesis
    unfolding log_lines_close using split_on_join [OF False, of newline] assms by (simp add: log_lines_def)
qed (simp add: log_lines_close log_lines_def)

lemma log_lines_pieces: "l \<in> set (log_lines t) \<Longrightarrow> l \<noteq> [] \<and> newline \<notin> set l"
  by (auto simp: log_lines_def dest: split_on_pieces)

text \<open>after any append the boot log has at most a thousand lines, its last line is the
  new record, it still ends in a newline, and its lines are the newest of the old ones and the
  new one: all of them up to a thousand, the last five hundred beyond.\<close>

theorem boot_log_bounded:
  assumes "entry \<noteq> []" and "newline \<notin> set entry" and "dd_bootLog d = [] \<or> last (dd_bootLog d) = newline"
  shows "let old = log_lines (dd_bootLog d); d' = appendBootLog entry d; new = log_lines (dd_bootLog d') in
    new = (if length old < 1000 then old @ [entry] else drop (length old - 499) old @ [entry])
    \<and> length new \<le> 1000 \<and> last (dd_bootLog d') = newline"
proof -
  let ?old = "log_lines (dd_bootLog d)"
  let ?text = "dd_bootLog d @ entry @ [newline]"
  have lines: "log_lines ?text = ?old @ [entry]" by (rule log_lines_append [OF assms(3,1,2)])
  have keep: "drop (length (?old @ [entry]) - 500) (?old @ [entry]) = drop (length ?old - 499) ?old @ [entry]"
    if "length ?old \<ge> 1000" using that by simp
  show ?thesis
  proof (cases "length ?old < 1000")
    case True
    then show ?thesis
      by (simp add: appendBootLog_def Let_def lines BOOT_LOG_MAX_LINES_def)
  next
    case False
    obtain ls where ls: "ls = drop (length ?old - 499) ?old @ [entry]" by blast
    have "log_lines (join [newline] ls @ [newline]) = ls"
      by (rule log_lines_join) (use assms(1,2) log_lines_pieces ls in \<open>auto dest: in_set_dropD\<close>)
    moreover have "dd_bootLog (appendBootLog entry d) = join [newline] ls @ [newline]"
      using False keep unfolding ls
      by (simp add: appendBootLog_def Let_def lines BOOT_LOG_MAX_LINES_def BOOT_LOG_KEEP_LINES_def)
    ultimately show ?thesis using False by (simp add: Let_def ls)
  qed
qed

theorem boot_log_bounded_witness:
  "let old = log_lines (dd_bootLog demo_dir); d' = appendBootLog ''b'' demo_dir; new = log_lines (dd_bootLog d') in
    new = (if length old < 1000 then old @ [''b''] else drop (length old - 499) old @ [''b''])
    \<and> length new \<le> 1000 \<and> last (dd_bootLog d') = newline"
  by (rule boot_log_bounded) (simp_all add: demo_dir_def newline_def)

end
