(* ===== verification/Cache_Policy.thy ===== *)
theory Cache_Policy
  imports State "HOL-Library.Multiset" "HOL-Library.Product_Lexorder" "HOL-Library.Option_ord"
begin

text \<open>
  \<open>src/lib/cache.ts\<close>: what is in the image cache and which entries a prune evicts. The listing of
  the cache directory with the \<open>stat\<close> of every name, the clock and the liveness of a process are
  arguments; the outcome of deleting an entry is a function of the entry. Sizes are natural
  numbers, times are exact.
\<close>

section \<open>Sizes\<close>

definition DEFAULT_CACHE_MAX_BYTES :: nat where "DEFAULT_CACHE_MAX_BYTES = 2 * 1024 * 1024 * 1024"
definition DEFAULT_STORAGE_RESERVE_BYTES :: nat where "DEFAULT_STORAGE_RESERVE_BYTES = 2 * 1024 * 1024 * 1024"

definition size_unit :: "char \<Rightarrow> nat option" where
  "size_unit c = (let u = upper_char c in
     if u = CHR ''K'' then Some 1024 else if u = CHR ''M'' then Some (1024 ^ 2)
     else if u = CHR ''G'' then Some (1024 ^ 3) else if u = CHR ''T'' then Some (1024 ^ 4) else None)"

definition drop_letter :: "char \<Rightarrow> string \<Rightarrow> string" where
  "drop_letter u s = (case s of c # cs \<Rightarrow> if upper_char c = u then cs else s | [] \<Rightarrow> [])"

text \<open>The number: whole digits and the digits after a point. \<open>None\<close> is no match.\<close>

definition size_number :: "string \<Rightarrow> (string \<times> string \<times> string) option" where
  "size_number s =
     (let whole = takeWhile is_digit s; r = dropWhile is_digit s in
      if whole = [] then None
      else (case r of
              c # cs \<Rightarrow> if c = CHR ''.'' \<and> takeWhile is_digit cs \<noteq> []
                        then Some (whole, takeWhile is_digit cs, dropWhile is_digit cs) else Some (whole, [], r)
            | [] \<Rightarrow> Some (whole, [], [])))"

definition parseSizeString :: "string \<Rightarrow> nat result" where
  "parseSizeString s =
     (case size_number s of
        None \<Rightarrow> Inl (QuickCHRError INVALID_SIZE_STRING ''Invalid size'')
      | Some (whole, decs, r) \<Rightarrow>
          (let (mult, r1) = (case r of c # cs \<Rightarrow> (case size_unit c of Some m \<Rightarrow> (m, cs) | None \<Rightarrow> (1, r)) | [] \<Rightarrow> (1, r));
               r2 = drop_letter CHR ''B'' (drop_letter CHR ''I'' r1) in
           if r2 \<noteq> [] then Inl (QuickCHRError INVALID_SIZE_STRING ''Invalid size'')
           else Inr (read_nat (whole @ decs) * mult div 10 ^ length decs)))"

definition countEntries :: "nat \<Rightarrow> string" where
  "countEntries n = show_nat n @ '' '' @ (if n = 1 then ''entry'' else ''entries'')"

text \<open>\<open>(num / den).toFixed(d)\<close>: the nearest decimal, a tie upwards.\<close>

definition to_fixed :: "nat \<Rightarrow> nat \<Rightarrow> nat \<Rightarrow> string" where
  "to_fixed d num den =
     (let n = (2 * num * 10 ^ d + den) div (2 * den); f = show_nat (n mod 10 ^ d) in
      show_nat (n div 10 ^ d) @ ''.'' @ replicate (d - length f) CHR ''0'' @ f)"

definition formatSizeBytes :: "nat \<Rightarrow> string" where
  "formatSizeBytes b =
     (if b \<ge> 1024 ^ 3 then to_fixed 2 b (1024 ^ 3) @ '' GiB''
      else if b \<ge> 1024 ^ 2 then to_fixed 1 b (1024 ^ 2) @ '' MiB''
      else if b \<ge> 1024 then to_fixed 1 b 1024 @ '' KiB''
      else show_nat b @ '' B'')"

section \<open>Names of cache files\<close>

text \<open>\<open>.\<close> in a regular expression: any character but a line terminator.\<close>

definition dot_chars :: "string \<Rightarrow> bool" where
  "dot_chars s \<longleftrightarrow> list_all (\<lambda>c. c \<noteq> CHR 0x0A \<and> c \<noteq> CHR 0x0D) s"

definition chop :: "string \<Rightarrow> string \<Rightarrow> string" where
  "chop suf s = (if ends_with suf s then take (length s - length suf) s else s)"

text \<open>\<open>(all_)?packages-(x86|arm64)-(.+?)(.zip)?\<close>: the lazy group leaves a final \<open>.zip\<close> to the last one.\<close>

definition packages_match :: "string \<Rightarrow> (bool \<times> arch \<times> string \<times> bool) option" where
  "packages_match name =
     (let al = starts_with ''all_'' name; r = (if al then drop 4 name else name);
          body = (\<lambda>a p. let v = drop (length p) r; zipped = ends_with ''.zip'' v \<and> length v > 4 in
                  if v = [] \<or> \<not> dot_chars v then None
                  else Some (al, a, (if zipped then chop ''.zip'' v else v), zipped)) in
      if starts_with ''packages-x86-'' r then body X86 ''packages-x86-''
      else if starts_with ''packages-arm64-'' r then body ARM64 ''packages-arm64-''
      else None)"

text \<open>A version, or \<open>None\<close> for \<open>unknown\<close>; the same for the architecture.\<close>

definition valid_or_unknown :: "string \<Rightarrow> string option" where
  "valid_or_unknown v = (if isValidVersion v then Some v else None)"

definition parseCacheBasename :: "string \<Rightarrow> string option \<times> arch option" where
  "parseCacheBasename name =
     (case packages_match name of
        Some (_, a, v, _) \<Rightarrow> (valid_or_unknown v, Some a)
      | None \<Rightarrow>
          (let stem = (if ends_with ''.img.zip'' name then chop ''.img.zip'' name
                       else if ends_with ''.zip'' name then chop ''.zip'' name
                       else chop ''.img'' name) in
           if \<not> starts_with ''chr-'' stem then (None, None)
           else (let v = drop 4 stem in
                 if ends_with ''-arm64'' v \<and> isValidVersion (chop ''-arm64'' v) then (Some (chop ''-arm64'' v), Some ARM64)
                 else if isValidVersion v then (Some v, Some X86) else (None, None))))"

section \<open>What machines still need\<close>

definition machine_pins :: "machine_state \<Rightarrow> string list" where
  "machine_pins m =
     (if ms_version m = [] then []
      else [chrImageBasename (ms_version m) (ms_arch m) @ ''.img'', chrImageBasename (ms_version m) (ms_arch m) @ ''.img.zip'']
        @ (if (mo_installAllPackages m = Some True \<or> ms_packages m \<noteq> []) \<and> mo_provisioning m = None
           then [''packages-'' @ arch_str (ms_arch m) @ ''-'' @ ms_version m] else []))"

definition inUseSet :: "datadir \<Rightarrow> string list" where
  "inUseSet d = concat (map machine_pins (loadAllMachines d))"

section \<open>The inventory\<close>

datatype cache_entry_kind = Image | ImageZip | Packages | Partial

text \<open>\<open>ce_paths\<close> are names in the cache directory; the main path of an entry is its \<open>ce_basename\<close>.\<close>

record cache_entry =
  ce_paths :: "string list"
  ce_basename :: string
  ce_kind :: cache_entry_kind
  ce_version :: "string option"
  ce_arch :: "arch option"
  ce_sizeBytes :: nat
  ce_mtimeMs :: rat
  ce_inUse :: bool

record cache_file =
  cf_name :: string
  cf_isDirectory :: bool
  cf_isFile :: bool
  cf_size :: nat
  cf_mtimeMs :: rat

definition RECENT_USE_MS :: rat where
  "RECENT_USE_MS = 30 * 60 * 1000"

definition isManagedDownloadTarget :: "string \<Rightarrow> bool" where
  "isManagedDownloadTarget name =
     (if ends_with ''.img.zip'' name then fst (parseCacheBasename name) \<noteq> None
      else (let v = (\<lambda>p. chop ''.zip'' (drop (length p) name)) in
            ends_with ''.zip'' name
            \<and> (starts_with ''all_packages-x86-'' name \<and> isValidVersion (v ''all_packages-x86-'')
               \<or> starts_with ''all_packages-arm64-'' name \<and> isValidVersion (v ''all_packages-arm64-''))))"

definition is_hex :: "char \<Rightarrow> bool" where
  "is_hex c \<longleftrightarrow> is_digit c \<or> c \<in> set ''abcdef''"

text \<open>\<open>(.+).(digits)-(hex digits).part\<close>: the greedy group takes all but the last dotted part.\<close>

definition part_match :: "string \<Rightarrow> (string \<times> string) option" where
  "part_match name =
     (let body = chop ''.part'' name in
      if \<not> ends_with ''.part'' name then None
      else (case last_index_of CHR ''.'' body of
              None \<Rightarrow> None
            | Some i \<Rightarrow>
                (let target = take i body; tail = drop (Suc i) body in
                 case index_of CHR ''-'' tail of
                   None \<Rightarrow> None
                 | Some j \<Rightarrow>
                     (let pid = take j tail; hx = drop (Suc j) tail in
                      if target \<noteq> [] \<and> dot_chars target \<and> all_digits pid \<and> hx \<noteq> [] \<and> list_all is_hex hx
                      then Some (target, pid) else None))))"

definition package_key :: "arch \<Rightarrow> string \<Rightarrow> string" where
  "package_key a v = ''packages-'' @ arch_str a @ ''-'' @ v"

definition package_artifact :: "cache_file \<Rightarrow> (arch \<times> string) option" where
  "package_artifact f =
     (case packages_match (cf_name f) of
        None \<Rightarrow> None
      | Some (al, a, v, zipped) \<Rightarrow>
          if isValidVersion v \<and> (if al \<and> zipped then cf_isFile f else \<not> al \<and> \<not> zipped \<and> cf_isDirectory f)
          then Some (a, v) else None)"

definition join_group :: "cache_file \<Rightarrow> cache_entry \<Rightarrow> cache_entry" where
  "join_group f e = e\<lparr>ce_paths := ce_paths e @ [cf_name f], ce_sizeBytes := ce_sizeBytes e + cf_size f,
     ce_mtimeMs := max (ce_mtimeMs e) (cf_mtimeMs f)\<rparr>"

definition new_group :: "string list \<Rightarrow> cache_file \<Rightarrow> string \<Rightarrow> cache_entry" where
  "new_group used f key =
     \<lparr>ce_paths = [cf_name f], ce_basename = key, ce_kind = Packages, ce_version = fst (parseCacheBasename key),
      ce_arch = snd (parseCacheBasename key), ce_sizeBytes = cf_size f, ce_mtimeMs = cf_mtimeMs f,
      ce_inUse = (key \<in> set used)\<rparr>"

definition plain_entry :: "cache_file \<Rightarrow> cache_entry_kind \<Rightarrow> string \<Rightarrow> bool \<Rightarrow> cache_entry" where
  "plain_entry f kind parsed inUse =
     \<lparr>ce_paths = [cf_name f], ce_basename = cf_name f, ce_kind = kind, ce_version = fst (parseCacheBasename parsed),
      ce_arch = snd (parseCacheBasename parsed), ce_sizeBytes = cf_size f, ce_mtimeMs = cf_mtimeMs f, ce_inUse = inUse\<rparr>"

definition partial_entry :: "(nat \<Rightarrow> bool) \<Rightarrow> rat \<Rightarrow> cache_file \<Rightarrow> cache_entry option" where
  "partial_entry alive now f =
     (let extraction = cf_isDirectory f
            \<and> (starts_with ''.quickchr-image-'' (cf_name f) \<or> starts_with ''.quickchr-packages-'' (cf_name f)) in
      case part_match (cf_name f) of
        Some (target, pid) \<Rightarrow>
          if isManagedDownloadTarget target \<or> extraction
          then Some (plain_entry f Partial target (alive (read_nat pid))) else None
      | None \<Rightarrow>
          if extraction then Some (plain_entry f Partial (cf_name f) (now - cf_mtimeMs f < RECENT_USE_MS)) else None)"

definition image_kind :: "cache_file \<Rightarrow> cache_entry_kind option" where
  "image_kind f =
     (if \<not> cf_isFile f then None
      else if ends_with ''.img.zip'' (cf_name f) then Some ImageZip
      else if ends_with ''.img'' (cf_name f) then Some Image else None)"

text \<open>The entries so far, the package groups in the order they appear, and the unmanaged bytes.\<close>

record inventory_state =
  iv_entries :: "cache_entry list"
  iv_groups :: "(string \<times> cache_entry) list"
  iv_unmanagedBytes :: nat

definition inventory_step ::
    "(nat \<Rightarrow> bool) \<Rightarrow> rat \<Rightarrow> string list \<Rightarrow> cache_file \<Rightarrow> inventory_state \<Rightarrow> inventory_state" where
  "inventory_step alive now used f st =
     (case package_artifact f of
        Some (a, v) \<Rightarrow>
          (let key = package_key a v in
           st\<lparr>iv_groups := al_put key (case al_get (iv_groups st) key of Some e \<Rightarrow> join_group f e | None \<Rightarrow> new_group used f key)
                (iv_groups st)\<rparr>)
      | None \<Rightarrow>
         (case partial_entry alive now f of
            Some e \<Rightarrow> st\<lparr>iv_entries := iv_entries st @ [e]\<rparr>
          | None \<Rightarrow>
             (case image_kind f of
                Some k \<Rightarrow>
                  if fst (parseCacheBasename (cf_name f)) = None
                  then st\<lparr>iv_unmanagedBytes := iv_unmanagedBytes st + cf_size f\<rparr>
                  else st\<lparr>iv_entries := iv_entries st @ [plain_entry f k (cf_name f) (cf_name f \<in> set used)]\<rparr>
              | None \<Rightarrow> st\<lparr>iv_unmanagedBytes := iv_unmanagedBytes st + cf_size f\<rparr>)))"

definition cacheInventory ::
    "(nat \<Rightarrow> bool) \<Rightarrow> rat \<Rightarrow> string list \<Rightarrow> string list \<Rightarrow> cache_file list option \<Rightarrow> cache_entry list \<times> nat" where
  "cacheInventory alive now inUse pins dir =
     (case dir of
        None \<Rightarrow> ([], 0)
      | Some files \<Rightarrow>
          (let st = fold (inventory_step alive now (inUse @ pins)) files
                      \<lparr>iv_entries = [], iv_groups = [], iv_unmanagedBytes = 0\<rparr> in
           (iv_entries st @ map snd (iv_groups st), iv_unmanagedBytes st)))"

section \<open>Pruning\<close>

definition compareVersionsSafe :: "string option \<Rightarrow> string option \<Rightarrow> int" where
  "compareVersionsSafe a b =
     (if a = b then 0
      else (case a of None \<Rightarrow> -1
            | Some x \<Rightarrow> (case b of None \<Rightarrow> 1
               | Some y \<Rightarrow> (case compareRouterOsVersion x y of Inr c \<Rightarrow> c | Inl _ \<Rightarrow> 0))))"

record prune_options =
  po_maxSizeBytes :: "nat option"
  po_maxAgeMs :: "rat option"
  po_olderThan :: "string option"
  po_protectVersions :: "string option list"
  po_reclaimBytes :: "int option"
  po_skipRecentMs :: "rat option"
  po_skipEntries :: "string list"
  po_dryRun :: bool

datatype prune_reason =
    InProgress | InUse | ProtectedVersion "string option" | Skipped | UsedRecently
  | VersionBelow "string option" string | TooOld | SizeCap nat | ReclaimedForSpace | DeleteFailed string | Kept

record prune_result =
  pu_evicted :: "cache_entry list"
  pu_kept :: "cache_entry list"
  pu_failed :: "(cache_entry \<times> string) list"
  pu_reasons :: "(string \<times> prune_reason) list"

definition total_size :: "cache_entry list \<Rightarrow> nat" where
  "total_size es = sum_list (map ce_sizeBytes es)"

definition freedBytes :: "'a prune_result_scheme \<Rightarrow> nat" where
  "freedBytes r = total_size (pu_evicted r)"

text \<open>Why an entry is left alone, if it is.\<close>

definition protection :: "prune_options \<Rightarrow> rat \<Rightarrow> cache_entry \<Rightarrow> prune_reason option" where
  "protection opts now e =
     (if ce_inUse e then Some (if ce_kind e = Partial then InProgress else InUse)
      else if ce_version e \<in> set (po_protectVersions opts) then Some (ProtectedVersion (ce_version e))
      else if ce_basename e \<in> set (po_skipEntries opts) then Some Skipped
      else (case po_skipRecentMs opts of
              Some w \<Rightarrow> if now - ce_mtimeMs e < w then Some UsedRecently else None
            | None \<Rightarrow> None))"

definition candidate_cmp :: "cache_entry \<Rightarrow> cache_entry \<Rightarrow> rat" where
  "candidate_cmp a b =
     (let partial = (if ce_kind b = Partial then 1 else 0) - (if ce_kind a = Partial then 1 else 0) :: rat;
          v = compareVersionsSafe (ce_version a) (ce_version b) in
      if partial \<noteq> 0 then partial else if v \<noteq> 0 then of_int v else ce_mtimeMs a - ce_mtimeMs b)"

text \<open>\<open>Array.sort\<close> with a comparator is a stable sort.\<close>

fun insert_by :: "('a \<Rightarrow> 'a \<Rightarrow> rat) \<Rightarrow> 'a \<Rightarrow> 'a list \<Rightarrow> 'a list" where
  "insert_by cmp x [] = [x]"
| "insert_by cmp x (y # ys) = (if cmp x y \<le> 0 then x # y # ys else y # insert_by cmp x ys)"

definition sort_by :: "('a \<Rightarrow> 'a \<Rightarrow> rat) \<Rightarrow> 'a list \<Rightarrow> 'a list" where
  "sort_by cmp xs = foldr (insert_by cmp) xs []"

text \<open>\<open>evict\<close>: \<open>del\<close> is the message of a failing delete.\<close>

definition set_reason :: "cache_entry \<Rightarrow> prune_reason \<Rightarrow> prune_result \<Rightarrow> prune_result" where
  "set_reason e why st = st\<lparr>pu_reasons := al_put (ce_basename e) why (pu_reasons st)\<rparr>"

definition evict ::
    "bool \<Rightarrow> (cache_entry \<Rightarrow> string option) \<Rightarrow> prune_reason \<Rightarrow> cache_entry \<Rightarrow> prune_result \<Rightarrow> bool \<times> prune_result" where
  "evict dryRun del why e st =
     (case (if dryRun then None else del e) of
        Some msg \<Rightarrow> (False, set_reason e (DeleteFailed msg) (st\<lparr>pu_failed := pu_failed st @ [(e, msg)]\<rparr>))
      | None \<Rightarrow> (True, set_reason e why (st\<lparr>pu_evicted := pu_evicted st @ [e]\<rparr>)))"

text \<open>The two passes that evict every entry with a property.\<close>

fun evict_where ::
    "(prune_reason \<Rightarrow> cache_entry \<Rightarrow> prune_result \<Rightarrow> bool \<times> prune_result) \<Rightarrow> (cache_entry \<Rightarrow> prune_reason option)
       \<Rightarrow> cache_entry list \<Rightarrow> prune_result \<Rightarrow> cache_entry list \<times> prune_result" where
  "evict_where ev p [] st = ([], st)"
| "evict_where ev p (e # es) st =
     (case p e of
        Some why \<Rightarrow> evict_where ev p es (snd (ev why e st))
      | None \<Rightarrow> (let (rest, st') = evict_where ev p es st in (e # rest, st')))"

text \<open>The loop of the size cap, and of reclaiming.\<close>

fun cap_loop ::
    "(prune_reason \<Rightarrow> cache_entry \<Rightarrow> prune_result \<Rightarrow> bool \<times> prune_result) \<Rightarrow> nat \<Rightarrow> int
       \<Rightarrow> cache_entry list \<Rightarrow> prune_result \<Rightarrow> cache_entry list \<times> prune_result" where
  "cap_loop ev cap tot [] st = ([], st)"
| "cap_loop ev cap tot (v # vs) st =
     (if tot > int cap then
        (case ev (SizeCap cap) v st of
           (gone, st') \<Rightarrow> cap_loop ev cap (if gone then tot - int (ce_sizeBytes v) else tot) vs st')
      else (v # vs, st))"

fun reclaim_loop ::
    "(prune_reason \<Rightarrow> cache_entry \<Rightarrow> prune_result \<Rightarrow> bool \<times> prune_result) \<Rightarrow> int
       \<Rightarrow> cache_entry list \<Rightarrow> prune_result \<Rightarrow> cache_entry list \<times> prune_result" where
  "reclaim_loop ev target [] st = ([], st)"
| "reclaim_loop ev target (v # vs) st =
     (if int (total_size (pu_evicted st)) < target then reclaim_loop ev target vs (snd (ev ReclaimedForSpace v st))
      else (v # vs, st))"

definition below_version :: "prune_options \<Rightarrow> cache_entry \<Rightarrow> prune_reason option" where
  "below_version opts e =
     (case po_olderThan opts of
        None \<Rightarrow> None
      | Some t \<Rightarrow> if t \<noteq> [] \<and> ce_version e \<noteq> None \<and> compareVersionsSafe (ce_version e) (Some t) < 0
                  then Some (VersionBelow (ce_version e) t) else None)"

definition too_aged :: "prune_options \<Rightarrow> rat \<Rightarrow> cache_entry \<Rightarrow> prune_reason option" where
  "too_aged opts now e =
     (case po_maxAgeMs opts of None \<Rightarrow> None | Some a \<Rightarrow> if now - ce_mtimeMs e > a then Some TooOld else None)"

definition keep_reasons :: "cache_entry list \<Rightarrow> prune_result \<Rightarrow> prune_result" where
  "keep_reasons es st = fold (\<lambda>e s. if al_get (pu_reasons s) (ce_basename e) = None then set_reason e Kept s else s) es st"

definition protected_reasons :: "prune_options \<Rightarrow> rat \<Rightarrow> cache_entry list \<Rightarrow> (string \<times> prune_reason) list" where
  "protected_reasons opts now entries =
     fold (\<lambda>e rs. case protection opts now e of Some why \<Rightarrow> al_put (ce_basename e) why rs | None \<Rightarrow> rs) entries []"

definition prune_entries ::
    "(cache_entry \<Rightarrow> string option) \<Rightarrow> rat \<Rightarrow> prune_options \<Rightarrow> cache_entry list \<Rightarrow> prune_result" where
  "prune_entries del now opts entries =
     (let protectedEntries = filter (\<lambda>e. protection opts now e \<noteq> None) entries;
          candidates = sort_by candidate_cmp (filter (\<lambda>e. protection opts now e = None) entries);
          ev = evict (po_dryRun opts) del;
          st0 = \<lparr>pu_evicted = [], pu_kept = [], pu_failed = [], pu_reasons = protected_reasons opts now entries\<rparr>;
          (remaining, st1) = evict_where ev (below_version opts) candidates st0;
          (keptSoFar, st2) = evict_where ev (too_aged opts now) remaining st1;
          (kept3, st3) = (case po_maxSizeBytes opts of
             None \<Rightarrow> (keptSoFar, st2)
           | Some cap \<Rightarrow> cap_loop ev cap
               (int (total_size protectedEntries + total_size keptSoFar + total_size (map fst (pu_failed st2)))) keptSoFar st2);
          (kept4, st4) = (case po_reclaimBytes opts of None \<Rightarrow> (kept3, st3) | Some target \<Rightarrow> reclaim_loop ev target kept3 st3) in
      (keep_reasons kept4 st4)\<lparr>pu_kept := protectedEntries @ kept4\<rparr>)"

text \<open>The options of the automatic prune after a boot.\<close>

definition auto_options :: "nat \<Rightarrow> string option list \<Rightarrow> prune_options" where
  "auto_options cap protect =
     \<lparr>po_maxSizeBytes = Some cap, po_maxAgeMs = None, po_olderThan = None, po_protectVersions = protect,
      po_reclaimBytes = None, po_skipRecentMs = Some RECENT_USE_MS, po_skipEntries = [], po_dryRun = False\<rparr>"

definition autoPruneIfOverCap ::
    "(cache_entry \<Rightarrow> string option) \<Rightarrow> rat \<Rightarrow> nat option \<Rightarrow> string option list \<Rightarrow> cache_entry list \<Rightarrow> prune_result" where
  "autoPruneIfOverCap del now maxSize protect entries =
     (let cap = (case maxSize of Some c \<Rightarrow> c | None \<Rightarrow> DEFAULT_CACHE_MAX_BYTES) in
      if total_size entries \<le> cap then \<lparr>pu_evicted = [], pu_kept = entries, pu_failed = [], pu_reasons = []\<rparr>
      else prune_entries del now (auto_options cap protect) entries)"

definition describePrune :: "prune_result \<Rightarrow> string list" where
  "describePrune r =
     (if pu_evicted r \<noteq> []
      then [''cache: evicted '' @ join '', '' (map ce_basename (pu_evicted r)) @ '' - freed '' @ formatSizeBytes (freedBytes r)]
      else [])
     @ map (\<lambda>(e, msg). ''cache: could not delete '' @ ce_basename e @ '': '' @ msg) (pu_failed r)"

end
