(* ===== verification/Storage_Lease.thy ===== *)
theory Storage_Lease
  imports Cache_Policy
begin

text \<open>
  The leases of \<open>storage-lease.ts\<close>: files under \<open>.storage-leases\<close> in which an operation names the
  cache entries it reads and the bytes it is about to write, the short wait for the storage lock
  they are used under, and the filesystem a path is on. Also \<open>rename.ts\<close>, by which a lease is
  published.
\<close>

section \<open>Publishing by rename\<close>

datatype rename_outcome = Renamed | RenameError "string option"

definition RETRY_DELAYS_MS :: "nat list" where
  "RETRY_DELAYS_MS = [25, 50, 100, 200, 400, 800]"

definition transient_code :: "string option \<Rightarrow> bool" where
  "transient_code c \<longleftrightarrow> c \<in> {Some ''EPERM'', Some ''EACCES'', Some ''EBUSY''}"

text \<open>\<open>rename k\<close> is what the \<open>k\<close>th attempt does; the second component lists the sleeps.\<close>

fun rename_retry :: "(nat \<Rightarrow> rename_outcome) \<Rightarrow> nat \<Rightarrow> nat list \<Rightarrow> rename_outcome \<times> nat list" where
  "rename_retry rename k [] = (rename k, [])"
| "rename_retry rename k (d # ds) =
     (case rename k of
        Renamed \<Rightarrow> (Renamed, [])
      | RenameError c \<Rightarrow>
          (if \<not> transient_code c then (RenameError c, [])
           else (case rename_retry rename (Suc k) ds of (r, sleeps) \<Rightarrow> (r, d # sleeps))))"

definition renameWithRetry :: "platform \<Rightarrow> (nat \<Rightarrow> rename_outcome) \<Rightarrow> rename_outcome \<times> nat list" where
  "renameWithRetry plat rename =
     (if plat \<noteq> Win32 then (rename 0, []) else rename_retry rename 0 RETRY_DELAYS_MS)"

section \<open>The storage lock\<close>

text \<open>One attempt of \<open>acquireLockNow\<close>: the lock, or the error it throws. \<open>clock k\<close> is the time after
  the \<open>k\<close>th attempt. The loop has no bound of its own: it ends because the clock runs.\<close>

datatype lock_attempt = LockTaken | LockRefused qerror

definition LOCK_WAIT_MS :: rat where "LOCK_WAIT_MS = 30000"
definition LOCK_POLL_MS :: rat where "LOCK_POLL_MS = 25"

partial_function (option) lock_wait ::
    "(nat \<Rightarrow> lock_attempt) \<Rightarrow> (nat \<Rightarrow> rat) \<Rightarrow> rat \<Rightarrow> nat \<Rightarrow> unit result option" where
  "lock_wait attempt clock deadline k =
     (case attempt k of
        LockTaken \<Rightarrow> Some (Inr ())
      | LockRefused e \<Rightarrow>
          (if err_code e \<noteq> MACHINE_LOCKED \<or> clock k \<ge> deadline then Some (Inl e)
           else lock_wait attempt clock deadline (Suc k)))"

definition withStorageLock ::
    "(nat \<Rightarrow> lock_attempt) \<Rightarrow> (nat \<Rightarrow> rat) \<Rightarrow> rat \<Rightarrow> 'a result \<Rightarrow> 'a result option" where
  "withStorageLock attempt clock start body =
     (case lock_wait attempt clock (start + LOCK_WAIT_MS) 0 of
        None \<Rightarrow> None
      | Some (Inl e) \<Rightarrow> Some (Inl e)
      | Some (Inr ()) \<Rightarrow> Some body)"

section \<open>Leases\<close>

record reservation =
  sr_dev :: nat
  sr_bytes :: nat

record lease_record =
  le_pid :: nat
  le_at :: string
  le_action :: string
  le_pins :: "string list"
  le_reservations :: "reservation list"

text \<open>The lease directory: the content of each file, \<open>None\<close> when it does not parse, in the order
  \<open>readdir\<close> gives; \<open>None\<close> for a directory that is not there.\<close>

type_synonym lease_dir = "(string \<times> lease_record option) list option"

definition lease_files :: "lease_dir \<Rightarrow> (string \<times> lease_record option) list" where
  "lease_files dir = (case dir of None \<Rightarrow> [] | Some fs \<Rightarrow> fs)"

definition isPidAlive :: "(nat \<Rightarrow> kill_result) \<Rightarrow> nat \<Rightarrow> bool" where
  "isPidAlive kill pid \<longleftrightarrow> (case kill pid of KillOk \<Rightarrow> True | KillEperm \<Rightarrow> True | KillGone \<Rightarrow> False)"

definition live_lease :: "(nat \<Rightarrow> kill_result) \<Rightarrow> string \<times> lease_record option \<Rightarrow> lease_record option" where
  "live_lease kill f =
     (case f of (name, content) \<Rightarrow>
        if \<not> ends_with ''.json'' name then None
        else (case content of
                None \<Rightarrow> None
              | Some r \<Rightarrow> if isPidAlive kill (le_pid r) then Some r else None))"

definition liveLeases :: "(nat \<Rightarrow> kill_result) \<Rightarrow> lease_dir \<Rightarrow> lease_record list \<times> lease_dir" where
  "liveLeases kill dir =
     (case dir of
        None \<Rightarrow> ([], None)
      | Some fs \<Rightarrow>
          (List.map_filter (live_lease kill) fs,
           Some (filter (\<lambda>f. \<not> ends_with ''.json'' (fst f) \<or> live_lease kill f \<noteq> None) fs)))"

definition pinnedEntries :: "(nat \<Rightarrow> kill_result) \<Rightarrow> lease_dir \<Rightarrow> string list" where
  "pinnedEntries kill dir = concat (map le_pins (List.map_filter (live_lease kill) (lease_files dir)))"

text \<open>The handle of a lease: an operation with nothing to record gets one without a file.\<close>

record storage_lease =
  sl_record :: lease_record
  sl_file :: "string option"
  sl_released :: bool

definition lease_name :: "nat \<Rightarrow> string \<Rightarrow> string" where
  "lease_name self uuid = show_nat self @ ''-'' @ uuid @ ''.json''"

definition createLease ::
    "nat \<Rightarrow> string \<Rightarrow> string \<Rightarrow> string \<Rightarrow> string list \<Rightarrow> reservation list \<Rightarrow> lease_dir \<Rightarrow> storage_lease \<times> lease_dir" where
  "createLease self uuid now action pins resv dir =
     (let r = \<lparr>le_pid = self, le_at = now, le_action = action, le_pins = pins, le_reservations = resv\<rparr> in
      (\<lparr>sl_record = r, sl_file = Some (lease_name self uuid), sl_released = False\<rparr>,
       Some (al_put (lease_name self uuid) (Some r) (lease_files dir))))"

definition releaseLease :: "storage_lease \<Rightarrow> lease_dir \<Rightarrow> storage_lease \<times> lease_dir" where
  "releaseLease l dir =
     (if sl_released l then (l, dir)
      else (case sl_file l of
              None \<Rightarrow> (l, dir)
            | Some f \<Rightarrow> (l\<lparr>sl_released := True\<rparr>, map_option (al_del f) dir)))"

text \<open>\<open>pinCacheEntries\<close> is a lease with no reservation.\<close>

definition pinCacheEntries ::
    "nat \<Rightarrow> string \<Rightarrow> string \<Rightarrow> string \<Rightarrow> string list \<Rightarrow> lease_dir \<Rightarrow> storage_lease \<times> lease_dir" where
  "pinCacheEntries self uuid now action pins = createLease self uuid now action pins []"

section \<open>The filesystem of a path\<close>

text \<open>\<open>path.dirname\<close> on POSIX: trailing slashes are skipped, then the last segment is dropped.\<close>

definition dirname :: "string \<Rightarrow> string" where
  "dirname p =
     (if p = [] then ''.''
      else (let hasRoot = (hd p = CHR ''/'');
                rest = dropWhile (\<lambda>c. c \<noteq> CHR ''/'') (dropWhile (\<lambda>c. c = CHR ''/'') (rev (tl p))) in
            if rest = [] then (if hasRoot then ''/'' else ''.'')
            else if hasRoot \<and> length rest = 1 then ''//''
            else hd p # rev (tl rest)))"

text \<open>What \<open>stat\<close> answers: the device of every path that exists; the working directory always does, and the
  empty path never.\<close>

record mount_table =
  mt_cwd :: nat
  mt_stat :: "string \<Rightarrow> nat option"

definition stat_dev :: "mount_table \<Rightarrow> string \<Rightarrow> nat option" where
  "stat_dev m p = (if p = [] then None else if p = ''.'' then Some (mt_cwd m) else mt_stat m p)"

lemma dropWhile_less: "xs \<noteq> [] \<Longrightarrow> P (hd xs) \<Longrightarrow> length (dropWhile P xs) < length xs"
  by (cases xs) (simp_all add: le_imp_less_Suc length_dropWhile_le)

lemma dirname_shorter:
  assumes "dirname p \<noteq> p" and "dirname p \<noteq> ''.''"
  shows "length (dirname p) < length p"
proof -
  obtain q where q: "q = dropWhile (\<lambda>c. c = CHR ''/'') (rev (tl p))" by blast
  obtain r where r: "r = dropWhile (\<lambda>c. c \<noteq> CHR ''/'') q" by blast
  have dir: "dirname p = (if p = [] then ''.'' else if r = [] then (if hd p = CHR ''/'' then ''/'' else ''.'')
      else if hd p = CHR ''/'' \<and> length r = 1 then ''//'' else hd p # rev (tl r))"
    unfolding dirname_def Let_def q r ..
  have p: "p \<noteq> []" using assms(2) dir by auto
  have qp: "length q \<le> length p - 1" unfolding q using length_dropWhile_le [of _ "rev (tl p)"] by simp
  show ?thesis
  proof (cases "r = []")
    case True
    then have d: "dirname p = ''/''" "hd p = CHR ''/''" using p assms(2) dir by (auto split: if_splits)
    then have "tl p \<noteq> []" using assms(1) p by (metis list.collapse)
    then show ?thesis using d by (cases p) auto
  next
    case False
    then have "q \<noteq> []" using r by auto
    moreover then have "hd q \<noteq> CHR ''/''" unfolding q using hd_dropWhile by blast
    ultimately have "length r < length q" unfolding r by (rule dropWhile_less)
    then show ?thesis using p False qp dir by (auto split: if_splits)
  qed
qed

function filesystem_from :: "mount_table \<Rightarrow> string \<Rightarrow> nat \<times> string" where
  "filesystem_from m current =
     (case stat_dev m current of
        Some dev \<Rightarrow> (dev, current)
      | None \<Rightarrow> (let parent = dirname current in
          if parent = current then (mt_cwd m, ''.'') else filesystem_from m parent))"
  by pat_completeness auto

termination
proof (relation "measure (\<lambda>(_, p). if p = ''.'' then 0 else Suc (length p))", goal_cases)
  case (2 m current parent)
  then have "current \<noteq> ''.''" by (auto simp: stat_dev_def)
  then show ?case using 2 dirname_shorter [of current] by auto
qed simp

declare filesystem_from.simps [simp del]

definition filesystemOf :: "mount_table \<Rightarrow> string \<Rightarrow> nat \<times> string" where
  "filesystemOf m path = filesystem_from m (if path = [] then ''.'' else path)"

section \<open>What the pieces guarantee\<close>

lemma rename_retry_result:
  "\<exists>n. rename_retry rename k ds = (rename (k + n), take n ds) \<and> n \<le> length ds
     \<and> list_all (\<lambda>i. \<exists>c. rename i = RenameError c \<and> transient_code c) [k..<k + n]
     \<and> (n = length ds \<or> (\<forall>c. rename (k + n) = RenameError c \<longrightarrow> \<not> transient_code c))"
proof (induction ds arbitrary: k)
  case (Cons d ds)
  show ?case
  proof (cases "\<exists>c. rename k = RenameError c \<and> transient_code c")
    case True
    then obtain c where c: "rename k = RenameError c" "transient_code c" by blast
    obtain n where n: "rename_retry rename (Suc k) ds = (rename (Suc k + n), take n ds)" "n \<le> length ds"
        "list_all (\<lambda>i. \<exists>c. rename i = RenameError c \<and> transient_code c) [Suc k..<Suc k + n]"
        "n = length ds \<or> (\<forall>c. rename (Suc k + n) = RenameError c \<longrightarrow> \<not> transient_code c)"
      using Cons.IH by blast
    have "[k..<k + Suc n] = k # [Suc k..<Suc k + n]" by (simp add: upt_rec)
    with n c show ?thesis by (intro exI [of _ "Suc n"]) simp
  next
    case False
    then show ?thesis by (intro exI [of _ 0]) (auto split: rename_outcome.splits)
  qed
qed simp

text \<open>The lock wait ends within 1,201 attempts when each one takes its sleep of 25 ms.\<close>

lemma lock_wait_step:
  "attempt k = LockRefused e \<Longrightarrow> err_code e = MACHINE_LOCKED \<Longrightarrow> clock k < deadline \<Longrightarrow>
     lock_wait attempt clock deadline k = lock_wait attempt clock deadline (Suc k)"
  by (subst lock_wait.simps) simp

lemma lock_wait_stop:
  "(case attempt k of LockTaken \<Rightarrow> True | LockRefused e \<Rightarrow> err_code e \<noteq> MACHINE_LOCKED \<or> clock k \<ge> deadline) \<Longrightarrow>
     lock_wait attempt clock deadline k
       = Some (case attempt k of LockTaken \<Rightarrow> Inr () | LockRefused e \<Rightarrow> Inl e)"
  by (subst lock_wait.simps) (auto split: lock_attempt.splits)

lemma lock_wait_returns:
  assumes "clock n \<ge> deadline" and "k \<le> n"
  shows "\<exists>j. k \<le> j \<and> j \<le> n
    \<and> lock_wait attempt clock deadline k = Some (case attempt j of LockTaken \<Rightarrow> Inr () | LockRefused e \<Rightarrow> Inl e)
    \<and> (case attempt j of LockTaken \<Rightarrow> True | LockRefused e \<Rightarrow> err_code e \<noteq> MACHINE_LOCKED \<or> clock j \<ge> deadline)"
  using assms(2)
proof (induction rule: inc_induct)
  case base
  then show ?case using assms(1) lock_wait_stop [where attempt = attempt and k = n and clock = clock and deadline = deadline]
    by (intro exI [of _ n]) (simp split: lock_attempt.splits)
next
  case (step k)
  show ?case
  proof (cases "case attempt k of LockTaken \<Rightarrow> True | LockRefused e \<Rightarrow> err_code e \<noteq> MACHINE_LOCKED \<or> clock k \<ge> deadline")
    case True
    with step(1,2) lock_wait_stop [where attempt = attempt and k = k and clock = clock and deadline = deadline] show ?thesis
      by (intro exI [of _ k]) simp
  next
    case False
    then obtain e where "attempt k = LockRefused e" "err_code e = MACHINE_LOCKED" "clock k < deadline"
      by (cases "attempt k") (auto simp: not_le)
    with step(3) show ?thesis by (metis Suc_leD lock_wait_step)
  qed
qed

section \<open>A directory of leases\<close>

text \<open>What admission relies on: a lease it records is live from then on, a lease that is released is
  not, and neither changes another one.\<close>

definition reserved_by :: "nat \<Rightarrow> lease_record \<Rightarrow> nat" where
  "reserved_by dev l = sum_list (map sr_bytes (filter (\<lambda>r. sr_dev r = dev) (le_reservations l)))"

definition held_bytes :: "nat \<Rightarrow> lease_record list \<Rightarrow> nat" where
  "held_bytes dev leases = sum_list (map (reserved_by dev) leases)"

lemma held_bytes_simps [simp]:
  "held_bytes dev [] = 0"
  "held_bytes dev (r # rs) = reserved_by dev r + held_bytes dev rs"
  "held_bytes dev (rs @ ts) = held_bytes dev rs + held_bytes dev ts"
  by (simp_all add: held_bytes_def)

text \<open>The live lease files, and what their operations may still write to a device when \<open>w\<close> is what each
  of them has written.\<close>

definition live_files :: "(nat \<Rightarrow> kill_result) \<Rightarrow> lease_dir \<Rightarrow> (string \<times> lease_record) list" where
  "live_files kill dir = List.map_filter (\<lambda>f. map_option (Pair (fst f)) (live_lease kill f)) (lease_files dir)"

definition outstanding :: "(string \<Rightarrow> nat \<Rightarrow> nat) \<Rightarrow> nat \<Rightarrow> (string \<times> lease_record) list \<Rightarrow> nat" where
  "outstanding w dev ls = sum_list (map (\<lambda>(n, l). reserved_by dev l - w n dev) ls)"

lemma outstanding_simps [simp]:
  "outstanding w dev [] = 0"
  "outstanding w dev ((n, l) # ls) = (reserved_by dev l - w n dev) + outstanding w dev ls"
  "outstanding w dev (ls @ ks) = outstanding w dev ls + outstanding w dev ks"
  by (simp_all add: outstanding_def)

lemma outstanding_held: "outstanding w dev ls \<le> held_bytes dev (map snd ls)"
  by (induction ls) (auto intro: add_mono)

lemma outstanding_filter: "outstanding w dev (filter P ls) \<le> outstanding w dev ls"
  by (induction ls) auto

lemma outstanding_frame: "list_all (\<lambda>(n, l). w' n dev = w n dev) ls \<Longrightarrow> outstanding w' dev ls = outstanding w dev ls"
  by (induction ls) auto

locale lease_store =
  fixes live :: "'s \<Rightarrow> (string \<times> lease_record) list"
    and add :: "string \<Rightarrow> lease_record \<Rightarrow> 's \<Rightarrow> 's"
    and release :: "string \<Rightarrow> 's \<Rightarrow> 's"
    and sweep :: "'s \<Rightarrow> 's"
    and usable :: "string \<Rightarrow> lease_record \<Rightarrow> 's \<Rightarrow> bool"
  assumes live_add: "usable n l s \<Longrightarrow> live (add n l s) = live s @ [(n, l)]"
    and live_release: "live (release n s) = filter (\<lambda>f. fst f \<noteq> n) (live s)"
    and live_sweep: "live (sweep s) = live s"
begin

lemma outstanding_add:
  "usable n l s \<Longrightarrow> outstanding w dev (live (add n l s)) = outstanding w dev (live s) + (reserved_by dev l - w n dev)"
  by (simp add: live_add)

lemma outstanding_release: "outstanding w dev (live (release n s)) \<le> outstanding w dev (live s)"
  by (simp add: live_release outstanding_filter)

lemma released_not_live: "n \<notin> fst ` set (live (release n s))"
  by (auto simp: live_release)

lemma admit_covers:
  assumes "usable n l (sweep s)" and "int (held_bytes dev (map snd (live s))) + int (reserved_by dev l) + r \<le> free"
  shows "int (outstanding w dev (live (add n l (sweep s)))) + r \<le> free"
  using assms outstanding_held [of w dev "live s"] by (simp add: outstanding_add live_sweep)

end

lemma live_files_records: "map snd (live_files kill dir) = fst (liveLeases kill dir)"
proof -
  have "map snd (List.map_filter (\<lambda>f. map_option (Pair (fst f)) (live_lease kill f)) fs) = List.map_filter (live_lease kill) fs" for fs
    by (induction fs) (auto simp: map_filter_Cons split: option.splits)
  then show ?thesis by (simp add: live_files_def liveLeases_def lease_files_def split: option.splits)
qed

definition lease_usable :: "(nat \<Rightarrow> kill_result) \<Rightarrow> string \<Rightarrow> lease_record \<Rightarrow> lease_dir \<Rightarrow> bool" where
  "lease_usable kill n l dir \<longleftrightarrow> ends_with ''.json'' n \<and> isPidAlive kill (le_pid l) \<and> n \<notin> fst ` set (lease_files dir)"

lemma al_put_fresh: "k \<notin> fst ` set xs \<Longrightarrow> al_put k v xs = xs @ [(k, v)]"
  unfolding al_put_def by (induction xs) auto

interpretation leases: lease_store "live_files kill" "\<lambda>n l dir. Some (al_put n (Some l) (lease_files dir))" "\<lambda>n. map_option (al_del n)"
    "\<lambda>dir. snd (liveLeases kill dir)" "lease_usable kill"
  for kill
proof
  fix n l dir
  show "live_files kill (Some (al_put n (Some l) (lease_files dir))) = live_files kill dir @ [(n, l)]"
    if "lease_usable kill n l dir"
    using that by (simp add: lease_usable_def live_files_def lease_files_def al_put_fresh live_lease_def map_filter_Cons)
  show "live_files kill (map_option (al_del n) dir) = filter (\<lambda>f. fst f \<noteq> n) (live_files kill dir)"
  proof -
    have "List.map_filter (\<lambda>f. map_option (Pair (fst f)) (live_lease kill f)) (al_del n fs)
      = filter (\<lambda>f. fst f \<noteq> n) (List.map_filter (\<lambda>f. map_option (Pair (fst f)) (live_lease kill f)) fs)" for fs
      unfolding al_del_def by (induction fs) (auto simp: map_filter_Cons split: option.splits)
    then show ?thesis by (simp add: live_files_def lease_files_def split: option.splits)
  qed
  show "live_files kill (snd (liveLeases kill dir)) = live_files kill dir"
  proof -
    have "List.map_filter (\<lambda>f. map_option (Pair (fst f)) (live_lease kill f))
        (filter (\<lambda>f. \<not> ends_with ''.json'' (fst f) \<or> live_lease kill f \<noteq> None) fs)
      = List.map_filter (\<lambda>f. map_option (Pair (fst f)) (live_lease kill f)) fs" for fs
      by (induction fs) (auto simp: map_filter_Cons live_lease_def split: option.splits)
    then show ?thesis by (simp add: live_files_def liveLeases_def lease_files_def split: option.splits)
  qed
qed

section \<open>Filesystems\<close>

text \<open>What a client of \<open>filesystemOf\<close> relies on: the path to measure is on the device it stands for.\<close>

locale filesystems =
  fixes fs :: "string \<Rightarrow> nat \<times> string"
  assumes stat_path: "fs (snd (fs p)) = fs p"
begin

lemma same_dev: "fst (fs (snd (fs p))) = fst (fs p)"
  by (simp add: stat_path)

end

lemma filesystem_from_exists: "stat_dev m (snd (filesystem_from m p)) = Some (fst (filesystem_from m p))"
proof (induction m p rule: filesystem_from.induct)
  case (1 m p)
  show ?case
  proof (cases "stat_dev m p")
    case None
    show ?thesis
    proof (cases "dirname p = p")
      case True
      with None show ?thesis by (simp add: filesystem_from.simps [of m p] stat_dev_def)
    next
      case False
      with None have "filesystem_from m p = filesystem_from m (dirname p)" by (simp add: filesystem_from.simps [of m p])
      with 1 None False show ?thesis by simp
    qed
  qed (simp add: filesystem_from.simps [of m p])
qed

lemma filesystem_from_found: "stat_dev m p = Some d \<Longrightarrow> filesystem_from m p = (d, p)"
  by (simp add: filesystem_from.simps [of m p])

interpretation mounts: filesystems "filesystemOf m" for m
proof
  fix p
  let ?q = "if p = [] then ''.'' else p"
  have "stat_dev m (snd (filesystem_from m ?q)) = Some (fst (filesystem_from m ?q))" by (rule filesystem_from_exists)
  moreover then have "snd (filesystem_from m ?q) \<noteq> []" by (auto simp: stat_dev_def)
  ultimately show "filesystemOf m (snd (filesystemOf m p)) = filesystemOf m p"
    unfolding filesystemOf_def by (simp add: filesystem_from_found)
qed

end
