(* ===== verification/Disk.thy ===== *)
theory Disk
  imports Cache_Policy
begin

text \<open>
  Disks of a machine (\<open>disk.ts\<close>): sizes and formats, building the boot disk under a temporary name,
  creating what a machine is still missing, and the cleanup. \<open>qemu-img\<close> is a parameter: what each
  of its commands leaves at its target, and whether it fails.
\<close>

section \<open>Sizes and options\<close>

definition isValidDiskSize :: "string \<Rightarrow> bool" where
  "isValidDiskSize sz =
     (let s = trim sz; r = dropWhile is_digit s in
      takeWhile is_digit s \<noteq> [] \<and> (r = [] \<or> (length r = 1 \<and> size_unit (hd r) \<noteq> None)))"

definition normalizeDiskSize :: "string \<Rightarrow> string result" where
  "normalizeDiskSize sz =
     (let n = to_upper (trim sz) in
      if isValidDiskSize n then Inr n else Inl (QuickCHRError INVALID_DISK_SIZE ''Invalid disk sz''))"

record disk_options =
  dk_bootSize :: "string option"
  dk_extraDisks :: "string list option"
  dk_bootDiskFormat :: boot_format

definition truthy_size :: "string option \<Rightarrow> bool" where
  "truthy_size s \<longleftrightarrow> s \<noteq> None \<and> s \<noteq> Some []"

definition implied_format :: "boot_format option \<Rightarrow> string option \<Rightarrow> boot_format" where
  "implied_format fmt bootSize =
     (case fmt of Some f \<Rightarrow> f | None \<Rightarrow> if truthy_size bootSize then Qcow2 else Raw)"

definition no_disks :: "string list option \<Rightarrow> bool" where
  "no_disks ds \<longleftrightarrow> ds = None \<or> ds = Some []"

definition normalizeDiskOptions ::
    "bool \<Rightarrow> string option \<Rightarrow> string list option \<Rightarrow> boot_format option \<Rightarrow> disk_options result" where
  "normalizeDiskOptions haveQemuImg bootSize extraDisks fmt =
     (let f = implied_format fmt bootSize in
      if f = Raw \<and> truthy_size bootSize then Inl (QuickCHRError INVALID_DISK_SIZE ''Raw boot disks cannot be resized'')
      else if f = Raw \<and> \<not> truthy_size bootSize \<and> no_disks extraDisks then
        Inr \<lparr>dk_bootSize = None, dk_extraDisks = extraDisks, dk_bootDiskFormat = f\<rparr>
      else if \<not> haveQemuImg then Inl (QuickCHRError MISSING_QEMU ''qemu-img not found'')
      else bind_result (if truthy_size bootSize then map_sum id Some (normalizeDiskSize (the bootSize)) else Inr None) (\<lambda>b.
           bind_result (if no_disks extraDisks then Inr None
                        else map_sum id Some (map_result normalizeDiskSize (the extraDisks))) (\<lambda>e.
           Inr \<lparr>dk_bootSize = b, dk_extraDisks = e, dk_bootDiskFormat = f\<rparr>)))"

definition bootDiskFormatOf :: "boot_format option \<Rightarrow> string option \<Rightarrow> boot_format" where
  "bootDiskFormatOf fmt bootSize = implied_format fmt bootSize"

definition rounded_div :: "nat \<Rightarrow> nat \<Rightarrow> nat" where
  "rounded_div num den = (2 * num + den) div (2 * den)"

definition formatDiskSize :: "int \<Rightarrow> string" where
  "formatDiskSize bytes =
     (let b = nat bytes in
      if bytes \<ge> 1024 ^ 3 then to_fixed 1 b (1024 ^ 3) @ '' GiB''
      else if bytes \<ge> 1024 ^ 2 then show_nat (rounded_div b (1024 * 1024)) @ '' MiB''
      else if bytes \<ge> 1024 then show_nat (rounded_div b 1024) @ '' KiB''
      else (if bytes < 0 then ''-'' @ show_nat (nat (- bytes)) else show_nat b) @ '' B'')"

section \<open>The directory of a machine\<close>

text \<open>The files of the machine's directory by name; an image is its format, its backing file and what
  it holds.\<close>

record disk_image =
  di_format :: string
  di_backing :: "string option"
  di_content :: string

type_synonym disk_dir = "(string \<times> disk_image) list"

text \<open>An error is one of the program's own, or what a system call threw.\<close>

datatype thrown = Coded qerror | Native string

text \<open>A command leaves an image at its target, or fails and may leave a part of one.\<close>

datatype tool_outcome = ToolOk disk_image | ToolFails "disk_image option" string

record disk_tools =
  qi_present :: bool
  qi_create :: "string \<Rightarrow> string \<Rightarrow> tool_outcome"
  qi_convert :: "disk_image \<Rightarrow> tool_outcome"
  qi_resize :: "string \<Rightarrow> disk_image \<Rightarrow> tool_outcome"
  qi_info_fails :: "disk_image \<Rightarrow> bool"
  fs_copy :: "disk_image \<Rightarrow> tool_outcome"
  fs_rename_fails :: bool

definition boot_disk_name :: "boot_format \<Rightarrow> string" where
  "boot_disk_name f = (case f of Qcow2 \<Rightarrow> ''boot.qcow2'' | Raw \<Rightarrow> ''disk.img'')"

definition bootDiskPath :: "string \<Rightarrow> boot_format \<Rightarrow> string" where
  "bootDiskPath machineDir f = machineDir @ ''/'' @ boot_disk_name f"

definition tmp_name :: "boot_format \<Rightarrow> string" where
  "tmp_name f = boot_disk_name f @ ''.tmp''"

definition extra_disk_name :: "nat \<Rightarrow> string" where
  "extra_disk_name i = ''disk'' @ show_nat (i + 1) @ ''.qcow2''"

definition tool_missing :: thrown where
  "tool_missing = Coded (QuickCHRError MISSING_QEMU ''qemu-img not found'')"

definition tool_failed :: thrown where
  "tool_failed = Coded (QuickCHRError PROCESS_FAILED ''qemu-img failed'')"

text \<open>Running a command on a target: the directory afterwards, with what the command left.\<close>

definition run_tool :: "tool_outcome \<Rightarrow> string \<Rightarrow> disk_dir \<Rightarrow> disk_image option \<times> disk_dir" where
  "run_tool out target dir =
     (case out of
        ToolOk img \<Rightarrow> (Some img, al_put target img dir)
      | ToolFails None _ \<Rightarrow> (None, dir)
      | ToolFails (Some rest) _ \<Rightarrow> (None, al_put target rest dir))"

definition createQcow2Disk :: "disk_tools \<Rightarrow> string \<Rightarrow> string \<Rightarrow> disk_dir \<Rightarrow> thrown option \<times> disk_dir" where
  "createQcow2Disk t path sz dir =
     (if \<not> qi_present t then (Some tool_missing, dir)
      else (case run_tool (qi_create t path sz) path dir of
              (None, d) \<Rightarrow> (Some tool_failed, d) | (Some _, d) \<Rightarrow> (None, d)))"

definition convertRawToQcow2 :: "disk_tools \<Rightarrow> disk_image \<Rightarrow> string \<Rightarrow> disk_dir \<Rightarrow> (thrown + disk_image) \<times> disk_dir" where
  "convertRawToQcow2 t source path dir =
     (if \<not> qi_present t then (Inl tool_missing, dir)
      else (case run_tool (qi_convert t source) path dir of
              (None, d) \<Rightarrow> (Inl tool_failed, d) | (Some img, d) \<Rightarrow> (Inr img, d)))"

definition resizeQcow2 :: "disk_tools \<Rightarrow> disk_image \<Rightarrow> string \<Rightarrow> string \<Rightarrow> disk_dir \<Rightarrow> (thrown + disk_image) \<times> disk_dir" where
  "resizeQcow2 t img path sz dir =
     (case run_tool (qi_resize t sz img) path dir of
        (None, d) \<Rightarrow> (Inl tool_failed, d) | (Some img', d) \<Rightarrow> (Inr img', d))"

text \<open>The qcow2 branch: converted, resized when asked, and checked to stand alone.\<close>

definition build_qcow2 ::
    "disk_tools \<Rightarrow> disk_image \<Rightarrow> string option \<Rightarrow> string \<Rightarrow> disk_dir \<Rightarrow> (thrown + disk_image) \<times> disk_dir" where
  "build_qcow2 t source bootSize tmp dir =
     (case convertRawToQcow2 t source tmp dir of
        (Inl e, d) \<Rightarrow> (Inl e, d)
      | (Inr img, d) \<Rightarrow>
          (case (if truthy_size bootSize then resizeQcow2 t img tmp (the bootSize) d else (Inr img, d)) of
             (Inl e, d') \<Rightarrow> (Inl e, d')
           | (Inr img', d') \<Rightarrow>
               (if qi_info_fails t img' then (Inl tool_failed, d')
                else if di_format img' \<noteq> ''qcow2'' \<or> truthy_size (di_backing img')
                then (Inl (Coded (QuickCHRError PROCESS_FAILED ''Converted boot disk is not a standalone qcow2'')), d')
                else (Inr img', d'))))"

definition build_raw :: "disk_tools \<Rightarrow> disk_image \<Rightarrow> string \<Rightarrow> disk_dir \<Rightarrow> (thrown + disk_image) \<times> disk_dir" where
  "build_raw t source tmp dir =
     (case run_tool (fs_copy t source) tmp dir of
        (None, d) \<Rightarrow> (Inl (Native ''copyFileSync''), d) | (Some img, d) \<Rightarrow> (Inr img, d))"

definition writeBootDisk ::
    "disk_tools \<Rightarrow> disk_image \<Rightarrow> boot_format \<Rightarrow> string option \<Rightarrow> disk_dir \<Rightarrow> (thrown + string \<times> boot_format) \<times> disk_dir" where
  "writeBootDisk t source fmt bootSize dir =
     (let path = boot_disk_name fmt; tmp = tmp_name fmt;
          (built, d) = (if fmt = Raw then build_raw t source tmp (al_del tmp dir)
                        else build_qcow2 t source bootSize tmp (al_del tmp dir)) in
      case built of
        Inl e \<Rightarrow> (Inl e, al_del tmp d)
      | Inr img \<Rightarrow>
          (if fs_rename_fails t then (Inl (Native ''rename''), al_del tmp d)
           else (Inr (path, fmt), al_del tmp (al_put path img (al_del tmp d)))))"

section \<open>Extra disks\<close>

fun prepare_from :: "disk_tools \<Rightarrow> nat \<Rightarrow> string list \<Rightarrow> disk_dir \<Rightarrow> (thrown + string list) \<times> disk_dir" where
  "prepare_from t i [] dir = (Inr [], dir)"
| "prepare_from t i (sz # szs) dir =
     (case createQcow2Disk t (extra_disk_name i) sz dir of
        (Some e, d) \<Rightarrow> (Inl e, d)
      | (None, d) \<Rightarrow>
          (case prepare_from t (Suc i) szs d of
             (Inl e, d') \<Rightarrow> (Inl e, d') | (Inr ps, d') \<Rightarrow> (Inr (extra_disk_name i # ps), d')))"

definition prepareExtraDisks :: "disk_tools \<Rightarrow> string list \<Rightarrow> disk_dir \<Rightarrow> (thrown + string list) \<times> disk_dir" where
  "prepareExtraDisks t szs dir = prepare_from t 0 szs dir"

definition missingDiskError :: thrown where
  "missingDiskError = Coded (QuickCHRError MACHINE_NOT_FOUND ''Disk image not found; the machine has booted before'')"

fun ensure_extra :: "disk_tools \<Rightarrow> bool \<Rightarrow> nat \<Rightarrow> string list \<Rightarrow> disk_dir \<Rightarrow> (thrown + string list) \<times> disk_dir" where
  "ensure_extra t booted i [] dir = (Inr [], dir)"
| "ensure_extra t booted i (sz # szs) dir =
     (case (if al_get dir (extra_disk_name i) \<noteq> None then (None, dir)
            else if booted then (Some missingDiskError, dir)
            else createQcow2Disk t (extra_disk_name i) sz dir) of
        (Some e, d) \<Rightarrow> (Inl e, d)
      | (None, d) \<Rightarrow>
          (case ensure_extra t booted (Suc i) szs d of
             (Inl e, d') \<Rightarrow> (Inl e, d') | (Inr ps, d') \<Rightarrow> (Inr (extra_disk_name i # ps), d')))"

text \<open>\<open>factory\<close> is what \<open>sources.factoryImage?.()\<close> gives when it is called.\<close>

definition boot_source :: "boot_format \<Rightarrow> thrown + disk_image option \<Rightarrow> disk_dir \<Rightarrow> thrown + disk_image option" where
  "boot_source fmt factory dir =
     (if fmt = Qcow2 \<and> al_get dir ''disk.img'' \<noteq> None then Inr (al_get dir ''disk.img'') else factory)"

definition ensure_boot ::
    "disk_tools \<Rightarrow> bool \<Rightarrow> thrown + disk_image option \<Rightarrow> string option \<Rightarrow> boot_format \<Rightarrow> disk_dir
       \<Rightarrow> (thrown + string \<times> boot_format) \<times> disk_dir" where
  "ensure_boot t booted factory bootSize fmt dir =
     (if al_get dir (boot_disk_name fmt) \<noteq> None then (Inr (boot_disk_name fmt, fmt), dir)
      else if booted then (Inl missingDiskError, dir)
      else (case boot_source fmt factory dir of
              Inl e \<Rightarrow> (Inl e, dir)
            | Inr None \<Rightarrow> (Inl (Coded (QuickCHRError MACHINE_NOT_FOUND ''Disk image not found'')), dir)
            | Inr (Some source) \<Rightarrow> writeBootDisk t source fmt bootSize dir))"

definition ensureConfiguredDisks ::
    "disk_tools \<Rightarrow> bool \<Rightarrow> thrown + disk_image option \<Rightarrow> string option \<Rightarrow> string list option \<Rightarrow> boot_format \<Rightarrow> disk_dir
       \<Rightarrow> (thrown + (string \<times> boot_format) \<times> string list option) \<times> disk_dir" where
  "ensureConfiguredDisks t booted factory bootSize extras fmt dir =
     (case ensure_boot t booted factory bootSize fmt dir of
        (Inl e, d) \<Rightarrow> (Inl e, d)
      | (Inr boot, d) \<Rightarrow>
          (if no_disks extras then (Inr (boot, None), d)
           else (case ensure_extra t booted 0 (the extras) d of
                   (Inl e, d') \<Rightarrow> (Inl e, d')
                 | (Inr ps, d') \<Rightarrow> (Inr (boot, Some ps), d'))))"

section \<open>Cleanup\<close>

definition unlink :: "(string \<Rightarrow> bool) \<Rightarrow> string \<Rightarrow> disk_dir \<Rightarrow> disk_dir" where
  "unlink fails name dir = (if fails name then dir else al_del name dir)"

fun clean_extra :: "(string \<Rightarrow> bool) \<Rightarrow> nat list \<Rightarrow> disk_dir \<Rightarrow> disk_dir" where
  "clean_extra fails [] dir = dir"
| "clean_extra fails (i # is) dir =
     (if al_get dir (extra_disk_name i) = None then dir
      else clean_extra fails is (unlink fails (extra_disk_name i) dir))"

definition cleanDiskFiles :: "(string \<Rightarrow> bool) \<Rightarrow> disk_dir \<Rightarrow> disk_dir" where
  "cleanDiskFiles fails dir =
     (let d = (if al_get dir ''boot.qcow2'' \<noteq> None then unlink fails ''boot.qcow2'' dir else dir) in
      clean_extra fails [0..<64] d)"

section \<open>What building disks guarantees\<close>

text \<open>A step of disk building may only add what was missing: it leaves every file that exists as it is,
  the temporary name apart.\<close>

definition only_adds :: "string set \<Rightarrow> disk_dir \<Rightarrow> disk_dir \<Rightarrow> bool" where
  "only_adds tmps d d' \<longleftrightarrow> {f. f \<notin> tmps \<and> al_get d f \<noteq> None \<and> al_get d' f \<noteq> al_get d f} = {}"

lemma only_adds_iff: "only_adds ts d d' \<longleftrightarrow> (\<forall>f. f \<notin> ts \<longrightarrow> al_get d f \<noteq> None \<longrightarrow> al_get d' f = al_get d f)"
  by (auto simp: only_adds_def)

lemma only_adds_refl [simp]: "only_adds ts d d"
  by (simp add: only_adds_def)

lemma only_adds_trans: "only_adds ts d d' \<Longrightarrow> only_adds ts d' d'' \<Longrightarrow> only_adds ts d d''"
  by (metis only_adds_iff)

lemma only_adds_put: "al_get d f = None \<Longrightarrow> only_adds ts d (al_put f x d)"
  by (auto simp: only_adds_iff al.get_put_iff)

lemma only_adds_tmp: "f \<in> ts \<Longrightarrow> only_adds ts d (al_put f x d)" "f \<in> ts \<Longrightarrow> only_adds ts d (al_del f d)"
  by (auto simp: only_adds_iff al.get_put_iff al.get_del_iff)

lemma only_adds_keeps: "only_adds ts d d' \<Longrightarrow> f \<notin> ts \<Longrightarrow> al_get d f \<noteq> None \<Longrightarrow> al_get d' f = al_get d f"
  by (simp add: only_adds_iff)

lemma run_tool_adds: "f \<in> ts \<or> al_get d f = None \<Longrightarrow> run_tool r f d = (x, d') \<Longrightarrow> only_adds ts d d'"
  by (auto simp: run_tool_def split: tool_outcome.splits option.splits intro: only_adds_put only_adds_tmp)

lemma run_tool_other: "run_tool r f d = (x, d') \<Longrightarrow> g \<noteq> f \<Longrightarrow> al_get d' g = al_get d g"
  by (auto simp: run_tool_def al.get_put_iff split: tool_outcome.splits option.splits)

lemma run_tool_made: "run_tool r f d = (Some img, d') \<Longrightarrow> al_get d' f = Some img"
  by (auto simp: run_tool_def al.get_put_iff split: tool_outcome.splits option.splits)

lemma names_distinct [simp]:
  "tmp_name f \<noteq> boot_disk_name g" "boot_disk_name g \<noteq> tmp_name f" "extra_disk_name i \<noteq> boot_disk_name g"
  "boot_disk_name g \<noteq> extra_disk_name i" "extra_disk_name i = extra_disk_name j \<longleftrightarrow> i = j"
proof -
  show "tmp_name f \<noteq> boot_disk_name g" by (cases f; cases g) (simp_all add: tmp_name_def boot_disk_name_def)
  then show "boot_disk_name g \<noteq> tmp_name f" by simp
  show "extra_disk_name i \<noteq> boot_disk_name g"
  proof (cases g)
    case Raw
    have "last (extra_disk_name i) \<noteq> last (boot_disk_name Raw)" by (simp add: extra_disk_name_def boot_disk_name_def)
    with Raw show ?thesis by metis
  qed (simp add: extra_disk_name_def boot_disk_name_def)
  then show "boot_disk_name g \<noteq> extra_disk_name i" by simp
  show "extra_disk_name i = extra_disk_name j \<longleftrightarrow> i = j" by (simp add: extra_disk_name_def)
qed

lemma tmp_not_extra [simp]: "extra_disk_name i \<noteq> tmp_name f" "tmp_name f \<noteq> extra_disk_name i"
proof -
  have "last (extra_disk_name i) \<noteq> last (tmp_name f)" by (simp add: extra_disk_name_def tmp_name_def)
  then show "extra_disk_name i \<noteq> tmp_name f" by metis
  then show "tmp_name f \<noteq> extra_disk_name i" by simp
qed

lemma build_frame:
  assumes "(if fmt = Raw then build_raw t src tmp dir else build_qcow2 t src bs tmp dir) = (r, d)" and "g \<noteq> tmp"
  shows "al_get d g = al_get dir g"
  using assms
  by (auto simp: build_raw_def build_qcow2_def convertRawToQcow2_def resizeQcow2_def
      dest!: run_tool_other [where g = g] split: if_splits prod.splits option.splits sum.splits)

lemma build_qcow2_standalone:
  "build_qcow2 t src bs tmp dir = (Inr img, d) \<Longrightarrow> di_format img = ''qcow2'' \<and> \<not> truthy_size (di_backing img)"
  by (auto simp: build_qcow2_def split: prod.splits sum.splits if_splits)

text \<open>writing a boot disk either puts a complete image under its name (for qcow2 one in
  that format, with no backing file), or fails and leaves the old one, if any, as it was; either
  way the temporary file is gone and no other file changes.\<close>

theorem boot_disk_atomic:
  "case writeBootDisk t source fmt bootSize dir of (r, dir') \<Rightarrow>
     {f. f \<noteq> tmp_name fmt \<and> f \<noteq> boot_disk_name fmt \<and> al_get dir' f \<noteq> al_get dir f} = {}
     \<and> al_get dir' (tmp_name fmt) = None
     \<and> (case r of
          Inl e \<Rightarrow> al_get dir' (boot_disk_name fmt) = al_get dir (boot_disk_name fmt)
        | Inr (path, g) \<Rightarrow> path = boot_disk_name fmt \<and> g = fmt
            \<and> (case al_get dir' path of None \<Rightarrow> False
               | Some img \<Rightarrow> (if fmt = Qcow2 then di_format img = ''qcow2'' \<and> \<not> truthy_size (di_backing img) else True)))"
proof -
  let ?tmp = "tmp_name fmt" and ?b = "if fmt = Raw then build_raw t source (tmp_name fmt) (al_del (tmp_name fmt) dir)
      else build_qcow2 t source bootSize (tmp_name fmt) (al_del (tmp_name fmt) dir)"
  obtain r d where b: "?b = (r, d)" by (metis surjective_pairing)
  note frame = build_frame [OF b]
  show ?thesis
  proof (cases r)
    case (Inl e)
    then have "writeBootDisk t source fmt bootSize dir = (Inl e, al_del ?tmp d)"
      unfolding writeBootDisk_def Let_def b by simp
    then show ?thesis using frame by (auto simp: al.get_del_iff)
  next
    case (Inr img)
    have alone: "if fmt = Qcow2 then di_format img = ''qcow2'' \<and> \<not> truthy_size (di_backing img) else True"
      using b Inr build_qcow2_standalone by (auto split: if_splits)
    have w: "writeBootDisk t source fmt bootSize dir =
        (if fs_rename_fails t then (Inl (Native ''rename''), al_del ?tmp d)
         else (Inr (boot_disk_name fmt, fmt), al_del ?tmp (al_put (boot_disk_name fmt) img (al_del ?tmp d))))"
      unfolding writeBootDisk_def Let_def b prod.case Inr sum.case ..
    show ?thesis
      using frame alone unfolding w
      by (auto simp: al.get_del_iff al.get_put_iff)
  qed
qed

lemma write_boot_new:
  assumes "al_get dir (boot_disk_name fmt) = None" and "writeBootDisk t source fmt bootSize dir = (r, dir')"
  shows "only_adds {tmp_name fmt} dir dir'"
    and "r = Inr (path, g) \<Longrightarrow> al_get dir' (boot_disk_name fmt) \<noteq> None \<and> path = boot_disk_name fmt \<and> g = fmt"
proof -
  let ?tmp = "tmp_name fmt" and ?b = "if fmt = Raw then build_raw t source (tmp_name fmt) (al_del (tmp_name fmt) dir)
      else build_qcow2 t source bootSize (tmp_name fmt) (al_del (tmp_name fmt) dir)"
  obtain x d where b: "?b = (x, d)" by (metis surjective_pairing)
  show "only_adds {?tmp} dir dir'"
    using assms build_frame [OF b] unfolding writeBootDisk_def Let_def b only_adds_iff
    by (auto simp: al.get_del_iff al.get_put_iff split: sum.splits if_splits)
  show "al_get dir' (boot_disk_name fmt) \<noteq> None \<and> path = boot_disk_name fmt \<and> g = fmt" if "r = Inr (path, g)"
    using assms(2) that unfolding writeBootDisk_def Let_def b
    by (auto simp: al.get_del_iff al.get_put_iff split: sum.splits if_splits)
qed

lemma create_result:
  assumes "createQcow2Disk t f sz d = (x, d')" and "al_get d f = None"
  shows "only_adds ts d d'" and "x = None \<Longrightarrow> al_get d' f \<noteq> None"
  using assms run_tool_adds [of f ts d] run_tool_made
  by (auto simp: createQcow2Disk_def split: if_splits prod.splits option.splits)

lemma only_adds_mono: "only_adds {} d d' \<Longrightarrow> only_adds ts d d'"
  by (simp add: only_adds_iff)

lemma ensure_extra_result:
  "ensure_extra t booted i szs d = (r, d') \<Longrightarrow>
     only_adds {} d d'
     \<and> (case r of Inl e \<Rightarrow> True
        | Inr ps \<Rightarrow> ps = map extra_disk_name [i..<i + length szs] \<and> list_all (\<lambda>f. al_get d' f \<noteq> None) ps)"
proof (induction szs arbitrary: i d r d')
  case (Cons sz szs)
  obtain x d1 where 1: "(if al_get d (extra_disk_name i) \<noteq> None then (None, d)
      else if booted then (Some missingDiskError, d) else createQcow2Disk t (extra_disk_name i) sz d) = (x, d1)"
    by (metis surjective_pairing)
  have adds: "only_adds {} d d1" and made: "x = None \<Longrightarrow> al_get d1 (extra_disk_name i) \<noteq> None"
    using 1 create_result [of t "extra_disk_name i" sz d x d1] by (auto split: if_splits)
  show ?case
  proof (cases x)
    case (Some e)
    then show ?thesis using Cons.prems adds unfolding ensure_extra.simps 1 by auto
  next
    case None
    obtain y d2 where 2: "ensure_extra t booted (Suc i) szs d1 = (y, d2)" by (metis surjective_pairing)
    have ih: "only_adds {} d1 d2" using Cons.IH [OF 2] by blast
    have "al_get d2 (extra_disk_name i) \<noteq> None" using only_adds_keeps [OF ih, of "extra_disk_name i"] made [OF None] by simp
    moreover have "[i..<i + length (sz # szs)] = i # [Suc i..<Suc i + length szs]" by (simp add: upt_rec)
    ultimately show ?thesis
      using Cons.IH [OF 2] Cons.prems only_adds_trans [OF adds ih] unfolding ensure_extra.simps 1 None prod.case option.case 2
      by (auto split: sum.splits)
  qed
qed simp

lemma ensure_extra_booted:
  "ensure_extra t True i szs d =
     (if list_all (\<lambda>f. al_get d f \<noteq> None) (map extra_disk_name [i..<i + length szs])
      then Inr (map extra_disk_name [i..<i + length szs]) else Inl missingDiskError, d)"
proof (induction szs arbitrary: i)
  case (Cons sz szs)
  have "[i..<i + length (sz # szs)] = i # [Suc i..<Suc i + length szs]" by (simp add: upt_rec)
  then show ?case using Cons.IH [of "Suc i"] by (simp split: if_splits)
qed simp

definition configured_disks :: "string list option \<Rightarrow> boot_format \<Rightarrow> string list" where
  "configured_disks extras fmt =
     boot_disk_name fmt # (if no_disks extras then [] else map extra_disk_name [0..<length (the extras)])"

text \<open>C27: bringing up a machine's disks never overwrites or removes a disk that exists. On
  success every configured disk exists. A machine that has booted gets nothing created: either
  all its disks are there, or it is refused as not found with the directory untouched.\<close>

theorem ensure_disks_safe:
  "case ensureConfiguredDisks t booted factory bootSize extras fmt dir of (r, dir') \<Rightarrow>
     only_adds {tmp_name fmt} dir dir'
     \<and> (case r of
          Inl e \<Rightarrow> (if booted then e = missingDiskError \<and> list_ex (\<lambda>f. al_get dir f = None) (configured_disks extras fmt) else True)
        | Inr (boot, ps) \<Rightarrow> boot = (boot_disk_name fmt, fmt)
            \<and> fst boot # (case ps of None \<Rightarrow> [] | Some fs \<Rightarrow> fs) = configured_disks extras fmt
            \<and> list_all (\<lambda>f. al_get dir' f \<noteq> None) (configured_disks extras fmt))
     \<and> (if booted then dir' = dir else True)"
proof -
  obtain b d1 where 1: "ensure_boot t booted factory bootSize fmt dir = (b, d1)" by (metis surjective_pairing)
  have adds: "only_adds {tmp_name fmt} dir d1"
    using 1 write_boot_new(1) unfolding ensure_boot_def by (auto split: if_splits sum.splits option.splits)
  have boot: "al_get d1 (boot_disk_name fmt) \<noteq> None \<and> path = boot_disk_name fmt \<and> g = fmt" if "b = Inr (path, g)" for path g
    using 1 that write_boot_new(2) unfolding ensure_boot_def by (auto split: if_splits sum.splits option.splits)
  have still: "d1 = dir \<and> (case b of Inl e \<Rightarrow> e = missingDiskError \<and> al_get dir (boot_disk_name fmt) = None | _ \<Rightarrow> True)" if booted
    using 1 that unfolding ensure_boot_def by (auto split: if_splits)
  show ?thesis
  proof (cases b)
    case (Inl e)
    then show ?thesis using adds still unfolding ensureConfiguredDisks_def 1 by (auto simp: configured_disks_def)
  next
    case (Inr bt)
    obtain path g where bt: "bt = (path, g)" by (cases bt)
    note b = boot [OF Inr [unfolded bt]]
    obtain y d2 where 2: "ensure_extra t booted 0 (the extras) d1 = (y, d2)" by (metis surjective_pairing)
    note ih = ensure_extra_result [OF 2]
    have b2: "al_get d2 (boot_disk_name fmt) \<noteq> None" using ih b only_adds_keeps by fastforce
    have "only_adds {tmp_name fmt} dir d2" using ih adds only_adds_trans only_adds_mono by blast
    moreover have "d2 = dir \<and> (case y of Inl e \<Rightarrow> e = missingDiskError
        \<and> list_ex (\<lambda>f. al_get dir f = None) (map extra_disk_name [0..<length (the extras)]) | _ \<Rightarrow> True)" if booted
      using 2 that still ensure_extra_booted [of t 0 "the extras" d1]
      by (auto simp: list_all_iff list_ex_iff split: if_splits)
    ultimately show ?thesis
      using adds still b b2 ih unfolding ensureConfiguredDisks_def 1 Inr bt prod.case sum.case 2
      by (auto simp: configured_disks_def list_ex_iff split: sum.splits)
  qed
qed

end
