(* ===== verification/Cache_Prune.thy ===== *)
theory Cache_Prune
  imports Cache_Policy
begin

text \<open>
  What the retention policy of \<open>cache.ts\<close> guarantees: the inventory accounts for every file, a prune
  partitions the inventory, never touches a protected entry, evicts in one fixed order, and stops
  when its target is met or nothing eligible is left.
\<close>

section \<open>The inventory accounts for the directory\<close>

lemma al_put_absent: "k \<notin> fst ` set s \<Longrightarrow> al_put k v s = s @ [(k, v)]"
  unfolding al_put_def by (induction s) auto

lemma al_put_present: "k \<notin> fst ` set xs \<Longrightarrow> al_put k v (xs @ (k, e) # ys) = xs @ (k, v) # ys"
  unfolding al_put_def by (induction xs) auto

lemma al_get_split:
  assumes "al_get s k = Some e"
  obtains xs ys where "s = xs @ (k, e) # ys" "k \<notin> fst ` set xs"
  using assms unfolding al_get_def
proof (induction s arbitrary: thesis)
  case (Cons p s)
  obtain a b where p: "p = (a, b)" by (cases p)
  show ?case
  proof (cases "a = k")
    case True
    then show ?thesis using Cons.prems(1) [of "[]" s] Cons.prems(2) by (simp add: p)
  next
    case False
    then obtain xs ys where "s = xs @ (k, e) # ys" "k \<notin> fst ` set xs"
      using Cons.IH Cons.prems(2) by (auto simp: p)
    then show ?thesis using Cons.prems(1) [of "p # xs" ys] False by (auto simp: p)
  qed
qed simp

definition all_entries :: "inventory_state \<Rightarrow> cache_entry list" where
  "all_entries st = iv_entries st @ map snd (iv_groups st)"

definition accounted :: "cache_file list \<Rightarrow> inventory_state \<Rightarrow> bool" where
  "accounted fs st \<longleftrightarrow> total_size (all_entries st) + iv_unmanagedBytes st = sum_list (map cf_size fs)
     \<and> mset (concat (map ce_paths (all_entries st))) \<subseteq># mset (map cf_name fs)"

lemma plain_entry_fields [simp]:
  "ce_paths (plain_entry f k p u) = [cf_name f]" "ce_sizeBytes (plain_entry f k p u) = cf_size f"
  by (simp_all add: plain_entry_def)

lemma partial_entry_fields: "partial_entry alive now f = Some e \<Longrightarrow> ce_paths e = [cf_name f] \<and> ce_sizeBytes e = cf_size f"
  by (auto simp: partial_entry_def Let_def split: option.splits if_splits)

text \<open>A step either counts the file as unmanaged, or puts it into exactly one entry.\<close>

lemma inventory_step_cases:
  "(iv_unmanagedBytes (inventory_step alive now used f st) = iv_unmanagedBytes st + cf_size f
      \<and> all_entries (inventory_step alive now used f st) = all_entries st)
   \<or> (iv_unmanagedBytes (inventory_step alive now used f st) = iv_unmanagedBytes st
      \<and> total_size (all_entries (inventory_step alive now used f st)) = total_size (all_entries st) + cf_size f
      \<and> mset (concat (map ce_paths (all_entries (inventory_step alive now used f st))))
          = add_mset (cf_name f) (mset (concat (map ce_paths (all_entries st)))))"
proof (cases "package_artifact f")
  case (Some av)
  obtain a v where av: "av = (a, v)" by (cases av)
  let ?k = "package_key a v"
  show ?thesis
  proof (cases "al_get (iv_groups st) ?k")
    case None
    then have "al_put ?k e (iv_groups st) = iv_groups st @ [(?k, e)]" for e
      by (intro al_put_absent) (simp add: al_get_None)
    then show ?thesis using None
      by (simp add: inventory_step_def Some av Let_def all_entries_def total_size_def new_group_def)
  next
    case (Some e)
    then obtain xs ys where g: "iv_groups st = xs @ (?k, e) # ys" "?k \<notin> fst ` set xs"
      by (rule al_get_split)
    then have "al_put ?k e' (iv_groups st) = xs @ (?k, e') # ys" for e' by (simp add: al_put_present)
    then show ?thesis using Some \<open>package_artifact f = Some av\<close> g(1)
      by (simp add: inventory_step_def av Let_def all_entries_def total_size_def join_group_def)
  qed
next
  case None
  then show ?thesis
    by (auto simp: inventory_step_def all_entries_def total_size_def
        split: option.splits dest: partial_entry_fields)
qed

lemma accounted_step: "accounted fs st \<Longrightarrow> accounted (fs @ [f]) (inventory_step alive now used f st)"
  using inventory_step_cases [of alive now used f st]
  by (auto simp: accounted_def intro: subset_mset.order_trans)

lemma accounted_fold: "accounted gs st \<Longrightarrow> accounted (gs @ fs) (fold (inventory_step alive now used) fs st)"
proof (induction fs arbitrary: gs st)
  case (Cons f fs)
  then show ?case using Cons.IH [OF accounted_step [OF Cons.prems]] by simp
qed simp

text \<open>the inventory accounts for every byte of the cache directory exactly once, in
  an entry or as unmanaged, and no file belongs to two entries, so evicting one entry never
  deletes a part of another.\<close>

theorem inventory_accounts:
  "case cacheInventory alive now inUse pins (Some files) of (entries, unmanaged) \<Rightarrow>
     total_size entries + unmanaged = sum_list (map cf_size files)
     \<and> mset (concat (map ce_paths entries)) \<subseteq># mset (map cf_name files)"
  using accounted_fold [of "[]" "\<lparr>iv_entries = [], iv_groups = [], iv_unmanagedBytes = 0\<rparr>" files alive now "inUse @ pins"]
  by (simp add: cacheInventory_def Let_def accounted_def all_entries_def total_size_def)

section \<open>The order of eviction\<close>

text \<open>Interrupted downloads first, then unknown versions, then the oldest version, then the oldest use.\<close>

definition version_key :: "string option \<Rightarrow> parsed_version option" where
  "version_key v = (case v of None \<Rightarrow> None
     | Some s \<Rightarrow> (case parseVersion s of Inr p \<Rightarrow> Some p | Inl _ \<Rightarrow> None))"

definition evict_key :: "cache_entry \<Rightarrow> nat \<times> parsed_version option \<times> rat" where
  "evict_key e = (if ce_kind e = Partial then 0 else 1, version_key (ce_version e), ce_mtimeMs e)"

definition known_version :: "cache_entry \<Rightarrow> bool" where
  "known_version e \<longleftrightarrow> (case ce_version e of None \<Rightarrow> True | Some v \<Rightarrow> isValidVersion v)"

lemma compareVersionsSafe_key:
  assumes "case a of None \<Rightarrow> True | Some v \<Rightarrow> isValidVersion v" "case b of None \<Rightarrow> True | Some v \<Rightarrow> isValidVersion v"
  shows "(compareVersionsSafe a b < 0 \<longleftrightarrow> version_key a < version_key b)
    \<and> (compareVersionsSafe a b = 0 \<longleftrightarrow> version_key a = version_key b)"
proof -
  have key: "\<exists>p. parseVersion v = Inr p \<and> version_key (Some v) = Some p" if "isValidVersion v" for v
    using that parse_ok_iff [of v] by (auto simp: is_ok_iff version_key_def)
  consider "a = b" | y where "a = None" "b = Some y" | x where "a = Some x" "b = None"
    | x y where "a = Some x" "b = Some y" "x \<noteq> y"
    by (cases a; cases b) auto
  then show ?thesis
  proof cases
    case 4
    then obtain p q where pq: "parseVersion x = Inr p" "version_key a = Some p" "parseVersion y = Inr q" "version_key b = Some q"
      using key [of x] key [of y] assms by auto
    then have "compareVersionsSafe a b = compare_parsed p q"
      using 4 by (simp add: compareVersionsSafe_def compareRouterOsVersion_def)
    then show ?thesis using pq by (simp add: compare_parsed_order)
  next
    case (2 y)
    then show ?thesis using key [of y] assms by (auto simp: compareVersionsSafe_def version_key_def)
  next
    case (3 x)
    then show ?thesis using key [of x] assms by (auto simp: compareVersionsSafe_def version_key_def)
  qed (simp add: compareVersionsSafe_def)
qed

lemma candidate_cmp_key:
  assumes "known_version a" "known_version b"
  shows "candidate_cmp a b \<le> 0 \<longleftrightarrow> evict_key a \<le> evict_key b"
proof -
  note v = compareVersionsSafe_key [of "ce_version a" "ce_version b"]
  consider "ce_kind a = Partial \<longleftrightarrow> ce_kind b = Partial" | "ce_kind a = Partial" "ce_kind b \<noteq> Partial"
    | "ce_kind a \<noteq> Partial" "ce_kind b = Partial" by blast
  then show ?thesis
  proof cases
    case 1
    then have "candidate_cmp a b = (if compareVersionsSafe (ce_version a) (ce_version b) \<noteq> 0
        then of_int (compareVersionsSafe (ce_version a) (ce_version b)) else ce_mtimeMs a - ce_mtimeMs b)"
      by (auto simp: candidate_cmp_def)
    moreover have "evict_key a \<le> evict_key b \<longleftrightarrow> version_key (ce_version a) < version_key (ce_version b)
        \<or> version_key (ce_version a) = version_key (ce_version b) \<and> ce_mtimeMs a \<le> ce_mtimeMs b"
      using 1 by (auto simp: evict_key_def less_eq_prod_def)
    ultimately show ?thesis using v assms by (auto simp: known_version_def)
  qed (auto simp: candidate_cmp_def evict_key_def less_eq_prod_def Let_def)
qed

lemma insert_by_key:
  "known_version x \<Longrightarrow> list_all known_version ys \<Longrightarrow> insert_by candidate_cmp x ys = insort_key evict_key x ys"
  by (induction ys) (simp_all add: candidate_cmp_key)

text \<open>The comparator of the program sorts as the library's stable sort by that key.\<close>

lemma sort_by_key: "list_all known_version es \<Longrightarrow> sort_by candidate_cmp es = sort_key evict_key es"
proof (induction es)
  case (Cons e es)
  then have "list_all known_version (sort_key evict_key es)" by (simp add: list_all_iff)
  then show ?case using Cons by (simp add: sort_by_def insert_by_key)
qed (simp add: sort_by_def)

lemma mset_insert_by: "mset (insert_by cmp x ys) = add_mset x (mset ys)"
  by (induction ys) auto

lemma mset_sort_by [simp]: "mset (sort_by cmp xs) = mset xs"
  by (induction xs) (simp_all add: sort_by_def mset_insert_by)

lemma set_sort_by [simp]: "set (sort_by cmp xs) = set xs"
  using mset_sort_by [of cmp xs] by (metis set_mset_mset)

section \<open>The loops\<close>

definition settled :: "prune_result \<Rightarrow> cache_entry list" where
  "settled st = pu_evicted st @ map fst (pu_failed st)"

lemma evict_settled:
  "mset (settled (snd (evict dry del why e st))) = add_mset e (mset (settled st))"
  "fst (evict dry del why e st) \<Longrightarrow> pu_evicted (snd (evict dry del why e st)) = pu_evicted st @ [e]
      \<and> pu_failed (snd (evict dry del why e st)) = pu_failed st"
  "\<not> fst (evict dry del why e st) \<Longrightarrow> pu_evicted (snd (evict dry del why e st)) = pu_evicted st
      \<and> \<not> dry \<and> (\<exists>msg. del e = Some msg \<and> pu_failed (snd (evict dry del why e st)) = pu_failed st @ [(e, msg)])"
  by (auto simp: evict_def settled_def set_reason_def split: option.splits if_splits)

lemma evict_freed:
  "total_size (pu_evicted (snd (evict dry del why e st)))
     = total_size (pu_evicted st) + (if fst (evict dry del why e st) then ce_sizeBytes e else 0)"
  using evict_settled(2,3) [of dry del why e st] by (auto simp: total_size_def)

text \<open>A failed delete is one that \<open>del\<close> reports.\<close>

definition failures_ok :: "bool \<Rightarrow> (cache_entry \<Rightarrow> string option) \<Rightarrow> prune_result \<Rightarrow> bool" where
  "failures_ok dry del st \<longleftrightarrow> list_all (\<lambda>(e, msg). \<not> dry \<and> del e = Some msg) (pu_failed st)"

lemma evict_failures: "failures_ok dry del st \<Longrightarrow> failures_ok dry del (snd (evict dry del why e st))"
  by (auto simp: failures_ok_def evict_def set_reason_def split: option.splits if_splits)

text \<open>What each loop does to its list: a part is settled, the rest is left, in order.\<close>

lemma evict_where_result:
  "case evict_where (evict dry del) p es st of (rest, st') \<Rightarrow>
     rest = filter (\<lambda>e. p e = None) es \<and> mset rest + mset (settled st') = mset es + mset (settled st)
     \<and> (failures_ok dry del st \<longrightarrow> failures_ok dry del st')"
proof (induction es arbitrary: st)
  case (Cons e es)
  show ?case
  proof (cases "p e")
    case (Some why)
    then show ?thesis
      using Cons.IH [of "snd (evict dry del why e st)"] evict_settled(1) [of dry del why e st] evict_failures
      by (auto split: prod.splits)
  next
    case None
    then show ?thesis using Cons.IH [of st] by (auto split: prod.splits)
  qed
qed simp

lemma cap_loop_result:
  "case cap_loop (evict dry del) cap tot es st of (rest, st') \<Rightarrow>
     (\<exists>done. es = done @ rest) \<and> mset rest + mset (settled st') = mset es + mset (settled st)
     \<and> (rest = [] \<or> tot + int (total_size (pu_evicted st)) \<le> int cap + int (total_size (pu_evicted st')))
     \<and> (failures_ok dry del st \<longrightarrow> failures_ok dry del st')"
proof (induction es arbitrary: st tot)
  case (Cons e es)
  show ?case
  proof (cases "tot > int cap")
    case True
    obtain gone st1 where ev: "evict dry del (SizeCap cap) e st = (gone, st1)" by (cases "evict dry del (SizeCap cap) e st")
    obtain t1 where t1: "t1 = (if gone then tot - int (ce_sizeBytes e) else tot)" by blast
    have eq: "cap_loop (evict dry del) cap tot (e # es) st = cap_loop (evict dry del) cap t1 es st1"
      using True by (simp add: ev t1)
    obtain rest st' where l: "cap_loop (evict dry del) cap t1 es st1 = (rest, st')" by (metis surjective_pairing)
    note ih = Cons.IH [of st1 t1, unfolded l prod.case]
    have "t1 + int (total_size (pu_evicted st1)) = tot + int (total_size (pu_evicted st))"
      using evict_freed [of dry del "SizeCap cap" e st] ev by (simp add: t1)
    moreover have "mset (settled st1) = add_mset e (mset (settled st))"
      using evict_settled(1) [of dry del "SizeCap cap" e st] ev by simp
    moreover have "failures_ok dry del st \<longrightarrow> failures_ok dry del st1"
      using evict_failures [of dry del st "SizeCap cap" e] ev by simp
    moreover have "\<exists>d. e # es = d @ rest" using ih by (metis append_Cons)
    ultimately show ?thesis using ih unfolding eq l by auto
  qed simp
qed simp

lemma reclaim_loop_result:
  "case reclaim_loop (evict dry del) target es st of (rest, st') \<Rightarrow>
     (\<exists>done. es = done @ rest) \<and> mset rest + mset (settled st') = mset es + mset (settled st)
     \<and> (rest = [] \<or> target \<le> int (total_size (pu_evicted st')))
     \<and> total_size (pu_evicted st) \<le> total_size (pu_evicted st')
     \<and> (failures_ok dry del st \<longrightarrow> failures_ok dry del st')"
proof (induction es arbitrary: st)
  case (Cons e es)
  show ?case
  proof (cases "int (total_size (pu_evicted st)) < target")
    case True
    obtain gone st1 where ev: "evict dry del ReclaimedForSpace e st = (gone, st1)" by (cases "evict dry del ReclaimedForSpace e st")
    obtain rest st' where l: "reclaim_loop (evict dry del) target es st1 = (rest, st')" by (metis surjective_pairing)
    note ih = Cons.IH [of st1, unfolded l prod.case]
    have "total_size (pu_evicted st) \<le> total_size (pu_evicted st1)"
      using evict_freed [of dry del ReclaimedForSpace e st] ev by simp
    moreover have "mset (settled st1) = add_mset e (mset (settled st))"
      using evict_settled(1) [of dry del ReclaimedForSpace e st] ev by simp
    moreover have "failures_ok dry del st \<longrightarrow> failures_ok dry del st1"
      using evict_failures [of dry del st ReclaimedForSpace e] ev by simp
    moreover have "\<exists>d. e # es = d @ rest" using ih by (metis append_Cons)
    ultimately show ?thesis using True ih by (auto simp: ev l)
  qed simp
qed simp

lemma keep_reasons_fields [simp]:
  "pu_evicted (keep_reasons es st) = pu_evicted st" "pu_failed (keep_reasons es st) = pu_failed st"
  unfolding keep_reasons_def by (induction es arbitrary: st) (auto simp: set_reason_def)

section \<open>A prune\<close>

lemma total_size_mset: "mset xs = mset ys \<Longrightarrow> total_size xs = total_size ys"
  unfolding total_size_def by (metis mset_map sum_mset_sum_list)

lemma total_size_append [simp]: "total_size (xs @ ys) = total_size xs + total_size ys"
  by (simp add: total_size_def)

definition eligible :: "prune_options \<Rightarrow> rat \<Rightarrow> cache_entry \<Rightarrow> bool" where
  "eligible opts now e \<longleftrightarrow> \<not> ce_inUse e \<and> ce_version e \<notin> set (po_protectVersions opts)
     \<and> ce_basename e \<notin> set (po_skipEntries opts)
     \<and> (case po_skipRecentMs opts of None \<Rightarrow> True | Some w \<Rightarrow> now - ce_mtimeMs e \<ge> w)"

lemma protection_None: "protection opts now e = None \<longleftrightarrow> eligible opts now e"
  by (auto simp: protection_def eligible_def split: option.splits)

lemma prune_shape:
  obtains spared where
    "pu_kept (prune_entries del now opts entries) = filter (\<lambda>e. \<not> eligible opts now e) entries @ spared"
    "mset spared + mset (settled (prune_entries del now opts entries)) = mset (filter (eligible opts now) entries)"
    "failures_ok (po_dryRun opts) del (prune_entries del now opts entries)"
    "\<exists>chosen. filter (\<lambda>e. below_version opts e = None \<and> too_aged opts now e = None)
        (sort_by candidate_cmp (filter (eligible opts now) entries)) = chosen @ spared"
    "\<And>cap. po_maxSizeBytes opts = Some cap \<Longrightarrow>
       spared = [] \<or> total_size entries \<le> cap + freedBytes (prune_entries del now opts entries)"
    "\<And>t. po_reclaimBytes opts = Some t \<Longrightarrow> spared = [] \<or> t \<le> int (freedBytes (prune_entries del now opts entries))"
proof -
  let ?el = "filter (eligible opts now) entries" and ?pr = "filter (\<lambda>e. \<not> eligible opts now e) entries"
  let ?ev = "evict (po_dryRun opts) del" and ?cs = "sort_by candidate_cmp (filter (eligible opts now) entries)"
  let ?st0 = "\<lparr>pu_evicted = [], pu_kept = [], pu_failed = [], pu_reasons = protected_reasons opts now entries\<rparr>"
  obtain l1 s1 where 1: "evict_where ?ev (below_version opts) ?cs ?st0 = (l1, s1)" by (metis surjective_pairing)
  obtain l2 s2 where 2: "evict_where ?ev (too_aged opts now) l1 s1 = (l2, s2)" by (metis surjective_pairing)
  let ?tot = "int (total_size ?pr + total_size l2 + total_size (map fst (pu_failed s2)))"
  obtain l3 s3 where 3: "(case po_maxSizeBytes opts of None \<Rightarrow> (l2, s2) | Some cap \<Rightarrow> cap_loop ?ev cap ?tot l2 s2) = (l3, s3)"
    by (metis surjective_pairing)
  obtain l4 s4 where 4: "(case po_reclaimBytes opts of None \<Rightarrow> (l3, s3) | Some t \<Rightarrow> reclaim_loop ?ev t l3 s3) = (l4, s4)"
    by (metis surjective_pairing)
  have r: "prune_entries del now opts entries = (keep_reasons l4 s4)\<lparr>pu_kept := ?pr @ l4\<rparr>"
    unfolding prune_entries_def Let_def protection_None 1 prod.case 2 3 4 ..
  note w1 = evict_where_result [where dry = "po_dryRun opts" and del = del and p = "below_version opts" and es = ?cs
      and st = ?st0, unfolded 1 prod.case]
  have st0: "settled ?st0 = []" "failures_ok (po_dryRun opts) del ?st0" by (simp_all add: settled_def failures_ok_def)
  have e1: "l1 = filter (\<lambda>e. below_version opts e = None) ?cs" "mset l1 + mset (settled s1) = mset ?el"
      "failures_ok (po_dryRun opts) del s1"
    using w1 st0 by (blast, metis mset_sort_by mset.simps(1) add_0_right, blast)
  have e2: "l2 = filter (\<lambda>e. too_aged opts now e = None) l1" "mset l2 + mset (settled s2) = mset ?el"
      "failures_ok (po_dryRun opts) del s2"
    using evict_where_result [where dry = "po_dryRun opts" and del = del and p = "too_aged opts now" and es = l1
        and st = s1, unfolded 2 prod.case] e1(2,3) by (blast, metis, blast)
  have tot: "?tot + int (total_size (pu_evicted s2)) = int (total_size entries)"
  proof -
    have "mset (?pr @ l2 @ settled s2) = mset entries" using e2(2) by (simp add: multiset_partition [symmetric])
    then have "total_size (?pr @ l2 @ settled s2) = total_size entries" by (rule total_size_mset)
    then show ?thesis by (simp add: settled_def)
  qed
  have e3: "\<exists>d. l2 = d @ l3" "mset l3 + mset (settled s3) = mset ?el" "failures_ok (po_dryRun opts) del s3"
    "\<And>cap. po_maxSizeBytes opts = Some cap \<Longrightarrow> l3 = [] \<or> total_size entries \<le> cap + total_size (pu_evicted s3)"
    using cap_loop_result [where dry = "po_dryRun opts" and del = del and tot = ?tot and es = l2 and st = s2] e2 3 tot
    by (cases "po_maxSizeBytes opts"; fastforce split: prod.splits)+
  have e4: "\<exists>d. l3 = d @ l4" "mset l4 + mset (settled s4) = mset ?el" "failures_ok (po_dryRun opts) del s4"
    "\<And>t. po_reclaimBytes opts = Some t \<Longrightarrow> l4 = [] \<or> t \<le> int (total_size (pu_evicted s4))"
    "total_size (pu_evicted s3) \<le> total_size (pu_evicted s4)"
    using reclaim_loop_result [where dry = "po_dryRun opts" and del = del and es = l3 and st = s3] e3 4
    by (cases "po_reclaimBytes opts"; fastforce split: prod.splits)+
  show ?thesis
  proof (rule that [of l4])
    show "\<exists>chosen. filter (\<lambda>e. below_version opts e = None \<and> too_aged opts now e = None) ?cs = chosen @ l4"
    proof -
      obtain d d' where "l2 = d @ l3" "l3 = d' @ l4" using e3(1) e4(1) by blast
      moreover have "l2 = filter (\<lambda>e. below_version opts e = None \<and> too_aged opts now e = None) ?cs"
        unfolding e2(1) e1(1) filter_filter by (rule filter_cong) auto
      ultimately show ?thesis by (metis append.assoc)
    qed
    show "l4 = [] \<or> total_size entries \<le> cap + freedBytes (prune_entries del now opts entries)"
      if "po_maxSizeBytes opts = Some cap" for cap
      using e3(4) [OF that] e4(1,5) by (auto simp: r freedBytes_def)
  qed (use e4 in \<open>auto simp: r settled_def failures_ok_def freedBytes_def\<close>)
qed

text \<open>C35: a prune accounts for every entry of the inventory exactly once: evicted, kept, or
  failed to delete; what it evicts or tries to delete is never in use, of a protected version, to
  be skipped, or recently used; and an entry is reported as failed only when deleting it failed,
  never in a dry run.\<close>

theorem prune_partitions:
  "let r = prune_entries del now opts entries in
     mset (pu_evicted r) + mset (map fst (pu_failed r)) + mset (pu_kept r) = mset entries
     \<and> set (pu_evicted r) \<union> fst ` set (pu_failed r)
         \<subseteq> {e. \<not> ce_inUse e \<and> ce_version e \<notin> set (po_protectVersions opts) \<and> ce_basename e \<notin> set (po_skipEntries opts)
               \<and> (case po_skipRecentMs opts of None \<Rightarrow> True | Some w \<Rightarrow> now - ce_mtimeMs e \<ge> w)}
     \<and> list_all (\<lambda>(e, msg). \<not> po_dryRun opts \<and> del e = Some msg) (pu_failed r)"
proof -
  let ?r = "prune_entries del now opts entries"
  obtain spared where s: "pu_kept ?r = filter (\<lambda>e. \<not> eligible opts now e) entries @ spared"
      "mset spared + mset (settled ?r) = mset (filter (eligible opts now) entries)"
      "failures_ok (po_dryRun opts) del ?r"
    using prune_shape by metis
  have "mset (settled ?r) + mset (pu_kept ?r) = mset entries"
    using s(2) unfolding s(1) by (simp add: ac_simps) (metis mset_filter multiset_partition union_commute union_lcomm)
  moreover have "set (settled ?r) \<subseteq> {e. eligible opts now e}"
  proof -
    have "set (settled ?r) \<subseteq> set (filter (eligible opts now) entries)"
      using s(2) by (metis mset_subset_eq_add_right set_mset_mono set_mset_mset)
    then show ?thesis by auto
  qed
  ultimately show ?thesis using s(3)
    by (auto simp: Let_def settled_def failures_ok_def eligible_def ac_simps)
qed

text \<open>with a size cap, a prune leaves the cache within the cap (counting what
  failed to delete), and with a target to reclaim it frees at least the target, unless it has
  evicted or tried every eligible entry.\<close>

theorem prune_reaches_target:
  "let r = prune_entries del now opts entries; left = filter (eligible opts now) (pu_kept r) in
     (case po_maxSizeBytes opts of None \<Rightarrow> True
      | Some cap \<Rightarrow> left = [] \<or> total_size (map fst (pu_failed r)) + total_size (pu_kept r) \<le> cap)
     \<and> (case po_reclaimBytes opts of None \<Rightarrow> True | Some t \<Rightarrow> left = [] \<or> t \<le> int (freedBytes r))"
proof -
  let ?r = "prune_entries del now opts entries"
  obtain spared where s: "pu_kept ?r = filter (\<lambda>e. \<not> eligible opts now e) entries @ spared"
      "mset spared + mset (settled ?r) = mset (filter (eligible opts now) entries)"
      "\<And>cap. po_maxSizeBytes opts = Some cap \<Longrightarrow> spared = [] \<or> total_size entries \<le> cap + freedBytes ?r"
      "\<And>t. po_reclaimBytes opts = Some t \<Longrightarrow> spared = [] \<or> t \<le> int (freedBytes ?r)"
    by (rule prune_shape [of del now opts entries]) blast
  have "set spared \<subseteq> set (filter (eligible opts now) entries)"
    using s(2) by (metis mset_subset_eq_add_left set_mset_mono set_mset_mset)
  then have left: "filter (eligible opts now) (pu_kept ?r) = spared"
    unfolding s(1) by (auto simp: filter_id_conv)
  have "mset (settled ?r @ pu_kept ?r) = mset entries"
    using s(2) unfolding s(1) by (simp add: ac_simps) (metis mset_filter multiset_partition union_commute union_lcomm)
  then have "freedBytes ?r + total_size (map fst (pu_failed ?r)) + total_size (pu_kept ?r) = total_size entries"
    using total_size_mset [of "settled ?r @ pu_kept ?r" entries] by (simp add: settled_def freedBytes_def)
  then show ?thesis using s(3,4) left by (fastforce simp: Let_def split: option.splits)
qed

section \<open>Oldest first, and no more than needed\<close>

lemma parseCacheBasename_valid: "fst (parseCacheBasename n) = Some v \<Longrightarrow> isValidVersion v"
  by (auto simp: parseCacheBasename_def Let_def valid_or_unknown_def split: option.splits if_splits)

lemma known_parsed: "ce_version e = fst (parseCacheBasename n) \<Longrightarrow> known_version e"
  by (cases "fst (parseCacheBasename n)") (auto simp: known_version_def dest: parseCacheBasename_valid)

lemma known_plain [simp]: "known_version (plain_entry f k p u)"
  by (rule known_parsed [of _ p]) (simp add: plain_entry_def)

lemma known_new_group [simp]: "known_version (new_group used f key)"
  by (rule known_parsed [of _ key]) (simp add: new_group_def)

lemma known_join_group [simp]: "known_version (join_group f e) \<longleftrightarrow> known_version e"
  by (simp add: known_version_def join_group_def)

text \<open>Every entry of an inventory is built by one of three constructions, so a property they have holds
  of all entries.\<close>

locale entry_property =
  fixes P :: "cache_entry \<Rightarrow> bool"
  assumes plain: "P (plain_entry f k p u)"
    and new_group: "P (new_group used f key)"
    and join_group: "P e \<Longrightarrow> P (join_group f e)"
begin

lemma partial: "partial_entry alive now f = Some e \<Longrightarrow> P e"
  by (auto simp: partial_entry_def Let_def plain split: option.splits if_splits)

lemma step:
  assumes "list_all P (all_entries st)"
  shows "list_all P (all_entries (inventory_step alive now used f st))"
proof (cases "package_artifact f")
  case (Some av)
  obtain a v where av: "av = (a, v)" by (cases av)
  have "P e" if "al_get (iv_groups st) k = Some e" for k e
    using al_get_in [OF that] assms by (force simp: all_entries_def list_all_iff)
  then have "P (case al_get (iv_groups st) k of Some e \<Rightarrow> join_group f e | None \<Rightarrow> new_group used f k)" for k
    by (simp add: new_group join_group split: option.splits)
  moreover have "list_all P (map snd (al_put k x (iv_groups st)))" if "P x" for k x
    using al_put_set [of k x "iv_groups st"] assms that by (fastforce simp: all_entries_def list_all_iff)
  ultimately show ?thesis using assms
    by (simp add: inventory_step_def Some av Let_def all_entries_def)
next
  case None
  then show ?thesis using assms
    by (auto simp: inventory_step_def all_entries_def plain split: option.splits dest: partial)
qed

lemma inventory: "list_all P (fst (cacheInventory alive now inUse pins dir))"
proof -
  have "list_all P (all_entries (fold (inventory_step alive now used) fs st))"
    if "list_all P (all_entries st)" for used fs st
    using that by (induction fs arbitrary: st) (auto simp: step)
  then show ?thesis
    by (auto simp: cacheInventory_def Let_def all_entries_def split: option.splits)
qed

end

interpretation known: entry_property known_version
  by unfold_locales simp_all

interpretation has_path: entry_property "\<lambda>e. ce_paths e \<noteq> []"
  by unfold_locales (simp_all add: new_group_def join_group_def)

lemma reclaim_loop_minimal:
  "case reclaim_loop (evict dry del) target es st of (rest, st') \<Rightarrow>
     pu_evicted st' = pu_evicted st \<or> int (total_size (butlast (pu_evicted st'))) < target"
proof (induction es arbitrary: st)
  case (Cons e es)
  obtain gone st1 where ev: "evict dry del ReclaimedForSpace e st = (gone, st1)" by (cases "evict dry del ReclaimedForSpace e st")
  have "pu_evicted st1 = (if gone then pu_evicted st @ [e] else pu_evicted st)"
    using evict_settled(2,3) [of dry del ReclaimedForSpace e st] ev by auto
  then show ?case using Cons.IH [of st1] ev by (auto split: prod.splits if_splits)
qed simp

lemma evict_where_none: "list_all (\<lambda>e. p e = None) es \<Longrightarrow> evict_where ev p es st = (es, st)"
  by (induction es) auto

lemma plain_reclaim_evicted:
  assumes "po_olderThan opts = None" "po_maxAgeMs opts = None" "po_maxSizeBytes opts = None" "po_reclaimBytes opts = Some t"
  shows "pu_evicted (prune_entries del now opts entries) = []
    \<or> int (total_size (butlast (pu_evicted (prune_entries del now opts entries)))) < t"
proof -
  have none: "below_version opts = (\<lambda>e. None)" "too_aged opts now = (\<lambda>e. None)"
    using assms(1,2) by (simp_all add: below_version_def too_aged_def fun_eq_iff)
  have id: "evict_where ev (\<lambda>e. None) es st = (es, st)" for ev es st
    by (rule evict_where_none) (simp add: list_all_iff)
  let ?cs = "sort_by candidate_cmp (filter (eligible opts now) entries)"
  let ?st0 = "\<lparr>pu_evicted = [], pu_kept = [], pu_failed = [], pu_reasons = protected_reasons opts now entries\<rparr>"
  obtain l st where l: "reclaim_loop (evict (po_dryRun opts) del) t ?cs ?st0 = (l, st)" by (metis surjective_pairing)
  have "pu_evicted (prune_entries del now opts entries) = pu_evicted st"
    unfolding prune_entries_def Let_def none id protection_None prod.case assms(3,4) option.case l by simp
  then show ?thesis
    using reclaim_loop_minimal [where dry = "po_dryRun opts" and del = del and target = t and es = ?cs and st = ?st0] l by simp
qed

text \<open>when entries are evicted for space, they go in one order: interrupted
  downloads, then the oldest version, then the longest unused; nothing eligible that is kept comes
  before anything that was evicted or tried. And reclaiming stops at the first entry that reaches
  the target: without the last one evicted, the target was not met.\<close>

theorem prune_oldest_first:
  assumes "po_olderThan opts = None" and "po_maxAgeMs opts = None"
  shows "let r = prune_entries del now opts (fst (cacheInventory alive now inUse pins dir)) in
    {(x, y). x \<in> set (pu_evicted r) \<union> fst ` set (pu_failed r) \<and> y \<in> set (pu_kept r) \<and> eligible opts now y
       \<and> evict_key y < evict_key x} = {}
    \<and> (case (po_maxSizeBytes opts, po_reclaimBytes opts) of
         (None, Some t) \<Rightarrow> pu_evicted r = [] \<or> int (total_size (butlast (pu_evicted r))) < t
       | _ \<Rightarrow> True)"
proof -
  obtain entries where entries: "entries = fst (cacheInventory alive now inUse pins dir)" by blast
  let ?r = "prune_entries del now opts entries" and ?el = "filter (eligible opts now) entries"
  have known: "list_all known_version ?el" using known.inventory entries by (auto simp: list_all_iff)
  obtain spared where s: "pu_kept ?r = filter (\<lambda>e. \<not> eligible opts now e) entries @ spared"
      "mset spared + mset (settled ?r) = mset ?el"
      "\<exists>chosen. filter (\<lambda>e. below_version opts e = None \<and> too_aged opts now e = None)
        (sort_by candidate_cmp ?el) = chosen @ spared"
    by (rule prune_shape [of del now opts entries]) blast
  have "(\<lambda>e. below_version opts e = None \<and> too_aged opts now e = None) = (\<lambda>_. True)"
    using assms by (simp add: below_version_def too_aged_def fun_eq_iff)
  then obtain chosen where c: "sort_key evict_key ?el = chosen @ spared"
    using s(3) sort_by_key [OF known] by auto
  then have "mset spared + mset (settled ?r) = mset spared + mset chosen"
    using s(2) by (metis mset_append mset_sort union_commute)
  then have "set chosen = set (settled ?r)" by (metis add_left_imp_eq set_mset_mset)
  moreover have "sorted (map evict_key (chosen @ spared))" unfolding c [symmetric] by simp
  ultimately have "evict_key x \<le> evict_key y" if "x \<in> set (settled ?r)" "y \<in> set spared" for x y
    using that by (auto simp: sorted_append)
  moreover have "y \<in> set spared" if "y \<in> set (pu_kept ?r)" "eligible opts now y" for y
    using that unfolding s(1) by auto
  ultimately have "{(x, y). x \<in> set (pu_evicted ?r) \<union> fst ` set (pu_failed ?r) \<and> y \<in> set (pu_kept ?r) \<and> eligible opts now y
       \<and> evict_key y < evict_key x} = {}"
    by (fastforce simp: settled_def)
  moreover have "case (po_maxSizeBytes opts, po_reclaimBytes opts) of
         (None, Some t) \<Rightarrow> pu_evicted ?r = [] \<or> int (total_size (butlast (pu_evicted ?r))) < t | _ \<Rightarrow> True"
    using plain_reclaim_evicted [OF assms] by (auto split: option.splits)
  ultimately show ?thesis unfolding entries Let_def by blast
qed

text \<open>Witness: two cached images and one byte to reclaim; the older version goes, the newer stays.\<close>

definition demo_images :: "cache_file list" where
  "demo_images = map (\<lambda>(n, t). \<lparr>cf_name = n, cf_isDirectory = False, cf_isFile = True, cf_size = 40, cf_mtimeMs = t\<rparr>)
     [(''chr-7.15.img'', 5), (''chr-7.9.img'', 9)]"

definition demo_prune :: prune_options where
  "demo_prune = \<lparr>po_maxSizeBytes = None, po_maxAgeMs = None, po_olderThan = None, po_protectVersions = [],
     po_reclaimBytes = Some 1, po_skipRecentMs = None, po_skipEntries = [], po_dryRun = False\<rparr>"

lemma demo_prune_run:
  "(let r = prune_entries (\<lambda>_. None) 100 demo_prune (fst (cacheInventory (\<lambda>_. False) 100 [] [] (Some demo_images))) in
     (map ce_basename (pu_evicted r), map ce_basename (pu_kept r))) = ([''chr-7.9.img''], [''chr-7.15.img''])"
  by code_simp

theorem prune_oldest_first_witness:
  "let r = prune_entries (\<lambda>_. None) 100 demo_prune (fst (cacheInventory (\<lambda>_. False) 100 [] [] (Some demo_images))) in
     map ce_basename (pu_evicted r) = [''chr-7.9.img''] \<and> map ce_basename (pu_kept r) = [''chr-7.15.img'']
     \<and> {(x, y). x \<in> set (pu_evicted r) \<union> fst ` set (pu_failed r) \<and> y \<in> set (pu_kept r) \<and> eligible demo_prune 100 y
       \<and> evict_key y < evict_key x} = {}"
proof -
  have none: "po_olderThan demo_prune = None" "po_maxAgeMs demo_prune = None" by (simp_all add: demo_prune_def)
  show ?thesis
    using prune_oldest_first [where alive = "\<lambda>_. False" and now = 100 and inUse = "[]" and pins = "[]" and del = "\<lambda>_. None"
        and dir = "Some demo_images", OF none] demo_prune_run
    unfolding Let_def prod.inject by blast
qed

section \<open>Dry runs\<close>

lemma evict_dry: "evict True del = evict False (\<lambda>_. None)"
  by (intro ext) (simp add: evict_def)

text \<open>a dry run reports exactly what a real prune would if every delete succeeded: the
  same evictions, the same kept entries and the same reasons, whatever the deletes would do.\<close>

theorem dry_run_predicts:
  "prune_entries del now (opts\<lparr>po_dryRun := True\<rparr>) entries
     = prune_entries (\<lambda>_. None) now (opts\<lparr>po_dryRun := False\<rparr>) entries"
proof -
  have p: "protection (opts\<lparr>po_dryRun := b\<rparr>) now = protection opts now" for b
    by (simp add: fun_eq_iff protection_def)
  have "below_version (opts\<lparr>po_dryRun := b\<rparr>) = below_version opts"
    "too_aged (opts\<lparr>po_dryRun := b\<rparr>) now = too_aged opts now"
    "protected_reasons (opts\<lparr>po_dryRun := b\<rparr>) now = protected_reasons opts now" for b
    by (simp_all add: fun_eq_iff below_version_def too_aged_def protected_reasons_def p)
  then show ?thesis by (simp add: prune_entries_def evict_dry p)
qed

end
