(* ===== verification/Storage.thy ===== *)
theory Storage
  imports Storage_Lease Disk Cache_Prune
begin

text \<open>
  Storage admission (\<open>storage.ts\<close>): what an operation will write on each filesystem, the check of free
  space against the reserve and what other operations hold, and the reclamation of cache entries
  when there is not enough. Free space is measured, never computed: a measurement is an answer of
  the environment, which may differ at every pass.
\<close>

section \<open>Needs and reports\<close>

definition MiB :: nat where "MiB = 1024 ^ 2"

definition estimate_imageDownload :: nat where "estimate_imageDownload = 256 * MiB"
definition estimate_bootDisk :: nat where "estimate_bootDisk = 192 * MiB"
definition estimate_packagesDownload :: nat where "estimate_packagesDownload = 192 * MiB"

definition WARN_MARGIN_BYTES :: nat where "WARN_MARGIN_BYTES = 2 * 1024 ^ 3"

datatype storage_status = StOk | StWarn | StError

record storage_report =
  sp_statPath :: string
  sp_freeBytes :: int
  sp_quickchrBytes :: int
  sp_cacheBytes :: int
  sp_machinesBytes :: int
  sp_otherBytes :: int
  sp_reserveBytes :: int
  sp_warningFreeBytes :: int
  sp_status :: storage_status

record storage_part =
  pt_label :: string
  pt_bytes :: nat
  pt_path :: string
  pt_hold :: bool

record storage_need =
  nd_parts :: "storage_part list"
  nd_protectVersions :: "string list"
  nd_pins :: "string list"

text \<open>\<open>nearestExistingPath\<close>: the loop of \<open>filesystemOf\<close>, with \<open>existsSync\<close> as its test.\<close>

function nearest_from :: "mount_table \<Rightarrow> string \<Rightarrow> string" where
  "nearest_from m current =
     (if stat_dev m current \<noteq> None then current
      else (let parent = dirname current in if parent = current then ''.'' else nearest_from m parent))"
  by pat_completeness auto

termination
proof (relation "measure (\<lambda>(_, p). if p = ''.'' then 0 else Suc (length p))", goal_cases)
  case (2 m current parent)
  then have "current \<noteq> ''.''" by (auto simp: stat_dev_def)
  then show ?case using 2 dirname_shorter [of current] by auto
qed simp

declare nearest_from.simps [simp del]

definition nearestExistingPath :: "mount_table \<Rightarrow> string \<Rightarrow> string" where
  "nearestExistingPath m path = nearest_from m (if path = [] then ''.'' else path)"

text \<open>The available kilobytes of \<open>df -kP\<close>: the fourth column of the second line. \<open>None\<close> leaves the
  answer to \<open>statfs\<close>.\<close>

fun split_spaces :: "string \<Rightarrow> string list" where
  "split_spaces [] = [[]]"
| "split_spaces (c # cs) =
     (if is_space c then (case cs of
          [] \<Rightarrow> [[], []]
        | d # _ \<Rightarrow> if is_space d then split_spaces cs else [] # split_spaces cs)
      else (case split_spaces cs of [] \<Rightarrow> [[c]] | w # ws \<Rightarrow> (c # w) # ws))"

definition parse_int_prefix :: "string \<Rightarrow> int option" where
  "parse_int_prefix s =
     (let t = dropWhile is_space s;
          (neg, u) = (case t of c # cs \<Rightarrow> if c = CHR ''-'' then (True, cs) else if c = CHR ''+'' then (False, cs) else (False, t)
                      | [] \<Rightarrow> (False, []));
          ds = takeWhile is_digit u in
      if ds = [] then None else Some (if neg then - int (read_nat ds) else int (read_nat ds)))"

definition df_available :: "string \<Rightarrow> int option" where
  "df_available out =
     (case split_on newline (trim out) of
        _ # dataLine # _ \<Rightarrow>
          (if dataLine = [] then None
           else (let cols = split_spaces (trim dataLine) in
                 map_option (\<lambda>kb. kb * 1024) (parse_int_prefix (if 3 < length cols then cols ! 3 else []))))
      | _ \<Rightarrow> None)"

text \<open>\<open>df\<close> is its output when it exits with 0; \<open>bavail\<close> and \<open>bsize\<close> are what \<open>statfs\<close> says.\<close>

definition freeBytesForPath :: "platform \<Rightarrow> string option \<Rightarrow> int \<Rightarrow> int \<Rightarrow> int" where
  "freeBytesForPath plat df bavail bsize =
     (case (if plat \<noteq> Win32 then Option.bind df df_available else None) of
        Some b \<Rightarrow> b
      | None \<Rightarrow> bavail * (if bsize = 0 then 4096 else bsize))"

definition getQuickchrStorageReport ::
    "mount_table \<Rightarrow> string \<Rightarrow> (string \<Rightarrow> int) \<Rightarrow> fs_node option \<Rightarrow> fs_node option \<Rightarrow> fs_node option \<Rightarrow> int \<Rightarrow> int option
       \<Rightarrow> storage_report" where
  "getQuickchrStorageReport m dataDir freeOf cache machines dataTree reserve warning =
     (let statPath = nearestExistingPath m dataDir; free = freeOf statPath;
          cacheBytes = int (directorySize cache); machinesBytes = int (directorySize machines);
          dataDirBytes = int (directorySize dataTree);
          warn = (case warning of Some w \<Rightarrow> w | None \<Rightarrow> reserve + int WARN_MARGIN_BYTES) in
      \<lparr>sp_statPath = statPath, sp_freeBytes = free, sp_quickchrBytes = max dataDirBytes (cacheBytes + machinesBytes),
       sp_cacheBytes = cacheBytes, sp_machinesBytes = machinesBytes,
       sp_otherBytes = max 0 (dataDirBytes - cacheBytes - machinesBytes), sp_reserveBytes = reserve,
       sp_warningFreeBytes = warn,
       sp_status = (if free < reserve then StError else if free < warn then StWarn else StOk)\<rparr>)"

definition formatQuickchrUsage :: "storage_report \<Rightarrow> string" where
  "formatQuickchrUsage r =
     (let parts = [''cache '' @ formatDiskSize (sp_cacheBytes r), ''machines '' @ formatDiskSize (sp_machinesBytes r)]
          @ (if sp_otherBytes r > 0 then [''other '' @ formatDiskSize (sp_otherBytes r)] else []) in
      ''quickchr uses '' @ formatDiskSize (sp_quickchrBytes r) @ '' ('' @ join '', '' parts @ '')'')"

text \<open>\<open>present\<close> tells which names are in the cache directory.\<close>

definition estimateMachineCreation :: "string \<Rightarrow> (string \<Rightarrow> bool) \<Rightarrow> string \<Rightarrow> arch \<Rightarrow> bool \<Rightarrow> storage_need" where
  "estimateMachineCreation dataDir present version a packages =
     (let cache = dataDir @ ''/cache''; image = chrImageBasename version a in
      \<lparr>nd_parts =
         [\<lparr>pt_label = ''boot disk'', pt_bytes = estimate_bootDisk, pt_path = dataDir @ ''/machines'', pt_hold = True\<rparr>]
         @ (if present (image @ ''.img'') then []
            else [\<lparr>pt_label = ''image download'', pt_bytes = estimate_imageDownload, pt_path = cache, pt_hold = False\<rparr>])
         @ (if packages \<and> \<not> present (package_key a version)
            then [\<lparr>pt_label = ''packages download'', pt_bytes = estimate_packagesDownload, pt_path = cache, pt_hold = False\<rparr>]
            else []),
       nd_protectVersions = [version], nd_pins = [image @ ''.img'', image @ ''.img.zip'']\<rparr>)"

section \<open>Grouping by filesystem\<close>

record fs_group =
  gr_dev :: nat
  gr_statPath :: string
  gr_parts :: "storage_part list"
  gr_bytes :: nat

definition group_part ::
    "(string \<Rightarrow> nat \<times> string) \<Rightarrow> storage_part \<Rightarrow> (nat \<times> fs_group) list \<Rightarrow> (nat \<times> fs_group) list" where
  "group_part fs p groups =
     (case fs (pt_path p) of (dev, statPath) \<Rightarrow>
        (let g = (case al_get groups dev of
                    Some g \<Rightarrow> g
                  | None \<Rightarrow> \<lparr>gr_dev = dev, gr_statPath = statPath, gr_parts = [], gr_bytes = 0\<rparr>) in
         al_put dev (g\<lparr>gr_parts := gr_parts g @ (if pt_label p = [] then [] else [p]), gr_bytes := gr_bytes g + pt_bytes p\<rparr>)
           groups))"

definition groupByFilesystem :: "(string \<Rightarrow> nat \<times> string) \<Rightarrow> string \<Rightarrow> storage_part list \<Rightarrow> fs_group list" where
  "groupByFilesystem fs dataDir parts =
     map snd (fold (group_part fs)
       (if parts = [] then [\<lparr>pt_label = [], pt_bytes = 0, pt_path = dataDir, pt_hold = True\<rparr>] else parts) [])"

section \<open>Reclaiming\<close>

type_synonym cache_dir = "cache_file list option"

text \<open>What the environment does during one pass: the clock, the free space it measures for a directory
  listing and a path, the deletes that fail, and which paths a failed delete took with it.\<close>

record pass_env =
  pe_now :: rat
  pe_free :: "cache_dir \<Rightarrow> string \<Rightarrow> int"
  pe_del :: "cache_entry \<Rightarrow> string option"
  pe_lost :: "string \<Rightarrow> bool"

definition entry_paths :: "cache_entry list \<Rightarrow> string list" where
  "entry_paths es = concat (map ce_paths es)"

definition after_prune :: "pass_env \<Rightarrow> prune_result \<Rightarrow> cache_dir \<Rightarrow> cache_dir" where
  "after_prune env r dir =
     map_option (filter (\<lambda>f. cf_name f \<notin> set (entry_paths (pu_evicted r))
       \<and> \<not> (pe_lost env (cf_name f) \<and> cf_name f \<in> set (entry_paths (map fst (pu_failed r)))))) dir"

definition pruneCacheUnderLock ::
    "(nat \<Rightarrow> kill_result) \<Rightarrow> string list \<Rightarrow> pass_env \<Rightarrow> prune_options \<Rightarrow> string list \<Rightarrow> cache_dir
       \<Rightarrow> prune_result \<times> cache_dir" where
  "pruneCacheUnderLock kill inUse env opts pins dir =
     (let r = prune_entries (pe_del env) (pe_now env) opts
                (fst (cacheInventory (isPidAlive kill) (pe_now env) inUse pins dir)) in
      (r, if po_dryRun opts then dir else after_prune env r dir))"

record reclaim_job =
  rj_kill :: "nat \<Rightarrow> kill_result"
  rj_inUse :: "string list"
  rj_pins :: "string list"
  rj_protect :: "string list"
  rj_statPath :: string
  rj_reserved :: int
  rj_required :: int

definition reclaim_options :: "reclaim_job \<Rightarrow> int \<Rightarrow> string list \<Rightarrow> bool \<Rightarrow> prune_options" where
  "reclaim_options job target skip dry =
     \<lparr>po_maxSizeBytes = None, po_maxAgeMs = None, po_olderThan = None, po_protectVersions = map Some (rj_protect job),
      po_reclaimBytes = Some target, po_skipRecentMs = Some RECENT_USE_MS, po_skipEntries = skip, po_dryRun = dry\<rparr>"

definition measure_free :: "reclaim_job \<Rightarrow> pass_env \<Rightarrow> cache_dir \<Rightarrow> int" where
  "measure_free job env dir = pe_free env dir (rj_statPath job) - rj_reserved job"

record reclaim_state =
  rc_dir :: cache_dir
  rc_free :: int
  rc_evicted :: "cache_entry list"
  rc_failed :: "(cache_entry \<times> string) list"
  rc_kept :: "prune_result option"
  rc_log :: "string list"

definition reclaim_pass :: "pass_env \<Rightarrow> reclaim_job \<Rightarrow> reclaim_state \<Rightarrow> prune_result \<times> reclaim_state" where
  "reclaim_pass env job st =
     (let (pass, dir) = pruneCacheUnderLock (rj_kill job) (rj_inUse job) env
            (reclaim_options job (rj_required job - rc_free st) (map (ce_basename \<circ> fst) (rc_failed st)) False)
            (rj_pins job) (rc_dir st) in
      (pass, \<lparr>rc_dir = dir, rc_free = measure_free job env dir, rc_evicted = rc_evicted st @ pu_evicted pass,
              rc_failed = rc_failed st @ pu_failed pass, rc_kept = Some pass, rc_log = rc_log st @ describePrune pass\<rparr>))"

definition dir_files :: "cache_dir \<Rightarrow> cache_file list" where
  "dir_files dir = (case dir of None \<Rightarrow> [] | Some fs \<Rightarrow> fs)"

text \<open>A pass that evicts something leaves fewer files, so the loop below ends.\<close>

lemma inventory_paths:
  "e \<in> set (fst (cacheInventory alive now inUse pins dir)) \<Longrightarrow> set (ce_paths e) \<subseteq> cf_name ` set (dir_files dir)"
proof (cases dir)
  case (Some files)
  assume e: "e \<in> set (fst (cacheInventory alive now inUse pins dir))"
  have "accounted ([] @ files) (fold (inventory_step alive now (inUse @ pins)) files
      \<lparr>iv_entries = [], iv_groups = [], iv_unmanagedBytes = 0\<rparr>)"
    by (rule accounted_fold) (simp add: accounted_def all_entries_def total_size_def)
  then have "mset (concat (map ce_paths (fst (cacheInventory alive now inUse pins dir)))) \<subseteq># mset (map cf_name files)"
    by (simp add: Some cacheInventory_def Let_def accounted_def all_entries_def)
  then have "set (concat (map ce_paths (fst (cacheInventory alive now inUse pins dir)))) \<subseteq> cf_name ` set files"
    by (metis set_mset_mono set_mset_mset set_map)
  with e show ?thesis by (auto simp: Some dir_files_def)
qed (simp add: cacheInventory_def)

lemma evicted_entries:
  "set (pu_evicted (prune_entries del now opts entries)) \<subseteq> set entries"
proof -
  obtain spared where "mset spared + mset (settled (prune_entries del now opts entries)) = mset (filter (eligible opts now) entries)"
    using prune_shape by metis
  then have "set (settled (prune_entries del now opts entries)) \<subseteq> set (filter (eligible opts now) entries)"
    by (metis mset_subset_eq_add_right set_mset_mono set_mset_mset)
  then show ?thesis by (auto simp: settled_def)
qed

lemma prune_shrinks:
  assumes "pruneCacheUnderLock kill inUse env opts pins dir = (r, dir')" and "\<not> po_dryRun opts" and "pu_evicted r \<noteq> []"
  shows "length (dir_files dir') < length (dir_files dir)"
proof -
  let ?es = "fst (cacheInventory (isPidAlive kill) (pe_now env) inUse pins dir)"
  have r: "r = prune_entries (pe_del env) (pe_now env) opts ?es" and d: "dir' = after_prune env r dir"
    using assms(1,2) by (auto simp: pruneCacheUnderLock_def Let_def)
  obtain e where e: "e \<in> set (pu_evicted r)" using assms(3) by (cases "pu_evicted r") auto
  then have in_es: "e \<in> set ?es" using evicted_entries r by blast
  then obtain n where n: "n \<in> set (ce_paths e)" using has_path.inventory by (fastforce simp: list_all_iff neq_Nil_conv)
  then obtain f where f: "f \<in> set (dir_files dir)" "cf_name f = n" using inventory_paths [OF in_es] by blast
  have files: "dir_files dir' = filter (\<lambda>f. cf_name f \<notin> set (entry_paths (pu_evicted r))
      \<and> \<not> (pe_lost env (cf_name f) \<and> cf_name f \<in> set (entry_paths (map fst (pu_failed r))))) (dir_files dir)"
    by (cases dir) (simp_all add: d after_prune_def dir_files_def)
  have "cf_name f \<in> set (entry_paths (pu_evicted r))" using e n f by (auto simp: entry_paths_def)
  then show ?thesis unfolding files using f(1) by (intro length_filter_less) auto
qed

function reclaim_passes :: "(nat \<Rightarrow> pass_env) \<Rightarrow> reclaim_job \<Rightarrow> nat \<Rightarrow> reclaim_state \<Rightarrow> nat \<times> reclaim_state" where
  "reclaim_passes env job k st =
     (if rc_free st \<ge> rj_required job then (k, st)
      else (case reclaim_pass (env k) job st of
              (pass, st') \<Rightarrow> (if pu_evicted pass = [] then (Suc k, st') else reclaim_passes env job (Suc k) st')))"
  by pat_completeness auto

termination
proof (relation "measure (\<lambda>(_, _, _, st). length (dir_files (rc_dir st)))", goal_cases)
  case (2 env job k st pass st')
  then have "reclaim_pass (env k) job st = (pass, st')" by simp
  then obtain dir where "pruneCacheUnderLock (rj_kill job) (rj_inUse job) (env k)
      (reclaim_options job (rj_required job - rc_free st) (map (ce_basename \<circ> fst) (rc_failed st)) False) (rj_pins job) (rc_dir st)
      = (pass, dir)" "rc_dir st' = dir"
    by (auto simp: reclaim_pass_def split: prod.splits)
  then show ?case using 2 prune_shrinks by (auto simp: reclaim_options_def)
qed simp

declare reclaim_passes.simps [simp del]

section \<open>Admission\<close>

record reclaimed =
  rd_evicted :: "cache_entry list"
  rd_failed :: "(cache_entry \<times> string) list"
  rd_kept :: prune_result
  rd_wouldNotCover :: bool

record refusal =
  rf_free :: int
  rf_required :: int
  rf_reserveBytes :: int
  rf_reservedByOthers :: int
  rf_reclaimed :: "reclaimed option"

definition reclaimed_sentence :: "reclaimed \<Rightarrow> string" where
  "reclaimed_sentence r =
     (let kept = rd_kept r; freed = total_size (rd_evicted r);
          line = (if rd_wouldNotCover r
                  then (if pu_evicted kept \<noteq> []
                        then ''The cache could spare only '' @ formatDiskSize (int (freedBytes kept)) @ '' ('' @
                          countEntries (length (pu_evicted kept)) @ ''), not enough, so nothing was evicted.''
                        else ''Nothing in the cache could be evicted.'')
                  else ''Evicted '' @ countEntries (length (rd_evicted r)) @ '' from the cache ('' @
                    formatDiskSize (int freed) @ '') first.'');
          failures = (if rd_failed r \<noteq> [] then '' '' @ show_nat (length (rd_failed r)) @ '' delete(s) failed.'' else []);
          keptBytes = total_size (filter (\<lambda>e. al_get (pu_reasons kept) (ce_basename e) \<noteq> Some Kept) (pu_kept kept));
          spared = (if keptBytes > 0 then '' '' @ formatDiskSize (int keptBytes) @ '' is kept: in use by a machine or an operation'' @
                      '' in progress, needed by this operation, or used in the last 30 minutes.'' else []) in
      line @ failures @ spared)"

definition insufficientSpace :: "string \<Rightarrow> fs_group \<Rightarrow> refusal \<Rightarrow> qerror" where
  "insufficientSpace action g f =
     (let detail = join '' + '' (map (\<lambda>p. pt_label p @ '' '' @ formatDiskSize (int (pt_bytes p))) (gr_parts g));
          needs = (if detail \<noteq> [] then detail @ '' + '' else []) @ formatDiskSize (rf_reserveBytes f) @ '' reserve'';
          available = formatDiskSize (rf_free f) @ '' available'' @
            (if rf_reservedByOthers f > 0
             then '' after '' @ formatDiskSize (rf_reservedByOthers f) @ '' held by other operations in progress'' else []);
          first = ''Not enough free space to '' @ action @ '' in '' @ gr_statPath g @ '': '' @ available @ '', need '' @
            formatDiskSize (rf_required f) @ '' ('' @ needs @ ''), '' @ formatDiskSize (rf_required f - rf_free f) @ '' short.'' in
      QuickCHRError INSUFFICIENT_DISK_SPACE
        (join '' '' (first # (case rf_reclaimed f of None \<Rightarrow> [] | Some r \<Rightarrow> [reclaimed_sentence r]))))"

text \<open>What is fixed for one admission.\<close>

record admission =
  ad_kill :: "nat \<Rightarrow> kill_result"
  ad_inUse :: "string list"
  ad_pins :: "string list"
  ad_protect :: "string list"
  ad_cacheDev :: nat
  ad_reclaim :: bool
  ad_reserve :: nat
  ad_leases :: "lease_record list"

definition group_job :: "admission \<Rightarrow> fs_group \<Rightarrow> reclaim_job" where
  "group_job a g =
     \<lparr>rj_kill = ad_kill a, rj_inUse = ad_inUse a, rj_pins = ad_pins a, rj_protect = ad_protect a, rj_statPath = gr_statPath g,
      rj_reserved = int (held_bytes (gr_dev g) (ad_leases a)), rj_required = int (gr_bytes g + ad_reserve a)\<rparr>"

text \<open>The state between groups: the pass counter, the cache directory and the log.\<close>

record admit_state =
  am_k :: nat
  am_dir :: cache_dir
  am_log :: "string list"

definition dry_run :: "(nat \<Rightarrow> pass_env) \<Rightarrow> reclaim_job \<Rightarrow> int \<Rightarrow> admit_state \<Rightarrow> prune_result" where
  "dry_run env job free st =
     fst (pruneCacheUnderLock (rj_kill job) (rj_inUse job) (env (am_k st))
            (reclaim_options job (rj_required job - free) [] True) (rj_pins job) (am_dir st))"

definition refuse_group :: "admission \<Rightarrow> reclaim_job \<Rightarrow> int \<Rightarrow> reclaimed option \<Rightarrow> refusal" where
  "refuse_group a job free r =
     \<lparr>rf_free = free, rf_required = rj_required job, rf_reserveBytes = int (ad_reserve a),
      rf_reservedByOthers = rj_reserved job, rf_reclaimed = r\<rparr>"

definition admit_group :: "(nat \<Rightarrow> pass_env) \<Rightarrow> admission \<Rightarrow> fs_group \<Rightarrow> admit_state \<Rightarrow> refusal option \<times> admit_state" where
  "admit_group env a g st =
     (let job = group_job a g; free = measure_free job (env (am_k st)) (am_dir st) in
      if free \<ge> rj_required job then (None, st\<lparr>am_k := Suc (am_k st)\<rparr>)
      else if \<not> (ad_reclaim a \<and> ad_cacheDev a = gr_dev g) then (Some (refuse_group a job free None), st\<lparr>am_k := Suc (am_k st)\<rparr>)
      else (let kept = dry_run env job free st; wouldNotCover = int (freedBytes kept) < rj_required job - free;
                st0 = \<lparr>rc_dir = am_dir st, rc_free = free, rc_evicted = [], rc_failed = [], rc_kept = Some kept, rc_log = am_log st\<rparr>;
                (k, st1) = (if wouldNotCover then (Suc (am_k st), st0) else reclaim_passes env job (Suc (am_k st)) st0);
                out = \<lparr>am_k = k, am_dir = rc_dir st1, am_log = rc_log st1\<rparr> in
            if rc_free st1 \<ge> rj_required job then (None, out)
            else (Some (refuse_group a job (rc_free st1)
                    (map_option (\<lambda>kp. \<lparr>rd_evicted = rc_evicted st1, rd_failed = rc_failed st1, rd_kept = kp,
                        rd_wouldNotCover = wouldNotCover\<rparr>) (rc_kept st1))), out)))"

fun admit_groups ::
    "(nat \<Rightarrow> pass_env) \<Rightarrow> admission \<Rightarrow> string \<Rightarrow> fs_group list \<Rightarrow> admit_state \<Rightarrow> unit result \<times> admit_state" where
  "admit_groups env a action [] st = (Inr (), st)"
| "admit_groups env a action (g # gs) st =
     (case admit_group env a g st of
        (Some f, st') \<Rightarrow> (Inl (insufficientSpace action g f), st')
      | (None, st') \<Rightarrow> admit_groups env a action gs st')"

definition reservations_of :: "(string \<Rightarrow> nat \<times> string) \<Rightarrow> string \<Rightarrow> storage_need \<Rightarrow> reservation list" where
  "reservations_of fs dataDir need =
     map (\<lambda>g. \<lparr>sr_dev = gr_dev g, sr_bytes = gr_bytes g\<rparr>)
       (filter (\<lambda>g. gr_bytes g > 0) (groupByFilesystem fs dataDir (filter pt_hold (nd_parts need))))"

text \<open>Everything the caller and the host give: its pid, a fresh identifier, the time stamp, whether
  reclaiming is allowed, the filesystems, the directories, what machines use, and the reserve.\<close>

record admit_call =
  ac_self :: nat
  ac_uuid :: string
  ac_now :: string
  ac_action :: string
  ac_need :: storage_need
  ac_reclaim :: bool
  ac_fs :: "string \<Rightarrow> nat \<times> string"
  ac_dataDir :: string
  ac_cacheDir :: string
  ac_inUse :: "string list"
  ac_reserve :: nat

definition admission_of :: "(nat \<Rightarrow> kill_result) \<Rightarrow> admit_call \<Rightarrow> lease_record list \<Rightarrow> admission" where
  "admission_of kill c leases =
     \<lparr>ad_kill = kill, ad_inUse = ac_inUse c, ad_pins = concat (map le_pins leases) @ nd_pins (ac_need c),
      ad_protect = nd_protectVersions (ac_need c), ad_cacheDev = fst (ac_fs c (ac_cacheDir c)), ad_reclaim = ac_reclaim c,
      ad_reserve = ac_reserve c, ad_leases = leases\<rparr>"

definition admitStorage ::
    "(nat \<Rightarrow> kill_result) \<Rightarrow> (nat \<Rightarrow> pass_env) \<Rightarrow> admit_call \<Rightarrow> lease_dir \<Rightarrow> cache_dir
       \<Rightarrow> storage_lease result \<times> lease_dir \<times> cache_dir" where
  "admitStorage kill env c leaseDir cacheDir =
     (let (leases, swept) = liveLeases kill leaseDir; a = admission_of kill c leases; need = ac_need c;
          (r, st) = admit_groups env a (ac_action c) (groupByFilesystem (ac_fs c) (ac_dataDir c) (nd_parts need))
                      \<lparr>am_k = 0, am_dir = cacheDir, am_log = []\<rparr>;
          resv = reservations_of (ac_fs c) (ac_dataDir c) need in
      case r of
        Inl e \<Rightarrow> (Inl e, swept, am_dir st)
      | Inr _ \<Rightarrow>
          (if resv = [] \<and> nd_pins need = []
           then (Inr \<lparr>sl_record = \<lparr>le_pid = ac_self c, le_at = [], le_action = ac_action c, le_pins = [], le_reservations = []\<rparr>,
                      sl_file = None, sl_released = False\<rparr>, swept, am_dir st)
           else (case createLease (ac_self c) (ac_uuid c) (ac_now c) (ac_action c) (nd_pins need) resv swept of
                   (l, leaseDir') \<Rightarrow> (Inr l, leaseDir', am_dir st))))"

end
