(* ===== verification/Storage_Safety.thy ===== *)
theory Storage_Safety
  imports Storage
begin

text \<open>
  Admission keeps its promise: an operation that is admitted has room on every filesystem it writes
  to, and however operations of several processes are admitted, write, end, or die, the live ones
  can write all they reserved without the free space falling below the reserve.
\<close>

section \<open>Reports\<close>

lemma nearest_existing: "nearestExistingPath m p = snd (filesystemOf m p)"
proof -
  have "nearest_from m q = snd (filesystem_from m q)" for q
  proof (induction m q rule: nearest_from.induct)
    case (1 m q)
    then show ?case
      by (simp add: nearest_from.simps [of m q] filesystem_from.simps [of m q] Let_def split: option.splits)
  qed
  then show ?thesis by (simp add: nearestExistingPath_def filesystemOf_def)
qed

lemma report_adds_up:
  "let r = getQuickchrStorageReport m d f cache machines tree reserve warn in
     sp_quickchrBytes r = sp_cacheBytes r + sp_machinesBytes r + sp_otherBytes r
     \<and> (sp_status r = StError \<longleftrightarrow> sp_freeBytes r < sp_reserveBytes r)"
  by (simp add: getQuickchrStorageReport_def Let_def)

section \<open>Groups\<close>

definition need_on :: "(string \<Rightarrow> nat \<times> string) \<Rightarrow> nat \<Rightarrow> storage_part list \<Rightarrow> nat" where
  "need_on fs dev parts = sum_list (map pt_bytes (filter (\<lambda>p. fst (fs (pt_path p)) = dev) parts))"

lemma need_on_simps [simp]:
  "need_on fs dev [] = 0" "need_on fs dev (xs @ ys) = need_on fs dev xs + need_on fs dev ys"
  "need_on fs dev (p # ps) = (if fst (fs (pt_path p)) = dev then pt_bytes p else 0) + need_on fs dev ps"
  by (simp_all add: need_on_def)

definition groups_ok :: "(string \<Rightarrow> nat \<times> string) \<Rightarrow> storage_part list \<Rightarrow> (nat \<times> fs_group) list \<Rightarrow> bool" where
  "groups_ok fs parts gs \<longleftrightarrow> distinct (map fst gs) \<and> fst ` set gs = (\<lambda>p. fst (fs (pt_path p))) ` set parts
     \<and> (\<forall>(dev, g)\<in>set gs. gr_dev g = dev \<and> gr_bytes g = need_on fs dev parts
          \<and> (\<exists>p\<in>set parts. fs (pt_path p) = (dev, gr_statPath g)))"

lemma need_on_none: "dev \<notin> (\<lambda>p. fst (fs (pt_path p))) ` set parts \<Longrightarrow> need_on fs dev parts = 0"
  by (induction parts) auto

lemma group_part_ok:
  assumes ok: "groups_ok fs parts gs"
  shows "groups_ok fs (parts @ [p]) (group_part fs p gs)"
proof -
  obtain dev sp where f: "fs (pt_path p) = (dev, sp)" by (metis surjective_pairing)
  obtain g where g: "g = (case al_get gs dev of Some g \<Rightarrow> g
      | None \<Rightarrow> \<lparr>gr_dev = dev, gr_statPath = sp, gr_parts = [], gr_bytes = 0\<rparr>)" by blast
  let ?g = "g\<lparr>gr_parts := gr_parts g @ (if pt_label p = [] then [] else [p]), gr_bytes := gr_bytes g + pt_bytes p\<rparr>"
  have eq: "group_part fs p gs = al_put dev ?g gs" by (simp add: group_part_def f g Let_def)
  have base: "gr_dev g = dev \<and> gr_bytes g = need_on fs dev parts \<and> (\<exists>q\<in>set (parts @ [p]). fs (pt_path q) = (dev, gr_statPath g))"
  proof (cases "al_get gs dev")
    case None
    then have "dev \<notin> (\<lambda>q. fst (fs (pt_path q))) ` set parts" using ok by (simp add: groups_ok_def al_get_None)
    then show ?thesis using None f by (simp add: g need_on_none)
  next
    case (Some h)
    then show ?thesis using al_get_in [OF Some] ok by (fastforce simp: g groups_ok_def)
  qed
  have dist: "distinct (map fst (al_put dev ?g gs))" using ok by (simp add: groups_ok_def al_distinct_put)
  have "gr_dev h = d \<and> gr_bytes h = need_on fs d (parts @ [p]) \<and> (\<exists>q\<in>set (parts @ [p]). fs (pt_path q) = (d, gr_statPath h))"
    if "(d, h) \<in> set (al_put dev ?g gs)" for d h
  proof (cases "d = dev")
    case True
    then have "h = ?g" using al_in_get [OF dist that] by (simp add: al.get_put)
    then show ?thesis using base True f by simp
  next
    case False
    then have "(d, h) \<in> set gs" using al_put_set [of dev ?g gs] that by auto
    then show ?thesis using ok False f by (fastforce simp: groups_ok_def)
  qed
  moreover have "fst ` set (al_put dev ?g gs) = (\<lambda>q. fst (fs (pt_path q))) ` set (parts @ [p])"
    using ok by (simp add: al_keys_put groups_ok_def f)
  ultimately show ?thesis using dist unfolding eq groups_ok_def by blast
qed

lemma fold_groups_ok: "groups_ok fs ps gs \<Longrightarrow> groups_ok fs (ps @ parts) (fold (group_part fs) parts gs)"
proof (induction parts arbitrary: ps gs)
  case (Cons p parts)
  then show ?case using Cons.IH [OF group_part_ok [OF Cons.prems, of p]] by simp
qed simp

text \<open>The groups: one for each device that is written to, with everything that goes there.\<close>

lemma groups_result:
  "distinct (map gr_dev (groupByFilesystem fs d parts))"
  "g \<in> set (groupByFilesystem fs d parts) \<Longrightarrow>
     gr_bytes g = need_on fs (gr_dev g) parts \<and> (\<exists>q. fs q = (gr_dev g, gr_statPath g))"
  "parts \<noteq> [] \<Longrightarrow> gr_dev ` set (groupByFilesystem fs d parts) = (\<lambda>p. fst (fs (pt_path p))) ` set parts"
proof -
  obtain ps where ps: "ps = (if parts = [] then [\<lparr>pt_label = [], pt_bytes = 0, pt_path = d, pt_hold = True\<rparr>] else parts)" by blast
  have ok: "groups_ok fs ps (fold (group_part fs) ps [])"
    using fold_groups_ok [of fs "[]" "[]" ps] by (simp add: groups_ok_def)
  have gs: "groupByFilesystem fs d parts = map snd (fold (group_part fs) ps [])" by (simp add: groupByFilesystem_def ps)
  have dev: "map gr_dev (map snd (fold (group_part fs) ps [])) = map fst (fold (group_part fs) ps [])"
    using ok by (auto simp: groups_ok_def)
  show "distinct (map gr_dev (groupByFilesystem fs d parts))" unfolding gs dev using ok by (simp add: groups_ok_def)
  show "gr_bytes g = need_on fs (gr_dev g) parts \<and> (\<exists>q. fs q = (gr_dev g, gr_statPath g))"
    if "g \<in> set (groupByFilesystem fs d parts)"
  proof -
    have "need_on fs e ps = need_on fs e parts" for e by (simp add: ps)
    then show ?thesis using that ok unfolding gs groups_ok_def by fastforce
  qed
  show "gr_dev ` set (groupByFilesystem fs d parts) = (\<lambda>p. fst (fs (pt_path p))) ` set parts" if "parts \<noteq> []"
    using arg_cong [OF dev, of set] ok that unfolding gs by (simp add: groups_ok_def ps image_image)
qed

lemma reservations_cover:
  "reserved_by dev \<lparr>le_pid = i, le_at = t, le_action = act, le_pins = pins, le_reservations = reservations_of fs d need\<rparr>
     = need_on fs dev (filter pt_hold (nd_parts need))"
proof -
  let ?ps = "filter pt_hold (nd_parts need)" and ?gs = "groupByFilesystem fs d (filter pt_hold (nd_parts need))"
  have sum: "sum_list (map sr_bytes (filter (\<lambda>r. sr_dev r = dev) (map (\<lambda>g. \<lparr>sr_dev = gr_dev g, sr_bytes = gr_bytes g\<rparr>)
        (filter (\<lambda>g. gr_bytes g > 0) gs)))) = sum_list (map gr_bytes (filter (\<lambda>g. gr_dev g = dev) gs))" for gs
    by (induction gs) auto
  have pick: "sum_list (map gr_bytes (filter (\<lambda>g. gr_dev g = dev) gs)) = b"
    if "distinct (map gr_dev gs)" "\<forall>g\<in>set gs. gr_dev g = dev \<longrightarrow> gr_bytes g = b" "dev \<notin> gr_dev ` set gs \<longrightarrow> b = 0" for gs b
    using that
  proof (induction gs)
    case (Cons g gs)
    have "filter (\<lambda>h. gr_dev h = dev) gs = []" if "gr_dev g = dev" using Cons.prems(1) that by (auto simp: filter_empty_conv) (metis imageI)
    with Cons show ?case by auto
  qed simp
  have "dev \<notin> gr_dev ` set ?gs \<longrightarrow> need_on fs dev ?ps = 0"
    using groups_result(3) [of ?ps fs d] need_on_none [of dev fs ?ps] by (cases "?ps = []") auto
  then have "sum_list (map gr_bytes (filter (\<lambda>g. gr_dev g = dev) ?gs)) = need_on fs dev ?ps"
    using groups_result(1,2) by (intro pick) blast+
  then show ?thesis by (simp add: reserved_by_def reservations_of_def sum)
qed

section \<open>One group\<close>

lemma reclaim_passes_result:
  "rc_free st = measure_free job (env i) (rc_dir st) \<Longrightarrow> reclaim_passes env job k st = (k', st') \<Longrightarrow>
     \<exists>i. rc_free st' = measure_free job (env i) (rc_dir st')"
proof (induction env job k st arbitrary: i rule: reclaim_passes.induct)
  case (1 env job k st)
  obtain pass st1 where p: "reclaim_pass (env k) job st = (pass, st1)" by (metis surjective_pairing)
  then have "rc_free st1 = measure_free job (env k) (rc_dir st1)"
    by (auto simp: reclaim_pass_def split: prod.splits)
  then show ?case using 1 p
    by (simp add: reclaim_passes.simps [of env job k st] split: if_splits) blast+
qed

lemma admit_group_result:
  assumes "admit_group env a g st = (r, st')"
  shows "r = None \<Longrightarrow> \<exists>i. pe_free (env i) (am_dir st') (gr_statPath g) - int (held_bytes (gr_dev g) (ad_leases a))
             \<ge> int (gr_bytes g) + int (ad_reserve a)"
    and "gr_dev g \<noteq> ad_cacheDev a \<Longrightarrow> am_dir st' = am_dir st"
proof -
  let ?job = "group_job a g"
  show "am_dir st' = am_dir st" if "gr_dev g \<noteq> ad_cacheDev a"
    using assms that by (auto simp: admit_group_def Let_def split: if_splits)
  have "\<exists>i. measure_free ?job (env i) (am_dir st') \<ge> rj_required ?job" if "r = None"
  proof -
    obtain free where f: "free = measure_free ?job (env (am_k st)) (am_dir st)" by blast
    show ?thesis
    proof (cases "free \<ge> rj_required ?job")
      case True
      then show ?thesis using assms f by (auto simp: admit_group_def Let_def)
    next
      case False
      obtain st0 where st0: "st0 = \<lparr>rc_dir = am_dir st, rc_free = free, rc_evicted = [], rc_failed = [],
          rc_kept = Some (dry_run env ?job free st), rc_log = am_log st\<rparr>" by blast
      obtain k st1 where 1: "(if int (freedBytes (dry_run env ?job free st)) < rj_required ?job - free then (Suc (am_k st), st0)
          else reclaim_passes env ?job (Suc (am_k st)) st0) = (k, st1)" by (metis surjective_pairing)
      have ok: "ad_reclaim a \<and> ad_cacheDev a = gr_dev g" and st': "am_dir st' = rc_dir st1 \<and> rc_free st1 \<ge> rj_required ?job"
        using assms that False unfolding admit_group_def Let_def f [symmetric] st0 [symmetric] 1 prod.case
        by (auto split: if_splits)
      have "rc_free st0 = measure_free ?job (env (am_k st)) (rc_dir st0)" by (simp add: st0 f)
      then have "\<exists>i. rc_free st1 = measure_free ?job (env i) (rc_dir st1)"
        using 1 reclaim_passes_result [of st0 ?job env "am_k st" "Suc (am_k st)" k st1] by (auto split: if_splits)
      then obtain i where "rc_free st1 = measure_free ?job (env i) (rc_dir st1)" by blast
      then show ?thesis using st' by metis
    qed
  qed
  then show "\<exists>i. pe_free (env i) (am_dir st') (gr_statPath g) - int (held_bytes (gr_dev g) (ad_leases a))
             \<ge> int (gr_bytes g) + int (ad_reserve a)" if "r = None"
    using that by (simp add: measure_free_def group_job_def)
qed

lemma admit_groups_result:
  assumes "admit_groups env a act gs st = (Inr (), st')" and "distinct (map gr_dev gs)" and "g \<in> set gs"
  shows "\<exists>i dir. pe_free (env i) dir (gr_statPath g) - int (held_bytes (gr_dev g) (ad_leases a)) \<ge> int (gr_bytes g) + int (ad_reserve a)
    \<and> (dir = am_dir st' \<or> gr_dev g \<noteq> ad_cacheDev a)"
  using assms
proof (induction gs arbitrary: st)
  case (Cons h gs)
  obtain r st1 where 1: "admit_group env a h st = (r, st1)" by (metis surjective_pairing)
  then have r: "r = None" and rest: "admit_groups env a act gs st1 = (Inr (), st')"
    using Cons.prems(1) by (auto split: option.splits)
  show ?case
  proof (cases "g = h")
    case True
    have same: "am_dir st' = am_dir st1" if "gr_dev g = ad_cacheDev a"
    proof -
      have "gr_dev x \<noteq> ad_cacheDev a" if "x \<in> set gs" for x
        using Cons.prems(2) True that \<open>gr_dev g = ad_cacheDev a\<close> by (metis distinct.simps(2) image_eqI list.simps(9) list.set_map)
      then show ?thesis using rest
      proof (induction gs arbitrary: st1)
        case (Cons x xs)
        obtain q st2 where 2: "admit_group env a x st1 = (q, st2)" by (metis surjective_pairing)
        with Cons.prems have "admit_groups env a act xs st2 = (Inr (), st')" by (auto split: option.splits)
        with Cons.IH [of st2] Cons.prems(1) admit_group_result(2) [OF 2] show ?case by simp
      qed simp
    qed
    show ?thesis using admit_group_result(1) [OF 1 r] same True by metis
  next
    case False
    with Cons.IH [OF rest] Cons.prems show ?thesis by simp
  qed
qed simp

section \<open>Several operations\<close>

text \<open>The world the operations share: who is alive, the lease files, the cache, the free space of every
  device, and what each lease's operation has written. The mounts and the reserve do not change.\<close>

record storage_world =
  sw_mounts :: mount_table
  sw_reserve :: nat
  sw_dead :: "nat list"
  sw_leases :: lease_dir
  sw_cache :: cache_dir
  sw_free :: "nat \<Rightarrow> int"
  sw_written :: "string \<Rightarrow> nat \<Rightarrow> nat"

text \<open>What can happen: an admission, in which deleting cache files gains space on the device of the cache
  and nowhere else; a write within a lease; the release of a lease; the death of a process; space
  that is freed by anyone.\<close>

datatype storage_action =
    Admit admit_call "nat \<Rightarrow> pass_env" "cache_dir \<Rightarrow> nat"
  | WriteBytes string nat nat
  | Release string
  | Die nat
  | Freed nat nat

definition kill_of :: "storage_world \<Rightarrow> nat \<Rightarrow> kill_result" where
  "kill_of w p = (if p \<in> set (sw_dead w) then KillGone else KillOk)"

definition live_of :: "storage_world \<Rightarrow> (string \<times> lease_record) list" where
  "live_of w = live_files (kill_of w) (sw_leases w)"

definition gained :: "nat \<Rightarrow> (cache_dir \<Rightarrow> nat) \<Rightarrow> cache_dir \<Rightarrow> nat \<Rightarrow> int" where
  "gained cacheDev gain dir dev = (if dev = cacheDev then int (gain dir) else 0)"

definition pass_envs :: "storage_world \<Rightarrow> nat \<Rightarrow> (cache_dir \<Rightarrow> nat) \<Rightarrow> (nat \<Rightarrow> pass_env) \<Rightarrow> nat \<Rightarrow> pass_env" where
  "pass_envs w cacheDev gain env k =
     (env k)\<lparr>pe_free := \<lambda>dir p. (let dev = fst (filesystemOf (sw_mounts w) p) in sw_free w dev + gained cacheDev gain dir dev)\<rparr>"

definition in_world :: "storage_world \<Rightarrow> admit_call \<Rightarrow> admit_call" where
  "in_world w c = c\<lparr>ac_fs := filesystemOf (sw_mounts w), ac_reserve := sw_reserve w\<rparr>"

definition cache_dev :: "storage_world \<Rightarrow> admit_call \<Rightarrow> nat" where
  "cache_dev w c = fst (filesystemOf (sw_mounts w) (ac_cacheDir c))"

fun storage_act :: "storage_action \<Rightarrow> storage_world \<Rightarrow> storage_world" where
  "storage_act (Admit c env gain) w =
     (let name = lease_name (ac_self c) (ac_uuid c) in
      if ac_self c \<in> set (sw_dead w) \<or> name \<in> fst ` set (lease_files (sw_leases w)) then w
      else (case admitStorage (kill_of w) (pass_envs w (cache_dev w c) gain env) (in_world w c) (sw_leases w) (sw_cache w) of
              (_, leases, cache) \<Rightarrow>
                w\<lparr>sw_leases := leases, sw_cache := cache,
                  sw_free := \<lambda>dev. sw_free w dev + gained (cache_dev w c) gain cache dev,
                  sw_written := (sw_written w)(name := \<lambda>_. 0)\<rparr>))"
| "storage_act (WriteBytes n dev b) w =
     (if list_ex (\<lambda>(m, l). m = n \<and> sw_written w n dev + b \<le> reserved_by dev l) (live_of w)
      then w\<lparr>sw_free := (sw_free w)(dev := sw_free w dev - int b),
             sw_written := (sw_written w)(n := (sw_written w n)(dev := sw_written w n dev + b))\<rparr>
      else w)"
| "storage_act (Release n) w = w\<lparr>sw_leases := map_option (al_del n) (sw_leases w)\<rparr>"
| "storage_act (Die p) w = w\<lparr>sw_dead := p # sw_dead w\<rparr>"
| "storage_act (Freed dev b) w = w\<lparr>sw_free := (sw_free w)(dev := sw_free w dev + int b)\<rparr>"

definition run_storage :: "storage_action list \<Rightarrow> storage_world \<Rightarrow> storage_world" where
  "run_storage acts w = fold storage_act acts w"

text \<open>The promise: on every device a live lease reserves bytes on, what is still outstanding of all live
  leases fits above the reserve.\<close>

definition covered_on :: "storage_world \<Rightarrow> nat \<Rightarrow> bool" where
  "covered_on w dev \<longleftrightarrow> int (outstanding (sw_written w) dev (live_of w)) + int (sw_reserve w) \<le> sw_free w dev"

definition covered :: "storage_world \<Rightarrow> bool" where
  "covered w \<longleftrightarrow> list_all (\<lambda>(n, l). list_all (\<lambda>r. covered_on w (sr_dev r)) (le_reservations l)) (live_of w)"

lemma covered_iff: "covered w \<longleftrightarrow> (\<forall>(n, l)\<in>set (live_of w). \<forall>r\<in>set (le_reservations l). covered_on w (sr_dev r))"
  by (simp add: covered_def list_all_iff)

text \<open>A step that adds no lease keeps the promise if nothing becomes more outstanding than space is gained.\<close>

lemma covered_mono:
  assumes "covered w" and "set (live_of w') \<subseteq> set (live_of w)" and "\<And>dev. covered_on w dev \<Longrightarrow> covered_on w' dev"
  shows "covered w'"
  using assms unfolding covered_iff by fastforce

lemma live_of_same: "sw_dead w' = sw_dead w \<Longrightarrow> sw_leases w' = sw_leases w \<Longrightarrow> live_of w' = live_of w"
  by (simp add: live_of_def kill_of_def [abs_def])

lemma covered_shrink:
  assumes "covered w" and live: "live_of w' = filter P (live_of w)"
    and "sw_written w' = sw_written w" "sw_reserve w' = sw_reserve w" "sw_free w' = sw_free w"
  shows "covered w'"
proof (rule covered_mono [OF assms(1)])
  fix dev assume "covered_on w dev"
  moreover have "outstanding (sw_written w) dev (live_of w') \<le> outstanding (sw_written w) dev (live_of w)"
    unfolding live by (rule outstanding_filter)
  ultimately show "covered_on w' dev" using assms by (simp add: covered_on_def)
qed (simp add: live)

lemma kill_of_die: "isPidAlive (kill_of (w\<lparr>sw_dead := p # sw_dead w\<rparr>)) q \<longleftrightarrow> q \<noteq> p \<and> isPidAlive (kill_of w) q"
  by (simp add: kill_of_def isPidAlive_def)

lemma live_lease_die:
  "live_lease (kill_of (w\<lparr>sw_dead := p # sw_dead w\<rparr>)) f
     = (case live_lease (kill_of w) f of Some l \<Rightarrow> if le_pid l \<noteq> p then Some l else None | None \<Rightarrow> None)"
  unfolding live_lease_def kill_of_die by (auto split: prod.splits option.splits)

lemma live_die: "live_of (w\<lparr>sw_dead := p # sw_dead w\<rparr>) = filter (\<lambda>(n, l). le_pid l \<noteq> p) (live_of w)"
proof -
  have "List.map_filter (\<lambda>f. map_option (Pair (fst f)) (live_lease (kill_of (w\<lparr>sw_dead := p # sw_dead w\<rparr>)) f)) fs
    = filter (\<lambda>(n, l). le_pid l \<noteq> p) (List.map_filter (\<lambda>f. map_option (Pair (fst f)) (live_lease (kill_of w) f)) fs)" for fs
    unfolding live_lease_die by (induction fs) (auto simp: map_filter_Cons split: option.splits)
  then show ?thesis by (simp add: live_of_def live_files_def)
qed

lemma outstanding_write:
  assumes "(n, l) \<in> set ls" and "w n dev + b \<le> reserved_by dev l"
  shows "outstanding (w(n := (w n)(dev := w n dev + b))) dev ls + b \<le> outstanding w dev ls"
  using assms(1)
proof (induction ls)
  case (Cons x ls)
  have mono: "outstanding (w(n := (w n)(dev := w n dev + b))) dev ks \<le> outstanding w dev ks" for ks
    by (induction ks) (auto intro!: add_mono)
  obtain m k where x: "x = (m, k)" by (cases x)
  show ?case
  proof (cases "(n, l) = x")
    case True
    then have "m = n" "k = l" using x by auto
    moreover have "reserved_by dev l - (w n dev + b) + b = reserved_by dev l - w n dev" using assms(2) by simp
    ultimately show ?thesis unfolding x outstanding_simps using mono [of ls] by (simp only: fun_upd_same)
  next
    case False
    then have "(n, l) \<in> set ls" using Cons.prems by simp
    then have "outstanding (w(n := (w n)(dev := w n dev + b))) dev ls + b \<le> outstanding w dev ls" by (rule Cons.IH)
    moreover have "reserved_by dev k - (w(n := (w n)(dev := w n dev + b))) m dev \<le> reserved_by dev k - w m dev" by auto
    ultimately show ?thesis unfolding x outstanding_simps by linarith
  qed
qed simp

lemma outstanding_other_dev:
  "dev \<noteq> dev' \<Longrightarrow> outstanding (w(n := (w n)(dev := x))) dev' ls = outstanding w dev' ls"
  by (rule outstanding_frame) (auto simp: list_all_iff)

section \<open>An admission keeps the promise\<close>

lemma admitStorage_cases:
  assumes "admitStorage kill env c ls cd = (r, ls', cd')"
  obtains "ls' = snd (liveLeases kill ls)"
  | l st where "ls' = Some (al_put (lease_name (ac_self c) (ac_uuid c)) (Some l) (lease_files (snd (liveLeases kill ls))))"
      "l = \<lparr>le_pid = ac_self c, le_at = ac_now c, le_action = ac_action c, le_pins = nd_pins (ac_need c),
            le_reservations = reservations_of (ac_fs c) (ac_dataDir c) (ac_need c)\<rparr>"
      "admit_groups env (admission_of kill c (fst (liveLeases kill ls))) (ac_action c)
         (groupByFilesystem (ac_fs c) (ac_dataDir c) (nd_parts (ac_need c))) \<lparr>am_k = 0, am_dir = cd, am_log = []\<rparr> = (Inr (), st)"
      "cd' = am_dir st"
proof -
  obtain leases swept where 1: "liveLeases kill ls = (leases, swept)" by (metis surjective_pairing)
  obtain x st where 2: "admit_groups env (admission_of kill c leases) (ac_action c)
      (groupByFilesystem (ac_fs c) (ac_dataDir c) (nd_parts (ac_need c))) \<lparr>am_k = 0, am_dir = cd, am_log = []\<rparr> = (x, st)"
    by (metis surjective_pairing)
  note eq = assms [unfolded admitStorage_def 1 Let_def prod.case 2]
  show thesis
  proof (cases "(\<exists>e. x = Inl e) \<or> reservations_of (ac_fs c) (ac_dataDir c) (ac_need c) = [] \<and> nd_pins (ac_need c) = []")
    case True
    then have "ls' = swept" using eq by (cases x) simp_all
    then show thesis using that(1) 1 by simp
  next
    case False
    then obtain u where x: "x = Inr u" by (cases x) auto
    have some: "(reservations_of (ac_fs c) (ac_dataDir c) (ac_need c) = [] \<and> nd_pins (ac_need c) = []) = False" using False by simp
    let ?l = "\<lparr>le_pid = ac_self c, le_at = ac_now c, le_action = ac_action c, le_pins = nd_pins (ac_need c),
            le_reservations = reservations_of (ac_fs c) (ac_dataDir c) (ac_need c)\<rparr>"
    have "ls' = Some (al_put (lease_name (ac_self c) (ac_uuid c)) (Some ?l) (lease_files swept))" "cd' = am_dir st"
      using eq some unfolding x sum.case by (simp_all add: createLease_def Let_def)
    then show thesis using that(2) [of ?l st] 1 2 x by simp
  qed
qed

text \<open>What the checks of an admission established for a device it reserves bytes on.\<close>

lemma admitted_room:
  assumes m: "filesystems fs"
    and ok: "admit_groups env a act (groupByFilesystem fs d (nd_parts need)) st0 = (Inr (), st)"
    and r: "r \<in> set (reservations_of fs d need)"
  shows "\<exists>i dir p. fst (fs p) = sr_dev r \<and> (dir = am_dir st \<or> sr_dev r \<noteq> ad_cacheDev a)
     \<and> pe_free (env i) dir p - int (held_bytes (sr_dev r) (ad_leases a))
         \<ge> int (need_on fs (sr_dev r) (filter pt_hold (nd_parts need))) + int (ad_reserve a)"
proof -
  let ?gs = "groupByFilesystem fs d (nd_parts need)" and ?hs = "groupByFilesystem fs d (filter pt_hold (nd_parts need))"
  obtain h where h: "h \<in> set ?hs" "gr_bytes h > 0" "sr_dev r = gr_dev h" using r by (auto simp: reservations_of_def)
  have pos: "need_on fs (sr_dev r) (filter pt_hold (nd_parts need)) > 0" using groups_result(2) [OF h(1)] h by simp
  then have "sr_dev r \<in> (\<lambda>p. fst (fs (pt_path p))) ` set (filter pt_hold (nd_parts need))"
    using need_on_none by (metis less_irrefl)
  then have dev: "sr_dev r \<in> (\<lambda>p. fst (fs (pt_path p))) ` set (nd_parts need)" by auto
  then have "nd_parts need \<noteq> []" by auto
  then obtain g where g: "g \<in> set ?gs" "gr_dev g = sr_dev r" using dev groups_result(3) by (metis imageE)
  obtain q where q: "fs q = (gr_dev g, gr_statPath g)" and bytes: "gr_bytes g = need_on fs (gr_dev g) (nd_parts need)"
    using groups_result(2) [OF g(1)] by blast
  have "need_on fs dev (filter P ps) \<le> need_on fs dev ps" for dev P ps by (induction ps) auto
  then have le: "need_on fs (sr_dev r) (filter pt_hold (nd_parts need)) \<le> gr_bytes g" using bytes g(2) by simp
  have "fst (fs (gr_statPath g)) = sr_dev r" using filesystems.same_dev [OF m, of q] q g(2) by simp
  moreover obtain i dir where "pe_free (env i) dir (gr_statPath g) - int (held_bytes (sr_dev r) (ad_leases a)) \<ge> int (gr_bytes g) + int (ad_reserve a)"
      "dir = am_dir st \<or> sr_dev r \<noteq> ad_cacheDev a"
    using admit_groups_result [OF ok groups_result(1) g(1)] g(2) by auto
  moreover then have "pe_free (env i) dir (gr_statPath g) - int (held_bytes (sr_dev r) (ad_leases a))
      \<ge> int (need_on fs (sr_dev r) (filter pt_hold (nd_parts need))) + int (ad_reserve a)" using le by linarith
  ultimately show ?thesis by blast
qed

lemma gained_nonneg [simp]: "0 \<le> gained d g dir dev"
  by (simp add: gained_def)

lemma covered_admit:
  assumes cov: "covered w"
  shows "covered (storage_act (Admit c env gain) w)"
proof -
  let ?name = "lease_name (ac_self c) (ac_uuid c)" and ?c = "in_world w c" and ?env = "pass_envs w (cache_dev w c) gain env"
  obtain r ls cd where adm: "admitStorage (kill_of w) ?env ?c (sw_leases w) (sw_cache w) = (r, ls, cd)"
    by (metis surjective_pairing)
  let ?w = "w\<lparr>sw_leases := ls, sw_cache := cd, sw_free := \<lambda>dev. sw_free w dev + gained (cache_dev w c) gain cd dev,
      sw_written := (sw_written w)(?name := \<lambda>_. 0)\<rparr>"
  have "covered ?w" if self: "ac_self c \<notin> set (sw_dead w)" and fresh: "?name \<notin> fst ` set (lease_files (sw_leases w))"
  proof -
    let ?swept = "snd (liveLeases (kill_of w) (sw_leases w))"
    have not_live: "?name \<notin> fst ` set (live_of w)"
      using fresh by (force simp: live_of_def live_files_def set_map_filter)
    then have frame: "outstanding ((sw_written w)(?name := \<lambda>_. 0)) dev (live_of w) = outstanding (sw_written w) dev (live_of w)" for dev
      by (intro outstanding_frame) (auto simp: list_all_iff image_iff)
    have kill: "kill_of ?w = kill_of w" by (simp add: kill_of_def fun_eq_iff)
    show ?thesis using adm
    proof (cases rule: admitStorage_cases)
      case 1
      then have live: "live_of ?w = live_of w" unfolding live_of_def kill by (simp add: leases.live_sweep)
      show ?thesis by (rule covered_mono [OF cov]) (simp_all add: live covered_on_def frame add_increasing2)
    next
      case (2 l st)
      have "?name \<notin> fst ` set (lease_files ?swept)"
        using fresh by (auto simp: liveLeases_def lease_files_def image_iff split: option.splits)
      then have "lease_usable (kill_of w) ?name l ?swept"
        using self 2(2) by (simp add: lease_usable_def isPidAlive_def kill_of_def in_world_def lease_name_def ends_with_iff)
      then have live: "live_of ?w = live_of w @ [(?name, l)]"
        unfolding live_of_def kill using 2(1) leases.live_add leases.live_sweep by (simp add: in_world_def)
      have total: "int (outstanding (sw_written ?w) dev (live_of ?w)) = int (outstanding (sw_written w) dev (live_of w)) + int (reserved_by dev l)" for dev
        unfolding live by (simp add: frame)
      have new: "covered_on ?w (sr_dev x)" if "x \<in> set (le_reservations l)" for x
      proof -
        have x: "x \<in> set (reservations_of (filesystemOf (sw_mounts w)) (ac_dataDir c) (ac_need c))"
          using that 2(2) by (simp add: in_world_def)
        let ?adm = "admission_of (kill_of w) ?c (fst (liveLeases (kill_of w) (sw_leases w)))"
        have ok: "admit_groups ?env ?adm (ac_action c) (groupByFilesystem (filesystemOf (sw_mounts w)) (ac_dataDir c)
            (nd_parts (ac_need c))) \<lparr>am_k = 0, am_dir = sw_cache w, am_log = []\<rparr> = (Inr (), st)"
          using 2(3) by (simp add: in_world_def)
        have ad: "ad_cacheDev ?adm = cache_dev w c" "ad_reserve ?adm = sw_reserve w" "ad_leases ?adm = map snd (live_of w)"
          by (simp_all add: admission_of_def in_world_def cache_dev_def live_of_def live_files_records)
        obtain i dir p where p: "fst (filesystemOf (sw_mounts w) p) = sr_dev x" "dir = cd \<or> sr_dev x \<noteq> cache_dev w c"
            "pe_free (?env i) dir p - int (held_bytes (sr_dev x) (map snd (live_of w)))
              \<ge> int (need_on (filesystemOf (sw_mounts w)) (sr_dev x) (filter pt_hold (nd_parts (ac_need c)))) + int (sw_reserve w)"
          using admitted_room [OF mounts.filesystems_axioms ok x] unfolding ad 2(4) by blast
        have "pe_free (?env i) dir p = sw_free ?w (sr_dev x)"
          using p(1,2) by (auto simp: pass_envs_def Let_def gained_def)
        moreover have "reserved_by (sr_dev x) l = need_on (filesystemOf (sw_mounts w)) (sr_dev x) (filter pt_hold (nd_parts (ac_need c)))"
          using 2(2) reservations_cover by (simp add: in_world_def)
        moreover have "int (outstanding (sw_written w) (sr_dev x) (live_of w)) \<le> int (held_bytes (sr_dev x) (map snd (live_of w)))"
          using outstanding_held by simp
        ultimately show ?thesis using p(3) unfolding covered_on_def total by simp
      qed
      have old: "covered_on ?w (sr_dev x)" if "covered_on w (sr_dev x)" for x
      proof (cases "sr_dev x \<in> sr_dev ` set (le_reservations l)")
        case True
        then obtain y where "y \<in> set (le_reservations l)" "sr_dev y = sr_dev x" by auto
        then show ?thesis using new by metis
      next
        case False
        then have "filter (\<lambda>r. sr_dev r = sr_dev x) (le_reservations l) = []" by (auto simp: filter_empty_conv) (metis imageI)
        then have "reserved_by (sr_dev x) l = 0" by (simp add: reserved_by_def)
        then show ?thesis using that unfolding covered_on_def total by (simp add: add_increasing2)
      qed
      show ?thesis unfolding covered_iff live
        using cov new old unfolding covered_iff by fastforce
    qed
  qed
  then show ?thesis using cov adm by (auto simp: Let_def)
qed

lemma covered_act: "covered w \<Longrightarrow> covered (storage_act a w)"
proof (cases a)
  case (Admit c env gain)
  then show "covered w \<Longrightarrow> covered (storage_act a w)" by (simp only: covered_admit)
next
  case (WriteBytes n dev b)
  assume cov: "covered w"
  show ?thesis
  proof (cases "list_ex (\<lambda>(m, l). m = n \<and> sw_written w n dev + b \<le> reserved_by dev l) (live_of w)")
    case True
    let ?w = "storage_act a w"
    have live: "live_of ?w = live_of w" by (rule live_of_same) (simp_all add: WriteBytes)
    obtain l where l: "(n, l) \<in> set (live_of w)" "sw_written w n dev + b \<le> reserved_by dev l" using True by (auto simp: list_ex_iff)
    note le = outstanding_write [where w = "sw_written w" and n = n and dev = dev and b = b, OF l]
    have "covered_on ?w d" if "covered_on w d" for d
    proof (cases "d = dev")
      case True
      then show ?thesis using le that \<open>list_ex _ _\<close> unfolding covered_on_def live by (simp add: WriteBytes)
    next
      case False
      then show ?thesis using that \<open>list_ex _ _\<close> unfolding covered_on_def live by (simp add: WriteBytes outstanding_other_dev)
    qed
    then show ?thesis using covered_mono [OF cov] live by simp
  next
    case False
    then show ?thesis using cov WriteBytes by simp
  qed
next
  case (Release n)
  have kill: "kill_of (storage_act a w) = kill_of w" by (simp add: Release kill_of_def fun_eq_iff)
  have live: "live_of (storage_act a w) = filter (\<lambda>f. fst f \<noteq> n) (live_of w)"
    unfolding live_of_def kill by (simp add: Release leases.live_release)
  then show "covered w \<Longrightarrow> covered (storage_act a w)"
    by (elim covered_shrink) (simp_all add: Release)
next
  case (Die p)
  have live: "live_of (storage_act a w) = filter (\<lambda>(n, l). le_pid l \<noteq> p) (live_of w)" by (simp add: Die live_die)
  then show "covered w \<Longrightarrow> covered (storage_act a w)"
    by (elim covered_shrink) (simp_all add: Die)
next
  case (Freed dev b)
  have live: "live_of (storage_act a w) = live_of w" by (rule live_of_same) (simp_all add: Freed)
  show "covered w \<Longrightarrow> covered (storage_act a w)"
    by (elim covered_mono) (use live in \<open>auto simp: covered_on_def Freed\<close>)
qed


end
