(* ===== verification/Storage_Pins.thy ===== *)
theory Storage_Pins
  imports Storage_Safety
begin

text \<open>
  What an admission does to the cache: it only ever deletes whole entries nobody needs. An image or a
  package archive that a machine uses, that a live lease pins, or that the operation itself reads,
  survives every reclamation, whether the operation is admitted or refused.
\<close>

section \<open>The entry a file belongs to\<close>

text \<open>The name under which a file of the cache is pinned; a partial download or a foreign file has none.\<close>

definition pin_name :: "cache_file \<Rightarrow> string option" where
  "pin_name f =
     (case package_artifact f of
        Some (a, v) \<Rightarrow> Some (package_key a v)
      | None \<Rightarrow>
          if part_match (cf_name f) \<noteq> None
             \<or> (cf_isDirectory f \<and> (starts_with ''.quickchr-image-'' (cf_name f) \<or> starts_with ''.quickchr-packages-'' (cf_name f)))
          then None
          else (case image_kind f of Some k \<Rightarrow> Some (cf_name f) | None \<Rightarrow> None))"

text \<open>An entry is in use when it is pinned under the name of one of its files.\<close>

definition pin_ok :: "string list \<Rightarrow> cache_file list \<Rightarrow> cache_entry \<Rightarrow> bool" where
  "pin_ok used fs e \<longleftrightarrow> (\<forall>n\<in>set (ce_paths e). \<exists>f\<in>set fs. cf_name f = n
     \<and> (\<forall>k. pin_name f = Some k \<longrightarrow> ce_basename e = k \<and> (ce_inUse e \<longleftrightarrow> k \<in> set used)))"

definition groups_named :: "string list \<Rightarrow> (string \<times> cache_entry) list \<Rightarrow> bool" where
  "groups_named used gs \<longleftrightarrow> (\<forall>(k, e)\<in>set gs. ce_basename e = k \<and> (ce_inUse e \<longleftrightarrow> k \<in> set used))"

definition pins_hold :: "string list \<Rightarrow> cache_file list \<Rightarrow> inventory_state \<Rightarrow> bool" where
  "pins_hold used fs st \<longleftrightarrow> list_all (pin_ok used fs) (all_entries st) \<and> groups_named used (iv_groups st)"

lemma pin_ok_mono: "pin_ok used fs e \<Longrightarrow> set fs \<subseteq> set gs \<Longrightarrow> pin_ok used gs e"
  unfolding pin_ok_def by blast

lemma partial_no_pin: "package_artifact f = None \<Longrightarrow> partial_entry alive now f = Some e \<Longrightarrow> pin_name f = None"
  by (auto simp: partial_entry_def pin_name_def Let_def split: option.splits if_splits prod.splits)

lemma pins_step:
  assumes "pins_hold used fs st"
  shows "pins_hold used (fs @ [f]) (inventory_step alive now used f st)"
proof -
  have old: "list_all (pin_ok used (fs @ [f])) (iv_entries st)" "list_all (pin_ok used (fs @ [f])) (map snd (iv_groups st))"
    using assms pin_ok_mono [of used fs _ "fs @ [f]"] by (auto simp: pins_hold_def all_entries_def list_all_iff)
  show ?thesis
  proof (cases "package_artifact f")
    case (Some av)
    obtain a v where av: "av = (a, v)" by (cases av)
    let ?k = "package_key a v"
    obtain e where e: "e = (case al_get (iv_groups st) ?k of Some e \<Rightarrow> join_group f e | None \<Rightarrow> new_group used f ?k)" by blast
    have pin: "pin_name f = Some ?k" by (simp add: pin_name_def Some av)
    have named: "ce_basename e = ?k \<and> (ce_inUse e \<longleftrightarrow> ?k \<in> set used)"
    proof (cases "al_get (iv_groups st) ?k")
      case (Some g)
      then show ?thesis using assms al_get_in [OF Some] by (force simp: e join_group_def pins_hold_def groups_named_def)
    qed (simp add: e new_group_def)
    have ok: "pin_ok used (fs @ [f]) e"
    proof (cases "al_get (iv_groups st) ?k")
      case (Some g)
      then have "pin_ok used (fs @ [f]) g" using old(2) al_get_in [OF Some] by (force simp: list_all_iff)
      then show ?thesis using Some pin named by (auto simp: e pin_ok_def join_group_def)
    qed (use pin named in \<open>auto simp: e pin_ok_def new_group_def\<close>)
    have st: "inventory_step alive now used f st = st\<lparr>iv_groups := al_put ?k e (iv_groups st)\<rparr>"
      by (simp add: inventory_step_def Some av Let_def e)
    have "list_all (pin_ok used (fs @ [f])) (map snd (al_put ?k e (iv_groups st)))"
      using al_put_set [of ?k e "iv_groups st"] old(2) ok by (fastforce simp: list_all_iff)
    moreover have "groups_named used (al_put ?k e (iv_groups st))"
      using al_put_set [of ?k e "iv_groups st"] assms named by (fastforce simp: pins_hold_def groups_named_def)
    ultimately show ?thesis using old(1) unfolding st by (simp add: pins_hold_def all_entries_def)
  next
    case None
    have "pin_ok used (fs @ [f]) e" if "partial_entry alive now f = Some e" for e
      using partial_no_pin [OF None that] partial_entry_fields [OF that] by (simp add: pin_ok_def)
    moreover have "pin_ok used (fs @ [f]) (plain_entry f k (cf_name f) (cf_name f \<in> set used))" for k
      using None by (auto simp: pin_ok_def plain_entry_def pin_name_def split: if_splits option.splits)
    ultimately show ?thesis using old assms
      by (auto simp: inventory_step_def None pins_hold_def all_entries_def split: option.splits)
  qed
qed

lemma pins_inventory:
  "list_all (pin_ok (inUse @ pins) (dir_files dir)) (fst (cacheInventory alive now inUse pins dir))"
proof -
  have "pins_hold used (gs @ fs) (fold (inventory_step alive now used) fs st)" if "pins_hold used gs st" for used gs fs st
    using that
  proof (induction fs arbitrary: gs st)
    case (Cons f fs)
    then show ?case using Cons.IH [OF pins_step [OF Cons.prems]] by simp
  qed simp
  from this [of "inUse @ pins" "[]" "\<lparr>iv_entries = [], iv_groups = [], iv_unmanagedBytes = 0\<rparr>"]
  show ?thesis
    by (cases dir) (simp_all add: cacheInventory_def Let_def pins_hold_def all_entries_def groups_named_def dir_files_def)
qed

section \<open>What a reclamation leaves\<close>

definition spared :: "string set \<Rightarrow> cache_dir \<Rightarrow> cache_dir \<Rightarrow> bool" where
  "spared pins d d' \<longleftrightarrow> set (dir_files d') \<subseteq> set (dir_files d)
     \<and> {f \<in> set (dir_files d). (case pin_name f of Some k \<Rightarrow> k \<in> pins | None \<Rightarrow> False)} \<subseteq> set (dir_files d')"

lemma spared_refl [simp]: "spared pins d d"
  by (auto simp: spared_def)

lemma spared_trans: "spared pins d d' \<Longrightarrow> spared pins d' d'' \<Longrightarrow> spared pins d d''"
  unfolding spared_def by blast

lemma settled_not_used:
  "e \<in> set (settled (prune_entries del now opts entries)) \<Longrightarrow> e \<in> set entries \<and> \<not> ce_inUse e"
proof -
  obtain sp where "mset sp + mset (settled (prune_entries del now opts entries)) = mset (filter (eligible opts now) entries)"
    using prune_shape by metis
  then have "set (settled (prune_entries del now opts entries)) \<subseteq> set (filter (eligible opts now) entries)"
    by (metis mset_subset_eq_add_right set_mset_mono set_mset_mset)
  then show "e \<in> set (settled (prune_entries del now opts entries)) \<Longrightarrow> e \<in> set entries \<and> \<not> ce_inUse e"
    by (auto simp: eligible_def)
qed

lemma distinct_files: "distinct (map cf_name fs) \<Longrightarrow> f \<in> set fs \<Longrightarrow> g \<in> set fs \<Longrightarrow> cf_name f = cf_name g \<Longrightarrow> f = g"
  by (induction fs) (auto simp: image_iff)

lemma prune_spares:
  assumes dist: "distinct (map cf_name (dir_files dir))"
    and "pruneCacheUnderLock kill inUse env opts pins dir = (r, dir')"
  shows "spared (set (inUse @ pins)) dir dir'" and "distinct (map cf_name (dir_files dir'))"
proof -
  let ?es = "fst (cacheInventory (isPidAlive kill) (pe_now env) inUse pins dir)"
  have r: "r = prune_entries (pe_del env) (pe_now env) opts ?es"
    and d: "dir' = (if po_dryRun opts then dir else after_prune env r dir)"
    using assms(2) by (auto simp: pruneCacheUnderLock_def Let_def)
  obtain P where P: "dir_files (after_prune env r dir) = filter P (dir_files dir)"
      "\<And>f. \<not> P f \<Longrightarrow> cf_name f \<in> set (entry_paths (settled r))"
    by (rule that [of "\<lambda>f. cf_name f \<notin> set (entry_paths (pu_evicted r))
          \<and> \<not> (pe_lost env (cf_name f) \<and> cf_name f \<in> set (entry_paths (map fst (pu_failed r))))"])
      (cases dir, auto simp: after_prune_def dir_files_def settled_def entry_paths_def)
  have "P f" if f: "f \<in> set (dir_files dir)" "pin_name f = Some k" "k \<in> set (inUse @ pins)" for f k
  proof (rule ccontr)
    assume "\<not> P f"
    then obtain e where e: "e \<in> set (settled r)" "cf_name f \<in> set (ce_paths e)"
      using P(2) by (fastforce simp: entry_paths_def)
    then have "e \<in> set ?es" "\<not> ce_inUse e" using settled_not_used r by blast+
    then obtain g where "g \<in> set (dir_files dir)" "cf_name g = cf_name f"
        "\<And>k. pin_name g = Some k \<Longrightarrow> ce_inUse e \<longleftrightarrow> k \<in> set (inUse @ pins)"
      using pins_inventory e(2) unfolding list_all_iff pin_ok_def by blast
    then show False using distinct_files [OF dist f(1)] f(2,3) \<open>\<not> ce_inUse e\<close> by metis
  qed
  then show "spared (set (inUse @ pins)) dir dir'"
    using P(1) by (auto simp: spared_def d split: option.splits)
  show "distinct (map cf_name (dir_files dir'))" using dist P(1) by (simp add: d distinct_map_filter)
qed

definition tidy_prune :: "string set \<Rightarrow> cache_dir \<Rightarrow> cache_dir \<Rightarrow> bool" where
  "tidy_prune pins d d' \<longleftrightarrow> spared pins d d' \<and> distinct (map cf_name (dir_files d'))"

lemma tidy_trans: "tidy_prune pins d d' \<Longrightarrow> tidy_prune pins d' d'' \<Longrightarrow> tidy_prune pins d d''"
  unfolding tidy_prune_def by (metis spared_trans)

lemma reclaim_pass_tidy:
  "distinct (map cf_name (dir_files (rc_dir st))) \<Longrightarrow> reclaim_pass env job st = (pass, st') \<Longrightarrow>
     tidy_prune (set (rj_inUse job @ rj_pins job)) (rc_dir st) (rc_dir st')"
  unfolding reclaim_pass_def tidy_prune_def by (auto split: prod.splits dest: prune_spares)

lemma reclaim_passes_tidy:
  "distinct (map cf_name (dir_files (rc_dir st))) \<Longrightarrow> reclaim_passes env job k st = (k', st') \<Longrightarrow>
     tidy_prune (set (rj_inUse job @ rj_pins job)) (rc_dir st) (rc_dir st')"
proof (induction env job k st rule: reclaim_passes.induct)
  case (1 env job k st)
  obtain pass st1 where p: "reclaim_pass (env k) job st = (pass, st1)" by (metis surjective_pairing)
  note tidy = reclaim_pass_tidy [OF 1(2) p]
  show ?case
  proof (cases "rc_free st \<ge> rj_required job")
    case True
    then show ?thesis using 1(2,3) by (simp add: reclaim_passes.simps [of env job k st] tidy_prune_def)
  next
    case False
    show ?thesis
    proof (cases "pu_evicted pass = []")
      case True
      then show ?thesis using 1(3) p False tidy by (simp add: reclaim_passes.simps [of env job k st])
    next
      case ne: False
      then have "reclaim_passes env job (Suc k) st1 = (k', st')"
        using 1(3) p False by (simp add: reclaim_passes.simps [of env job k st])
      then show ?thesis using 1(1) [OF False p [symmetric] ne] tidy tidy_trans unfolding tidy_prune_def by metis
    qed
  qed
qed

lemma admit_group_tidy:
  assumes "distinct (map cf_name (dir_files (am_dir st)))" and "admit_group env a g st = (r, st')"
  shows "tidy_prune (set (ad_inUse a @ ad_pins a)) (am_dir st) (am_dir st')"
proof -
  let ?job = "group_job a g"
  obtain free where f: "free = measure_free ?job (env (am_k st)) (am_dir st)" by blast
  obtain st0 where st0: "st0 = \<lparr>rc_dir = am_dir st, rc_free = free, rc_evicted = [], rc_failed = [],
      rc_kept = Some (dry_run env ?job free st), rc_log = am_log st\<rparr>" by blast
  obtain k st1 where 1: "(if int (freedBytes (dry_run env ?job free st)) < rj_required ?job - free then (Suc (am_k st), st0)
      else reclaim_passes env ?job (Suc (am_k st)) st0) = (k, st1)" by (metis surjective_pairing)
  have pins: "rj_inUse ?job = ad_inUse a" "rj_pins ?job = ad_pins a" by (simp_all add: group_job_def)
  have refl: "tidy_prune (set (ad_inUse a @ ad_pins a)) (am_dir st) (am_dir st)" using assms(1) by (simp add: tidy_prune_def)
  have "rc_dir st0 = am_dir st" by (simp add: st0)
  then have "tidy_prune (set (ad_inUse a @ ad_pins a)) (am_dir st) (rc_dir st1)"
    using 1 reclaim_passes_tidy [of st0 env ?job "Suc (am_k st)" k st1] assms(1) pins refl by (auto split: if_splits)
  then show ?thesis
    using assms(2) refl unfolding admit_group_def Let_def f [symmetric] st0 [symmetric] 1 prod.case
    by (auto split: if_splits)
qed

lemma admit_groups_tidy:
  "distinct (map cf_name (dir_files (am_dir st))) \<Longrightarrow> admit_groups env a act gs st = (r, st') \<Longrightarrow>
     tidy_prune (set (ad_inUse a @ ad_pins a)) (am_dir st) (am_dir st')
     \<and> (case r of Inl e \<Rightarrow> err_code e = INSUFFICIENT_DISK_SPACE | Inr _ \<Rightarrow> True)"
proof (induction gs arbitrary: st)
  case (Cons g gs)
  obtain q st1 where 1: "admit_group env a g st = (q, st1)" by (metis surjective_pairing)
  note tidy = admit_group_tidy [OF Cons.prems(1) 1]
  show ?case
  proof (cases q)
    case None
    then have "admit_groups env a act gs st1 = (r, st')" using Cons.prems(2) 1 by simp
    then show ?thesis using Cons.IH [of st1] tidy tidy_trans unfolding tidy_prune_def by blast
  next
    case (Some f)
    then show ?thesis using Cons.prems(2) 1 tidy by (auto simp: insufficientSpace_def Let_def)
  qed
qed (auto simp: tidy_prune_def)


text \<open>Witness: a machine is created while another process holds a lease on the only image; the disk is
  short of space, so the older image nobody needs is evicted, and the pinned one stays.\<close>

definition demo_call :: admit_call where
  "demo_call = \<lparr>ac_self = 7, ac_uuid = ''u'', ac_now = ''t'', ac_action = ''create'',
     ac_need = \<lparr>nd_parts = [\<lparr>pt_label = ''boot disk'', pt_bytes = 60, pt_path = ''/d'', pt_hold = True\<rparr>],
                nd_protectVersions = [], nd_pins = []\<rparr>,
     ac_reclaim = True, ac_fs = \<lambda>_. (1, ''/''), ac_dataDir = ''/d'', ac_cacheDir = ''/d/cache'', ac_inUse = [], ac_reserve = 10\<rparr>"

definition demo_leases :: lease_dir where
  "demo_leases = Some [(''5-a.json'', Some \<lparr>le_pid = 5, le_at = ''t'', le_action = ''add'',
     le_pins = [''chr-7.15.img''], le_reservations = [\<lparr>sr_dev = 1, sr_bytes = 20\<rparr>]\<rparr>)]"

definition demo_env :: "nat \<Rightarrow> pass_env" where
  "demo_env k = \<lparr>pe_now = 10000000, pe_free = \<lambda>dir _. 130 - 40 * int (length (dir_files dir)), pe_del = \<lambda>_. None, pe_lost = \<lambda>_. False\<rparr>"


end
