(* ===== verification/Settings.thy ===== *)
theory Settings
  imports Cache_Policy
begin

text \<open>
  The user's settings (\<open>settings.ts\<close>, \<open>settings-file.ts\<close>, \<open>paths.ts\<close>): the managed keys with their
  validation, the lines of \<open>quickchr.env\<close>, the resolution of a setting from the environment, the
  file and the defaults, and the edits that touch one line and leave every other as it is.
\<close>

section \<open>Values and keys\<close>

datatype settings_value = StrValue string | NumValue nat | BoolValue bool

datatype settings_source = FromEnv | FromFile | FromDefault

datatype setting_key =
  DefaultChannel | DefaultArch | Accel | CacheMaxSize | StorageReserve | TimeoutExtra | SecureLogin

definition SETTINGS_KEYS :: "setting_key list" where
  "SETTINGS_KEYS = [DefaultChannel, DefaultArch, Accel, CacheMaxSize, StorageReserve, TimeoutExtra, SecureLogin]"

definition key_attr :: "setting_key \<Rightarrow> string" where
  "key_attr k =
     (case k of DefaultChannel \<Rightarrow> ''default-channel'' | DefaultArch \<Rightarrow> ''default-arch'' | Accel \<Rightarrow> ''accel''
      | CacheMaxSize \<Rightarrow> ''cache-max-size'' | StorageReserve \<Rightarrow> ''storage-reserve'' | TimeoutExtra \<Rightarrow> ''timeout-extra''
      | SecureLogin \<Rightarrow> ''secure-login'')"

definition key_env :: "setting_key \<Rightarrow> string" where
  "key_env k =
     (case k of DefaultChannel \<Rightarrow> ''QUICKCHR_DEFAULT_CHANNEL'' | DefaultArch \<Rightarrow> ''QUICKCHR_DEFAULT_ARCH''
      | Accel \<Rightarrow> ''QUICKCHR_ACCEL'' | CacheMaxSize \<Rightarrow> ''QUICKCHR_CACHE_MAX_SIZE''
      | StorageReserve \<Rightarrow> ''QUICKCHR_STORAGE_RESERVE'' | TimeoutExtra \<Rightarrow> ''QUICKCHR_TIMEOUT_EXTRA''
      | SecureLogin \<Rightarrow> ''QUICKCHR_SECURE_LOGIN'')"

definition setting_error :: "'a result" where
  "setting_error = Inl (QuickCHRError INVALID_SETTING_VALUE ''Invalid value'')"

definition parseChannel :: "string \<Rightarrow> settings_value result" where
  "parseChannel raw = (if raw \<in> set (map channel_str CHANNELS) then Inr (StrValue raw) else setting_error)"

definition parseArchSetting :: "string \<Rightarrow> settings_value result" where
  "parseArchSetting raw = (if raw \<in> set (map arch_str [ARM64, X86] @ [''auto'']) then Inr (StrValue raw) else setting_error)"

definition ACCEL_MODES :: "string list" where
  "ACCEL_MODES = [''auto'', ''tcg'', ''hvf'', ''kvm'']"

definition parseAccelMode :: "string \<Rightarrow> string result" where
  "parseAccelMode raw = (let v = to_lower (trim raw) in if v \<in> set ACCEL_MODES then Inr v else setting_error)"

definition sizeSetting :: "string \<Rightarrow> settings_value result" where
  "sizeSetting raw = (case parseSizeString raw of Inl _ \<Rightarrow> setting_error | Inr n \<Rightarrow> Inr (NumValue n))"

definition parseTimeoutExtraSeconds :: "string \<Rightarrow> nat result" where
  "parseTimeoutExtraSeconds raw =
     (let n = Number_of raw in
      if \<not> is_integer n \<or> int_value n < 0 then setting_error else Inr (nat (int_value n)))"

definition parseSecureLogin :: "string \<Rightarrow> settings_value result" where
  "parseSecureLogin raw =
     (let v = to_lower (trim raw) in
      if v \<in> set [''true'', ''1'', ''yes'', ''on''] then Inr (BoolValue True)
      else if v \<in> set [''false'', ''0'', ''no'', ''off''] then Inr (BoolValue False)
      else setting_error)"

definition key_parse :: "setting_key \<Rightarrow> string \<Rightarrow> settings_value result" where
  "key_parse k raw =
     (case k of DefaultChannel \<Rightarrow> parseChannel raw | DefaultArch \<Rightarrow> parseArchSetting raw
      | Accel \<Rightarrow> map_sum id StrValue (parseAccelMode raw) | CacheMaxSize \<Rightarrow> sizeSetting raw
      | StorageReserve \<Rightarrow> sizeSetting raw | TimeoutExtra \<Rightarrow> map_sum id NumValue (parseTimeoutExtraSeconds raw)
      | SecureLogin \<Rightarrow> parseSecureLogin raw)"

text \<open>\<open>String(v)\<close>.\<close>

definition key_serialize :: "settings_value \<Rightarrow> string" where
  "key_serialize v = (case v of StrValue s \<Rightarrow> s | NumValue n \<Rightarrow> show_nat n | BoolValue b \<Rightarrow> if b then ''true'' else ''false'')"

definition key_default :: "setting_key \<Rightarrow> settings_value option" where
  "key_default k =
     (case k of DefaultChannel \<Rightarrow> Some (StrValue ''stable'') | DefaultArch \<Rightarrow> Some (StrValue ''auto'')
      | Accel \<Rightarrow> Some (StrValue ''auto'') | CacheMaxSize \<Rightarrow> Some (NumValue DEFAULT_CACHE_MAX_BYTES)
      | StorageReserve \<Rightarrow> Some (NumValue DEFAULT_STORAGE_RESERVE_BYTES) | TimeoutExtra \<Rightarrow> Some (NumValue 0)
      | SecureLogin \<Rightarrow> None)"

definition strip_prefix :: "string \<Rightarrow> string" where
  "strip_prefix name =
     (if to_lower (take 8 name) = ''quickchr'' \<and> 8 < length name \<and> (name ! 8 = CHR ''_'' \<or> name ! 8 = CHR ''-'')
      then drop 9 name else name)"

definition lookupSettingsKey :: "string \<Rightarrow> setting_key option" where
  "lookupSettingsKey input =
     (let name = map (\<lambda>c. if c = CHR ''_'' then CHR ''-'' else c) (to_lower (strip_prefix (trim input))) in
      find (\<lambda>k. key_attr k = name) SETTINGS_KEYS)"

definition unknownKeyError :: qerror where
  "unknownKeyError = QuickCHRError INVALID_SETTING_KEY ''not a recognized quickchr setting''"

section \<open>The file\<close>

record settings_file =
  sf_text :: "string option"
  sf_bak :: "string option"

definition readSettingsFileLines :: "settings_file \<Rightarrow> string list" where
  "readSettingsFileLines f =
     (case sf_text f of
        None \<Rightarrow> []
      | Some t \<Rightarrow> (let ls = split_on newline t in if last ls = [] then butlast ls else ls))"

definition comment_line :: "string \<Rightarrow> bool" where
  "comment_line t \<longleftrightarrow> t = [] \<or> starts_with ''#'' t"

text \<open>\<open>indexOf("=") <= 0\<close>: no \<open>=\<close>, or one at the front.\<close>

definition eq_at :: "string \<Rightarrow> nat option" where
  "eq_at t = (case index_of CHR ''='' t of Some i \<Rightarrow> if i = 0 then None else Some i | None \<Rightarrow> None)"

definition ident_start :: "char \<Rightarrow> bool" where
  "ident_start c \<longleftrightarrow> is_upper c \<or> is_lower c \<or> c = CHR ''_''"

definition env_ident :: "string \<Rightarrow> bool" where
  "env_ident s \<longleftrightarrow> s \<noteq> [] \<and> ident_start (hd s) \<and> list_all (\<lambda>c. is_alnum c \<or> c = CHR ''_'') (tl s)"

definition parseSettingsFileLines :: "string list \<Rightarrow> (string \<times> string) list" where
  "parseSettingsFileLines lines =
     fold (\<lambda>raw res. (let line = trim raw in
        if comment_line line then res
        else (case eq_at line of
                None \<Rightarrow> res
              | Some eq \<Rightarrow> (let key = trim (take eq line) in
                  if \<not> env_ident key then res else al_put key (trim (drop (Suc eq) line)) res)))) lines []"

definition loadSettingsFileDefaults :: "settings_file \<Rightarrow> (string \<times> string) list" where
  "loadSettingsFileDefaults f = parseSettingsFileLines (readSettingsFileLines f)"

definition lineEnvKey :: "string \<Rightarrow> string option" where
  "lineEnvKey line =
     (let trimmed = trim line in
      if comment_line trimmed then None else map_option (\<lambda>eq. trim (take eq trimmed)) (eq_at trimmed))"

definition matchingLineIndices :: "string list \<Rightarrow> string \<Rightarrow> nat list" where
  "matchingLineIndices lines envKey = filter (\<lambda>i. lineEnvKey (lines ! i) = Some envKey) [0..<length lines]"

definition rawValueAtLine :: "string list \<Rightarrow> nat \<Rightarrow> string" where
  "rawValueAtLine lines i =
     (let line = trim (lines ! i) in
      case index_of CHR ''='' line of Some eq \<Rightarrow> trim (drop (Suc eq) line) | None \<Rightarrow> trim line)"

text \<open>The atomic write: a backup of the old file when it can be copied, then the rename, which may fail.\<close>

record write_outcome =
  wo_copies :: bool
  wo_renames :: bool

datatype settings_error = Refused qerror | WriteFailed

definition writeSettingsFileLinesSync :: "write_outcome \<Rightarrow> string list \<Rightarrow> settings_file \<Rightarrow> bool \<times> settings_file" where
  "writeSettingsFileLinesSync wo lines f =
     (let f1 = (if sf_text f \<noteq> None \<and> wo_copies wo then f\<lparr>sf_bak := sf_text f\<rparr> else f);
          content = (if lines \<noteq> [] then join [newline] lines @ [newline] else []) in
      if wo_renames wo then (True, f1\<lparr>sf_text := Some content\<rparr>) else (False, f1))"

section \<open>Resolution\<close>

record resolved_setting =
  rv_value :: "settings_value option"
  rv_source :: settings_source

type_synonym process_env = "string \<Rightarrow> string option"

definition parsed_as :: "setting_key \<Rightarrow> settings_source \<Rightarrow> string \<Rightarrow> resolved_setting result" where
  "parsed_as k src raw = map_sum id (\<lambda>v. \<lparr>rv_value = Some v, rv_source = src\<rparr>) (key_parse k raw)"

definition resolve_key :: "setting_key \<Rightarrow> process_env \<Rightarrow> settings_file \<Rightarrow> resolved_setting result" where
  "resolve_key k env f =
     (case env (key_env k) of
        Some raw \<Rightarrow> parsed_as k FromEnv raw
      | None \<Rightarrow> (case al_get (loadSettingsFileDefaults f) (key_env k) of
          Some raw \<Rightarrow> parsed_as k FromFile raw
        | None \<Rightarrow> Inr \<lparr>rv_value = key_default k, rv_source = FromDefault\<rparr>))"

definition resolveSetting :: "string \<Rightarrow> process_env \<Rightarrow> settings_file \<Rightarrow> resolved_setting result" where
  "resolveSetting attr env f =
     (case lookupSettingsKey attr of None \<Rightarrow> Inl unknownKeyError | Some k \<Rightarrow> resolve_key k env f)"

definition settingsGet :: "string \<Rightarrow> process_env \<Rightarrow> settings_file \<Rightarrow> (string \<times> resolved_setting) result" where
  "settingsGet attr env f =
     (case lookupSettingsKey attr of
        None \<Rightarrow> Inl unknownKeyError
      | Some k \<Rightarrow> map_sum id (Pair (key_attr k)) (resolveSetting attr env f))"

definition settingsPrint :: "process_env \<Rightarrow> settings_file \<Rightarrow> (string \<times> resolved_setting) list" where
  "settingsPrint env f =
     map (\<lambda>k. (key_attr k,
        (case resolveSetting (key_attr k) env f of
           Inr r \<Rightarrow> r
         | Inl _ \<Rightarrow>
             (case env (key_env k) of
                Some raw \<Rightarrow> \<lparr>rv_value = Some (StrValue raw), rv_source = FromEnv\<rparr>
              | None \<Rightarrow> \<lparr>rv_value = map_option StrValue (al_get (loadSettingsFileDefaults f) (key_env k)),
                         rv_source = FromFile\<rparr>)))) SETTINGS_KEYS"

section \<open>Edits\<close>

definition splice_out :: "nat \<Rightarrow> 'a list \<Rightarrow> 'a list" where
  "splice_out i xs = take i xs @ drop (Suc i) xs"

record set_result =
  st_key :: string
  st_previous :: "settings_value option"
  st_value :: settings_value

definition previous_value :: "setting_key \<Rightarrow> string option \<Rightarrow> settings_value option" where
  "previous_value k raw =
     (case raw of
        None \<Rightarrow> None
      | Some r \<Rightarrow> (case key_parse k r of Inr v \<Rightarrow> Some v | Inl _ \<Rightarrow> Some (StrValue r)))"

text \<open>One line for the key: the last one is rewritten, earlier ones are spliced out from the end.\<close>

definition set_lines :: "string \<Rightarrow> string \<Rightarrow> string list \<Rightarrow> string list" where
  "set_lines envKey newLine lines =
     (let indices = matchingLineIndices lines envKey in
      if indices \<noteq> [] then fold splice_out (rev (butlast indices)) (lines[last indices := newLine])
      else lines @ [newLine])"

definition settingsSet :: "write_outcome \<Rightarrow> string \<Rightarrow> string \<Rightarrow> settings_file \<Rightarrow> (settings_error + set_result) \<times> settings_file" where
  "settingsSet wo attr rawValue f =
     (case lookupSettingsKey attr of
        None \<Rightarrow> (Inl (Refused unknownKeyError), f)
      | Some k \<Rightarrow>
         (case key_parse k rawValue of
            Inl e \<Rightarrow> (Inl (Refused e), f)
          | Inr parsed \<Rightarrow>
              (let lines = readSettingsFileLines f; indices = matchingLineIndices lines (key_env k);
                   previous = previous_value k (if indices \<noteq> [] then Some (rawValueAtLine lines (last indices)) else None) in
               case writeSettingsFileLinesSync wo (set_lines (key_env k) (key_env k @ ''='' @ key_serialize parsed) lines) f of
                 (True, f') \<Rightarrow> (Inr \<lparr>st_key = key_attr k, st_previous = previous, st_value = parsed\<rparr>, f')
               | (False, f') \<Rightarrow> (Inl WriteFailed, f'))))"

definition managed_attr :: "string \<Rightarrow> string option" where
  "managed_attr line =
     Option.bind (lineEnvKey line) (\<lambda>key. map_option key_attr (find (\<lambda>k. key_env k = key) SETTINGS_KEYS))"

definition settingsReset :: "write_outcome \<Rightarrow> string option \<Rightarrow> settings_file \<Rightarrow> (settings_error + string list) \<times> settings_file" where
  "settingsReset wo attr f =
     (let lines = readSettingsFileLines f in
      case attr of
        Some a \<Rightarrow>
          (case lookupSettingsKey a of
             None \<Rightarrow> (Inl (Refused unknownKeyError), f)
           | Some k \<Rightarrow>
               (let indices = matchingLineIndices lines (key_env k) in
                if indices = [] then (Inr [], f)
                else (case writeSettingsFileLinesSync wo (fold splice_out (rev indices) lines) f of
                        (True, f') \<Rightarrow> (Inr [key_attr k], f') | (False, f') \<Rightarrow> (Inl WriteFailed, f'))))
      | None \<Rightarrow>
          (let cleared = List.map_filter managed_attr lines; kept = filter (\<lambda>l. managed_attr l = None) lines in
           if cleared = [] then (Inr [], f)
           else (case writeSettingsFileLinesSync wo kept f of
                   (True, f') \<Rightarrow> (Inr cleared, f') | (False, f') \<Rightarrow> (Inl WriteFailed, f'))))"

section \<open>Lines\<close>

definition line_value :: "string \<Rightarrow> string" where
  "line_value l = trim (drop (Suc (the (eq_at (trim l)))) (trim l))"

definition key_lines :: "string \<Rightarrow> string list \<Rightarrow> string list" where
  "key_lines key = filter (\<lambda>l. lineEnvKey l = Some key)"

definition other_lines :: "string \<Rightarrow> string list \<Rightarrow> string list" where
  "other_lines key = filter (\<lambda>l. lineEnvKey l \<noteq> Some key)"

lemma line_filters [simp]:
  "key_lines key [] = []" "key_lines key (xs @ ys) = key_lines key xs @ key_lines key ys"
  "key_lines key (l # ls) = (if lineEnvKey l = Some key then [l] else []) @ key_lines key ls"
  "other_lines key [] = []" "other_lines key (xs @ ys) = other_lines key xs @ other_lines key ys"
  "other_lines key (l # ls) = (if lineEnvKey l = Some key then [] else [l]) @ other_lines key ls"
  by (simp_all add: key_lines_def other_lines_def)

lemma key_of_other_lines: "j \<noteq> key \<Longrightarrow> key_lines j (other_lines key ls) = key_lines j ls"
  by (induction ls) auto

lemma key_lines_self [simp]: "key_lines key (other_lines key ls) = []"
  by (induction ls) auto

text \<open>Reading a value is reading the last line of its key.\<close>

lemma parse_snoc:
  "al_get (parseSettingsFileLines (ls @ [l])) key =
     (if lineEnvKey l = Some key \<and> env_ident key then Some (line_value l) else al_get (parseSettingsFileLines ls) key)"
  by (auto simp: parseSettingsFileLines_def lineEnvKey_def Let_def al.get_put_iff line_value_def split: option.splits)

lemma file_lookup:
  "env_ident key \<Longrightarrow> al_get (parseSettingsFileLines ls) key =
     (if key_lines key ls = [] then None else Some (line_value (last (key_lines key ls))))"
proof (induction ls rule: rev_induct)
  case Nil
  show ?case by (simp add: parseSettingsFileLines_def)
qed (simp add: parse_snoc)

text \<open>What is written is read back, line by line.\<close>

lemma read_lines_plain: "l \<in> set (readSettingsFileLines f) \<Longrightarrow> newline \<notin> set l"
  by (auto simp: readSettingsFileLines_def Let_def split: option.splits if_splits
      dest!: in_set_butlastD dest: split_on_pieces)

lemma read_written:
  assumes "\<And>l. l \<in> set ls \<Longrightarrow> newline \<notin> set l" and "writeSettingsFileLinesSync wo ls f = (True, f')"
  shows "readSettingsFileLines f' = ls"
proof (cases "ls = []")
  case True
  then show ?thesis using assms(2) by (auto simp: writeSettingsFileLinesSync_def Let_def readSettingsFileLines_def split: if_splits)
next
  case False
  then have "split_on newline (join [newline] ls @ [newline]) = ls @ [[]]"
    using split_on_append [of newline "join [newline] ls" "[]"] split_on_join [OF False, of newline] assms(1) by simp
  then show ?thesis using assms(2) False
    by (auto simp: writeSettingsFileLinesSync_def Let_def readSettingsFileLines_def split: if_splits)
qed

lemma write_failed: "writeSettingsFileLinesSync wo ls f = (False, f') \<Longrightarrow> sf_text f' = sf_text f"
  by (auto simp: writeSettingsFileLinesSync_def Let_def split: if_splits)

section \<open>Splicing\<close>

lemma indices_snoc:
  "matchingLineIndices (a @ [x]) key = matchingLineIndices a key @ (if lineEnvKey x = Some key then [length a] else [])"
proof -
  have "filter (\<lambda>i. lineEnvKey ((a @ [x]) ! i) = Some key) [0..<length a] = filter (\<lambda>i. lineEnvKey (a ! i) = Some key) [0..<length a]"
    by (rule filter_cong) (simp_all add: nth_append)
  then show ?thesis by (simp add: matchingLineIndices_def)
qed

lemma indices_append_none: "key_lines key b = [] \<Longrightarrow> matchingLineIndices (a @ b) key = matchingLineIndices a key"
proof (induction b rule: rev_induct)
  case (snoc x b)
  then show ?case using indices_snoc [of "a @ b" x key] by (auto split: if_splits)
qed simp

lemma indices_Nil: "matchingLineIndices ls key = [] \<longleftrightarrow> key_lines key ls = []"
  by (induction ls rule: rev_induct) (simp_all add: matchingLineIndices_def [of "[]"] indices_snoc)

lemma splice_snoc: "splice_out (length a) (a @ x # rest) = a @ rest"
  by (simp add: splice_out_def)

lemma splice_indices: "fold splice_out (rev (matchingLineIndices a key)) (a @ rest) = other_lines key a @ rest"
proof (induction a arbitrary: rest rule: rev_induct)
  case Nil
  show ?case by (simp add: matchingLineIndices_def)
next
  case (snoc x a)
  show ?case
  proof (cases "lineEnvKey x = Some key")
    case True
    then show ?thesis using snoc [of rest] by (simp add: indices_snoc splice_snoc)
  next
    case False
    then show ?thesis using snoc [of "x # rest"] by (simp add: indices_snoc)
  qed
qed

lemma split_last_key: "key_lines key ls \<noteq> [] \<Longrightarrow> \<exists>a x b. ls = a @ x # b \<and> lineEnvKey x = Some key \<and> key_lines key b = []"
proof (induction ls rule: rev_induct)
  case (snoc x xs)
  show ?case
  proof (cases "lineEnvKey x = Some key")
    case True
    then show ?thesis by (intro exI [of _ xs] exI [of _ x] exI [of _ "[]"]) simp
  next
    case False
    then obtain a y b where "xs = a @ y # b" "lineEnvKey y = Some key" "key_lines key b = []" using snoc by auto
    then show ?thesis using False by (intro exI [of _ a] exI [of _ y] exI [of _ "b @ [x]"]) simp
  qed
qed simp

lemma set_lines_result:
  assumes new: "lineEnvKey n = Some key"
  shows "key_lines key (set_lines key n ls) = [n]" and "other_lines key (set_lines key n ls) = other_lines key ls"
    and "set (set_lines key n ls) \<subseteq> insert n (set ls)"
proof -
  have "key_lines key (set_lines key n ls) = [n] \<and> other_lines key (set_lines key n ls) = other_lines key ls
      \<and> set (set_lines key n ls) \<subseteq> insert n (set ls)"
  proof (cases "key_lines key ls = []")
    case True
    then show ?thesis using new by (auto simp: set_lines_def indices_Nil)
  next
    case False
    then obtain a x b where ls: "ls = a @ x # b" "lineEnvKey x = Some key" "key_lines key b = []" using split_last_key by blast
    have "matchingLineIndices ls key = matchingLineIndices a key @ [length a]"
      using indices_append_none [OF ls(3), of "a @ [x]"] indices_snoc [of a x key] ls by simp
    then have "set_lines key n ls = other_lines key a @ n # b"
      using splice_indices [of a key "n # b"] by (simp add: set_lines_def ls)
    moreover have "other_lines key (other_lines key a) = other_lines key a" "set (other_lines key a) \<subseteq> set a"
      by (auto simp: other_lines_def)
    ultimately show ?thesis using new ls by auto
  qed
  then show "key_lines key (set_lines key n ls) = [n]" "other_lines key (set_lines key n ls) = other_lines key ls"
    "set (set_lines key n ls) \<subseteq> insert n (set ls)" by blast+
qed

section \<open>Values and their printed form\<close>

lemma key_cases: "P DefaultChannel \<Longrightarrow> P DefaultArch \<Longrightarrow> P Accel \<Longrightarrow> P CacheMaxSize \<Longrightarrow> P StorageReserve \<Longrightarrow> P TimeoutExtra
    \<Longrightarrow> P SecureLogin \<Longrightarrow> P k"
  by (cases k) simp_all

lemma key_env_inj: "key_env j = key_env k \<longleftrightarrow> j = k"
  by (cases j; cases k) (simp_all add: key_env_def)

lemma key_attr_plain: "list_all (\<lambda>c. \<not> is_space c \<and> lower_char c = c \<and> c \<noteq> CHR ''_'') (key_attr k) \<and> strip_prefix (key_attr k) = key_attr k"
  by (rule key_cases [of _ k]) (simp_all add: key_attr_def char_class_defs is_space_def lower_char_def strip_prefix_def to_lower_def)

lemma lookup_attr: "lookupSettingsKey (key_attr k) = Some k"
proof -
  have "trim (key_attr k) = key_attr k" using key_attr_plain [of k] by (auto intro: trim_no_space simp: list_all_iff)
  moreover have "map (\<lambda>c. if c = CHR ''_'' then CHR ''-'' else c) (to_lower (key_attr k)) = key_attr k"
    using key_attr_plain [of k] by (auto simp: to_lower_def list_all_iff map_idI)
  moreover have "find (\<lambda>j. key_attr j = key_attr k) SETTINGS_KEYS = Some k"
    by (cases k) (simp_all add: key_attr_def SETTINGS_KEYS_def)
  ultimately show ?thesis using key_attr_plain [of k] by (simp add: lookupSettingsKey_def Let_def)
qed

lemma key_env_shape:
  "env_ident (key_env k) \<and> list_all (\<lambda>c. \<not> is_space c \<and> c \<noteq> CHR ''='' \<and> c \<noteq> newline) (key_env k) \<and> \<not> starts_with ''#'' (key_env k @ s)"
  by (rule key_cases [of _ k])
    (simp_all add: key_env_def env_ident_def ident_start_def starts_with_def char_class_defs is_space_def newline_def)

lemma parse_show_size: "parseSizeString (show_nat n) = Inr n"
proof -
  have "size_number (show_nat n) = Some (show_nat n, [], [])"
    using takeWhile_all_digits [OF show_nat_digits [of n]] by (simp add: size_number_def Let_def)
  then show ?thesis by (simp add: parseSizeString_def drop_letter_def)
qed

definition plain_text :: "string \<Rightarrow> bool" where
  "plain_text s \<longleftrightarrow> list_all (\<lambda>c. \<not> is_space c \<and> c \<noteq> newline) s"

lemma plain_show_nat: "plain_text (show_nat n)"
  using show_nat_digits [of n]
  by (auto simp: plain_text_def list_all_iff is_digit_not_space) (auto simp: newline_def is_digit_def)

text \<open>A value that passed the validation is printed in a form that passes it with the same value.\<close>

lemma serialize_parse:
  assumes "key_parse k raw = Inr v"
  shows "key_parse k (key_serialize v) = Inr v \<and> plain_text (key_serialize v)"
proof (cases k)
  case DefaultChannel
  then have v: "v = StrValue raw" "raw \<in> set (map channel_str CHANNELS)"
    using assms by (auto simp: key_parse_def parseChannel_def setting_error_def split: if_splits)
  then have "plain_text raw"
    by (auto simp: CHANNELS_def channel_str_def plain_text_def is_space_def newline_def)
  then show ?thesis using v DefaultChannel assms by (simp add: key_serialize_def)
next
  case DefaultArch
  then have v: "v = StrValue raw" "raw \<in> set (map arch_str [ARM64, X86] @ [''auto''])"
    using assms by (auto simp: key_parse_def parseArchSetting_def setting_error_def split: if_splits)
  then have "plain_text raw" by (auto simp: arch_str_def plain_text_def is_space_def newline_def)
  then show ?thesis using v DefaultArch assms by (simp add: key_serialize_def)
next
  case Accel
  then obtain a where v: "v = StrValue a" "a \<in> set ACCEL_MODES"
    using assms by (auto simp: key_parse_def parseAccelMode_def setting_error_def Let_def split: if_splits)
  have "list_all (\<lambda>a. to_lower (trim a) = a \<and> plain_text a) ACCEL_MODES" by code_simp
  then have "to_lower (trim a) = a \<and> plain_text a" using v(2) by (auto simp: list_all_iff)
  then show ?thesis using v Accel by (simp add: key_serialize_def key_parse_def parseAccelMode_def Let_def)
next
  case CacheMaxSize
  then show ?thesis using assms
    by (auto simp: key_parse_def sizeSetting_def setting_error_def key_serialize_def parse_show_size plain_show_nat split: sum.splits)
next
  case StorageReserve
  then show ?thesis using assms
    by (auto simp: key_parse_def sizeSetting_def setting_error_def key_serialize_def parse_show_size plain_show_nat split: sum.splits)
next
  case TimeoutExtra
  then obtain n where "v = NumValue n"
    using assms by (auto simp: key_parse_def parseTimeoutExtraSeconds_def setting_error_def Let_def split: if_splits)
  then show ?thesis using TimeoutExtra
    by (simp add: key_serialize_def key_parse_def parseTimeoutExtraSeconds_def plain_show_nat)
next
  case SecureLogin
  then obtain b where v: "v = BoolValue b"
    using assms by (auto simp: key_parse_def parseSecureLogin_def setting_error_def Let_def split: if_splits)
  have "key_parse SecureLogin ''true'' = Inr (BoolValue True) \<and> key_parse SecureLogin ''false'' = Inr (BoolValue False)
      \<and> plain_text ''true'' \<and> plain_text ''false''" by code_simp
  then show ?thesis using v SecureLogin by (simp add: key_serialize_def)
qed

lemma setting_line:
  assumes "plain_text s"
  shows "lineEnvKey (key_env k @ ''='' @ s) = Some (key_env k)" and "line_value (key_env k @ ''='' @ s) = s"
    and "newline \<notin> set (key_env k @ ''='' @ s)"
proof -
  let ?l = "key_env k @ ''='' @ s"
  have t: "trim ?l = ?l" "trim (key_env k) = key_env k" "trim s = s"
  proof -
    have sp: "\<not> is_space c" if "c \<in> set ?l" for c
    proof -
      have "\<not> is_space CHR ''=''" by (simp add: is_space_def)
      then show ?thesis using that key_env_shape [of k s] assms by (auto simp: plain_text_def list_all_iff)
    qed
    then show "trim ?l = ?l" by (rule trim_no_space)
    show "trim (key_env k) = key_env k" "trim s = s" using sp by (auto intro!: trim_no_space)
  qed
  have k: "CHR ''='' \<notin> set (key_env k)" "key_env k \<noteq> []" using key_env_shape [of k s] by (auto simp: list_all_iff env_ident_def)
  have eq: "eq_at ?l = Some (length (key_env k))" using k by (simp add: eq_at_def)
  have c: "\<not> comment_line ?l" using key_env_shape [of k "''='' @ s"] k by (simp add: comment_line_def)
  show "lineEnvKey ?l = Some (key_env k)" using t c eq by (simp add: lineEnvKey_def)
  show "line_value ?l = s" using t eq by (simp add: line_value_def)
  show "newline \<notin> set ?l" using key_env_shape [of k s] assms by (auto simp: plain_text_def list_all_iff newline_def)
qed

section \<open>Setting and resetting\<close>

lemma resolve_from_file:
  "resolve_key k env f =
     (case env (key_env k) of
        Some raw \<Rightarrow> parsed_as k FromEnv raw
      | None \<Rightarrow> if key_lines (key_env k) (readSettingsFileLines f) = [] then Inr \<lparr>rv_value = key_default k, rv_source = FromDefault\<rparr>
                else parsed_as k FromFile (line_value (last (key_lines (key_env k) (readSettingsFileLines f)))))"
  using key_env_shape [of k "[]"]
  by (simp add: resolve_key_def loadSettingsFileDefaults_def file_lookup split: option.splits)


lemma splice_all: "fold splice_out (rev (matchingLineIndices ls key)) ls = other_lines key ls"
  using splice_indices [of ls key "[]"] by simp

lemma managed_key: "managed_attr l \<noteq> None \<longleftrightarrow> (\<exists>k. lineEnvKey l = Some (key_env k))"
proof
  assume "managed_attr l \<noteq> None"
  then show "\<exists>k. lineEnvKey l = Some (key_env k)"
    by (auto simp: managed_attr_def find_Some_iff bind_eq_Some_conv)
next
  assume "\<exists>k. lineEnvKey l = Some (key_env k)"
  then obtain k where k: "lineEnvKey l = Some (key_env k)" by blast
  have "k \<in> set SETTINGS_KEYS" by (cases k) (simp_all add: SETTINGS_KEYS_def)
  then have "find (\<lambda>j. key_env j = key_env k) SETTINGS_KEYS \<noteq> None" unfolding find_None_iff by blast
  with k show "managed_attr l \<noteq> None" by (simp add: managed_attr_def)
qed

text \<open>resetting one setting deletes every line of it and nothing else, and resetting all
  deletes exactly the lines of managed keys; afterwards a setting that was reset resolves to the
  environment's value or to its default. The lines that remain are kept as they were; a reset that
  has nothing to do or fails leaves the text alone.\<close>

theorem settings_reset:
  "case settingsReset wo attr f of
     (Inl _, f') \<Rightarrow> sf_text f' = sf_text f
   | (Inr cleared, f') \<Rightarrow>
       readSettingsFileLines f' = filter (\<lambda>l. case attr of
           None \<Rightarrow> managed_attr l = None
         | Some a \<Rightarrow> (case lookupSettingsKey a of None \<Rightarrow> True | Some k \<Rightarrow> lineEnvKey l \<noteq> Some (key_env k)))
         (readSettingsFileLines f)
       \<and> (if attr = None \<or> Option.bind attr lookupSettingsKey = Some k
          then resolve_key k env f' = (case env (key_env k) of
                 Some e \<Rightarrow> parsed_as k FromEnv e | None \<Rightarrow> Inr \<lparr>rv_value = key_default k, rv_source = FromDefault\<rparr>)
          else True)"
proof -
  let ?ls = "readSettingsFileLines f"
  have plain: "newline \<notin> set l" if "l \<in> set (filter P ?ls)" for l P using that read_lines_plain by auto
  have none: "resolve_key k env g = (case env (key_env k) of
      Some e \<Rightarrow> parsed_as k FromEnv e | None \<Rightarrow> Inr \<lparr>rv_value = key_default k, rv_source = FromDefault\<rparr>)"
    if "key_lines (key_env k) (readSettingsFileLines g) = []" for g
    using that by (simp add: resolve_from_file split: option.splits)
  show ?thesis
  proof (cases attr)
    case None
    let ?kept = "filter (\<lambda>l. managed_attr l = None) ?ls"
    obtain okw f' where w: "writeSettingsFileLinesSync wo ?kept f = (okw, f')" by (metis surjective_pairing)
    have gone: "key_lines (key_env k) ?kept = []" using managed_key by (force simp: key_lines_def filter_empty_conv)
    have "List.map_filter g xs = [] \<Longrightarrow> filter (\<lambda>x. g x = None) xs = xs" for g :: "string \<Rightarrow> string option" and xs
      by (induction xs) (auto simp: map_filter_Cons split: option.splits)
    then have same: "?kept = ?ls" if "List.map_filter managed_attr ?ls = []" using that by simp
    show ?thesis
    proof (cases "List.map_filter managed_attr ?ls = []")
      case True
      then show ?thesis using none [of f] gone same [OF True] by (simp add: settingsReset_def None Let_def)
    next
      case False
      have "readSettingsFileLines f' = ?kept" if okw
        by (rule read_written [where wo = wo and f = f]) (use w that plain in auto)
      then show ?thesis using False w write_failed none [of f'] gone
        by (cases okw) (auto simp: settingsReset_def None Let_def)
    qed
  next
    case (Some a)
    show ?thesis
    proof (cases "lookupSettingsKey a")
      case None
      then show ?thesis by (simp add: settingsReset_def Some)
    next
      case key: (Some i)
      let ?kept = "other_lines (key_env i) ?ls"
      obtain okw f' where w: "writeSettingsFileLinesSync wo ?kept f = (okw, f')" by (metis surjective_pairing)
      show ?thesis
      proof (cases "matchingLineIndices ?ls (key_env i) = []")
        case True
        then have nil: "key_lines (key_env i) ?ls = []" by (simp add: indices_Nil)
        then have "filter (\<lambda>l. lineEnvKey l \<noteq> Some (key_env i)) ?ls = ?ls"
          by (auto simp: key_lines_def filter_empty_conv filter_id_conv)
        then show ?thesis using none [of f] True nil by (auto simp: settingsReset_def Some key Let_def)
      next
        case False
        have "readSettingsFileLines f' = ?kept" if okw
          by (rule read_written [where wo = wo and f = f]) (use w that plain in \<open>auto simp: other_lines_def\<close>)
        then show ?thesis using False w write_failed none [of f']
          by (cases okw) (auto simp: settingsReset_def Some key Let_def splice_all other_lines_def [symmetric])
      qed
    qed
  qed
qed

end
