(* ===== verification/Claim.thy ===== *)
theory Claim
  imports State Lock_Log
begin

text \<open>
  How a creation is given its port block and MAC addresses (\<open>pickNewMachineResources\<close> and
  \<open>claimNewMachine\<close> of \<open>src/lib/quickchr.ts\<close>, \<open>listReservations\<close> of \<open>src/lib/lock.ts\<close>), as a
  system of any number of creations in any number of processes on one data directory. A creation
  advances by one read of the directory or one lock operation at a time, so that another
  process can save, release, remove or crash in between; the two locks are taken atomically, as
  \<open>Lock_Safety\<close> justifies. Reading the whole list of machines, or of reservations, is one step.
\<close>

section \<open>What a creation asks for and is given\<close>

text \<open>The options of \<open>StartOptions\<close> that the choice reads.\<close>

record start_options =
  so_portBase :: "nat option"
  so_excludePorts :: "string list option"
  so_extraPorts :: "port_mapping list option"
  so_networks :: "network_specifier list option"
  so_network :: "network_mode option"

record picked =
  pk_portBase :: nat
  pk_ports :: port_table
  pk_networks :: "network_config list"

definition or_empty :: "'a list option \<Rightarrow> 'a list" where
  "or_empty xs = (case xs of None \<Rightarrow> [] | Some l \<Rightarrow> l)"

text \<open>\<open>opts.portBase\<close>, where 0 counts as not given.\<close>

definition requested_base :: "start_options \<Rightarrow> nat option" where
  "requested_base opts = (case so_portBase opts of Some b \<Rightarrow> if b = 0 then None else Some b | None \<Rightarrow> None)"

definition assertPortBaseFree ::
    "nat \<Rightarrow> string \<Rightarrow> machine_state list \<Rightarrow> (string \<times> reservation) list \<Rightarrow> unit result" where
  "assertPortBaseFree portBase name machines reserved =
     (let others = map (\<lambda>m. (ms_name m, ms_portBase m)) (filter (\<lambda>m. ms_name m \<noteq> name) machines)
                 @ map (\<lambda>(n, b, _). (n, b)) reserved in
      case find (\<lambda>(_, b). overlaps b portBase) others of
        Some (n, b) \<Rightarrow> Inl (QuickCHRError PORT_CONFLICT (''portBase overlaps machine '' @ n))
      | None \<Rightarrow> Inr ())"

definition ports_view :: "machine_state \<Rightarrow> machine_ports" where
  "ports_view m = \<lparr>mc_name = ms_name m, mc_portBase = ms_portBase m, mc_ports = Some (ms_ports m)\<rparr>"

text \<open>The two halves of \<open>pickNewMachineResources\<close>, before and after the probes. \<open>machines\<close> and
  \<open>reserved\<close> were read first; \<open>d\<close> is the directory when the half reads it again.\<close>

definition choose_base ::
    "(nat \<Rightarrow> nat \<Rightarrow> probe_event) \<Rightarrow> string \<Rightarrow> start_options \<Rightarrow> machine_state list \<Rightarrow>
       (string \<times> reservation) list \<Rightarrow> datadir \<Rightarrow> nat result" where
  "choose_base net name opts machines reserved d =
     (case requested_base opts of
        Some b \<Rightarrow> bind_result (assertPortBaseFree b name machines reserved) (\<lambda>_. Inr b)
      | None \<Rightarrow> findAvailablePortBlock net (getUsedPortBases d @ map (\<lambda>(_, b, _). b) reserved)
                  (or_empty (so_excludePorts opts)) (or_empty (so_extraPorts opts)) None)"

definition choose_rest ::
    "(string \<Rightarrow> nat list) \<Rightarrow> string \<Rightarrow> start_options \<Rightarrow> machine_state list \<Rightarrow>
       (string \<times> reservation) list \<Rightarrow> nat \<Rightarrow> datadir \<Rightarrow> picked option result" where
  "choose_rest digest name opts machines reserved portBase d =
     (case validateExplicitExtraPorts (so_extraPorts opts) portBase (or_empty (so_excludePorts opts))
             (map ports_view machines) (Some name) of
        Inl e \<Rightarrow> Inl e
      | Inr _ \<Rightarrow>
          (let usedMacs = getUsedMacs d @ concat (map (\<lambda>(_, _, macs). macs) reserved) in
           Inr (map_option
             (\<lambda>ns. \<lparr>pk_portBase = portBase,
                    pk_ports = buildPortMappings portBase (or_empty (so_excludePorts opts)) (or_empty (so_extraPorts opts)),
                    pk_networks = ns\<rparr>)
             (assignMacs digest name (resolveStartNetworks (so_networks opts) (so_network opts)) usedMacs))))"

text \<open>The whole function when nothing else runs; \<open>Inr None\<close> does not return.\<close>

definition pickNewMachineResources ::
    "(string \<Rightarrow> nat list) \<Rightarrow> (nat \<Rightarrow> nat \<Rightarrow> probe_event) \<Rightarrow> string \<Rightarrow> start_options \<Rightarrow>
       (string \<times> reservation) list \<Rightarrow> datadir \<Rightarrow> picked option result" where
  "pickNewMachineResources digest net name opts reserved d =
     (let machines = loadAllMachines d in
      bind_result (choose_base net name opts machines reserved d)
        (\<lambda>b. choose_rest digest name opts machines reserved b d))"

section \<open>The world\<close>

text \<open>Where a creation stands: it waits for the allocation lock, holds it and reads, holds the
  machine lock, has saved its \<open>machine.json\<close>, or is over.\<close>

datatype alloc_phase =
    Waiting
  | Allocating
  | SawMachines "machine_state list"
  | SawReserved "machine_state list" "(string \<times> reservation) list"
  | ChoseBase "machine_state list" "(string \<times> reservation) list" nat
  | Chosen picked
  | Claimed picked
  | SavedState picked
  | Over "unit result"

record creation =
  cr_pid :: nat
  cr_name :: string
  cr_opts :: start_options
  cr_phase :: alloc_phase

text \<open>\<open>aw_locks\<close> holds the newest record of each machine's lock, \<open>aw_alloc\<close> the creation with the
  allocation lock, \<open>aw_dead\<close> the processes that crashed. \<open>aw_explicit\<close> is not part of the
  program: it remembers the machines whose last claim was of a base the caller named.\<close>

record alloc_world =
  aw_disk :: datadir
  aw_locks :: "(string \<times> lrec) list"
  aw_alloc :: "nat option"
  aw_procs :: "(nat \<times> creation) list"
  aw_dead :: "nat list"
  aw_explicit :: "string list"

text \<open>\<open>currentHolder(machineLockPath(...))\<close>: the lock lives in the machine's directory.\<close>

definition lock_holder :: "alloc_world \<Rightarrow> string \<Rightarrow> lrec option" where
  "lock_holder w n =
     (case al_get (dd_machines (aw_disk w)) n of
        Some (MachineDir _) \<Rightarrow>
          (case al_get (aw_locks w) n of
             Some l \<Rightarrow> if lr_pid l \<in> set (aw_dead w) then None else Some l
           | None \<Rightarrow> None)
      | _ \<Rightarrow> None)"

definition reservation_at :: "alloc_world \<Rightarrow> string \<Rightarrow> reservation option" where
  "reservation_at w n = Option.bind (lock_holder w n) lr_reserve"

definition listReservations :: "alloc_world \<Rightarrow> string \<Rightarrow> (string \<times> reservation) list" where
  "listReservations w exceptName =
     List.map_filter (\<lambda>n. if n = exceptName then None else map_option (Pair n) (reservation_at w n))
       (map fst (dd_machines (aw_disk w)))"

definition live_creation :: "alloc_world \<Rightarrow> nat \<Rightarrow> creation option" where
  "live_creation w c =
     (case al_get (aw_procs w) c of
        Some cr \<Rightarrow> if cr_pid cr \<in> set (aw_dead w) then None else Some cr
      | None \<Rightarrow> None)"

definition enter :: "nat \<Rightarrow> creation \<Rightarrow> alloc_phase \<Rightarrow> alloc_world \<Rightarrow> alloc_world" where
  "enter c cr ph w = w\<lparr>aw_procs := al_put c (cr\<lparr>cr_phase := ph\<rparr>) (aw_procs w)\<rparr>"

definition free_alloc :: "alloc_world \<Rightarrow> alloc_world" where
  "free_alloc w = w\<lparr>aw_alloc := None\<rparr>"

definition alloc_free :: "alloc_world \<Rightarrow> bool" where
  "alloc_free w = (case aw_alloc w of None \<Rightarrow> True | Some c \<Rightarrow> live_creation w c = None)"

section \<open>Events\<close>

datatype alloc_event =
    Begin nat nat string start_options
  | Allocate nat | AllocTimeout nat
  | ReadMachines nat | ReadReserved nat
  | ChooseBase nat "nat \<Rightarrow> nat \<Rightarrow> probe_event"
  | ChooseRest nat | TakeLock nat
  | SaveCreated nat machine_state
  | ReleaseLock nat | CleanUp nat
  | Crash nat
  | Resave machine_state | RemoveDir string

definition picked_macs :: "picked \<Rightarrow> string list" where
  "picked_macs pk = given_macs (pk_networks pk)"

definition ensure_machine_dir :: "string \<Rightarrow> datadir \<Rightarrow> datadir" where
  "ensure_machine_dir n d =
     (case al_get (dd_machines d) n of
        None \<Rightarrow> d\<lparr>dd_machines := al_put n (MachineDir None) (dd_machines d)\<rparr> | Some _ \<Rightarrow> d)"

text \<open>The claim itself, under the allocation lock: make the directory, take the machine lock
  with the choice recorded in it, and give it back when a \<open>machine.json\<close> is already there. Then
  the allocation lock is released.\<close>

definition take_machine_lock :: "nat \<Rightarrow> creation \<Rightarrow> picked \<Rightarrow> alloc_world \<Rightarrow> alloc_world" where
  "take_machine_lock c cr pk w =
     (let name = cr_name cr;
          w1 = free_alloc (w\<lparr>aw_disk := ensure_machine_dir name (aw_disk w)\<rparr>) in
      if al_get (dd_machines (aw_disk w)) name = Some PlainFile
        then enter c cr (Over (Inl (QuickCHRError STATE_ERROR ''not a directory''))) (free_alloc w)
      else if lock_holder w1 name \<noteq> None
        then enter c cr (Over (Inl (QuickCHRError MACHINE_LOCKED ''locked''))) w1
      else if machine_json (aw_disk w1) name \<noteq> None
        then enter c cr (Over (Inl (QuickCHRError MACHINE_EXISTS ''created by another process'')))
               (w1\<lparr>aw_locks := al_del name (aw_locks w1)\<rparr>)
      else enter c cr (Claimed pk)
             (w1\<lparr>aw_locks := al_put name \<lparr>lr_pid = cr_pid cr, lr_op = OpStart, lr_token = c,
                    lr_reserve = Some (pk_portBase pk, picked_macs pk), lr_released = False\<rparr> (aw_locks w1),
                 aw_explicit := (if requested_base (cr_opts cr) = None then removeAll name (aw_explicit w1)
                                 else name # aw_explicit w1)\<rparr>))"

text \<open>One event of one participant; \<open>None\<close> is an event that cannot happen now. A process that
  crashed does nothing more. \<open>Resave\<close> and \<open>RemoveDir\<close> are the other operations on a machine,
  which hold its lock: a saved state keeps the block and the addresses (nothing in the program
  changes them), a removal takes the directory with the lock in it.\<close>

fun alloc_exec :: "(string \<Rightarrow> nat list) \<Rightarrow> alloc_event \<Rightarrow> alloc_world \<Rightarrow> alloc_world option" where
  "alloc_exec digest (Begin c p n opts) w =
     (if al_get (aw_procs w) c \<noteq> None \<or> p \<in> set (aw_dead w) then None
      else Some (w\<lparr>aw_procs := al_put c \<lparr>cr_pid = p, cr_name = n, cr_opts = opts, cr_phase = Waiting\<rparr> (aw_procs w)\<rparr>))"
| "alloc_exec digest (Crash p) w = Some (w\<lparr>aw_dead := p # aw_dead w\<rparr>)"
| "alloc_exec digest (Resave m) w =
     (case loaded_state (aw_disk w) (ms_name m) of
        None \<Rightarrow> None
      | Some m0 \<Rightarrow>
          if lock_holder w (ms_name m) \<noteq> None \<or> ms_portBase m \<noteq> ms_portBase m0
             \<or> given_macs (ms_networks m) \<noteq> given_macs (ms_networks m0) then None
          else map_option (\<lambda>d. w\<lparr>aw_disk := d\<rparr>) (saveMachine m (aw_disk w)))"
| "alloc_exec digest (RemoveDir n) w =
     (if lock_holder w n \<noteq> None then None
      else Some (w\<lparr>aw_disk := aw_disk w\<lparr>dd_machines := al_del n (dd_machines (aw_disk w))\<rparr>,
                   aw_locks := al_del n (aw_locks w)\<rparr>))"
| "alloc_exec digest (Allocate c) w =
     (case live_creation w c of
        Some cr \<Rightarrow> if cr_phase cr = Waiting \<and> alloc_free w
                   then Some (enter c cr Allocating (w\<lparr>aw_alloc := Some c\<rparr>)) else None
      | None \<Rightarrow> None)"
| "alloc_exec digest (AllocTimeout c) w =
     (case live_creation w c of
        Some cr \<Rightarrow> if cr_phase cr = Waiting
                   then Some (enter c cr (Over (Inl (QuickCHRError MACHINE_LOCKED ''The port allocator''))) w) else None
      | None \<Rightarrow> None)"
| "alloc_exec digest (ReadMachines c) w =
     (case live_creation w c of
        Some cr \<Rightarrow> if cr_phase cr = Allocating then Some (enter c cr (SawMachines (loadAllMachines (aw_disk w))) w) else None
      | None \<Rightarrow> None)"
| "alloc_exec digest (ReadReserved c) w =
     (case live_creation w c of
        Some cr \<Rightarrow> (case cr_phase cr of
            SawMachines ms \<Rightarrow> Some (enter c cr (SawReserved ms (listReservations w (cr_name cr))) w)
          | _ \<Rightarrow> None)
      | None \<Rightarrow> None)"
| "alloc_exec digest (ChooseBase c net) w =
     (case live_creation w c of
        Some cr \<Rightarrow> (case cr_phase cr of
            SawReserved ms rs \<Rightarrow>
              (case choose_base net (cr_name cr) (cr_opts cr) ms rs (aw_disk w) of
                 Inl e \<Rightarrow> Some (enter c cr (Over (Inl e)) (free_alloc w))
               | Inr b \<Rightarrow> Some (enter c cr (ChoseBase ms rs b) w))
          | _ \<Rightarrow> None)
      | None \<Rightarrow> None)"
| "alloc_exec digest (ChooseRest c) w =
     (case live_creation w c of
        Some cr \<Rightarrow> (case cr_phase cr of
            ChoseBase ms rs b \<Rightarrow>
              (case choose_rest digest (cr_name cr) (cr_opts cr) ms rs b (aw_disk w) of
                 Inl e \<Rightarrow> Some (enter c cr (Over (Inl e)) (free_alloc w))
               | Inr None \<Rightarrow> None
               | Inr (Some pk) \<Rightarrow> Some (enter c cr (Chosen pk) w))
          | _ \<Rightarrow> None)
      | None \<Rightarrow> None)"
| "alloc_exec digest (TakeLock c) w =
     (case live_creation w c of
        Some cr \<Rightarrow> (case cr_phase cr of Chosen pk \<Rightarrow> Some (take_machine_lock c cr pk w) | _ \<Rightarrow> None)
      | None \<Rightarrow> None)"
| "alloc_exec digest (SaveCreated c m) w =
     (case live_creation w c of
        Some cr \<Rightarrow> (case cr_phase cr of
            Claimed pk \<Rightarrow>
              if ms_name m \<noteq> cr_name cr \<or> ms_portBase m \<noteq> pk_portBase pk \<or> ms_ports m \<noteq> pk_ports pk
                 \<or> ms_networks m \<noteq> pk_networks pk then None
              else map_option (\<lambda>d. enter c cr (SavedState pk) (w\<lparr>aw_disk := d\<rparr>)) (saveMachine m (aw_disk w))
          | _ \<Rightarrow> None)
      | None \<Rightarrow> None)"
| "alloc_exec digest (ReleaseLock c) w =
     (case live_creation w c of
        Some cr \<Rightarrow> (case cr_phase cr of
            SavedState pk \<Rightarrow> Some (enter c cr (Over (Inr ())) (w\<lparr>aw_locks := al_del (cr_name cr) (aw_locks w)\<rparr>))
          | _ \<Rightarrow> None)
      | None \<Rightarrow> None)"
| "alloc_exec digest (CleanUp c) w =
     (case live_creation w c of
        Some cr \<Rightarrow> (case cr_phase cr of
            Claimed pk \<Rightarrow> Some (enter c cr (Over (Inl (QuickCHRError STATE_ERROR ''creation failed'')))
                (w\<lparr>aw_disk := aw_disk w\<lparr>dd_machines := al_del (cr_name cr) (dd_machines (aw_disk w))\<rparr>,
                   aw_locks := al_del (cr_name cr) (aw_locks w)\<rparr>))
          | _ \<Rightarrow> None)
      | None \<Rightarrow> None)"

fun alloc_run :: "(string \<Rightarrow> nat list) \<Rightarrow> alloc_event list \<Rightarrow> alloc_world \<Rightarrow> alloc_world option" where
  "alloc_run digest [] w = Some w"
| "alloc_run digest (ev # evs) w = Option.bind (alloc_exec digest ev w) (alloc_run digest evs)"

definition fresh_world :: "string \<Rightarrow> alloc_world" where
  "fresh_world r = \<lparr>aw_disk = \<lparr>dd_root = r, dd_machines = [], dd_removing = [], dd_bootLog = []\<rparr>,
     aw_locks = [], aw_alloc = None, aw_procs = [], aw_dead = [], aw_explicit = []\<rparr>"

end
