(* ===== verification/Claim_Safety.thy ===== *)
theory Claim_Safety
  imports Claim
begin

text \<open>
  What the allocation of port blocks and MAC addresses guarantees: the runs of \<open>Claim\<close> refine a
  table in which claims are granted apart from all others, whatever is interleaved. The proof
  keeps an invariant per phase of a creation (what it has read is still all there is, because
  only the holder of the allocation lock makes claims) and one lemma per kind of event. The last
  section shows the two requests the mechanism does not protect.
\<close>

section \<open>The contract: a table of claims\<close>

text \<open>What a machine holds: the block and addresses in its saved state, and those its lock reserves.\<close>

definition saved_claim :: "alloc_world \<Rightarrow> string \<Rightarrow> reservation option" where
  "saved_claim w n = map_option (\<lambda>m. (ms_portBase m, given_macs (ms_networks m))) (loaded_state (aw_disk w) n)"

definition claims_of :: "alloc_world \<Rightarrow> string \<Rightarrow> reservation set" where
  "claims_of w n = set_option (saved_claim w n) \<union> set_option (reservation_at w n)"

text \<open>The table the participants should see: claims are granted one machine at a time, apart from
  those of every other machine, and dropped. A base the caller named is exempt.\<close>

record claim_table =
  ct_claims :: "string \<Rightarrow> reservation set"
  ct_explicit :: "string set"

definition table_of :: "alloc_world \<Rightarrow> claim_table" where
  "table_of w = \<lparr>ct_claims = claims_of w, ct_explicit = set (aw_explicit w)\<rparr>"

definition apart :: "bool \<Rightarrow> reservation \<Rightarrow> reservation \<Rightarrow> bool" where
  "apart exempt k k' \<longleftrightarrow> (exempt \<or> \<not> overlaps (fst k) (fst k')) \<and> set (snd k) \<inter> set (snd k') = {}"

inductive claim_step :: "claim_table \<Rightarrow> claim_table \<Rightarrow> bool" where
  Drop: "(\<And>n. ct_claims t' n \<subseteq> ct_claims t n) \<Longrightarrow> ct_explicit t' = ct_explicit t \<Longrightarrow> claim_step t t'"
| Grant: "ct_claims t n = {} \<Longrightarrow>
    (\<And>m k'. m \<noteq> n \<Longrightarrow> k' \<in> ct_claims t m \<Longrightarrow> apart exempt k k') \<Longrightarrow>
    claim_step t \<lparr>ct_claims = (ct_claims t)(n := {k}),
                  ct_explicit = (if exempt then insert n (ct_explicit t) else ct_explicit t - {n})\<rparr>"

definition all_apart :: "claim_table \<Rightarrow> bool" where
  "all_apart t \<longleftrightarrow> (\<forall>n m k k'. n \<noteq> m \<longrightarrow> k \<in> ct_claims t n \<longrightarrow> k' \<in> ct_claims t m \<longrightarrow>
     apart (n \<in> ct_explicit t \<or> m \<in> ct_explicit t) k k')"

lemma apart_sym: "apart e k k' \<longleftrightarrow> apart e k' k"
  by (auto simp: apart_def overlaps_sym)

lemma apart_mono: "apart e k k' \<Longrightarrow> (e \<Longrightarrow> e') \<Longrightarrow> apart e' k k'"
  by (auto simp: apart_def)

lemma claim_step_apart: "claim_step t t' \<Longrightarrow> all_apart t \<Longrightarrow> all_apart t'"
proof (induction rule: claim_step.induct)
  case (Drop t' t)
  then show ?case unfolding all_apart_def by (metis subsetD)
next
  case (Grant t n exempt k)
  have new: "apart exempt k k'" "apart exempt k' k" if "m \<noteq> n" "k' \<in> ct_claims t m" for m k'
    using Grant.hyps(2) [OF that] by (simp_all add: apart_sym)
  show ?case
    unfolding all_apart_def
  proof (intro allI impI)
    fix a b j j'
    let ?t = "\<lparr>ct_claims = (ct_claims t)(n := {k}), ct_explicit = (if exempt then insert n (ct_explicit t) else ct_explicit t - {n})\<rparr>"
    assume p: "a \<noteq> b" "j \<in> ct_claims ?t a" "j' \<in> ct_claims ?t b"
    consider "a = n" | "b = n" | "a \<noteq> n" "b \<noteq> n" by blast
    then show "apart (a \<in> ct_explicit ?t \<or> b \<in> ct_explicit ?t) j j'"
    proof cases
      case 1
      then show ?thesis using p new(1) [of b j'] by (auto elim: apart_mono)
    next
      case 2
      then show ?thesis using p new(2) [of a j] by (auto elim: apart_mono)
    next
      case 3
      then show ?thesis
        using p Grant.prems [unfolded all_apart_def, rule_format, of a b j j'] by (auto elim: apart_mono)
    qed
  qed
qed

section \<open>What the choice guarantees\<close>

lemma saved_claim_used:
  assumes "saved_claim w n = Some k"
  shows "fst k \<in> set (getUsedPortBases (aw_disk w))" "set (snd k) \<subseteq> set (getUsedMacs (aw_disk w))"
proof -
  obtain m where m: "loaded_state (aw_disk w) n = Some m" "k = (ms_portBase m, given_macs (ms_networks m))"
    using assms by (auto simp: saved_claim_def)
  obtain f where "al_get (dd_machines (aw_disk w)) n = Some (MachineDir f)" using loaded_entry [OF m(1)] by blast
  then have "n \<in> set (listMachineNames (aw_disk w))"
    by (force simp: listMachineNames_def is_directory_def dest: al_get_in)
  then have "m \<in> set (loadAllMachines (aw_disk w))" using m(1) by (auto simp: loadAllMachines_def set_map_filter)
  then show "fst k \<in> set (getUsedPortBases (aw_disk w))" "set (snd k) \<subseteq> set (getUsedMacs (aw_disk w))"
    by (auto simp: m(2) getUsedPortBases_def getUsedMacs_def)
qed

lemma reserved_entry: "reservation_at w n = Some k \<Longrightarrow> n \<in> set (map fst (dd_machines (aw_disk w)))"
  by (auto simp: reservation_at_def lock_holder_def bind_eq_Some_conv dest!: al_get_in
      split: option.splits machine_entry.splits if_splits) force

lemma listReservations_iff:
  "(n, k) \<in> set (listReservations w e) \<longleftrightarrow> n \<noteq> e \<and> reservation_at w n = Some k"
proof
  assume "(n, k) \<in> set (listReservations w e)"
  then show "n \<noteq> e \<and> reservation_at w n = Some k"
    by (auto simp: listReservations_def set_map_filter split: if_splits)
next
  assume a: "n \<noteq> e \<and> reservation_at w n = Some k"
  then have "n \<in> set (map fst (dd_machines (aw_disk w)))" using reserved_entry by blast
  then show "(n, k) \<in> set (listReservations w e)"
    unfolding listReservations_def set_map_filter using a by (intro bexI [of _ n]) auto
qed

lemma probed_base_free:
  assumes "findAvailablePortBlock net used excl extras None = Inr b" and "u \<in> set used"
  shows "\<not> overlaps b u"
proof -
  let ?b0 = "nextUnusedBase DEFAULT_PORT_BASE used"
  have "probe_blocks net used excl extras 20 0 (attempt_base used ?b0 0) = Inr b"
    using assms(1) by (simp add: findAvailablePortBlock_def allocatePortBlock_def attempt_base_def)
  then obtain j where "b = attempt_base used ?b0 j"
    using probe_blocks_spec [where net = net and used = used and excl = excl and extras = extras and n = 20 and k = 0 and ?b0.0 = ?b0] by auto
  then show ?thesis
    using nextUnusedBase_props(2) [OF assms(2)] by (cases j) (simp_all add: attempt_base_Suc, simp add: attempt_base_def)
qed

lemma choose_base_auto:
  assumes "choose_base net name opts ms rs d = Inr b" and "requested_base opts = None"
  shows "u \<in> set (getUsedPortBases d) \<Longrightarrow> \<not> overlaps b u" "(n, k) \<in> set rs \<Longrightarrow> \<not> overlaps b (fst k)"
proof -
  have f: "findAvailablePortBlock net (getUsedPortBases d @ map (\<lambda>(_, b, _). b) rs)
      (or_empty (so_excludePorts opts)) (or_empty (so_extraPorts opts)) None = Inr b"
    using assms by (simp add: choose_base_def)
  show "u \<in> set (getUsedPortBases d) \<Longrightarrow> \<not> overlaps b u" by (rule probed_base_free [OF f]) simp
  show "(n, k) \<in> set rs \<Longrightarrow> \<not> overlaps b (fst k)"
    by (rule probed_base_free [OF f]) (cases k, force)
qed

lemma filled_given: "filled used ns ms \<Longrightarrow> given_macs ns = [] \<Longrightarrow> set (given_macs ms) \<inter> set used = {}"
proof (induction used ns ms rule: filled.induct)
  case (2 used n ns m ms)
  then show ?case
    by (auto simp: given_macs_def has_mac_def split: if_splits option.splits)
qed simp_all

lemma start_networks_no_mac: "given_macs (resolveStartNetworks a b) = []"
  by (auto simp: resolveStartNetworks_def networkModeToConfigs_def mk_config_def given_macs_def has_mac_def filter_empty_conv
      set_zip split: option.splits list.splits network_mode.splits)

lemma choose_rest_props:
  assumes "choose_rest digest name opts ms rs b d = Inr (Some pk)"
  shows "pk_portBase pk = b" "set (picked_macs pk) \<inter> set (getUsedMacs d) = {}"
    "(n, k) \<in> set rs \<Longrightarrow> set (picked_macs pk) \<inter> set (snd k) = {}"
proof -
  let ?used = "getUsedMacs d @ concat (map (\<lambda>(_, _, macs). macs) rs)"
  obtain ns where ns: "assignMacs digest name (resolveStartNetworks (so_networks opts) (so_network opts)) ?used = Some ns"
    and pk: "pk_portBase pk = b" "pk_networks pk = ns"
    using assms by (auto simp: choose_rest_def Let_def split: sum.splits)
  have disjoint: "set (picked_macs pk) \<inter> set ?used = {}"
    using filled_given [OF assign_each_filled [OF ns [unfolded assignMacs_def]] start_networks_no_mac]
    by (simp add: picked_macs_def pk Int_Un_distrib)
  show "pk_portBase pk = b" by (rule pk)
  show "set (picked_macs pk) \<inter> set (getUsedMacs d) = {}" using disjoint unfolding set_append by blast
  show "set (picked_macs pk) \<inter> set (snd k) = {}" if "(n, k) \<in> set rs"
  proof -
    have "set (snd k) \<subseteq> set ?used" using that by (cases k) force
    then show ?thesis using disjoint by blast
  qed
qed

section \<open>What every participant may rely on\<close>

text \<open>Every claim of another machine is in the list that was read, or already in a saved state.\<close>

definition seen :: "alloc_world \<Rightarrow> creation \<Rightarrow> (string \<times> reservation) list \<Rightarrow> bool" where
  "seen w cr rs \<longleftrightarrow> (\<forall>n k. n \<noteq> cr_name cr \<longrightarrow> k \<in> claims_of w n \<longrightarrow> (n, k) \<in> set rs \<or> saved_claim w n = Some k)"

definition clear_base :: "alloc_world \<Rightarrow> creation \<Rightarrow> nat \<Rightarrow> bool" where
  "clear_base w cr b \<longleftrightarrow> (requested_base (cr_opts cr) = None \<longrightarrow>
     (\<forall>n k. n \<noteq> cr_name cr \<longrightarrow> k \<in> claims_of w n \<longrightarrow> \<not> overlaps b (fst k)))"

definition clear_macs :: "alloc_world \<Rightarrow> creation \<Rightarrow> string list \<Rightarrow> bool" where
  "clear_macs w cr macs \<longleftrightarrow> (\<forall>n k. n \<noteq> cr_name cr \<longrightarrow> k \<in> claims_of w n \<longrightarrow> set macs \<inter> set (snd k) = {})"

definition has_machine_lock :: "alloc_world \<Rightarrow> nat \<Rightarrow> creation \<Rightarrow> bool" where
  "has_machine_lock w c cr \<longleftrightarrow> (\<exists>l. lock_holder w (cr_name cr) = Some l \<and> lr_token l = c \<and> lr_pid l = cr_pid cr)"

definition phase_ok :: "alloc_world \<Rightarrow> nat \<Rightarrow> creation \<Rightarrow> bool" where
  "phase_ok w c cr =
     (case cr_phase cr of
        Waiting \<Rightarrow> True
      | Over _ \<Rightarrow> True
      | Allocating \<Rightarrow> aw_alloc w = Some c
      | SawMachines _ \<Rightarrow> aw_alloc w = Some c
      | SawReserved ms rs \<Rightarrow> aw_alloc w = Some c \<and> seen w cr rs
      | ChoseBase ms rs b \<Rightarrow> aw_alloc w = Some c \<and> seen w cr rs \<and> clear_base w cr b
      | Chosen pk \<Rightarrow> aw_alloc w = Some c \<and> clear_base w cr (pk_portBase pk) \<and> clear_macs w cr (picked_macs pk)
      | Claimed pk \<Rightarrow> has_machine_lock w c cr \<and> reservation_at w (cr_name cr) = Some (pk_portBase pk, picked_macs pk)
          \<and> machine_json (aw_disk w) (cr_name cr) = None
      | SavedState pk \<Rightarrow> has_machine_lock w c cr)"

definition locks_in_dirs :: "alloc_world \<Rightarrow> bool" where
  "locks_in_dirs w \<longleftrightarrow> (\<forall>n. al_get (aw_locks w) n \<noteq> None \<longrightarrow> (\<exists>f. al_get (dd_machines (aw_disk w)) n = Some (MachineDir f)))"

definition alloc_inv :: "alloc_world \<Rightarrow> bool" where
  "alloc_inv w \<longleftrightarrow> locks_in_dirs w \<and> (\<forall>c cr. live_creation w c = Some cr \<longrightarrow> phase_ok w c cr)"

text \<open>A change that makes no claim and loses none of the saved ones it keeps.\<close>

definition quiet :: "alloc_world \<Rightarrow> alloc_world \<Rightarrow> bool" where
  "quiet w w' \<longleftrightarrow> (\<forall>n k. k \<in> claims_of w' n \<longrightarrow> k \<in> claims_of w n \<and> (saved_claim w n = Some k \<longrightarrow> saved_claim w' n = Some k))"

definition holding :: "creation \<Rightarrow> bool" where
  "holding cr = (case cr_phase cr of Claimed _ \<Rightarrow> True | SavedState _ \<Rightarrow> True | _ \<Rightarrow> False)"

definition same_at :: "alloc_world \<Rightarrow> alloc_world \<Rightarrow> string \<Rightarrow> bool" where
  "same_at w w' n \<longleftrightarrow> lock_holder w' n = lock_holder w n \<and> machine_json (aw_disk w') n = machine_json (aw_disk w) n"

lemma quiet_clear:
  assumes "quiet w w'"
  shows "seen w cr rs \<Longrightarrow> seen w' cr rs" "clear_base w cr b \<Longrightarrow> clear_base w' cr b" "clear_macs w cr ms \<Longrightarrow> clear_macs w' cr ms"
  using assms unfolding quiet_def seen_def clear_base_def clear_macs_def by blast+

lemma phase_ok_carry:
  assumes "phase_ok w c cr" and "quiet w w'"
    and "holding cr \<Longrightarrow> same_at w w' (cr_name cr)" and "aw_alloc w = Some c \<Longrightarrow> aw_alloc w' = Some c"
  shows "phase_ok w' c cr"
  using assms quiet_clear [OF assms(2)]
  by (cases "cr_phase cr") (auto simp: phase_ok_def holding_def same_at_def has_machine_lock_def reservation_at_def)

lemma frame_step:
  assumes "alloc_inv w" and "quiet w w'" and "locks_in_dirs w'" and "aw_explicit w' = aw_explicit w"
    and others: "\<And>c cr. c \<notin> C \<Longrightarrow> live_creation w' c = Some cr \<Longrightarrow>
        live_creation w c = Some cr \<and> (holding cr \<longrightarrow> same_at w w' (cr_name cr)) \<and> (aw_alloc w = Some c \<longrightarrow> aw_alloc w' = Some c)"
    and own: "\<And>c cr. c \<in> C \<Longrightarrow> live_creation w' c = Some cr \<Longrightarrow> phase_ok w' c cr"
  shows "alloc_inv w' \<and> claim_step (table_of w) (table_of w')"
proof
  have "phase_ok w' c cr" if l: "live_creation w' c = Some cr" for c cr
  proof (cases "c \<in> C")
    case True
    then show ?thesis using own l by blast
  next
    case False
    have "phase_ok w c cr" using others [OF False l] assms(1) by (auto simp: alloc_inv_def)
    then show ?thesis using phase_ok_carry [OF _ assms(2)] others [OF False l] by blast
  qed
  then show "alloc_inv w'" using assms(3) by (simp add: alloc_inv_def)
  show "claim_step (table_of w) (table_of w')"
    by (rule claim_step.Drop) (use assms(2,4) in \<open>auto simp: table_of_def quiet_def\<close>)
qed

lemma claims_same:
  assumes l: "lock_holder w' = lock_holder w" and j: "machine_json (aw_disk w') = machine_json (aw_disk w)"
  shows "reservation_at w' = reservation_at w" "saved_claim w' = saved_claim w"
    "claims_of w' = claims_of w" "quiet w w'" "same_at w w' n"
proof -
  show r: "reservation_at w' = reservation_at w" using l by (simp add: reservation_at_def fun_eq_iff)
  show s: "saved_claim w' = saved_claim w"
    using j by (simp add: saved_claim_def fun_eq_iff loaded_state_def tryLoadMachine_def loadMachine_def)
  show "claims_of w' = claims_of w" using r s by (simp add: claims_of_def fun_eq_iff)
  then show "quiet w w'" "same_at w w' n" using assms s by (simp_all add: quiet_def same_at_def)
qed

lemma holder_fields:
  "aw_disk w' = aw_disk w \<Longrightarrow> aw_locks w' = aw_locks w \<Longrightarrow> aw_dead w' = aw_dead w \<Longrightarrow> lock_holder w' = lock_holder w"
  by (simp add: lock_holder_def fun_eq_iff split: option.split machine_entry.split)

lemma live_put:
  "live_creation (w\<lparr>aw_procs := al_put c cr (aw_procs w)\<rparr>) x =
     (if x = c then (if cr_pid cr \<in> set (aw_dead w) then None else Some cr) else live_creation w x)"
  by (simp add: live_creation_def al.get_put_iff split: option.split)

lemma live_alive: "live_creation w c = Some cr \<Longrightarrow> cr_pid cr \<notin> set (aw_dead w)"
  by (auto simp: live_creation_def split: option.splits if_splits)

lemma live_enter: "live_creation (enter c cr ph w) x =
     (if x = c then (if cr_pid cr \<in> set (aw_dead w) then None else Some (cr\<lparr>cr_phase := ph\<rparr>)) else live_creation w x)"
  by (simp add: enter_def live_put)

text \<open>A step of creation \<open>c\<close> that only moves it to another phase, with or without the allocation lock.\<close>

lemma phase_step:
  assumes inv: "alloc_inv w"
    and same: "lock_holder w' = lock_holder w" "machine_json (aw_disk w') = machine_json (aw_disk w)"
    and fields: "locks_in_dirs w'" "aw_dead w' = aw_dead w" "aw_explicit w' = aw_explicit w"
    and procs: "aw_procs w' = al_put c cr' (aw_procs w)"
    and alloc: "aw_alloc w' = aw_alloc w \<or> alloc_free w \<or> aw_alloc w = Some c"
    and own: "phase_ok w' c cr'"
  shows "alloc_inv w' \<and> claim_step (table_of w) (table_of w')"
proof (rule frame_step [OF inv claims_same(4) [OF same] fields(1) fields(3), where C = "{c}"])
  fix x cr assume "x \<notin> {c}" and lx: "live_creation w' x = Some cr"
  then have x: "x \<noteq> c" "live_creation w' x = Some cr" by simp_all
  have l: "live_creation w x = Some cr"
    using x by (auto simp: live_creation_def procs fields al.get_put_iff split: option.splits if_splits)
  moreover have "aw_alloc w = Some x \<Longrightarrow> aw_alloc w' = Some x"
    using alloc l x(1) by (auto simp: alloc_free_def)
  ultimately show "live_creation w x = Some cr \<and> (holding cr \<longrightarrow> same_at w w' (cr_name cr)) \<and> (aw_alloc w = Some x \<longrightarrow> aw_alloc w' = Some x)"
    using claims_same(5) [OF same] by blast
next
  fix y cr assume "y \<in> {c}" "live_creation w' y = Some cr"
  then show "phase_ok w' y cr" using own by (auto simp: live_creation_def procs al.get_put_iff split: if_splits)
qed

lemma phase_move:
  assumes "alloc_inv w" and "w' = w\<lparr>aw_alloc := al, aw_procs := al_put c cr' (aw_procs w)\<rparr>"
    and "al = aw_alloc w \<or> alloc_free w \<or> aw_alloc w = Some c" and "phase_ok w' c cr'"
  shows "alloc_inv w' \<and> claim_step (table_of w) (table_of w')"
proof (rule phase_step [OF assms(1) _ _ _ _ _ _ _ assms(4)])
  show "lock_holder w' = lock_holder w" by (rule holder_fields) (simp_all add: assms(2))
  show "locks_in_dirs w'" using assms(1) by (simp add: assms(2) alloc_inv_def locks_in_dirs_def)
qed (use assms(2,3) in simp_all)

text \<open>The predicates of a phase look at the claims only.\<close>

lemma holder_enter [simp]: "lock_holder (enter c cr ph w) = lock_holder w"
  by (rule holder_fields) (simp_all add: enter_def)

lemma enter_fields [simp]:
  "aw_disk (enter c cr ph w) = aw_disk w" "aw_alloc (enter c cr ph w) = aw_alloc w"
  "aw_locks (enter c cr ph w) = aw_locks w" "aw_dead (enter c cr ph w) = aw_dead w"
  "aw_explicit (enter c cr ph w) = aw_explicit w"
  by (simp_all add: enter_def)

lemma claims_enter [simp]:
  "reservation_at (enter c cr ph w) = reservation_at w" "saved_claim (enter c cr ph w) = saved_claim w"
  "claims_of (enter c cr ph w) = claims_of w"
  by (rule claims_same; simp)+

lemma clear_enter [simp]:
  "seen (enter c cr ph w) (cr\<lparr>cr_phase := ph'\<rparr>) rs = seen w cr rs"
  "clear_base (enter c cr ph w) (cr\<lparr>cr_phase := ph'\<rparr>) b = clear_base w cr b"
  "clear_macs (enter c cr ph w) (cr\<lparr>cr_phase := ph'\<rparr>) ms = clear_macs w cr ms"
  by (simp_all add: seen_def clear_base_def clear_macs_def)

section \<open>The choosing phases\<close>

abbreviation good_step :: "alloc_world \<Rightarrow> alloc_world \<Rightarrow> bool" where
  "good_step w w' \<equiv> alloc_inv w' \<and> claim_step (table_of w) (table_of w')"

lemma phase_known: "alloc_inv w \<Longrightarrow> live_creation w c = Some cr \<Longrightarrow> phase_ok w c cr"
  by (simp add: alloc_inv_def)

lemma ended_step:
  assumes "alloc_inv w" "w' = enter c cr (Over r) w \<or> (w' = enter c cr (Over r) (free_alloc w) \<and> aw_alloc w = Some c)"
  shows "good_step w w'"
  using assms(2)
proof
  assume "w' = enter c cr (Over r) w"
  then show ?thesis
    by (intro phase_move [OF assms(1), where al = "aw_alloc w"]) (auto simp: enter_def phase_ok_def)
next
  assume "w' = enter c cr (Over r) (free_alloc w) \<and> aw_alloc w = Some c"
  then show ?thesis
    by (intro phase_move [OF assms(1), where al = None]) (auto simp: enter_def free_alloc_def phase_ok_def)
qed

lemma seen_reserved: "seen w cr (listReservations w (cr_name cr))"
  by (auto simp: seen_def claims_of_def listReservations_iff)

lemma chosen_base_clear:
  assumes "seen w cr rs" and "choose_base net (cr_name cr) (cr_opts cr) ms rs (aw_disk w) = Inr b"
  shows "clear_base w cr b"
  using assms choose_base_auto [OF assms(2)] saved_claim_used(1)
  by (fastforce simp: clear_base_def seen_def)

lemma chosen_macs_clear:
  assumes "seen w cr rs" and "choose_rest digest (cr_name cr) (cr_opts cr) ms rs b (aw_disk w) = Inr (Some pk)"
  shows "clear_macs w cr (picked_macs pk)"
  unfolding clear_macs_def
proof (intro allI impI)
  fix n k assume "n \<noteq> cr_name cr" "k \<in> claims_of w n"
  then consider "(n, k) \<in> set rs" | "saved_claim w n = Some k" using assms(1) unfolding seen_def by blast
  then show "set (picked_macs pk) \<inter> set (snd k) = {}"
  proof cases
    case 1
    then show ?thesis using choose_rest_props(3) [OF assms(2)] by blast
  next
    case 2
    then show ?thesis using choose_rest_props(2) [OF assms(2)] saved_claim_used(2) [OF 2] by blast
  qed
qed

lemma choosing_step:
  assumes inv: "alloc_inv w" and ex: "alloc_exec digest ev w = Some w'"
    and ev: "ev \<in> {Allocate c, AllocTimeout c, ReadMachines c, ReadReserved c, ChooseBase c net, ChooseRest c}"
  shows "good_step w w'"
proof -
  obtain cr where cr: "live_creation w c = Some cr" using ex ev by (auto split: option.splits)
  note ok = phase_known [OF inv cr]
  have go: "good_step w w'" if "w' = enter c cr ph (w\<lparr>aw_alloc := al\<rparr>)" "al = aw_alloc w \<or> alloc_free w"
    "phase_ok w' c (cr\<lparr>cr_phase := ph\<rparr>)" for ph al
    by (rule phase_move [OF inv, where al = al and c = c]) (use that in \<open>auto simp: enter_def\<close>)
  have stay: "good_step w w'" if "w' = enter c cr ph w" "phase_ok w' c (cr\<lparr>cr_phase := ph\<rparr>)" for ph
    by (rule go [of ph "aw_alloc w"]) (use that in simp_all)
  from ev consider "ev = Allocate c" | "ev = AllocTimeout c" | "ev = ReadMachines c" | "ev = ReadReserved c"
    | "ev = ChooseBase c net" | "ev = ChooseRest c" by blast
  then show ?thesis
  proof cases
    case 1
    then have "w' = enter c cr Allocating (w\<lparr>aw_alloc := Some c\<rparr>)" "alloc_free w"
      using ex cr by (auto split: if_splits)
    then show ?thesis by (intro go [of Allocating "Some c"]) (auto simp: phase_ok_def enter_def)
  next
    case 2
    then show ?thesis using ex cr by (intro ended_step [OF inv]) (auto split: if_splits)
  next
    case 3
    then have w': "w' = enter c cr (SawMachines (loadAllMachines (aw_disk w))) w" "aw_alloc w = Some c"
      using ex cr ok by (auto simp: phase_ok_def split: if_splits)
    then show ?thesis by (intro stay [OF w'(1)]) (auto simp: phase_ok_def)
  next
    case 4
    then obtain ms where w': "w' = enter c cr (SawReserved ms (listReservations w (cr_name cr))) w" "aw_alloc w = Some c"
      using ex cr ok by (auto simp: phase_ok_def split: alloc_phase.splits)
    then show ?thesis by (intro stay [OF w'(1)]) (auto simp: phase_ok_def seen_reserved)
  next
    case 5
    then obtain ms rs where p: "cr_phase cr = SawReserved ms rs" using ex cr by (auto split: alloc_phase.splits)
    then have s: "seen w cr rs" "aw_alloc w = Some c" using ok by (simp_all add: phase_ok_def)
    show ?thesis
    proof (cases "choose_base net (cr_name cr) (cr_opts cr) ms rs (aw_disk w)")
      case (Inl e)
      then show ?thesis using 5 ex cr p s by (intro ended_step [OF inv]) auto
    next
      case (Inr b)
      then have w': "w' = enter c cr (ChoseBase ms rs b) w" using 5 ex cr p by simp
      then show ?thesis
        using s chosen_base_clear [OF s(1) Inr] by (intro stay [OF w']) (auto simp: phase_ok_def)
    qed
  next
    case 6
    then obtain ms rs b where p: "cr_phase cr = ChoseBase ms rs b" using ex cr by (auto split: alloc_phase.splits)
    then have s: "seen w cr rs" "aw_alloc w = Some c" "clear_base w cr b" using ok by (simp_all add: phase_ok_def)
    show ?thesis
    proof (cases "choose_rest digest (cr_name cr) (cr_opts cr) ms rs b (aw_disk w)")
      case (Inl e)
      then show ?thesis using 6 ex cr p s by (intro ended_step [OF inv]) auto
    next
      case (Inr q)
      then obtain pk where pk: "q = Some pk" using 6 ex cr p by (cases q) auto
      then have w': "w' = enter c cr (Chosen pk) w" using 6 ex cr p Inr by simp
      show ?thesis
        using s chosen_macs_clear [OF s(1) Inr [unfolded pk]] choose_rest_props(1) [OF Inr [unfolded pk]] w'
        by (intro stay [OF w']) (auto simp: phase_ok_def)
    qed
  qed
qed

section \<open>The claiming phases\<close>

lemma holder_simple:
  "locks_in_dirs w \<Longrightarrow> lock_holder w n =
     (case al_get (aw_locks w) n of Some l \<Rightarrow> if lr_pid l \<in> set (aw_dead w) then None else Some l | None \<Rightarrow> None)"
  by (auto simp: locks_in_dirs_def lock_holder_def split: option.splits machine_entry.splits)

lemma json_entry: "al_get (dd_machines d') n = al_get (dd_machines d) n \<Longrightarrow> machine_json d' n = machine_json d n"
  by (simp add: machine_json_def)

text \<open>A change at one name only.\<close>

lemma change_at:
  assumes "al_get (dd_machines (aw_disk w')) m = al_get (dd_machines (aw_disk w)) m"
    and "al_get (aw_locks w') m = al_get (aw_locks w) m" and "aw_dead w' = aw_dead w"
  shows "same_at w w' m" "reservation_at w' m = reservation_at w m" "saved_claim w' m = saved_claim w m"
    "claims_of w' m = claims_of w m"
proof -
  show s: "same_at w w' m" using assms by (simp add: same_at_def lock_holder_def machine_json_def split: option.split machine_entry.split)
  show r: "reservation_at w' m = reservation_at w m" using s by (simp add: same_at_def reservation_at_def)
  show c: "saved_claim w' m = saved_claim w m"
    using s by (simp add: same_at_def saved_claim_def loaded_state_def tryLoadMachine_def loadMachine_def)
  show "claims_of w' m = claims_of w m" using r c by (simp add: claims_of_def)
qed

lemma no_json_no_claim: "machine_json (aw_disk w) n = None \<Longrightarrow> saved_claim w n = None"
  by (simp add: saved_claim_def loaded_state_def tryLoadMachine_def loadMachine_def)

lemma holder_names:
  assumes "alloc_inv w" and "live_creation w x = Some cr" and "holding cr"
  shows "has_machine_lock w x cr"
  using phase_known [OF assms(1,2)] assms(3) by (auto simp: holding_def phase_ok_def split: alloc_phase.splits)

text \<open>An event of the creation that holds the machine lock, at its own name.\<close>

lemma own_name_step:
  assumes inv: "alloc_inv w" and c: "live_creation w c = Some cr" and h: "has_machine_lock w c cr"
    and dd: "\<And>m. m \<noteq> cr_name cr \<Longrightarrow> al_get (dd_machines (aw_disk w')) m = al_get (dd_machines (aw_disk w)) m"
    and ll: "\<And>m. m \<noteq> cr_name cr \<Longrightarrow> al_get (aw_locks w') m = al_get (aw_locks w) m"
    and fields: "aw_dead w' = aw_dead w" "aw_alloc w' = aw_alloc w" "aw_explicit w' = aw_explicit w"
    and procs: "aw_procs w' = al_put c cr' (aw_procs w)"
    and q: "\<And>k. k \<in> claims_of w' (cr_name cr) \<Longrightarrow>
        k \<in> claims_of w (cr_name cr) \<and> (saved_claim w (cr_name cr) = Some k \<longrightarrow> saved_claim w' (cr_name cr) = Some k)"
    and ld: "locks_in_dirs w'" and own: "phase_ok w' c cr'"
  shows "good_step w w'"
proof (rule frame_step [OF inv _ ld fields(3), where C = "{c}"])
  note ch = change_at [OF dd ll fields(1)]
  show "quiet w w'"
    unfolding quiet_def
  proof (intro allI impI)
    fix n k assume "k \<in> claims_of w' n"
    then show "k \<in> claims_of w n \<and> (saved_claim w n = Some k \<longrightarrow> saved_claim w' n = Some k)"
      using q ch(3,4) [of n] by (cases "n = cr_name cr") auto
  qed
  fix x cx assume "x \<notin> {c}" and lx: "live_creation w' x = Some cx"
  then have x: "x \<noteq> c" "live_creation w' x = Some cx" by simp_all
  have l: "live_creation w x = Some cx"
    using x by (auto simp: live_creation_def procs fields al.get_put_iff split: option.splits if_splits)
  have "cr_name cx \<noteq> cr_name cr" if "holding cx"
    using holder_names [OF inv l that] h x(1) by (auto simp: has_machine_lock_def)
  then show "live_creation w x = Some cx \<and> (holding cx \<longrightarrow> same_at w w' (cr_name cx)) \<and> (aw_alloc w = Some x \<longrightarrow> aw_alloc w' = Some x)"
    using l ch(1) fields by auto
next
  fix y cx assume "y \<in> {c}" "live_creation w' y = Some cx"
  then show "phase_ok w' y cx" using own by (auto simp: live_creation_def procs al.get_put_iff split: if_splits)
qed

lemma ended_ok: "phase_ok w c (cr\<lparr>cr_phase := Over r\<rparr>)" "phase_ok w c (cr\<lparr>cr_phase := Waiting\<rparr>)"
  by (simp_all add: phase_ok_def)

lemma saved_claim_written:
  "al_get (dd_machines (aw_disk w)) n = Some (MachineDir (Some (state_file m))) \<Longrightarrow>
   saved_claim w n = Some (ms_portBase m, given_macs (ms_networks m))"
  using load_written [of "aw_disk w" n m] by (simp add: saved_claim_def loaded_state_iff [THEN iffD2])

lemma save_step:
  assumes inv: "alloc_inv w" and ex: "alloc_exec digest (SaveCreated c m) w = Some w'"
  shows "good_step w w'"
proof -
  obtain cr pk where cr: "live_creation w c = Some cr" and p: "cr_phase cr = Claimed pk"
    using ex by (auto split: option.splits alloc_phase.splits)
  obtain d where m: "ms_name m = cr_name cr" "ms_portBase m = pk_portBase pk" "ms_networks m = pk_networks pk"
    and d: "saveMachine m (aw_disk w) = Some d" and w': "w' = enter c cr (SavedState pk) (w\<lparr>aw_disk := d\<rparr>)"
    using ex cr p by (auto split: if_splits)
  have ok: "has_machine_lock w c cr" "reservation_at w (cr_name cr) = Some (pk_portBase pk, picked_macs pk)"
    using phase_known [OF inv cr] p by (simp_all add: phase_ok_def)
  let ?n = "cr_name cr"
  have dd: "dd_machines d = al_put ?n (MachineDir (Some (state_file m))) (dd_machines (aw_disk w))"
    using saveMachine_cases [OF d] by (simp add: m)
  have dir: "\<exists>f. al_get (dd_machines (aw_disk w)) ?n = Some (MachineDir f)"
    using ok(1) by (auto simp: has_machine_lock_def lock_holder_def split: option.splits machine_entry.splits)
  have ld: "locks_in_dirs w'"
    using inv by (auto simp: alloc_inv_def locks_in_dirs_def w' dd al.get_put_iff)
  have f: "aw_locks w' = aw_locks w" "aw_dead w' = aw_dead w" by (simp_all add: w')
  have h: "lock_holder w' ?n = lock_holder w ?n"
    using inv by (simp add: holder_simple [OF ld] holder_simple alloc_inv_def f split: option.split)
  have s: "saved_claim w' ?n = Some (pk_portBase pk, picked_macs pk)"
    using saved_claim_written [of w' ?n m] by (simp add: w' dd al.get_put m picked_macs_def)
  show ?thesis
  proof (rule own_name_step [OF inv cr ok(1), where cr' = "cr\<lparr>cr_phase := SavedState pk\<rparr>"])
    fix k assume "k \<in> claims_of w' ?n"
    then show "k \<in> claims_of w ?n \<and> (saved_claim w ?n = Some k \<longrightarrow> saved_claim w' ?n = Some k)"
      using s h ok(2) by (auto simp: claims_of_def reservation_at_def)
  next
    show "phase_ok w' c (cr\<lparr>cr_phase := SavedState pk\<rparr>)"
      using h ok(1) by (simp add: phase_ok_def has_machine_lock_def)
  qed (use ld in \<open>simp_all add: w' enter_def dd al.get_put_iff\<close>)
qed

lemma release_step:
  assumes inv: "alloc_inv w" and ex: "alloc_exec digest ev w = Some w'" and ev: "ev = ReleaseLock c \<or> ev = CleanUp c"
  shows "good_step w w'"
proof -
  obtain cr where cr: "live_creation w c = Some cr" using ex ev by (auto split: option.splits)
  have hold: "holding cr" using ex ev cr by (auto simp: holding_def split: alloc_phase.splits)
  note h = holder_names [OF inv cr hold]
  let ?n = "cr_name cr"
  have "\<exists>r d. w' = enter c cr (Over r) (w\<lparr>aw_disk := d, aw_locks := al_del ?n (aw_locks w)\<rparr>)
      \<and> (d = aw_disk w \<or> d = aw_disk w\<lparr>dd_machines := al_del ?n (dd_machines (aw_disk w))\<rparr>)"
    using ev
  proof
    assume "ev = ReleaseLock c"
    then show ?thesis using ex cr
      by (intro exI [of _ "Inr ()"] exI [of _ "aw_disk w"]) (auto split: alloc_phase.splits)
  next
    assume "ev = CleanUp c"
    then show ?thesis using ex cr by (auto split: alloc_phase.splits)
  qed
  then obtain r d where w': "w' = enter c cr (Over r) (w\<lparr>aw_disk := d, aw_locks := al_del ?n (aw_locks w)\<rparr>)"
    and d: "d = aw_disk w \<or> d = aw_disk w\<lparr>dd_machines := al_del ?n (dd_machines (aw_disk w))\<rparr>" by blast
  have ld: "locks_in_dirs w'"
    using inv d by (auto simp: alloc_inv_def locks_in_dirs_def w' al.get_del_iff)
  have no: "reservation_at w' ?n = None"
    by (simp add: reservation_at_def holder_simple [OF ld]) (simp add: w' al.get_del)
  have s: "saved_claim w' ?n = saved_claim w ?n \<or> saved_claim w' ?n = None"
  proof -
    have "machine_json d ?n = machine_json (aw_disk w) ?n \<or> machine_json d ?n = None"
      using d by (auto simp: machine_json_def al.get_del)
    then show ?thesis
      by (auto simp: w' saved_claim_def loaded_state_def tryLoadMachine_def loadMachine_def)
  qed
  show ?thesis
    by (rule own_name_step [OF inv cr h, where cr' = "cr\<lparr>cr_phase := Over r\<rparr>"])
      (use d ld s no in \<open>auto simp: w' enter_def al.get_del_iff ended_ok claims_of_def\<close>)
qed

text \<open>Events of the other operations and of the environment.\<close>

lemma idle_name_step:
  assumes inv: "alloc_inv w" and free: "lock_holder w n = None"
    and dd: "\<And>m. m \<noteq> n \<Longrightarrow> al_get (dd_machines (aw_disk w')) m = al_get (dd_machines (aw_disk w)) m"
    and ll: "\<And>m. m \<noteq> n \<Longrightarrow> al_get (aw_locks w') m = al_get (aw_locks w) m"
    and fields: "aw_dead w' = aw_dead w" "aw_alloc w' = aw_alloc w" "aw_explicit w' = aw_explicit w" "aw_procs w' = aw_procs w"
    and q: "\<And>k. k \<in> claims_of w' n \<Longrightarrow> k \<in> claims_of w n \<and> (saved_claim w n = Some k \<longrightarrow> saved_claim w' n = Some k)"
    and ld: "locks_in_dirs w'"
  shows "good_step w w'"
proof (rule frame_step [OF inv _ ld fields(3), where C = "{}"])
  note ch = change_at [OF dd ll fields(1)]
  show "quiet w w'"
    unfolding quiet_def
  proof (intro allI impI)
    fix m k assume "k \<in> claims_of w' m"
    then show "k \<in> claims_of w m \<and> (saved_claim w m = Some k \<longrightarrow> saved_claim w' m = Some k)"
      using q ch(3,4) [of m] by (cases "m = n") auto
  qed
next
  note ch = change_at [OF dd ll fields(1)]
  fix x cx assume x: "live_creation w' x = Some cx"
  have l: "live_creation w x = Some cx" using x by (auto simp: live_creation_def fields split: option.splits if_splits)
  have "cr_name cx \<noteq> n" if "holding cx"
    using holder_names [OF inv l that] free by (auto simp: has_machine_lock_def)
  then show "live_creation w x = Some cx \<and> (holding cx \<longrightarrow> same_at w w' (cr_name cx)) \<and> (aw_alloc w = Some x \<longrightarrow> aw_alloc w' = Some x)"
    using l ch(1) fields by auto
qed simp

lemma resave_step:
  assumes inv: "alloc_inv w" and ex: "alloc_exec digest (Resave m) w = Some w'"
  shows "good_step w w'"
proof -
  let ?n = "ms_name m"
  obtain m0 d where m0: "loaded_state (aw_disk w) ?n = Some m0" "ms_portBase m = ms_portBase m0"
      "given_macs (ms_networks m) = given_macs (ms_networks m0)"
    and free: "lock_holder w ?n = None" and d: "saveMachine m (aw_disk w) = Some d" and w': "w' = w\<lparr>aw_disk := d\<rparr>"
    using ex by (auto split: option.splits if_splits)
  have dd: "dd_machines d = al_put ?n (MachineDir (Some (state_file m))) (dd_machines (aw_disk w))"
    using saveMachine_cases [OF d] by simp
  have ld: "locks_in_dirs w'" using inv by (auto simp: alloc_inv_def locks_in_dirs_def w' dd al.get_put_iff)
  have f: "aw_locks w' = aw_locks w" "aw_dead w' = aw_dead w" by (simp_all add: w')
  have "lock_holder w' ?n = None"
    using free inv by (auto simp: holder_simple [OF ld] holder_simple alloc_inv_def f split: option.splits if_splits)
  then have r: "reservation_at w' ?n = None" "reservation_at w ?n = None" using free by (simp_all add: reservation_at_def)
  have "saved_claim w' ?n = saved_claim w ?n"
    using saved_claim_written [of w' ?n m] by (simp add: w' dd al.get_put) (simp add: saved_claim_def m0)
  then show ?thesis
    by (intro idle_name_step [OF inv free]) (use ld r in \<open>auto simp: w' dd al.get_put_iff claims_of_def\<close>)
qed

lemma remove_step:
  assumes inv: "alloc_inv w" and ex: "alloc_exec digest (RemoveDir n) w = Some w'"
  shows "good_step w w'"
proof -
  have free: "lock_holder w n = None"
    and w': "w' = w\<lparr>aw_disk := aw_disk w\<lparr>dd_machines := al_del n (dd_machines (aw_disk w))\<rparr>, aw_locks := al_del n (aw_locks w)\<rparr>"
    using ex by (auto split: if_splits)
  have ld: "locks_in_dirs w'" using inv by (auto simp: alloc_inv_def locks_in_dirs_def w' al.get_del_iff)
  have "machine_json (aw_disk w') n = None" by (simp add: w' machine_json_def al.get_del)
  then have "claims_of w' n = {}"
    using no_json_no_claim by (auto simp: claims_of_def reservation_at_def holder_simple [OF ld]) (simp_all add: w' al.get_del)
  then show ?thesis
    by (intro idle_name_step [OF inv free]) (use ld in \<open>auto simp: w' al.get_del_iff\<close>)
qed

lemma crash_step:
  assumes inv: "alloc_inv w"
  shows "good_step w (w\<lparr>aw_dead := p # aw_dead w\<rparr>)" (is "good_step w ?w")
proof (rule frame_step [OF inv, where C = "{}"])
  have l: "lock_holder ?w n = (case lock_holder w n of Some l \<Rightarrow> if lr_pid l = p then None else Some l | None \<Rightarrow> None)" for n
    by (cases "al_get (dd_machines (aw_disk w)) n"; cases "al_get (aw_locks w) n")
      (auto simp: lock_holder_def split: machine_entry.splits)
  have s: "saved_claim ?w = saved_claim w" by (simp add: saved_claim_def fun_eq_iff)
  show "quiet w ?w"
    by (auto simp: quiet_def claims_of_def s reservation_at_def l split: option.splits if_splits)
  show "locks_in_dirs ?w" using inv by (simp add: alloc_inv_def locks_in_dirs_def)
  show "aw_explicit ?w = aw_explicit w" by simp
  have old: "live_creation w x = Some cx \<and> cr_pid cx \<noteq> p" if "live_creation ?w x = Some cx" for x cx
    using that by (auto simp: live_creation_def split: option.splits if_splits)
  have at: "same_at w ?w (cr_name cx)" if "live_creation ?w x = Some cx" "holding cx" for x cx
    using holder_names [OF inv] old [OF that(1)] that(2)
    by (auto simp: same_at_def l has_machine_lock_def dest!: holder_names [OF inv])
  show "live_creation w x = Some cx \<and> (holding cx \<longrightarrow> same_at w ?w (cr_name cx)) \<and> (aw_alloc w = Some x \<longrightarrow> aw_alloc ?w = Some x)"
    if "live_creation ?w x = Some cx" for x cx
    using old [OF that] at [OF that] by simp
qed simp

section \<open>The claim\<close>

lemma ensure_dir_same:
  assumes "locks_in_dirs w" and "w1 = free_alloc (w\<lparr>aw_disk := ensure_machine_dir n (aw_disk w)\<rparr>)"
    and "al_get (dd_machines (aw_disk w)) n \<noteq> Some PlainFile"
  shows "locks_in_dirs w1" "lock_holder w1 = lock_holder w" "machine_json (aw_disk w1) = machine_json (aw_disk w)"
    "\<exists>f. al_get (dd_machines (aw_disk w1)) n = Some (MachineDir f)"
    "m \<noteq> n \<Longrightarrow> al_get (dd_machines (aw_disk w1)) m = al_get (dd_machines (aw_disk w)) m"
proof -
  have f: "aw_locks w1 = aw_locks w" "aw_dead w1 = aw_dead w" "aw_disk w1 = ensure_machine_dir n (aw_disk w)"
    by (simp_all add: assms(2) free_alloc_def)
  have g: "al_get (dd_machines (aw_disk w1)) m = (if m = n \<and> al_get (dd_machines (aw_disk w)) n = None then Some (MachineDir None)
      else al_get (dd_machines (aw_disk w)) m)" for m
    by (auto simp: f ensure_machine_dir_def al.get_put_iff split: option.splits)
  show l: "locks_in_dirs w1" using assms(1) unfolding locks_in_dirs_def f(1) g by auto
  show "lock_holder w1 = lock_holder w"
    by (rule ext) (auto simp: holder_simple [OF l] holder_simple [OF assms(1)] f(1,2) split: option.splits)
  show "machine_json (aw_disk w1) = machine_json (aw_disk w)"
    by (rule ext) (auto simp: machine_json_def g split: option.splits)
  show "\<exists>f. al_get (dd_machines (aw_disk w1)) n = Some (MachineDir f)"
  proof (cases "al_get (dd_machines (aw_disk w)) n")
    case (Some e)
    then show ?thesis using assms(3) by (cases e) (auto simp: g)
  qed (simp add: g)
  show "m \<noteq> n \<Longrightarrow> al_get (dd_machines (aw_disk w1)) m = al_get (dd_machines (aw_disk w)) m" by (simp add: g)
qed

text \<open>The refused claims change nothing but the phase.\<close>

lemma refused_step:
  assumes inv: "alloc_inv w" and c: "live_creation w c = Some cr" "aw_alloc w = Some c"
    and same: "lock_holder w' = lock_holder w" "machine_json (aw_disk w') = machine_json (aw_disk w)"
    and fields: "locks_in_dirs w'" "aw_dead w' = aw_dead w" "aw_explicit w' = aw_explicit w"
    and procs: "aw_procs w' = al_put c (cr\<lparr>cr_phase := Over r\<rparr>) (aw_procs w)"
  shows "good_step w w'"
  by (rule phase_step [OF inv same fields procs]) (use c in \<open>simp_all add: ended_ok\<close>)

lemma granted_step:
  assumes inv: "alloc_inv w" and c: "live_creation w c = Some cr" and p: "cr_phase cr = Chosen pk"
    and free: "lock_holder w (cr_name cr) = None" "machine_json (aw_disk w) (cr_name cr) = None"
    and dd: "\<And>m. m \<noteq> cr_name cr \<Longrightarrow> al_get (dd_machines (aw_disk w')) m = al_get (dd_machines (aw_disk w)) m"
    and ll: "\<And>m. m \<noteq> cr_name cr \<Longrightarrow> al_get (aw_locks w') m = al_get (aw_locks w) m"
    and ld: "locks_in_dirs w'" and dead: "aw_dead w' = aw_dead w"
    and procs: "aw_procs w' = al_put c (cr\<lparr>cr_phase := Claimed pk\<rparr>) (aw_procs w)"
    and lock: "al_get (aw_locks w') (cr_name cr) = Some l" "lr_pid l = cr_pid cr" "lr_token l = c"
      "lr_reserve l = Some (pk_portBase pk, picked_macs pk)"
    and json: "machine_json (aw_disk w') (cr_name cr) = None"
    and expl: "set (aw_explicit w') = (if requested_base (cr_opts cr) \<noteq> None then insert (cr_name cr) (set (aw_explicit w))
        else set (aw_explicit w) - {cr_name cr})"
  shows "good_step w w'"
proof
  let ?n = "cr_name cr"
  let ?k = "(pk_portBase pk, picked_macs pk)"
  note ch = change_at [OF dd ll dead]
  have ok: "aw_alloc w = Some c" "clear_base w cr (pk_portBase pk)" "clear_macs w cr (picked_macs pk)"
    using phase_known [OF inv c] p by (simp_all add: phase_ok_def)
  have h: "lock_holder w' ?n = Some l"
    using live_alive [OF c] lock by (simp add: holder_simple [OF ld] dead)
  have r: "reservation_at w' ?n = Some ?k" by (simp add: reservation_at_def h lock)
  have now: "claims_of w' ?n = {?k}" using r no_json_no_claim [OF json] by (simp add: claims_of_def)
  have before: "claims_of w ?n = {}"
    using free no_json_no_claim by (simp add: claims_of_def reservation_at_def)
  have t: "table_of w' = \<lparr>ct_claims = (ct_claims (table_of w))(?n := {?k}),
      ct_explicit = (if requested_base (cr_opts cr) \<noteq> None then insert ?n (ct_explicit (table_of w)) else ct_explicit (table_of w) - {?n})\<rparr>"
    using now ch(4) expl by (auto simp: table_of_def fun_eq_iff)
  show "claim_step (table_of w) (table_of w')"
    unfolding t
  proof (rule claim_step.Grant)
    show "ct_claims (table_of w) ?n = {}" using before by (simp add: table_of_def)
    fix m k' assume "m \<noteq> ?n" "k' \<in> ct_claims (table_of w) m"
    then show "apart (requested_base (cr_opts cr) \<noteq> None) ?k k'"
      using ok(2,3) unfolding clear_base_def clear_macs_def table_of_def apart_def by (auto simp del: split_paired_All)
  qed
  have "phase_ok w' x cx" if x: "live_creation w' x = Some cx" for x cx
  proof (cases "x = c")
    case True
    then have "cx = cr\<lparr>cr_phase := Claimed pk\<rparr>"
      using x by (auto simp: live_creation_def procs al.get_put split: if_splits)
    then show ?thesis using h r lock json True by (simp add: phase_ok_def has_machine_lock_def)
  next
    case False
    then have lw: "live_creation w x = Some cx"
      using x by (auto simp: live_creation_def procs dead al.get_put_iff split: option.splits if_splits)
    note old = phase_known [OF inv lw]
    show ?thesis
    proof (cases "holding cx")
      case True
      then have "cr_name cx \<noteq> ?n" using holder_names [OF inv lw True] free by (auto simp: has_machine_lock_def)
      then have "same_at w w' (cr_name cx)" "reservation_at w' (cr_name cx) = reservation_at w (cr_name cx)" using ch by simp_all
      then show ?thesis
        using old True by (auto simp: phase_ok_def holding_def same_at_def has_machine_lock_def split: alloc_phase.splits)
    next
      case False
      then show ?thesis
        using old ok(1) \<open>x \<noteq> c\<close> by (auto simp: phase_ok_def holding_def split: alloc_phase.splits)
    qed
  qed
  then show "alloc_inv w'" using ld by (simp add: alloc_inv_def)
qed

lemma take_lock_step:
  assumes inv: "alloc_inv w" and ex: "alloc_exec digest (TakeLock c) w = Some w'"
  shows "good_step w w'"
proof -
  obtain cr pk where c: "live_creation w c = Some cr" and p: "cr_phase cr = Chosen pk" and w': "w' = take_machine_lock c cr pk w"
    using ex by (auto split: option.splits alloc_phase.splits)
  let ?n = "cr_name cr"
  have al: "aw_alloc w = Some c" using phase_known [OF inv c] p by (simp add: phase_ok_def)
  have ld: "locks_in_dirs w" using inv by (simp add: alloc_inv_def)
  define w1 where "w1 = free_alloc (w\<lparr>aw_disk := ensure_machine_dir ?n (aw_disk w)\<rparr>)"
  have fields: "aw_locks w1 = aw_locks w" "aw_dead w1 = aw_dead w" "aw_procs w1 = aw_procs w" "aw_explicit w1 = aw_explicit w"
    by (simp_all add: w1_def free_alloc_def)
  note take = take_machine_lock_def [of c cr pk w, unfolded Let_def, folded w1_def]
  show ?thesis
  proof (cases "al_get (dd_machines (aw_disk w)) ?n = Some PlainFile")
    case True
    then have "w' = enter c cr (Over (Inl (QuickCHRError STATE_ERROR ''not a directory''))) (free_alloc w)"
      by (simp add: w' take)
    then show ?thesis using al by (intro ended_step [OF inv]) blast
  next
    case plain: False
    note e = ensure_dir_same [OF ld w1_def plain]
    show ?thesis
    proof (cases "lock_holder w1 ?n \<noteq> None")
      case True
      then have "w' = enter c cr (Over (Inl (QuickCHRError MACHINE_LOCKED ''locked''))) w1" using plain by (simp add: w' take)
      moreover from this have "locks_in_dirs w'" using e(1) by (simp add: locks_in_dirs_def)
      ultimately show ?thesis
        using e(2,3) fields by (intro refused_step [OF inv c al]) (simp_all, simp add: enter_def)
    next
      case unheld: False
      show ?thesis
      proof (cases "machine_json (aw_disk w1) ?n \<noteq> None")
        case True
        then have v: "w' = enter c cr (Over (Inl (QuickCHRError MACHINE_EXISTS ''created by another process'')))
            (w1\<lparr>aw_locks := al_del ?n (aw_locks w1)\<rparr>)"
          using plain unheld by (simp add: w' take)
        have ld': "locks_in_dirs w'" using e(1) by (auto simp: v locks_in_dirs_def al.get_del_iff)
        have "lock_holder w' m = lock_holder w1 m" for m
        proof (cases "m = ?n")
          case True
          then show ?thesis using unheld by (simp add: holder_simple [OF ld']) (simp add: v al.get_del)
        next
          case False
          then show ?thesis
            by (auto simp: holder_simple [OF ld'] holder_simple [OF e(1)] split: option.splits) (auto simp: v al.get_del_iff)
        qed
        then have "lock_holder w' = lock_holder w" using e(2) by auto
        then show ?thesis
          using e(3) fields ld' by (intro refused_step [OF inv c al]) (auto simp: v enter_def)
      next
        case nojson: False
        then have v: "w' = enter c cr (Claimed pk)
             (w1\<lparr>aw_locks := al_put ?n \<lparr>lr_pid = cr_pid cr, lr_op = OpStart, lr_token = c,
                    lr_reserve = Some (pk_portBase pk, picked_macs pk), lr_released = False\<rparr> (aw_locks w1),
                 aw_explicit := (if requested_base (cr_opts cr) = None then removeAll ?n (aw_explicit w1)
                                 else ?n # aw_explicit w1)\<rparr>)"
          using plain unheld by (simp add: w' take)
        have ld': "locks_in_dirs w'" using e(1,4) by (auto simp: v locks_in_dirs_def al.get_put_iff)
        show ?thesis
          by (rule granted_step [OF inv c p _ _ _ _ ld'])
            (use unheld nojson e in \<open>simp_all add: v fields al.get_put_iff, simp_all add: enter_def fields\<close>)
      qed
    qed
  qed
qed

lemma begin_step:
  assumes inv: "alloc_inv w" and ex: "alloc_exec digest (Begin c p n opts) w = Some w'"
  shows "good_step w w'"
  by (rule phase_move [OF inv, where al = "aw_alloc w" and c = c
        and cr' = "\<lparr>cr_pid = p, cr_name = n, cr_opts = opts, cr_phase = Waiting\<rparr>"])
    (use ex in \<open>auto simp: phase_ok_def split: if_splits\<close>)

lemma alloc_good_step:
  assumes "alloc_inv w" and "alloc_exec digest ev w = Some w'"
  shows "good_step w w'"
proof (cases ev)
  case (Crash p)
  then show ?thesis using assms crash_step [OF assms(1), of p] by simp
next
  case (SaveCreated c m)
  then show ?thesis using assms(2) by (intro save_step [OF assms(1)]) simp
next
  case (Begin c p n opts)
  then show ?thesis using assms(2) by (intro begin_step [OF assms(1)]) simp
next
  case (Resave m)
  then show ?thesis using assms(2) by (intro resave_step [OF assms(1)]) simp
next
  case (RemoveDir n)
  then show ?thesis using assms(2) by (intro remove_step [OF assms(1)]) simp
next
  case (TakeLock c)
  then show ?thesis using assms(2) by (intro take_lock_step [OF assms(1)]) simp
qed (use choosing_step [OF assms] release_step [OF assms] in blast)+

section \<open>Every run\<close>

lemma alloc_run_snoc:
  "alloc_run digest (evs @ es) w = Option.bind (alloc_run digest evs w) (alloc_run digest es)"
  by (induction evs arbitrary: w) (auto split: bind_splits)

lemma fresh_inv: "alloc_inv (fresh_world r)" "all_apart (table_of (fresh_world r))"
  by (auto simp: alloc_inv_def fresh_world_def locks_in_dirs_def live_creation_def all_apart_def table_of_def claims_of_def
      saved_claim_def loaded_state_def tryLoadMachine_def loadMachine_def machine_json_def reservation_at_def lock_holder_def)

lemma run_good:
  "alloc_run digest evs w = Some w' \<Longrightarrow> alloc_inv w \<Longrightarrow> all_apart (table_of w) \<Longrightarrow> alloc_inv w' \<and> all_apart (table_of w')"
proof (induction evs arbitrary: w)
  case (Cons ev evs)
  then obtain v where v: "alloc_exec digest ev w = Some v" "alloc_run digest evs v = Some w'"
    by (auto simp: bind_eq_Some_conv)
  show ?case
    using Cons.IH [OF v(2)] alloc_good_step [OF Cons.prems(2) v(1)] claim_step_apart Cons.prems(3) by blast
qed simp

lemma pick_alone:
  assumes c: "live_creation w c = Some cr" and p: "cr_phase cr = Allocating"
    and pick: "pickNewMachineResources digest net (cr_name cr) (cr_opts cr) (listReservations w (cr_name cr)) (aw_disk w) = Inr (Some pk)"
  shows "\<exists>w'. alloc_run digest [ReadMachines c, ReadReserved c, ChooseBase c net, ChooseRest c] w = Some w'
    \<and> live_creation w' c = Some (cr\<lparr>cr_phase := Chosen pk\<rparr>) \<and> claims_of w' = claims_of w"
proof -
  have r [simp]: "listReservations (enter c cx ph v) n = listReservations v n" for cx ph v n
    by (simp add: listReservations_def cong: if_cong)
  obtain b where "choose_base net (cr_name cr) (cr_opts cr) (loadAllMachines (aw_disk w)) (listReservations w (cr_name cr)) (aw_disk w) = Inr b"
    "choose_rest digest (cr_name cr) (cr_opts cr) (loadAllMachines (aw_disk w)) (listReservations w (cr_name cr)) b (aw_disk w) = Inr (Some pk)"
    using pick by (auto simp: pickNewMachineResources_def Let_def bind_result_Inr_iff)
  then show ?thesis using c p live_alive [OF c] by (simp add: live_enter)
qed



section \<open>What the claims do not cover\<close>

lemma free_mac_first: "derive k \<notin> set used \<Longrightarrow> free_mac derive used k = Some (derive k)"
  by (subst free_mac.simps) simp

lemma free_mac_next: "derive k \<in> set used \<Longrightarrow> free_mac derive used k = free_mac derive used (Suc k)"
  by (subst free_mac.simps) simp

definition silent :: "nat \<Rightarrow> nat \<Rightarrow> probe_event" where
  "silent k p = ProbeTimeout"

lemma silent_base: "findAvailablePortBlock silent used excl extras None = Inr (nextUnusedBase DEFAULT_PORT_BASE used)"
proof -
  have "checkPortConflicts (silent k) t = []" for k t
    by (simp add: checkPortConflicts_def silent_def isPortAvailable_def)
  then have "probe_blocks silent used excl extras (Suc n) 0 b = Inr b" for n b by simp
  from this [of 19] show ?thesis by (simp add: findAvailablePortBlock_def allocatePortBlock_def)
qed

definition options_for :: "nat option \<Rightarrow> port_mapping list option \<Rightarrow> start_options" where
  "options_for base extras = \<lparr>so_portBase = base, so_excludePorts = None, so_extraPorts = extras, so_networks = None, so_network = None\<rparr>"

definition created :: "string \<Rightarrow> nat \<Rightarrow> port_mapping list \<Rightarrow> string \<Rightarrow> machine_state" where
  "created n b extras mac = demo_state\<lparr>ms_name := n, ms_machineDir := ''/q/machines/'' @ n, ms_portBase := b,
     ms_ports := buildPortMappings b [] extras, ms_networks := [mk_config 0 UserNet\<lparr>nc_mac := Some mac\<rparr>]\<rparr>"

definition reads :: "nat \<Rightarrow> alloc_event list" where
  "reads c = [Allocate c, ReadMachines c, ReadReserved c]"

definition choices :: "nat \<Rightarrow> alloc_event list" where
  "choices c = [ChooseBase c silent, ChooseRest c, TakeLock c]"

definition mac0 :: string where "mac0 = join '':'' (''02'' # replicate 5 (hex2 48))"
definition mac1 :: string where "mac1 = join '':'' (''02'' # replicate 5 (hex2 49))"

text \<open>A toy digest: the salt, five times.\<close>

lemma toy_macs:
  "deriveMac last_char_digest n 0 0 = mac0" "deriveMac last_char_digest n 0 (Suc 0) = mac1" "mac0 \<noteq> mac1" "mac0 \<noteq> []" "mac1 \<noteq> []"
proof -
  have "deriveMac last_char_digest n 0 s = join '':'' (''02'' # replicate 5 (hex2 (48 + s)))" if "s < 10" for s
    using that by (simp add: deriveMac_def last_char_digest_def show_nat.simps [of s] digit_char_def)
  from this [of 0] this [of 1] show "deriveMac last_char_digest n 0 0 = mac0" "deriveMac last_char_digest n 0 (Suc 0) = mac1"
    by (simp_all add: mac0_def mac1_def)
  show "mac0 \<noteq> mac1" "mac0 \<noteq> []" "mac1 \<noteq> []" unfolding mac0_def mac1_def by code_simp+
qed

lemma toy_assign:
  "mac0 \<notin> set used \<Longrightarrow> assignMacs last_char_digest n [mk_config 0 UserNet] used = Some [mk_config 0 UserNet\<lparr>nc_mac := Some mac0\<rparr>]"
  "mac0 \<in> set used \<Longrightarrow> mac1 \<notin> set used \<Longrightarrow>
     assignMacs last_char_digest n [mk_config 0 UserNet] used = Some [mk_config 0 UserNet\<lparr>nc_mac := Some mac1\<rparr>]"
  by (simp_all add: assignMacs_def has_mac_def mk_config_def given_macs_def free_mac_first free_mac_next toy_macs)

text \<open>\<open>b\<close> names the base 9100. It reads the machines while \<open>a\<close> is being created, and the reservations
  after \<open>a\<close> was saved and its lock released.\<close>

definition race_explicit :: "alloc_event list" where
  "race_explicit = Begin 1 11 ''a'' (options_for None None) # reads 1 @ choices 1 @
     [Begin 2 12 ''b'' (options_for (Some 9100) None), Allocate 2, ReadMachines 2,
      SaveCreated 1 (created ''a'' 9100 [] mac0), ReleaseLock 1, ReadReserved 2] @ choices 2 @
     [SaveCreated 2 (created ''b'' 9100 [] mac1)]"

text \<open>Two creations, one after the other under the allocation lock, ask for the same extra host port.\<close>

definition web :: "port_mapping list" where
  "web = [\<lparr>pm_name = ''web'', pm_host = 8443, pm_guest = 443, pm_proto = TCP\<rparr>]"

definition race_extra :: "alloc_event list" where
  "race_extra = Begin 1 11 ''a'' (options_for None (Some web)) # reads 1 @ choices 1 @
     Begin 2 12 ''b'' (options_for None (Some web)) # reads 2 @ choices 2 @
     [SaveCreated 1 (created ''a'' 9100 web mac0), SaveCreated 2 (created ''b'' 9110 web mac1)]"

lemmas alloc_simps = live_creation_def enter_def free_alloc_def alloc_free_def take_machine_lock_def lock_holder_def
  reservation_at_def listReservations_def ensure_machine_dir_def machine_json_def al_get_def al_put_def al_del_def

definition pick1 :: "picked" where
  "pick1 = \<lparr>pk_portBase = 9100, pk_ports = buildPortMappings 9100 [] [], pk_networks = [mk_config 0 UserNet\<lparr>nc_mac := Some mac0\<rparr>]\<rparr>"

lemma auto_choice:
  "choose_base silent n (options_for None e) ms rs d =
     Inr (nextUnusedBase DEFAULT_PORT_BASE (getUsedPortBases d @ map (\<lambda>(_, b, _). b) rs))"
  by (simp add: choose_base_def requested_base_def options_for_def silent_base)

lemma no_extras_choice:
  "choose_rest last_char_digest n (options_for b None) ms rs p d =
     (let used = getUsedMacs d @ concat (map (\<lambda>(_, _, macs). macs) rs) in
      Inr (map_option (\<lambda>ns. \<lparr>pk_portBase = p, pk_ports = buildPortMappings p [] [], pk_networks = ns\<rparr>)
        (assignMacs last_char_digest n [mk_config 0 UserNet] used)))"
  by (simp add: choose_rest_def options_for_def validateExplicitExtraPorts_def or_empty_def resolveStartNetworks_def)

lemma explicit_choice:
  "b \<noteq> 0 \<Longrightarrow> choose_base net n (options_for (Some b) e) ms rs d = bind_result (assertPortBaseFree b n ms rs) (\<lambda>_. Inr b)"
  "requested_base (options_for (Some b) e) = (if b = 0 then None else Some b)" "requested_base (options_for None e) = None"
  by (simp_all add: choose_base_def requested_base_def options_for_def)

definition file_state :: "machine_file \<Rightarrow> machine_state option" where
  "file_state f = loaded_state \<lparr>dd_root = [], dd_machines = [([], MachineDir (Some f))], dd_removing = [], dd_bootLog = []\<rparr> []"

lemma loaded_eval:
  "loaded_state d n = (case al_get (dd_machines d) n of Some (MachineDir (Some f)) \<Rightarrow> file_state f | _ \<Rightarrow> None)"
  by (simp add: file_state_def loaded_state_def tryLoadMachine_def loadMachine_def machine_json_def al_get_def
      split: option.split machine_entry.split)

lemma file_state_file [simp]: "file_state (state_file m) = Some m"
  unfolding file_state_def loaded_state_iff by (rule load_written) (simp add: al_get_def)

lemma toy_given [simp]: "given_macs [mk_config 0 UserNet\<lparr>nc_mac := Some m\<rparr>] = (if m = [] then [] else [m])"
  by (simp add: given_macs_def has_mac_def)

lemma extras_choice:
  "8443 \<notin> set [p..<p + 6] \<Longrightarrow> choose_rest last_char_digest n (options_for b (Some web)) [] rs p d =
     (let used = getUsedMacs d @ concat (map (\<lambda>(_, _, macs). macs) rs) in
      Inr (map_option (\<lambda>ns. \<lparr>pk_portBase = p, pk_ports = buildPortMappings p [] web, pk_networks = ns\<rparr>)
        (assignMacs last_char_digest n [mk_config 0 UserNet] used)))"
  by (auto simp: choose_rest_def options_for_def validateExplicitExtraPorts_def or_empty_def resolveStartNetworks_def web_def
      service_hosts_def SERVICE_PORTS_def other_hosts_def)

lemmas run_simps = reads_def choices_def fresh_world_def alloc_simps Let_def loadAllMachines_def listMachineNames_def getUsedPortBases_def
  getUsedMacs_def map_filter_Cons auto_choice no_extras_choice extras_choice explicit_choice nextUnusedBase_def toy_assign toy_macs
  toy_macs(3) [symmetric] picked_macs_def DEFAULT_PORT_BASE_def PORTS_PER_BLOCK_def next_step_def overlaps_iff loaded_eval
  saveMachine_def getMachineDir_def is_directory_def created_def assertPortBaseFree_def

lemma race_extra_port: "list_ex (\<lambda>m. pm_host m = 8443) (map snd (buildPortMappings p [] web))"
  by (simp add: buildPortMappings_def Let_def web_def SERVICE_PORTS_def put_mapping_def service_mapping_def
      extra_mapping_def extra_label_def)


end
