(* ===== verification/Cli_Flags.thy ===== *)
theory Cli_Flags
  imports Settings
begin

text \<open>
  The flags of the commands (\<open>src/cli/flags.ts\<close>) and their parser (\<open>parseFlags\<close> of \<open>src/cli/index.ts\<close>). The parsed
  flags are an association list in the order in which they were first given, as \<open>Object.keys\<close> lists them (a
  name that reads as an array index would come first; no command knows one).
\<close>

section \<open>Tables\<close>

definition CREATE_FLAGS :: "string list" where
  "CREATE_FLAGS =
     [''version'', ''channel'', ''arch'', ''name'', ''cpu'', ''mem'', ''accel'',
      ''add-package'', ''install-all-packages'',
      ''port-base'', ''forward'', ''winbox'', ''api-ssl'',
      ''add-network'', ''network'',
      ''boot-disk-format'', ''boot-size'', ''add-disk'',
      ''device-mode'', ''device-mode-enable'', ''device-mode-disable'',
      ''add-user'', ''disable-admin'', ''secure-login'',
      ''qemu-arg'']"

definition START_ONLY_FLAGS :: "string list" where
  "START_ONLY_FLAGS =
     [''all'', ''dry-run'', ''wait'', ''background'', ''bg'', ''fg'', ''foreground'',
      ''timeout-extra'', ''frozen'',
      ''license-level'', ''license-account'', ''license-password'']"

definition SET_ONLY_FLAGS :: "string list" where
  "SET_ONLY_FLAGS =
     [''name'', ''license'', ''level'', ''account'', ''password'',
      ''package'',
      ''device-mode'', ''device-mode-enable'', ''device-mode-disable'',
      ''qemu-arg'', ''clear-qemu-args'']"

definition ADD_FLAGS :: "string list" where
  "ADD_FLAGS = CREATE_FLAGS"

definition START_FLAGS :: "string list" where
  "START_FLAGS = CREATE_FLAGS @ START_ONLY_FLAGS"

definition SET_FLAGS :: "string list" where
  "SET_FLAGS = SET_ONLY_FLAGS"

definition VALUE_FLAGS :: "string set" where
  "VALUE_FLAGS = set
     [''version'', ''channel'', ''arch'', ''name'', ''cpu'', ''mem'', ''accel'',
      ''add-package'', ''port-base'', ''forward'',
      ''add-network'',
      ''boot-disk-format'', ''boot-size'', ''add-disk'',
      ''device-mode'', ''device-mode-enable'', ''device-mode-disable'',
      ''add-user'', ''timeout-extra'',
      ''license-level'', ''license-account'', ''license-password'',
      ''qemu-arg'',
      ''via'', ''user'', ''password'', ''timeout'', ''path'', ''data'', ''script'',
      ''account'', ''level'', ''package'',
      ''mode'', ''port'', ''group'',
      ''shell'', ''lines'',
      ''older-than'', ''max-age'', ''max-size'']"

definition REMOVED_FLAGS :: "(string \<times> string) list" where
  "REMOVED_FLAGS =
     [(''vmnet-shared'', ''--add-network shared''),
      (''vmnet-bridge'', ''--add-network bridged:<iface>''),
      (''install-deps'', ''quickchr doctor (it never installed anything; doctor lists missing host dependencies and how to install them)'')]"

definition NEGATABLE_VALUE_FLAGS :: "string set" where
  "NEGATABLE_VALUE_FLAGS = {''device-mode''}"

section \<open>Flag values\<close>

datatype flag_value = Switched bool | Given string | Repeated "string list"

type_synonym flags = "(string \<times> flag_value) list"

definition valueless :: "string list \<Rightarrow> string \<times> flag_value \<Rightarrow> (string \<times> bool) option" where
  "valueless known = (\<lambda>(name, v).
     if name \<notin> set known \<or> name \<notin> VALUE_FLAGS then None
     else (case v of
             Switched b \<Rightarrow> if \<not> b \<and> name \<in> NEGATABLE_VALUE_FLAGS then None else Some (name, \<not> b)
           | _ \<Rightarrow> None))"

definition valuelessFlags :: "flags \<Rightarrow> string list \<Rightarrow> (string \<times> bool) list" where
  "valuelessFlags fl known = List.map_filter (valueless known) fl"

definition plural :: "'a list \<Rightarrow> string" where
  "plural xs = (if length xs > 1 then ''s'' else [])"

definition help_line :: "string \<Rightarrow> string" where
  "help_line command = ''Run 'quickchr '' @ command @ '' --help' for the full list.''"

definition valuelessFlagMessage :: "(string \<times> bool) list \<Rightarrow> string \<Rightarrow> string" where
  "valuelessFlagMessage vs command =
     (if vs = [] then []
      else join [newline]
        ([''Error: flag'' @ plural vs @ '' for 'quickchr '' @ command @ ''' missing a value:'']
         @ map (\<lambda>(name, negated).
             if negated then ''  --no-'' @ name @ ''  (not a supported negation, --'' @ name @ '' takes a value)''
             else ''  --'' @ name @ '' <value>'') vs
         @ [help_line command]))"

section \<open>Suggestions\<close>

text \<open>One row of the table from the row above it: \<open>left\<close> is the cell before, the list the two cells above.\<close>

fun next_cells :: "char \<Rightarrow> string \<Rightarrow> nat list \<Rightarrow> nat \<Rightarrow> nat list" where
  "next_cells x (y # ys) (p # q # ps) left =
     (let cell = min (min (q + 1) (left + 1)) (p + (if x = y then 0 else 1)) in cell # next_cells x ys (q # ps) cell)"
| "next_cells x ys ps left = []"

text \<open>The rows for the characters of \<open>a\<close> from the \<open>i\<close>-th on.\<close>

fun distance_rows :: "nat \<Rightarrow> string \<Rightarrow> string \<Rightarrow> nat list \<Rightarrow> nat list" where
  "distance_rows i [] b previous = previous"
| "distance_rows i (x # xs) b previous = distance_rows (Suc i) xs b (i # next_cells x b previous i)"

definition editDistance :: "string \<Rightarrow> string \<Rightarrow> nat" where
  "editDistance a b = distance_rows 1 a b [0..<length b + 1] ! length b"

text \<open>\<open>bestDistance\<close> starts at infinity, which is \<open>None\<close>.\<close>

fun closest :: "string \<Rightarrow> string list \<Rightarrow> (nat \<times> string) option \<Rightarrow> (nat \<times> string) option" where
  "closest name [] best = best"
| "closest name (c # cs) best =
     (let d = editDistance name c in
      closest name cs (case best of None \<Rightarrow> Some (d, c) | Some (n, _) \<Rightarrow> if d < n then Some (d, c) else best))"

definition suggestFlag :: "string \<Rightarrow> string list \<Rightarrow> string option" where
  "suggestFlag name known =
     (case closest name known None of
        Some (d, c) \<Rightarrow> if d \<le> max 1 (length name div 3) then Some c else None
      | None \<Rightarrow> None)"

definition unknownFlags :: "flags \<Rightarrow> string list \<Rightarrow> (string \<times> string option) list" where
  "unknownFlags fl known = map (\<lambda>name. (name, suggestFlag name known)) (filter (\<lambda>name. name \<notin> set known) (map fst fl))"

definition unknownFlagMessage :: "(string \<times> string option) list \<Rightarrow> string \<Rightarrow> string" where
  "unknownFlagMessage us command =
     (if us = [] then []
      else join [newline]
        ([''Error: unknown flag'' @ plural us @ '' for 'quickchr '' @ command @ '':'']
         @ map (\<lambda>(name, s).
             case s of Some t \<Rightarrow> if t = [] then ''  --'' @ name else ''  --'' @ name @ ''  (did you mean --'' @ t @ ''?)''
                     | None \<Rightarrow> ''  --'' @ name) us
         @ [help_line command]))"

section \<open>Parsing the arguments\<close>

definition rejectRemovedFlag :: "string \<Rightarrow> unit result" where
  "rejectRemovedFlag key =
     (case al_get REMOVED_FLAGS key of
        None \<Rightarrow> Inr ()
      | Some replacement \<Rightarrow> Inl (QuickCHRError INVALID_ARGUMENT (''--'' @ key @ '' was removed. Use: '' @ replacement)))"

definition appendFlagValue :: "string \<Rightarrow> string \<Rightarrow> flags \<Rightarrow> flags" where
  "appendFlagValue key v fl =
     (case al_get fl key of
        Some (Repeated xs) \<Rightarrow> al_put key (Repeated (xs @ [v])) fl
      | Some (Given x) \<Rightarrow> al_put key (Repeated [x, v]) fl
      | _ \<Rightarrow> al_put key (Given v) fl)"

fun parse_from :: "string set \<Rightarrow> string list \<Rightarrow> flags \<Rightarrow> string list \<Rightarrow> (flags \<times> string list) result" where
  "parse_from valued [] fl pos = Inr (fl, pos)"
| "parse_from valued (arg # rest) fl pos =
     (if arg = ''--'' then Inr (fl, pos @ rest)
      else if \<not> starts_with ''--'' arg then parse_from valued rest fl (pos @ [arg])
      else (case index_of (CHR ''='') arg of
              Some i \<Rightarrow>
                (let key = take (i - 2) (drop 2 arg) in
                 bind_result (rejectRemovedFlag key) (\<lambda>_. parse_from valued rest (appendFlagValue key (drop (i + 1) arg) fl) pos))
            | None \<Rightarrow>
                if starts_with ''--no-'' arg then
                  bind_result (rejectRemovedFlag (drop 5 arg)) (\<lambda>_. parse_from valued rest (al_put (drop 5 arg) (Switched False) fl) pos)
                else
                  (let key = drop 2 arg in
                   bind_result (rejectRemovedFlag key) (\<lambda>_.
                     case rest of
                       next # rest' \<Rightarrow>
                         if key \<in> valued \<and> \<not> starts_with ''--'' next then parse_from valued rest' (appendFlagValue key next fl) pos
                         else parse_from valued rest (al_put key (Switched True) fl) pos
                     | [] \<Rightarrow> parse_from valued rest (al_put key (Switched True) fl) pos))))"

definition parseFlags :: "string list \<Rightarrow> (flags \<times> string list) result" where
  "parseFlags argv = parse_from VALUE_FLAGS argv [] []"

text \<open>What stops \<open>add\<close> and \<open>start\<close>: the text printed before the process exits.\<close>

definition rejectUnknownFlags :: "flags \<Rightarrow> string list \<Rightarrow> string \<Rightarrow> string option" where
  "rejectUnknownFlags fl known command =
     (let unknown = unknownFlags fl known; missing = valuelessFlags fl known in
      if unknown \<noteq> [] then Some (unknownFlagMessage unknown command)
      else if missing \<noteq> [] then Some (valuelessFlagMessage missing command)
      else None)"

section \<open>The distance is the number of edits\<close>

text \<open>One edit: a character inserted, deleted or replaced.\<close>

inductive edit :: "string \<Rightarrow> string \<Rightarrow> bool" where
  insertion: "edit (u @ v) (u @ [x] @ v)"
| deletion: "edit (u @ [x] @ v) (u @ v)"
| replacement: "edit (u @ [x] @ v) (u @ [y] @ v)"

text \<open>The distance by recursion on the two texts.\<close>

fun lev :: "string \<Rightarrow> string \<Rightarrow> nat" where
  "lev [] b = length b"
| "lev (x # a) [] = Suc (length a)"
| "lev (x # a) (y # b) = min (min (lev a (y # b) + 1) (lev (x # a) b + 1)) (lev a b + (if x = y then 0 else 1))"

lemma lev_nil [simp]: "lev a [] = length a"
  by (cases a) simp_all

lemma lev_refl [simp]: "lev a a = 0"
  by (induction a) simp_all

lemma lev_insert: "lev a (y # b) \<le> lev a b + 1"
  by (cases a) simp_all

lemma lev_delete: "lev (x # a) b \<le> lev a b + 1"
  by (cases b) simp_all

lemma lev_drop: "lev a b \<le> lev (x # a) b + 1"
proof (induction b)
  case (Cons y b)
  then show ?case using lev_insert [of a y b] by auto
qed simp

lemma lev_replace: "lev (x # a) b \<le> lev (y # a) b + 1"
proof (induction b)
  case (Cons z b)
  then show ?case by (auto simp: min_def)
qed simp

lemma lev_context: "(\<And>b. lev v b \<le> lev w b + 1) \<Longrightarrow> lev (u @ v) b \<le> lev (u @ w) b + 1"
proof (induction u arbitrary: b)
  case (Cons x u)
  have IH: "lev (u @ v) c \<le> lev (u @ w) c + 1" for c by (rule Cons.IH) (rule Cons.prems)
  show ?case
  proof (induction b)
    case Nil
    then show ?case using Cons.prems [of "[]"] by simp
  next
    case (Cons y b)
    then show ?case using IH [of "y # b"] IH [of b] by (auto simp: min_def)
  qed
qed simp

lemma lev_edit: "edit a b \<Longrightarrow> lev a c \<le> lev b c + 1"
proof (induction rule: edit.induct)
  case (insertion u v x)
  then show ?case using lev_context [of v "x # v" u c] lev_drop by simp
next
  case (deletion u x v)
  then show ?case using lev_context [of "x # v" v u c] lev_delete by simp
next
  case (replacement u x v y)
  then show ?case using lev_context [of "x # v" "y # v" u c] lev_replace by simp
qed

lemma lev_edits: "(edit ^^ k) a b \<Longrightarrow> lev a b \<le> k"
proof (induction k arbitrary: a)
  case (Suc k)
  then obtain c where "edit a c" "(edit ^^ k) c b" using relpowp_Suc_D2 [of k edit a b] by blast
  then show ?case using Suc.IH [of c] lev_edit [of a c b] by fastforce
qed simp

lemma edit_cons: "edit a b \<Longrightarrow> edit (x # a) (x # b)"
proof (induction rule: edit.induct)
  case (insertion u v y)
  then show ?case using edit.insertion [of "x # u" v y] by simp
next
  case (deletion u y v)
  then show ?case using edit.deletion [of "x # u" y v] by simp
next
  case (replacement u y v z)
  then show ?case using edit.replacement [of "x # u" y v z] by simp
qed

lemma edits_cons: "(edit ^^ k) a b \<Longrightarrow> (edit ^^ k) (x # a) (x # b)"
  by (induction k arbitrary: b) (auto simp: relpowp.simps intro: edit_cons)

lemma edits_to_nil: "(edit ^^ length a) a []"
proof (induction a)
  case (Cons x a)
  then show ?case using relpowp_Suc_I2 [of edit "x # a" a "length a" "[]"] deletion [of "[]" x a] by simp
qed simp

lemma edits_from_nil: "(edit ^^ length b) [] b"
proof (induction b)
  case (Cons y b)
  then show ?case using relpowp_Suc_I [of "length b" edit "[]" b "y # b"] insertion [of "[]" b y] by simp
qed simp

lemma edits_lev: "(edit ^^ lev a b) a b"
proof (induction a b rule: lev.induct)
  case (1 b)
  then show ?case using edits_from_nil by simp
next
  case (2 x a)
  then show ?case using edits_to_nil [of "x # a"] by simp
next
  case (3 x a y b)
  have del: "(edit ^^ Suc (lev a (y # b))) (x # a) (y # b)"
    using relpowp_Suc_I2 [OF _ 3(1)] deletion [of "[]" x a] by simp
  have ins: "(edit ^^ Suc (lev (x # a) b)) (x # a) (y # b)"
    using relpowp_Suc_I [OF 3(2), of "y # b"] insertion [of "[]" b y] by simp
  have rep: "(edit ^^ (lev a b + (if x = y then 0 else 1))) (x # a) (y # b)"
  proof (cases "x = y")
    case True
    then show ?thesis using edits_cons [OF 3(3)] by simp
  next
    case False
    then show ?thesis using relpowp_Suc_I2 [OF _ edits_cons [OF 3(3), of y], of "x # a"] replacement [of "[]" x a y] by simp
  qed
  show ?case using del ins rep by (auto simp: min_def)
qed

lemma edit_rev: "edit a b \<Longrightarrow> edit (rev a) (rev b)"
proof (induction rule: edit.induct)
  case (insertion u v x)
  then show ?case using edit.insertion [of "rev v" "rev u" x] by simp
next
  case (deletion u x v)
  then show ?case using edit.deletion [of "rev v" x "rev u"] by simp
next
  case (replacement u x v y)
  then show ?case using edit.replacement [of "rev v" x "rev u" y] by simp
qed

lemma lev_rev: "lev (rev a) (rev b) = lev a b"
proof -
  have e: "(edit ^^ k) a b \<Longrightarrow> (edit ^^ k) (rev a) (rev b)" for k a b
    by (induction k arbitrary: b) (auto simp: relpowp.simps intro: edit_rev)
  have le: "lev (rev a) (rev b) \<le> lev a b" for a b using lev_edits [OF e [OF edits_lev]] .
  from le [of a b] le [of "rev a" "rev b"] show ?thesis by simp
qed

text \<open>The table: the cell in row \<open>i\<close> and column \<open>j\<close> is the distance of the two prefixes.\<close>

definition prefix_lev :: "string \<Rightarrow> string \<Rightarrow> nat \<Rightarrow> nat" where
  "prefix_lev a b j = lev (rev a) (rev (take j b))"

lemma prefix_lev_step:
  assumes "j < length b"
  shows "prefix_lev (a @ [x]) b (Suc j) =
    min (min (prefix_lev a b (Suc j) + 1) (prefix_lev (a @ [x]) b j + 1)) (prefix_lev a b j + (if x = b ! j then 0 else 1))"
  using assms by (simp add: prefix_lev_def take_Suc_conv_app_nth)

lemma next_cells_row:
  assumes "b = us @ ys"
  shows "next_cells x ys (map (prefix_lev a b) [length us..<Suc (length b)]) (prefix_lev (a @ [x]) b (length us))
    = map (prefix_lev (a @ [x]) b) [Suc (length us)..<Suc (length b)]"
  using assms
proof (induction ys arbitrary: us)
  case (Cons y ys)
  let ?n = "length us"
  have n: "?n < length b" using Cons.prems by simp
  have row: "[?n..<Suc (length b)] = ?n # Suc ?n # [Suc (Suc ?n)..<Suc (length b)]" "[Suc ?n..<Suc (length b)] = Suc ?n # [Suc (Suc ?n)..<Suc (length b)]"
    using n by (simp_all add: upt_conv_Cons)
  have "b ! ?n = y" using Cons.prems by simp
  then have cell: "min (min (prefix_lev a b (Suc ?n) + 1) (prefix_lev (a @ [x]) b ?n + 1)) (prefix_lev a b ?n + (if x = y then 0 else 1))
      = prefix_lev (a @ [x]) b (Suc ?n)" using prefix_lev_step [OF n, of a x] by simp
  have "next_cells x ys (map (prefix_lev a b) [Suc ?n..<Suc (length b)]) (prefix_lev (a @ [x]) b (Suc ?n))
      = map (prefix_lev (a @ [x]) b) [Suc (Suc ?n)..<Suc (length b)]"
    using Cons.IH [of "us @ [y]"] Cons.prems by simp
  then show ?case by (simp only: row list.map next_cells.simps Let_def cell)
qed simp

lemma distance_table:
  "distance_rows (Suc (length a)) xs b (map (prefix_lev a b) [0..<Suc (length b)]) = map (prefix_lev (a @ xs) b) [0..<Suc (length b)]"
proof (induction xs arbitrary: a)
  case (Cons x xs)
  have "prefix_lev (a @ [x]) b 0 = Suc (length a)" by (simp add: prefix_lev_def)
  then have "Suc (length a) # next_cells x b (map (prefix_lev a b) [0..<Suc (length b)]) (Suc (length a))
      = map (prefix_lev (a @ [x]) b) [0..<Suc (length b)]"
    using next_cells_row [of b "[]" b x a] by (simp add: upt_conv_Cons del: upt_Suc)
  then show ?case using Cons.IH [of "a @ [x]"] by (simp del: upt_Suc)
qed simp

lemma editDistance_lev: "editDistance a b = lev a b"
proof -
  have "[0..<length b + 1] = map (prefix_lev [] b) [0..<Suc (length b)]"
    by (rule nth_equalityI) (simp_all add: prefix_lev_def del: upt_Suc)
  then have "distance_rows 1 a b [0..<length b + 1] = map (prefix_lev a b) [0..<Suc (length b)]"
    using distance_table [of "[]" a b] by simp
  then have "editDistance a b = prefix_lev a b (length b)" by (simp add: editDistance_def del: upt_Suc)
  then show ?thesis by (simp add: prefix_lev_def lev_rev)
qed

lemma editDistance_least: "editDistance a b = (LEAST k. (edit ^^ k) a b)"
  unfolding editDistance_lev by (rule sym, rule Least_equality) (auto intro: edits_lev lev_edits)

section \<open>Suggestions are the closest flags\<close>

lemma closest_result:
  "case closest name cs best of
     None \<Rightarrow> best = None \<and> cs = []
   | Some (d, c) \<Rightarrow> (best = Some (d, c) \<or> (c \<in> set cs \<and> d = editDistance name c))
       \<and> (case best of Some (n, _) \<Rightarrow> d \<le> n | None \<Rightarrow> True) \<and> list_all (\<lambda>k. d \<le> editDistance name k) cs"
proof (induction cs arbitrary: best)
  case (Cons c cs)
  let ?b = "case best of None \<Rightarrow> Some (editDistance name c, c)
      | Some (n, _) \<Rightarrow> if editDistance name c < n then Some (editDistance name c, c) else best"
  show ?case using Cons.IH [of ?b] by (auto simp: Let_def split: option.splits if_splits)
qed (simp split: option.split)

text \<open>C38: the rolling-row table computes the least number of insertions, deletions and replacements that turn one
  text into the other, and a suggestion is a known flag of least distance, given exactly when some known flag is
  within one third of the name's length, or one edit.\<close>

theorem suggestions_closest:
  "editDistance a b = (LEAST k. (edit ^^ k) a b)
   \<and> (case suggestFlag name known of
        Some c \<Rightarrow> c \<in> set known \<and> list_all (\<lambda>k. editDistance name c \<le> editDistance name k) known
          \<and> editDistance name c \<le> max 1 (length name div 3)
      | None \<Rightarrow> list_all (\<lambda>k. editDistance name k > max 1 (length name div 3)) known)"
  using closest_result [where name = name and cs = known and best = None]
  by (auto simp: editDistance_least suggestFlag_def list_all_iff split: option.splits)

section \<open>What the strict commands accept\<close>

text \<open>a command line is accepted exactly when every flag is one the command knows and every flag that takes
  a value has one; the one exception is \<open>--no-device-mode\<close>, which is an instruction of its own.\<close>

theorem accepted_flags:
  "rejectUnknownFlags fl known command = None \<longleftrightarrow>
     list_all (\<lambda>(name, v). name \<in> set known
       \<and> (if name \<in> VALUE_FLAGS then (case v of Switched b \<Rightarrow> \<not> b \<and> name = ''device-mode'' | _ \<Rightarrow> True) else True)) fl"
proof -
  have u: "unknownFlags fl known = [] \<longleftrightarrow> list_all (\<lambda>(name, v). name \<in> set known) fl"
    by (induction fl) (auto simp: unknownFlags_def)
  have v: "valuelessFlags fl known = [] \<longleftrightarrow> list_all (\<lambda>x. valueless known x = None) fl"
    by (induction fl) (auto simp: valuelessFlags_def List.map_filter_simps split: option.splits)
  have x: "name \<in> set known \<Longrightarrow> valueless known (name, fv) = None \<longleftrightarrow>
      (if name \<in> VALUE_FLAGS then (case fv of Switched b \<Rightarrow> \<not> b \<and> name = ''device-mode'' | _ \<Rightarrow> True) else True)" for name fv
    by (simp add: valueless_def NEGATABLE_VALUE_FLAGS_def split: flag_value.split)
  have "rejectUnknownFlags fl known command = None \<longleftrightarrow> unknownFlags fl known = [] \<and> valuelessFlags fl known = []"
    by (simp add: rejectUnknownFlags_def Let_def)
  also have "\<dots> \<longleftrightarrow> list_all (\<lambda>(name, fv). name \<in> set known \<and> valueless known (name, fv) = None) fl"
    unfolding u v by (induction fl) auto
  also have "\<dots> \<longleftrightarrow> list_all (\<lambda>(name, fv). name \<in> set known
       \<and> (if name \<in> VALUE_FLAGS then (case fv of Switched b \<Rightarrow> \<not> b \<and> name = ''device-mode'' | _ \<Rightarrow> True) else True)) fl"
    using x by (intro arg_cong [where f = "\<lambda>p. list_all p fl"] ext) auto
  finally show ?thesis .
qed

section \<open>A command line is read as it is written\<close>

datatype cli_item = Joined string string | Spaced string string | Switch string | Negation string | Word string

definition render_item :: "cli_item \<Rightarrow> string list" where
  "render_item it = (case it of
     Joined k v \<Rightarrow> [''--'' @ k @ ''='' @ v]
   | Spaced k v \<Rightarrow> [''--'' @ k, v]
   | Switch k \<Rightarrow> [''--'' @ k]
   | Negation k \<Rightarrow> [''--no-'' @ k]
   | Word p \<Rightarrow> [p])"

definition kept_flag :: "string \<Rightarrow> bool" where
  "kept_flag k \<longleftrightarrow> CHR ''='' \<notin> set k \<and> k \<notin> set (map fst REMOVED_FLAGS)"

definition wf_item :: "cli_item \<Rightarrow> bool" where
  "wf_item it = (case it of
     Joined k v \<Rightarrow> kept_flag k
   | Spaced k v \<Rightarrow> k \<in> VALUE_FLAGS \<and> \<not> starts_with ''--'' v
   | Switch k \<Rightarrow> kept_flag k \<and> k \<noteq> [] \<and> \<not> starts_with ''no-'' k \<and> k \<notin> VALUE_FLAGS
   | Negation k \<Rightarrow> kept_flag k
   | Word p \<Rightarrow> \<not> starts_with ''--'' p)"

definition read_item :: "cli_item \<Rightarrow> flags \<times> string list \<Rightarrow> flags \<times> string list" where
  "read_item it = (\<lambda>(fl, pos). case it of
     Joined k v \<Rightarrow> (appendFlagValue k v fl, pos)
   | Spaced k v \<Rightarrow> (appendFlagValue k v fl, pos)
   | Switch k \<Rightarrow> (al_put k (Switched True) fl, pos)
   | Negation k \<Rightarrow> (al_put k (Switched False) fl, pos)
   | Word p \<Rightarrow> (fl, pos @ [p]))"

lemma index_of_none: "c \<notin> set s \<Longrightarrow> index_of c s = None"
  by (induction s) auto

lemma kept_allowed: "kept_flag k \<Longrightarrow> rejectRemovedFlag k = Inr ()"
  by (simp add: kept_flag_def rejectRemovedFlag_def al_get_None split: option.split)

lemma value_flags_kept: "k \<in> VALUE_FLAGS \<Longrightarrow> kept_flag k \<and> k \<noteq> [] \<and> \<not> starts_with ''no-'' k"
proof -
  have "list_all (\<lambda>k. kept_flag k \<and> k \<noteq> [] \<and> \<not> starts_with ''no-'' k)
     [''version'', ''channel'', ''arch'', ''name'', ''cpu'', ''mem'', ''accel'',
      ''add-package'', ''port-base'', ''forward'',
      ''add-network'',
      ''boot-disk-format'', ''boot-size'', ''add-disk'',
      ''device-mode'', ''device-mode-enable'', ''device-mode-disable'',
      ''add-user'', ''timeout-extra'',
      ''license-level'', ''license-account'', ''license-password'',
      ''qemu-arg'',
      ''via'', ''user'', ''password'', ''timeout'', ''path'', ''data'', ''script'',
      ''account'', ''level'', ''package'',
      ''mode'', ''port'', ''group'',
      ''shell'', ''lines'',
      ''older-than'', ''max-age'', ''max-size'']"
    by (simp add: kept_flag_def REMOVED_FLAGS_def starts_with_def)
  then show "k \<in> VALUE_FLAGS \<Longrightarrow> ?thesis" unfolding VALUE_FLAGS_def list_all_iff by blast
qed

lemma starts_dashes [simp]: "starts_with ''--'' (CHR ''-'' # CHR ''-'' # s)" "starts_with ''--no-'' (CHR ''-'' # CHR ''-'' # s) = starts_with ''no-'' s"
  by (simp_all add: starts_with_def)

lemma parse_item:
  assumes "wf_item it"
  shows "parse_from VALUE_FLAGS (render_item it @ rest) fl pos =
    (case read_item it (fl, pos) of (fl', pos') \<Rightarrow> parse_from VALUE_FLAGS rest fl' pos')"
proof (cases it)
  case (Joined k v)
  then have k: "kept_flag k" using assms by (simp add: wf_item_def)
  then have "index_of (CHR ''='') (k @ CHR ''='' # v) = Some (length k)" by (intro index_of_append) (simp add: kept_flag_def)
  then show ?thesis using Joined kept_allowed [OF k] by (simp add: render_item_def read_item_def bind_result_def)
next
  case (Spaced k v)
  then have k: "k \<in> VALUE_FLAGS" "\<not> starts_with ''--'' v" "kept_flag k" "k \<noteq> []" "\<not> starts_with ''no-'' k"
    using assms value_flags_kept by (auto simp: wf_item_def)
  then have "index_of (CHR ''='') k = None" by (intro index_of_none) (simp add: kept_flag_def)
  then show ?thesis using Spaced k kept_allowed [of k] by (simp add: index_of_none render_item_def read_item_def bind_result_def)
next
  case (Switch k)
  then have k: "kept_flag k" "k \<noteq> []" "\<not> starts_with ''no-'' k" "k \<notin> VALUE_FLAGS" using assms by (auto simp: wf_item_def)
  then have "index_of (CHR ''='') k = None" by (intro index_of_none) (simp add: kept_flag_def)
  then show ?thesis using Switch k kept_allowed [of k] by (simp add: index_of_none render_item_def read_item_def bind_result_def split: list.split)
next
  case (Negation k)
  then have k: "kept_flag k" using assms by (simp add: wf_item_def)
  then have "index_of (CHR ''='') k = None" by (intro index_of_none) (simp add: kept_flag_def)
  then show ?thesis using Negation kept_allowed [OF k]
    by (simp add: index_of_none render_item_def read_item_def bind_result_def starts_with_def [of "''no-''"])
next
  case (Word p)
  then have "\<not> starts_with ''--'' p" using assms by (simp add: wf_item_def)
  then show ?thesis using Word by (auto simp: render_item_def read_item_def starts_with_def)
qed

lemma parse_items:
  "list_all wf_item items \<Longrightarrow> parse_from VALUE_FLAGS (concat (map render_item items)) fl pos = Inr (fold read_item items (fl, pos))"
proof (induction items arbitrary: fl pos)
  case (Cons it items)
  then show ?case using parse_item [of it "concat (map render_item items)" fl pos] by (cases "read_item it (fl, pos)") simp
qed simp



end
