(* ===== verification/Device_Mode.thy ===== *)
theory Device_Mode
  imports State "HOL-Library.List_Lexorder" "HOL-Library.Char_ord"
begin

text \<open>
  \<open>src/lib/device-mode.ts\<close>, without its HTTP calls: reading a device-mode request, the payload of
  an update, judging the guest's answer, rendering a request, and the record kept of what was
  applied. A \<open>Set\<close> is a list without repetitions in insertion order, a \<open>Record\<close> an association
  list. Lower-casing is that of ASCII.
\<close>

section \<open>Requests\<close>

definition KNOWN_DEVICE_MODES :: "string list" where
  "KNOWN_DEVICE_MODES = [''home'', ''advanced'', ''basic'', ''rose'']"

definition KNOWN_DEVICE_MODE_FEATURES :: "string list" where
  "KNOWN_DEVICE_MODE_FEATURES =
    [''scheduler'', ''socks'', ''fetch'', ''pptp'', ''l2tp'', ''bandwidth-test'', ''traffic-gen'', ''sniffer'', ''ipsec'',
     ''romon'', ''proxy'', ''hotspot'', ''smb'', ''email'', ''zerotier'', ''container'', ''install-any-version'', ''partitions'',
     ''routerboard'']"

definition SKIP_VALUES :: "string list" where
  "SKIP_VALUES = [''skip'', ''none'', ''off'', ''disabled'']"

datatype device_mode_warning =
    SkipIgnoresFeatures
  | LegacyEnterprise
  | UnknownMode string
  | ConflictingFeature string
  | UnknownEnable string
  | UnknownDisable string

record resolved_device_mode =
  rd_skip :: bool
  rd_mode :: "string option"
  rd_features :: "(string \<times> bool) list"
  rd_warnings :: "device_mode_warning list"

definition norm_word :: "string \<Rightarrow> string" where
  "norm_word value = to_lower (trim value)"

fun uniq :: "'a list \<Rightarrow> 'a list" where
  "uniq [] = []"
| "uniq (x # xs) = x # filter (\<lambda>y. y \<noteq> x) (uniq xs)"

definition normalizeFeatureList :: "string list option \<Rightarrow> string list" where
  "normalizeFeatureList xs =
     (case xs of None \<Rightarrow> []
      | Some l \<Rightarrow> uniq (filter (\<lambda>v. v \<noteq> []) (map norm_word (concat (map (split_on CHR '','') l)))))"

definition no_items :: "'a list option \<Rightarrow> bool" where
  "no_items xs \<longleftrightarrow> xs = None \<or> xs = Some []"

text \<open>\<open>true\<close> stands for \<open>"yes"\<close>.\<close>

definition yes_no :: "bool \<Rightarrow> string" where
  "yes_no b = (if b then ''yes'' else ''no'')"

definition set_features :: "bool \<Rightarrow> string list \<Rightarrow> (string \<times> bool) list \<Rightarrow> (string \<times> bool) list" where
  "set_features v names fs = fold (\<lambda>f. al_put f v) names fs"

definition resolved_mode :: "string \<Rightarrow> string" where
  "resolved_mode requested =
     (let mode = (if requested = ''enterprise'' then ''advanced'' else requested) in
      if mode = ''auto'' then ''rose'' else mode)"

definition resolveDeviceModeOptions :: "device_mode_options option \<Rightarrow> resolved_device_mode" where
  "resolveDeviceModeOptions options =
     (case options of
        None \<Rightarrow> \<lparr>rd_skip = True, rd_mode = None, rd_features = [], rd_warnings = []\<rparr>
      | Some dm \<Rightarrow>
          (let requested = norm_word (case dm_mode dm of Some m \<Rightarrow> m | None \<Rightarrow> ''auto'') in
           if requested \<in> set SKIP_VALUES then
             \<lparr>rd_skip = True, rd_mode = None, rd_features = [],
              rd_warnings = (if no_items (dm_enable dm) \<and> no_items (dm_disable dm) then [] else [SkipIgnoresFeatures])\<rparr>
           else
             (let mode = resolved_mode requested;
                  enable = normalizeFeatureList (dm_enable dm);
                  disable = normalizeFeatureList (dm_disable dm);
                  conflicting = filter (\<lambda>f. f \<in> set disable) enable;
                  kept = filter (\<lambda>f. f \<notin> set disable) enable in
              \<lparr>rd_skip = False, rd_mode = Some mode,
               rd_features = set_features False disable (set_features True kept []),
               rd_warnings = (if requested = ''enterprise'' then [LegacyEnterprise] else [])
                 @ (if mode \<notin> set KNOWN_DEVICE_MODES then [UnknownMode mode] else [])
                 @ map ConflictingFeature conflicting
                 @ map UnknownEnable (filter (\<lambda>f. f \<notin> set KNOWN_DEVICE_MODE_FEATURES) kept)
                 @ map UnknownDisable (filter (\<lambda>f. f \<notin> set KNOWN_DEVICE_MODE_FEATURES) disable)\<rparr>)))"

text \<open>A string that JavaScript takes as true.\<close>

definition given_text :: "string option \<Rightarrow> bool" where
  "given_text s \<longleftrightarrow> s \<noteq> None \<and> s \<noteq> Some []"

definition shouldApplyDeviceMode :: "resolved_device_mode \<Rightarrow> bool" where
  "shouldApplyDeviceMode r \<longleftrightarrow> \<not> rd_skip r \<and> (given_text (rd_mode r) \<or> rd_features r \<noteq> [])"

definition formatDeviceModeSelection :: "resolved_device_mode \<Rightarrow> string" where
  "formatDeviceModeSelection r =
     (if rd_skip r then ''skip''
      else join '' '' ((if given_text (rd_mode r) then [''mode='' @ the (rd_mode r)] else [])
             @ map (\<lambda>(n, v). n @ ''='' @ yes_no v) (rd_features r)))"

text \<open>The body of the update request; \<open>None\<close> is no request.\<close>

definition update_payload :: "resolved_device_mode \<Rightarrow> (string \<times> string) list option" where
  "update_payload r =
     (if \<not> shouldApplyDeviceMode r then None
      else Some (fold (\<lambda>(n, v). al_put n (yes_no v)) (rd_features r)
                   (if given_text (rd_mode r) then [(''mode'', the (rd_mode r))] else [])))"

section \<open>The guest's answer\<close>

text \<open>A value of a JSON record; \<open>JOther\<close> is anything else, with its \<open>String(...)\<close>.\<close>

datatype js_value = JBool bool | JNum rat | JText string | JNullish | JOther string

definition js_text :: "js_value \<Rightarrow> string" where
  "js_text v = (case v of JText s \<Rightarrow> s | JOther s \<Rightarrow> s | _ \<Rightarrow> [])"

definition word_yes_no :: "string \<Rightarrow> string" where
  "word_yes_no s =
     (if s \<in> set [''yes'', ''true'', ''on'', ''enabled'', ''1''] then ''yes''
      else if s \<in> set [''no'', ''false'', ''off'', ''disabled'', ''0''] then ''no''
      else s)"

definition toYesNo :: "js_value \<Rightarrow> string" where
  "toYesNo v =
     (case v of JBool b \<Rightarrow> yes_no b | JNum x \<Rightarrow> yes_no (0 < x) | _ \<Rightarrow> word_yes_no (norm_word (js_text v)))"

definition isDeviceModeFeatureEnabled :: "js_value \<Rightarrow> bool" where
  "isDeviceModeFeatureEnabled v \<longleftrightarrow> toYesNo v = ''yes''"

text \<open>A body that parses to an object, or to an array that starts with one.\<close>

definition isDeviceModeBody :: "(string \<times> js_value) list option \<Rightarrow> bool" where
  "isDeviceModeBody body =
     (case body of
        None \<Rightarrow> False
      | Some kv \<Rightarrow>
          if ''board-name'' \<in> fst ` set kv \<or> ''architecture-name'' \<in> fst ` set kv then False
          else ''mode'' \<in> fst ` set kv)"

definition readDeviceMode :: "nat \<Rightarrow> (string \<times> js_value) list option \<Rightarrow> (string \<times> string) list result" where
  "readDeviceMode status body =
     (if status < 200 \<or> 300 \<le> status then Inl (QuickCHRError PROCESS_FAILED ''Failed to read device-mode'')
      else case body of
        None \<Rightarrow> Inl (QuickCHRError PROCESS_FAILED ''Invalid response'')
      | Some kv \<Rightarrow>
          if ''board-name'' \<in> fst ` set kv \<or> ''architecture-name'' \<in> fst ` set kv
          then Inl (QuickCHRError PROCESS_FAILED ''returned system resource data'')
          else Inr (fold (\<lambda>(k, v). al_put (norm_word k) (toYesNo v)) kv []))"

text \<open>The answers the polls get until the deadline; a poll that fails otherwise is tried again.\<close>

datatype api_poll = PollFailed | PollThrew qerror | PollAnswered nat "(string \<times> js_value) list option"

fun waitForDeviceModeApi :: "api_poll list \<Rightarrow> unit result" where
  "waitForDeviceModeApi [] = Inl (QuickCHRError BOOT_TIMEOUT ''Device-mode API did not become ready'')"
| "waitForDeviceModeApi (PollFailed # ps) = waitForDeviceModeApi ps"
| "waitForDeviceModeApi (PollThrew e # ps) = Inl e"
| "waitForDeviceModeApi (PollAnswered status body # ps) =
     (if 200 \<le> status \<and> status < 300 \<and> isDeviceModeBody body then Inr ()
      else if status = 401 then Inl (QuickCHRError PROCESS_FAILED ''Device-mode API auth failed'')
      else waitForDeviceModeApi ps)"

definition DEVICE_MODE_NON_FEATURE_KEYS :: "string list" where
  "DEVICE_MODE_NON_FEATURE_KEYS = [''mode'', ''allowed-versions'', ''attempt-count'', ''flagged'', ''flagging-enabled'']"

section \<open>Verification\<close>

record verification =
  dv_ok :: bool
  dv_mismatches :: "string list"
  dv_expected :: "(string \<times> string) list"

definition expected_settings :: "resolved_device_mode \<Rightarrow> (string \<times> string) list" where
  "expected_settings r =
     fold (\<lambda>(n, v). al_put (norm_word n) (yes_no v)) (rd_features r)
       (if given_text (rd_mode r) then [(''mode'', norm_word (the (rd_mode r)))] else [])"

definition mismatch :: "(string \<times> string) list \<Rightarrow> string \<times> string \<Rightarrow> string option" where
  "mismatch actual kv =
     (case kv of (key, expected) \<Rightarrow>
        if \<not> given_text (al_get actual key) then Some (key @ '': expected='' @ expected @ '', actual=(missing)'')
        else
          (let v = the (al_get actual key);
               actualNorm = (if key = ''mode'' then norm_word v else toYesNo (JText v)) in
           if actualNorm \<noteq> expected then Some (key @ '': expected='' @ expected @ '', actual='' @ actualNorm) else None))"

definition verifyDeviceMode :: "resolved_device_mode \<Rightarrow> (string \<times> string) list \<Rightarrow> verification" where
  "verifyDeviceMode r actual =
     (let expected = expected_settings r; mismatches = List.map_filter (mismatch actual) expected in
      \<lparr>dv_ok = (mismatches = []), dv_mismatches = mismatches, dv_expected = expected\<rparr>)"

text \<open>The key is read back out of the message: what comes before its first colon.\<close>

definition describeDeviceModeChange :: "resolved_device_mode \<Rightarrow> (string \<times> string) list \<Rightarrow> string list" where
  "describeDeviceModeChange r actual =
     (let v = verifyDeviceMode r actual;
          changed = map (\<lambda>m. hd (split_on CHR '':'' m)) (dv_mismatches v) in
      map (\<lambda>(key, want). key @ '': '' @ (case al_get actual key of Some a \<Rightarrow> a | None \<Rightarrow> ''(unset)'') @ '' -> '' @ want)
        (filter (\<lambda>(key, _). key \<in> set changed) (dv_expected v)))"

section \<open>Applying a request to a running machine (\<open>applyDeviceMode\<close> of \<open>quickchr.ts\<close>)\<close>

text \<open>What one update request meets: a transport error, no answer within two seconds (RouterOS waits for
  the power cycle), or an HTTP status; then whether the guest went down by itself, whether it and its
  API came back, and what it reports.\<close>

datatype update_outcome = UpdateRejected qerror | UpdatePending | UpdateAnswered nat

record attempt_env =
  at_outcome :: update_outcome
  at_offline :: bool
  at_rebooted :: bool
  at_waitApi :: "unit result"
  at_read :: "(string \<times> string) list result"

record apply_env =
  ae_waitApi :: "unit result"
  ae_before :: "(string \<times> string) list result"
  ae_attempt :: "nat \<Rightarrow> attempt_env"
  ae_hardReboot :: "unit result"
  ae_booted :: bool
  ae_waitApiAfter :: "unit result"
  ae_after :: "(string \<times> string) list result"

text \<open>How the loop over the attempts ends, and how many requests it sent.\<close>

datatype update_end = Activated | NeedsPowerCycle

definition DEVICE_MODE_ATTEMPTS :: nat where
  "DEVICE_MODE_ATTEMPTS = 5"

definition after_answer :: "resolved_device_mode \<Rightarrow> attempt_env \<Rightarrow> bool result" where
  "after_answer r a =
     bind_result
       (if at_offline a then
          (if \<not> at_rebooted a then Inl (QuickCHRError BOOT_TIMEOUT ''internal reboot timed out'') else at_waitApi a)
        else Inr ())
       (\<lambda>_. bind_result (at_read a) (\<lambda>now. Inr (dv_ok (verifyDeviceMode r now))))"

fun update_attempts :: "(nat \<Rightarrow> attempt_env) \<Rightarrow> resolved_device_mode \<Rightarrow> nat \<Rightarrow> nat \<Rightarrow> update_end result \<times> nat" where
  "update_attempts env r 0 k = (Inl (QuickCHRError PROCESS_FAILED ''did not activate''), k)"
| "update_attempts env r (Suc n) k =
     (case at_outcome (env k) of
        UpdateRejected e \<Rightarrow> (Inl e, Suc k)
      | UpdatePending \<Rightarrow> (Inr NeedsPowerCycle, Suc k)
      | UpdateAnswered status \<Rightarrow>
          if status < 200 \<or> 300 \<le> status then (Inl (QuickCHRError PROCESS_FAILED ''rejected by RouterOS''), Suc k)
          else (case after_answer r (env k) of
                  Inl e \<Rightarrow> (Inl e, Suc k)
                | Inr True \<Rightarrow> (Inr Activated, Suc k)
                | Inr False \<Rightarrow> update_attempts env r n (Suc k)))"

record apply_result =
  ar_result :: "unit result"
  ar_requests :: nat
  ar_powerCycled :: bool

definition power_cycle :: "apply_env \<Rightarrow> unit result" where
  "power_cycle env =
     bind_result (ae_hardReboot env) (\<lambda>_.
       if \<not> ae_booted env then Inl (QuickCHRError BOOT_TIMEOUT ''activation reboot did not come back'') else ae_waitApiAfter env)"

definition final_check :: "apply_env \<Rightarrow> resolved_device_mode \<Rightarrow> unit result" where
  "final_check env r =
     bind_result (ae_after env) (\<lambda>actual.
       if dv_ok (verifyDeviceMode r actual) then Inr ()
       else Inl (QuickCHRError PROCESS_FAILED ''verification failed after hard reboot''))"

definition applyDeviceMode :: "apply_env \<Rightarrow> resolved_device_mode \<Rightarrow> apply_result" where
  "applyDeviceMode env r =
     (case ae_waitApi env of
        Inl e \<Rightarrow> \<lparr>ar_result = Inl e, ar_requests = 0, ar_powerCycled = False\<rparr>
      | Inr _ \<Rightarrow>
          if (case ae_before env of Inr before \<Rightarrow> dv_ok (verifyDeviceMode r before) | Inl _ \<Rightarrow> False)
          then \<lparr>ar_result = Inr (), ar_requests = 0, ar_powerCycled = False\<rparr>
          else
            (case update_attempts (ae_attempt env) r DEVICE_MODE_ATTEMPTS 0 of
               (Inl e, k) \<Rightarrow> \<lparr>ar_result = Inl e, ar_requests = k, ar_powerCycled = False\<rparr>
             | (Inr Activated, k) \<Rightarrow> \<lparr>ar_result = Inr (), ar_requests = k, ar_powerCycled = False\<rparr>
             | (Inr NeedsPowerCycle, k) \<Rightarrow>
                 \<lparr>ar_result = bind_result (power_cycle env) (\<lambda>_. final_check env r),
                  ar_requests = k, ar_powerCycled = True\<rparr>))"

section \<open>The flags of a selection, and the record of what was applied\<close>

definition feature_flag :: "string \<Rightarrow> string list \<Rightarrow> string list" where
  "feature_flag flag names = (if names = [] then [] else [flag @ '' '' @ shellQuote (join '','' (sort names))])"

definition formatDeviceModeFlags :: "resolved_device_mode \<Rightarrow> string" where
  "formatDeviceModeFlags r =
     (if rd_skip r then []
      else join '' '' ((if given_text (rd_mode r) then [''--device-mode '' @ shellQuote (the (rd_mode r))] else [])
             @ feature_flag ''--device-mode-enable'' (map fst (filter snd (rd_features r)))
             @ feature_flag ''--device-mode-disable'' (map fst (filter (\<lambda>(_, v). \<not> v) (rd_features r)))))"

definition merge_feature :: "string \<times> bool \<Rightarrow> string list \<times> string list \<Rightarrow> string list \<times> string list" where
  "merge_feature fv ed =
     (case (fv, ed) of ((f, v), (e, d)) \<Rightarrow>
        (let e' = removeAll f e; d' = removeAll f d in if v then (e' @ [f], d') else (e', d' @ [f])))"

definition some_sorted :: "string list \<Rightarrow> string list option" where
  "some_sorted xs = (if xs = [] then None else Some (sort xs))"

definition mergeDeviceModeOptions :: "device_mode_options option \<Rightarrow> resolved_device_mode \<Rightarrow> device_mode_options" where
  "mergeDeviceModeOptions current applied =
     (if rd_skip applied then
        (case current of Some c \<Rightarrow> c | None \<Rightarrow> \<lparr>dm_mode = None, dm_enable = None, dm_disable = None\<rparr>)
      else
        (let ed = fold merge_feature (rd_features applied)
                    (normalizeFeatureList (Option.bind current dm_enable), normalizeFeatureList (Option.bind current dm_disable)) in
         \<lparr>dm_mode = (case rd_mode applied of Some m \<Rightarrow> Some m | None \<Rightarrow> Option.bind current dm_mode),
          dm_enable = some_sorted (fst ed), dm_disable = some_sorted (snd ed)\<rparr>))"

section \<open>Normal words\<close>

lemma lower_char_code:
  "code (lower_char c) = (if is_upper c \<or> (192 \<le> code c \<and> code c \<le> 222 \<and> code c \<noteq> 215) then code c + 32 else code c)"
  by (auto simp: lower_char_def is_upper_def)

lemma code_inj: "code c = code d \<Longrightarrow> c = d"
  by (simp add: of_char_eq_iff)

lemma lower_char_space: "is_space (lower_char c) = is_space c"
  by (auto simp: is_space_def lower_char_code is_upper_def)

lemma lower_char_idem [simp]: "lower_char (lower_char c) = lower_char c"
  by (rule code_inj) (auto simp: lower_char_code is_upper_def)

lemma lower_char_comma: "lower_char c = CHR '','' \<longleftrightarrow> c = CHR '',''"
proof
  assume "lower_char c = CHR '',''"
  then have "code (lower_char c) = 44" by simp
  then have "code c = code CHR '',''" by (auto simp: lower_char_code is_upper_def split: if_splits)
  then show "c = CHR '',''" by (rule code_inj)
qed (simp add: lower_char_def is_upper_def)

lemma trim_lower: "trim (to_lower s) = to_lower (trim s)"
proof -
  have "dropWhile is_space (map lower_char t) = map lower_char (dropWhile is_space t)" for t
    by (induction t) (simp_all add: lower_char_space)
  then show ?thesis by (simp add: trim_def to_lower_def rev_map)
qed

lemma norm_word_idem [simp]: "norm_word (norm_word s) = norm_word s"
  by (simp add: norm_word_def trim_lower) (simp add: to_lower_def comp_def)

definition normal_word :: "string \<Rightarrow> bool" where
  "normal_word f \<longleftrightarrow> f \<noteq> [] \<and> norm_word f = f \<and> CHR '','' \<notin> set f"

lemma set_uniq [simp]: "set (uniq xs) = set xs"
  by (induction xs) auto

lemma distinct_uniq [simp]: "distinct (uniq xs)"
  by (induction xs) auto

lemma uniq_distinct: "distinct xs \<Longrightarrow> uniq xs = xs"
  by (induction xs) (auto intro: filter_True)

lemma norm_word_no_comma: "CHR '','' \<notin> set s \<Longrightarrow> CHR '','' \<notin> set (norm_word s)"
proof
  assume "CHR '','' \<notin> set s" "CHR '','' \<in> set (norm_word s)"
  then obtain c where "c \<in> set (trim s)" "lower_char c = CHR '',''" unfolding norm_word_def to_lower_def set_map by fastforce
  then have "CHR '','' \<in> set s" using set_trim [of s] lower_char_comma [of c] by blast
  then show False using \<open>CHR '','' \<notin> set s\<close> by blast
qed

lemma normalize_normal: "f \<in> set (normalizeFeatureList xs) \<Longrightarrow> normal_word f"
proof -
  assume "f \<in> set (normalizeFeatureList xs)"
  then obtain l t p where "xs = Some l" "p \<in> set (split_on CHR '','' t)" "f = norm_word p" "f \<noteq> []"
    unfolding normalizeFeatureList_def by (cases xs) auto
  then show "normal_word f" using norm_word_no_comma [OF split_on_pieces] by (simp add: normal_word_def)
qed

lemma normalize_distinct: "distinct (normalizeFeatureList xs)"
  by (simp add: normalizeFeatureList_def split: option.split)

lemma normalize_set_normal:
  assumes "list_all normal_word l"
  shows "set (normalizeFeatureList (Some l)) = set l"
proof -
  have "concat (map (split_on CHR '','') l) = l"
    using assms by (induction l) (simp_all add: normal_word_def)
  moreover have "map norm_word l = l" "filter (\<lambda>v. v \<noteq> []) l = l"
    using assms by (induction l) (simp_all add: normal_word_def)
  ultimately show ?thesis by (simp add: normalizeFeatureList_def)
qed

section \<open>Features as maps\<close>

lemma set_features_get: "al_get (set_features v names fs) f = (if f \<in> set names then Some v else al_get fs f)"
  unfolding set_features_def by (induction names arbitrary: fs) (auto simp: al.get_put_iff)

lemma set_features_distinct: "distinct (map fst fs) \<Longrightarrow> distinct (map fst (set_features v names fs))"
  unfolding set_features_def by (induction names arbitrary: fs) (simp_all add: al_distinct_put)

lemma resolved_distinct: "distinct (map fst (rd_features (resolveDeviceModeOptions dm)))"
  by (auto simp: resolveDeviceModeOptions_def Let_def set_features_distinct split: option.split)

lemma resolved_feature:
  assumes "\<not> rd_skip (resolveDeviceModeOptions (Some dm))"
  shows "al_get (rd_features (resolveDeviceModeOptions (Some dm))) f =
    (if f \<in> set (normalizeFeatureList (dm_disable dm)) then Some False
     else if f \<in> set (normalizeFeatureList (dm_enable dm)) then Some True else None)"
  using assms by (auto simp: resolveDeviceModeOptions_def Let_def set_features_get split: if_splits)

lemma resolved_normal: "f \<in> fst ` set (rd_features (resolveDeviceModeOptions dm)) \<Longrightarrow> normal_word f"
proof -
  assume "f \<in> fst ` set (rd_features (resolveDeviceModeOptions dm))"
  then have g: "al_get (rd_features (resolveDeviceModeOptions dm)) f \<noteq> None" using al_get_None by metis
  then obtain x where x: "dm = Some x" by (cases dm) (auto simp: resolveDeviceModeOptions_def)
  have "\<not> rd_skip (resolveDeviceModeOptions (Some x))"
    using g by (auto simp: x resolveDeviceModeOptions_def Let_def split: if_splits)
  then show "normal_word f" using g normalize_normal by (auto simp: x resolved_feature split: if_splits)
qed

lemma merged_sides:
  assumes "distinct (map fst fs)"
  shows "(f \<in> set (fst (fold merge_feature fs (E, D))) \<longleftrightarrow> (case al_get fs f of Some v \<Rightarrow> v | None \<Rightarrow> f \<in> set E))
    \<and> (f \<in> set (snd (fold merge_feature fs (E, D))) \<longleftrightarrow> (case al_get fs f of Some v \<Rightarrow> \<not> v | None \<Rightarrow> f \<in> set D))"
  using assms
proof (induction fs arbitrary: E D)
  case (Cons fv fs)
  obtain g v where fv: "fv = (g, v)" by (cases fv)
  have g: "al_get fs g = None" using Cons.prems by (simp add: fv al_get_None)
  obtain E' D' where m: "merge_feature fv (E, D) = (E', D')" by (cases "merge_feature fv (E, D)")
  have "f \<in> set E' \<longleftrightarrow> (if f = g then v else f \<in> set E)" "f \<in> set D' \<longleftrightarrow> (if f = g then \<not> v else f \<in> set D)"
    using m by (auto simp: fv merge_feature_def Let_def split: if_splits)
  moreover have "al_get (fv # fs) f = (if f = g then Some v else al_get fs f)" by (simp add: fv al_get_def)
  ultimately show ?case using Cons g by (auto simp: m split: option.split)
qed simp

section \<open>The record of what was applied\<close>

lemma resolved_mode_stable:
  assumes "requested \<notin> set SKIP_VALUES" and "norm_word requested = requested"
  shows "resolved_mode requested \<notin> set SKIP_VALUES" "norm_word (resolved_mode requested) = resolved_mode requested"
    "resolved_mode (resolved_mode requested) = resolved_mode requested"
proof -
  have n: "norm_word ''rose'' = ''rose''" "norm_word ''advanced'' = ''advanced''"
    by (simp_all add: norm_word_def trim_def is_space_def to_lower_def lower_char_def is_upper_def)
  show "resolved_mode requested \<notin> set SKIP_VALUES" "norm_word (resolved_mode requested) = resolved_mode requested"
    "resolved_mode (resolved_mode requested) = resolved_mode requested"
    using assms n by (auto simp: resolved_mode_def SKIP_VALUES_def)
qed

lemma resolved_mode_given:
  assumes "\<not> rd_skip (resolveDeviceModeOptions (Some dm))"
  obtains m where "rd_mode (resolveDeviceModeOptions (Some dm)) = Some m" "m \<notin> set SKIP_VALUES" "norm_word m = m" "resolved_mode m = m"
proof -
  let ?q = "norm_word (case dm_mode dm of Some m \<Rightarrow> m | None \<Rightarrow> ''auto'')"
  have q: "?q \<notin> set SKIP_VALUES" using assms by (auto simp: resolveDeviceModeOptions_def Let_def)
  have "rd_mode (resolveDeviceModeOptions (Some dm)) = Some (resolved_mode ?q)"
    using q by (simp add: resolveDeviceModeOptions_def Let_def)
  then show ?thesis using that resolved_mode_stable [OF q] by simp
qed

text \<open>The merged record, read as a request again.\<close>

lemma merged_resolves:
  fixes cur :: "device_mode_options option"
  assumes skip: "\<not> rd_skip (resolveDeviceModeOptions (Some req))"
  defines "r \<equiv> resolveDeviceModeOptions (Some req)"
  defines "m \<equiv> resolveDeviceModeOptions (Some (mergeDeviceModeOptions cur r))"
  shows "\<not> rd_skip m" "rd_mode m = rd_mode r"
    "al_get (rd_features m) f =
       (case al_get (rd_features r) f of
          Some v \<Rightarrow> Some v
        | None \<Rightarrow> if f \<in> set (normalizeFeatureList (Option.bind cur dm_disable)) then Some False
                  else if f \<in> set (normalizeFeatureList (Option.bind cur dm_enable)) then Some True else None)"
proof -
  let ?E = "normalizeFeatureList (Option.bind cur dm_enable)"
  let ?D = "normalizeFeatureList (Option.bind cur dm_disable)"
  let ?ed = "fold merge_feature (rd_features r) (?E, ?D)"
  let ?rec = "mergeDeviceModeOptions cur r"
  obtain mode where mode: "rd_mode r = Some mode" "mode \<notin> set SKIP_VALUES" "norm_word mode = mode" "resolved_mode mode = mode"
    using resolved_mode_given [OF skip] unfolding r_def by blast
  have rec: "dm_mode ?rec = Some mode" "dm_enable ?rec = some_sorted (fst ?ed)" "dm_disable ?rec = some_sorted (snd ?ed)"
    using skip mode(1) by (simp_all add: mergeDeviceModeOptions_def Let_def r_def)
  show m: "\<not> rd_skip m" "rd_mode m = rd_mode r"
    using mode by (simp_all add: m_def resolveDeviceModeOptions_def Let_def rec)
  have sides: "(f \<in> set (fst ?ed) \<longleftrightarrow> (case al_get (rd_features r) f of Some v \<Rightarrow> v | None \<Rightarrow> f \<in> set ?E))"
    "(f \<in> set (snd ?ed) \<longleftrightarrow> (case al_get (rd_features r) f of Some v \<Rightarrow> \<not> v | None \<Rightarrow> f \<in> set ?D))" for f
    using merged_sides [OF resolved_distinct, of f "Some req" ?E ?D] by (simp_all add: r_def)
  have known: "normal_word f" if "al_get (rd_features r) f = Some v" for f v
    using resolved_normal [of f "Some req"] al_get_in [OF that] by (force simp: r_def)
  have normal: "list_all normal_word (fst ?ed)" "list_all normal_word (snd ?ed)"
    using sides known normalize_normal by (auto simp: list_all_iff split: option.splits)
  have sorted: "set (normalizeFeatureList (some_sorted xs)) = set xs" if "list_all normal_word xs" for xs
  proof (cases "xs = []")
    case False
    then show ?thesis using normalize_set_normal [of "sort xs"] that by (simp add: some_sorted_def list_all_iff)
  qed (simp add: some_sorted_def normalizeFeatureList_def)
  show "al_get (rd_features m) f =
       (case al_get (rd_features r) f of
          Some v \<Rightarrow> Some v
        | None \<Rightarrow> if f \<in> set ?D then Some False else if f \<in> set ?E then Some True else None)"
    using resolved_feature [of ?rec f] m(1) sides [of f] sorted [OF normal(1)] sorted [OF normal(2)]
    by (auto simp: m_def rec split: option.splits)
qed

section \<open>Judging the guest\<close>

lemma mismatch_None:
  "mismatch actual (k, v) = None \<longleftrightarrow>
     given_text (al_get actual k) \<and> (if k = ''mode'' then norm_word (the (al_get actual k)) else toYesNo (JText (the (al_get actual k)))) = v"
  by (simp add: mismatch_def Let_def)

lemma mismatch_key: "mismatch actual (k, v) = Some t \<Longrightarrow> CHR '':'' \<notin> set k \<Longrightarrow> hd (split_on CHR '':'' t) = k"
  by (auto simp: mismatch_def Let_def split_on_append_sep split: if_splits)

text \<open>The guest's answer is accepted exactly when it carries every expected setting; and unless
  a setting's name has a colon in it, what is printed as a change is exactly what is not accepted.\<close>

theorem device_mode_judged:
  "dv_ok (verifyDeviceMode r actual)
     = list_all (\<lambda>(k, v). given_text (al_get actual k)
         \<and> (if k = ''mode'' then norm_word (the (al_get actual k)) else toYesNo (JText (the (al_get actual k)))) = v) (expected_settings r)
   \<and> (list_ex (\<lambda>(k, _). CHR '':'' \<in> set k) (expected_settings r)
      \<or> describeDeviceModeChange r actual
          = map (\<lambda>(k, v). k @ '': '' @ (case al_get actual k of Some a \<Rightarrow> a | None \<Rightarrow> ''(unset)'') @ '' -> '' @ v)
              (filter (\<lambda>kv. mismatch actual kv \<noteq> None) (expected_settings r)))"
proof (intro conjI)
  have "List.map_filter f xs = [] \<longleftrightarrow> list_all (\<lambda>x. f x = None) xs" for f :: "string \<times> string \<Rightarrow> string option" and xs
    by (induction xs) (auto simp: map_filter_Cons split: option.splits)
  then show "dv_ok (verifyDeviceMode r actual)
     = list_all (\<lambda>(k, v). given_text (al_get actual k)
         \<and> (if k = ''mode'' then norm_word (the (al_get actual k)) else toYesNo (JText (the (al_get actual k)))) = v) (expected_settings r)"
    by (auto simp: verifyDeviceMode_def Let_def list_all_iff mismatch_None)
next
  show "list_ex (\<lambda>(k, _). CHR '':'' \<in> set k) (expected_settings r)
      \<or> describeDeviceModeChange r actual
          = map (\<lambda>(k, v). k @ '': '' @ (case al_get actual k of Some a \<Rightarrow> a | None \<Rightarrow> ''(unset)'') @ '' -> '' @ v)
              (filter (\<lambda>kv. mismatch actual kv \<noteq> None) (expected_settings r))"
  proof (cases "list_ex (\<lambda>(k, _). CHR '':'' \<in> set k) (expected_settings r)")
    case False
    have d: "distinct (map fst (expected_settings r))"
    proof -
      have "distinct (map fst (fold (\<lambda>(n, v). al_put (norm_word n) (yes_no v)) fs b))" if "distinct (map fst b)" for fs b
        using that by (induction fs arbitrary: b) (simp_all add: split_beta al_distinct_put)
      then show ?thesis by (simp add: expected_settings_def)
    qed
    have "k \<in> set (map (\<lambda>m. hd (split_on CHR '':'' m)) (List.map_filter (mismatch actual) (expected_settings r)))
        \<longleftrightarrow> mismatch actual (k, v) \<noteq> None"
      if kv: "(k, v) \<in> set (expected_settings r)" for k v
    proof
      assume "k \<in> set (map (\<lambda>m. hd (split_on CHR '':'' m)) (List.map_filter (mismatch actual) (expected_settings r)))"
      then obtain k' v' t where t: "(k', v') \<in> set (expected_settings r)" "mismatch actual (k', v') = Some t" "k = hd (split_on CHR '':'' t)"
        by (auto simp: set_map_filter)
      then have "k = k'" using mismatch_key False by (auto simp: list_ex_iff)
      then show "mismatch actual (k, v) \<noteq> None"
        using t kv d by (metis eq_key_imp_eq_value option.distinct(1))
    next
      assume "mismatch actual (k, v) \<noteq> None"
      then obtain t where t: "mismatch actual (k, v) = Some t" by blast
      then have "hd (split_on CHR '':'' t) = k" using mismatch_key kv False by (force simp: list_ex_iff)
      moreover have "t \<in> set (List.map_filter (mismatch actual) (expected_settings r))"
        using t kv by (auto simp: set_map_filter)
      ultimately show "k \<in> set (map (\<lambda>m. hd (split_on CHR '':'' m)) (List.map_filter (mismatch actual) (expected_settings r)))"
        by force
    qed
    then have "filter (\<lambda>(key, _). key \<in> set (map (\<lambda>m. hd (split_on CHR '':'' m)) (List.map_filter (mismatch actual) (expected_settings r)))) (expected_settings r)
        = filter (\<lambda>kv. mismatch actual kv \<noteq> None) (expected_settings r)"
      by (intro filter_cong) auto
    then show ?thesis by (simp add: describeDeviceModeChange_def verifyDeviceMode_def Let_def)
  qed simp
qed

section \<open>Applying a request\<close>

text \<open>What the guest reported when the caller was told that the mode is active.\<close>

definition reported :: "apply_env \<Rightarrow> (string \<times> string) list result set" where
  "reported env = {ae_before env, ae_after env} \<union> (\<lambda>k. at_read (ae_attempt env k)) ` {..<DEVICE_MODE_ATTEMPTS}"

definition refused_status :: "attempt_env \<Rightarrow> bool" where
  "refused_status a = (case at_outcome a of UpdateAnswered s \<Rightarrow> s < 200 \<or> 300 \<le> s | _ \<Rightarrow> False)"

lemma after_answer_True: "after_answer r a = Inr True \<Longrightarrow> \<exists>m. at_read a = Inr m \<and> dv_ok (verifyDeviceMode r m)"
  by (auto simp: after_answer_def bind_result_Inr_iff)

definition update_spec :: "(nat \<Rightarrow> attempt_env) \<Rightarrow> resolved_device_mode \<Rightarrow> nat \<Rightarrow> nat \<Rightarrow> update_end result \<times> nat \<Rightarrow> bool" where
  "update_spec env r n k out \<longleftrightarrow>
     (case out of (res, j) \<Rightarrow>
        k \<le> j \<and> j \<le> k + n
        \<and> (res = Inr Activated \<longrightarrow> k < j \<and> (\<exists>m. at_read (env (j - 1)) = Inr m \<and> dv_ok (verifyDeviceMode r m)))
        \<and> (res = Inr NeedsPowerCycle \<longrightarrow> k < j \<and> at_outcome (env (j - 1)) = UpdatePending)
        \<and> (\<forall>i\<in>{k..<j}. refused_status (env i) \<longrightarrow> j \<le> Suc i \<and> throws res PROCESS_FAILED))"

lemma update_spec_last:
  assumes "res = Inr Activated \<Longrightarrow> \<exists>m. at_read (env k) = Inr m \<and> dv_ok (verifyDeviceMode r m)"
    and "res = Inr NeedsPowerCycle \<Longrightarrow> at_outcome (env k) = UpdatePending"
    and "refused_status (env k) \<Longrightarrow> throws res PROCESS_FAILED"
  shows "update_spec env r (Suc n) k (res, Suc k)"
  using assms by (simp add: update_spec_def)

lemma update_spec_more:
  assumes "update_spec env r n (Suc k) out" and "\<not> refused_status (env k)"
  shows "update_spec env r (Suc n) k out"
proof -
  obtain res j where out: "out = (res, j)" by (cases out)
  have j: "Suc k \<le> j" using assms(1) unfolding out update_spec_def prod.case by blast
  then have range: "{k..<j} = insert k {Suc k..<j}" by auto
  show ?thesis using assms j unfolding update_spec_def out prod.case range by auto
qed

lemma update_attempts_spec: "update_spec env r n k (update_attempts env r n k)"
proof (induction n arbitrary: k)
  case (Suc n)
  show ?case
  proof (cases "at_outcome (env k)")
    case (UpdateAnswered s)
    show ?thesis
    proof (cases "s < 200 \<or> 300 \<le> s")
      case True
      then show ?thesis using UpdateAnswered by (auto intro!: update_spec_last)
    next
      case False
      then have ok: "\<not> refused_status (env k)"
        using UpdateAnswered by (simp_all add: refused_status_def)
      show ?thesis
      proof (cases "after_answer r (env k)")
        case (Inl e)
        then show ?thesis using UpdateAnswered False ok by (auto intro!: update_spec_last)
      next
        case (Inr b)
        show ?thesis
        proof (cases b)
          case True
          then show ?thesis
            using UpdateAnswered False ok Inr after_answer_True [of r "env k"] by (auto intro!: update_spec_last)
        next
          case b: False
          have "update_attempts env r (Suc n) k = update_attempts env r n (Suc k)"
            using UpdateAnswered False Inr b by simp
          then show ?thesis using update_spec_more [OF Suc.IH ok] by simp
        qed
      qed
    qed
  qed (auto intro!: update_spec_last simp: refused_status_def)
qed (simp add: update_spec_def)

text \<open>C40: applying a device-mode sends at most five update requests, none when the guest
  already has every setting; a request RouterOS refuses is the last one and is reported as a
  failure; the machine loses power only after a request that RouterOS left pending; and the
  caller is told of success only when a report of the guest's was judged to carry every setting.\<close>

theorem applyDeviceMode_result:
  "ar_requests (applyDeviceMode env r) \<le> DEVICE_MODE_ATTEMPTS
   \<and> (if is_ok (ar_result (applyDeviceMode env r)) then \<exists>m. Inr m \<in> reported env \<and> dv_ok (verifyDeviceMode r m) else True)
   \<and> (if ar_powerCycled (applyDeviceMode env r)
      then \<exists>k. ar_requests (applyDeviceMode env r) = Suc k \<and> at_outcome (ae_attempt env k) = UpdatePending else True)
   \<and> list_all (\<lambda>k. if refused_status (ae_attempt env k)
        then Suc k = ar_requests (applyDeviceMode env r) \<and> throws (ar_result (applyDeviceMode env r)) PROCESS_FAILED else True)
      [0..<ar_requests (applyDeviceMode env r)]
   \<and> (if \<exists>m. ae_before env = Inr m \<and> dv_ok (verifyDeviceMode r m) then ar_requests (applyDeviceMode env r) = 0 else True)"
proof -
  obtain res j where u: "update_attempts (ae_attempt env) r DEVICE_MODE_ATTEMPTS 0 = (res, j)" by fastforce
  note spec = update_attempts_spec [of "ae_attempt env" r DEVICE_MODE_ATTEMPTS 0, unfolded u update_spec_def prod.case]
  let ?a = "applyDeviceMode env r"
  show ?thesis
  proof (cases "ae_waitApi env")
    case (Inl e)
    then show ?thesis by (simp add: applyDeviceMode_def)
  next
    case (Inr w)
    show ?thesis
    proof (cases "\<exists>m. ae_before env = Inr m \<and> dv_ok (verifyDeviceMode r m)")
      case True
      then obtain m where m: "ae_before env = Inr m" "dv_ok (verifyDeviceMode r m)" by blast
      then have "?a = \<lparr>ar_result = Inr (), ar_requests = 0, ar_powerCycled = False\<rparr>" using Inr by (simp add: applyDeviceMode_def)
      then show ?thesis using m by (auto simp: reported_def intro!: exI [of _ m])
    next
      case before: False
      then have n: "\<not> (case ae_before env of Inr before \<Rightarrow> dv_ok (verifyDeviceMode r before) | Inl _ \<Rightarrow> False)"
        by (auto split: sum.splits)
      have a: "?a = (case res of
          Inl e \<Rightarrow> \<lparr>ar_result = Inl e, ar_requests = j, ar_powerCycled = False\<rparr>
        | Inr Activated \<Rightarrow> \<lparr>ar_result = Inr (), ar_requests = j, ar_powerCycled = False\<rparr>
        | Inr NeedsPowerCycle \<Rightarrow>
            \<lparr>ar_result = bind_result (power_cycle env) (\<lambda>_. final_check env r), ar_requests = j, ar_powerCycled = True\<rparr>)"
        using Inr n by (simp add: applyDeviceMode_def u split: sum.split update_end.split)
      have requests: "ar_requests ?a = j" by (simp add: a split: sum.split update_end.split)
      have refused: "throws (ar_result ?a) PROCESS_FAILED" if "throws res PROCESS_FAILED"
        using that by (cases res) (simp_all add: a throws_def)
      consider e where "res = Inl e" | "res = Inr Activated" | "res = Inr NeedsPowerCycle"
        by (cases res) (auto intro: update_end.exhaust)
      then have "(if is_ok (ar_result ?a) then \<exists>m. Inr m \<in> reported env \<and> dv_ok (verifyDeviceMode r m) else True)
          \<and> (if ar_powerCycled ?a then \<exists>k. j = Suc k \<and> at_outcome (ae_attempt env k) = UpdatePending else True)"
      proof cases
        case 1
        then show ?thesis by (simp add: a)
      next
        case 2
        then obtain m where "0 < j" "at_read (ae_attempt env (j - 1)) = Inr m" "dv_ok (verifyDeviceMode r m)" using spec by auto
        moreover have "j - 1 < DEVICE_MODE_ATTEMPTS" using spec \<open>0 < j\<close> by auto
        ultimately have "Inr m \<in> reported env" unfolding reported_def by (metis UnI2 image_eqI lessThan_iff)
        then show ?thesis using 2 \<open>dv_ok (verifyDeviceMode r m)\<close> by (auto simp: a)
      next
        case 3
        then have "\<exists>k. j = Suc k \<and> at_outcome (ae_attempt env k) = UpdatePending" using spec by (intro exI [of _ "j - 1"]) auto
        moreover have "\<exists>m. Inr m \<in> reported env \<and> dv_ok (verifyDeviceMode r m)"
          if good: "is_ok (bind_result (power_cycle env) (\<lambda>_. final_check env r))"
        proof -
          obtain m where "ae_after env = Inr m" "dv_ok (verifyDeviceMode r m)"
            using good unfolding is_ok_iff bind_result_Inr_iff final_check_def by (auto split: if_splits)
          then show ?thesis by (auto simp: reported_def intro!: exI [of _ m])
        qed
        ultimately show ?thesis using 3 by (simp add: a)
      qed
      then show ?thesis using spec before refused unfolding requests by (auto simp: list_all_iff)
    qed
  qed
qed

end
