(* ===== verification/Provisioning_Window.thy ===== *)
theory Provisioning_Window
  imports Device_Mode "HOL-Library.Sublist"
begin

text \<open>
  \<open>src/lib/provisioning-window.ts\<close>: when provisioning may run against a guest, and what becomes of an
  option that arrives later. The secret store is an argument: the credentials stored for a machine,
  or the error reading them throws.
\<close>

section \<open>Requests\<close>

datatype license_input = LicenseName string | LicenseOptions "string option"

record provisioning_request =
  rq_installAllPackages :: "bool option"
  rq_packages :: "string list option"
  rq_deviceMode :: "device_mode_options option"
  rq_user :: "(string \<times> string) option"
  rq_disableAdmin :: "bool option"
  rq_license :: "license_input option"
  rq_secureLogin :: "bool option"

type_synonym secret_store = "string \<Rightarrow> (string \<times> string) option result"

definition truthy_license :: "license_input option \<Rightarrow> bool" where
  "truthy_license l = (case l of None \<Rightarrow> False | Some (LicenseName n) \<Rightarrow> n \<noteq> [] | Some (LicenseOptions _) \<Rightarrow> True)"

definition isProvisioningWindowOpen :: "machine_state \<Rightarrow> bool" where
  "isProvisioningWindowOpen s \<longleftrightarrow> mo_provisioning s = None \<and> \<not> given_text (mo_lastStartedAt s)"

record provisioning_ask =
  ak_step :: provisioning_step
  ak_description :: string
  ak_satisfied :: bool

definition deviceModeSelection :: "device_mode_options option \<Rightarrow> (string \<times> string) list" where
  "deviceModeSelection options =
     (let r = resolveDeviceModeOptions options in
      if \<not> shouldApplyDeviceMode r then []
      else fold (\<lambda>(f, v). al_put f (yes_no v)) (rd_features r)
             (if given_text (rd_mode r) then [(''mode'', the (rd_mode r))] else []))"

definition deviceModeSatisfiedBy :: "(string \<times> string) list \<Rightarrow> (string \<times> string) list \<Rightarrow> bool" where
  "deviceModeSatisfiedBy applied requested \<longleftrightarrow>
     requested \<noteq> [] \<and> list_all (\<lambda>(setting, v). al_get applied setting = Some v) requested"

definition licenseLevelOf :: "license_input \<Rightarrow> string" where
  "licenseLevelOf l = (case l of LicenseName n \<Rightarrow> n | LicenseOptions (Some v) \<Rightarrow> v | LicenseOptions None \<Rightarrow> ''p1'')"

definition userCredentialMatches :: "secret_store \<Rightarrow> machine_state \<Rightarrow> string \<times> string \<Rightarrow> bool" where
  "userCredentialMatches creds s user =
     (if map_option fst (mo_user s) \<noteq> Some (fst user) then False
      else case creds (ms_name s) of
        Inl _ \<Rightarrow> False
      | Inr stored \<Rightarrow> stored = Some user)"

definition applied_steps :: "machine_state \<Rightarrow> provisioning_step list" where
  "applied_steps s = (case mo_provisioning s of None \<Rightarrow> [] | Some p \<Rightarrow> pr_steps p)"

definition ask_if :: "bool \<Rightarrow> provisioning_step \<Rightarrow> string \<Rightarrow> bool \<Rightarrow> provisioning_ask list" where
  "ask_if asked step description satisfied =
     (if asked then [\<lparr>ak_step = step, ak_description = description, ak_satisfied = satisfied\<rparr>] else [])"

section \<open>Classification\<close>

definition classifyProvisioningRequest ::
    "secret_store \<Rightarrow> machine_state \<Rightarrow> provisioning_request \<Rightarrow> provisioning_ask list" where
  "classifyProvisioningRequest creds s rq =
     (let ran = (\<lambda>step. step \<in> set (applied_steps s));
          mode = deviceModeSelection (rq_deviceMode rq) in
      (if rq_installAllPackages rq = Some True
       then ask_if True StPackages ''--install-all-packages'' (ran StPackages \<and> mo_installAllPackages s = Some True)
       else ask_if (\<not> no_items (rq_packages rq)) StPackages (''packages '' @ join '', '' (the (rq_packages rq)))
              (ran StPackages \<and> set (the (rq_packages rq)) \<subseteq> set (ms_packages s)))
      @ ask_if (mode \<noteq> []) StDeviceMode
          (''device-mode ('' @ formatDeviceModeSelection (resolveDeviceModeOptions (rq_deviceMode rq)) @ '')'')
          (ran StDeviceMode \<and> deviceModeSatisfiedBy (deviceModeSelection (mo_deviceMode s)) mode)
      @ ask_if (truthy_license (rq_license rq)) StLicense (''license ('' @ licenseLevelOf (the (rq_license rq)) @ '')'')
          (ran StLicense \<and> mo_licenseLevel s = Some (licenseLevelOf (the (rq_license rq))))
      @ ask_if (rq_user rq \<noteq> None) StUser (''user '' @ [CHR 0x22] @ fst (the (rq_user rq)) @ [CHR 0x22])
          (ran StUser \<and> userCredentialMatches creds s (the (rq_user rq)))
      @ ask_if (rq_disableAdmin rq = Some True) StDisableAdmin ''--disable-admin''
          (ran StDisableAdmin \<and> mo_disableAdmin s = Some True)
      @ ask_if (rq_secureLogin rq = Some True) StSecureLogin ''managed login (--secure-login)''
          (ran StSecureLogin \<and> mo_secureLogin s = Some True))"

definition appliedDeviceModeRecord :: "machine_state \<Rightarrow> resolved_device_mode \<Rightarrow> device_mode_options" where
  "appliedDeviceModeRecord s applied =
     mergeDeviceModeOptions (if StDeviceMode \<in> set (applied_steps s) then mo_deviceMode s else None) applied"

definition or_else :: "'a option \<Rightarrow> 'a option \<Rightarrow> 'a option" where
  "or_else a b = (case a of Some x \<Rightarrow> Some x | None \<Rightarrow> b)"

definition pendingProvisioningFor :: "machine_state \<Rightarrow> provisioning_request \<Rightarrow> provisioning_request" where
  "pendingProvisioningFor existing rq =
     \<lparr>rq_installAllPackages = or_else (rq_installAllPackages rq) (mo_installAllPackages existing),
      rq_packages = (if \<not> no_items (rq_packages rq) then rq_packages rq
                     else if ms_packages existing \<noteq> [] then Some (ms_packages existing) else None),
      rq_deviceMode = or_else (rq_deviceMode rq) (mo_deviceMode existing),
      rq_user = or_else (rq_user rq) (mo_user existing),
      rq_disableAdmin = or_else (rq_disableAdmin rq) (mo_disableAdmin existing),
      rq_license = rq_license rq,
      rq_secureLogin = or_else (rq_secureLogin rq) (mo_secureLogin existing)\<rparr>"

definition hasProvisioningRequest :: "provisioning_request \<Rightarrow> bool" where
  "hasProvisioningRequest rq \<longleftrightarrow>
     rq_installAllPackages rq = Some True
     \<or> \<not> no_items (rq_packages rq)
     \<or> shouldApplyDeviceMode (resolveDeviceModeOptions (rq_deviceMode rq))
     \<or> truthy_license (rq_license rq)
     \<or> rq_user rq \<noteq> None
     \<or> rq_disableAdmin rq = Some True
     \<or> rq_secureLogin rq = Some True"

section \<open>The refusal\<close>

definition postBootRoute :: "provisioning_ask \<Rightarrow> provisioning_request \<Rightarrow> string \<Rightarrow> string" where
  "postBootRoute ask rq name =
     (let quoted = shellQuote name;
          replay = ''quickchr clean '' @ quoted @ ''   # resets the disk, then repeat the original start command'' in
      case ak_step ask of
        StLicense \<Rightarrow> ''quickchr set '' @ quoted @ '' --license''
      | StDeviceMode \<Rightarrow> ''quickchr set '' @ quoted @ '' '' @ formatDeviceModeFlags (resolveDeviceModeOptions (rq_deviceMode rq))
          @ ''   # power-cycles the machine''
      | StPackages \<Rightarrow> if rq_installAllPackages rq = Some True then replay
          else ''quickchr set '' @ quoted @ '' --package ''
            @ join '','' (map shellQuote (case rq_packages rq of Some ps \<Rightarrow> ps | None \<Rightarrow> []))
            @ ''   # reboots the machine to activate them''
      | _ \<Rightarrow> replay)"

definition ask_lines :: "provisioning_request \<Rightarrow> string \<Rightarrow> provisioning_ask \<Rightarrow> string list" where
  "ask_lines rq name ask =
     [''  '' @ ak_description ask @ '' - apply it with:'', ''      '' @ postBootRoute ask rq name]"

definition refusal_text :: "provisioning_request \<Rightarrow> string \<Rightarrow> provisioning_ask list \<Rightarrow> string" where
  "refusal_text rq name asks =
     (let pending = filter (\<lambda>a. \<not> ak_satisfied a) asks;
          satisfied = filter ak_satisfied asks;
          lines = concat (map (ask_lines rq name) pending)
            @ (if satisfied \<noteq> [] then [''  (already applied, unchanged: '' @ join ''; '' (map ak_description satisfied) @ '')''] else []) in
      ''Machine '' @ [CHR 0x22] @ name @ [CHR 0x22] @ '' has already booted'' @ [newline]
        @ join [newline] lines
        @ [newline] @ ''To provision from scratch, reset the disk:'' @ [newline] @ ''      quickchr clean '' @ shellQuote name)"

definition assertProvisioningWindow ::
    "secret_store \<Rightarrow> machine_state \<Rightarrow> provisioning_request \<Rightarrow> provisioning_ask list result" where
  "assertProvisioningWindow creds s rq =
     (if isProvisioningWindowOpen s then Inr []
      else
        (let asks = classifyProvisioningRequest creds s rq in
         if list_all ak_satisfied asks then Inr asks
         else Inl (QuickCHRError PROVISIONING_WINDOW_CLOSED (refusal_text rq (ms_name s) asks))))"

section \<open>Settings of a selection\<close>

lemma fold_put_get:
  "distinct (map fst fs) \<Longrightarrow>
   al_get (fold (\<lambda>(f, v). al_put f (g v)) fs b) s = (case al_get fs s of Some v \<Rightarrow> Some (g v) | None \<Rightarrow> al_get b s)"
proof (induction fs arbitrary: b)
  case (Cons fv fs)
  obtain f v where fv: "fv = (f, v)" by (cases fv)
  have "al_get fs f = None" using Cons.prems by (simp add: fv al_get_None)
  moreover have "al_get (fv # fs) s = (if s = f then Some v else al_get fs s)" by (simp add: fv al_get_def)
  ultimately show ?case using Cons by (simp add: fv al.get_put_iff split: option.split)
qed simp

lemma selection_get:
  "al_get (deviceModeSelection dm) k =
     (if shouldApplyDeviceMode (resolveDeviceModeOptions dm) then
        (case al_get (rd_features (resolveDeviceModeOptions dm)) k of
           Some v \<Rightarrow> Some (yes_no v)
         | None \<Rightarrow> if k = ''mode'' \<and> given_text (rd_mode (resolveDeviceModeOptions dm)) then rd_mode (resolveDeviceModeOptions dm) else None)
      else None)"
  by (simp add: deviceModeSelection_def Let_def fold_put_get resolved_distinct split: option.split)
    (auto simp: al_get_def given_text_def)

lemma selection_distinct: "distinct (map fst (deviceModeSelection dm))"
proof -
  have "distinct (map fst (fold (\<lambda>(f, v). al_put f (yes_no v)) fs b))" if "distinct (map fst b)"
    for fs :: "(string \<times> bool) list" and b
    using that by (induction fs arbitrary: b) (simp_all add: split_beta al_distinct_put)
  then show ?thesis by (simp add: deviceModeSelection_def Let_def)
qed

lemma selection_asked: "deviceModeSelection dm \<noteq> [] \<longleftrightarrow> shouldApplyDeviceMode (resolveDeviceModeOptions dm)"
proof
  assume a: "shouldApplyDeviceMode (resolveDeviceModeOptions dm)"
  show "deviceModeSelection dm \<noteq> []"
  proof (cases "rd_features (resolveDeviceModeOptions dm)")
    case Nil
    then have "al_get (deviceModeSelection dm) ''mode'' \<noteq> None"
      using a by (auto simp: selection_get shouldApplyDeviceMode_def given_text_def)
    then show ?thesis by auto
  next
    case (Cons fv fs)
    then have "al_get (rd_features (resolveDeviceModeOptions dm)) (fst fv) \<noteq> None" by (simp add: al_get_None)
    then have "al_get (deviceModeSelection dm) (fst fv) \<noteq> None" using a by (auto simp: selection_get)
    then show ?thesis by auto
  qed
next
  assume "deviceModeSelection dm \<noteq> []"
  then show "shouldApplyDeviceMode (resolveDeviceModeOptions dm)"
    by (cases "shouldApplyDeviceMode (resolveDeviceModeOptions dm)") (simp_all add: deviceModeSelection_def)
qed

lemma satisfied_iff:
  "deviceModeSatisfiedBy applied (deviceModeSelection dm) \<longleftrightarrow>
     deviceModeSelection dm \<noteq> [] \<and> (\<forall>k v. al_get (deviceModeSelection dm) k = Some v \<longrightarrow> al_get applied k = Some v)"
proof -
  have "(k, v) \<in> set (deviceModeSelection dm) \<longleftrightarrow> al_get (deviceModeSelection dm) k = Some v" for k v
    using al_in_get [OF selection_distinct] al_get_in by metis
  then have "(\<forall>x\<in>set (deviceModeSelection dm). case x of (k, v) \<Rightarrow> al_get applied k = Some v)
      \<longleftrightarrow> (\<forall>k v. al_get (deviceModeSelection dm) k = Some v \<longrightarrow> al_get applied k = Some v)"
    by (metis (mono_tags, lifting) case_prodI2 prod.case)
  then show ?thesis by (simp add: deviceModeSatisfiedBy_def list_all_iff)
qed

section \<open>The record of an applied device-mode\<close>

definition carried_record :: "machine_state \<Rightarrow> device_mode_options option" where
  "carried_record s = (if StDeviceMode \<in> set (applied_steps s) then mo_deviceMode s else None)"

lemma record_selection:
  assumes app: "shouldApplyDeviceMode (resolveDeviceModeOptions (Some req))"
    and mode: "given_text (rd_mode (resolveDeviceModeOptions (Some req)))"
    and cur: "cur = None \<or> \<not> rd_skip (resolveDeviceModeOptions cur)"
    and plain: "al_get (rd_features (resolveDeviceModeOptions cur)) ''mode'' = None"
  shows "al_get (deviceModeSelection (Some (mergeDeviceModeOptions cur (resolveDeviceModeOptions (Some req))))) k
    = (case al_get (deviceModeSelection (Some req)) k of Some v \<Rightarrow> Some v | None \<Rightarrow> al_get (deviceModeSelection cur) k)"
proof -
  let ?r = "resolveDeviceModeOptions (Some req)"
  let ?m = "resolveDeviceModeOptions (Some (mergeDeviceModeOptions cur ?r))"
  have skip: "\<not> rd_skip ?r" using app by (simp add: shouldApplyDeviceMode_def)
  note m = merged_resolves [OF skip, of cur]
  have am: "shouldApplyDeviceMode ?m" using m(1,2) mode by (simp add: shouldApplyDeviceMode_def)
  have old: "(if f \<in> set (normalizeFeatureList (Option.bind cur dm_disable)) then Some False
        else if f \<in> set (normalizeFeatureList (Option.bind cur dm_enable)) then Some True else None)
      = al_get (rd_features (resolveDeviceModeOptions cur)) f" for f
  proof (cases cur)
    case None
    then show ?thesis by (simp add: resolveDeviceModeOptions_def normalizeFeatureList_def)
  next
    case (Some c)
    then show ?thesis using cur resolved_feature [of c f] by simp
  qed
  have f: "al_get (rd_features ?m) f = (case al_get (rd_features ?r) f of Some v \<Rightarrow> Some v
      | None \<Rightarrow> al_get (rd_features (resolveDeviceModeOptions cur)) f)" for f
    using m(3) [of f] unfolding old .
  have none: "al_get (rd_features (resolveDeviceModeOptions cur)) f = None" if "\<not> shouldApplyDeviceMode (resolveDeviceModeOptions cur)" for f
  proof (cases cur)
    case None
    then show ?thesis by (simp add: resolveDeviceModeOptions_def)
  next
    case (Some c)
    then show ?thesis using that cur by (auto simp: shouldApplyDeviceMode_def)
  qed
  show ?thesis
    using am app mode m(2) plain none by (auto simp: selection_get f given_text_def split: option.splits)
qed

text \<open>after a device-mode request was applied, the record reads as the request's
  settings over those applied before, and nothing that was only planned; so asking for the same
  thing again is seen as already done, whatever else has been applied in between to the same record.\<close>

theorem device_mode_record:
  assumes "shouldApplyDeviceMode (resolveDeviceModeOptions (Some req))"
    and "given_text (rd_mode (resolveDeviceModeOptions (Some req)))"
    and "carried_record s = None \<or> \<not> rd_skip (resolveDeviceModeOptions (carried_record s))"
    and "al_get (rd_features (resolveDeviceModeOptions (carried_record s))) ''mode'' = None"
  shows "al_get (deviceModeSelection (Some (appliedDeviceModeRecord s (resolveDeviceModeOptions (Some req))))) k
      = (case al_get (deviceModeSelection (Some req)) k of Some v \<Rightarrow> Some v | None \<Rightarrow> al_get (deviceModeSelection (carried_record s)) k)
    \<and> deviceModeSatisfiedBy (deviceModeSelection (Some (appliedDeviceModeRecord s (resolveDeviceModeOptions (Some req)))))
        (deviceModeSelection (Some req))"
  using record_selection [OF assms] assms(1) selection_asked [of "Some req"]
  by (simp add: appliedDeviceModeRecord_def carried_record_def [symmetric] satisfied_iff)

definition demo_request :: device_mode_options where
  "demo_request = \<lparr>dm_mode = None, dm_enable = Some [''Container''], dm_disable = None\<rparr>"

definition demo_provisioned :: machine_state where
  "demo_provisioned = demo_state\<lparr>mo_deviceMode := Some \<lparr>dm_mode = Some ''rose'', dm_enable = Some [''smb''], dm_disable = None\<rparr>,
     mo_provisioning := Some \<lparr>pr_at = ''2026-01-02'', pr_steps = [StDeviceMode]\<rparr>\<rparr>"

theorem device_mode_record_witness:
  "al_get (deviceModeSelection (Some (appliedDeviceModeRecord demo_provisioned (resolveDeviceModeOptions (Some demo_request))))) ''smb''
      = (case al_get (deviceModeSelection (Some demo_request)) ''smb'' of Some v \<Rightarrow> Some v
         | None \<Rightarrow> al_get (deviceModeSelection (carried_record demo_provisioned)) ''smb'')
    \<and> deviceModeSatisfiedBy (deviceModeSelection (Some (appliedDeviceModeRecord demo_provisioned (resolveDeviceModeOptions (Some demo_request)))))
        (deviceModeSelection (Some demo_request))"
proof (rule device_mode_record)
  show "shouldApplyDeviceMode (resolveDeviceModeOptions (Some demo_request))"
    "given_text (rd_mode (resolveDeviceModeOptions (Some demo_request)))"
    by code_simp+
  show "carried_record demo_provisioned = None \<or> \<not> rd_skip (resolveDeviceModeOptions (carried_record demo_provisioned))"
    by (rule disjI2) code_simp
  show "al_get (rd_features (resolveDeviceModeOptions (carried_record demo_provisioned))) ''mode'' = None"
    by code_simp
qed

section \<open>Nothing is dropped\<close>

lemma sublist_trans: "sublist xs ys \<Longrightarrow> sublist ys zs \<Longrightarrow> sublist xs zs"
  unfolding sublist_def by (metis append.assoc)

lemma sublist_left: "sublist xs ys \<Longrightarrow> sublist xs (zs @ ys)"
  and sublist_right: "sublist xs ys \<Longrightarrow> sublist xs (ys @ zs)"
  by (rule sublist_trans, assumption, blast)+

lemma join_sublist: "l \<in> set ls \<Longrightarrow> sublist l (join sep ls)"
  by (induction sep ls rule: join.induct) (auto intro: sublist_left sublist_right)

lemma classify_empty: "classifyProvisioningRequest creds s rq = [] \<longleftrightarrow> \<not> hasProvisioningRequest rq"
  by (auto simp: classifyProvisioningRequest_def Let_def ask_if_def hasProvisioningRequest_def selection_asked)

lemma classify_evidence: "a \<in> set (classifyProvisioningRequest creds s rq) \<Longrightarrow> ak_satisfied a \<Longrightarrow> ak_step a \<in> set (applied_steps s)"
  by (auto simp: classifyProvisioningRequest_def Let_def ask_if_def split: if_splits)

lemma refusal_names:
  assumes "a \<in> set asks" and "\<not> ak_satisfied a"
  shows "sublist (ak_description a) (refusal_text rq name asks) \<and> sublist (postBootRoute a rq name) (refusal_text rq name asks)"
proof -
  let ?lines = "concat (map (ask_lines rq name) (filter (\<lambda>a. \<not> ak_satisfied a) asks))"
  have l: "sublist l (refusal_text rq name asks)" if "l \<in> set ?lines" for l
    unfolding refusal_text_def Let_def
    by (intro sublist_left sublist_right join_sublist) (use that in simp)
  have "sublist (ak_description a) (''  '' @ ak_description a @ '' - apply it with:'')"
    "sublist (postBootRoute a rq name) (''      '' @ postBootRoute a rq name)"
    by (rule sublist_left, rule sublist_right, simp, rule sublist_left, simp)
  moreover have "''  '' @ ak_description a @ '' - apply it with:'' \<in> set ?lines" "''      '' @ postBootRoute a rq name \<in> set ?lines"
    using assms by (force simp: ask_lines_def)+
  ultimately show ?thesis using l sublist_trans by blast
qed


end
