(* ===== verification/Lifecycle.thy ===== *)
theory Lifecycle
  imports Network_Resolve Provisioning_Window Disk
begin

text \<open>
  The lifecycle of one machine (\<open>src/lib/quickchr.ts\<close>, \<open>stopQemu\<close> of \<open>qemu.ts\<close>, \<open>shutdown.ts\<close>): stop,
  shut down, continue, clean, remove, the cleanup after a failed boot or a failed provisioning, and
  what is recorded of the guest. A \<open>session\<close> is what such an operation works on: the handle's copy
  of the state, the machine directories, the registry of links as this process sees it, the stored
  credentials, the files in the machines' directories and what \<open>process.kill(pid, 0)\<close> answers.
\<close>

section \<open>Sessions and actions\<close>

record guest_dir =
  gd_disks :: disk_dir
  gd_ssh :: bool

record session =
  ss_handle :: machine_state
  ss_data :: datadir
  ss_reg :: registry
  ss_creds :: "(string \<times> string \<times> string) list"
  ss_guests :: "(string \<times> guest_dir) list"
  ss_kill :: "nat \<Rightarrow> kill_result"

text \<open>What becomes of a process that is sent \<open>SIGTERM\<close>: the signal itself throws (the process has just
  exited, or is another user's), it exits before the given probe, or it outlives the fifty probes
  and \<open>SIGKILL\<close> follows, after which a probe gives the answer named.\<close>

datatype stop_answer = TermThrows | ExitsBefore nat | Lingers kill_result

record life_env =
  le_host :: host_env
  le_hostIsArm64 :: bool
  le_cached :: "string \<Rightarrow> disk_image option"
  le_tools :: disk_tools
  le_unlinkFails :: "string \<Rightarrow> bool"
  le_rmFails :: "string \<Rightarrow> bool"
  le_renameFails :: "nat \<Rightarrow> bool"
  le_self :: nat
  le_uuid :: string
  le_now :: string
  le_stop :: "nat \<Rightarrow> stop_answer"
  le_lock :: "nat \<Rightarrow> qerror option"
  le_preserve :: bool

type_synonym 'a act = "session \<Rightarrow> (thrown + 'a) \<times> session"

definition ret :: "'a \<Rightarrow> 'a act" where
  "ret x s = (Inr x, s)"

definition throw :: "thrown \<Rightarrow> 'a act" where
  "throw e s = (Inl e, s)"

definition bind_act :: "'a act \<Rightarrow> ('a \<Rightarrow> 'b act) \<Rightarrow> 'b act" where
  "bind_act f g s = (case f s of (Inl e, s') \<Rightarrow> (Inl e, s') | (Inr x, s') \<Rightarrow> g x s')"

definition then_do :: "unit act \<Rightarrow> 'b act \<Rightarrow> 'b act" where
  "then_do f g = bind_act f (\<lambda>_. g)"

definition lift_result :: "'a result \<Rightarrow> 'a act" where
  "lift_result r s = (case r of Inl e \<Rightarrow> Inl (Coded e) | Inr x \<Rightarrow> Inr x, s)"

definition map_handle :: "(machine_state \<Rightarrow> machine_state) \<Rightarrow> unit act" where
  "map_handle f s = (Inr (), s\<lparr>ss_handle := f (ss_handle s)\<rparr>)"

definition save_state :: "machine_state \<Rightarrow> unit act" where
  "save_state m s = (case saveMachine m (ss_data s) of
     None \<Rightarrow> (Inl (Native ''writeFileSync''), s)
   | Some d \<Rightarrow> (Inr (), s\<lparr>ss_data := d\<rparr>))"

definition own_name :: "session \<Rightarrow> string" where
  "own_name s = ms_name (ss_handle s)"

text \<open>\<open>const current = loadMachine(state.name); if (current) \<dots> saveMachine(current)\<close>.\<close>

definition update_saved :: "(machine_state \<Rightarrow> machine_state) \<Rightarrow> unit act" where
  "update_saved f s =
     (case loadMachine (ss_data s) (own_name s) of
        Inl e \<Rightarrow> (Inl (Coded e), s)
      | Inr None \<Rightarrow> (Inr (), s)
      | Inr (Some current) \<Rightarrow> save_state (f current) s)"

text \<open>The same change to the file and to the handle.\<close>

definition dual_write :: "(machine_state \<Rightarrow> machine_state) \<Rightarrow> unit act" where
  "dual_write f = then_do (update_saved f) (map_handle f)"

section \<open>Defaults\<close>

definition isCrossArchEmulation :: "life_env \<Rightarrow> arch \<Rightarrow> bool" where
  "isCrossArchEmulation env a \<longleftrightarrow> (a = ARM64) \<noteq> le_hostIsArm64 env"

definition accelTimeoutFactor :: "string \<Rightarrow> bool \<Rightarrow> rat" where
  "accelTimeoutFactor accel crossArch =
     (if accel = ''kvm'' \<or> accel = ''hvf'' then 3 / 2 else if crossArch then 15 else 4)"

definition defaultMem :: "life_env \<Rightarrow> arch \<Rightarrow> nat option \<Rightarrow> nat" where
  "defaultMem env a override =
     (case override of Some m \<Rightarrow> m | None \<Rightarrow> if isCrossArchEmulation env a then 1024 else 512)"

definition defaultBootTimeout :: "life_env \<Rightarrow> arch \<Rightarrow> bool \<Rightarrow> string option \<Rightarrow> nat" where
  "defaultBootTimeout env a withPackages accel =
     (let factor = accelTimeoutFactor (case accel of Some x \<Rightarrow> x | None \<Rightarrow> ''tcg'') (isCrossArchEmulation env a);
          base = nat \<lceil>120000 * factor\<rceil> in
      if withPackages then base * 2 else base)"

definition lifecycleLockWaitMs :: "life_env \<Rightarrow> machine_state \<Rightarrow> nat" where
  "lifecycleLockWaitMs env m =
     defaultBootTimeout env (ms_arch m) (mo_installAllPackages m = Some True \<or> ms_packages m \<noteq> []) (mo_lastAccel m)"

section \<open>Named links\<close>

definition socket_name :: "network_config \<Rightarrow> string option" where
  "socket_name n = (case nc_specifier n of NamedSocket name \<Rightarrow> Some name | _ \<Rightarrow> None)"

definition getSocketNamedNetworks :: "machine_state \<Rightarrow> string list" where
  "getSocketNamedNetworks m = List.map_filter socket_name (ms_networks m)"

text \<open>The check before any I/O, over the networks a start asks for.\<close>

fun links_have_room :: "platform \<Rightarrow> string option \<Rightarrow> string list \<Rightarrow> unit rop" where
  "links_have_room plat name [] r = (Inr (), r)"
| "links_have_room plat name (l # ls) r =
     (case getNamedSocket plat l r of (entry, r') \<Rightarrow>
        (case Option.bind entry se_endpoints of
           None \<Rightarrow> links_have_room plat name ls r'
         | Some es \<Rightarrow>
             if (truthy name \<and> name \<in> set es) \<or> None \<in> set es then links_have_room plat name ls r'
             else (unavailable ''both ends of the link are held'', r')))"

definition assertNamedSocketsHaveRoom ::
    "platform \<Rightarrow> string option \<Rightarrow> network_specifier list option \<Rightarrow> network_mode option \<Rightarrow> unit rop" where
  "assertNamedSocketsHaveRoom plat name networks network =
     links_have_room plat name (List.map_filter socket_name (resolveStartNetworks networks network))"

fun register_each :: "host_env \<Rightarrow> string \<Rightarrow> string \<Rightarrow> string list \<Rightarrow> unit rop" where
  "register_each env now m [] r = (Inr (), r)"
| "register_each env now m (l # ls) r =
     (case joinNamedSocket (he_platform env) (he_registryDir env) now l m (Some True) r of
        (Inl e, r') \<Rightarrow> if err_code e = NETWORK_UNAVAILABLE then (Inl e, r') else register_each env now m ls r'
      | (Inr _, r') \<Rightarrow> register_each env now m ls r')"

definition registerSocketMembers :: "host_env \<Rightarrow> string \<Rightarrow> machine_state \<Rightarrow> unit rop" where
  "registerSocketMembers env now m = register_each env now (ms_name m) (getSocketNamedNetworks m)"

text \<open>An error of \<open>removeSocketMember\<close> is a warning.\<close>

definition leave_link :: "platform \<Rightarrow> string \<Rightarrow> string \<Rightarrow> registry \<Rightarrow> registry" where
  "leave_link plat m l r = snd (removeSocketMember plat l m r)"

definition unregisterSocketMembers :: "platform \<Rightarrow> machine_state \<Rightarrow> registry \<Rightarrow> registry" where
  "unregisterSocketMembers plat m r = fold (leave_link plat (ms_name m)) (getSocketNamedNetworks m) r"

definition registerAndResolveNetworks ::
    "host_env \<Rightarrow> string \<Rightarrow> resolution_context \<Rightarrow> string \<Rightarrow> machine_state \<Rightarrow> resolved_config list rop" where
  "registerAndResolveNetworks env now ctx hostfwd m r =
     (case registerSocketMembers env now m r of
        (Inl e, r1) \<Rightarrow> (Inl e, unregisterSocketMembers (he_platform env) m r1)
      | (Inr _, r1) \<Rightarrow>
          (case resolveAllNetworks env (ctx\<lparr>rc_machine := Some (ms_name m)\<rparr>) hostfwd (ms_networks m) r1 of
             (Inl e, r2) \<Rightarrow> (Inl e, unregisterSocketMembers (he_platform env) m r2)
           | (Inr ns, r2) \<Rightarrow> (Inr ns, r2)))"

definition leave_links :: "life_env \<Rightarrow> unit act" where
  "leave_links env s =
     (Inr (), s\<lparr>ss_reg := unregisterSocketMembers (he_platform (le_host env)) (ss_handle s) (ss_reg s)\<rparr>)"

section \<open>Processes\<close>

definition set_kill :: "nat \<Rightarrow> kill_result \<Rightarrow> session \<Rightarrow> session" where
  "set_kill pid k s = s\<lparr>ss_kill := (ss_kill s)(pid := k)\<rparr>"

definition stopQemu :: "life_env \<Rightarrow> nat \<Rightarrow> bool act" where
  "stopQemu env pid s =
     (if ss_kill s pid \<noteq> KillOk then (Inr False, s)
      else (case le_stop env pid of
              TermThrows \<Rightarrow> (Inl (Native ''kill''), s)
            | ExitsBefore n \<Rightarrow> (Inr True, set_kill pid KillGone s)
            | Lingers k \<Rightarrow> (Inr True, set_kill pid k s)))"

definition truthy_pid :: "machine_state \<Rightarrow> bool" where
  "truthy_pid m \<longleftrightarrow> mo_pid m \<noteq> None \<and> mo_pid m \<noteq> Some 0"

definition handle_running :: "session \<Rightarrow> bool" where
  "handle_running s \<longleftrightarrow> isMachineRunning (ss_kill s) (ss_handle s)"

definition stop_pid :: "life_env \<Rightarrow> unit act" where
  "stop_pid env s = bind_act (stopQemu env (the (mo_pid (ss_handle s)))) (\<lambda>_. ret ()) s"

section \<open>The machine lock\<close>

definition machine_gone :: "machine_state \<Rightarrow> thrown" where
  "machine_gone m = Coded (QuickCHRError MACHINE_NOT_FOUND ''was removed while this operation waited for it'')"

definition assertSameMachine :: "unit act" where
  "assertSameMachine s =
     (case loadMachine (ss_data s) (own_name s) of
        Inl e \<Rightarrow> (Inl (Coded e), s)
      | Inr fresh \<Rightarrow>
          if fresh = None \<or> mo_createdAt (the fresh) \<noteq> mo_createdAt (ss_handle s)
          then (Inl (machine_gone (ss_handle s)), s) else (Inr (), s))"

definition refreshMachineState :: "unit act" where
  "refreshMachineState s =
     (case loadMachine (ss_data s) (own_name s) of
        Inl e \<Rightarrow> (Inl (Coded e), s)
      | Inr None \<Rightarrow> (Inr (), s)
      | Inr (Some fresh) \<Rightarrow> (Inr (), s\<lparr>ss_handle := fresh\<rparr>))"

text \<open>The session is the one at the moment the lock has been taken: the handle may be older than
  the files.\<close>

definition withMachineLock :: "life_env \<Rightarrow> 'a act \<Rightarrow> 'a act" where
  "withMachineLock env fn s =
     (case le_lock env (lifecycleLockWaitMs env (ss_handle s)) of
        Some e \<Rightarrow> (Inl (Coded e), s)
      | None \<Rightarrow> then_do assertSameMachine (then_do refreshMachineState fn) s)"

section \<open>Stopping\<close>

definition finalizeStoppedState :: "life_env \<Rightarrow> unit act" where
  "finalizeStoppedState env = then_do (leave_links env) (dual_write mark_stopped)"

definition stopUnderLock :: "life_env \<Rightarrow> unit act" where
  "stopUnderLock env s =
     then_do (if truthy_pid (ss_handle s) then stop_pid env else ret ()) (finalizeStoppedState env) s"

text \<open>The guard of \<open>clean\<close> and \<open>remove\<close>.\<close>

definition stop_running :: "life_env \<Rightarrow> unit act" where
  "stop_running env s =
     (if truthy_pid (ss_handle s) \<and> handle_running s then stop_pid env s else (Inr (), s))"

definition deleteInstanceCredentials :: "string \<Rightarrow> unit act" where
  "deleteInstanceCredentials name s = (Inr (), s\<lparr>ss_creds := al_del name (ss_creds s)\<rparr>)"

section \<open>Removing\<close>

definition removeState :: "life_env \<Rightarrow> string \<Rightarrow> unit act" where
  "removeState env name s =
     (case removeMachine (he_platform (le_host env)) (ss_kill s) (le_self env) (le_uuid env) (le_rmFails env)
             (le_renameFails env) name (ss_data s) of
        (Inl e, d) \<Rightarrow> (Inl (Coded e), s\<lparr>ss_data := d\<rparr>)
      | (Inr _, d) \<Rightarrow>
          (Inr (), s\<lparr>ss_data := d, ss_guests := al_del (getMachineDir (ss_data s) name) (ss_guests s)\<rparr>))"

definition removeUnderLock :: "life_env \<Rightarrow> unit act" where
  "removeUnderLock env =
     then_do (stop_running env) (then_do (leave_links env)
       (\<lambda>s. then_do (deleteInstanceCredentials (own_name s)) (removeState env (own_name s)) s))"

section \<open>Resetting the guest\<close>

definition cached_image_name :: "machine_state \<Rightarrow> string" where
  "cached_image_name m = ''chr-'' @ ms_version m @ (if ms_arch m = ARM64 then ''-arm64'' else []) @ ''.img''"

definition empty_guest :: guest_dir where
  "empty_guest = \<lparr>gd_disks = [], gd_ssh = False\<rparr>"

definition guest_at :: "string \<Rightarrow> session \<Rightarrow> guest_dir" where
  "guest_at dir s = (case al_get (ss_guests s) dir of Some g \<Rightarrow> g | None \<Rightarrow> empty_guest)"

definition put_disks :: "string \<Rightarrow> disk_dir \<Rightarrow> session \<Rightarrow> session" where
  "put_disks dir d s = s\<lparr>ss_guests := al_put dir ((guest_at dir s)\<lparr>gd_disks := d\<rparr>) (ss_guests s)\<rparr>"

definition format_of :: "machine_state \<Rightarrow> boot_format" where
  "format_of m = bootDiskFormatOf (mo_bootDiskFormat m) (mo_bootSize m)"

text \<open>\<open>rmSync(path, { force: true })\<close>: a missing file is no error, another failure throws.\<close>

definition rm_disk :: "life_env \<Rightarrow> string \<Rightarrow> string \<Rightarrow> unit act" where
  "rm_disk env dir file s =
     (if le_rmFails env (dir @ ''/'' @ file) then (Inl (Native ''rmSync''), s)
      else (Inr (), put_disks dir (al_del file (gd_disks (guest_at dir s))) s))"

definition rm_ssh :: "life_env \<Rightarrow> string \<Rightarrow> unit act" where
  "rm_ssh env dir s =
     (if le_rmFails env (dir @ ''/ssh'') then (Inl (Native ''rmSync''), s)
      else (Inr (), s\<lparr>ss_guests := al_put dir ((guest_at dir s)\<lparr>gd_ssh := False\<rparr>) (ss_guests s)\<rparr>))"

definition on_disks :: "string \<Rightarrow> (disk_dir \<Rightarrow> (thrown + 'a) \<times> disk_dir) \<Rightarrow> unit act" where
  "on_disks dir f s =
     (case f (gd_disks (guest_at dir s)) of (r, d) \<Rightarrow>
        (case r of Inl e \<Rightarrow> (Inl e, put_disks dir d s) | Inr _ \<Rightarrow> (Inr (), put_disks dir d s)))"

definition resetGuestToFactory :: "life_env \<Rightarrow> machine_state \<Rightarrow> unit act" where
  "resetGuestToFactory env m =
     (case le_cached env (cached_image_name m) of
        None \<Rightarrow> throw (Coded (QuickCHRError MACHINE_NOT_FOUND ''Cached image not found''))
      | Some img \<Rightarrow>
          (let dir = ms_machineDir m; fmt = format_of m in
           then_do (on_disks dir (\<lambda>d. (Inr (), cleanDiskFiles (le_unlinkFails env) d)))
          (then_do (on_disks dir (writeBootDisk (le_tools env) img fmt (mo_bootSize m)))
          (then_do (if fmt = Qcow2 then rm_disk env dir ''disk.img'' else ret ())
          (then_do (on_disks dir (ensureConfiguredDisks (le_tools env) False (Inr None) (mo_bootSize m) (mo_extraDisks m) fmt))
          (then_do (deleteInstanceCredentials (ms_name m)) (rm_ssh env dir)))))))"

section \<open>Cleaning\<close>

definition mark_cleaned :: "string \<Rightarrow> machine_state \<Rightarrow> machine_state" where
  "mark_cleaned now m = m\<lparr>ms_status := Stopped, mo_pid := None, mo_frozen := None, mo_user := None,
     mo_managedSshKey := None, mo_disableAdmin := None, mo_provisioning := None, mo_lastStartedAt := None,
     mo_licenseLevel := None, mo_cleanedAt := Some now\<rparr>"

definition cleanUnderLock :: "life_env \<Rightarrow> unit act" where
  "cleanUnderLock env =
     then_do (stop_running env) (then_do (leave_links env)
       (\<lambda>s. then_do (resetGuestToFactory env (ss_handle s)) (dual_write (mark_cleaned (le_now env))) s))"

section \<open>After a failure\<close>

datatype failure_cleanup = RemoveNew | ResetFirstBoot machine_state | PreserveExisting

datatype cleanup_outcome =
    StopFailed | Preserved | PreservedForDiagnosis | WasReset | ResetFailed | Removed

text \<open>Putting back the record \<open>add\<close> wrote, after the disks.\<close>

definition restore_machine :: "life_env \<Rightarrow> machine_state \<Rightarrow> unit act" where
  "restore_machine env m =
     then_do (resetGuestToFactory env m)
       (then_do (save_state (m\<lparr>ms_status := Stopped, mo_pid := None\<rparr>)) refreshMachineState)"

text \<open>The outcomes are those of the sentence returned; the cleanup itself never throws. When the removal
  of a new machine throws, the sentence is the same.\<close>

definition cleanupAfterBootFailure :: "life_env \<Rightarrow> bool \<Rightarrow> failure_cleanup \<Rightarrow> session \<Rightarrow> cleanup_outcome \<times> session" where
  "cleanupAfterBootFailure env preserved cleanup s =
     (case stopUnderLock env s of
        (Inl _, s1) \<Rightarrow> (StopFailed, s1)
      | (Inr _, s1) \<Rightarrow>
          if cleanup = PreserveExisting then (Preserved, s1)
          else if preserved then (PreservedForDiagnosis, s1)
          else (case cleanup of
                  ResetFirstBoot m \<Rightarrow>
                    (case restore_machine env m s1 of
                       (Inl _, s2) \<Rightarrow> (ResetFailed, s2) | (Inr _, s2) \<Rightarrow> (WasReset, s2))
                | _ \<Rightarrow> (Removed, snd (removeUnderLock env s1))))"

text \<open>One \<open>try\<close> around all of it.\<close>

definition rollbackFailedProvisioning :: "life_env \<Rightarrow> machine_state option \<Rightarrow> session \<Rightarrow> cleanup_outcome \<times> session" where
  "rollbackFailedProvisioning env restore s =
     (case stopUnderLock env s of
        (Inl _, s1) \<Rightarrow> (ResetFailed, s1)
      | (Inr _, s1) \<Rightarrow>
          if le_preserve env then (PreservedForDiagnosis, s1)
          else (case restore of
                  None \<Rightarrow> (case removeUnderLock env s1 of (Inl _, s2) \<Rightarrow> (ResetFailed, s2) | (Inr _, s2) \<Rightarrow> (Removed, s2))
                | Some m \<Rightarrow>
                    (case restore_machine env m s1 of (Inl _, s2) \<Rightarrow> (ResetFailed, s2) | (Inr _, s2) \<Rightarrow> (WasReset, s2))))"

section \<open>Shutting down\<close>

definition DEFAULT_SHUTDOWN_TIMEOUT_MS :: js_number where
  "DEFAULT_SHUTDOWN_TIMEOUT_MS = Finite 10000"

definition validateShutdownTimeout :: "js_number \<Rightarrow> nat result" where
  "validateShutdownTimeout timeoutMs =
     (if \<not> is_integer timeoutMs \<or> int_value timeoutMs \<le> 0 \<or> int_value timeoutMs > 2147483647
      then Inl (QuickCHRError INVALID_ARGUMENT ''shutdown timeoutMs must be a positive integer'')
      else Inr (nat (int_value timeoutMs)))"

text \<open>What the shutdown meets: the answer of the \<open>i\<close>-th probe of the process, how many pauses fit before
  the deadline of the request and of the kill, the error of the request, and that of \<open>stopQemu\<close>.\<close>

record shutdown_env =
  sd_running :: "nat \<Rightarrow> bool"
  sd_pauses :: "nat \<Rightarrow> nat"
  sd_killPauses :: nat
  sd_requestError :: "string option"
  sd_forceError :: "thrown option"

text \<open>\<open>while (isRunning() && now < deadline) sleep\<close> from probe \<open>i\<close>: the number of the next probe.\<close>

fun wait_exit :: "(nat \<Rightarrow> bool) \<Rightarrow> nat \<Rightarrow> nat \<Rightarrow> nat" where
  "wait_exit running 0 i = Suc i"
| "wait_exit running (Suc n) i = (if running i then wait_exit running n (Suc i) else Suc i)"

datatype shutdown_result = AlreadyStopped | GuestExited "string option" | Forced "string option"

definition still_running :: "string \<Rightarrow> thrown" where
  "still_running t = Coded (QuickCHRError STATE_ERROR t)"

text \<open>The flag tells whether \<open>forceStop\<close> was called.\<close>

definition shutdownGuest :: "shutdown_env \<Rightarrow> nat \<Rightarrow> (thrown + shutdown_result) \<times> bool" where
  "shutdownGuest sd timeoutMs =
     (let running = sd_running sd; i = wait_exit running (sd_pauses sd timeoutMs) 0 in
      if \<not> running i \<or> \<not> running (Suc i) then (Inr (GuestExited (sd_requestError sd)), False)
      else
        (let j = (if sd_forceError sd = None then i + 2 else i + 3) in
         if sd_forceError sd \<noteq> None \<and> running (i + 2) then (Inl (still_running ''could not terminate QEMU''), True)
         else
           (let k = wait_exit running (sd_killPauses sd) j in
            if running k then (Inl (still_running ''could not confirm QEMU exit''), True)
            else (Inr (Forced (sd_requestError sd)), True))))"

definition shutdown_body :: "life_env \<Rightarrow> shutdown_env \<Rightarrow> nat \<Rightarrow> shutdown_result act" where
  "shutdown_body env sd timeoutMs s =
     (if \<not> truthy_pid (ss_handle s) \<or> \<not> handle_running s
      then then_do (finalizeStoppedState env) (ret AlreadyStopped) s
      else (case fst (shutdownGuest sd timeoutMs) of
              Inl e \<Rightarrow> (Inl e, s)
            | Inr r \<Rightarrow> then_do (finalizeStoppedState env) (ret r) s))"

definition shutdown :: "life_env \<Rightarrow> shutdown_env \<Rightarrow> js_number option \<Rightarrow> shutdown_result act" where
  "shutdown env sd timeoutMs =
     bind_act (lift_result (validateShutdownTimeout (case timeoutMs of Some t \<Rightarrow> t | None \<Rightarrow> DEFAULT_SHUTDOWN_TIMEOUT_MS)))
       (\<lambda>t. withMachineLock env (shutdown_body env sd t))"

section \<open>Continuing a frozen machine\<close>

record continue_env =
  ce_status :: "thrown + string"
  ce_cont :: "thrown + string"
  ce_accel :: string
  ce_boots :: "nat \<Rightarrow> bool"

text \<open>\<open>/^error[:\s]/i\<close>.\<close>

definition is_error_reply :: "string \<Rightarrow> bool" where
  "is_error_reply out \<longleftrightarrow> to_lower (take 5 out) = ''error''
     \<and> (case drop 5 out of [] \<Rightarrow> False | c # _ \<Rightarrow> c = CHR '':'' \<or> is_space c)"

definition clearFrozenMarker :: "unit act" where
  "clearFrozenMarker = dual_write (\<lambda>m. m\<lparr>mo_frozen := None\<rparr>)"

definition resume_guest :: "continue_env \<Rightarrow> unit act" where
  "resume_guest ce =
     (case ce_status ce of
        Inl e \<Rightarrow> throw e
      | Inr status \<Rightarrow>
          if sublist ''running'' status then ret ()
          else (case ce_cont ce of
                  Inl e \<Rightarrow> throw e
                | Inr out \<Rightarrow> if is_error_reply out then throw (Coded (QuickCHRError PROCESS_FAILED ''continue failed''))
                             else ret ()))"

definition await_boot :: "life_env \<Rightarrow> continue_env \<Rightarrow> nat \<Rightarrow> unit act" where
  "await_boot env ce timeoutExtra s =
     (let m = ss_handle s;
          accel = (case mo_lastAccel m of Some a \<Rightarrow> a | None \<Rightarrow> ce_accel ce) in
      if ce_boots ce (defaultBootTimeout env (ms_arch m) False (Some accel) + timeoutExtra) then (Inr (), s)
      else (Inl (Coded (QuickCHRError BOOT_TIMEOUT ''CHR did not respond after continue'')),
            snd (cleanupAfterBootFailure env False PreserveExisting s)))"

definition continueUnderLock :: "life_env \<Rightarrow> continue_env \<Rightarrow> bool \<Rightarrow> nat \<Rightarrow> unit act" where
  "continueUnderLock env ce wait timeoutExtra s =
     (if \<not> truthy_pid (ss_handle s) \<or> \<not> handle_running s
      then then_do (finalizeStoppedState env) (throw (Coded (QuickCHRError MACHINE_STOPPED ''nothing to continue''))) s
      else then_do (resume_guest ce) (then_do clearFrozenMarker (if wait then await_boot env ce timeoutExtra else ret ())) s)"

section \<open>The methods of an instance\<close>

definition stop :: "life_env \<Rightarrow> unit act" where
  "stop env = withMachineLock env (stopUnderLock env)"

definition continue_machine :: "life_env \<Rightarrow> continue_env \<Rightarrow> bool option \<Rightarrow> nat option \<Rightarrow> unit act" where
  "continue_machine env ce wait timeoutExtra = withMachineLock env
     (continueUnderLock env ce (case wait of Some w \<Rightarrow> w | None \<Rightarrow> True) (case timeoutExtra of Some t \<Rightarrow> t | None \<Rightarrow> 0))"

definition remove :: "life_env \<Rightarrow> unit act" where
  "remove env = withMachineLock env (removeUnderLock env)"

definition clean :: "life_env \<Rightarrow> unit act" where
  "clean env = withMachineLock env (cleanUnderLock env)"

definition destroy :: "life_env \<Rightarrow> unit act" where
  "destroy env = withMachineLock env (then_do (stopUnderLock env) (removeUnderLock env))"

end
