(* ===== verification/Lifecycle_Facts.thy ===== *)
theory Lifecycle_Facts
  imports Lifecycle
begin

text \<open>What the lifecycle operations guarantee.\<close>

section \<open>Leaving and joining links\<close>

definition members_of :: "registry \<Rightarrow> string \<Rightarrow> string list" where
  "members_of r l = (case read_entry l r of None \<Rightarrow> [] | Some e \<Rightarrow> se_members e)"

definition link_end :: "registry \<Rightarrow> string \<Rightarrow> string \<Rightarrow> nat option" where
  "link_end r l m = Option.bind (read_entry l r) (\<lambda>e. getSocketSlot e m)"

text \<open>Machines other than \<open>m\<close> stay on their links, at their ends.\<close>

definition others_kept :: "string \<Rightarrow> registry \<Rightarrow> registry \<Rightarrow> bool" where
  "others_kept m r r' \<longleftrightarrow> (\<forall>l k. k \<noteq> m \<longrightarrow>
     (k \<in> set (members_of r l) \<longrightarrow> k \<in> set (members_of r' l))
     \<and> (\<forall>i. link_end r l k = Some i \<longrightarrow> link_end r' l k = Some i))"

lemma others_kept_refl [simp]: "others_kept m r r"
  by (simp add: others_kept_def)

lemma others_kept_trans: "others_kept m r r1 \<Longrightarrow> others_kept m r1 r2 \<Longrightarrow> others_kept m r r2"
  unfolding others_kept_def by blast

lemma others_kept_disk: "rg_disk r' = rg_disk r \<Longrightarrow> others_kept m r r'"
  by (simp add: others_kept_def members_of_def link_end_def read_entry_disk [of r' r])

lemma others_keptI:
  assumes "\<And>k. k \<noteq> l \<Longrightarrow> read_entry k r' = read_entry k r"
    and "\<And>e k. read_entry l r = Some e \<Longrightarrow> k \<noteq> m \<Longrightarrow> k \<in> set (se_members e) \<Longrightarrow>
        \<exists>e'. read_entry l r' = Some e' \<and> k \<in> set (se_members e')"
    and "\<And>e k i. read_entry l r = Some e \<Longrightarrow> k \<noteq> m \<Longrightarrow> getSocketSlot e k = Some i \<Longrightarrow>
        \<exists>e'. read_entry l r' = Some e' \<and> getSocketSlot e' k = Some i"
  shows "others_kept m r r'"
  unfolding others_kept_def
proof (intro allI impI)
  fix n k assume k: "k \<noteq> m"
  show "(k \<in> set (members_of r n) \<longrightarrow> k \<in> set (members_of r' n))
     \<and> (\<forall>i. link_end r n k = Some i \<longrightarrow> link_end r' n k = Some i)"
  proof (cases "n = l")
    case False
    then show ?thesis using assms(1) by (simp add: members_of_def link_end_def)
  next
    case True
    then show ?thesis using assms(2,3) [OF _ k]
      by (cases "read_entry l r") (auto simp: members_of_def link_end_def, fastforce+)
  qed
qed

lemma leave_link_result:
  assumes w: "wf_disk (rg_disk r)"
  shows "wf_disk (rg_disk (leave_link plat m l r)) \<and> m \<notin> set (members_of (leave_link plat m l r) l)
    \<and> others_kept m r (leave_link plat m l r)
    \<and> (\<forall>k. k \<noteq> l \<longrightarrow> read_entry k (leave_link plat m l r) = read_entry k r)"
proof (cases "read_entry l r")
  case None
  obtain r1 where r1: "reloadEntry l r = (None, r1)" using None reload_fields(3) [of l r] by (cases "reloadEntry l r") auto
  have "rg_disk r1 = rg_disk r" using reload_fields(1) [of l r] r1 by simp
  then have d': "rg_disk (leave_link plat m l r) = rg_disk r"
    by (simp add: leave_link_def removeSocketMember_def with_entry_def r1 split: sum.split)
  then have "read_entry k (leave_link plat m l r) = read_entry k r" for k by (rule read_entry_disk)
  with d' w None show ?thesis by (simp add: members_of_def others_kept_disk)
next
  case (Some e)
  note e = wf_disk_read [OF w Some]
  have safe: "assertPathSafeName plat l = Inr ()"
    using e VALID_NAME_path_safe [of l plat] by (simp add: assertPathSafeName_def assertValid_iff)
  obtain r1 where r1: "reloadEntry l r = (Some e, r1)" using Some reload_fields(3) [of l r] by (cases "reloadEntry l r") auto
  have d: "rg_disk r1 = rg_disk r" using reload_fields(1) [of l r] r1 by simp
  have rd: "read_entry k r1 = read_entry k r" for k using d by (rule read_entry_disk)
  let ?e = "drop_member m e" and ?r = "leave_link plat m l r"
  have de: "wf_entry ?e" "se_name ?e = l" using drop_member_wf [of e m] e by (auto simp: same_link_def)
  have run: "?r = (if se_members ?e = [] \<and> se_autoCreated ?e then snd (removeEntry l r1) else saveEntry ?e r1)"
    by (simp add: leave_link_def removeSocketMember_def with_entry_def safe r1 Let_def)
  have read: "read_entry k ?r = (if k = l then if se_members ?e = [] \<and> se_autoCreated ?e then None else Some ?e else read_entry k r)" for k
    unfolding run using read_removeEntry [of k l r1] read_save [OF de(1), of k r1] de(2) rd by auto
  have "wf_disk (rg_disk ?r)"
    unfolding run using w d de e removeEntry_disk [of l r1] wf_disk_del wf_disk_put [of "rg_disk r" ?e] by auto
  moreover have "others_kept m r ?r"
  proof (rule others_keptI [of l])
    fix e' k assume a: "read_entry l r = Some e'" "k \<noteq> m" "k \<in> set (se_members e')"
    then have "k \<in> set (se_members ?e)" using Some by (simp add: drop_member_def)
    then show "\<exists>e'. read_entry l ?r = Some e' \<and> k \<in> set (se_members e')" using read [of l] by auto
  next
    fix e' k i assume a: "read_entry l r = Some e'" "k \<noteq> m" "getSocketSlot e' k = Some i"
    then have "getSocketSlot ?e k = Some i" using Some e drop_member_slots [of e k m] by simp
    moreover from this have "k \<in> set (se_members ?e)" using slot_member [OF de(1)] by blast
    ultimately show "\<exists>e'. read_entry l ?r = Some e' \<and> getSocketSlot e' k = Some i" using read [of l] by auto
  qed (simp add: read)
  moreover have "m \<notin> set (members_of ?r l)"
    by (auto simp: members_of_def read drop_member_def)
  ultimately show ?thesis using read by simp
qed

lemma leave_links_fold:
  assumes "wf_disk (rg_disk r)"
  shows "let r' = fold (leave_link plat m) ls r in wf_disk (rg_disk r') \<and> others_kept m r r'
    \<and> list_all (\<lambda>l. m \<notin> set (members_of r' l)) ls
    \<and> (\<forall>k. k \<notin> set ls \<longrightarrow> read_entry k r' = read_entry k r)
    \<and> (\<forall>k. m \<notin> set (members_of r k) \<longrightarrow> m \<notin> set (members_of r' k))"
  using assms
proof (induction ls arbitrary: r)
  case (Cons l ls)
  note one = leave_link_result [OF Cons.prems, of plat m l]
  let ?r1 = "leave_link plat m l r"
  have keep: "m \<notin> set (members_of r k) \<Longrightarrow> m \<notin> set (members_of ?r1 k)" for k
    using one by (cases "k = l") (auto simp: members_of_def)
  have w1: "wf_disk (rg_disk ?r1)" using one by blast
  note ih = Cons.IH [OF w1, unfolded Let_def]
  show ?case
    unfolding Let_def fold_Cons o_apply
    using ih one keep others_kept_trans [of m r ?r1] by (auto simp: list_all_iff)
qed simp

lemma unregister_result:
  assumes "wf_disk (rg_disk r)"
  shows "wf_disk (rg_disk (unregisterSocketMembers plat m r))"
    and "others_kept (ms_name m) r (unregisterSocketMembers plat m r)"
    and "list_all (\<lambda>l. ms_name m \<notin> set (members_of (unregisterSocketMembers plat m r) l)) (getSocketNamedNetworks m)"
    and "\<And>k. ms_name m \<notin> set (members_of r k) \<Longrightarrow> ms_name m \<notin> set (members_of (unregisterSocketMembers plat m r) k)"
  using leave_links_fold [OF assms, of plat "ms_name m" "getSocketNamedNetworks m"]
  by (simp_all add: unregisterSocketMembers_def Let_def)

lemma no_member_no_end: "wf_disk (rg_disk r) \<Longrightarrow> m \<notin> set (members_of r l) \<Longrightarrow> link_end r l m = None"
  using wf_disk_read [of r l] slot_member
  by (cases "read_entry l r") (auto simp: members_of_def link_end_def, metis not_None_eq)

lemma join_keeps_others:
  assumes w: "wf_disk (rg_disk r)"
  shows "wf_disk (rg_disk (snd (joinNamedSocket plat dir now l m auto r)))
    \<and> others_kept m r (snd (joinNamedSocket plat dir now l m auto r))"
proof -
  let ?r = "snd (joinNamedSocket plat dir now l m auto r)"
  have ok: "reg_ok r" using w by (simp add: reg_ok_def)
  have eff: "entry_effect l r ?r"
    using op_effect [OF ok, where op = "OpJoin l m auto" and plat = plat and dir = dir and now = now] by simp
  have "others_kept m r ?r"
  proof (rule others_keptI [of l])
    show "read_entry k ?r = read_entry k r" if "k \<noteq> l" for k using entry_effect_other [OF eff that] .
  next
    fix e k i assume "read_entry l r = Some e" "k \<noteq> m" "getSocketSlot e k = Some i"
    then show "\<exists>e'. read_entry l ?r = Some e' \<and> getSocketSlot e' k = Some i"
      using op_keeps_slot [OF ok, where op = "OpJoin l m auto" and plat = plat and dir = dir and now = now] by fastforce
  next
    fix e k assume e: "read_entry l r = Some e" and k: "k \<noteq> m" "k \<in> set (se_members e)"
    obtain r1 where r1: "reloadEntry l r = (Some e, r1)" using e reload_fields(3) [of l r] by (cases "reloadEntry l r") auto
    have d: "read_entry k r1 = read_entry k r" for k using reload_fields(4) [where n = l and r = r] r1 by simp
    note we = wf_disk_read [OF w e]
    have "\<exists>e'. read_entry l (snd (claimEndpoint e m r1)) = Some e' \<and> k \<in> set (se_members e')"
      using claimEndpoint_cases [of e, where m = m and r = r1] we e d k
      by (auto simp: same_link_def read_save split: prod.splits sum.splits if_splits)
    then show "\<exists>e'. read_entry l ?r = Some e' \<and> k \<in> set (se_members e')"
      using e k by (auto simp: joinNamedSocket_def with_entry_def r1 split: sum.splits)
  qed
  then show ?thesis using entry_effect_ok [OF ok eff] by (simp add: reg_ok_def)
qed

lemma register_each_keeps:
  assumes "wf_disk (rg_disk r)"
  shows "wf_disk (rg_disk (snd (register_each env now m ls r))) \<and> others_kept m r (snd (register_each env now m ls r))"
  using assms
proof (induction ls arbitrary: r)
  case (Cons l ls)
  let ?j = "joinNamedSocket (he_platform env) (he_registryDir env) now l m (Some True) r"
  have j: "wf_disk (rg_disk (snd ?j))" "others_kept m r (snd ?j)"
    using join_keeps_others [OF Cons.prems] by blast+
  show ?case
    using j Cons.IH [OF j(1)] others_kept_trans [OF j(2)]
    by (auto split: prod.splits sum.splits)
qed simp

lemma resolveAll_disk: "rg_disk (snd (resolveAllNetworks env ctx hostfwd ns r)) = rg_disk r"
  using resolve_each_result [where env = env and ctx = ctx and hostfwd = hostfwd and configs = ns and r = r]
  by (auto simp: resolveAllNetworks_def split: prod.splits sum.splits)


definition off_links :: "string \<Rightarrow> string list \<Rightarrow> registry \<Rightarrow> bool" where
  "off_links m ls r \<longleftrightarrow> list_all (\<lambda>l. m \<notin> set (members_of r l) \<and> link_end r l m = None) ls"

lemma unregister_off:
  assumes "wf_disk (rg_disk r)"
  shows "off_links (ms_name m) (getSocketNamedNetworks m) (unregisterSocketMembers plat m r)"
  using unregister_result(1,3) [OF assms, where plat = plat and m = m] no_member_no_end
  by (fastforce simp: off_links_def list_all_iff)

lemma register_resolve_keeps:
  assumes "wf_disk (rg_disk r)"
  shows "case registerAndResolveNetworks env now ctx hostfwd m r of (res, r') \<Rightarrow>
      wf_disk (rg_disk r') \<and> others_kept (ms_name m) r r'
      \<and> (is_ok res \<or> off_links (ms_name m) (getSocketNamedNetworks m) r')"
proof -
  obtain a r1 where 1: "registerSocketMembers env now m r = (a, r1)" by fastforce
  have k1: "wf_disk (rg_disk r1)" "others_kept (ms_name m) r r1"
    using register_each_keeps [OF assms, of env now "ms_name m" "getSocketNamedNetworks m"] 1
    by (simp_all add: registerSocketMembers_def)
  show ?thesis
  proof (cases a)
    case (Inl e)
    then show ?thesis
      using 1 unregister_result(1,2) [OF k1(1), where plat = "he_platform env" and m = m] unregister_off [OF k1(1)] others_kept_trans [OF k1(2)]
      by (simp add: registerAndResolveNetworks_def)
  next
    case (Inr u)
    obtain b r2 where 2: "resolveAllNetworks env (ctx\<lparr>rc_machine := Some (ms_name m)\<rparr>) hostfwd (ms_networks m) r1 = (b, r2)"
      by fastforce
    have d: "rg_disk r2 = rg_disk r1" using resolveAll_disk [of env "ctx\<lparr>rc_machine := Some (ms_name m)\<rparr>" hostfwd "ms_networks m" r1] 2 by simp
    have k2: "wf_disk (rg_disk r2)" "others_kept (ms_name m) r r2"
      using k1 d others_kept_trans [OF k1(2) others_kept_disk [OF d]] by simp_all
    show ?thesis
      using 1 Inr 2 k2 unregister_result(1,2) [OF k2(1), where plat = "he_platform env" and m = m] unregister_off [OF k2(1)]
        others_kept_trans [OF k2(2)]
      by (cases b) (simp_all add: registerAndResolveNetworks_def)
  qed
qed

section \<open>Sessions\<close>

definition sound :: "session \<Rightarrow> bool" where
  "sound s \<longleftrightarrow> own_names (ss_data s) \<and> wf_disk (rg_disk (ss_reg s))"

text \<open>The handle is what the file says.\<close>

definition agrees :: "session \<Rightarrow> bool" where
  "agrees s \<longleftrightarrow> loadMachine (ss_data s) (own_name s) = Inr (Some (ss_handle s))"

text \<open>Nothing of the machines other than \<open>n\<close> changes, apart from the caches of this process.\<close>

definition spares :: "string \<Rightarrow> session \<Rightarrow> session \<Rightarrow> bool" where
  "spares n s s' \<longleftrightarrow> (\<forall>k. k \<noteq> n \<longrightarrow> loadMachine (ss_data s') k = loadMachine (ss_data s) k)
     \<and> others_kept n (ss_reg s) (ss_reg s')"

lemma spares_refl [simp]: "spares n s s"
  by (simp add: spares_def)

lemma spares_trans: "spares n s s1 \<Longrightarrow> spares n s1 s2 \<Longrightarrow> spares n s s2"
  unfolding spares_def using others_kept_trans by metis

lemma loaded_load: "loaded_state d n = Some m \<longleftrightarrow> loadMachine d n = Inr (Some m)"
  by (rule loaded_state_iff)

lemma save_in_session:
  assumes "sound s" and "loaded_state (ss_data s) (ms_name m) \<noteq> None"
  shows "\<exists>d. save_state m s = (Inr (), s\<lparr>ss_data := d\<rparr>) \<and> sound (s\<lparr>ss_data := d\<rparr>)
    \<and> loadMachine d (ms_name m) = Inr (Some m) \<and> (\<forall>n. n \<noteq> ms_name m \<longrightarrow> loadMachine d n = loadMachine (ss_data s) n)"
proof -
  have d0: "distinct (map fst (dd_machines (ss_data s)))" using assms(1) by (simp add: sound_def own_names_def)
  obtain d where d: "saveMachine m (ss_data s) = Some d" "listMachineNames d = listMachineNames (ss_data s)"
      "map fst (dd_machines d) = map fst (dd_machines (ss_data s))"
      "\<And>n. loaded_state d n = (if n = ms_name m then Some m else loaded_state (ss_data s) n)"
    using save_loaded [OF assms(2) d0] by metis
  have "own_names d"
    using assms(1) d0 d by (auto simp: sound_def own_names_def list_all_iff)
  moreover have "loadMachine d n = loadMachine (ss_data s) n" if "n \<noteq> ms_name m" for n
    by (rule load_depends) (use that saveMachine_cases [OF d(1)] in \<open>simp add: al.get_put_iff\<close>)
  moreover have "loadMachine d (ms_name m) = Inr (Some m)" using d(4) [of "ms_name m"] loaded_load by simp
  ultimately show ?thesis using assms(1) d(1) by (auto simp: save_state_def sound_def)
qed

lemma dual_write_result:
  assumes "sound s" "agrees s" and f: "\<And>m. ms_name (f m) = ms_name m"
  shows "\<exists>d. dual_write f s = (Inr (), s\<lparr>ss_data := d, ss_handle := f (ss_handle s)\<rparr>)
    \<and> sound (s\<lparr>ss_data := d, ss_handle := f (ss_handle s)\<rparr>) \<and> agrees (s\<lparr>ss_data := d, ss_handle := f (ss_handle s)\<rparr>)
    \<and> (\<forall>n. n \<noteq> own_name s \<longrightarrow> loadMachine d n = loadMachine (ss_data s) n)"
proof -
  have l: "loadMachine (ss_data s) (own_name s) = Inr (Some (ss_handle s))" using assms(2) by (simp add: agrees_def)
  then have "loaded_state (ss_data s) (ms_name (f (ss_handle s))) \<noteq> None"
    using loaded_load f by (fastforce simp: own_name_def)
  from save_in_session [OF assms(1) this] obtain d where
    "save_state (f (ss_handle s)) s = (Inr (), s\<lparr>ss_data := d\<rparr>)" "sound (s\<lparr>ss_data := d\<rparr>)"
    "loadMachine d (own_name s) = Inr (Some (f (ss_handle s)))" "\<forall>n. n \<noteq> own_name s \<longrightarrow> loadMachine d n = loadMachine (ss_data s) n"
    by (auto simp: f own_name_def)
  then show ?thesis
    by (intro exI [of _ d])
      (simp add: dual_write_def then_do_def bind_act_def update_saved_def l [unfolded own_name_def] map_handle_def sound_def agrees_def own_name_def f)
qed

lemma then_do_run: "then_do f g s = (case f s of (Inl e, s') \<Rightarrow> (Inl e, s') | (Inr _, s') \<Rightarrow> g s')"
  by (simp add: then_do_def bind_act_def)

text \<open>A machine at rest: stopped in the file as in the handle, and on none of its links.\<close>

definition at_rest :: "session \<Rightarrow> bool" where
  "at_rest s \<longleftrightarrow> agrees s \<and> ms_status (ss_handle s) = Stopped \<and> mo_pid (ss_handle s) = None \<and> mo_frozen (ss_handle s) = None
     \<and> off_links (own_name s) (getSocketNamedNetworks (ss_handle s)) (ss_reg s)"

lemma leave_links_result:
  assumes "sound s"
  shows "\<exists>r. leave_links env s = (Inr (), s\<lparr>ss_reg := r\<rparr>) \<and> sound (s\<lparr>ss_reg := r\<rparr>)
    \<and> others_kept (own_name s) (ss_reg s) r \<and> off_links (own_name s) (getSocketNamedNetworks (ss_handle s)) r"
  using assms unregister_result(1,2) [where r = "ss_reg s" and plat = "he_platform (le_host env)" and m = "ss_handle s"] unregister_off [of "ss_reg s"]
  by (intro exI [of _ "unregisterSocketMembers (he_platform (le_host env)) (ss_handle s) (ss_reg s)"])
    (simp add: leave_links_def sound_def own_name_def)

text \<open>Leaving the links and writing \<open>f\<close> to file and handle.\<close>

lemma rest_write:
  assumes "sound s" "agrees s"
    and f: "\<And>m. ms_name (f m) = ms_name m" "\<And>m. ms_networks (f m) = ms_networks m" "\<And>m. ms_status (f m) = Stopped"
      "\<And>m. mo_pid (f m) = None" "\<And>m. mo_frozen (f m) = None"
    and off: "off_links (own_name s) (getSocketNamedNetworks (ss_handle s)) (ss_reg s)"
  shows "\<exists>s'. dual_write f s = (Inr (), s') \<and> at_rest s' \<and> sound s' \<and> spares (own_name s) s s'
    \<and> ss_handle s' = f (ss_handle s) \<and> ss_reg s' = ss_reg s \<and> ss_creds s' = ss_creds s \<and> ss_guests s' = ss_guests s"
  using dual_write_result [OF assms(1,2), of f] f off
  by (auto simp: at_rest_def spares_def own_name_def getSocketNamedNetworks_def)

lemma finalize_result:
  assumes "sound s" "agrees s"
  shows "\<exists>s'. finalizeStoppedState env s = (Inr (), s') \<and> at_rest s' \<and> sound s' \<and> spares (own_name s) s s'
    \<and> ss_handle s' = mark_stopped (ss_handle s) \<and> ss_creds s' = ss_creds s \<and> ss_guests s' = ss_guests s"
proof -
  obtain r where r: "leave_links env s = (Inr (), s\<lparr>ss_reg := r\<rparr>)" "sound (s\<lparr>ss_reg := r\<rparr>)"
      "others_kept (own_name s) (ss_reg s) r" "off_links (own_name s) (getSocketNamedNetworks (ss_handle s)) r"
    using leave_links_result [OF assms(1)] by blast
  have "agrees (s\<lparr>ss_reg := r\<rparr>)" using assms(2) by (simp add: agrees_def own_name_def)
  from rest_write [OF r(2) this, of mark_stopped] r(4)
  obtain s' where s': "dual_write mark_stopped (s\<lparr>ss_reg := r\<rparr>) = (Inr (), s')" "at_rest s'" "sound s'"
      "spares (own_name s) (s\<lparr>ss_reg := r\<rparr>) s'" "ss_handle s' = mark_stopped (ss_handle s)"
      "ss_creds s' = ss_creds s" "ss_guests s' = ss_guests s"
    by (auto simp: mark_stopped_def own_name_def)
  moreover have "spares (own_name s) s (s\<lparr>ss_reg := r\<rparr>)" using r(3) by (simp add: spares_def)
  ultimately show ?thesis
    using spares_trans by (auto simp: finalizeStoppedState_def then_do_run r(1))
qed

lemma stop_pid_frame: "\<exists>r k. stop_pid env s = (r, s\<lparr>ss_kill := k\<rparr>)"
proof -
  have "\<exists>r k. stopQemu env pid s = (r, s\<lparr>ss_kill := k\<rparr>)" for pid
  proof (cases "ss_kill s pid = KillOk \<and> le_stop env pid \<noteq> TermThrows")
    case True
    then show ?thesis by (cases "le_stop env pid") (auto simp: stopQemu_def set_kill_def)
  next
    case False
    then have "\<exists>r. stopQemu env pid s = (r, s\<lparr>ss_kill := ss_kill s\<rparr>)" by (auto simp: stopQemu_def)
    then show ?thesis by blast
  qed
  then obtain r k where "stopQemu env (the (mo_pid (ss_handle s))) s = (r, s\<lparr>ss_kill := k\<rparr>)" by blast
  then show ?thesis by (cases r) (auto simp: stop_pid_def bind_act_def ret_def)
qed

lemma kill_frame [simp]:
  "sound (s\<lparr>ss_kill := k\<rparr>) = sound s" "agrees (s\<lparr>ss_kill := k\<rparr>) = agrees s" "own_name (s\<lparr>ss_kill := k\<rparr>) = own_name s"
  "spares n (s\<lparr>ss_kill := k\<rparr>) = spares n s" "spares n s0 (s\<lparr>ss_kill := k\<rparr>) = spares n s0 s"
  by (simp_all add: sound_def agrees_def own_name_def spares_def fun_eq_iff)

lemma stop_running_frame: "\<exists>r k. stop_running env s = (r, s\<lparr>ss_kill := k\<rparr>)"
proof -
  have "(Inr (), s) = (Inr (), s\<lparr>ss_kill := ss_kill s\<rparr>)" by simp
  then show ?thesis unfolding stop_running_def using stop_pid_frame [of env s] by metis
qed

lemma stopUnderLock_result:
  assumes "sound s" "agrees s"
  shows "case stopUnderLock env s of
      (Inl e, s') \<Rightarrow> (\<exists>k. s' = s\<lparr>ss_kill := k\<rparr>)
    | (Inr _, s') \<Rightarrow> at_rest s' \<and> sound s' \<and> spares (own_name s) s s' \<and> ss_handle s' = mark_stopped (ss_handle s)
        \<and> ss_creds s' = ss_creds s \<and> ss_guests s' = ss_guests s"
proof -
  have "\<exists>r k. (if truthy_pid (ss_handle s) then stop_pid env else ret ()) s = (r, s\<lparr>ss_kill := k\<rparr>)"
  proof (cases "truthy_pid (ss_handle s)")
    case False
    then have "(if truthy_pid (ss_handle s) then stop_pid env else ret ()) s = (Inr (), s\<lparr>ss_kill := ss_kill s\<rparr>)"
      by (simp add: ret_def)
    then show ?thesis by blast
  qed (use stop_pid_frame [of env s] in simp)
  then obtain r k where 1: "(if truthy_pid (ss_handle s) then stop_pid env else ret ()) s = (r, s\<lparr>ss_kill := k\<rparr>)" by blast
  show ?thesis
  proof (cases r)
    case (Inl e)
    then show ?thesis using 1 by (auto simp: stopUnderLock_def then_do_run)
  next
    case (Inr u)
    obtain s' where "finalizeStoppedState env (s\<lparr>ss_kill := k\<rparr>) = (Inr (), s')" "at_rest s'" "sound s'"
        "spares (own_name s) s s'" "ss_handle s' = mark_stopped (ss_handle s)" "ss_creds s' = ss_creds s" "ss_guests s' = ss_guests s"
      using finalize_result [of "s\<lparr>ss_kill := k\<rparr>" env] assms by auto
    then show ?thesis using 1 Inr by (simp add: stopUnderLock_def then_do_run)
  qed
qed

text \<open>Under the lock the handle is refreshed, or the operation is refused and nothing has happened.\<close>

lemma with_lock_cases:
  "(\<exists>e. withMachineLock env fn s = (Inl e, s))
   \<or> (\<exists>m. loadMachine (ss_data s) (own_name s) = Inr (Some m) \<and> mo_createdAt m = mo_createdAt (ss_handle s)
        \<and> withMachineLock env fn s = fn (s\<lparr>ss_handle := m\<rparr>))"
  by (auto simp: withMachineLock_def then_do_def bind_act_def assertSameMachine_def refreshMachineState_def
      split: option.split sum.split)

lemma with_lock_agrees:
  assumes "sound s" "loadMachine (ss_data s) (own_name s) = Inr (Some m)"
  shows "sound (s\<lparr>ss_handle := m\<rparr>)" "agrees (s\<lparr>ss_handle := m\<rparr>)" "ms_name m = own_name s"
proof -
  have l: "loaded_state (ss_data s) (own_name s) = Some m" using assms(2) loaded_load by simp
  obtain f where f: "al_get (dd_machines (ss_data s)) (own_name s) = Some (MachineDir f)" using loaded_entry [OF l] by blast
  have "own_name s \<in> set (listMachineNames (ss_data s))"
    using al_get_in [OF f] by (force simp: listMachineNames_def is_directory_def)
  then show "ms_name m = own_name s" using assms(1) l by (auto simp: sound_def own_names_def list_all_iff)
  then show "sound (s\<lparr>ss_handle := m\<rparr>)" "agrees (s\<lparr>ss_handle := m\<rparr>)" using assms by (simp_all add: sound_def agrees_def own_name_def)
qed

section \<open>Resetting the disks\<close>

text \<open>Only the machine's own files and its credentials change.\<close>

definition only_guest :: "session \<Rightarrow> session \<Rightarrow> bool" where
  "only_guest s s' \<longleftrightarrow> ss_handle s' = ss_handle s \<and> ss_data s' = ss_data s \<and> ss_reg s' = ss_reg s \<and> ss_kill s' = ss_kill s"

lemma only_guest_refl [simp]: "only_guest s s"
  by (simp add: only_guest_def)

lemma only_guest_then_do:
  "only_guest s (snd (f s)) \<Longrightarrow> (\<And>s'. only_guest s' (snd (g s'))) \<Longrightarrow> only_guest s (snd (then_do f g s))"
  by (cases "f s") (auto simp: then_do_run only_guest_def split: sum.split)

lemma only_guest_on_disks [simp]: "only_guest s (snd (on_disks dir f s))"
  by (simp add: on_disks_def only_guest_def put_disks_def split: prod.split sum.split)

lemma only_guest_basic [simp]:
  "only_guest s (snd (rm_disk env dir file s))" "only_guest s (snd (rm_ssh env dir s))" "only_guest s (snd (ret x s))"
  "only_guest s (snd (throw e s))" "only_guest s (snd (deleteInstanceCredentials n s))"
  by (simp_all add: rm_disk_def rm_ssh_def only_guest_def put_disks_def ret_def throw_def deleteInstanceCredentials_def)

lemma reset_only_guest: "only_guest s (snd (resetGuestToFactory env m s))"
  unfolding resetGuestToFactory_def Let_def
  by (cases "le_cached env (cached_image_name m)") (auto intro!: only_guest_then_do)

text \<open>The boot disk is the cached image, copied, or converted and resized.\<close>

definition factory_boot :: "life_env \<Rightarrow> machine_state \<Rightarrow> disk_image \<Rightarrow> bool" where
  "factory_boot env m x \<longleftrightarrow>
     (\<exists>img. le_cached env (cached_image_name m) = Some img
      \<and> (if format_of m = Raw then fs_copy (le_tools env) img = ToolOk x
         else \<exists>y. qi_convert (le_tools env) img = ToolOk y \<and> di_format x = ''qcow2'' \<and> \<not> truthy_size (di_backing x)
            \<and> (if truthy_size (mo_bootSize m) then qi_resize (le_tools env) (the (mo_bootSize m)) y = ToolOk x else x = y)))"

lemma run_tool_ok: "run_tool out target dir = (Some img, d) \<Longrightarrow> out = ToolOk img"
  by (auto simp: run_tool_def split: tool_outcome.splits option.splits)

lemma write_boot_factory:
  assumes "writeBootDisk t img fmt bootSize dir = (Inr p, d)"
  shows "\<exists>x. al_get d (boot_disk_name fmt) = Some x
    \<and> (if fmt = Raw then fs_copy t img = ToolOk x
       else \<exists>y. qi_convert t img = ToolOk y \<and> di_format x = ''qcow2'' \<and> \<not> truthy_size (di_backing x)
            \<and> (if truthy_size bootSize then qi_resize t (the bootSize) y = ToolOk x else x = y))"
proof -
  obtain b d1 where b: "(if fmt = Raw then build_raw t img (tmp_name fmt) (al_del (tmp_name fmt) dir)
      else build_qcow2 t img bootSize (tmp_name fmt) (al_del (tmp_name fmt) dir)) = (b, d1)" by fastforce
  then obtain x where x: "b = Inr x" "\<not> fs_rename_fails t"
      "d = al_del (tmp_name fmt) (al_put (boot_disk_name fmt) x (al_del (tmp_name fmt) d1))"
    using assms by (auto simp: writeBootDisk_def Let_def split: sum.splits if_splits)
  have "tmp_name fmt \<noteq> boot_disk_name fmt" by (simp add: tmp_name_def)
  then have get: "al_get d (boot_disk_name fmt) = Some x" by (simp add: x(3) al.get_del_iff al.get_put)
  show ?thesis
  proof (cases "fmt = Raw")
    case True
    then have "fs_copy t img = ToolOk x"
      using b x(1) run_tool_ok by (fastforce simp: build_raw_def split: prod.splits option.splits)
    then show ?thesis using True get by simp
  next
    case False
    let ?tmp = "tmp_name fmt" and ?d = "al_del (tmp_name fmt) dir"
    have q: "build_qcow2 t img bootSize ?tmp ?d = (Inr x, d1)" using b x(1) False by simp
    obtain y d2 where y: "convertRawToQcow2 t img ?tmp ?d = (Inr y, d2)"
      using q by (auto simp: build_qcow2_def split: prod.splits sum.splits)
    then have "qi_convert t img = ToolOk y"
      by (auto simp: convertRawToQcow2_def dest: run_tool_ok split: if_splits prod.splits option.splits)
    moreover obtain z d3 where z: "(if truthy_size bootSize then resizeQcow2 t y ?tmp (the bootSize) d2 else (Inr y, d2)) = (Inr z, d3)"
      using q y by (auto simp: build_qcow2_def split: prod.splits sum.splits)
    moreover have "z = x" using q y z by (auto simp: build_qcow2_def split: if_splits)
    moreover have "truthy_size bootSize \<Longrightarrow> qi_resize t (the bootSize) y = ToolOk z"
      using z by (auto simp: resizeQcow2_def dest: run_tool_ok split: prod.splits option.splits)
    moreover have "\<not> truthy_size bootSize \<Longrightarrow> z = y" using z by simp
    ultimately show ?thesis using False get build_qcow2_standalone [OF q] by auto
  qed
qed

lemma guest_put [simp]: "guest_at dir (put_disks dir d s) = (guest_at dir s)\<lparr>gd_disks := d\<rparr>"
  by (simp add: guest_at_def put_disks_def al.get_put)

text \<open>A machine's directory holds a factory boot disk, no key and no credentials.\<close>

definition factory_guest :: "life_env \<Rightarrow> machine_state \<Rightarrow> session \<Rightarrow> bool" where
  "factory_guest env m s \<longleftrightarrow> (let g = guest_at (ms_machineDir m) s in
     (\<exists>x. al_get (gd_disks g) (boot_disk_name (format_of m)) = Some x \<and> factory_boot env m x)
     \<and> (if format_of m = Qcow2 then al_get (gd_disks g) ''disk.img'' = None else True)
     \<and> \<not> gd_ssh g \<and> al_get (ss_creds s) (ms_name m) = None)"

lemma on_disks_Inr: "on_disks dir f s = (Inr u, s') \<Longrightarrow> \<exists>x d. f (gd_disks (guest_at dir s)) = (Inr x, d) \<and> s' = put_disks dir d s"
  by (auto simp: on_disks_def split: prod.splits sum.splits)

lemma create_frame: "createQcow2Disk t f sz d = (x, d') \<Longrightarrow> g \<noteq> f \<Longrightarrow> al_get d' g = al_get d g"
  by (auto simp: createQcow2Disk_def dest: run_tool_other [where g = g] split: if_splits prod.splits option.splits)

lemma ensure_extra_frame:
  "ensure_extra t booted i szs d = (r, d') \<Longrightarrow> (\<And>j. g \<noteq> extra_disk_name j) \<Longrightarrow> al_get d' g = al_get d g"
proof (induction szs arbitrary: i d r d')
  case (Cons sz szs)
  obtain x d1 where 1: "(if al_get d (extra_disk_name i) \<noteq> None then (None, d)
      else if booted then (Some missingDiskError, d) else createQcow2Disk t (extra_disk_name i) sz d) = (x, d1)"
    by (metis surjective_pairing)
  have g: "al_get d1 g = al_get d g"
    using 1 create_frame [OF _ Cons.prems(2)] by (auto split: if_splits)
  obtain y d2 where 2: "ensure_extra t booted (Suc i) szs d1 = (y, d2)" by (metis surjective_pairing)
  have "al_get d2 g = al_get d1 g" using Cons.IH [OF 2 Cons.prems(2)] .
  then show ?case
    using Cons.prems(1) g unfolding ensure_extra.simps 1 prod.case 2 by (auto split: option.splits sum.splits)
qed simp

lemma ensure_keeps_boot:
  assumes "ensureConfiguredDisks t booted factory bootSize extras fmt d = (r, d')" and "al_get d (boot_disk_name fmt) \<noteq> None"
  shows "al_get d' (boot_disk_name g) = al_get d (boot_disk_name g)"
proof -
  have "ensure_boot t booted factory bootSize fmt d = (Inr (boot_disk_name fmt, fmt), d)" using assms(2) by (simp add: ensure_boot_def)
  then show ?thesis
    using assms(1) ensure_extra_frame [of t booted 0 "the extras" d _ _ "boot_disk_name g"]
    by (auto simp: ensureConfiguredDisks_def split: if_splits prod.splits sum.splits)
qed

lemma then_do_Inr_iff: "then_do f g s = (Inr u, s') \<longleftrightarrow> (\<exists>s1. f s = (Inr (), s1) \<and> g s1 = (Inr u, s'))"
  by (cases "f s") (auto simp: then_do_run split: sum.split)

lemma reset_result:
  assumes "resetGuestToFactory env m s = (Inr u, s')"
  shows "factory_guest env m s'"
proof -
  let ?dir = "ms_machineDir m" and ?fmt = "format_of m"
  obtain img where img: "le_cached env (cached_image_name m) = Some img"
    using assms by (cases "le_cached env (cached_image_name m)") (auto simp: resetGuestToFactory_def throw_def)
  obtain s1 s2 s3 s4 s5 where 
      2: "on_disks ?dir (writeBootDisk (le_tools env) img ?fmt (mo_bootSize m)) s1 = (Inr (), s2)" and
      3: "(if ?fmt = Qcow2 then rm_disk env ?dir ''disk.img'' else ret ()) s2 = (Inr (), s3)" and
      4: "on_disks ?dir (ensureConfiguredDisks (le_tools env) False (Inr None) (mo_bootSize m) (mo_extraDisks m) ?fmt) s3 = (Inr (), s4)" and
      5: "deleteInstanceCredentials (ms_name m) s4 = (Inr (), s5)" and
      6: "rm_ssh env ?dir s5 = (Inr u, s')"
    using assms unfolding resetGuestToFactory_def img option.case Let_def then_do_Inr_iff by blast
  obtain p d2 where d2: "writeBootDisk (le_tools env) img ?fmt (mo_bootSize m) (gd_disks (guest_at ?dir s1)) = (Inr p, d2)"
      "s2 = put_disks ?dir d2 s1"
    using on_disks_Inr [OF 2] by blast
  define d3 where "d3 = (if ?fmt = Qcow2 then al_del ''disk.img'' d2 else d2)"
  have g3: "gd_disks (guest_at ?dir s3) = d3"
    using 3 by (auto simp: rm_disk_def ret_def d2(2) d3_def split: if_splits)
  obtain q d4 where d4: "ensureConfiguredDisks (le_tools env) False (Inr None) (mo_bootSize m) (mo_extraDisks m) ?fmt d3 = (q, d4)"
      "s4 = put_disks ?dir d4 s3"
    using on_disks_Inr [OF 4] g3 by blast
  obtain x where x: "al_get d2 (boot_disk_name ?fmt) = Some x" "factory_boot env m x"
    using write_boot_factory [OF d2(1)] img by (auto simp: factory_boot_def)
  have names: "boot_disk_name Raw = ''disk.img''" "boot_disk_name Qcow2 \<noteq> ''disk.img''" by (simp_all add: boot_disk_name_def)
  have x3: "al_get d3 (boot_disk_name ?fmt) = Some x" using x(1) names by (cases ?fmt) (simp_all add: d3_def al.get_del_iff)
  note keep = ensure_keeps_boot [OF d4(1)]
  have "al_get d4 (boot_disk_name ?fmt) = Some x" using keep [of ?fmt] x3 by simp
  moreover have "al_get d4 ''disk.img'' = None" if "?fmt = Qcow2"
    using keep [of Raw] x3 that names by (simp add: d3_def al.get_del_iff)
  moreover have "gd_disks (guest_at ?dir s') = d4 \<and> \<not> gd_ssh (guest_at ?dir s') \<and> al_get (ss_creds s') (ms_name m) = None"
    using 5 6 by (auto simp: rm_ssh_def deleteInstanceCredentials_def guest_at_def d4(2) put_disks_def al.get_put al.get_del split: if_splits)
  ultimately show ?thesis using x(2) by (auto simp: factory_guest_def Let_def)
qed

section \<open>The operations\<close>

lemma guest_frame:
  assumes "only_guest s s'"
  shows "sound s' = sound s" "agrees s' = agrees s" "own_name s' = own_name s" "spares n s0 s' = spares n s0 s"
  using assms by (simp_all add: only_guest_def sound_def agrees_def own_name_def spares_def)

text \<open>Stopping a machine that runs, then leaving its links.\<close>

lemma off_duty_result:
  assumes "sound s" "agrees s"
  shows "case then_do (stop_running env) (leave_links env) s of
      (Inl e, s') \<Rightarrow> (\<exists>k. s' = s\<lparr>ss_kill := k\<rparr>)
    | (Inr _, s') \<Rightarrow> \<exists>k r. s' = s\<lparr>ss_kill := k, ss_reg := r\<rparr> \<and> sound s' \<and> agrees s' \<and> spares (own_name s) s s'
        \<and> off_links (own_name s) (getSocketNamedNetworks (ss_handle s)) r"
proof -
  obtain a k where 1: "stop_running env s = (a, s\<lparr>ss_kill := k\<rparr>)" using stop_running_frame by blast
  show ?thesis
  proof (cases a)
    case (Inl e)
    then show ?thesis using 1 by (auto simp: then_do_run)
  next
    case (Inr u)
    obtain r where r: "leave_links env (s\<lparr>ss_kill := k\<rparr>) = (Inr (), s\<lparr>ss_kill := k, ss_reg := r\<rparr>)"
        "sound (s\<lparr>ss_kill := k, ss_reg := r\<rparr>)" "others_kept (own_name s) (ss_reg s) r"
        "off_links (own_name s) (getSocketNamedNetworks (ss_handle s)) r"
      using leave_links_result [of "s\<lparr>ss_kill := k\<rparr>" env] assms(1) by auto
    then show ?thesis using 1 Inr assms(2) by (auto simp: then_do_run agrees_def spares_def own_name_def)
  qed
qed

lemma then_do_assoc: "then_do f (then_do g h) = then_do (then_do f g) h"
  by (rule ext) (auto simp: then_do_run split: prod.splits sum.splits)

lemma clean_under_lock:
  assumes "sound s" "agrees s"
  shows "case cleanUnderLock env s of
      (Inl e, s') \<Rightarrow> ss_data s' = ss_data s \<and> ss_handle s' = ss_handle s \<and> spares (own_name s) s s'
    | (Inr _, s') \<Rightarrow> at_rest s' \<and> spares (own_name s) s s' \<and> ss_handle s' = mark_cleaned (le_now env) (ss_handle s)
        \<and> factory_guest env (ss_handle s) s'"
proof -
  let ?wipe = "\<lambda>s. then_do (resetGuestToFactory env (ss_handle s)) (dual_write (mark_cleaned (le_now env))) s"
  have run: "cleanUnderLock env s = then_do (then_do (stop_running env) (leave_links env)) ?wipe s"
    by (simp add: cleanUnderLock_def then_do_assoc)
  obtain a s1 where 1: "then_do (stop_running env) (leave_links env) s = (a, s1)" by fastforce
  note off = off_duty_result [OF assms, of env, unfolded 1 prod.case]
  show ?thesis
  proof (cases a)
    case (Inl e)
    then show ?thesis using off 1 unfolding run by (auto simp: then_do_run [of "then_do (stop_running env) (leave_links env)"])
  next
    case (Inr u)
    then obtain k r where s1: "s1 = s\<lparr>ss_kill := k, ss_reg := r\<rparr>" "sound s1" "agrees s1" "spares (own_name s) s s1"
        "off_links (own_name s) (getSocketNamedNetworks (ss_handle s)) r"
      using off by auto
    have eq: "cleanUnderLock env s = ?wipe s1"
      unfolding run using 1 Inr by (simp add: then_do_run [of "then_do (stop_running env) (leave_links env)"])
    obtain b s2 where 2: "resetGuestToFactory env (ss_handle s) s1 = (b, s2)" by fastforce
    have g: "only_guest s1 s2" using reset_only_guest [of s1 env "ss_handle s"] 2 by simp
    note f = guest_frame [OF g]
    show ?thesis
    proof (cases b)
      case (Inl e)
      then show ?thesis
        using 2 g s1 f(4) [of "own_name s" s] unfolding eq
        by (simp add: then_do_run [of "resetGuestToFactory env (ss_handle s)"] only_guest_def)
    next
      case (Inr u')
      have fg: "factory_guest env (ss_handle s) s2" using reset_result 2 Inr by blast
      have "off_links (own_name s2) (getSocketNamedNetworks (ss_handle s2)) (ss_reg s2)"
        using s1 g by (simp add: only_guest_def own_name_def)
      moreover have "sound s2" "agrees s2" using f s1 by simp_all
      ultimately obtain s3 where s3: "dual_write (mark_cleaned (le_now env)) s2 = (Inr (), s3)" "at_rest s3"
          "spares (own_name s2) s2 s3" "ss_handle s3 = mark_cleaned (le_now env) (ss_handle s2)"
          "ss_creds s3 = ss_creds s2" "ss_guests s3 = ss_guests s2"
        using rest_write [of s2 "mark_cleaned (le_now env)"] by (auto simp: mark_cleaned_def)
      have "factory_guest env (ss_handle s) s3" using fg s3(5,6) by (simp add: factory_guest_def guest_at_def)
      moreover have "own_name s2 = own_name s" "ss_handle s2 = ss_handle s" using s1 g by (simp_all add: only_guest_def own_name_def)
      moreover have "spares (own_name s) s s3"
        using s3(3) f(4) [of "own_name s" s] s1(4) calculation(2) spares_trans by metis
      ultimately show ?thesis
        using 2 Inr s1(1) s3 unfolding eq by (simp add: then_do_run [of "resetGuestToFactory env (ss_handle s)"])
    qed
  qed
qed

lemma remove_state_result:
  assumes "agrees s"
  shows "case removeState env (own_name s) s of
      (Inl e, s') \<Rightarrow> ss_handle s' = ss_handle s \<and> ss_reg s' = ss_reg s \<and> (\<forall>k. loadMachine (ss_data s') k = loadMachine (ss_data s) k)
    | (Inr _, s') \<Rightarrow> al_get (dd_machines (ss_data s')) (own_name s) = None \<and> ss_reg s' = ss_reg s \<and> ss_creds s' = ss_creds s
        \<and> (\<forall>k. k \<noteq> own_name s \<longrightarrow> loadMachine (ss_data s') k = loadMachine (ss_data s) k)"
proof -
  let ?r = "removeMachine (he_platform (le_host env)) (ss_kill s) (le_self env) (le_uuid env) (le_rmFails env) (le_renameFails env)
      (own_name s) (ss_data s)"
  obtain a d where ad: "?r = (a, d)" by fastforce
  have "case a of Inl e \<Rightarrow> dd_machines d = dd_machines (ss_data s)
      | Inr _ \<Rightarrow> dd_machines d = al_del (own_name s) (dd_machines (ss_data s))"
    using ad by (auto simp: removeMachine_def Let_def state_error_def split: sum.splits if_splits option.splits)
  then show ?thesis
    using ad load_depends [of d _ "ss_data s"]
    by (auto simp: removeState_def al.get_del al.get_del_iff split: sum.splits)
qed

lemma remove_under_lock:
  assumes "sound s" "agrees s"
  shows "case removeUnderLock env s of
      (Inl e, s') \<Rightarrow> (\<forall>k. loadMachine (ss_data s') k = loadMachine (ss_data s) k) \<and> ss_handle s' = ss_handle s
        \<and> others_kept (own_name s) (ss_reg s) (ss_reg s')
    | (Inr _, s') \<Rightarrow> al_get (dd_machines (ss_data s')) (own_name s) = None \<and> al_get (ss_creds s') (own_name s) = None
        \<and> spares (own_name s) s s' \<and> off_links (own_name s) (getSocketNamedNetworks (ss_handle s)) (ss_reg s')"
proof -
  let ?drop = "\<lambda>s. then_do (deleteInstanceCredentials (own_name s)) (removeState env (own_name s)) s"
  have run: "removeUnderLock env s = then_do (then_do (stop_running env) (leave_links env)) ?drop s"
    by (simp add: removeUnderLock_def then_do_assoc)
  obtain a s1 where 1: "then_do (stop_running env) (leave_links env) s = (a, s1)" by fastforce
  note off = off_duty_result [OF assms, of env, unfolded 1 prod.case]
  show ?thesis
  proof (cases a)
    case (Inl e)
    then show ?thesis using off 1 unfolding run by (auto simp: then_do_run [of "then_do (stop_running env) (leave_links env)"])
  next
    case (Inr u)
    then obtain k r where s1: "s1 = s\<lparr>ss_kill := k, ss_reg := r\<rparr>" "sound s1" "agrees s1" "spares (own_name s) s s1"
        "off_links (own_name s) (getSocketNamedNetworks (ss_handle s)) r"
      using off by auto
    define s2 where "s2 = s1\<lparr>ss_creds := al_del (own_name s) (ss_creds s1)\<rparr>"
    have n: "own_name s2 = own_name s" "agrees s2" "own_name s1 = own_name s" using s1 by (simp_all add: s2_def own_name_def agrees_def)
    have eq: "removeUnderLock env s = removeState env (own_name s2) s2"
      unfolding run using 1 Inr n
      by (simp add: then_do_run [of "then_do (stop_running env) (leave_links env)"] then_do_run [of "deleteInstanceCredentials (own_name s)"]
          deleteInstanceCredentials_def s2_def)
    have "ss_data s2 = ss_data s" "ss_reg s2 = r" "ss_handle s2 = ss_handle s" "al_get (ss_creds s2) (own_name s) = None"
      using s1(1) by (simp_all add: s2_def al.get_del)
    moreover have "others_kept (own_name s) (ss_reg s) r" using s1(1,4) by (simp add: spares_def)
    ultimately show ?thesis
      using remove_state_result [OF n(2), of env] s1(5) unfolding eq n(1)
      by (cases "removeState env (own_name s) s2") (auto simp: spares_def split: sum.splits)
  qed
qed

lemma restore_result:
  assumes "sound s" "agrees s" "ms_name m = own_name s"
  shows "case restore_machine env m s of
      (Inl e, s') \<Rightarrow> spares (own_name s) s s' \<and> ss_reg s' = ss_reg s \<and> loadMachine (ss_data s') (own_name s) \<noteq> Inr None
    | (Inr _, s') \<Rightarrow> spares (own_name s) s s' \<and> ss_reg s' = ss_reg s \<and> agrees s'
        \<and> ss_handle s' = m\<lparr>ms_status := Stopped, mo_pid := None\<rparr> \<and> factory_guest env m s'"
proof -
  obtain a s1 where 1: "resetGuestToFactory env m s = (a, s1)" by fastforce
  have g: "only_guest s s1" using reset_only_guest [of s env m] 1 by simp
  note f = guest_frame [OF g]
  have sp: "spares (own_name s) s s1" using f(4) [of "own_name s" s] by simp
  have l: "loadMachine (ss_data s1) (own_name s) = Inr (Some (ss_handle s))"
    using assms(2) g by (simp add: only_guest_def agrees_def)
  show ?thesis
  proof (cases a)
    case (Inl e)
    then show ?thesis using 1 sp l g by (simp add: restore_machine_def then_do_run [of "resetGuestToFactory env m"] only_guest_def)
  next
    case (Inr u)
    let ?m = "m\<lparr>ms_status := Stopped, mo_pid := None\<rparr>"
    have "loaded_state (ss_data s1) (ms_name ?m) \<noteq> None" using l loaded_load assms(3) by auto
    then obtain d where d: "save_state ?m s1 = (Inr (), s1\<lparr>ss_data := d\<rparr>)" "sound (s1\<lparr>ss_data := d\<rparr>)"
        "loadMachine d (ms_name ?m) = Inr (Some ?m)" "\<forall>n. n \<noteq> ms_name ?m \<longrightarrow> loadMachine d n = loadMachine (ss_data s1) n"
      using save_in_session [of s1 ?m] f(1) assms(1) by auto
    have "factory_guest env m (s1\<lparr>ss_data := d, ss_handle := ?m\<rparr>)"
      using reset_result [of env m s u s1] 1 Inr by (simp add: factory_guest_def guest_at_def)
    moreover have "ms_name (ss_handle s1) = ms_name m" using g assms(3) by (simp add: only_guest_def own_name_def)
    ultimately show ?thesis
      using 1 Inr d sp g assms(3)
      by (simp add: restore_machine_def then_do_run refreshMachineState_def own_name_def agrees_def spares_def only_guest_def)
  qed
qed

lemma wait_exit_le: "wait_exit running n i \<le> Suc (i + n)"
proof (induction n arbitrary: i)
  case (Suc n)
  then show ?case using Suc [of "Suc i"] by simp
qed simp

lemma shutdown_guest_result:
  "case shutdownGuest sd timeoutMs of (res, forced) \<Rightarrow>
     (case res of
        Inl e \<Rightarrow> forced \<and> (\<exists>t. e = still_running t)
      | Inr AlreadyStopped \<Rightarrow> False
      | Inr (GuestExited err) \<Rightarrow> \<not> forced \<and> err = sd_requestError sd \<and> (\<exists>i. i < sd_pauses sd timeoutMs + 3 \<and> \<not> sd_running sd i)
      | Inr (Forced err) \<Rightarrow> forced \<and> err = sd_requestError sd \<and> (\<exists>i. \<not> sd_running sd i))"
proof -
  let ?i = "wait_exit (sd_running sd) (sd_pauses sd timeoutMs) 0"
  have b: "?i < sd_pauses sd timeoutMs + 3" "Suc ?i < sd_pauses sd timeoutMs + 3" using wait_exit_le [of "sd_running sd" "sd_pauses sd timeoutMs" 0] by simp_all
  show ?thesis
  proof (cases "sd_running sd ?i \<and> sd_running sd (Suc ?i)")
    case True
    then show ?thesis by (auto simp: shutdownGuest_def Let_def)
  next
    case False
    then have "\<exists>i. i < sd_pauses sd timeoutMs + 3 \<and> \<not> sd_running sd i" using b by blast
    moreover have "shutdownGuest sd timeoutMs = (Inr (GuestExited (sd_requestError sd)), False)"
      using False by (simp add: shutdownGuest_def Let_def)
    ultimately show ?thesis by simp
  qed
qed


text \<open>A data directory with the one machine, which claims to run.\<close>

definition demo_life :: life_env where
  "demo_life = \<lparr>le_host = demo_env, le_hostIsArm64 = False, le_cached = (\<lambda>_. None),
     le_tools = \<lparr>qi_present = False, qi_create = (\<lambda>_ _. ToolFails None []), qi_convert = (\<lambda>_. ToolFails None []),
       qi_resize = (\<lambda>_ _. ToolFails None []), qi_info_fails = (\<lambda>_. True), fs_copy = ToolOk, fs_rename_fails = False\<rparr>,
     le_unlinkFails = (\<lambda>_. False), le_rmFails = (\<lambda>_. False), le_renameFails = (\<lambda>_. True), le_self = 7, le_uuid = ''u'',
     le_now = ''2026-01-03'', le_stop = (\<lambda>_. ExitsBefore 3), le_lock = (\<lambda>_. None), le_preserve = False\<rparr>"

definition demo_session :: session where
  "demo_session = \<lparr>ss_handle = demo_state, ss_data = demo_dir, ss_reg = \<lparr>rg_cache = [], rg_disk = [], rg_socks = []\<rparr>,
     ss_creds = [(''lab'', ''admin'', ''x'')], ss_guests = [], ss_kill = (\<lambda>_. KillOk)\<rparr>"

definition demo_shutdown :: shutdown_env where
  "demo_shutdown = \<lparr>sd_running = (\<lambda>i. i < 2), sd_pauses = (\<lambda>_. 5), sd_killPauses = 3, sd_requestError = None,
     sd_forceError = None\<rparr>"

lemma demo_sound: "sound demo_session" "agrees demo_session"
proof -
  have l: "loadMachine demo_dir ''lab'' = Inr (Some demo_state)" "loadMachine demo_dir ''bad'' = state_error ''unreadable machine.json''"
    "loadMachine demo_dir ''new'' = Inr None"
    using load_written [of demo_dir "''lab''" demo_state]
    by (simp_all add: demo_dir_def al_get_def loadMachine_def machine_json_def)
  then have "own_names demo_dir"
    by (simp add: own_names_def listMachineNames_def loaded_state_def tryLoadMachine_def state_error_def)
      (simp add: demo_dir_def is_directory_def demo_state_def)
  then show "sound demo_session" by (simp add: sound_def demo_session_def)
  show "agrees demo_session" using l by (simp add: agrees_def demo_session_def own_name_def) (simp add: demo_state_def)
qed


text \<open>C17: a clean either throws and leaves \<open>machine.json\<close> as it was (also when QEMU has
  already been stopped), or it puts a factory boot disk in place and drops the key and the stored
  credentials, and the record follows: every fact about the erased guest is gone, the provisioning
  window is open, nothing counts as applied, and what was asked for (packages, device-mode, managed
  login) is kept. The machine is at rest and the others are untouched.\<close>

theorem clean_reopens:
  assumes "sound s"
  shows "case clean env s of
      (Inl _, s') \<Rightarrow> ss_data s' = ss_data s \<and> spares (own_name s) s s'
    | (Inr _, s') \<Rightarrow> (case loadMachine (ss_data s) (own_name s) of
          Inr (Some m) \<Rightarrow> at_rest s' \<and> spares (own_name s) s s' \<and> factory_guest env m s'
            \<and> loadMachine (ss_data s') (own_name s) = Inr (Some (ss_handle s'))
            \<and> isProvisioningWindowOpen (ss_handle s') \<and> applied_steps (ss_handle s') = []
            \<and> mo_user (ss_handle s') = None \<and> mo_managedSshKey (ss_handle s') = None \<and> mo_disableAdmin (ss_handle s') = None
            \<and> mo_licenseLevel (ss_handle s') = None \<and> mo_cleanedAt (ss_handle s') = Some (le_now env)
            \<and> ms_packages (ss_handle s') = ms_packages m \<and> mo_installAllPackages (ss_handle s') = mo_installAllPackages m
            \<and> mo_deviceMode (ss_handle s') = mo_deviceMode m \<and> mo_secureLogin (ss_handle s') = mo_secureLogin m
        | _ \<Rightarrow> False)"
  using with_lock_cases [of env "cleanUnderLock env" s]
proof (elim disjE exE conjE)
  fix m assume m: "loadMachine (ss_data s) (own_name s) = Inr (Some m)"
    and run: "withMachineLock env (cleanUnderLock env) s = cleanUnderLock env (s\<lparr>ss_handle := m\<rparr>)"
  have l: "sound (s\<lparr>ss_handle := m\<rparr>)" "agrees (s\<lparr>ss_handle := m\<rparr>)" "own_name (s\<lparr>ss_handle := m\<rparr>) = own_name s"
    "spares n (s\<lparr>ss_handle := m\<rparr>) = spares n s" for n
    using with_lock_agrees [OF assms m] by (simp_all add: own_name_def spares_def fun_eq_iff)
  obtain r s' where c: "cleanUnderLock env (s\<lparr>ss_handle := m\<rparr>) = (r, s')" by fastforce
  note k = clean_under_lock [OF l(1,2), of env, unfolded c l(3,4) prod.case]
  show ?thesis
  proof (cases r)
    case (Inl e)
    then show ?thesis using k unfolding clean_def run c by simp
  next
    case (Inr u)
    then have k: "at_rest s'" "spares (own_name s) s s'" "ss_handle s' = mark_cleaned (le_now env) m" "factory_guest env m s'" using k by auto
    have "ms_name m = own_name s" using with_lock_agrees(3) [OF assms m] .
    then have "own_name s' = own_name s" by (simp add: own_name_def k(3) mark_cleaned_def)
    then have "loadMachine (ss_data s') (own_name s) = Inr (Some (ss_handle s'))" using k(1) by (simp add: at_rest_def agrees_def)
    then show ?thesis
      using k Inr m unfolding clean_def run c
      by (simp add: mark_cleaned_def isProvisioningWindowOpen_def given_text_def applied_steps_def)
  qed
qed (simp add: clean_def)

definition demo_image :: disk_image where
  "demo_image = \<lparr>di_format = ''raw'', di_backing = None, di_content = ''factory''\<rparr>"

definition demo_cached :: life_env where
  "demo_cached = demo_life\<lparr>le_cached := (\<lambda>f. if f = ''chr-7.20.8.img'' then Some demo_image else None)\<rparr>"

theorem clean_reopens_witness:
  "case clean demo_cached demo_session of
      (Inl _, s') \<Rightarrow> ss_data s' = ss_data demo_session \<and> spares (own_name demo_session) demo_session s'
    | (Inr _, s') \<Rightarrow> (case loadMachine (ss_data demo_session) (own_name demo_session) of
          Inr (Some m) \<Rightarrow> at_rest s' \<and> spares (own_name demo_session) demo_session s' \<and> factory_guest demo_cached m s'
            \<and> loadMachine (ss_data s') (own_name demo_session) = Inr (Some (ss_handle s'))
            \<and> isProvisioningWindowOpen (ss_handle s') \<and> applied_steps (ss_handle s') = []
            \<and> mo_user (ss_handle s') = None \<and> mo_managedSshKey (ss_handle s') = None \<and> mo_disableAdmin (ss_handle s') = None
            \<and> mo_licenseLevel (ss_handle s') = None \<and> mo_cleanedAt (ss_handle s') = Some (le_now demo_cached)
            \<and> ms_packages (ss_handle s') = ms_packages m \<and> mo_installAllPackages (ss_handle s') = mo_installAllPackages m
            \<and> mo_deviceMode (ss_handle s') = mo_deviceMode m \<and> mo_secureLogin (ss_handle s') = mo_secureLogin m
        | _ \<Rightarrow> False)"
  using clean_reopens [OF demo_sound(1)] .


text \<open>A machine on two links, the second of which is full.\<close>

definition full_link :: registry where
  "full_link = saveEntry \<lparr>se_name = ''l2'', se_mode = Dgram, se_mcastGroup = None, se_port = None, se_createdAt = ''t'',
     se_members = [''a'', ''b''], se_endpoints = Some [Some ''a'', Some ''b''], se_autoCreated = True\<rparr>
     \<lparr>rg_cache = [], rg_disk = [], rg_socks = []\<rparr>"

definition two_links :: machine_state where
  "two_links = demo_state\<lparr>ms_networks := [mk_config 0 (NamedSocket ''l1''), mk_config 1 (NamedSocket ''l2'')]\<rparr>"

lemma full_link_ok: "wf_disk (rg_disk full_link)"
  by code_simp


section \<open>After a failure\<close>

definition record_to_restore :: "machine_state \<Rightarrow> machine_state" where
  "record_to_restore m = m\<lparr>ms_status := Stopped, mo_pid := None\<rparr>"

text \<open>What each outcome promises.\<close>

definition outcome_holds :: "life_env \<Rightarrow> machine_state option \<Rightarrow> session \<Rightarrow> cleanup_outcome \<Rightarrow> session \<Rightarrow> bool" where
  "outcome_holds env restore s out s' \<longleftrightarrow>
     (case out of
        StopFailed \<Rightarrow> ss_data s' = ss_data s \<and> ss_reg s' = ss_reg s \<and> ss_guests s' = ss_guests s
      | Preserved \<Rightarrow> at_rest s' \<and> ss_guests s' = ss_guests s
      | PreservedForDiagnosis \<Rightarrow> at_rest s' \<and> ss_guests s' = ss_guests s
      | WasReset \<Rightarrow> (case restore of None \<Rightarrow> False
          | Some m \<Rightarrow> agrees s' \<and> ss_handle s' = record_to_restore m \<and> factory_guest env m s'
              \<and> off_links (own_name s) (getSocketNamedNetworks (ss_handle s)) (ss_reg s'))
      | ResetFailed \<Rightarrow> loadMachine (ss_data s') (own_name s) \<noteq> Inr None
      | Removed \<Rightarrow> restore = None \<and> al_get (dd_machines (ss_data s')) (own_name s) = None
          \<and> al_get (ss_creds s') (own_name s) = None
          \<and> off_links (own_name s) (getSocketNamedNetworks (ss_handle s)) (ss_reg s'))"

lemma rested:
  assumes "at_rest s1" "ss_handle s1 = mark_stopped (ss_handle s)"
  shows "own_name s1 = own_name s" "getSocketNamedNetworks (ss_handle s1) = getSocketNamedNetworks (ss_handle s)"
    "agrees s1" "off_links (own_name s) (getSocketNamedNetworks (ss_handle s)) (ss_reg s1)"
proof -
  show 1: "own_name s1 = own_name s" "getSocketNamedNetworks (ss_handle s1) = getSocketNamedNetworks (ss_handle s)"
    using assms(2) by (simp_all add: own_name_def mark_stopped_def getSocketNamedNetworks_def)
  show "agrees s1" "off_links (own_name s) (getSocketNamedNetworks (ss_handle s)) (ss_reg s1)"
    using assms(1) 1 by (simp_all add: at_rest_def)
qed

lemma restore_outcome:
  assumes "sound s1" "at_rest s1" "ss_handle s1 = mark_stopped (ss_handle s)" "spares (own_name s) s s1" "ms_name m = own_name s"
  shows "case restore_machine env m s1 of (r, s2) \<Rightarrow>
    outcome_holds env (Some m) s (case r of Inl _ \<Rightarrow> ResetFailed | Inr _ \<Rightarrow> WasReset) s2 \<and> spares (own_name s) s s2"
proof -
  note n = rested [OF assms(2,3)]
  have "ms_name m = own_name s1" using assms(5) n(1) by simp
  from restore_result [OF assms(1) n(3) this, of env] show ?thesis
    using spares_trans [OF assms(4)] n(1,4)
    by (auto simp: outcome_holds_def record_to_restore_def split: prod.splits sum.splits)
qed

lemma remove_outcome:
  assumes "sound s1" "at_rest s1" "ss_handle s1 = mark_stopped (ss_handle s)" "spares (own_name s) s s1"
  shows "case removeUnderLock env s1 of (r, s2) \<Rightarrow>
    outcome_holds env None s (case r of Inl _ \<Rightarrow> ResetFailed | Inr _ \<Rightarrow> Removed) s2 \<and> spares (own_name s) s s2"
proof -
  note n = rested [OF assms(2,3)]
  have l: "loadMachine (ss_data s1) (own_name s) = Inr (Some (ss_handle s1))" using n(1,3) by (simp add: agrees_def)
  have sp: "spares (own_name s) s1 s2" if "\<forall>k. loadMachine (ss_data s2) k = loadMachine (ss_data s1) k"
      "others_kept (own_name s) (ss_reg s1) (ss_reg s2)" for s2
    using that by (simp add: spares_def)
  show ?thesis
    using remove_under_lock [OF assms(1) n(3), of env] spares_trans [OF assms(4)] sp l n(1,2)
    by (auto simp: outcome_holds_def split: prod.splits sum.splits)
qed

text \<open>A run in which stopping works and moving the directory aside never does.\<close>

lemma stuck_remove:
  assumes "le_renameFails env = (\<lambda>_. True)"
  shows "\<exists>e s'. removeUnderLock env s = (Inl e, s')"
proof -
  have "rename_loop (\<lambda>_. True) 1 = None" by code_simp
  then have stuck: "\<exists>e s'. removeState env n s1 = (Inl e, s')" for n s1
    by (auto simp: removeState_def removeMachine_def assms Let_def state_error_def split: sum.splits prod.splits if_splits)
  have "\<nexists>u s'. removeUnderLock env s = (Inr u, s')"
    unfolding removeUnderLock_def then_do_Inr_iff using stuck by (metis prod.inject sum.distinct(1))
  then show ?thesis by (metis old.sum.exhaust surj_pair)
qed

lemma swallowed_removal:
  "case cleanupAfterBootFailure demo_life False RemoveNew demo_session of (out, s') \<Rightarrow>
        out = Removed \<and> \<not> outcome_holds demo_life None demo_session out s' \<and> loadMachine (ss_data s') ''lab'' \<noteq> Inr None"
proof -
  have n: "own_name demo_session = ''lab''" by (simp add: own_name_def demo_session_def demo_state_def)
  obtain a s1 where 1: "stopUnderLock demo_life demo_session = (a, s1)" by fastforce
  have "stop_pid demo_life demo_session = (Inr (), set_kill 41 KillGone demo_session)" "truthy_pid (ss_handle demo_session)"
    by (simp_all add: stop_pid_def bind_act_def stopQemu_def demo_session_def demo_state_def demo_life_def ret_def truthy_pid_def)
  then have "stopUnderLock demo_life demo_session = finalizeStoppedState demo_life (set_kill 41 KillGone demo_session)"
    by (simp add: stopUnderLock_def then_do_run)
  moreover have "sound (set_kill 41 KillGone demo_session)" "agrees (set_kill 41 KillGone demo_session)"
    using demo_sound by (simp_all add: set_kill_def)
  ultimately obtain u where a: "a = Inr u" using finalize_result [of "set_kill 41 KillGone demo_session" demo_life] 1 by auto
  have r: "at_rest s1" "sound s1" "ss_handle s1 = mark_stopped (ss_handle demo_session)"
    using stopUnderLock_result [OF demo_sound, of demo_life] 1 a by auto
  note k = rested [OF r(1,3)]
  obtain e s2 where 2: "removeUnderLock demo_life s1 = (Inl e, s2)" using stuck_remove [of demo_life s1] by (auto simp: demo_life_def)
  have "loadMachine (ss_data s2) ''lab'' = Inr (Some (ss_handle s1))"
    using remove_under_lock [OF r(2) k(3), of demo_life] 2 k(1,3) n by (simp add: agrees_def)
  moreover from this have "al_get (dd_machines (ss_data s2)) ''lab'' \<noteq> None" by (cases "al_get (dd_machines (ss_data s2)) ''lab''") (simp_all add: loadMachine_def machine_json_def)
  ultimately show ?thesis using 1 a 2 n by (simp add: cleanupAfterBootFailure_def outcome_holds_def)
qed



end
