(* ===== verification/Start_Checks.thy ===== *)
theory Start_Checks
  imports Lifecycle_Facts
begin

text \<open>
  What \<open>start\<close> decides before anything is launched (\<open>src/lib/quickchr.ts\<close>): the normalised options, the
  refusals, the release it names, and for a machine that exists whether its handle is
  returned or it is launched, with which provisioning. Messages keep the operation they name and drop
  the advice that follows.
\<close>

section \<open>Provisioning that is asked for\<close>

text \<open>The options of these functions are a request whose device-mode is replaced by the answer of
  \<open>shouldApplyDeviceMode\<close>, the first argument.\<close>

definition hasProvisioningMutations :: "bool \<Rightarrow> provisioning_request \<Rightarrow> bool" where
  "hasProvisioningMutations hasDeviceMode rq \<longleftrightarrow>
     rq_installAllPackages rq = Some True \<or> \<not> no_items (rq_packages rq) \<or> hasDeviceMode \<or> rq_user rq \<noteq> None
     \<or> rq_disableAdmin rq = Some True \<or> truthy_license (rq_license rq) \<or> rq_secureLogin rq = Some True"

definition PROVISIONING_FEATURE_LABEL :: string where
  "PROVISIONING_FEATURE_LABEL = ''post-boot provisioning''"

definition listProvisioningMutations :: "bool \<Rightarrow> provisioning_request \<Rightarrow> string list" where
  "listProvisioningMutations hasDeviceMode rq =
     (if rq_installAllPackages rq = Some True then [''install all packages'']
      else if \<not> no_items (rq_packages rq) then [''install extra packages''] else [])
     @ (if rq_user rq \<noteq> None then [''create a custom user'']
        else if rq_secureLogin rq = Some True then [''create a managed login''] else [])
     @ (if rq_disableAdmin rq = Some True then [''disable the default admin account''] else [])
     @ (if truthy_license (rq_license rq) then [''apply a license''] else [])
     @ (if hasDeviceMode then [''change device-mode''] else [])"

definition joinHumanList :: "string list \<Rightarrow> string" where
  "joinHumanList items =
     (case items of
        [] \<Rightarrow> []
      | [a] \<Rightarrow> a
      | [a, b] \<Rightarrow> a @ '' and '' @ b
      | _ \<Rightarrow> join '', '' (butlast items) @ '', and '' @ last items)"

definition describeProvisioningOperation :: "bool \<Rightarrow> provisioning_request \<Rightarrow> string" where
  "describeProvisioningOperation hasDeviceMode rq =
     (let operations = listProvisioningMutations hasDeviceMode rq in
      case operations of
        [] \<Rightarrow> ''use '' @ PROVISIONING_FEATURE_LABEL
      | [a] \<Rightarrow> a
      | _ \<Rightarrow> ''use '' @ PROVISIONING_FEATURE_LABEL @ '' ('' @ joinHumanList operations @ '')'')"

section \<open>Options of a start\<close>

text \<open>Those \<open>start\<close> reads for a machine that exists.\<close>

record launch_options =
  lo_name :: "string option"
  lo_version :: "string option"
  lo_request :: provisioning_request
  lo_noAuth :: "bool option"
  lo_wait :: "bool option"
  lo_background :: "bool option"
  lo_frozen :: "bool option"
  lo_qemuArgs :: "string list option"
  lo_networks :: "network_specifier list option"
  lo_network :: "network_mode option"

definition normalizeStartOptions :: "launch_options \<Rightarrow> launch_options" where
  "normalizeStartOptions opts =
     (if lo_noAuth opts = Some True \<and> rq_secureLogin (lo_request opts) = None
      then opts\<lparr>lo_request := (lo_request opts)\<lparr>rq_secureLogin := Some False\<rparr>\<rparr> else opts)"

record session_launch =
  sn_qemuArgs :: "string list option"
  sn_frozen :: bool

definition sessionLaunch :: "launch_options \<Rightarrow> session_launch option" where
  "sessionLaunch opts =
     (let args = (if no_items (lo_qemuArgs opts) then None else lo_qemuArgs opts); frozen = (lo_frozen opts = Some True) in
      if args \<noteq> None \<or> frozen then Some \<lparr>sn_qemuArgs = args, sn_frozen = frozen\<rparr> else None)"

definition named_source :: "string option \<Rightarrow> string \<Rightarrow> string" where
  "named_source machine operation =
     (case machine of
        Some n \<Rightarrow> ''machine '' @ [CHR 0x22] @ n @ [CHR 0x22] @ '' has first-boot provisioning recorded by 'add' ('' @ operation @ '')''
      | None \<Rightarrow> ''provisioning was requested ('' @ operation @ '')'')"

definition assertWaitAllowsProvisioning :: "launch_options \<Rightarrow> string \<Rightarrow> string option \<Rightarrow> unit result" where
  "assertWaitAllowsProvisioning opts operation machine =
     (if lo_wait opts \<noteq> Some False then Inr ()
      else Inl (QuickCHRError INVALID_ARGUMENT
        (''--no-wait (wait: false) cannot be combined with provisioning: '' @ named_source machine operation)))"

definition assertFrozenAllowsProvisioning :: "launch_options \<Rightarrow> string \<Rightarrow> string option \<Rightarrow> unit result" where
  "assertFrozenAllowsProvisioning opts operation machine =
     (if lo_frozen opts \<noteq> Some True then Inr ()
      else Inl (QuickCHRError INVALID_ARGUMENT
        (''--frozen (frozen: true) cannot be combined with provisioning: '' @ named_source machine operation)))"

text \<open>The guards at the top of \<open>start\<close>.\<close>

definition start_guards :: "launch_options \<Rightarrow> unit result" where
  "start_guards opts =
     (if (case lo_name opts of Some (c # _) \<Rightarrow> c = CHR ''-'' | _ \<Rightarrow> False)
      then Inl (QuickCHRError INVALID_NAME ''names cannot start with -'')
      else if lo_wait opts = Some False \<and> lo_background opts = Some False
      then Inl (QuickCHRError INVALID_ARGUMENT ''--no-wait (wait: false) cannot be combined with --fg (background: false)'')
      else if lo_frozen opts = Some True \<and> lo_background opts = Some False
      then Inl (QuickCHRError INVALID_ARGUMENT ''--frozen (frozen: true) cannot be combined with --fg (background: false)'')
      else Inr ())"

text \<open>The release of a start that names a machine which exists; \<open>resolve\<close> is \<open>resolveVersion\<close> of a channel.\<close>

definition start_version :: "(string \<Rightarrow> string result) \<Rightarrow> string option \<Rightarrow> machine_state \<Rightarrow> string result" where
  "start_version resolve version existing =
     (if truthy version then
        (if the version \<in> set (map channel_str CHANNELS) then resolve (the version)
         else if \<not> isValidVersion (the version) then Inl (QuickCHRError INVALID_VERSION ''Invalid version'')
         else Inr (the version))
      else Inr (ms_version existing))"

text \<open>The checks of a request that is there: first the release, then waiting, then the freeze.\<close>

definition assert_provisionable :: "launch_options \<Rightarrow> string \<Rightarrow> string option \<Rightarrow> bool \<Rightarrow> provisioning_request \<Rightarrow> unit result" where
  "assert_provisionable opts version machine hasDeviceMode rq =
     (let operation = describeProvisioningOperation hasDeviceMode rq in
      bind_result (assertProvisioningSupportedVersion version MIN_PROVISION_VERSION) (\<lambda>_.
      bind_result (assertWaitAllowsProvisioning opts operation machine) (\<lambda>_.
      assertFrozenAllowsProvisioning opts operation machine)))"

definition asks_device_mode :: "provisioning_request \<Rightarrow> bool" where
  "asks_device_mode rq \<longleftrightarrow> shouldApplyDeviceMode (resolveDeviceModeOptions (rq_deviceMode rq))"

section \<open>A machine that exists\<close>

text \<open>\<open>hasPending\<close> of \<open>start\<close> and \<open>wantsProvisioning\<close> of \<open>_launchExisting\<close>: here the device-mode counts
  when the option is there at all.\<close>

definition wantsProvisioning :: "provisioning_request \<Rightarrow> bool" where
  "wantsProvisioning rq \<longleftrightarrow>
     rq_installAllPackages rq = Some True \<or> \<not> no_items (rq_packages rq) \<or> rq_deviceMode rq \<noteq> None \<or> rq_user rq \<noteq> None
     \<or> rq_disableAdmin rq = Some True \<or> truthy_license (rq_license rq) \<or> rq_secureLogin rq = Some True"

datatype start_plan = ReturnHandle | Relaunch "provisioning_request option"

text \<open>\<open>host\<close> is \<open>requireHostFor\<close>.\<close>

definition plan_existing ::
    "secret_store \<Rightarrow> (nat \<Rightarrow> kill_result) \<Rightarrow> (arch \<Rightarrow> unit result) \<Rightarrow> launch_options \<Rightarrow> machine_state \<Rightarrow> start_plan result" where
  "plan_existing creds kill host opts existing =
     (let rq = lo_request opts in
      bind_result (if hasProvisioningRequest rq
                   then assertProvisioningSupportedVersion (ms_version existing) MIN_PROVISION_VERSION else Inr ()) (\<lambda>_.
      bind_result (assertProvisioningWindow creds existing rq) (\<lambda>_.
      if isMachineRunning kill existing then Inr ReturnHandle
      else
        (let pending = pendingProvisioningFor existing rq in
         if isProvisioningWindowOpen existing \<and> wantsProvisioning pending then
           bind_result (assert_provisionable opts (ms_version existing) (Some (ms_name existing)) (asks_device_mode pending) pending) (\<lambda>_.
           bind_result (host (ms_arch existing)) (\<lambda>_. Inr (Relaunch (Some pending))))
         else bind_result (host (ms_arch existing)) (\<lambda>_. Inr (Relaunch None))))))"

text \<open>From the normalised options on, for a name that is in the list of machines.\<close>

definition plan_start ::
    "secret_store \<Rightarrow> (nat \<Rightarrow> kill_result) \<Rightarrow> (arch \<Rightarrow> unit result) \<Rightarrow> (string \<Rightarrow> string result) \<Rightarrow> launch_options
       \<Rightarrow> machine_state \<Rightarrow> start_plan result" where
  "plan_start creds kill host resolve opts existing =
     (let rq = lo_request opts in
      bind_result (start_version resolve (lo_version opts) existing) (\<lambda>version.
      bind_result (if hasProvisioningMutations (asks_device_mode rq) rq
                   then assert_provisionable opts version None (asks_device_mode rq) rq else Inr ()) (\<lambda>_.
      plan_existing creds kill host opts existing)))"

section \<open>Nothing that was asked for is dropped\<close>

lemma asked_same: "hasProvisioningMutations (asks_device_mode rq) rq = hasProvisioningRequest rq"
  by (auto simp: hasProvisioningMutations_def hasProvisioningRequest_def asks_device_mode_def)

lemma provisionable_iff:
  "assert_provisionable opts v n dm rq = Inr u \<longleftrightarrow>
     assertProvisioningSupportedVersion v MIN_PROVISION_VERSION = Inr () \<and> lo_wait opts \<noteq> Some False \<and> lo_frozen opts \<noteq> Some True"
  by (auto simp: assert_provisionable_def Let_def assertWaitAllowsProvisioning_def assertFrozenAllowsProvisioning_def bind_result_def
      split: sum.split)

lemma pending_covers:
  "hasProvisioningRequest rq \<Longrightarrow> wantsProvisioning (pendingProvisioningFor m rq)"
  by (auto simp: hasProvisioningRequest_def wantsProvisioning_def pendingProvisioningFor_def or_else_def
      resolveDeviceModeOptions_def shouldApplyDeviceMode_def split: option.split)

lemma window_satisfied:
  "assertProvisioningWindow creds m rq = Inr asks \<Longrightarrow>
     (if isProvisioningWindowOpen m then asks = [] else asks = classifyProvisioningRequest creds m rq \<and> list_all ak_satisfied asks)"
  by (auto simp: assertProvisioningWindow_def Let_def split: if_splits)

text \<open>What a plan promises about the options that were given.\<close>

definition plan_honours :: "secret_store \<Rightarrow> launch_options \<Rightarrow> machine_state \<Rightarrow> start_plan \<Rightarrow> bool" where
  "plan_honours creds opts m plan \<longleftrightarrow>
     (let rq = lo_request opts in
      case plan of
        Relaunch (Some p) \<Rightarrow> isProvisioningWindowOpen m \<and> p = pendingProvisioningFor m rq
          \<and> assertProvisioningSupportedVersion (ms_version m) MIN_PROVISION_VERSION = Inr ()
          \<and> lo_wait opts \<noteq> Some False \<and> lo_frozen opts \<noteq> Some True
      | _ \<Rightarrow> if isProvisioningWindowOpen m then \<not> hasProvisioningRequest rq \<and> \<not> wantsProvisioning (pendingProvisioningFor m rq)
             else list_all ak_satisfied (classifyProvisioningRequest creds m rq))"

lemma plan_existing_cases:
  assumes "plan_existing creds kill host opts m = Inr plan"
  obtains asks where "assertProvisioningWindow creds m (lo_request opts) = Inr asks"
    "if isMachineRunning kill m then plan = ReturnHandle
     else host (ms_arch m) = Inr () \<and>
       (let p = pendingProvisioningFor m (lo_request opts) in
        if isProvisioningWindowOpen m \<and> wantsProvisioning p
        then plan = Relaunch (Some p) \<and> assertProvisioningSupportedVersion (ms_version m) MIN_PROVISION_VERSION = Inr ()
          \<and> lo_wait opts \<noteq> Some False \<and> lo_frozen opts \<noteq> Some True
        else plan = Relaunch None)"
  using assms provisionable_iff [of opts "ms_version m" "Some (ms_name m)" "asks_device_mode (pendingProvisioningFor m (lo_request opts))"
      "pendingProvisioningFor m (lo_request opts)"]
  by (auto simp: plan_existing_def Let_def bind_result_def split: sum.splits if_splits)

text \<open>A start of a machine that exists never drops a provisioning option in silence. When it launches the
  machine with provisioning, the first boot is still to come, exactly the options given over the recorded
  ones are applied, on a release that can be provisioned, waiting for the guest. In every other case nothing is
  pending, or each option was recognised as already applied. It assumes what every start
  writes: a machine that runs has been started at some time.\<close>

lemma start_drops_nothing:
  assumes "isMachineRunning kill m \<Longrightarrow> given_text (mo_lastStartedAt m)"
  shows "case plan_start creds kill host resolve opts m of
      Inl _ \<Rightarrow> True
    | Inr plan \<Rightarrow> plan_honours creds opts m plan
        \<and> (plan = ReturnHandle \<longleftrightarrow> isMachineRunning kill m)
        \<and> (if plan = ReturnHandle then True else host (ms_arch m) = Inr ())"
proof (cases "plan_start creds kill host resolve opts m")
  case (Inr plan)
  then have "plan_existing creds kill host opts m = Inr plan"
    by (auto simp: plan_start_def Let_def bind_result_def split: sum.splits if_splits)
  from plan_existing_cases [OF this] obtain asks where
    a: "assertProvisioningWindow creds m (lo_request opts) = Inr asks" and
    b: "if isMachineRunning kill m then plan = ReturnHandle
     else host (ms_arch m) = Inr () \<and>
       (let p = pendingProvisioningFor m (lo_request opts) in
        if isProvisioningWindowOpen m \<and> wantsProvisioning p
        then plan = Relaunch (Some p) \<and> assertProvisioningSupportedVersion (ms_version m) MIN_PROVISION_VERSION = Inr ()
          \<and> lo_wait opts \<noteq> Some False \<and> lo_frozen opts \<noteq> Some True
        else plan = Relaunch None)" by blast
  have "isProvisioningWindowOpen m \<Longrightarrow> \<not> isMachineRunning kill m"
    using assms by (auto simp: isProvisioningWindowOpen_def)
  then show ?thesis
    using b window_satisfied [OF a] pending_covers [of "lo_request opts" m]
    by (auto simp: Inr plan_honours_def Let_def split: if_splits)
qed simp

definition demo_ask :: provisioning_request where
  "demo_ask = \<lparr>rq_installAllPackages = None, rq_packages = Some [''container''], rq_deviceMode = None, rq_user = None,
     rq_disableAdmin = None, rq_license = None, rq_secureLogin = None\<rparr>"

definition demo_launch :: launch_options where
  "demo_launch = \<lparr>lo_name = Some ''lab'', lo_version = None, lo_request = demo_ask, lo_noAuth = None, lo_wait = None,
     lo_background = None, lo_frozen = None, lo_qemuArgs = None, lo_networks = None, lo_network = None\<rparr>"

section \<open>A device-mode that asks for nothing\<close>

text \<open>The request a start makes when it is given no provisioning option.\<close>

definition no_request :: provisioning_request where
  "no_request = \<lparr>rq_installAllPackages = None, rq_packages = None, rq_deviceMode = None, rq_user = None,
     rq_disableAdmin = None, rq_license = None, rq_secureLogin = None\<rparr>"

definition only_device_mode :: "machine_state \<Rightarrow> bool" where
  "only_device_mode m \<longleftrightarrow> isProvisioningWindowOpen m \<and> mo_installAllPackages m \<noteq> Some True \<and> ms_packages m = [] \<and> mo_user m = None
     \<and> mo_disableAdmin m \<noteq> Some True \<and> mo_secureLogin m \<noteq> Some True"

text \<open>a recorded device-mode that asks for nothing (\<open>--device-mode skip\<close>, which \<open>add\<close> accepts on every release)
  counts as pending provisioning, although no operation is pending: the first plain start is launched with
  provisioning, and is refused on a release that cannot be provisioned, with \<open>--no-wait\<close> and with \<open>--frozen\<close>. The same machine
  without the device-mode is launched in all of these cases.\<close>

theorem empty_device_mode_blocks:
  assumes "only_device_mode m" and "lo_request opts = no_request" and "lo_version opts = None" and "host (ms_arch m) = Inr ()"
    and "mo_deviceMode m = Some dm" and "\<not> shouldApplyDeviceMode (resolveDeviceModeOptions (Some dm))"
  shows "\<not> hasProvisioningMutations (asks_device_mode (pendingProvisioningFor m no_request)) (pendingProvisioningFor m no_request)
    \<and> (if isMachineRunning kill m then True
       else (case plan_start creds kill host resolve opts m of
               Inl e \<Rightarrow> assertProvisioningSupportedVersion (ms_version m) MIN_PROVISION_VERSION \<noteq> Inr ()
                 \<or> lo_wait opts = Some False \<or> lo_frozen opts = Some True
             | Inr plan \<Rightarrow> assertProvisioningSupportedVersion (ms_version m) MIN_PROVISION_VERSION = Inr ()
                 \<and> lo_wait opts \<noteq> Some False \<and> lo_frozen opts \<noteq> Some True
                 \<and> plan = Relaunch (Some (pendingProvisioningFor m no_request)))
         \<and> plan_start creds kill host resolve opts (m\<lparr>mo_deviceMode := None\<rparr>) = Inr (Relaunch None))"
proof -
  let ?p = "pendingProvisioningFor m no_request"
  let ?m = "m\<lparr>mo_deviceMode := None\<rparr>"
  have none: "\<not> hasProvisioningRequest no_request" "asks_device_mode no_request = False"
    by (simp_all add: hasProvisioningRequest_def no_request_def asks_device_mode_def resolveDeviceModeOptions_def
        shouldApplyDeviceMode_def no_items_def truthy_license_def)
  have w: "assertProvisioningWindow creds m no_request = Inr []" "isProvisioningWindowOpen m"
      "assertProvisioningWindow creds ?m no_request = Inr []" "isProvisioningWindowOpen ?m"
    using assms(1) by (simp_all add: only_device_mode_def assertProvisioningWindow_def isProvisioningWindowOpen_def)
  have running_same: "isMachineRunning kill ?m = isMachineRunning kill m" by (simp add: isMachineRunning_def split: option.split)
  have want: "wantsProvisioning ?p" "\<not> wantsProvisioning (pendingProvisioningFor ?m no_request)"
    using assms(1,5) by (simp_all add: wantsProvisioning_def pendingProvisioningFor_def or_else_def no_request_def only_device_mode_def
        no_items_def truthy_license_def)
  have "\<not> hasProvisioningMutations (asks_device_mode ?p) ?p"
    using assms(1,5,6) by (simp add: hasProvisioningMutations_def asks_device_mode_def pendingProvisioningFor_def or_else_def
        no_request_def only_device_mode_def no_items_def truthy_license_def)
  moreover have "plan_start creds kill host resolve opts m =
      bind_result (assert_provisionable opts (ms_version m) (Some (ms_name m)) (asks_device_mode ?p) ?p) (\<lambda>_. Inr (Relaunch (Some ?p)))"
      "plan_start creds kill host resolve opts ?m = Inr (Relaunch None)" if "\<not> isMachineRunning kill m"
    using that assms(2-4) none asked_same [of no_request] w want running_same
    by (simp_all add: plan_start_def plan_existing_def start_version_def bind_result_def Let_def truthy_def)
  moreover have "(case bind_result (assert_provisionable opts (ms_version m) (Some (ms_name m)) (asks_device_mode ?p) ?p)
        (\<lambda>_. Inr (Relaunch (Some ?p))) of
      Inl e \<Rightarrow> assertProvisioningSupportedVersion (ms_version m) MIN_PROVISION_VERSION \<noteq> Inr ()
        \<or> lo_wait opts = Some False \<or> lo_frozen opts = Some True
    | Inr plan \<Rightarrow> assertProvisioningSupportedVersion (ms_version m) MIN_PROVISION_VERSION = Inr ()
        \<and> lo_wait opts \<noteq> Some False \<and> lo_frozen opts \<noteq> Some True \<and> plan = Relaunch (Some ?p))"
    using provisionable_iff [of opts "ms_version m" "Some (ms_name m)" "asks_device_mode ?p" ?p "()"]
    by (cases "assert_provisionable opts (ms_version m) (Some (ms_name m)) (asks_device_mode ?p) ?p") (auto simp: bind_result_def)
  ultimately show ?thesis by simp
qed

definition skipped_mode :: machine_state where
  "skipped_mode = demo_state\<lparr>ms_version := ''6.49.10'', mo_deviceMode := Some \<lparr>dm_mode = Some ''skip'', dm_enable = None, dm_disable = None\<rparr>\<rparr>"

definition plain_launch :: launch_options where
  "plain_launch = demo_launch\<lparr>lo_request := no_request\<rparr>"

theorem empty_device_mode_blocks_witness:
  "\<not> isMachineRunning (\<lambda>_. KillGone) skipped_mode
    \<and> (case plan_start (\<lambda>_. Inr None) (\<lambda>_. KillGone) (\<lambda>_. Inr ()) (\<lambda>_. Inr ''7.22'') plain_launch skipped_mode of
         Inl e \<Rightarrow> True | Inr _ \<Rightarrow> False)
    \<and> plan_start (\<lambda>_. Inr None) (\<lambda>_. KillGone) (\<lambda>_. Inr ()) (\<lambda>_. Inr ''7.22'') plain_launch (skipped_mode\<lparr>mo_deviceMode := None\<rparr>)
        = Inr (Relaunch None)"
proof -
  have 1: "only_device_mode skipped_mode" "\<not> isMachineRunning (\<lambda>_. KillGone) skipped_mode"
    by (simp_all add: only_device_mode_def skipped_mode_def demo_state_def isProvisioningWindowOpen_def given_text_def isMachineRunning_def)
  have 2: "\<not> shouldApplyDeviceMode (resolveDeviceModeOptions (Some \<lparr>dm_mode = Some ''skip'', dm_enable = None, dm_disable = None\<rparr>))"
    by code_simp
  have 3: "assertProvisioningSupportedVersion (ms_version skipped_mode) MIN_PROVISION_VERSION \<noteq> Inr ()"
    by (simp add: skipped_mode_def) code_simp
  show ?thesis
    using empty_device_mode_blocks [where m = skipped_mode and opts = plain_launch and host = "\<lambda>_. Inr ()" and kill = "\<lambda>_. KillGone"
        and creds = "\<lambda>_. Inr None" and resolve = "\<lambda>_. Inr ''7.22''", OF 1(1) _ _ _ _ 2] 1(2) 3
    by (auto simp: plain_launch_def demo_launch_def skipped_mode_def split: sum.splits)
qed

end
