(* ===== verification/Guest_Record.thy ===== *)
theory Guest_Record
  imports Lifecycle_Facts
begin

text \<open>
  What quickchr records of a running guest (\<open>src/lib/quickchr.ts\<close>): the provisioning record, the licence
  level, the device-mode after an update with its power cycle, and installed packages. HTTP, SSH and
  the QEMU processes are answers of the environment.
\<close>

section \<open>The provisioning record\<close>

definition recordProvisioning :: "string \<Rightarrow> provisioning_step list \<Rightarrow> unit act" where
  "recordProvisioning now steps = dual_write (\<lambda>m. m\<lparr>mo_provisioning := Some \<lparr>pr_at = now, pr_steps = steps\<rparr>\<rparr>)"

definition recordProvisioningStep :: "string \<Rightarrow> provisioning_step \<Rightarrow> unit act" where
  "recordProvisioningStep now step s =
     dual_write (\<lambda>m. m\<lparr>mo_provisioning := Some \<lparr>pr_at = now, pr_steps = uniq (applied_steps (ss_handle s) @ [step])\<rparr>\<rparr>) s"

definition assertGuestApplicable :: "unit act" where
  "assertGuestApplicable s =
     (if \<not> handle_running s then (Inl (Coded (QuickCHRError MACHINE_STOPPED ''has to be running'')), s)
      else if \<not> hasUserModeNetwork (ms_networks (ss_handle s))
        then (Inl (Coded (QuickCHRError NETWORK_UNAVAILABLE ''needs a user-mode network interface'')), s)
      else (Inr (), s))"

text \<open>The two checks differ in their texts only.\<close>

definition assertDeviceModeApplicable :: "unit act" where
  "assertDeviceModeApplicable = assertGuestApplicable"

definition assertPackageApplicable :: "unit act" where
  "assertPackageApplicable = assertGuestApplicable"

section \<open>Licence\<close>

text \<open>No machine lock is taken here.\<close>

definition license :: "thrown option \<Rightarrow> string option \<Rightarrow> unit act" where
  "license renew level s =
     (case assertProvisioningSupportedVersion (ms_version (ss_handle s)) MIN_PROVISION_VERSION of
        Inl e \<Rightarrow> (Inl (Coded e), s)
      | Inr _ \<Rightarrow>
          (case renew of
             Some e \<Rightarrow> (Inl e, s)
           | None \<Rightarrow> if given_text level then dual_write (\<lambda>m. m\<lparr>mo_licenseLevel := level\<rparr>) s else (Inr (), s)))"

section \<open>Power cycle\<close>

text \<open>Whether the monitor took \<open>quit\<close>, whether the process exited in time, and what building the arguments
  and spawning the replacement give.\<close>

record reboot_env =
  rb_quit :: "thrown option"
  rb_exited :: bool
  rb_args :: "thrown option"
  rb_spawn :: "thrown + nat"

definition spawned :: "string \<Rightarrow> nat \<Rightarrow> machine_state \<Rightarrow> machine_state" where
  "spawned now pid m = m\<lparr>mo_pid := Some pid, ms_status := Running, mo_lastStartedAt := Some now, mo_frozen := None\<rparr>"

definition hardRebootMachine :: "life_env \<Rightarrow> reboot_env \<Rightarrow> string act" where
  "hardRebootMachine env rb s =
     (if \<not> truthy_pid (ss_handle s)
      then (Inl (Coded (QuickCHRError PROCESS_FAILED ''Cannot hard-reboot machine: missing QEMU pid'')), s)
      else
        then_do (if rb_exited rb then (\<lambda>s. (Inr (), set_kill (the (mo_pid (ss_handle s))) KillGone s)) else stop_pid env)
        (then_do (case rb_args rb of Some e \<Rightarrow> throw e | None \<Rightarrow> ret ())
           (case rb_spawn rb of
              Inl e \<Rightarrow> throw e
            | Inr pid \<Rightarrow> then_do (\<lambda>s. (Inr (), set_kill pid KillOk s))
                 (then_do (map_handle (spawned (le_now env) pid))
                    (\<lambda>s. then_do (save_state (ss_handle s))
                       (ret (if rb_quit rb = None \<and> rb_exited rb then ''monitor'' else ''signal'')) s)))) s)"

section \<open>Device mode\<close>

text \<open>The disks and the networks of the launch configuration; the rest of it is read off the state.\<close>

definition buildLaunchConfigFromState ::
    "life_env \<Rightarrow> resolution_context \<Rightarrow> (disk_dir \<times> resolved_config list) act" where
  "buildLaunchConfigFromState env ctx s =
     (let m = ss_handle s; dir = ms_machineDir m in
      case on_disks dir (ensureConfiguredDisks (le_tools env) True (Inr None) (mo_bootSize m) (mo_extraDisks m) (format_of m)) s of
        (Inl e, s1) \<Rightarrow> (Inl e, s1)
      | (Inr _, s1) \<Rightarrow>
          (case resolveAllNetworks (le_host env) (ctx\<lparr>rc_machine := Some (ms_name m)\<rparr>) (buildHostfwdString (ms_ports m))
                  (ms_networks m) (ss_reg s1) of
             (Inl e, r) \<Rightarrow> (Inl (Coded e), s1\<lparr>ss_reg := r\<rparr>)
           | (Inr ns, r) \<Rightarrow> (Inr (gd_disks (guest_at dir s1), ns), s1\<lparr>ss_reg := r\<rparr>)))"

text \<open>\<open>applyDeviceMode\<close> on a session: the power cycle it may need is \<open>hardRebootMachine\<close>, whose error
  it passes on.\<close>

definition apply_on :: "life_env \<Rightarrow> reboot_env \<Rightarrow> apply_env \<Rightarrow> resolved_device_mode \<Rightarrow> unit act" where
  "apply_on env rb ae resolved s =
     (case hardRebootMachine env rb s of (booted, s1) \<Rightarrow>
        (let a = applyDeviceMode (ae\<lparr>ae_hardReboot := (case booted of Inr _ \<Rightarrow> Inr ()
                     | Inl _ \<Rightarrow> Inl (QuickCHRError PROCESS_FAILED ''hard reboot''))\<rparr>) resolved in
         if \<not> ar_powerCycled a then (case ar_result a of Inl e \<Rightarrow> (Inl (Coded e), s) | Inr _ \<Rightarrow> (Inr (), s))
         else (case booted of
                 Inl e \<Rightarrow> (Inl e, s1)
               | Inr _ \<Rightarrow> (case ar_result a of Inl e \<Rightarrow> (Inl (Coded e), s1) | Inr _ \<Rightarrow> (Inr (), s1)))))"

definition record_device_mode :: "life_env \<Rightarrow> resolved_device_mode \<Rightarrow> unit act" where
  "record_device_mode env resolved s =
     (let dm = appliedDeviceModeRecord (ss_handle s) resolved in
      then_do (dual_write (\<lambda>m. m\<lparr>mo_deviceMode := Some dm\<rparr>)) (recordProvisioningStep (le_now env) StDeviceMode) s)"

text \<open>The body of \<open>setDeviceMode\<close> under its lock.\<close>

definition device_mode_body ::
    "life_env \<Rightarrow> resolution_context \<Rightarrow> reboot_env \<Rightarrow> apply_env \<Rightarrow> resolved_device_mode \<Rightarrow> unit act" where
  "device_mode_body env ctx rb ae resolved =
     then_do assertDeviceModeApplicable (bind_act (buildLaunchConfigFromState env ctx) (\<lambda>_.
       then_do (apply_on env rb ae resolved) (record_device_mode env resolved)))"

text \<open>\<open>lockNow\<close> is the answer of \<open>acquireLockNow\<close>, which does not wait.\<close>

definition setDeviceMode ::
    "life_env \<Rightarrow> qerror option \<Rightarrow> resolution_context \<Rightarrow> reboot_env \<Rightarrow> apply_env \<Rightarrow> device_mode_options \<Rightarrow> unit act" where
  "setDeviceMode env lockNow ctx rb ae options s =
     (case assertProvisioningSupportedVersion (ms_version (ss_handle s)) MIN_PROVISION_VERSION of
        Inl e \<Rightarrow> (Inl (Coded e), s)
      | Inr _ \<Rightarrow>
          (let resolved = resolveDeviceModeOptions (Some options) in
           if \<not> shouldApplyDeviceMode resolved then (Inl (Coded (QuickCHRError INVALID_ARGUMENT ''Nothing to set'')), s)
           else (case lockNow of
                   Some e \<Rightarrow> (Inl (Coded e), s)
                 | None \<Rightarrow>
                     then_do assertSameMachine (then_do refreshMachineState (device_mode_body env ctx rb ae resolved)) s)))"

section \<open>Packages\<close>

text \<open>The names found in the downloaded set, and what the steps between throw: downloading, REST,
  the upload, the reboot.\<close>

record install_env =
  in_download :: "thrown option"
  in_found :: "string \<Rightarrow> bool"
  in_rest :: "thrown option"
  in_upload :: "thrown option"
  in_reboot :: "thrown option"

definition fails_with :: "thrown option \<Rightarrow> unit act" where
  "fails_with e = (case e of Some x \<Rightarrow> throw x | None \<Rightarrow> ret ())"

definition covers_desired :: "machine_state \<Rightarrow> string list \<Rightarrow> bool" where
  "covers_desired m installed \<longleftrightarrow> mo_installAllPackages m \<noteq> Some True \<and> set (ms_packages m) \<subseteq> set installed"

definition record_packages :: "life_env \<Rightarrow> string list \<Rightarrow> string list act" where
  "record_packages env installed s =
     (case loadMachine (ss_data s) (own_name s) of
        Inl e \<Rightarrow> (Inl (Coded e), s)
      | Inr current \<Rightarrow>
          (let before = (case current of Some m \<Rightarrow> m | None \<Rightarrow> ss_handle s);
               evidence = (StPackages \<in> set (applied_steps before) \<or> covers_desired before installed) in
           then_do (dual_write (\<lambda>m. m\<lparr>ms_packages := uniq (ms_packages m @ installed)\<rparr>))
             (then_do (if evidence then recordProvisioningStep (le_now env) StPackages else ret ()) (ret installed)) s))"

definition install_body :: "life_env \<Rightarrow> install_env \<Rightarrow> string list \<Rightarrow> string list act" where
  "install_body env ie names =
     then_do assertPackageApplicable
    (then_do (fails_with (in_download ie))
       (let installed = filter (in_found ie) names in
        if installed = [] then ret []
        else then_do (fails_with (in_rest ie)) (then_do (fails_with (in_upload ie)) (then_do (fails_with (in_reboot ie))
               (record_packages env installed)))))"

definition installPackage :: "life_env \<Rightarrow> install_env \<Rightarrow> string list \<Rightarrow> string list act" where
  "installPackage env ie names s =
     (case assertProvisioningSupportedVersion (ms_version (ss_handle s)) MIN_PROVISION_VERSION of
        Inl e \<Rightarrow> (Inl (Coded e), s)
      | Inr _ \<Rightarrow> if names = [] then (Inr [], s) else withMachineLock env (install_body env ie names) s)"

section \<open>Packages recorded as applied are installed\<close>

lemma record_step_result:
  assumes "sound s" "agrees s"
  shows "\<exists>s'. recordProvisioningStep now step s = (Inr (), s') \<and> sound s' \<and> agrees s' \<and> own_name s' = own_name s
    \<and> spares (own_name s) s s'
    \<and> ss_handle s' = (ss_handle s)\<lparr>mo_provisioning := Some \<lparr>pr_at = now, pr_steps = uniq (applied_steps (ss_handle s) @ [step])\<rparr>\<rparr>"
  using dual_write_result [OF assms, of "\<lambda>m. m\<lparr>mo_provisioning := Some \<lparr>pr_at = now, pr_steps = uniq (applied_steps (ss_handle s) @ [step])\<rparr>\<rparr>"]
  by (auto simp: recordProvisioningStep_def own_name_def spares_def)

text \<open>The packages recorded as applied are among those that are installed, \<open>G\<close>.\<close>

definition evidence :: "string set \<Rightarrow> machine_state \<Rightarrow> bool" where
  "evidence G m \<longleftrightarrow> (if StPackages \<in> set (applied_steps m) then set (ms_packages m) \<subseteq> G else True)"

lemma record_packages_result:
  assumes "sound s" "agrees s" "evidence G (ss_handle s)"
  shows "\<exists>s'. record_packages env installed s = (Inr installed, s') \<and> agrees s' \<and> own_name s' = own_name s
    \<and> spares (own_name s) s s' \<and> evidence (G \<union> set installed) (ss_handle s')
    \<and> set (ms_packages (ss_handle s')) = set (ms_packages (ss_handle s)) \<union> set installed"
proof -
  let ?m = "ss_handle s"
  let ?ok = "StPackages \<in> set (applied_steps ?m) \<or> covers_desired ?m installed"
  have l: "loadMachine (ss_data s) (own_name s) = Inr (Some ?m)" using assms(2) by (simp add: agrees_def)
  define s1 where "s1 = snd (dual_write (\<lambda>m. m\<lparr>ms_packages := uniq (ms_packages m @ installed)\<rparr>) s)"
  have 1: "dual_write (\<lambda>m. m\<lparr>ms_packages := uniq (ms_packages m @ installed)\<rparr>) s = (Inr (), s1)" "sound s1" "agrees s1"
      "ss_handle s1 = ?m\<lparr>ms_packages := uniq (ms_packages ?m @ installed)\<rparr>" "spares (own_name s) s s1"
    using dual_write_result [OF assms(1,2), of "\<lambda>m. m\<lparr>ms_packages := uniq (ms_packages m @ installed)\<rparr>"]
    by (auto simp: s1_def spares_def)
  have n: "own_name s1 = own_name s" "applied_steps (ss_handle s1) = applied_steps ?m" using 1(4) by (simp_all add: own_name_def applied_steps_def)
  have run: "record_packages env installed s = then_do (if ?ok then recordProvisioningStep (le_now env) StPackages else ret ()) (ret installed) s1"
    using 1(1) by (simp add: record_packages_def l then_do_run [of "dual_write (\<lambda>m. m\<lparr>ms_packages := uniq (ms_packages m @ installed)\<rparr>)"])
  show ?thesis
  proof (cases ?ok)
    case False
    then have "record_packages env installed s = (Inr installed, s1)" unfolding run by (simp add: then_do_run ret_def)
    then show ?thesis using 1 n False by (auto simp: evidence_def)
  next
    case True
    obtain s2 where 2: "recordProvisioningStep (le_now env) StPackages s1 = (Inr (), s2)" "agrees s2" "own_name s2 = own_name s"
        "spares (own_name s) s1 s2" "ms_packages (ss_handle s2) = ms_packages (ss_handle s1)"
      using record_step_result [OF 1(2,3), of "le_now env" StPackages] n(1) by auto
    have "set (ms_packages ?m) \<subseteq> G \<union> set installed" using True assms(3) by (auto simp: evidence_def covers_desired_def split: if_splits)
    moreover have "record_packages env installed s = (Inr installed, s2)" unfolding run using True 2(1) by (simp add: then_do_run ret_def)
    ultimately show ?thesis using 2 1 spares_trans by (auto simp: evidence_def)
  qed
qed

lemma applicable_frame: "\<exists>r. assertGuestApplicable s = (r, s)"
  by (simp add: assertGuestApplicable_def)

lemma fails_with_run: "fails_with e s = (case e of Some x \<Rightarrow> (Inl x, s) | None \<Rightarrow> (Inr (), s))"
  by (simp add: fails_with_def throw_def ret_def split: option.split)

lemma install_body_cases:
  "(\<exists>e. install_body env ie names s = (Inl e, s))
   \<or> (filter (in_found ie) names = [] \<and> install_body env ie names s = (Inr [], s))
   \<or> install_body env ie names s = record_packages env (filter (in_found ie) names) s"
proof -
  obtain a where a: "assertGuestApplicable s = (a, s)" using applicable_frame by blast
  show ?thesis
    unfolding install_body_def assertPackageApplicable_def then_do_run a Let_def
    by (simp add: fails_with_run ret_def then_do_run split: sum.split option.split)
qed

text \<open>C21: installing packages returns the requested names that the package set has, adds
  exactly these to the recorded packages, and keeps the record honest: whenever the packages step is
  recorded as applied, every recorded package is installed on the guest, also when packages planned
  earlier were never applied. An install that throws changes no record.\<close>

theorem installPackage_evidence:
  assumes "sound s" and "loadMachine (ss_data s) (own_name s) = Inr (Some m)" and "evidence G m"
  shows "case installPackage env ie names s of
      (Inl _, s') \<Rightarrow> ss_data s' = ss_data s
    | (Inr installed, s') \<Rightarrow> installed = filter (in_found ie) names \<and> spares (own_name s) s s'
        \<and> (case loadMachine (ss_data s') (own_name s) of
             Inr (Some m') \<Rightarrow> evidence (G \<union> set installed) m' \<and> set (ms_packages m') = set (ms_packages m) \<union> set installed
           | _ \<Rightarrow> False)"
proof (cases "\<exists>e. installPackage env ie names s = (Inl e, s)")
  case True
  then show ?thesis by auto
next
  case no: False
  show ?thesis
  proof (cases "names = []")
    case True
    then show ?thesis using no assms by (auto simp: installPackage_def split: sum.splits)
  next
    case False
    then have run: "installPackage env ie names s = withMachineLock env (install_body env ie names) s"
      using no by (auto simp: installPackage_def split: sum.splits)
    obtain m' where m': "loadMachine (ss_data s) (own_name s) = Inr (Some m')"
        "withMachineLock env (install_body env ie names) s = install_body env ie names (s\<lparr>ss_handle := m'\<rparr>)"
      using with_lock_cases [of env "install_body env ie names" s] no run by auto
    then have mm: "m' = m" using assms(2) by simp
    let ?s = "s\<lparr>ss_handle := m\<rparr>"
    have k: "sound ?s" "agrees ?s" "own_name ?s = own_name s" "evidence G (ss_handle ?s)"
      using with_lock_agrees [OF assms(1,2)] assms(3) by (simp_all add: own_name_def)
    let ?inst = "filter (in_found ie) names"
    obtain s' where s': "record_packages env ?inst ?s = (Inr ?inst, s')" "agrees s'" "own_name s' = own_name s"
        "spares (own_name s) ?s s'" "evidence (G \<union> set ?inst) (ss_handle s')"
        "set (ms_packages (ss_handle s')) = set (ms_packages m) \<union> set ?inst"
      using record_packages_result [OF k(1,2,4), of env ?inst] k(3) by auto
    have sp: "spares (own_name s) s s'" using s'(4) by (simp add: spares_def)
    have eq: "installPackage env ie names s = install_body env ie names ?s" by (simp only: run m'(2) mm)
    show ?thesis
      using install_body_cases [of env ie names ?s]
    proof (elim disjE exE conjE)
      assume e: "filter (in_found ie) names = []" "install_body env ie names ?s = (Inr [], ?s)"
      show ?thesis unfolding eq e(2) using e(1) assms(2,3) by (simp add: spares_def)
    next
      assume e: "install_body env ie names ?s = record_packages env ?inst ?s"
      show ?thesis unfolding eq e s'(1) using s'(2,3,5,6) sp by (simp add: agrees_def)
    qed (simp add: eq)
  qed
qed

definition demo_install :: install_env where
  "demo_install = \<lparr>in_download = None, in_found = (\<lambda>p. p = ''container''), in_rest = None, in_upload = None, in_reboot = None\<rparr>"

theorem installPackage_evidence_witness:
  "case installPackage demo_life demo_install [''container'', ''ups''] demo_session of
      (Inl _, s') \<Rightarrow> ss_data s' = ss_data demo_session
    | (Inr installed, s') \<Rightarrow> installed = filter (in_found demo_install) [''container'', ''ups''] \<and> spares (own_name demo_session) demo_session s'
        \<and> (case loadMachine (ss_data s') (own_name demo_session) of
             Inr (Some m') \<Rightarrow> evidence ({} \<union> set installed) m' \<and> set (ms_packages m') = set (ms_packages demo_state) \<union> set installed
           | _ \<Rightarrow> False)"
proof (rule installPackage_evidence [OF demo_sound(1)])
  show "loadMachine (ss_data demo_session) (own_name demo_session) = Inr (Some demo_state)"
    using demo_sound(2) by (simp add: agrees_def) (simp add: demo_session_def)
  show "evidence {} demo_state" by (simp add: evidence_def applied_steps_def demo_state_def)
qed

section \<open>A device-mode that was set is seen as set\<close>

text \<open>What a device-mode update relies on: nothing but the process fields of the record changes.\<close>

definition same_guest_record :: "session \<Rightarrow> session \<Rightarrow> bool" where
  "same_guest_record s s' \<longleftrightarrow> sound s' \<and> agrees s' \<and> own_name s' = own_name s \<and> spares (own_name s) s s'
     \<and> mo_deviceMode (ss_handle s') = mo_deviceMode (ss_handle s) \<and> mo_provisioning (ss_handle s') = mo_provisioning (ss_handle s)"

lemma same_record_refl: "sound s \<Longrightarrow> agrees s \<Longrightarrow> same_guest_record s s"
  by (simp add: same_guest_record_def)

lemma same_record_kill: "same_guest_record s s1 \<Longrightarrow> same_guest_record s (s1\<lparr>ss_kill := k\<rparr>)"
  by (simp add: same_guest_record_def)

lemma same_record_trans: "same_guest_record s s1 \<Longrightarrow> same_guest_record s1 s2 \<Longrightarrow> same_guest_record s s2"
  unfolding same_guest_record_def using spares_trans by metis

lemma spawned_saved:
  assumes "sound s" "agrees s"
  shows "\<exists>s'. then_do (map_handle (spawned now pid)) (\<lambda>s. then_do (save_state (ss_handle s)) (ret x) s) s = (Inr x, s')
    \<and> same_guest_record s s'"
proof -
  let ?m = "spawned now pid (ss_handle s)"
  have n: "ms_name ?m = own_name s" by (simp add: spawned_def own_name_def)
  have l: "loaded_state (ss_data s) (ms_name ?m) \<noteq> None" using assms(2) loaded_load n by (auto simp: agrees_def)
  have "sound (s\<lparr>ss_handle := ?m\<rparr>)" using assms(1) by (simp add: sound_def)
  from save_in_session [OF this, of ?m] l obtain d where
    "save_state ?m (s\<lparr>ss_handle := ?m\<rparr>) = (Inr (), s\<lparr>ss_handle := ?m, ss_data := d\<rparr>)" "sound (s\<lparr>ss_handle := ?m, ss_data := d\<rparr>)"
    "loadMachine d (ms_name ?m) = Inr (Some ?m)" "\<forall>k. k \<noteq> ms_name ?m \<longrightarrow> loadMachine d k = loadMachine (ss_data s) k"
    by auto
  then show ?thesis
    by (simp add: then_do_run map_handle_def ret_def same_guest_record_def agrees_def spares_def n)
      (simp add: own_name_def spawned_def)
qed

lemma then_do_now: "then_do (\<lambda>s. (Inr (), h s)) g s = g (h s)"
  by (simp add: then_do_run)

lemma hard_reboot_frame:
  assumes "sound s" "agrees s"
  shows "\<exists>r s'. hardRebootMachine env rb s = (r, s') \<and> same_guest_record s s'"
proof (cases "truthy_pid (ss_handle s)")
  case False
  then show ?thesis using same_record_refl [OF assms] by (simp add: hardRebootMachine_def)
next
  case True
  have "\<exists>a k. (if rb_exited rb then (\<lambda>s. (Inr (), set_kill (the (mo_pid (ss_handle s))) KillGone s)) else stop_pid env) s
      = (a, s\<lparr>ss_kill := k\<rparr>)"
    using stop_pid_frame [of env s] by (auto simp: set_kill_def)
  then obtain a k where 1: "(if rb_exited rb then (\<lambda>s. (Inr (), set_kill (the (mo_pid (ss_handle s))) KillGone s)) else stop_pid env) s
      = (a, s\<lparr>ss_kill := k\<rparr>)" by blast
  have base: "same_guest_record s (s\<lparr>ss_kill := k'\<rparr>)" for k' using same_record_kill [OF same_record_refl [OF assms]] .
  show ?thesis
  proof (cases "\<exists>u pid. a = Inr u \<and> rb_args rb = None \<and> rb_spawn rb = Inr pid")
    case False
    then have "\<exists>r. hardRebootMachine env rb s = (r, s\<lparr>ss_kill := k\<rparr>)"
      using True 1 by (auto simp: hardRebootMachine_def then_do_run throw_def ret_def split: sum.splits option.splits)
    then show ?thesis using base by blast
  next
    case True2: True
    then obtain u pid where a: "a = Inr u" "rb_args rb = None" "rb_spawn rb = Inr pid" by blast
    let ?s = "s\<lparr>ss_kill := k(pid := KillOk)\<rparr>"
    let ?x = "if rb_quit rb = None \<and> rb_exited rb then ''monitor'' else ''signal''"
    obtain s' where s': "then_do (map_handle (spawned (le_now env) pid)) (\<lambda>s. then_do (save_state (ss_handle s)) (ret ?x) s) ?s = (Inr ?x, s')"
        "same_guest_record ?s s'"
      using spawned_saved [of ?s "le_now env" pid ?x] assms by auto
    have "hardRebootMachine env rb s = then_do (map_handle (spawned (le_now env) pid)) (\<lambda>s. then_do (save_state (ss_handle s)) (ret ?x) s) ?s"
      using True 1 a by (simp add: hardRebootMachine_def then_do_run [of "if rb_exited rb then _ else _"]
          then_do_run [of "ret ()"] then_do_now ret_def [of "()"] set_kill_def [of pid])
    then show ?thesis using s' same_record_trans [OF base s'(2)] by auto
  qed
qed

lemma apply_on_frame:
  assumes "sound s" "agrees s"
  shows "\<exists>r s'. apply_on env rb ae resolved s = (r, s') \<and> same_guest_record s s'"
proof -
  obtain r s1 where "hardRebootMachine env rb s = (r, s1)" "same_guest_record s s1" using hard_reboot_frame [OF assms] by blast
  then show ?thesis using same_record_refl [OF assms]
    by (auto simp: apply_on_def Let_def split: sum.splits)
qed

lemma build_launch_frame:
  assumes "sound s" "agrees s"
  shows "\<exists>r s'. buildLaunchConfigFromState env ctx s = (r, s') \<and> same_guest_record s s'"
proof -
  let ?m = "ss_handle s"
  let ?a = "on_disks (ms_machineDir ?m) (ensureConfiguredDisks (le_tools env) True (Inr None) (mo_bootSize ?m) (mo_extraDisks ?m) (format_of ?m)) s"
  obtain a s1 where 1: "?a = (a, s1)" by fastforce
  have g: "only_guest s s1" using 1 only_guest_on_disks by (metis snd_conv)
  have k1: "same_guest_record s s1" using guest_frame [OF g] g assms by (simp add: same_guest_record_def only_guest_def)
  let ?n = "resolveAllNetworks (le_host env) (ctx\<lparr>rc_machine := Some (ms_name ?m)\<rparr>) (buildHostfwdString (ms_ports ?m)) (ms_networks ?m) (ss_reg s1)"
  obtain b r where 2: "?n = (b, r)" by fastforce
  have d: "rg_disk r = rg_disk (ss_reg s1)"
    using resolveAll_disk [of "le_host env" "ctx\<lparr>rc_machine := Some (ms_name ?m)\<rparr>" "buildHostfwdString (ms_ports ?m)" "ms_networks ?m" "ss_reg s1"] 2
    by simp
  have "spares (own_name s) s1 (s1\<lparr>ss_reg := r\<rparr>)" using others_kept_disk [OF d] by (simp add: spares_def)
  then have "spares (own_name s) s (s1\<lparr>ss_reg := r\<rparr>)" using k1 spares_trans by (auto simp: same_guest_record_def)
  then have k2: "same_guest_record s (s1\<lparr>ss_reg := r\<rparr>)"
    using k1 d by (auto simp: same_guest_record_def sound_def agrees_def own_name_def)
  show ?thesis using 1 2 k1 k2 by (auto simp: buildLaunchConfigFromState_def Let_def split: sum.splits)
qed

lemma record_mode_result:
  assumes "sound s" "agrees s"
  shows "\<exists>s'. record_device_mode env resolved s = (Inr (), s') \<and> agrees s' \<and> own_name s' = own_name s \<and> spares (own_name s) s s'
    \<and> mo_deviceMode (ss_handle s') = Some (appliedDeviceModeRecord (ss_handle s) resolved)
    \<and> set (applied_steps (ss_handle s')) = insert StDeviceMode (set (applied_steps (ss_handle s)))"
proof -
  let ?f = "\<lambda>m. m\<lparr>mo_deviceMode := Some (appliedDeviceModeRecord (ss_handle s) resolved)\<rparr>"
  obtain s1 where 1: "dual_write ?f s = (Inr (), s1)" "sound s1" "agrees s1" "ss_handle s1 = ?f (ss_handle s)" "spares (own_name s) s s1"
    using dual_write_result [OF assms, of ?f] by (auto simp: spares_def)
  have n: "own_name s1 = own_name s" "applied_steps (ss_handle s1) = applied_steps (ss_handle s)" using 1(4) by (simp_all add: own_name_def applied_steps_def)
  obtain s2 where 2: "recordProvisioningStep (le_now env) StDeviceMode s1 = (Inr (), s2)" "agrees s2" "own_name s2 = own_name s"
      "spares (own_name s) s1 s2"
      "ss_handle s2 = (ss_handle s1)\<lparr>mo_provisioning := Some \<lparr>pr_at = le_now env, pr_steps = uniq (applied_steps (ss_handle s1) @ [StDeviceMode])\<rparr>\<rparr>"
    using record_step_result [OF 1(2,3), of "le_now env" StDeviceMode] n(1) by auto
  have "record_device_mode env resolved s = (Inr (), s2)"
    using 1(1) 2(1) by (simp add: record_device_mode_def Let_def then_do_run)
  moreover have "set (applied_steps (ss_handle s2)) = insert StDeviceMode (set (applied_steps (ss_handle s)))"
    unfolding 2(5) n(2) by (simp add: applied_steps_def)
  ultimately show ?thesis using 2 1(4,5) spares_trans by auto
qed

lemma device_mode_body_result:
  assumes "sound s" "agrees s"
  shows "case device_mode_body env ctx rb ae resolved s of
      (Inl _, s') \<Rightarrow> same_guest_record s s'
    | (Inr _, s') \<Rightarrow> agrees s' \<and> own_name s' = own_name s \<and> spares (own_name s) s s'
        \<and> mo_deviceMode (ss_handle s') = Some (appliedDeviceModeRecord (ss_handle s) resolved)
        \<and> set (applied_steps (ss_handle s')) = insert StDeviceMode (set (applied_steps (ss_handle s)))"
proof -
  obtain a where 0: "assertGuestApplicable s = (a, s)" using applicable_frame by blast
  obtain b s1 where 1: "buildLaunchConfigFromState env ctx s = (b, s1)" "same_guest_record s s1" using build_launch_frame [OF assms] by blast
  obtain c s2 where 2: "apply_on env rb ae resolved s1 = (c, s2)" "same_guest_record s1 s2"
    using apply_on_frame [of s1 env rb ae resolved] 1(2) by (auto simp: same_guest_record_def)
  have s2: "same_guest_record s s2" using same_record_trans [OF 1(2) 2(2)] .
  obtain s3 where 3: "record_device_mode env resolved s2 = (Inr (), s3)" "agrees s3" "own_name s3 = own_name s2" "spares (own_name s2) s2 s3"
      "mo_deviceMode (ss_handle s3) = Some (appliedDeviceModeRecord (ss_handle s2) resolved)"
      "set (applied_steps (ss_handle s3)) = insert StDeviceMode (set (applied_steps (ss_handle s2)))"
    using record_mode_result [of s2 env resolved] s2 by (auto simp: same_guest_record_def)
  have steps: "applied_steps (ss_handle s2) = applied_steps (ss_handle s)" using s2 by (simp add: same_guest_record_def applied_steps_def)
  then have same: "appliedDeviceModeRecord (ss_handle s2) resolved = appliedDeviceModeRecord (ss_handle s) resolved"
      "applied_steps (ss_handle s2) = applied_steps (ss_handle s)" "own_name s2 = own_name s"
    using s2 by (simp_all add: same_guest_record_def appliedDeviceModeRecord_def)
  have "spares (own_name s) s s3" using s2 3(4) same(3) spares_trans by (auto simp: same_guest_record_def)
  then show ?thesis
    using 0 1 2 s2 3 same same_record_refl [OF assms]
    by (cases a; cases b; cases c)
      (simp_all add: device_mode_body_def assertDeviceModeApplicable_def then_do_run bind_act_def)
qed

lemma set_mode_cases:
  "(\<exists>e. setDeviceMode env lockNow ctx rb ae options s = (Inl e, s))
   \<or> (\<exists>m. loadMachine (ss_data s) (own_name s) = Inr (Some m) \<and> shouldApplyDeviceMode (resolveDeviceModeOptions (Some options))
        \<and> setDeviceMode env lockNow ctx rb ae options s
            = device_mode_body env ctx rb ae (resolveDeviceModeOptions (Some options)) (s\<lparr>ss_handle := m\<rparr>))"
  by (auto simp: setDeviceMode_def Let_def then_do_run assertSameMachine_def refreshMachineState_def split: option.split sum.split)

text \<open>C20: setting a device-mode records exactly what was applied: if it throws, at whatever point
  of the update or the power cycle, the recorded device-mode and the provisioning record are
  those before; if it succeeds, the record is the request over what had been applied, the step counts
  as run, and asking for the same settings again is seen as already done. No other machine changes.\<close>

theorem setDeviceMode_recorded:
  assumes "sound s" and "loadMachine (ss_data s) (own_name s) = Inr (Some m)"
  shows "case setDeviceMode env lockNow ctx rb ae options s of (r, s') \<Rightarrow>
      spares (own_name s) s s'
      \<and> (case loadMachine (ss_data s') (own_name s) of
           Inr (Some m') \<Rightarrow>
             (case r of
                Inl _ \<Rightarrow> mo_deviceMode m' = mo_deviceMode m \<and> mo_provisioning m' = mo_provisioning m
              | Inr _ \<Rightarrow> mo_deviceMode m' = Some (appliedDeviceModeRecord m (resolveDeviceModeOptions (Some options)))
                  \<and> set (applied_steps m') = insert StDeviceMode (set (applied_steps m))
                  \<and> (if given_text (rd_mode (resolveDeviceModeOptions (Some options)))
                        \<and> (carried_record m = None \<or> \<not> rd_skip (resolveDeviceModeOptions (carried_record m)))
                        \<and> al_get (rd_features (resolveDeviceModeOptions (carried_record m))) ''mode'' = None
                     then deviceModeSatisfiedBy (deviceModeSelection (mo_deviceMode m')) (deviceModeSelection (Some options)) else True))
         | _ \<Rightarrow> False)"
  using set_mode_cases [of env lockNow ctx rb ae options s]
proof (elim disjE exE conjE)
  fix e assume "setDeviceMode env lockNow ctx rb ae options s = (Inl e, s)"
  then show ?thesis using assms(2) by simp
next
  let ?r = "resolveDeviceModeOptions (Some options)"
  fix m' assume m': "loadMachine (ss_data s) (own_name s) = Inr (Some m')"
    and app: "shouldApplyDeviceMode ?r"
    and run: "setDeviceMode env lockNow ctx rb ae options s = device_mode_body env ctx rb ae ?r (s\<lparr>ss_handle := m'\<rparr>)"
  let ?s = "s\<lparr>ss_handle := m\<rparr>"
  have mm: "m' = m" using m' assms(2) by simp
  have k: "sound ?s" "agrees ?s" "own_name ?s = own_name s" "spares n ?s = spares n s" for n
    using with_lock_agrees [OF assms] by (simp_all add: own_name_def spares_def fun_eq_iff)
  obtain r s' where b: "device_mode_body env ctx rb ae ?r ?s = (r, s')" by fastforce
  note res = device_mode_body_result [OF k(1,2), where env = env and ctx = ctx and rb = rb and ae = ae and resolved = ?r, unfolded b k(3,4) prod.case]
  have sat: "deviceModeSatisfiedBy (deviceModeSelection (Some (appliedDeviceModeRecord m ?r))) (deviceModeSelection (Some options))"
    if "given_text (rd_mode ?r)" "carried_record m = None \<or> \<not> rd_skip (resolveDeviceModeOptions (carried_record m))"
      "al_get (rd_features (resolveDeviceModeOptions (carried_record m))) ''mode'' = None"
    using record_selection [OF app that(1,2,3)] app selection_asked [of "Some options"]
    by (simp add: appliedDeviceModeRecord_def carried_record_def [symmetric] satisfied_iff)
  show ?thesis
    using res sat unfolding run mm b
    by (cases r) (auto simp: same_guest_record_def agrees_def k(3,4))
qed

definition demo_apply :: apply_env where
  "demo_apply = \<lparr>ae_waitApi = Inr (), ae_before = Inr [], ae_attempt = (\<lambda>_. \<lparr>at_outcome = UpdatePending, at_offline = True,
     at_rebooted = False, at_waitApi = Inr (), at_read = Inr []\<rparr>), ae_hardReboot = Inr (), ae_booted = True, ae_waitApiAfter = Inr (),
     ae_after = Inr [(''mode'', ''rose''), (''container'', ''yes'')]\<rparr>"

definition demo_reboot :: reboot_env where
  "demo_reboot = \<lparr>rb_quit = None, rb_exited = True, rb_args = None, rb_spawn = Inr 77\<rparr>"

theorem setDeviceMode_recorded_witness:
  "case setDeviceMode demo_life None (demo_ctx []) demo_reboot demo_apply demo_request demo_session of (r, s') \<Rightarrow>
      spares (own_name demo_session) demo_session s'
      \<and> (case loadMachine (ss_data s') (own_name demo_session) of
           Inr (Some m') \<Rightarrow>
             (case r of
                Inl _ \<Rightarrow> mo_deviceMode m' = mo_deviceMode demo_state \<and> mo_provisioning m' = mo_provisioning demo_state
              | Inr _ \<Rightarrow> mo_deviceMode m' = Some (appliedDeviceModeRecord demo_state (resolveDeviceModeOptions (Some demo_request)))
                  \<and> set (applied_steps m') = insert StDeviceMode (set (applied_steps demo_state))
                  \<and> (if given_text (rd_mode (resolveDeviceModeOptions (Some demo_request)))
                        \<and> (carried_record demo_state = None \<or> \<not> rd_skip (resolveDeviceModeOptions (carried_record demo_state)))
                        \<and> al_get (rd_features (resolveDeviceModeOptions (carried_record demo_state))) ''mode'' = None
                     then deviceModeSatisfiedBy (deviceModeSelection (mo_deviceMode m')) (deviceModeSelection (Some demo_request)) else True))
         | _ \<Rightarrow> False)"
proof (rule setDeviceMode_recorded [OF demo_sound(1)])
  show "loadMachine (ss_data demo_session) (own_name demo_session) = Inr (Some demo_state)"
    using demo_sound(2) by (simp add: agrees_def) (simp add: demo_session_def)
qed

section \<open>A licence set later is not recognised\<close>

definition license_request :: "string \<Rightarrow> provisioning_request" where
  "license_request level =
     \<lparr>rq_installAllPackages = None, rq_packages = None, rq_deviceMode = None, rq_user = None, rq_disableAdmin = None,
      rq_license = Some (LicenseName level), rq_secureLogin = None\<rparr>"

text \<open>Unlike the device-mode and the packages, a licence applied after the first boot is recorded as a
  level but not as a step, so a start that asks for the very level is refused.\<close>

lemma license_not_recognised:
  assumes "license None (Some level) s = (Inr (), s')" and "level \<noteq> []"
    and "StLicense \<notin> set (applied_steps (ss_handle s))" and "\<not> isProvisioningWindowOpen (ss_handle s)"
  shows "mo_licenseLevel (ss_handle s') = Some level
    \<and> (\<exists>t. assertProvisioningWindow creds (ss_handle s') (license_request level) = Inl (QuickCHRError PROVISIONING_WINDOW_CLOSED t))"
proof -
  have h: "ss_handle s' = (ss_handle s)\<lparr>mo_licenseLevel := Some level\<rparr>"
    using assms(1,2)
    by (auto simp: license_def dual_write_def then_do_run map_handle_def update_saved_def save_state_def given_text_def
        split: sum.splits option.splits if_splits prod.splits)
  have "deviceModeSelection None = []"
    using selection_asked [of None] by (simp add: resolveDeviceModeOptions_def shouldApplyDeviceMode_def)
  then have "classifyProvisioningRequest creds (ss_handle s') (license_request level) =
      [\<lparr>ak_step = StLicense, ak_description = ''license ('' @ level @ '')'', ak_satisfied = False\<rparr>]"
    using assms(2,3)
    by (simp add: classifyProvisioningRequest_def Let_def license_request_def ask_if_def no_items_def truthy_license_def licenseLevelOf_def
        h applied_steps_def)
  then show ?thesis
    using assms(4) by (simp add: assertProvisioningWindow_def Let_def h isProvisioningWindowOpen_def)
qed

end
