(* ===== verification/Launch.thy ===== *)
theory Launch
  imports Start_Checks Guest_Record
begin

text \<open>
  Launching a machine that exists and provisioning its first boot (\<open>_launchExisting\<close>, \<open>_provisionInstance\<close>,
  \<open>failProvisioning\<close>, \<open>get\<close> and the part of \<open>start\<close> for an existing machine, \<open>src/lib/quickchr.ts\<close>). QEMU, HTTP, SSH and
  the MikroTik account are answers of the environment. The QEMU arguments, the elapsed boot
  time, the diagnostics of a failed boot and the cache prune at the end, which throws nothing, are left out.
\<close>

section \<open>Provisioning a booted guest\<close>

text \<open>\<open>pv_packages\<close> is what the package installation that is asked for returns, \<open>pv_comesBack\<close> the answer of
  the wait for the reboot after it, \<open>pv_credentials\<close> whether account and password for a licence are found,
  \<open>pv_level\<close> the level read back, \<open>pv_login\<close> what \<open>provision\<close> returns.\<close>

record provision_env =
  pv_packages :: "thrown + string list"
  pv_comesBack :: "thrown + bool"
  pv_reboot :: reboot_env
  pv_apply :: apply_env
  pv_credentials :: "thrown + bool"
  pv_renew :: "thrown option"
  pv_level :: "thrown + string option"
  pv_login :: "thrown + (string \<times> string) option \<times> managed_ssh_key option"

definition STORED_IN_SECRETS_PASSWORD :: string where
  "STORED_IN_SECRETS_PASSWORD = ''(stored in secrets)''"

definition answer :: "thrown + 'a \<Rightarrow> 'a act" where
  "answer r s = (r, s)"

text \<open>Each step returns what it adds to \<open>applied\<close>.\<close>

definition provision_packages :: "provision_env \<Rightarrow> provisioning_request \<Rightarrow> provisioning_step list act" where
  "provision_packages pv rq =
     (if rq_installAllPackages rq = Some True \<or> \<not> no_items (rq_packages rq) then
        bind_act (answer (pv_packages pv)) (\<lambda>installed.
        bind_act (answer (pv_comesBack pv)) (\<lambda>_.
        then_do (dual_write (\<lambda>m. m\<lparr>ms_packages := installed\<rparr>)) (ret [StPackages])))
      else ret [])"

definition provision_device_mode :: "life_env \<Rightarrow> provision_env \<Rightarrow> provisioning_request \<Rightarrow> provisioning_step list act" where
  "provision_device_mode env pv rq =
     (let resolved = resolveDeviceModeOptions (rq_deviceMode rq) in
      if shouldApplyDeviceMode resolved
      then then_do (apply_on env (pv_reboot pv) (pv_apply pv) resolved) (ret [StDeviceMode]) else ret [])"

definition actual_level :: "provision_env \<Rightarrow> license_input \<Rightarrow> string" where
  "actual_level pv l =
     (case pv_level pv of
        Inr (Some level) \<Rightarrow> if level \<noteq> [] \<and> level \<noteq> ''free'' then level else licenseLevelOf l
      | _ \<Rightarrow> licenseLevelOf l)"

definition renewal_failed :: "thrown \<Rightarrow> thrown" where
  "renewal_failed e = (case e of Coded q \<Rightarrow> Coded q | Native _ \<Rightarrow> Coded (QuickCHRError PROCESS_FAILED ''License renewal failed''))"

definition renew_license :: "provision_env \<Rightarrow> license_input \<Rightarrow> unit act" where
  "renew_license pv l =
     then_do (fails_with (pv_renew pv)) (dual_write (\<lambda>m. m\<lparr>mo_licenseLevel := Some (actual_level pv l)\<rparr>))"

definition provision_license :: "provision_env \<Rightarrow> provisioning_request \<Rightarrow> provisioning_step list act" where
  "provision_license pv rq =
     (if truthy_license (rq_license rq) then
        bind_act (answer (pv_credentials pv)) (\<lambda>found.
          if \<not> found then throw (Coded (QuickCHRError PROCESS_FAILED ''no MikroTik web credentials were available''))
          else (\<lambda>s. case renew_license pv (the (rq_license rq)) s of
                  (Inl e, s') \<Rightarrow> (Inl (renewal_failed e), s')
                | (Inr _, s') \<Rightarrow> (Inr [StLicense], s')))
      else ret [])"

definition login_steps :: "provisioning_request \<Rightarrow> provisioning_step list" where
  "login_steps rq =
     (if rq_user rq \<noteq> None then [StUser] else []) @ (if rq_disableAdmin rq = Some True then [StDisableAdmin] else [])
     @ (if rq_secureLogin rq = Some True then [StSecureLogin] else [])"

definition set_login :: "(string \<times> string) option \<Rightarrow> managed_ssh_key option \<Rightarrow> machine_state \<Rightarrow> machine_state" where
  "set_login user key m =
     (let m1 = (case user of Some u \<Rightarrow> m\<lparr>mo_user := Some u\<rparr> | None \<Rightarrow> m) in
      case key of Some k \<Rightarrow> m1\<lparr>mo_managedSshKey := Some k\<rparr> | None \<Rightarrow> m1)"

text \<open>The file keeps a placeholder for the password, the handle the password.\<close>

definition provision_login :: "provision_env \<Rightarrow> provisioning_request \<Rightarrow> provisioning_step list act" where
  "provision_login pv rq =
     (if login_steps rq = [] then ret []
      else bind_act (answer (pv_login pv)) (\<lambda>(user, key).
        then_do (if user = None \<and> key = None then ret ()
                 else update_saved (set_login (map_option (\<lambda>(n, _). (n, STORED_IN_SECRETS_PASSWORD)) user) key))
          (then_do (map_handle (set_login user key)) (ret (login_steps rq)))))"

definition provisionInstance :: "life_env \<Rightarrow> provision_env \<Rightarrow> provisioning_request \<Rightarrow> unit act" where
  "provisionInstance env pv rq s =
     (case assertProvisioningSupportedVersion (ms_version (ss_handle s)) MIN_PROVISION_VERSION of
        Inl e \<Rightarrow> (Inl (Coded e), s)
      | Inr _ \<Rightarrow>
          bind_act (provision_packages pv rq) (\<lambda>a.
          bind_act (provision_device_mode env pv rq) (\<lambda>b.
          bind_act (provision_license pv rq) (\<lambda>c.
          bind_act (provision_login pv rq) (\<lambda>d.
          recordProvisioning (le_now env) (a @ b @ c @ d))))) s)"

section \<open>Launching\<close>

text \<open>What the launch meets: the machine lock, which is not waited for, the cached image, the host, the
  accelerator, the arguments, the spawn, which in the foreground lasts until QEMU exits, whether the guest answers within a
  time, and whether a failed machine is kept for its diagnosis.\<close>

record launch_env =
  lv_lockNow :: "qerror option"
  lv_factory :: "thrown + disk_image option"
  lv_ctx :: resolution_context
  lv_accel :: "thrown + string"
  lv_args :: "thrown option"
  lv_spawn :: "thrown + nat"
  lv_boots :: "nat \<Rightarrow> bool"
  lv_preserved :: bool
  lv_bootEntry :: "session \<Rightarrow> string"

text \<open>A start ends with a running machine or the exit of a foreground one, with an error, or with an
  error and the outcome of the cleanup after it.\<close>

datatype launch_end = Started | Refused thrown | RolledBack thrown cleanup_outcome

definition session_creds :: "session \<Rightarrow> secret_store" where
  "session_creds s name = Inr (al_get (ss_creds s) name)"

definition or_refused :: "'a act \<Rightarrow> ('a \<Rightarrow> session \<Rightarrow> launch_end \<times> session) \<Rightarrow> session \<Rightarrow> launch_end \<times> session" where
  "or_refused f g s = (case f s of (Inl e, s') \<Rightarrow> (Refused e, s') | (Inr x, s') \<Rightarrow> g x s')"

definition save_handle :: "unit act" where
  "save_handle s = save_state (ss_handle s) s"

text \<open>\<open>unpersistedSocketClaim\<close>: a launch that fails after it has joined its links, and before its
  state is saved, leaves them.\<close>

definition unclaim :: "life_env \<Rightarrow> 'a act \<Rightarrow> 'a act" where
  "unclaim env f s = (case f s of (Inl e, s') \<Rightarrow> (Inl e, snd (leave_links env s')) | r \<Rightarrow> r)"

definition claim_links :: "life_env \<Rightarrow> launch_env \<Rightarrow> resolved_config list act" where
  "claim_links env lv s =
     (case registerAndResolveNetworks (le_host env) (le_now env) (lv_ctx lv) (buildHostfwdString (ms_ports (ss_handle s)))
             (ss_handle s) (ss_reg s) of
        (Inl e, r) \<Rightarrow> (Inl (Coded e), s\<lparr>ss_reg := r\<rparr>) | (Inr ns, r) \<Rightarrow> (Inr ns, s\<lparr>ss_reg := r\<rparr>))"

definition exited :: "string \<Rightarrow> machine_state \<Rightarrow> machine_state" where
  "exited now m = m\<lparr>ms_status := Stopped, mo_lastStartedAt := Some now\<rparr>"

definition booting :: "string \<Rightarrow> string \<Rightarrow> bool \<Rightarrow> nat \<Rightarrow> machine_state \<Rightarrow> machine_state" where
  "booting now accel frozen pid m =
     (let m1 = m\<lparr>mo_pid := Some pid, ms_status := Running, mo_lastStartedAt := Some now,
                 mo_frozen := (if frozen then Some True else None)\<rparr> in
      if frozen then m1\<lparr>mo_lastAccel := Some accel\<rparr> else m1)"

text \<open>From the arguments to the first save.\<close>

definition spawn_and_save :: "life_env \<Rightarrow> launch_env \<Rightarrow> bool \<Rightarrow> bool \<Rightarrow> string \<Rightarrow> unit act" where
  "spawn_and_save env lv foreground frozen accel =
     then_do (fails_with (lv_args lv))
    (bind_act (answer (lv_spawn lv)) (\<lambda>pid.
       if foreground
       then then_do (\<lambda>s. (Inr (), set_kill pid KillGone s))
              (then_do (leave_links env) (then_do (map_handle (exited (le_now env))) save_handle))
       else then_do (\<lambda>s. (Inr (), set_kill pid KillOk s))
              (then_do (map_handle (booting (le_now env) accel frozen pid)) save_handle)))"

text \<open>Disks, links and the spawn: everything before the launch is committed.\<close>

definition commit_launch :: "life_env \<Rightarrow> launch_env \<Rightarrow> bool \<Rightarrow> bool \<Rightarrow> string act" where
  "commit_launch env lv foreground frozen s =
     (let m = ss_handle s in
      then_do (on_disks (ms_machineDir m)
          (ensureConfiguredDisks (le_tools env) (\<not> isProvisioningWindowOpen m) (lv_factory lv) (mo_bootSize m) (mo_extraDisks m) (format_of m)))
        (bind_act (answer (lv_accel lv)) (\<lambda>accel.
         bind_act (claim_links env lv) (\<lambda>_.
         then_do (unclaim env (spawn_and_save env lv foreground frozen accel)) (ret accel)))) s)"

definition record_boot :: "launch_env \<Rightarrow> string \<Rightarrow> unit act" where
  "record_boot lv accel =
     then_do (map_handle (\<lambda>m. m\<lparr>mo_lastAccel := Some accel\<rparr>))
       (then_do save_handle (\<lambda>s. (Inr (), s\<lparr>ss_data := appendBootLog (lv_bootEntry lv s) (ss_data s)\<rparr>)))"

text \<open>The wait, the record of the boot and the provisioning.\<close>

definition bring_up ::
    "life_env \<Rightarrow> launch_env \<Rightarrow> provision_env \<Rightarrow> provisioning_request option \<Rightarrow> machine_state option \<Rightarrow> string
       \<Rightarrow> session \<Rightarrow> launch_end \<times> session" where
  "bring_up env lv pv prov before accel s =
     (let t = defaultBootTimeout env (ms_arch (ss_handle s)) (map_option rq_installAllPackages prov = Some (Some True)) (Some accel) in
      if \<not> lv_boots lv t then
        (case cleanupAfterBootFailure env (lv_preserved lv) (case before of Some m \<Rightarrow> ResetFirstBoot m | None \<Rightarrow> PreserveExisting) s of
           (out, s') \<Rightarrow> (RolledBack (Coded (QuickCHRError BOOT_TIMEOUT ''CHR did not respond'')) out, s'))
      else or_refused (record_boot lv accel) (\<lambda>_ s1.
        case prov of
          None \<Rightarrow> (Started, s1)
        | Some rq \<Rightarrow>
            (case provisionInstance env pv rq s1 of
               (Inr _, s2) \<Rightarrow> (Started, s2)
             | (Inl e, s2) \<Rightarrow> (case rollbackFailedProvisioning env before s2 of (out, s3) \<Rightarrow> (RolledBack e out, s3)))) s)"

text \<open>The provisioning that is left when the window has been shut in between.\<close>

definition remaining :: "provisioning_request option \<Rightarrow> session \<Rightarrow> provisioning_request option result" where
  "remaining prov s =
     (case prov of
        Some rq \<Rightarrow>
          if isProvisioningWindowOpen (ss_handle s) then Inr (Some rq)
          else bind_result (assertProvisioningWindow (session_creds s) (ss_handle s) rq) (\<lambda>_. Inr None)
      | None \<Rightarrow> Inr None)"

definition will_provision :: "provisioning_request option \<Rightarrow> bool" where
  "will_provision prov = (case prov of Some rq \<Rightarrow> wantsProvisioning rq | None \<Rightarrow> False)"

definition launch_body ::
    "life_env \<Rightarrow> launch_env \<Rightarrow> provision_env \<Rightarrow> bool \<Rightarrow> provisioning_request option \<Rightarrow> bool \<Rightarrow> bool
       \<Rightarrow> session \<Rightarrow> launch_end \<times> session" where
  "launch_body env lv pv background prov wait frozen s =
     (if handle_running s then (Started, s)
      else (case remaining prov s of
              Inl e \<Rightarrow> (Refused (Coded e), s)
            | Inr prov' \<Rightarrow>
                (let provisions = will_provision prov';
                     before = (if isProvisioningWindowOpen (ss_handle s) then Some (ss_handle s) else None) in
                 or_refused (commit_launch env lv (\<not> background \<and> \<not> provisions) frozen) (\<lambda>accel s1.
                   if (\<not> background \<and> \<not> provisions) \<or> frozen \<or> \<not> wait then (Started, s1)
                   else bring_up env lv pv (if provisions then prov' else None) before accel s1) s)))"

definition launchExisting ::
    "life_env \<Rightarrow> launch_env \<Rightarrow> provision_env \<Rightarrow> bool \<Rightarrow> provisioning_request option \<Rightarrow> bool \<Rightarrow> session_launch option
       \<Rightarrow> session \<Rightarrow> launch_end \<times> session" where
  "launchExisting env lv pv background prov wait launch s =
     (case lv_lockNow lv of
        Some e \<Rightarrow> (Refused (Coded e), s)
      | None \<Rightarrow> or_refused (then_do assertSameMachine refreshMachineState)
          (\<lambda>_. launch_body env lv pv background prov wait (case launch of Some l \<Rightarrow> sn_frozen l | None \<Rightarrow> False)) s)"

text \<open>\<open>start\<close> of a name in the list of machines; the handle is what the listing reads.\<close>

definition startExisting ::
    "life_env \<Rightarrow> launch_env \<Rightarrow> provision_env \<Rightarrow> (arch \<Rightarrow> unit result) \<Rightarrow> (string \<Rightarrow> string result) \<Rightarrow> launch_options
       \<Rightarrow> session \<Rightarrow> launch_end \<times> session" where
  "startExisting env lv pv host resolve options s =
     (let opts = normalizeStartOptions options in
      case start_guards opts of
        Inl e \<Rightarrow> (Refused (Coded e), s)
      | Inr _ \<Rightarrow>
          (case assertNamedSocketsHaveRoom (he_platform (le_host env)) (lo_name opts) (lo_networks opts) (lo_network opts) (ss_reg s) of
             (Inl e, r) \<Rightarrow> (Refused (Coded e), s\<lparr>ss_reg := r\<rparr>)
           | (Inr _, r) \<Rightarrow>
               (let s0 = s\<lparr>ss_reg := r\<rparr> in
                case plan_start (session_creds s0) (ss_kill s0) host resolve opts (ss_handle s0) of
                  Inl e \<Rightarrow> (Refused (Coded e), s0)
                | Inr ReturnHandle \<Rightarrow> (Started, s0)
                | Inr (Relaunch prov) \<Rightarrow>
                    launchExisting env lv pv (lo_background opts \<noteq> Some False) prov (lo_wait opts \<noteq> Some False) (sessionLaunch opts) s0)))"

text \<open>\<open>QuickCHR.get\<close> of a machine whose file is read into the handle.\<close>

definition get_instance :: "unit act" where
  "get_instance s =
     (if ms_status (ss_handle s) = Running \<and> \<not> handle_running s
      then then_do (map_handle mark_stopped) save_handle s else (Inr (), s))"

end
