(* ===== verification/Launch_Facts.thy ===== *)
theory Launch_Facts
  imports Launch
begin

text \<open>
  What a launch guarantees: what it records, what it leaves when it fails, and what becomes of the links,
  the files and the other machines.
\<close>

section \<open>Writes to the file\<close>

lemma update_saved_result:
  assumes "sound s" "loadMachine (ss_data s) (own_name s) = Inr (Some mf)" and f: "ms_name (f mf) = ms_name mf"
  shows "\<exists>d. update_saved f s = (Inr (), s\<lparr>ss_data := d\<rparr>) \<and> sound (s\<lparr>ss_data := d\<rparr>)
    \<and> loadMachine d (own_name s) = Inr (Some (f mf)) \<and> (\<forall>n. n \<noteq> own_name s \<longrightarrow> loadMachine d n = loadMachine (ss_data s) n)"
proof -
  have n: "ms_name mf = own_name s" by (rule with_lock_agrees(3) [OF assms(1,2)])
  have "loaded_state (ss_data s) (ms_name (f mf)) \<noteq> None" using assms(2) n f loaded_load by auto
  from save_in_session [OF assms(1) this] show ?thesis by (simp add: update_saved_def assms(2) f n)
qed

lemma dual_write_file:
  assumes "sound s" "loadMachine (ss_data s) (own_name s) = Inr (Some mf)" and f: "\<And>m. ms_name (f m) = ms_name m"
  shows "\<exists>d. dual_write f s = (Inr (), s\<lparr>ss_data := d, ss_handle := f (ss_handle s)\<rparr>)
    \<and> sound (s\<lparr>ss_data := d, ss_handle := f (ss_handle s)\<rparr>)
    \<and> loadMachine d (own_name s) = Inr (Some (f mf)) \<and> (\<forall>n. n \<noteq> own_name s \<longrightarrow> loadMachine d n = loadMachine (ss_data s) n)"
  using update_saved_result [where f = f, OF assms(1,2) f]
  by (auto simp: dual_write_def then_do_run map_handle_def sound_def)

text \<open>What \<open>add\<close> recorded for the first boot, and the interfaces.\<close>

definition intent :: "machine_state \<Rightarrow> bool option \<times> device_mode_options option \<times> bool option \<times> bool option \<times> network_config list" where
  "intent m = (mo_installAllPackages m, mo_deviceMode m, mo_disableAdmin m, mo_secureLogin m, ms_networks m)"

definition steady :: "session \<Rightarrow> session \<Rightarrow> bool" where
  "steady s s' \<longleftrightarrow> sound s' \<and> agrees s' \<and> own_name s' = own_name s \<and> spares (own_name s) s s'
     \<and> intent (ss_handle s') = intent (ss_handle s)"

lemma steady_refl: "sound s \<Longrightarrow> agrees s \<Longrightarrow> steady s s"
  by (simp add: steady_def)

lemma steady_trans: "steady s s1 \<Longrightarrow> steady s1 s2 \<Longrightarrow> steady s s2"
  unfolding steady_def using spares_trans by metis

lemma steady_start: "steady s s' \<Longrightarrow> sound s'" "steady s s' \<Longrightarrow> agrees s'"
  by (simp_all add: steady_def)

text \<open>The process the handle names is there.\<close>

definition alive :: "session \<Rightarrow> bool" where
  "alive s \<longleftrightarrow> ms_status (ss_handle s) = Running \<and> (case mo_pid (ss_handle s) of Some pid \<Rightarrow> ss_kill s pid = KillOk | None \<Rightarrow> False)"

lemma alive_same:
  "ms_status (ss_handle s') = ms_status (ss_handle s) \<Longrightarrow> mo_pid (ss_handle s') = mo_pid (ss_handle s) \<Longrightarrow> ss_kill s' = ss_kill s
   \<Longrightarrow> alive s' = alive s"
  by (simp add: alive_def split: option.split)

lemma write_steady:
  assumes "sound s" "agrees s" and f: "\<And>m. ms_name (f m) = ms_name m" "\<And>m. intent (f m) = intent m"
  shows "\<exists>s'. dual_write f s = (Inr (), s') \<and> steady s s' \<and> ss_handle s' = f (ss_handle s) \<and> ss_kill s' = ss_kill s"
proof -
  obtain d where d: "dual_write f s = (Inr (), s\<lparr>ss_data := d, ss_handle := f (ss_handle s)\<rparr>)"
    "sound (s\<lparr>ss_data := d, ss_handle := f (ss_handle s)\<rparr>)" "agrees (s\<lparr>ss_data := d, ss_handle := f (ss_handle s)\<rparr>)"
    "\<forall>n. n \<noteq> own_name s \<longrightarrow> loadMachine d n = loadMachine (ss_data s) n"
    using dual_write_result [OF assms(1,2) f(1)] by blast
  then show ?thesis using f by (auto simp: steady_def spares_def own_name_def)
qed

section \<open>The steps of a provisioning\<close>

lemma answer_run: "bind_act (answer r) g s = (case r of Inl e \<Rightarrow> (Inl e, s) | Inr x \<Rightarrow> g x s)"
  by (simp add: bind_act_def answer_def)

definition packages_set :: "provision_env \<Rightarrow> provisioning_request \<Rightarrow> machine_state \<Rightarrow> machine_state" where
  "packages_set pv rq m =
     (if rq_installAllPackages rq = Some True \<or> \<not> no_items (rq_packages rq)
      then (case pv_packages pv of Inr ps \<Rightarrow> m\<lparr>ms_packages := ps\<rparr> | Inl _ \<Rightarrow> m) else m)"

definition step_if :: "bool \<Rightarrow> provisioning_step \<Rightarrow> provisioning_step list" where
  "step_if b s = (if b then [s] else [])"

lemma packages_step:
  assumes "sound s" "agrees s"
  shows "case provision_packages pv rq s of
      (Inl _, s') \<Rightarrow> steady s s'
    | (Inr a, s') \<Rightarrow> steady s s' \<and> a = step_if (rq_installAllPackages rq = Some True \<or> \<not> no_items (rq_packages rq)) StPackages
        \<and> ss_handle s' = packages_set pv rq (ss_handle s) \<and> (alive s \<longrightarrow> alive s')"
proof (cases "pv_packages pv")
  case (Inl e)
  then show ?thesis using steady_refl [OF assms]
    by (auto simp: provision_packages_def answer_run ret_def step_if_def packages_set_def)
next
  case (Inr ps)
  obtain s' where "dual_write (\<lambda>m. m\<lparr>ms_packages := ps\<rparr>) s = (Inr (), s')" "steady s s'"
      "ss_handle s' = (ss_handle s)\<lparr>ms_packages := ps\<rparr>" "ss_kill s' = ss_kill s"
    using write_steady [OF assms, of "\<lambda>m. m\<lparr>ms_packages := ps\<rparr>"] by (auto simp: intent_def)
  then show ?thesis
    using Inr steady_refl [OF assms] alive_same [of s' s]
    by (auto simp: provision_packages_def answer_run then_do_run ret_def step_if_def packages_set_def split: sum.splits)
qed

lemma hard_reboot_handle:
  assumes "sound s" "agrees s"
  shows "\<exists>r s'. hardRebootMachine env rb s = (r, s') \<and> steady s s'
    \<and> (case r of Inl _ \<Rightarrow> True | Inr _ \<Rightarrow> alive s' \<and> (\<exists>pid. ss_handle s' = spawned (le_now env) pid (ss_handle s)))"
proof (cases "truthy_pid (ss_handle s)")
  case False
  then show ?thesis using steady_refl [OF assms] by (simp add: hardRebootMachine_def)
next
  case True
  have "\<exists>a k. (if rb_exited rb then (\<lambda>s. (Inr (), set_kill (the (mo_pid (ss_handle s))) KillGone s)) else stop_pid env) s
      = (a, s\<lparr>ss_kill := k\<rparr>)"
    using stop_pid_frame [of env s] by (auto simp: set_kill_def)
  then obtain a k where 1: "(if rb_exited rb then (\<lambda>s. (Inr (), set_kill (the (mo_pid (ss_handle s))) KillGone s)) else stop_pid env) s
      = (a, s\<lparr>ss_kill := k\<rparr>)" by blast
  have base: "steady s (s\<lparr>ss_kill := k'\<rparr>)" for k' using assms by (simp add: steady_def)
  show ?thesis
  proof (cases "\<exists>u pid. a = Inr u \<and> rb_args rb = None \<and> rb_spawn rb = Inr pid")
    case False
    then have "\<exists>r. hardRebootMachine env rb s = (Inl r, s\<lparr>ss_kill := k\<rparr>)"
      using True 1 by (auto simp: hardRebootMachine_def then_do_run throw_def ret_def split: sum.splits option.splits)
    then show ?thesis using base by fastforce
  next
    case True2: True
    then obtain u pid where a: "a = Inr u" "rb_args rb = None" "rb_spawn rb = Inr pid" by blast
    let ?x = "if rb_quit rb = None \<and> rb_exited rb then ''monitor'' else ''signal''"
    let ?m = "spawned (le_now env) pid (ss_handle s)"
    let ?s = "s\<lparr>ss_kill := k(pid := KillOk), ss_handle := ?m\<rparr>"
    have n: "ms_name ?m = own_name s" by (simp add: spawned_def own_name_def)
    have "loaded_state (ss_data ?s) (ms_name ?m) \<noteq> None" using assms(2) loaded_load n by (auto simp: agrees_def)
    moreover have "sound ?s" using assms(1) by (simp add: sound_def)
    ultimately obtain d where d: "save_state ?m ?s = (Inr (), ?s\<lparr>ss_data := d\<rparr>)" "sound (?s\<lparr>ss_data := d\<rparr>)"
        "loadMachine d (ms_name ?m) = Inr (Some ?m)" "\<forall>n. n \<noteq> ms_name ?m \<longrightarrow> loadMachine d n = loadMachine (ss_data ?s) n"
      using save_in_session [of ?s ?m] by blast
    have "hardRebootMachine env rb s = (Inr ?x, ?s\<lparr>ss_data := d\<rparr>)"
      using True 1 a d(1) by (simp add: hardRebootMachine_def then_do_run [of "if rb_exited rb then _ else _"]
          then_do_run [of "ret ()"] then_do_now ret_def [of "()"] set_kill_def [of pid] then_do_run map_handle_def ret_def)
    moreover have "steady s (?s\<lparr>ss_data := d\<rparr>)"
      using d(2-4) n by (simp add: steady_def agrees_def spares_def own_name_def) (simp add: intent_def spawned_def)
    ultimately show ?thesis by (auto simp: alive_def spawned_def)
  qed
qed

lemma device_mode_step:
  assumes "sound s" "agrees s"
  shows "case provision_device_mode env pv rq s of
      (Inl _, s') \<Rightarrow> steady s s'
    | (Inr a, s') \<Rightarrow> steady s s' \<and> a = step_if (asks_device_mode rq) StDeviceMode
        \<and> (ss_handle s' = ss_handle s \<or> (\<exists>pid. ss_handle s' = spawned (le_now env) pid (ss_handle s))) \<and> (alive s \<longrightarrow> alive s')"
proof -
  obtain r s1 where 1: "hardRebootMachine env (pv_reboot pv) s = (r, s1)" "steady s s1"
      "case r of Inl _ \<Rightarrow> True | Inr _ \<Rightarrow> alive s1 \<and> (\<exists>pid. ss_handle s1 = spawned (le_now env) pid (ss_handle s))"
    using hard_reboot_handle [OF assms] by blast
  have "case apply_on env (pv_reboot pv) (pv_apply pv) (resolveDeviceModeOptions (rq_deviceMode rq)) s of
      (Inl _, s') \<Rightarrow> steady s s'
    | (Inr a, s') \<Rightarrow> steady s s' \<and> (ss_handle s' = ss_handle s \<or> (\<exists>pid. ss_handle s' = spawned (le_now env) pid (ss_handle s)))
        \<and> (alive s \<longrightarrow> alive s')"
    using 1 steady_refl [OF assms] by (auto simp: apply_on_def Let_def split: sum.splits)
  then show ?thesis
    using steady_refl [OF assms]
    by (auto simp: provision_device_mode_def Let_def then_do_run ret_def step_if_def asks_device_mode_def split: prod.splits sum.splits)
qed

definition license_set :: "provision_env \<Rightarrow> provisioning_request \<Rightarrow> machine_state \<Rightarrow> machine_state" where
  "license_set pv rq m =
     (if truthy_license (rq_license rq) then m\<lparr>mo_licenseLevel := Some (actual_level pv (the (rq_license rq)))\<rparr> else m)"

lemma license_step:
  assumes "sound s" "agrees s"
  shows "case provision_license pv rq s of
      (Inl _, s') \<Rightarrow> steady s s'
    | (Inr a, s') \<Rightarrow> steady s s' \<and> a = step_if (truthy_license (rq_license rq)) StLicense
        \<and> ss_handle s' = license_set pv rq (ss_handle s) \<and> (alive s \<longrightarrow> alive s')"
proof -
  let ?f = "\<lambda>m. m\<lparr>mo_licenseLevel := Some (actual_level pv (the (rq_license rq)))\<rparr>"
  obtain s' where "dual_write ?f s = (Inr (), s')" "steady s s'" "ss_handle s' = ?f (ss_handle s)" "ss_kill s' = ss_kill s"
    using write_steady [OF assms, of ?f] by (auto simp: intent_def)
  then show ?thesis
    using steady_refl [OF assms] alive_same [of s' s]
    by (auto simp: provision_license_def answer_run then_do_run ret_def throw_def fails_with_run step_if_def license_set_def
        renew_license_def split: sum.splits option.splits)
qed

lemma login_result:
  assumes "sound s" "agrees s"
  shows "case provision_login pv rq s of
      (Inl _, s') \<Rightarrow> s' = s
    | (Inr a, s') \<Rightarrow> sound s' \<and> own_name s' = own_name s \<and> spares (own_name s) s s' \<and> a = login_steps rq \<and> (alive s \<longrightarrow> alive s')
        \<and> loadMachine (ss_data s') (own_name s) = Inr (Some (if login_steps rq = [] then ss_handle s
            else (case pv_login pv of Inl _ \<Rightarrow> ss_handle s
                  | Inr (user, key) \<Rightarrow> set_login (map_option (\<lambda>(n, _). (n, STORED_IN_SECRETS_PASSWORD)) user) key (ss_handle s))))"
proof -
  have k: "ms_name (set_login u k m) = ms_name m" "ms_status (set_login u k m) = ms_status m" "mo_pid (set_login u k m) = mo_pid m" for u k m
    by (simp_all add: set_login_def Let_def split: option.split)
  have l: "loadMachine (ss_data s) (own_name s) = Inr (Some (ss_handle s))" using assms(2) by (simp add: agrees_def)
  consider "login_steps rq = []" | "login_steps rq \<noteq> []" "\<exists>e. pv_login pv = Inl e"
    | u key where "login_steps rq \<noteq> []" "pv_login pv = Inr (u, key)" by (cases "pv_login pv") auto
  then show ?thesis
  proof cases
    case 3
    let ?f = "set_login (map_option (\<lambda>(n, _). (n, STORED_IN_SECRETS_PASSWORD)) u) key"
    obtain d where d: "update_saved ?f s = (Inr (), s\<lparr>ss_data := d\<rparr>)" "sound (s\<lparr>ss_data := d\<rparr>)"
        "loadMachine d (own_name s) = Inr (Some (?f (ss_handle s)))" "\<forall>n. n \<noteq> own_name s \<longrightarrow> loadMachine d n = loadMachine (ss_data s) n"
      using update_saved_result [where f = ?f, OF assms(1) l k(1)] by blast
    have none: "set_login None None m = m" for m by (simp add: set_login_def)
    let ?g = "set_login u key"
    show ?thesis
    proof (cases "u = None \<and> key = None")
      case True
      then show ?thesis
        using 3 l assms(1) alive_same [of "s\<lparr>ss_handle := ss_handle s\<rparr>" s]
        by (simp add: provision_login_def answer_run then_do_run ret_def map_handle_def none)
    next
      case False
      then have "provision_login pv rq s = (Inr (login_steps rq), s\<lparr>ss_data := d, ss_handle := ?g (ss_handle s)\<rparr>)"
        using 3 d(1) by (auto simp: provision_login_def answer_run then_do_run ret_def map_handle_def)
      then show ?thesis
        using 3 d alive_same [of "s\<lparr>ss_data := d, ss_handle := ?g (ss_handle s)\<rparr>" s]
        by (simp add: sound_def spares_def own_name_def k)
    qed
  qed (use assms l in \<open>auto simp: provision_login_def answer_run ret_def\<close>)
qed

section \<open>A provisioning that succeeds\<close>

definition asked_steps :: "provisioning_request \<Rightarrow> provisioning_step list" where
  "asked_steps rq =
     step_if (rq_installAllPackages rq = Some True \<or> \<not> no_items (rq_packages rq)) StPackages
     @ step_if (asks_device_mode rq) StDeviceMode @ step_if (truthy_license (rq_license rq)) StLicense @ login_steps rq"

text \<open>The file after a provisioning of \<open>m\<close>.\<close>

definition provisioned :: "string \<Rightarrow> provision_env \<Rightarrow> provisioning_request \<Rightarrow> machine_state \<Rightarrow> machine_state \<Rightarrow> bool" where
  "provisioned now pv rq m m' \<longleftrightarrow>
     mo_provisioning m' = Some \<lparr>pr_at = now, pr_steps = asked_steps rq\<rparr>
     \<and> intent m' = intent m
     \<and> ms_packages m' = ms_packages (packages_set pv rq m)
     \<and> mo_licenseLevel m' = mo_licenseLevel (license_set pv rq m)
     \<and> (mo_user m' = mo_user m \<or> map_option snd (mo_user m') = Some STORED_IN_SECRETS_PASSWORD)"

lemma provision_result:
  assumes "sound s" "agrees s"
  shows "case provisionInstance env pv rq s of
      (Inl _, s') \<Rightarrow> steady s s'
    | (Inr _, s') \<Rightarrow> sound s' \<and> own_name s' = own_name s \<and> spares (own_name s) s s' \<and> (alive s \<longrightarrow> alive s')
        \<and> (\<exists>m'. loadMachine (ss_data s') (own_name s) = Inr (Some m') \<and> provisioned (le_now env) pv rq (ss_handle s) m')"
proof (cases "provisionInstance env pv rq s")
  case (Pair out s9)
  show ?thesis
  proof (cases "assertProvisioningSupportedVersion (ms_version (ss_handle s)) MIN_PROVISION_VERSION")
    case (Inl e)
    then show ?thesis using steady_refl [OF assms] by (simp add: provisionInstance_def)
  next
    case (Inr u)
    obtain a s1 where 1: "provision_packages pv rq s = (a, s1)" by fastforce
    note p1 = packages_step [where pv = pv and rq = rq, OF assms, unfolded 1 prod.case]
    then have t1: "steady s s1" by (simp split: sum.splits)
    obtain b s2 where 2: "provision_device_mode env pv rq s1 = (b, s2)" by fastforce
    note p2 = device_mode_step [where env = env and pv = pv and rq = rq, OF steady_start [OF t1], unfolded 2 prod.case]
    then have t2: "steady s s2" using steady_trans [OF t1] by (simp split: sum.splits)
    obtain c s3 where 3: "provision_license pv rq s2 = (c, s3)" by fastforce
    note p3 = license_step [where pv = pv and rq = rq, OF steady_start [OF t2], unfolded 3 prod.case]
    then have t3: "steady s s3" using steady_trans [OF t2] by (simp split: sum.splits)
    obtain d s4 where 4: "provision_login pv rq s3 = (d, s4)" by fastforce
    note p4 = login_result [where pv = pv and rq = rq, OF steady_start [OF t3], unfolded 4 prod.case]
    show ?thesis
    proof (cases "(\<exists>e. a = Inl e) \<or> (\<exists>e. b = Inl e) \<or> (\<exists>e. c = Inl e) \<or> (\<exists>e. d = Inl e)")
      case True
      then have "\<exists>e s'. provisionInstance env pv rq s = (Inl e, s') \<and> s' \<in> {s1, s2, s3}"
        using 1 2 3 4 p4 Inr by (auto simp: provisionInstance_def bind_act_def split: sum.splits)
      then show ?thesis using t1 t2 t3 by auto
    next
      case False
      then obtain a' b' c' d' where ok: "a = Inr a'" "b = Inr b'" "c = Inr c'" "d = Inr d'"
        by (meson sum.exhaust)
      let ?rec = "\<lambda>m. m\<lparr>mo_provisioning := Some \<lparr>pr_at = le_now env, pr_steps = a' @ b' @ c' @ d'\<rparr>\<rparr>"
      have eq: "provisionInstance env pv rq s = recordProvisioning (le_now env) (a' @ b' @ c' @ d') s4"
        using 1 2 3 4 ok Inr by (simp add: provisionInstance_def bind_act_def)
      have steps: "a' @ b' @ c' @ d' = asked_steps rq" using p1 p2 p3 p4 ok by (simp add: asked_steps_def)
      have n: "own_name s3 = own_name s" "own_name s4 = own_name s" using t3 p4 ok by (simp_all add: steady_def)
      define mf where "mf = (if login_steps rq = [] then ss_handle s3
            else (case pv_login pv of Inl _ \<Rightarrow> ss_handle s3
                  | Inr (user, key) \<Rightarrow> set_login (map_option (\<lambda>(n, _). (n, STORED_IN_SECRETS_PASSWORD)) user) key (ss_handle s3)))"
      have f4: "sound s4" "loadMachine (ss_data s4) (own_name s4) = Inr (Some mf)" "spares (own_name s) s3 s4"
        using p4 ok n by (auto simp: mf_def)
      obtain d9 where d9: "dual_write ?rec s4 = (Inr (), s4\<lparr>ss_data := d9, ss_handle := ?rec (ss_handle s4)\<rparr>)"
          "sound (s4\<lparr>ss_data := d9, ss_handle := ?rec (ss_handle s4)\<rparr>)" "loadMachine d9 (own_name s4) = Inr (Some (?rec mf))"
          "\<forall>n. n \<noteq> own_name s4 \<longrightarrow> loadMachine d9 n = loadMachine (ss_data s4) n"
        using dual_write_file [where f = ?rec, OF f4(1,2)] by auto
      have h: "ss_handle s1 = packages_set pv rq (ss_handle s)"
          "ss_handle s2 = ss_handle s1 \<or> (\<exists>pid. ss_handle s2 = spawned (le_now env) pid (ss_handle s1))"
          "ss_handle s3 = license_set pv rq (ss_handle s2)"
        using p1 p2 p3 ok by auto
      have lic: "mo_licenseLevel (license_set pv rq m1) = mo_licenseLevel (license_set pv rq m2)"
        if "mo_licenseLevel m1 = mo_licenseLevel m2" for m1 m2 using that by (simp add: license_set_def)
      have keep: "intent (ss_handle s3) = intent (ss_handle s)" using t3 by (simp add: steady_def)
      have "ms_packages (ss_handle s3) = ms_packages (packages_set pv rq (ss_handle s)) \<and> mo_user (ss_handle s3) = mo_user (ss_handle s)
          \<and> mo_licenseLevel (ss_handle s3) = mo_licenseLevel (license_set pv rq (ss_handle s))"
      proof -
        have "mo_licenseLevel (ss_handle s2) = mo_licenseLevel (ss_handle s) \<and> mo_user (ss_handle s2) = mo_user (ss_handle s)
            \<and> ms_packages (ss_handle s2) = ms_packages (packages_set pv rq (ss_handle s))"
          using h(1,2) by (auto simp: spawned_def packages_set_def split: sum.splits)
        then show ?thesis using h(3) lic [of "ss_handle s2" "ss_handle s"] by (auto simp: license_set_def)
      qed
      then have "provisioned (le_now env) pv rq (ss_handle s) (?rec mf)"
        using steps keep by (auto simp: provisioned_def mf_def set_login_def Let_def intent_def split: sum.splits option.splits)
      moreover have "alive s \<longrightarrow> alive (s4\<lparr>ss_data := d9, ss_handle := ?rec (ss_handle s4)\<rparr>)"
        using p1 p2 p3 p4 ok alive_same [of "s4\<lparr>ss_data := d9, ss_handle := ?rec (ss_handle s4)\<rparr>" s4] by simp
      moreover have "spares (own_name s) s (s4\<lparr>ss_data := d9, ss_handle := ?rec (ss_handle s4)\<rparr>)"
        using t3 f4(3) d9(4) n spares_trans [of "own_name s" s s3 s4] by (auto simp: steady_def spares_def)
      ultimately show ?thesis
        using d9(1,2,3) n by (simp add: eq recordProvisioning_def own_name_def)
    qed
  qed
qed

section \<open>The launch up to its commit\<close>

lemma save_handle_result:
  assumes "sound s" "loaded_state (ss_data s) (own_name s) \<noteq> None"
  shows "\<exists>d. save_handle s = (Inr (), s\<lparr>ss_data := d\<rparr>) \<and> sound (s\<lparr>ss_data := d\<rparr>) \<and> agrees (s\<lparr>ss_data := d\<rparr>)
    \<and> spares (own_name s) s (s\<lparr>ss_data := d\<rparr>)"
  using save_in_session [OF assms(1), of "ss_handle s"] assms(2)
  by (auto simp: save_handle_def agrees_def own_name_def spares_def)

lemma agrees_loaded: "agrees s \<Longrightarrow> loaded_state (ss_data s) (own_name s) \<noteq> None"
  using loaded_load by (auto simp: agrees_def)

lemma change_and_save:
  assumes "sound s" "agrees s" and f: "ms_name (f (ss_handle s)) = own_name s"
  shows "\<exists>s'. then_do (map_handle f) save_handle s = (Inr (), s') \<and> sound s' \<and> agrees s' \<and> own_name s' = own_name s
    \<and> spares (own_name s) s s' \<and> ss_handle s' = f (ss_handle s) \<and> ss_reg s' = ss_reg s \<and> ss_kill s' = ss_kill s"
proof -
  let ?s = "s\<lparr>ss_handle := f (ss_handle s)\<rparr>"
  have n: "own_name ?s = own_name s" using f by (simp add: own_name_def)
  have "sound ?s" "loaded_state (ss_data ?s) (own_name ?s) \<noteq> None" using assms agrees_loaded [of s] n by (simp_all add: sound_def)
  then obtain d where "save_handle ?s = (Inr (), ?s\<lparr>ss_data := d\<rparr>)" "sound (?s\<lparr>ss_data := d\<rparr>)" "agrees (?s\<lparr>ss_data := d\<rparr>)"
      "spares (own_name s) ?s (?s\<lparr>ss_data := d\<rparr>)" using save_handle_result [of ?s] n by auto
  then show ?thesis using f by (simp add: then_do_run map_handle_def spares_def own_name_def)
qed

text \<open>What a launch that is refused leaves: the files as they were, and the links as they were or left.\<close>

definition untouched :: "session \<Rightarrow> session \<Rightarrow> bool" where
  "untouched s s' \<longleftrightarrow> ss_data s' = ss_data s \<and> ss_creds s' = ss_creds s \<and> spares (own_name s) s s'
     \<and> (rg_disk (ss_reg s') = rg_disk (ss_reg s) \<or> off_links (own_name s) (getSocketNamedNetworks (ss_handle s)) (ss_reg s'))"

lemma spawn_result:
  assumes "sound s" "agrees s"
  shows "case unclaim env (spawn_and_save env lv fg frozen accel) s of
      (Inl _, s') \<Rightarrow> ss_data s' = ss_data s \<and> ss_creds s' = ss_creds s \<and> others_kept (own_name s) (ss_reg s) (ss_reg s')
        \<and> off_links (own_name s) (getSocketNamedNetworks (ss_handle s)) (ss_reg s')
    | (Inr _, s') \<Rightarrow> sound s' \<and> agrees s' \<and> own_name s' = own_name s \<and> spares (own_name s) s s'
        \<and> (if fg then ss_handle s' = exited (le_now env) (ss_handle s)
             \<and> off_links (own_name s) (getSocketNamedNetworks (ss_handle s)) (ss_reg s')
           else alive s' \<and> (\<exists>pid. ss_handle s' = booting (le_now env) accel frozen pid (ss_handle s)))"
proof -
  have bs: "ms_status (booting now a f p m) = Running" "mo_pid (booting now a f p m) = Some p" "ms_name (booting now a f p m) = ms_name m"
    for now a f p m by (simp_all add: booting_def Let_def)
  consider e where "lv_args lv = Some e" | e where "lv_args lv = None" "lv_spawn lv = Inl e" | pid where "lv_args lv = None" "lv_spawn lv = Inr pid"
    by (cases "lv_args lv"; cases "lv_spawn lv") auto
  then show ?thesis
  proof cases
    case 3
    let ?k = "set_kill pid (if fg then KillGone else KillOk) s"
    have k: "sound ?k" "agrees ?k" "own_name ?k = own_name s" "spares (own_name s) s ?k" "ss_handle ?k = ss_handle s"
      using assms by (simp_all add: set_kill_def)
    show ?thesis
    proof (cases fg)
      case False
      obtain s' where s': "then_do (map_handle (booting (le_now env) accel frozen pid)) save_handle ?k = (Inr (), s')" "sound s'" "agrees s'"
          "own_name s' = own_name s" "spares (own_name s) ?k s'" "ss_handle s' = booting (le_now env) accel frozen pid (ss_handle s)"
          "ss_kill s' = ss_kill ?k"
        using change_and_save [where f = "booting (le_now env) accel frozen pid", OF k(1,2)] k(3,5) bs by (auto simp: own_name_def)
      have "alive s'" using s'(6,7) False by (simp add: alive_def bs set_kill_def)
      then show ?thesis
        using 3 False s' spares_trans [OF k(4) s'(5)]
        by (auto simp: unclaim_def spawn_and_save_def then_do_run [of "fails_with _"] fails_with_run answer_run then_do_now [of "set_kill _ _"])
    next
      case True
      obtain r where r: "leave_links env ?k = (Inr (), ?k\<lparr>ss_reg := r\<rparr>)" "sound (?k\<lparr>ss_reg := r\<rparr>)" "others_kept (own_name s) (ss_reg s) r"
          "off_links (own_name s) (getSocketNamedNetworks (ss_handle s)) r"
        using leave_links_result [OF k(1), of env] k(3,5) by (auto simp: set_kill_def)
      let ?l = "?k\<lparr>ss_reg := r\<rparr>"
      have l: "agrees ?l" "own_name ?l = own_name s" "spares (own_name s) s ?l"
        using k r(3) by (simp_all add: agrees_def own_name_def spares_def set_kill_def)
      obtain s' where s': "then_do (map_handle (exited (le_now env))) save_handle ?l = (Inr (), s')" "sound s'" "agrees s'"
          "own_name s' = own_name s" "spares (own_name s) ?l s'" "ss_handle s' = exited (le_now env) (ss_handle s)" "ss_reg s' = r"
        using change_and_save [where f = "exited (le_now env)", OF r(2) l(1)] l(2) k(5) by (auto simp: own_name_def exited_def)
      show ?thesis
        using 3 True s' r(1,4) spares_trans [OF l(3) s'(5)]
        by (auto simp: unclaim_def spawn_and_save_def then_do_run [of "fails_with _"] fails_with_run answer_run then_do_now [of "set_kill _ _"]
            then_do_run [of "leave_links env"])
    qed
  qed (use leave_links_result [OF assms(1), of env] in
      \<open>auto simp: unclaim_def spawn_and_save_def then_do_run [of "fails_with _"] fails_with_run answer_run\<close>)
qed

lemma commit_result:
  assumes "sound s" "agrees s"
  shows "case commit_launch env lv fg frozen s of
      (Inl _, s') \<Rightarrow> untouched s s'
    | (Inr accel, s') \<Rightarrow> sound s' \<and> agrees s' \<and> own_name s' = own_name s \<and> spares (own_name s) s s'
        \<and> (if fg then ss_handle s' = exited (le_now env) (ss_handle s)
             \<and> off_links (own_name s) (getSocketNamedNetworks (ss_handle s)) (ss_reg s')
           else alive s' \<and> (\<exists>pid. ss_handle s' = booting (le_now env) accel frozen pid (ss_handle s)))"
proof -
  let ?m = "ss_handle s"
  let ?disks = "on_disks (ms_machineDir ?m) (ensureConfiguredDisks (le_tools env) (\<not> isProvisioningWindowOpen ?m) (lv_factory lv)
      (mo_bootSize ?m) (mo_extraDisks ?m) (format_of ?m))"
  obtain a s1 where 1: "?disks s = (a, s1)" by fastforce
  have g: "only_guest s s1" using 1 only_guest_on_disks by (metis snd_conv)
  have c: "ss_creds s1 = ss_creds s" using 1 by (auto simp: on_disks_def put_disks_def split: prod.splits sum.splits)
  have k1: "sound s1" "agrees s1" "own_name s1 = own_name s" "spares (own_name s) s s1" "ss_handle s1 = ?m" "ss_data s1 = ss_data s" "ss_reg s1 = ss_reg s"
    using guest_frame [OF g] g assms by (simp_all add: only_guest_def)
  have same: "untouched s s1" using k1 c by (simp add: untouched_def)
  show ?thesis
  proof (cases "\<exists>u accel. a = Inr u \<and> lv_accel lv = Inr accel")
    case False
    then have "\<exists>e. commit_launch env lv fg frozen s = (Inl e, s1)"
      using 1 by (auto simp: commit_launch_def Let_def then_do_run [of ?disks] answer_run split: sum.splits)
    then show ?thesis using same by auto
  next
    case True
    then obtain u accel where ok: "a = Inr u" "lv_accel lv = Inr accel" by blast
    obtain b r where 2: "registerAndResolveNetworks (le_host env) (le_now env) (lv_ctx lv) (buildHostfwdString (ms_ports ?m)) ?m (ss_reg s) = (b, r)"
      by fastforce
    have w: "wf_disk (rg_disk (ss_reg s))" using assms(1) by (simp add: sound_def)
    have rk: "wf_disk (rg_disk r)" "others_kept (own_name s) (ss_reg s) r" "is_ok b \<or> off_links (own_name s) (getSocketNamedNetworks ?m) r"
      using register_resolve_keeps [where m = ?m and env = "le_host env" and now = "le_now env" and ctx = "lv_ctx lv"
          and hostfwd = "buildHostfwdString (ms_ports ?m)", OF w] 2 by (simp_all add: own_name_def)
    let ?s2 = "s1\<lparr>ss_reg := r\<rparr>"
    have k2: "sound ?s2" "agrees ?s2" "own_name ?s2 = own_name s" "spares (own_name s) s ?s2" "ss_handle ?s2 = ?m" "ss_data ?s2 = ss_data s"
      using k1 rk(1,2) by (simp_all add: sound_def agrees_def own_name_def spares_def)
    show ?thesis
    proof (cases b)
      case (Inl e)
      then have "commit_launch env lv fg frozen s = (Inl (Coded e), ?s2)"
        using 1 2 ok k1(5,7) by (simp add: commit_launch_def Let_def then_do_run [of ?disks] answer_run bind_act_def claim_links_def answer_def)
      then show ?thesis using k2 rk Inl c by (simp add: untouched_def)
    next
      case (Inr ns)
      obtain x s3 where 3: "unclaim env (spawn_and_save env lv fg frozen accel) ?s2 = (x, s3)" by fastforce
      have "commit_launch env lv fg frozen s = (case x of Inl e \<Rightarrow> (Inl e, s3) | Inr _ \<Rightarrow> (Inr accel, s3))"
        using 1 2 3 ok k1(5,7) Inr
        by (simp add: commit_launch_def Let_def then_do_run [of ?disks] bind_act_def claim_links_def answer_def then_do_run [of "unclaim _ _"] ret_def
            split: sum.split)
      then show ?thesis
        using spawn_result [where env = env and lv = lv and fg = fg and frozen = frozen and accel = accel, OF k2(1,2), unfolded 3 prod.case] k2 c others_kept_trans [OF rk(2)] spares_trans [OF k2(4)]
        by (auto simp: untouched_def spares_def split: sum.splits)
    qed
  qed
qed

section \<open>A launch that fails after its commit\<close>

text \<open>\<open>m\<close> is the record before the launch.\<close>

definition failed_launch :: "life_env \<Rightarrow> machine_state \<Rightarrow> cleanup_outcome \<Rightarrow> session \<Rightarrow> bool" where
  "failed_launch env m out s' \<longleftrightarrow>
     (case out of
        StopFailed \<Rightarrow> loadMachine (ss_data s') (ms_name m) \<noteq> Inr None
      | Preserved \<Rightarrow> \<not> isProvisioningWindowOpen m \<and> at_rest s' \<and> own_name s' = ms_name m
      | PreservedForDiagnosis \<Rightarrow> isProvisioningWindowOpen m \<and> at_rest s' \<and> own_name s' = ms_name m
      | WasReset \<Rightarrow> loadMachine (ss_data s') (ms_name m) = Inr (Some (record_to_restore m))
          \<and> isProvisioningWindowOpen (record_to_restore m) \<and> factory_guest env m s'
          \<and> off_links (ms_name m) (getSocketNamedNetworks m) (ss_reg s')
      | ResetFailed \<Rightarrow> isProvisioningWindowOpen m \<and> loadMachine (ss_data s') (ms_name m) \<noteq> Inr None
      | Removed \<Rightarrow> False)"

lemma restored_open: "isProvisioningWindowOpen (record_to_restore m) = isProvisioningWindowOpen m"
  by (simp add: isProvisioningWindowOpen_def record_to_restore_def)

lemma same_links: "intent m = intent m' \<Longrightarrow> getSocketNamedNetworks m = getSocketNamedNetworks m'"
  by (simp add: intent_def getSocketNamedNetworks_def)

lemma failed_restore:
  assumes "sound s1" "at_rest s1" "ss_handle s1 = mark_stopped (ss_handle s)" "spares (ms_name m) s s1" "ms_name m = own_name s"
    and "intent (ss_handle s) = intent m" "isProvisioningWindowOpen m"
  shows "case restore_machine env m s1 of (r, s2) \<Rightarrow>
    failed_launch env m (case r of Inl _ \<Rightarrow> ResetFailed | Inr _ \<Rightarrow> WasReset) s2 \<and> spares (ms_name m) s s2"
proof -
  have sp: "spares (own_name s) s s1" using assms(4,5) by simp
  have n: "own_name (s1\<lparr>ss_handle := record_to_restore m\<rparr>) = ms_name m" by (simp add: own_name_def record_to_restore_def)
  show ?thesis
    using restore_outcome [OF assms(1-3) sp assms(5), of env] same_links [OF assms(6)] assms(5,7) n restored_open [of m]
    by (auto simp: outcome_holds_def failed_launch_def agrees_def own_name_def record_to_restore_def split: prod.splits sum.splits)
qed

lemma failed_boot:
  assumes "sound s" "agrees s" "ms_name m = own_name s" "intent (ss_handle s) = intent m"
  shows "case cleanupAfterBootFailure env p (case (if isProvisioningWindowOpen m then Some m else None) of
             Some m \<Rightarrow> ResetFirstBoot m | None \<Rightarrow> PreserveExisting) s of (out, s') \<Rightarrow> failed_launch env m out s' \<and> spares (ms_name m) s s'"
proof -
  obtain a s1 where 1: "stopUnderLock env s = (a, s1)" by fastforce
  note st = stopUnderLock_result [OF assms(1,2), of env, unfolded 1 prod.case]
  show ?thesis
  proof (cases a)
    case (Inl e)
    then show ?thesis using st 1 assms(2,3) by (auto simp: cleanupAfterBootFailure_def failed_launch_def agrees_def)
  next
    case (Inr u)
    then have r: "at_rest s1" "sound s1" "spares (ms_name m) s s1" "ss_handle s1 = mark_stopped (ss_handle s)"
      using st assms(3) by auto
    have "own_name s1 = ms_name m" using rested(1) [OF r(1,4)] assms(3) by simp
    then show ?thesis
      using r 1 Inr failed_restore [OF r(2,1,4,3) assms(3,4), of env]
      by (auto simp: cleanupAfterBootFailure_def failed_launch_def [of env m Preserved] failed_launch_def [of env m PreservedForDiagnosis]
          split: prod.splits sum.splits)
  qed
qed

lemma failed_provisioning:
  assumes "sound s" "agrees s" "ms_name m = own_name s" "intent (ss_handle s) = intent m" "isProvisioningWindowOpen m"
  shows "case rollbackFailedProvisioning env (Some m) s of (out, s') \<Rightarrow> failed_launch env m out s' \<and> spares (ms_name m) s s'"
proof -
  obtain a s1 where 1: "stopUnderLock env s = (a, s1)" by fastforce
  note st = stopUnderLock_result [OF assms(1,2), of env, unfolded 1 prod.case]
  show ?thesis
  proof (cases a)
    case (Inl e)
    then show ?thesis using st 1 assms(2,3,5) by (auto simp: rollbackFailedProvisioning_def failed_launch_def agrees_def)
  next
    case (Inr u)
    then have r: "at_rest s1" "sound s1" "spares (ms_name m) s s1" "ss_handle s1 = mark_stopped (ss_handle s)"
      using st assms(3) by auto
    have "own_name s1 = ms_name m" using rested(1) [OF r(1,4)] assms(3) by simp
    then show ?thesis
      using r 1 Inr assms(5) failed_restore [OF r(2,1,4,3) assms(3,4,5), of env]
      by (auto simp: rollbackFailedProvisioning_def failed_launch_def [of env m PreservedForDiagnosis]
          split: prod.splits sum.splits)
  qed
qed

section \<open>The wait for the guest\<close>

lemma load_log: "loadMachine (d\<lparr>dd_bootLog := l\<rparr>) n = loadMachine d n"
  by (rule load_depends) simp

lemma own_names_log: "own_names (d\<lparr>dd_bootLog := l\<rparr>) = own_names d"
proof -
  have "loaded_state (d\<lparr>dd_bootLog := l\<rparr>) n = loaded_state d n" for n
    using load_log [where d = d and l = l and n = n] by (metis loaded_load option.exhaust)
  then show ?thesis by (simp add: own_names_def listMachineNames_def)
qed

lemma record_boot_result:
  assumes "sound s" "agrees s"
  shows "\<exists>s'. record_boot lv accel s = (Inr (), s') \<and> steady s s' \<and> (alive s \<longrightarrow> alive s')
    \<and> ss_handle s' = (ss_handle s)\<lparr>mo_lastAccel := Some accel\<rparr>"
proof -
  let ?f = "\<lambda>m. m\<lparr>mo_lastAccel := Some accel\<rparr>"
  obtain s1 where s1: "then_do (map_handle ?f) save_handle s = (Inr (), s1)" "sound s1" "agrees s1" "own_name s1 = own_name s"
      "spares (own_name s) s s1" "ss_handle s1 = ?f (ss_handle s)" "ss_kill s1 = ss_kill s"
    using change_and_save [OF assms, of ?f] by (auto simp: own_name_def)
  let ?s = "s1\<lparr>ss_data := appendBootLog (lv_bootEntry lv s1) (ss_data s1)\<rparr>"
  obtain l where l: "appendBootLog (lv_bootEntry lv s1) (ss_data s1) = (ss_data s1)\<lparr>dd_bootLog := l\<rparr>"
    by (simp add: appendBootLog_def Let_def)
  have "record_boot lv accel s = (Inr (), ?s)"
    using s1(1) by (simp add: record_boot_def then_do_assoc) (simp add: then_do_run)
  moreover have "steady s ?s"
    using s1 by (simp add: steady_def sound_def agrees_def own_name_def spares_def l own_names_log load_log) (simp add: intent_def)
  moreover have "alive s \<longrightarrow> alive ?s" using alive_same [of ?s s] s1 by simp
  ultimately show ?thesis using s1 by auto
qed

text \<open>What a started machine records: \<open>m\<close> is the record before.\<close>

definition launched :: "string \<Rightarrow> provisioning_request option \<Rightarrow> machine_state \<Rightarrow> machine_state \<Rightarrow> bool" where
  "launched now prov m m' \<longleftrightarrow> intent m' = intent m
     \<and> mo_provisioning m' = (case prov of Some rq \<Rightarrow> Some \<lparr>pr_at = now, pr_steps = asked_steps rq\<rparr> | None \<Rightarrow> mo_provisioning m)"

lemma bring_up_result:
  assumes "sound s" "agrees s" "ms_name m = own_name s" "intent (ss_handle s) = intent m" "mo_provisioning (ss_handle s) = mo_provisioning m"
    and "alive s" and "prov \<noteq> None \<Longrightarrow> isProvisioningWindowOpen m"
  shows "case bring_up env lv pv prov (if isProvisioningWindowOpen m then Some m else None) accel s of (out, s') \<Rightarrow>
      spares (ms_name m) s s'
      \<and> (case out of
           Refused _ \<Rightarrow> False
         | RolledBack _ o' \<Rightarrow> failed_launch env m o' s'
         | Started \<Rightarrow> alive s' \<and> own_name s' = ms_name m
             \<and> (\<exists>m'. loadMachine (ss_data s') (ms_name m) = Inr (Some m') \<and> launched (le_now env) prov m m'
                   \<and> (isProvisioningWindowOpen m' \<longrightarrow> isProvisioningWindowOpen (ss_handle s))))"
proof -
  let ?t = "defaultBootTimeout env (ms_arch (ss_handle s)) (map_option rq_installAllPackages prov = Some (Some True)) (Some accel)"
  show ?thesis
  proof (cases "lv_boots lv ?t")
    case False
    then show ?thesis
      using failed_boot [OF assms(1-4), of env "lv_preserved lv"] by (auto simp: bring_up_def Let_def split: prod.splits)
  next
    case True
    obtain s1 where 1: "record_boot lv accel s = (Inr (), s1)" "steady s s1" "alive s1" "ss_handle s1 = (ss_handle s)\<lparr>mo_lastAccel := Some accel\<rparr>"
      using record_boot_result [OF assms(1,2), of lv accel] assms(6) by auto
    have k: "sound s1" "agrees s1" "ms_name m = own_name s1" "intent (ss_handle s1) = intent m" "spares (ms_name m) s s1"
      using 1(2) assms(3,4) by (simp_all add: steady_def)
    have p: "mo_provisioning (ss_handle s1) = mo_provisioning m" using 1(4) assms(5) by simp
    show ?thesis
    proof (cases prov)
      case None
      have "isProvisioningWindowOpen (ss_handle s1) = isProvisioningWindowOpen (ss_handle s)"
        using 1(4) by (simp add: isProvisioningWindowOpen_def)
      then show ?thesis using None True 1 k p by (auto simp: bring_up_def Let_def or_refused_def launched_def agrees_def)
    next
      case (Some rq)
      then have w: "isProvisioningWindowOpen m" using assms(7) by simp
      obtain x s2 where 2: "provisionInstance env pv rq s1 = (x, s2)" by fastforce
      note pr = provision_result [where env = env and pv = pv and rq = rq, OF k(1,2), unfolded 2 prod.case]
      show ?thesis
      proof (cases x)
        case (Inl e)
        then have t: "steady s1 s2" using pr by simp
        have k2: "sound s2" "agrees s2" "ms_name m = own_name s2" "intent (ss_handle s2) = intent m" "spares (ms_name m) s s2"
          using t k spares_trans [OF k(5)] by (auto simp: steady_def)
        show ?thesis
          using True 1(1) 2 Inl Some w failed_provisioning [OF k2(1-4) w, of env] spares_trans [OF k2(5)]
          by (auto simp: bring_up_def Let_def or_refused_def split: prod.splits)
      next
        case (Inr u)
        then show ?thesis
          using True 1(1,3) 2 Some pr k spares_trans [OF k(5)]
          by (auto simp: bring_up_def Let_def or_refused_def launched_def provisioned_def isProvisioningWindowOpen_def)
      qed
    qed
  qed
qed

section \<open>The outcome of a launch\<close>

text \<open>The provisioning that a launch runs.\<close>

definition first_provisioning :: "provisioning_request option \<Rightarrow> machine_state \<Rightarrow> provisioning_request option" where
  "first_provisioning prov m =
     (if isProvisioningWindowOpen m \<and> map_option wantsProvisioning prov = Some True then prov else None)"

lemma body_result:
  assumes "sound s" "agrees s" and m: "ss_handle s = m" and "le_now env \<noteq> []"
  shows "case launch_body env lv pv background prov wait frozen s of (out, s') \<Rightarrow>
      spares (own_name s) s s'
      \<and> (case out of
           Refused _ \<Rightarrow> untouched s s'
         | RolledBack _ o' \<Rightarrow> failed_launch env m o' s'
         | Started \<Rightarrow> if handle_running s then s' = s
             else (let p = first_provisioning prov m;
                       foreground = (\<not> background \<and> p = None) in
               own_name s' = own_name s
               \<and> (case loadMachine (ss_data s') (own_name s) of
                    Inr (Some m') \<Rightarrow> \<not> isProvisioningWindowOpen m' \<and> (if foreground then True else alive s')
                      \<and> (if foreground then m' = exited (le_now env) m \<and> off_links (own_name s) (getSocketNamedNetworks m) (ss_reg s')
                         else launched (le_now env) (if wait \<and> \<not> frozen then p else None) m m')
                  | _ \<Rightarrow> False)))"
proof (cases "handle_running s")
  case True
  then show ?thesis by (simp add: launch_body_def)
next
  case stopped: False
  have n: "own_name s = ms_name m" using m by (simp add: own_name_def)
  let ?p = "first_provisioning prov m"
  let ?b = "if isProvisioningWindowOpen m then Some m else None"
  show ?thesis
  proof (cases "remaining prov s")
    case (Inl e)
    then show ?thesis using stopped by (simp add: launch_body_def untouched_def)
  next
    case (Inr prov')
    let ?q = "will_provision prov'"
    have q: "(if ?q then prov' else None) = ?p" "?q \<longleftrightarrow> ?p \<noteq> None"
      using Inr m by (auto simp: will_provision_def first_provisioning_def remaining_def bind_result_def split: option.splits if_splits sum.splits)
    have pw: "?p \<noteq> None \<Longrightarrow> isProvisioningWindowOpen m" by (auto simp: first_provisioning_def split: if_splits)
    let ?fg = "\<not> background \<and> \<not> ?q"
    obtain a s1 where 1: "commit_launch env lv ?fg frozen s = (a, s1)" by fastforce
    note c = commit_result [where env = env and lv = lv and fg = ?fg and frozen = frozen, OF assms(1,2), unfolded 1 prod.case m]
    show ?thesis
    proof (cases a)
      case (Inl e)
      then have "launch_body env lv pv background prov wait frozen s = (Refused e, s1)"
        using stopped Inr 1 by (simp add: launch_body_def Let_def or_refused_def)
      then show ?thesis using c Inl by (simp add: untouched_def)
    next
      case a: (Inr accel)
      then have k: "sound s1" "agrees s1" "own_name s1 = own_name s" "spares (own_name s) s s1" using c by simp_all
      have l1: "loadMachine (ss_data s1) (own_name s) = Inr (Some (ss_handle s1))" using k(2,3) by (simp add: agrees_def)
      show ?thesis
      proof (cases ?fg)
        case True
        then have h: "ss_handle s1 = exited (le_now env) m" "off_links (own_name s) (getSocketNamedNetworks m) (ss_reg s1)" using c a by simp_all
        have eq: "launch_body env lv pv background prov wait frozen s = (Started, s1)"
          using stopped Inr 1 a True by (simp add: launch_body_def Let_def or_refused_def)
        have "\<not> isProvisioningWindowOpen (exited (le_now env) m)" using assms(4) by (simp add: exited_def isProvisioningWindowOpen_def given_text_def)
        then show ?thesis using eq h l1 k q True stopped by (simp add: Let_def)
      next
        case bg: False
        then obtain pid where h: "alive s1" "ss_handle s1 = booting (le_now env) accel frozen pid m" using c a by auto
        have w: "\<not> isProvisioningWindowOpen (ss_handle s1)"
          using h(2) assms(4) by (simp add: booting_def Let_def isProvisioningWindowOpen_def given_text_def)
        have i: "intent (ss_handle s1) = intent m" "mo_provisioning (ss_handle s1) = mo_provisioning m"
          using h(2) by (simp_all add: booting_def Let_def intent_def)
        show ?thesis
        proof (cases "frozen \<or> \<not> wait")
          case True
          then have eq: "launch_body env lv pv background prov wait frozen s = (Started, s1)"
            using stopped Inr 1 a by (auto simp: launch_body_def Let_def or_refused_def)
          have "(if wait \<and> \<not> frozen then ?p else None) = None" using True by auto
          moreover have "\<not> (\<not> background \<and> ?p = None)" using bg q(2) by auto
          ultimately show ?thesis using eq h l1 k stopped w i by (auto simp: launched_def Let_def)
        next
          case False
          then have eq: "launch_body env lv pv background prov wait frozen s = bring_up env lv pv ?p ?b accel s1"
            using stopped Inr 1 a bg m by (cases background) (simp_all add: launch_body_def Let_def or_refused_def flip: q(1))
          obtain out s2 where 2: "bring_up env lv pv ?p ?b accel s1 = (out, s2)" by fastforce
          have b: "spares (ms_name m) s1 s2 \<and> (case out of Refused _ \<Rightarrow> False | RolledBack _ o' \<Rightarrow> failed_launch env m o' s2
             | Started \<Rightarrow> alive s2 \<and> own_name s2 = ms_name m
                 \<and> (\<exists>m'. loadMachine (ss_data s2) (ms_name m) = Inr (Some m') \<and> launched (le_now env) ?p m m'
                     \<and> (isProvisioningWindowOpen m' \<longrightarrow> isProvisioningWindowOpen (ss_handle s1))))"
            using bring_up_result [where env = env and lv = lv and pv = pv and prov = ?p and accel = accel and m = m, OF k(1,2) _ i h(1) pw] 2 k(3) n
            by simp
          show ?thesis
          proof (cases out)
            case Started
            then obtain m' where m': "loadMachine (ss_data s2) (own_name s) = Inr (Some m')" "launched (le_now env) ?p m m'"
                "\<not> isProvisioningWindowOpen m'" "alive s2" "own_name s2 = own_name s" using b w n by auto
            have "(if wait \<and> \<not> frozen then ?p else None) = ?p" "\<not> (\<not> background \<and> ?p = None)" using False bg q(2) by auto
            then show ?thesis
              using eq 2 Started b m' stopped n spares_trans [OF k(4)] by (auto simp: Let_def)
          next
            case (RolledBack e o')
            then show ?thesis using eq 2 b n spares_trans [OF k(4)] by simp
          qed (use b in simp)
        qed
      qed
    qed
  qed
qed

lemma launch_outcome:
  assumes "sound s" "loadMachine (ss_data s) (own_name s) = Inr (Some m)" "le_now env \<noteq> []"
  shows "case launchExisting env lv pv background prov wait launch s of (out, s') \<Rightarrow>
      spares (own_name s) s s'
      \<and> (case out of
           Refused _ \<Rightarrow> untouched (s\<lparr>ss_handle := m\<rparr>) s'
         | RolledBack _ o' \<Rightarrow> failed_launch env m o' s'
         | Started \<Rightarrow> if isMachineRunning (ss_kill s) m then s' = s\<lparr>ss_handle := m\<rparr>
             else (let p = first_provisioning prov m; foreground = (\<not> background \<and> p = None);
                       frozen = (case launch of Some l \<Rightarrow> sn_frozen l | None \<Rightarrow> False) in
               own_name s' = own_name s
               \<and> (case loadMachine (ss_data s') (own_name s) of
                    Inr (Some m') \<Rightarrow> \<not> isProvisioningWindowOpen m' \<and> (if foreground then True else alive s')
                      \<and> (if foreground then m' = exited (le_now env) m \<and> off_links (own_name s) (getSocketNamedNetworks m) (ss_reg s')
                         else launched (le_now env) (if wait \<and> \<not> frozen then p else None) m m')
                  | _ \<Rightarrow> False)))"
proof -
  note k = with_lock_agrees [OF assms(1,2)]
  let ?s = "s\<lparr>ss_handle := m\<rparr>"
  have n: "own_name ?s = own_name s" using k(3) by (simp add: own_name_def)
  have sp: "spares x ?s s' = spares x s s'" for x s' by (simp add: spares_def)
  consider e where "launchExisting env lv pv background prov wait launch s = (Refused e, s)"
    | "launchExisting env lv pv background prov wait launch s
        = launch_body env lv pv background prov wait (case launch of Some l \<Rightarrow> sn_frozen l | None \<Rightarrow> False) ?s"
  proof (cases "lv_lockNow lv = None \<and> mo_createdAt m = mo_createdAt (ss_handle s)")
    case True
    then show ?thesis
      using that(2) assms(2) by (simp add: launchExisting_def or_refused_def then_do_run assertSameMachine_def refreshMachineState_def)
  next
    case False
    then have "\<exists>e. launchExisting env lv pv background prov wait launch s = (Refused e, s)"
      using assms(2) by (auto simp: launchExisting_def or_refused_def then_do_run assertSameMachine_def split: option.splits)
    then show ?thesis using that(1) by blast
  qed
  then show ?thesis
  proof cases
    case 1
    then show ?thesis by (simp add: untouched_def spares_def)
  next
    case 2
    have hm: "ss_handle ?s = m" by simp
    have r: "handle_running ?s = isMachineRunning (ss_kill s) m" by (simp add: handle_running_def)
    show ?thesis
      unfolding 2
      using body_result [where m = m and lv = lv and pv = pv and background = background and prov = prov and wait = wait
          and frozen = "case launch of Some l \<Rightarrow> sn_frozen l | None \<Rightarrow> False", OF k(1,2) hm assms(3)]
      by (simp only: n sp r Let_def session.simps simp_thms)
  qed
qed


definition demo_ask :: provisioning_request where
  "demo_ask = \<lparr>rq_installAllPackages = None, rq_packages = Some [''container''], rq_deviceMode = None, rq_user = None,
     rq_disableAdmin = None, rq_license = None, rq_secureLogin = None\<rparr>"

definition demo_launch :: launch_options where
  "demo_launch = \<lparr>lo_name = Some ''lab'', lo_version = None, lo_request = demo_ask, lo_noAuth = None, lo_wait = None,
     lo_background = None, lo_frozen = None, lo_qemuArgs = None, lo_networks = None, lo_network = None\<rparr>"

definition demo_pv :: provision_env where
  "demo_pv = \<lparr>pv_packages = Inr [''container''], pv_comesBack = Inr False,
     pv_reboot = \<lparr>rb_quit = None, rb_exited = True, rb_args = None, rb_spawn = Inr 52\<rparr>,
     pv_apply = \<lparr>ae_waitApi = Inr (), ae_before = Inr [], ae_attempt = (\<lambda>_. undefined), ae_hardReboot = Inr (), ae_booted = True,
       ae_waitApiAfter = Inr (), ae_after = Inr []\<rparr>,
     pv_credentials = Inr False, pv_renew = None, pv_level = Inr None, pv_login = Inr (None, None)\<rparr>"

definition demo_lv :: launch_env where
  "demo_lv = \<lparr>lv_lockNow = None, lv_factory = Inr (Some demo_image),
     lv_ctx = \<lparr>rc_os = Linux, rc_platformVmnet = None, rc_socketVmnet = None, rc_machine = None, rc_qemuVersion = None\<rparr>,
     lv_accel = Inr ''kvm'', lv_args = None, lv_spawn = Inr 51, lv_boots = (\<lambda>_. True), lv_preserved = False,
     lv_bootEntry = (\<lambda>_. ''boot'')\<rparr>"


section \<open>What a first boot records\<close>

definition device_request :: "device_mode_options \<Rightarrow> provisioning_request" where
  "device_request dm = \<lparr>rq_installAllPackages = None, rq_packages = None, rq_deviceMode = Some dm, rq_user = None,
     rq_disableAdmin = None, rq_license = None, rq_secureLogin = None\<rparr>"

lemma device_request_satisfied:
  assumes "StDeviceMode \<in> set (applied_steps m)"
  shows "list_all ak_satisfied (classifyProvisioningRequest creds m (device_request dm)) \<longleftrightarrow>
    deviceModeSelection (Some dm) = [] \<or> deviceModeSatisfiedBy (deviceModeSelection (mo_deviceMode m)) (deviceModeSelection (Some dm))"
  using assms by (auto simp: classifyProvisioningRequest_def Let_def device_request_def ask_if_def no_items_def truthy_license_def)

text \<open>C15: a provisioning that returns has recorded exactly the steps that were asked for, in order, the packages
  that were installed and the licence level the guest reports, never a password, and has touched no other
  machine; one that throws leaves file and handle in agreement. But the options of this start that were not recorded
  by \<open>add\<close> are not written down: a later device-mode request is taken as already applied exactly when it agrees with the device-mode \<open>add\<close>
  recorded, whatever device-mode \<open>rq\<close> has just applied.\<close>

theorem provision_recorded:
  assumes "sound s" "agrees s"
  shows "case provisionInstance env pv rq s of
      (Inl _, s') \<Rightarrow> agrees s' \<and> spares (own_name s) s s'
    | (Inr _, s') \<Rightarrow> spares (own_name s) s s'
        \<and> (case loadMachine (ss_data s') (own_name s) of
             Inr (Some m') \<Rightarrow> provisioned (le_now env) pv rq (ss_handle s) m'
               \<and> (if asks_device_mode rq then
                    list_all ak_satisfied (classifyProvisioningRequest creds m' (device_request dm)) =
                      (deviceModeSelection (Some dm) = []
                       \<or> deviceModeSatisfiedBy (deviceModeSelection (mo_deviceMode (ss_handle s))) (deviceModeSelection (Some dm)))
                  else True)
           | _ \<Rightarrow> False)"
proof -
  have "list_all ak_satisfied (classifyProvisioningRequest creds m' (device_request dm)) =
      (deviceModeSelection (Some dm) = []
       \<or> deviceModeSatisfiedBy (deviceModeSelection (mo_deviceMode (ss_handle s))) (deviceModeSelection (Some dm)))"
    if "provisioned (le_now env) pv rq (ss_handle s) m'" "asks_device_mode rq" for m'
  proof -
    have "StDeviceMode \<in> set (applied_steps m')"
      using that by (simp add: provisioned_def applied_steps_def asked_steps_def step_if_def)
    moreover have "mo_deviceMode m' = mo_deviceMode (ss_handle s)" using that(1) by (simp add: provisioned_def intent_def)
    ultimately show ?thesis using device_request_satisfied [of m' creds dm] by simp
  qed
  then show ?thesis
    using provision_result [where env = env and pv = pv and rq = rq, OF assms]
    by (auto simp: steady_def split: sum.splits)
qed

theorem provision_recorded_witness:
  "case provisionInstance demo_life demo_pv demo_ask demo_session of
      (Inl _, s') \<Rightarrow> agrees s' \<and> spares (own_name demo_session) demo_session s'
    | (Inr _, s') \<Rightarrow> spares (own_name demo_session) demo_session s'
        \<and> (case loadMachine (ss_data s') (own_name demo_session) of
             Inr (Some m') \<Rightarrow> provisioned (le_now demo_life) demo_pv demo_ask (ss_handle demo_session) m'
               \<and> (if asks_device_mode demo_ask then
                    list_all ak_satisfied (classifyProvisioningRequest (\<lambda>_. Inr None) m' (device_request \<lparr>dm_mode = None, dm_enable = None, dm_disable = None\<rparr>)) =
                      (deviceModeSelection (Some \<lparr>dm_mode = None, dm_enable = None, dm_disable = None\<rparr>) = []
                       \<or> deviceModeSatisfiedBy (deviceModeSelection (mo_deviceMode (ss_handle demo_session)))
                           (deviceModeSelection (Some \<lparr>dm_mode = None, dm_enable = None, dm_disable = None\<rparr>)))
                  else True)
           | _ \<Rightarrow> False)"
  by (rule provision_recorded [OF demo_sound])

section \<open>A start from its options to its end\<close>

lemma room_disk: "rg_disk (snd (links_have_room plat name ls r)) = rg_disk r"
  by (induction ls arbitrary: r) (auto simp: Let_def unavailable_def getNamedSocket_reads split: option.splits prod.splits)


definition dead_session :: session where
  "dead_session = demo_session\<lparr>ss_kill := (\<lambda>_. KillGone)\<rparr>"


end
