(* ===== verification/Cli_Options.thy ===== *)
theory Cli_Options
  imports Cli_Flags Launch_Facts
begin

text \<open>
  From the flags of a command line to the options of the library (\<open>src/cli/index.ts\<close>): the readers of a flag, and
  the options that \<open>add\<close> and \<open>start\<close> build. Warnings and the printing are left out; a command that prints an
  error and exits is the outcome \<open>Exits\<close>.
\<close>

section \<open>Reading one flag\<close>

definition lastFlagValue :: "flags \<Rightarrow> string \<Rightarrow> flag_value option" where
  "lastFlagValue fl key = (case al_get fl key of Some (Repeated xs) \<Rightarrow> Some (Given (last xs)) | v \<Rightarrow> v)"

definition flag :: "flags \<Rightarrow> string \<Rightarrow> string option" where
  "flag fl key = (case lastFlagValue fl key of Some (Given v) \<Rightarrow> Some v | _ \<Rightarrow> None)"

definition cacheTargetFlag :: "flags \<Rightarrow> string \<Rightarrow> thrown + string option" where
  "cacheTargetFlag fl key =
     (case lastFlagValue fl key of
        None \<Rightarrow> Inr None
      | Some (Given v) \<Rightarrow> if v = [] then Inl (Native ''requires a value'') else Inr (Some v)
      | _ \<Rightarrow> Inl (Native ''requires a value''))"

definition flagBool :: "flags \<Rightarrow> string \<Rightarrow> bool" where
  "flagBool fl key \<longleftrightarrow> lastFlagValue fl key \<in> {Some (Switched True), Some (Given ''true'')}"

definition flagOptionalBool :: "flags \<Rightarrow> string \<Rightarrow> bool option" where
  "flagOptionalBool fl key =
     (case lastFlagValue fl key of None \<Rightarrow> None | Some v \<Rightarrow> Some (v \<noteq> Switched False \<and> v \<noteq> Given ''false''))"

definition flagList :: "flags \<Rightarrow> string \<Rightarrow> string list" where
  "flagList fl key = (case al_get fl key of Some (Repeated xs) \<Rightarrow> xs | Some (Given v) \<Rightarrow> [v] | _ \<Rightarrow> [])"

definition csvList :: "string list \<Rightarrow> string list" where
  "csvList values = uniq (filter (\<lambda>v. v \<noteq> []) (map trim (concat (map (split_on (CHR '','')) values))))"

definition negated :: "flags \<Rightarrow> string \<Rightarrow> bool" where
  "negated fl key \<longleftrightarrow> al_get fl key = Some (Switched False)"

definition some_items :: "'a list \<Rightarrow> 'a list option" where
  "some_items xs = (if xs = [] then None else Some xs)"

definition deviceModeFromFlags :: "flags \<Rightarrow> device_mode_options option" where
  "deviceModeFromFlags fl =
     (let mode = flag fl ''device-mode'';
          enable = csvList (flagList fl ''device-mode-enable'');
          disable = csvList (flagList fl ''device-mode-disable'') in
      if negated fl ''device-mode'' then Some \<lparr>dm_mode = Some ''skip'', dm_enable = None, dm_disable = None\<rparr>
      else if mode = None \<and> enable = [] \<and> disable = [] then None
      else Some \<lparr>dm_mode = Some (case mode of Some m \<Rightarrow> m | None \<Rightarrow> ''auto''),
                 dm_enable = some_items enable, dm_disable = some_items disable\<rparr>)"

definition buildNetworks :: "flags \<Rightarrow> network_specifier list option result" where
  "buildNetworks fl =
     bind_result (map_result parseNetworkSpecifier (flagList fl ''add-network'')) (\<lambda>specs.
       Inr (if negated fl ''network'' then Some [] else some_items specs))"

text \<open>\<open>-T\<close> is looked for in all arguments, and taken out of the words together with its value.\<close>

fun drop_short :: "string option \<Rightarrow> string list \<Rightarrow> string list" where
  "drop_short v [] = []"
| "drop_short v (p # ps) =
     (if p = ''-T'' then (case ps of q # qs \<Rightarrow> if v = Some q then qs else ps | [] \<Rightarrow> []) else p # drop_short v ps)"

definition after_short :: "string list \<Rightarrow> string option option" where
  "after_short argv =
     (case dropWhile (\<lambda>a. a \<noteq> ''-T'') argv of
        [] \<Rightarrow> None | [_] \<Rightarrow> Some None | _ # v # _ \<Rightarrow> Some (Some v))"

definition applyTimeoutExtraShortFlag :: "string list \<Rightarrow> flags \<Rightarrow> string list \<Rightarrow> flags \<times> string list" where
  "applyTimeoutExtraShortFlag argv fl pos =
     (case after_short argv of
        None \<Rightarrow> (fl, pos)
      | Some v \<Rightarrow>
          ((case v of Some x \<Rightarrow> if al_get fl ''timeout-extra'' = None then al_put ''timeout-extra'' (Given x) fl else fl | None \<Rightarrow> fl),
           drop_short v pos))"

section \<open>Flags over settings\<close>

definition setting_value :: "string \<Rightarrow> process_env \<Rightarrow> settings_file \<Rightarrow> settings_value option result" where
  "setting_value attr env f = map_sum id rv_value (resolveSetting attr env f)"

definition resolveTimeoutExtraMs :: "flags \<Rightarrow> process_env \<Rightarrow> settings_file \<Rightarrow> nat option result" where
  "resolveTimeoutExtraMs fl env f =
     (case flag fl ''timeout-extra'' of
        Some raw \<Rightarrow> map_sum id (\<lambda>n. Some (n * 1000)) (parseTimeoutExtraSeconds raw)
      | None \<Rightarrow> map_sum id (\<lambda>v. case v of Some (NumValue n) \<Rightarrow> Some (n * 1000) | _ \<Rightarrow> None) (setting_value ''timeout-extra'' env f))"

text \<open>The accelerator override of this process, when there is one.\<close>

definition applyAccelFlag :: "flags \<Rightarrow> string option result" where
  "applyAccelFlag fl =
     (case al_get fl ''accel'' of
        None \<Rightarrow> Inr None
      | Some v \<Rightarrow> map_sum id Some (parseAccelMode (case v of Repeated xs \<Rightarrow> last xs | Given x \<Rightarrow> x | Switched _ \<Rightarrow> [])))"

definition resolveSecureLoginFlag :: "flags \<Rightarrow> bool \<Rightarrow> process_env \<Rightarrow> settings_file \<Rightarrow> bool option result" where
  "resolveSecureLoginFlag fl applySetting env f =
     (if negated fl ''secure-login'' then Inr (Some False)
      else if flagBool fl ''secure-login'' then Inr (Some True)
      else if \<not> applySetting then Inr None
      else map_sum id (\<lambda>v. if v = Some (BoolValue True) then Some True else None) (setting_value ''secure-login'' env f))"

fun wantsCommandHelp :: "string list \<Rightarrow> bool" where
  "wantsCommandHelp [] = False"
| "wantsCommandHelp (arg # rest) =
     (if arg = ''--'' then False else if arg = ''--help'' \<or> arg = ''-h'' then True else wantsCommandHelp rest)"

definition secureLoginSettingApplies :: "flags \<Rightarrow> bool \<Rightarrow> string option \<Rightarrow> bool" where
  "secureLoginSettingApplies fl windowOpen version \<longleftrightarrow>
     windowOpen \<and> \<not> negated fl ''wait'' \<and> al_get fl ''frozen'' \<noteq> Some (Switched True)
     \<and> \<not> isRouterOs6 (case version of Some v \<Rightarrow> v | None \<Rightarrow> [])"

section \<open>Options of \<open>add\<close> and \<open>start\<close>\<close>

datatype 'a cli_outcome = Exits | Throws qerror | Options 'a

definition or_throw :: "'a result \<Rightarrow> ('a \<Rightarrow> 'b cli_outcome) \<Rightarrow> 'b cli_outcome" where
  "or_throw r f = (case r of Inl e \<Rightarrow> Throws e | Inr x \<Rightarrow> f x)"

record cli_options =
  co_version :: "string option"
  co_channel :: "string option"
  co_arch :: "string option"
  co_name :: "string option"
  co_cpu :: "js_number option"
  co_mem :: "js_number option"
  co_portBase :: "js_number option"
  co_excludePorts :: "string list"
  co_networks :: "network_specifier list option"
  co_bootDiskFormat :: string
  co_bootSize :: "string option"
  co_extraDisks :: "string list option"
  co_extraPorts :: "port_mapping list"
  co_qemuArgs :: "string list option"
  co_request :: provisioning_request
  co_timeoutExtra :: "nat option"
  co_wait :: "bool option"
  co_frozen :: "bool option"
  co_background :: "bool option"
  co_dryRun :: bool

definition text_setting :: "string \<Rightarrow> process_env \<Rightarrow> settings_file \<Rightarrow> string option result" where
  "text_setting attr env f = map_sum id (\<lambda>v. case v of Some (StrValue s) \<Rightarrow> Some s | _ \<Rightarrow> None) (setting_value attr env f)"

definition channel_option :: "flags \<Rightarrow> process_env \<Rightarrow> settings_file \<Rightarrow> string option result" where
  "channel_option fl env f =
     (case flag fl ''channel'' of
        Some c \<Rightarrow> Inr (Some c)
      | None \<Rightarrow> if given_text (flag fl ''version'') then Inr None else text_setting ''default-channel'' env f)"

definition arch_option :: "flags \<Rightarrow> process_env \<Rightarrow> settings_file \<Rightarrow> string option result" where
  "arch_option fl env f = (case flag fl ''arch'' of Some a \<Rightarrow> Inr (Some a) | None \<Rightarrow> text_setting ''default-arch'' env f)"

definition number_option :: "flags \<Rightarrow> string \<Rightarrow> js_number option" where
  "number_option fl key = (if given_text (flag fl key) then Some (Number_of (the (flag fl key))) else None)"

definition first_word :: "flags \<Rightarrow> string list \<Rightarrow> string option" where
  "first_word fl pos = or_else (flag fl ''name'') (case pos of p # _ \<Rightarrow> Some p | [] \<Rightarrow> None)"

definition user_option :: "flags \<Rightarrow> (string \<times> string) option" where
  "user_option fl =
     (if given_text (flag fl ''add-user'') then
        (case split_on (CHR '':'') (the (flag fl ''add-user'')) of
           n # p # _ \<Rightarrow> Some (n, p) | [n] \<Rightarrow> Some (n, []) | [] \<Rightarrow> Some ([], []))
      else None)"

definition requested :: "flags \<Rightarrow> license_input option \<Rightarrow> bool option \<Rightarrow> provisioning_request" where
  "requested fl lic secureLogin =
     \<lparr>rq_installAllPackages = flagOptionalBool fl ''install-all-packages'',
      rq_packages = Some (csvList (flagList fl ''add-package'')),
      rq_deviceMode = deviceModeFromFlags fl,
      rq_user = user_option fl,
      rq_disableAdmin = flagOptionalBool fl ''disable-admin'',
      rq_license = lic,
      rq_secureLogin = secureLogin\<rparr>"

text \<open>What both commands read, in the order in which it may throw. \<open>next\<close> is the rest of the command.\<close>

definition common_options ::
    "flags \<Rightarrow> string list \<Rightarrow> process_env \<Rightarrow> settings_file \<Rightarrow> (cli_options \<Rightarrow> cli_options cli_outcome) \<Rightarrow> cli_options cli_outcome" where
  "common_options fl pos env f next =
     or_throw (channel_option fl env f) (\<lambda>channel.
     or_throw (arch_option fl env f) (\<lambda>arch.
     or_throw (buildNetworks fl) (\<lambda>networks.
     or_throw (map_result expandForwardSpec (flagList fl ''forward'')) (\<lambda>forwards.
       next \<lparr>co_version = flag fl ''version'', co_channel = channel, co_arch = arch, co_name = first_word fl pos,
             co_cpu = number_option fl ''cpu'', co_mem = number_option fl ''mem'', co_portBase = number_option fl ''port-base'',
             co_excludePorts = (if negated fl ''winbox'' then [''winbox''] else []) @ (if negated fl ''api-ssl'' then [''api-ssl''] else []),
             co_networks = networks,
             co_bootDiskFormat = (case flag fl ''boot-disk-format'' of Some x \<Rightarrow> x | None \<Rightarrow> ''qcow2''),
             co_bootSize = flag fl ''boot-size'', co_extraDisks = some_items (flagList fl ''add-disk''),
             co_extraPorts = concat forwards, co_qemuArgs = some_items (flagList fl ''qemu-arg''),
             co_request = requested fl None None,
             co_timeoutExtra = None, co_wait = None, co_frozen = None, co_background = None, co_dryRun = False\<rparr>))))"

text \<open>\<open>cmdAdd\<close> up to the call of \<open>QuickCHR.add\<close>.\<close>

definition add_options :: "string list \<Rightarrow> process_env \<Rightarrow> settings_file \<Rightarrow> cli_options cli_outcome" where
  "add_options argv env f =
     or_throw (parseFlags argv) (\<lambda>(fl, pos).
       if rejectUnknownFlags fl ADD_FLAGS ''add'' \<noteq> None then Exits
       else or_throw (applyAccelFlag fl) (\<lambda>_.
         common_options fl pos env f (\<lambda>opts.
           or_throw (resolveSecureLoginFlag fl (\<not> isRouterOs6 (case co_version opts of Some v \<Rightarrow> v | None \<Rightarrow> [])) env f) (\<lambda>secureLogin.
             Options (opts\<lparr>co_request := (co_request opts)\<lparr>rq_secureLogin := secureLogin\<rparr>\<rparr>)))))"

text \<open>The licence of a start; \<open>None\<close> is the exit.\<close>

definition license_option :: "flags \<Rightarrow> process_env \<Rightarrow> license_input option option" where
  "license_option fl env =
     (let level = flag fl ''license-level'';
          account = or_else (flag fl ''license-account'') (env ''MIKROTIK_WEB_ACCOUNT'');
          password = or_else (flag fl ''license-password'') (env ''MIKROTIK_WEB_PASSWORD'') in
      if \<not> given_text level \<and> \<not> given_text account then Some None
      else if \<not> given_text account \<or> \<not> given_text password then None
      else Some (Some (LicenseOptions level)))"

definition wants_foreground :: "flags \<Rightarrow> bool" where
  "wants_foreground fl \<longleftrightarrow>
     flagBool fl ''fg'' \<or> flagBool fl ''foreground'' \<or> negated fl ''background'' \<or> negated fl ''bg''"

text \<open>\<open>cmdStart\<close> of one machine up to the call of \<open>QuickCHR.start\<close>; \<open>target\<close> is what \<open>QuickCHR.get\<close> finds.\<close>

definition start_options_of ::
    "string list \<Rightarrow> process_env \<Rightarrow> settings_file \<Rightarrow> (string \<Rightarrow> machine_state option) \<Rightarrow> cli_options cli_outcome" where
  "start_options_of argv env f target =
     or_throw (parseFlags argv) (\<lambda>(fl0, pos0).
       (let (fl, pos) = applyTimeoutExtraShortFlag argv fl0 pos0 in
        if rejectUnknownFlags fl START_FLAGS ''start'' \<noteq> None then Exits
        else or_throw (applyAccelFlag fl) (\<lambda>_.
          common_options fl pos env f (\<lambda>opts.
            or_throw (resolveTimeoutExtraMs fl env f) (\<lambda>timeoutExtra.
            case license_option fl env of
              None \<Rightarrow> Exits
            | Some lic \<Rightarrow>
                (let found = (if given_text (co_name opts) then target (the (co_name opts)) else None);
                     open = (case found of None \<Rightarrow> True | Some m \<Rightarrow> isProvisioningWindowOpen m);
                     version = (case found of None \<Rightarrow> co_version opts | Some m \<Rightarrow> Some (ms_version m)) in
                 or_throw (resolveSecureLoginFlag fl (secureLoginSettingApplies fl open version) env f) (\<lambda>secureLogin.
                   Options (opts\<lparr>co_request := requested fl lic secureLogin, co_timeoutExtra := timeoutExtra,
                                 co_dryRun := flagBool fl ''dry-run'',
                                 co_wait := (if negated fl ''wait'' then Some False else None),
                                 co_frozen := (if flagBool fl ''frozen'' then Some True else None),
                                 co_background := Some (\<not> wants_foreground fl)\<rparr>))))))))"

text \<open>The batch start: the flags it forwards, and what it refuses.\<close>

definition BATCH_FLAGS :: "string list" where
  "BATCH_FLAGS = [''all'', ''wait'', ''bg'', ''background'', ''accel'', ''timeout-extra'', ''secure-login'']"

definition assert_batch :: "flags \<Rightarrow> unit result" where
  "assert_batch fl =
     (if filter (\<lambda>k. k \<notin> set BATCH_FLAGS) (map fst fl) \<noteq> [] \<or> negated fl ''bg'' \<or> negated fl ''background''
      then Inl (QuickCHRError INVALID_ARGUMENT ''start --all runs in background'') else Inr ())"

text \<open>The options the library reads for a machine that exists.\<close>

definition to_launch :: "cli_options \<Rightarrow> launch_options" where
  "to_launch opts =
     \<lparr>lo_name = co_name opts, lo_version = co_version opts, lo_request = co_request opts, lo_noAuth = None, lo_wait = co_wait opts,
      lo_background = co_background opts, lo_frozen = co_frozen opts, lo_qemuArgs = co_qemuArgs opts,
      lo_networks = co_networks opts, lo_network = None\<rparr>"

section \<open>Silence, refusal and the three spellings\<close>

lemma not_asked_skip: "\<not> shouldApplyDeviceMode (resolveDeviceModeOptions (Some \<lparr>dm_mode = Some ''skip'', dm_enable = None, dm_disable = None\<rparr>))"
  by code_simp

lemma device_mode_silent:
  "al_get fl ''device-mode'' = None \<Longrightarrow> al_get fl ''device-mode-enable'' = None \<Longrightarrow> al_get fl ''device-mode-disable'' = None
   \<Longrightarrow> deviceModeFromFlags fl = None"
  by (simp add: deviceModeFromFlags_def Let_def flag_def lastFlagValue_def flagList_def csvList_def negated_def)

text \<open>at the first boot a provisioning option that the command line does not mention is the one \<open>add\<close>
  recorded, and one that is negated is switched off whatever was recorded: \<open>--no-install-all-packages\<close>, \<open>--no-disable-admin\<close>,
  \<open>--no-secure-login\<close> and \<open>--no-device-mode\<close>. The spelling \<open>--install-all-packages=false\<close> is a negation too, but
  \<open>--secure-login=false\<close> is read as silence: the recorded login, or the one the settings ask for, is made.\<close>

theorem first_boot_flags:
  assumes "resolveSecureLoginFlag fl applySetting env f = Inr secureLogin"
    and "resolveSecureLoginFlag [] applySetting env f = Inr fromSettings"
  shows "let p = pendingProvisioningFor m (requested fl lic secureLogin) in
      rq_installAllPackages p =
        (if al_get fl ''install-all-packages'' = None then mo_installAllPackages m
         else Some (lastFlagValue fl ''install-all-packages'' \<notin> {Some (Switched False), Some (Given ''false'')}))
      \<and> rq_disableAdmin p =
        (if al_get fl ''disable-admin'' = None then mo_disableAdmin m
         else Some (lastFlagValue fl ''disable-admin'' \<notin> {Some (Switched False), Some (Given ''false'')}))
      \<and> rq_secureLogin p =
        (if negated fl ''secure-login'' then Some False
         else if al_get fl ''secure-login'' \<in> {None, Some (Given ''false'')} then or_else fromSettings (mo_secureLogin m)
         else if flagBool fl ''secure-login'' then Some True else or_else fromSettings (mo_secureLogin m))
      \<and> (if negated fl ''device-mode'' then \<not> asks_device_mode p
         else if al_get fl ''device-mode'' = None \<and> al_get fl ''device-mode-enable'' = None \<and> al_get fl ''device-mode-disable'' = None
           then rq_deviceMode p = mo_deviceMode m else rq_deviceMode p = or_else (deviceModeFromFlags fl) (mo_deviceMode m))"
proof -
  have none: "lastFlagValue fl k = None \<longleftrightarrow> al_get fl k = None" for k
    by (simp add: lastFlagValue_def split: option.split flag_value.split)
  have opt: "flagOptionalBool fl k = (if al_get fl k = None then None
      else Some (lastFlagValue fl k \<notin> {Some (Switched False), Some (Given ''false'')}))" for k
    using none [of k] by (auto simp: flagOptionalBool_def split: option.split)
  have given: "al_get fl k = Some (Given ''false'') \<Longrightarrow> \<not> flagBool fl k" for k
    by (simp add: flagBool_def lastFlagValue_def)
  have absent: "al_get fl k = None \<Longrightarrow> \<not> flagBool fl k" for k
    by (simp add: flagBool_def lastFlagValue_def)
  have fs: "fromSettings = (if applySetting then secureLogin else None)" if "\<not> negated fl ''secure-login''" "\<not> flagBool fl ''secure-login''"
    using assms that by (auto simp: resolveSecureLoginFlag_def negated_def flagBool_def lastFlagValue_def al_get_def split: if_splits)
  have sl: "secureLogin = (if negated fl ''secure-login'' then Some False else if flagBool fl ''secure-login'' then Some True else fromSettings)"
    using assms fs by (auto simp: resolveSecureLoginFlag_def split: if_splits)
  have dm: "negated fl ''device-mode'' \<Longrightarrow> deviceModeFromFlags fl = Some \<lparr>dm_mode = Some ''skip'', dm_enable = None, dm_disable = None\<rparr>"
    by (simp add: deviceModeFromFlags_def Let_def)
  show ?thesis
    using opt given absent sl dm device_mode_silent [of fl] not_asked_skip
    by (auto simp: Let_def pendingProvisioningFor_def requested_def or_else_def asks_device_mode_def)
qed

theorem first_boot_flags_witness:
  "let fl = [(''install-all-packages'', Switched False), (''secure-login'', Given ''false'')];
       p = pendingProvisioningFor (demo_state\<lparr>mo_installAllPackages := Some True, mo_secureLogin := Some True\<rparr>) (requested fl None None) in
    rq_installAllPackages p = Some False \<and> rq_secureLogin p = Some True"
  using first_boot_flags [where fl = "[(''install-all-packages'', Switched False), (''secure-login'', Given ''false'')]"
      and applySetting = False and secureLogin = None and fromSettings = None and env = "\<lambda>_. None" and f = "\<lparr>sf_text = None, sf_bak = None\<rparr>"
      and lic = None and m = "demo_state\<lparr>mo_installAllPackages := Some True, mo_secureLogin := Some True\<rparr>"]
  by (simp add: resolveSecureLoginFlag_def negated_def flagBool_def lastFlagValue_def al_get_def Let_def or_else_def)

section \<open>Credentials in the environment\<close>


definition booted_state :: machine_state where
  "booted_state = demo_state\<lparr>mo_lastStartedAt := Some ''2026-01-02''\<rparr>"


section \<open>Passwords with a colon\<close>

lemma split_two:
  "CHR '':'' \<notin> set n \<Longrightarrow> \<exists>ys. split_on (CHR '':'') (n @ CHR '':'' # p) = n # takeWhile (\<lambda>c. c \<noteq> CHR '':'') p # ys"
proof (induction n)
  case Nil
  have "\<exists>ys. split_on (CHR '':'') p = takeWhile (\<lambda>c. c \<noteq> CHR '':'') p # ys"
    by (induction p) (auto split: list.split)
  then show ?case by auto
qed (auto split: list.split)

text \<open>A password given with \<open>--add-user\<close> ends at its first colon.\<close>

lemma user_password_cut:
  assumes "CHR '':'' \<notin> set n" and "al_get fl ''add-user'' = Some (Given (n @ CHR '':'' # p))"
  shows "user_option fl = Some (n, takeWhile (\<lambda>c. c \<noteq> CHR '':'') p)"
  using split_two [OF assms(1), of p] assms(2) by (auto simp: user_option_def flag_def lastFlagValue_def given_text_def)

end
