(* ===== verification/Qemu.thy ===== *)
theory Qemu
  imports Network_Resolve Versions
begin

text \<open>
  The command line of QEMU (\<open>src/lib/qemu.ts\<close>): the arguments of a launch, the EFI variables of an
  arm64 machine, the wrapper of \<open>socket_vmnet\<close>, and what a spawn reports and records. The host answers
  for its binaries, its firmware, its accelerator and for every process that is run.
\<close>

section \<open>What a launch is made of\<close>

record launch_nic = network_config +
  ln_resolved :: "resolved_network option"

record launch_config =
  lc_arch :: arch
  lc_machineDir :: string
  lc_bootDisk :: "string \<times> string"
  lc_extraDisks :: "(string \<times> string) list"
  lc_mem :: nat
  lc_cpu :: nat
  lc_ports :: port_table
  lc_networks :: "launch_nic list"
  lc_background :: bool
  lc_portBase :: nat
  lc_accel :: "string option"
  lc_qemuArgs :: "string list option"
  lc_frozen :: bool

text \<open>A firmware: the code ROM and the template of its variables, each with its content.\<close>

record firmware =
  fw_code :: string
  fw_vars :: string
  fw_codeBytes :: string
  fw_varsBytes :: string

text \<open>The host of a launch. \<open>hq_truncates\<close> and \<open>hq_unlinks\<close> tell whether these calls succeed on a path;
  a conversion ends with an exit code, its two outputs and, when it fails, what it leaves behind.\<close>

datatype image_file = RawImage string | QcowImage string

record launch_host =
  hq_platform :: platform
  hq_requireQemu :: "arch \<Rightarrow> string result"
  hq_detectAccel :: "arch \<Rightarrow> string"
  hq_requireFirmware :: "firmware result"
  hq_requireQemuImg :: "string result"
  hq_truncates :: "string \<Rightarrow> bool"
  hq_unlinks :: "string \<Rightarrow> bool"
  hq_convert :: "nat \<times> string \<times> string"
  hq_leaves :: "image_file option"
  hq_serialLog :: bool

type_synonym image_files = "string \<rightharpoonup> image_file"

definition in_dir :: "platform \<Rightarrow> string \<Rightarrow> string \<Rightarrow> string" where
  "in_dir plat dir f = dir @ (if plat = Win32 then [CHR 0x5C] else ''/'') @ f"

section \<open>EFI variables\<close>

definition image_bytes :: "image_file \<Rightarrow> string" where
  "image_bytes f = (case f of RawImage b \<Rightarrow> b | QcowImage b \<Rightarrow> b)"

text \<open>\<open>truncateSync\<close>: cut, or extended with zero bytes.\<close>

definition truncated :: "nat \<Rightarrow> string \<Rightarrow> string" where
  "truncated n b = take n b @ replicate (n - length b) (CHR 0x00)"

definition unlink :: "launch_host \<Rightarrow> string \<Rightarrow> image_files \<Rightarrow> image_files" where
  "unlink h p fs = (if hq_unlinks h p then fs(p := None) else fs)"

definition size_matched :: "firmware \<Rightarrow> string \<Rightarrow> string" where
  "size_matched fw b = (if length b \<noteq> length (fw_codeBytes fw) then truncated (length (fw_codeBytes fw)) b else b)"

definition convert_message :: "launch_host \<Rightarrow> string" where
  "convert_message h = (case hq_convert h of (exit_code, err, std) \<Rightarrow>
     if trim err \<noteq> [] then trim err else if trim std \<noteq> [] then trim std else ''exit '' @ show_nat exit_code)"

definition stage_path :: "string \<Rightarrow> string" where
  "stage_path dest = dest @ ''.raw-stage''"

definition stage_source :: "firmware \<Rightarrow> string \<Rightarrow> image_files \<Rightarrow> string" where
  "stage_source fw legacy fs = (case fs legacy of Some f \<Rightarrow> image_bytes f | None \<Rightarrow> fw_varsBytes fw)"

definition prepareEfiVars ::
    "launch_host \<Rightarrow> firmware \<Rightarrow> string \<Rightarrow> string \<Rightarrow> image_files \<Rightarrow> unit result \<times> image_files" where
  "prepareEfiVars h fw dest legacy fs =
     (let stage = stage_path dest;
          b = stage_source fw legacy fs;
          fs1 = fs(stage \<mapsto> RawImage b) in
      if length b \<noteq> length (fw_codeBytes fw) \<and> \<not> hq_truncates h stage then
        (Inl (QuickCHRError PROCESS_FAILED ''Failed to size-match EFI vars''), unlink h stage fs1)
      else
        (let fs2 = fs1(stage \<mapsto> RawImage (size_matched fw b)) in
         case hq_requireQemuImg h of
           Inl e \<Rightarrow> (Inl e, fs2)
         | Inr _ \<Rightarrow>
             (if fst (hq_convert h) \<noteq> 0 then
                (Inl (QuickCHRError PROCESS_FAILED (''qemu-img convert of EFI vars failed: '' @ convert_message h)),
                 unlink h dest (unlink h stage (case hq_leaves h of None \<Rightarrow> fs2 | Some f \<Rightarrow> fs2(dest \<mapsto> f))))
              else
                (let fs3 = unlink h stage (fs2(dest \<mapsto> QcowImage (size_matched fw b))) in
                 (Inr (), if fs3 legacy \<noteq> None then unlink h legacy fs3 else fs3)))))"

section \<open>Arguments\<close>

definition cpu_args :: "arch \<Rightarrow> string \<Rightarrow> string list" where
  "cpu_args arch accel =
     (if arch = X86 then (if accel = ''kvm'' \<or> accel = ''hvf'' then [''-cpu'', ''host''] else [])
      else if accel = ''hvf'' then [''-cpu'', ''host''] else [''-cpu'', ''cortex-a710''])"

definition machine_args :: "launch_config \<Rightarrow> string \<Rightarrow> string list" where
  "machine_args c accel =
     [''-M'', if lc_arch c = X86 then ''pc'' else ''virt'',
      ''-m'', show_nat (lc_mem c), ''-smp'', show_nat (lc_cpu c),
      ''-accel'', if accel = ''tcg'' then ''tcg,tb-size=256'' else accel] @ cpu_args (lc_arch c) accel"

definition efi_args :: "firmware \<Rightarrow> string \<Rightarrow> string list" where
  "efi_args fw vars =
     [''-drive'', ''if=pflash,format=raw,readonly=on,unit=0,file='' @ fw_code fw,
      ''-drive'', ''if=pflash,format=qcow2,unit=1,file='' @ vars]"

definition disk_args :: "arch \<Rightarrow> nat \<Rightarrow> string \<times> string \<Rightarrow> string list" where
  "disk_args arch i disk =
     (let file = ''file='' @ fst disk @ '',format='' @ snd disk; drive = ''drive'' @ show_nat i in
      if arch = ARM64 then [''-drive'', file @ '',if=none,id='' @ drive, ''-device'', ''virtio-blk-pci,drive='' @ drive]
      else [''-drive'', file @ '',if=virtio''])"

definition fallback_netdev :: "port_table \<Rightarrow> launch_nic \<Rightarrow> string" where
  "fallback_netdev ports n =
     (case nc_specifier n of
        VmnetShared \<Rightarrow> netdev ''vmnet-shared'' n []
      | VmnetBridged iface \<Rightarrow> netdev ''vmnet-bridged'' n ('',ifname='' @ iface)
      | SocketListen port \<Rightarrow> listen_netdev n (show_nat port)
      | SocketConnect port \<Rightarrow> connect_netdev n (show_nat port)
      | SocketMcast grp port \<Rightarrow> mcast_netdev n grp (show_nat port)
      | Tap ifname \<Rightarrow> netdev ''tap'' n ('',ifname='' @ ifname @ '',script=no,downscript=no'')
      | _ \<Rightarrow> (let fwd = buildHostfwdString ports in netdev ''user'' n (if fwd \<noteq> [] then '','' @ fwd else [])))"

definition nic_launch_args :: "port_table \<Rightarrow> launch_nic \<Rightarrow> string list" where
  "nic_launch_args ports n =
     (case ln_resolved n of Some rn \<Rightarrow> rn_qemuNetdevArgs rn | None \<Rightarrow> nic_args (fallback_netdev ports n) n)"

definition buildNetworkArgs :: "string list \<Rightarrow> port_table \<Rightarrow> launch_nic list \<Rightarrow> string list" where
  "buildNetworkArgs args ports networks = args @ concat (map (nic_launch_args ports) networks)"

definition channel :: "launch_host \<Rightarrow> launch_config \<Rightarrow> string \<Rightarrow> nat \<Rightarrow> string" where
  "channel h c sock offset =
     (if hq_platform h = Win32 then ''host=127.0.0.1,port='' @ show_nat (lc_portBase c + offset)
      else ''path='' @ in_dir (hq_platform h) (lc_machineDir c) sock)"

definition socket_chardev :: "string \<Rightarrow> string \<Rightarrow> string" where
  "socket_chardev cid where_to = ''socket,id='' @ cid @ '','' @ where_to @ '',server=on,wait=off''"

definition serial_log :: "launch_host \<Rightarrow> launch_config \<Rightarrow> string" where
  "serial_log h c =
     (if hq_serialLog h then '',logfile='' @ in_dir (hq_platform h) (lc_machineDir c) ''serial.log'' @ '',logappend=on'' else [])"

definition monitor_args :: "launch_host \<Rightarrow> launch_config \<Rightarrow> string list" where
  "monitor_args h c =
     [''-chardev'', socket_chardev ''monitor0'' (channel h c ''monitor.sock'' 6), ''-mon'', ''chardev=monitor0,mode=readline'']"

definition qga_args :: "launch_host \<Rightarrow> launch_config \<Rightarrow> string list" where
  "qga_args h c =
     (if lc_arch c = X86 then
        [''-device'', ''virtio-serial-pci,id=virtio-serial-qga'',
         ''-chardev'', socket_chardev ''qga0'' (channel h c ''qga.sock'' 8),
         ''-device'', ''virtserialport,chardev=qga0,name=org.qemu.guest_agent.0,id=qga-port0'']
      else [])"

definition buildChannelArgs :: "launch_host \<Rightarrow> launch_config \<Rightarrow> string list" where
  "buildChannelArgs h c =
     (if lc_background c then
        monitor_args h c
        @ [''-chardev'', socket_chardev ''serial0'' (channel h c ''serial.sock'' 7) @ serial_log h c,
           ''-serial'', ''chardev:serial0'']
      else
        [''-chardev'', ''stdio,id=serial0,mux=on,signal=off'', ''-mon'', ''chardev=serial0,mode=readline'',
         ''-serial'', ''chardev:serial0'']
        @ monitor_args h c) @ qga_args h c"

definition frozen_args :: "launch_host \<Rightarrow> launch_config \<Rightarrow> string list" where
  "frozen_args h c =
     (if lc_frozen c then
        [''-S'', ''-gdb'', ''unix:'' @ in_dir (hq_platform h) (lc_machineDir c) ''gdb.sock'' @ '',server=on,wait=off'']
      else [])"

text \<open>The firmware part of an arm64 launch creates the variables when the machine has none.\<close>

definition firmware_args :: "launch_host \<Rightarrow> launch_config \<Rightarrow> image_files \<Rightarrow> string list result \<times> image_files" where
  "firmware_args h c fs =
     (if lc_arch c = ARM64 then
        (case hq_requireFirmware h of
           Inl e \<Rightarrow> (Inl e, fs)
         | Inr fw \<Rightarrow>
             (let vars = in_dir (hq_platform h) (lc_machineDir c) ''efi-vars.qcow2'';
                  legacy = in_dir (hq_platform h) (lc_machineDir c) ''efi-vars.fd'' in
              case (if fs vars = None then prepareEfiVars h fw vars legacy fs else (Inr (), fs)) of
                (Inl e, fs1) \<Rightarrow> (Inl e, fs1)
              | (Inr _, fs1) \<Rightarrow> (Inr (efi_args fw vars), fs1)))
      else (Inr [], fs))"

definition drives_args :: "launch_config \<Rightarrow> string list" where
  "drives_args c = concat (map (\<lambda>(i, d). disk_args (lc_arch c) i d) (enumerate 0 (lc_bootDisk c # lc_extraDisks c)))"

definition tail_args :: "launch_host \<Rightarrow> launch_config \<Rightarrow> string list" where
  "tail_args h c = frozen_args h c @ (case lc_qemuArgs c of None \<Rightarrow> [] | Some xs \<Rightarrow> xs)"

definition buildQemuArgs :: "launch_host \<Rightarrow> launch_config \<Rightarrow> image_files \<Rightarrow> string list result \<times> image_files" where
  "buildQemuArgs h c fs =
     (case hq_requireQemu h (lc_arch c) of
        Inl e \<Rightarrow> (Inl e, fs)
      | Inr bin \<Rightarrow>
          (let accel = (case lc_accel c of Some a \<Rightarrow> a | None \<Rightarrow> hq_detectAccel h (lc_arch c)) in
           case firmware_args h c fs of
             (Inl e, fs1) \<Rightarrow> (Inl e, fs1)
           | (Inr efi, fs1) \<Rightarrow>
               (Inr (buildNetworkArgs (bin # machine_args c accel @ efi @ drives_args c) (lc_ports c) (lc_networks c)
                     @ [''-display'', ''none''] @ buildChannelArgs h c @ tail_args h c), fs1)))"

section \<open>The wrapper\<close>

definition extractWrapper :: "launch_nic list \<Rightarrow> (string \<times> string list) option result" where
  "extractWrapper networks =
     (let wrappers = List.map_filter (\<lambda>n. case ln_resolved n of None \<Rightarrow> None | Some rn \<Rightarrow> rn_wrapper rn) networks in
      if length wrappers > 1 then Inl (QuickCHRError INVALID_NETWORK ''Multiple networks require socket_vmnet wrapper'')
      else Inr (case wrappers of
                  (cmd # rest) # _ \<Rightarrow> if cmd = [] then None else Some (cmd, rest)
                | _ \<Rightarrow> None))"

section \<open>Spawning\<close>

definition has_text :: "string \<Rightarrow> string \<Rightarrow> bool" where
  "has_text s p \<longleftrightarrow> (\<exists>t \<in> set (suffixes s). prefix p t)"

definition buildQemuErrorMessage :: "string \<Rightarrow> string" where
  "buildQemuErrorMessage output =
     (if has_text output ''Permission denied'' then
        ''QEMU exited immediately (permission denied, check image file permissions):'' @ [CHR 0x0A] @ output
      else if has_text output ''pflash'' \<or> has_text output ''EFI'' \<and> has_text output ''size'' then
        ''QEMU exited immediately (EFI firmware size mismatch, try 'quickchr clean <name>' to reset):'' @ [CHR 0x0A] @ output
      else if has_text output ''Address already in use'' then
        ''QEMU exited immediately (port already in use, another process may be using the same ports):'' @ [CHR 0x0A] @ output
      else ''QEMU exited immediately:'' @ [CHR 0x0A] @ output)"

text \<open>How a spawn goes: whether the process lives after a second and a half, the log file, its pid
  (\<open>None\<close> where a spawn on Windows yields none), and the exit code of a foreground run
  (\<open>None\<close> for a signal).\<close>

record spawn_outcome =
  so_pid :: "nat option"
  so_alive :: bool
  so_log :: "string option"
  so_exit :: "nat option"

definition spawn_failed :: "string \<Rightarrow> 'a result" where
  "spawn_failed t = Inl (QuickCHRError SPAWN_FAILED t)"

definition log_tail :: "string option \<Rightarrow> string" where
  "log_tail output = (case output of None \<Rightarrow> ''(no log)'' | Some l \<Rightarrow> drop (length l - 800) l)"

definition spawn_command :: "(string \<times> string list) option \<Rightarrow> string list \<Rightarrow> string list" where
  "spawn_command wrapper args = (case wrapper of None \<Rightarrow> args | Some (cmd, rest) \<Rightarrow> cmd # rest @ args)"

text \<open>The command that ran, the pid, and the content of \<open>qemu.pid\<close> afterwards.\<close>

definition spawnQemu ::
    "platform \<Rightarrow> spawn_outcome \<Rightarrow> string list \<Rightarrow> bool \<Rightarrow> (string \<times> string list) option \<Rightarrow> nat option
     \<Rightarrow> nat result \<times> string list \<times> nat option" where
  "spawnQemu plat o1 args background wrapper pidfile =
     (if args = [] \<or> hd args = [] then (spawn_failed ''Empty QEMU args'', [], pidfile)
      else
        (let cmd = spawn_command wrapper args in
         if background then
           (if plat = Win32 \<and> hd cmd = [] then (spawn_failed ''Empty QEMU args'', [], pidfile)
            else if plat = Win32 \<and> so_pid o1 = None then
              (spawn_failed ''Failed to spawn QEMU process on Windows'', cmd, pidfile)
            else if \<not> so_alive o1 then
              (spawn_failed (buildQemuErrorMessage (log_tail (so_log o1))), cmd, pidfile)
            else (Inr (the (so_pid o1)), cmd, so_pid o1))
         else
           ((case so_exit o1 of
               Some c \<Rightarrow> if c \<noteq> 0 then spawn_failed (''QEMU exited with status '' @ show_nat c) else Inr (the (so_pid o1))
             | None \<Rightarrow> Inr (the (so_pid o1))), cmd, None)))"

definition QEMU_SOCKETS :: "string list" where
  "QEMU_SOCKETS = [''monitor.sock'', ''serial.sock'', ''qga.sock'', ''gdb.sock'']"

definition cleanupQemuSockets :: "launch_host \<Rightarrow> string \<Rightarrow> string set \<Rightarrow> string set" where
  "cleanupQemuSockets h dir present =
     fold (\<lambda>sock ps. let p = in_dir (hq_platform h) dir sock in
                      if p \<in> ps \<and> hq_unlinks h p then ps - {p} else ps) QEMU_SOCKETS present"

definition readinessProbeFor :: "string \<Rightarrow> string" where
  "readinessProbeFor version = (if isRouterOs6 version then ''api'' else ''rest'')"


section \<open>Reading a command line back\<close>

text \<open>QEMU reads a command line as options with a value, but for \<open>-S\<close>, and a value as comma-separated
  parameters.\<close>

fun read_options :: "string list \<Rightarrow> (string \<times> string) list" where
  "read_options [] = []"
| "read_options [f] = [(f, [])]"
| "read_options (f # v # r) = (if f = ''-S'' then (f, []) # read_options (v # r) else (f, v) # read_options r)"

definition read_param :: "string \<Rightarrow> (string \<times> string) option" where
  "read_param p = map_option (\<lambda>i. (take i p, drop (Suc i) p)) (index_of (CHR ''='') p)"

definition param :: "string \<Rightarrow> string \<Rightarrow> string option" where
  "param k v = map_of (List.map_filter read_param (split_on (CHR '','') v)) k"

definition option_values :: "string \<Rightarrow> (string \<times> string) list \<Rightarrow> string list" where
  "option_values f opts = map snd (filter (\<lambda>o1. fst o1 = f) opts)"

definition ids_of :: "string \<Rightarrow> (string \<times> string) list \<Rightarrow> string list" where
  "ids_of f opts = List.map_filter (param ''id'') (option_values f opts)"

text \<open>A line is wired when the ids of each kind are distinct and every reference has its target.\<close>

definition refers :: "string \<Rightarrow> string list \<Rightarrow> string \<Rightarrow> bool" where
  "refers k ids v \<longleftrightarrow> (case param k v of None \<Rightarrow> True | Some x \<Rightarrow> x \<in> set ids)"

definition wired :: "(string \<times> string) list \<Rightarrow> bool" where
  "wired opts \<longleftrightarrow>
     distinct (ids_of ''-drive'' opts) \<and> distinct (ids_of ''-netdev'' opts) \<and> distinct (ids_of ''-chardev'' opts)
     \<and> list_all (\<lambda>v. refers ''drive'' (ids_of ''-drive'' opts) v \<and> refers ''netdev'' (ids_of ''-netdev'' opts) v
                   \<and> refers ''chardev'' (ids_of ''-chardev'' opts) v) (option_values ''-device'' opts)
     \<and> list_all (refers ''chardev'' (ids_of ''-chardev'' opts)) (option_values ''-mon'' opts)
     \<and> list_all (\<lambda>v. v \<in> (@) ''chardev:'' ` set (ids_of ''-chardev'' opts)) (option_values ''-serial'' opts)"

lemma read_pair: "f \<noteq> ''-S'' \<Longrightarrow> read_options (f # v # r) = (f, v) # read_options r"
  by simp

lemma read_flag: "read_options (''-S'' # r) = (''-S'', []) # read_options r"
  by (cases r) simp_all

definition paired :: "string list \<Rightarrow> bool" where
  "paired xs \<longleftrightarrow> (\<forall>r. read_options (xs @ r) = read_options xs @ read_options r)"

lemma read_paired: "paired xs \<Longrightarrow> read_options (xs @ r) = read_options xs @ read_options r"
  by (simp add: paired_def)

lemma paired_nil: "paired []"
  by (simp add: paired_def)

lemma paired_pair: "f \<noteq> ''-S'' \<Longrightarrow> paired xs \<Longrightarrow> paired (f # v # xs)"
  by (simp add: paired_def read_pair del: read_options.simps(3))

lemma paired_flag: "paired xs \<Longrightarrow> paired (''-S'' # xs)"
  by (simp add: paired_def read_flag del: read_options.simps(3))

lemma paired_append: "paired xs \<Longrightarrow> paired ys \<Longrightarrow> paired (xs @ ys)"
  by (simp add: paired_def)

lemma paired_concat: "(\<And>x. x \<in> set xs \<Longrightarrow> paired (f x)) \<Longrightarrow> paired (concat (map f xs))"
  by (induction xs) (simp_all add: paired_nil paired_append)

lemma read_concat: "(\<And>x. x \<in> set xs \<Longrightarrow> paired (f x)) \<Longrightarrow>
    read_options (concat (map f xs)) = concat (map (read_options \<circ> f) xs)"
  by (induction xs) (simp_all add: paired_def)

lemma values_append: "option_values f (xs @ ys) = option_values f xs @ option_values f ys"
  by (simp add: option_values_def)

lemma values_concat: "option_values f (concat (map g xs)) = concat (map (option_values f \<circ> g) xs)"
  by (induction xs) (simp_all add: option_values_def)

lemma values_cons: "option_values f ((g, v) # r) = (if g = f then v # option_values f r else option_values f r)"
  "option_values f [] = []"
  by (simp_all add: option_values_def)


lemmas param_eval = param_def read_param_def map_filter_Cons split_on_append_sep show_nat_notin

lemma show_nat_comma [simp]: "CHR '','' \<notin> set (show_nat n)"
  by (rule show_nat_notin) (simp add: is_digit_def)

lemma disk_params:
  assumes "CHR '','' \<notin> set p" "CHR '','' \<notin> set f"
  shows "param ''file'' (''file='' @ p @ '',format='' @ f @ '',if=none,id=drive'' @ show_nat i) = Some p"
    "param ''id'' (''file='' @ p @ '',format='' @ f @ '',if=none,id=drive'' @ show_nat i) = Some (''drive'' @ show_nat i)"
    "param ''file'' (''file='' @ p @ '',format='' @ f @ '',if=virtio'') = Some p"
    "param ''id'' (''file='' @ p @ '',format='' @ f @ '',if=virtio'') = None"
  using assms by (simp_all add: param_eval)


lemma ids_of_values: "ids_of f opts = List.map_filter id (map (param ''id'') (option_values f opts))"
  by (simp add: ids_of_def List.map_filter_def filter_map comp_def)

lemma drop_none: "List.map_filter id (map (\<lambda>i. if b then Some (g i) else None) xs) = (if b then map g xs else [])"
  "List.map_filter id (map (Some \<circ> g) xs) = map g xs"
  by (induction xs) (auto simp: List.map_filter_def)

text \<open>The disks.\<close>

definition no_comma :: "string \<Rightarrow> bool" where
  "no_comma s \<longleftrightarrow> CHR '','' \<notin> set s"

definition blk_value :: "nat \<Rightarrow> string" where
  "blk_value i = ''virtio-blk-pci,drive=drive'' @ show_nat i"

lemma paired_disk: "paired (disk_args a i d)"
  by (cases d) (simp add: disk_args_def Let_def paired_nil paired_pair)

lemma read_disk:
  "option_values ''-drive'' (read_options (disk_args a i d)) = [hd (tl (disk_args a i d))]"
  "option_values ''-device'' (read_options (disk_args a i d)) =
     (if a = ARM64 then [blk_value i] else [])"
  "f \<noteq> ''-drive'' \<Longrightarrow> f \<noteq> ''-device'' \<Longrightarrow> option_values f (read_options (disk_args a i d)) = []"
  by (cases d; simp add: disk_args_def Let_def values_cons blk_value_def)+

lemma disk_file:
  "no_comma (fst d) \<Longrightarrow> no_comma (snd d) \<Longrightarrow> param ''file'' (hd (tl (disk_args a i d))) = Some (fst d)"
  "no_comma (fst d) \<Longrightarrow> no_comma (snd d) \<Longrightarrow>
     param ''id'' (hd (tl (disk_args a i d))) = (if a = ARM64 then Some (''drive'' @ show_nat i) else None)"
  by (cases d; use disk_params [where p = "fst d" and f = "snd d"] in \<open>simp add: disk_args_def Let_def no_comma_def\<close>)+

definition disks_of :: "launch_config \<Rightarrow> (string \<times> string) list" where
  "disks_of c = lc_bootDisk c # lc_extraDisks c"

definition plain_disk :: "string \<times> string \<Rightarrow> bool" where
  "plain_disk d \<longleftrightarrow> no_comma (fst d) \<and> no_comma (snd d)"

lemma drives_read:
  "paired (drives_args c)"
  "option_values ''-drive'' (read_options (drives_args c)) =
     map (\<lambda>(i, d). hd (tl (disk_args (lc_arch c) i d))) (enumerate 0 (disks_of c))"
  "option_values ''-device'' (read_options (drives_args c)) =
     (if lc_arch c = ARM64 then map blk_value [0..<length (disks_of c)] else [])"
  "f \<noteq> ''-drive'' \<Longrightarrow> f \<noteq> ''-device'' \<Longrightarrow> option_values f (read_options (drives_args c)) = []"
proof -
  have p: "x \<in> set xs \<Longrightarrow> paired (case x of (i, d) \<Rightarrow> disk_args (lc_arch c) i d)" for x and xs :: "(nat \<times> string \<times> string) list"
    by (cases x) (simp add: paired_disk)
  have m: "map fst (enumerate 0 (disks_of c)) = [0..<length (disks_of c)]" by simp
  show "paired (drives_args c)" unfolding drives_args_def by (rule paired_concat) (rule p)
  have r: "read_options (drives_args c) = concat (map (\<lambda>x. read_options (disk_args (lc_arch c) (fst x) (snd x))) (enumerate 0 (disks_of c)))"
    unfolding drives_args_def disks_of_def [symmetric]
    by (subst read_concat) (auto simp: paired_disk comp_def case_prod_beta)
  show "option_values ''-drive'' (read_options (drives_args c)) =
     map (\<lambda>(i, d). hd (tl (disk_args (lc_arch c) i d))) (enumerate 0 (disks_of c))"
    by (simp add: r values_concat comp_def read_disk case_prod_beta)
  show "option_values ''-device'' (read_options (drives_args c)) =
     (if lc_arch c = ARM64 then map blk_value [0..<length (disks_of c)] else [])"
    unfolding m [symmetric] by (simp add: r values_concat comp_def read_disk del: map_fst_enumerate)
  show "f \<noteq> ''-drive'' \<Longrightarrow> f \<noteq> ''-device'' \<Longrightarrow> option_values f (read_options (drives_args c)) = []"
    by (simp add: r values_concat comp_def read_disk)
qed

lemma drive_files:
  assumes "list_all plain_disk (disks_of c)"
  shows "map (param ''file'') (option_values ''-drive'' (read_options (drives_args c))) = map (Some \<circ> fst) (disks_of c)"
    "ids_of ''-drive'' (read_options (drives_args c)) =
       (if lc_arch c = ARM64 then map (\<lambda>i. ''drive'' @ show_nat i) [0..<length (disks_of c)] else [])"
proof -
  have plain: "(i, d) \<in> set (enumerate k ds) \<Longrightarrow> list_all plain_disk ds \<Longrightarrow> plain_disk d" for i d k and ds :: "(string \<times> string) list"
    by (induction ds arbitrary: k) auto
  have "map (param ''file'') (option_values ''-drive'' (read_options (drives_args c))) = map (\<lambda>x. Some (fst (snd x))) (enumerate 0 (disks_of c))"
    unfolding drives_read map_map using plain assms by (auto simp: disk_file plain_disk_def)
  also have "\<dots> = map (Some \<circ> fst) (map snd (enumerate 0 (disks_of c)))" by (simp only: map_map comp_def)
  finally show "map (param ''file'') (option_values ''-drive'' (read_options (drives_args c))) = map (Some \<circ> fst) (disks_of c)" by simp
  have m: "[0..<length (disks_of c)] = map fst (enumerate 0 (disks_of c))" by simp
  have "map (param ''id'') (option_values ''-drive'' (read_options (drives_args c))) =
      map (\<lambda>x. if lc_arch c = ARM64 then Some (''drive'' @ show_nat (fst x)) else None) (enumerate 0 (disks_of c))"
    unfolding drives_read map_map using plain assms by (auto simp: disk_file plain_disk_def)
  also have "\<dots> = map (\<lambda>i. if lc_arch c = ARM64 then Some (''drive'' @ show_nat i) else None) [0..<length (disks_of c)]"
    unfolding m map_map by (simp add: comp_def del: map_fst_enumerate)
  finally have ids: "map (param ''id'') (option_values ''-drive'' (read_options (drives_args c))) =
      map (\<lambda>i. if lc_arch c = ARM64 then Some (''drive'' @ show_nat i) else None) [0..<length (disks_of c)]" .
  show "ids_of ''-drive'' (read_options (drives_args c)) =
       (if lc_arch c = ARM64 then map (\<lambda>i. ''drive'' @ show_nat i) [0..<length (disks_of c)] else [])"
    by (simp add: ids_of_values ids drop_none)
qed


text \<open>The interfaces.\<close>

definition nic_ready :: "launch_nic \<Rightarrow> bool" where
  "nic_ready n \<longleftrightarrow> no_comma (nc_id n) \<and> (case nc_mac n of None \<Rightarrow> True | Some m \<Rightarrow> no_comma m)
     \<and> (case ln_resolved n of None \<Rightarrow> True | Some rn \<Rightarrow> nic_shape rn (network_config.truncate n))"

lemma fallback_shape:
  "\<exists>kind rest. fallback_netdev ports n = netdev kind n rest \<and> set kind \<inter> {CHR '','', CHR ''=''} = {}
     \<and> (rest = [] \<or> hd rest = CHR '','')"
  (is "\<exists>kind rest. ?P kind rest")
proof -
  have user: "?P ''user'' (let fwd = buildHostfwdString ports in if fwd \<noteq> [] then '','' @ fwd else [])"
    if "case nc_specifier n of UserNet \<Rightarrow> True | Shared \<Rightarrow> True | Bridged _ \<Rightarrow> True | NamedSocket _ \<Rightarrow> True | _ \<Rightarrow> False"
    using that by (simp add: fallback_netdev_def Let_def split: network_specifier.splits)
  show ?thesis
  proof (cases "nc_specifier n")
    case VmnetShared
    then show ?thesis by (intro exI [of _ "''vmnet-shared''"] exI [of _ "[]"]) (simp add: fallback_netdev_def)
  next
    case (VmnetBridged iface)
    then show ?thesis by (intro exI [of _ "''vmnet-bridged''"] exI [of _ "'',ifname='' @ iface"]) (simp add: fallback_netdev_def)
  next
    case (SocketListen p)
    then show ?thesis by (intro exI [of _ "''socket''"] exI [of _ "'',listen=:'' @ show_nat p"]) (simp add: fallback_netdev_def listen_netdev_def)
  next
    case (SocketConnect p)
    then show ?thesis by (intro exI [of _ "''socket''"] exI [of _ "'',connect=127.0.0.1:'' @ show_nat p"]) (simp add: fallback_netdev_def connect_netdev_def)
  next
    case (SocketMcast g p)
    then show ?thesis
      by (intro exI [of _ "''socket''"] exI [of _ "'',mcast='' @ g @ '':'' @ show_nat p"]) (simp add: fallback_netdev_def mcast_netdev_def)
  next
    case (Tap i)
    then show ?thesis
      by (intro exI [of _ "''tap''"] exI [of _ "'',ifname='' @ i @ '',script=no,downscript=no''"]) (simp add: fallback_netdev_def)
  qed (rule exI, rule exI, rule user, simp)+
qed

lemma nic_launch_shape:
  assumes "nic_ready n"
  shows "\<exists>kind rest mac. nic_launch_args ports n =
      [''-netdev'', kind @ '',id='' @ nc_id n @ rest, ''-device'', ''virtio-net-pci,netdev='' @ nc_id n @ mac]
    \<and> set kind \<inter> {CHR '','', CHR ''=''} = {} \<and> (rest = [] \<or> hd rest = CHR '','')
    \<and> (mac = [] \<or> (\<exists>m. mac = '',mac='' @ m \<and> no_comma m))"
proof -
  let ?mac = "case nc_mac n of None \<Rightarrow> [] | Some m \<Rightarrow> if m = [] then [] else '',mac='' @ m"
  have mac: "?mac = [] \<or> (\<exists>m. ?mac = '',mac='' @ m \<and> no_comma m)"
    using assms by (auto simp: nic_ready_def split: option.splits)
  have fields: "nc_id (network_config.truncate n) = nc_id n" "nc_mac (network_config.truncate n) = nc_mac n"
    by (simp_all add: network_config.defs)
  have "\<exists>kind rest. nic_launch_args ports n =
      [''-netdev'', kind @ '',id='' @ nc_id n @ rest, ''-device'', ''virtio-net-pci,netdev='' @ nc_id n @ ?mac]
    \<and> set kind \<inter> {CHR '','', CHR ''=''} = {} \<and> (rest = [] \<or> hd rest = CHR '','')"
  proof (cases "ln_resolved n")
    case None
    obtain kind rest where k: "fallback_netdev ports n = netdev kind n rest"
      and w: "set kind \<inter> {CHR '','', CHR ''=''} = {}" "rest = [] \<or> hd rest = CHR '',''"
      using fallback_shape [of ports n] by blast
    have "nic_launch_args ports n = nic_args (netdev kind n rest) n" by (simp add: nic_launch_args_def None k)
    then show ?thesis unfolding nic_args_text using w by blast
  next
    case (Some rn)
    then have "nic_shape rn (network_config.truncate n)" using assms by (simp add: nic_ready_def)
    moreover have "nic_launch_args ports n = rn_qemuNetdevArgs rn" by (simp add: nic_launch_args_def Some)
    ultimately show ?thesis unfolding nic_shape_def fields by (simp only:)
  qed
  then obtain kind rest where "nic_launch_args ports n =
      [''-netdev'', kind @ '',id='' @ nc_id n @ rest, ''-device'', ''virtio-net-pci,netdev='' @ nc_id n @ ?mac]"
    "set kind \<inter> {CHR '','', CHR ''=''} = {}" "rest = [] \<or> hd rest = CHR '',''" by (elim exE conjE)
  then show ?thesis using mac by (intro exI conjI)
qed

lemma nic_params:
  assumes "set kind \<inter> {CHR '','', CHR ''=''} = {}" "no_comma i" "rest = [] \<or> hd rest = CHR '',''"
  shows "param ''id'' (kind @ '',id='' @ i @ rest) = Some i"
proof -
  have k: "CHR '','' \<notin> set kind" "read_param kind = None" using assms(1) by (auto simp: read_param_def)
  have r: "read_param (''id='' @ i) = Some (''id'', i)" by (simp add: read_param_def)
  have "split_on (CHR '','') (i @ rest) = i # (if rest = [] then [] else split_on (CHR '','') (tl rest))"
    using assms(2,3) by (cases rest) (auto simp: no_comma_def split_on_append_sep)
  then show ?thesis using k r by (simp add: param_def split_on_append_sep map_filter_Cons)
qed

lemma device_params:
  assumes "no_comma i" "mac = [] \<or> (\<exists>m. mac = '',mac='' @ m \<and> no_comma m)"
  shows "param ''netdev'' (''virtio-net-pci,netdev='' @ i @ mac) = Some i"
    "param ''drive'' (''virtio-net-pci,netdev='' @ i @ mac) = None"
    "param ''chardev'' (''virtio-net-pci,netdev='' @ i @ mac) = None"
  using assms by (auto simp: param_eval no_comma_def)


lemma nics_read:
  fixes ports :: port_table
  assumes "list_all nic_ready ns"
  defines "xs \<equiv> concat (map (nic_launch_args ports) ns)"
  shows "paired xs \<and> ids_of ''-netdev'' (read_options xs) = map nc_id ns
    \<and> length (option_values ''-netdev'' (read_options xs)) = length ns
    \<and> list_all (\<lambda>v. param ''drive'' v = None \<and> param ''chardev'' v = None
         \<and> (\<exists>i \<in> nc_id ` set ns. param ''netdev'' v = Some i)) (option_values ''-device'' (read_options xs))
    \<and> (\<forall>f. f \<noteq> ''-netdev'' \<longrightarrow> f \<noteq> ''-device'' \<longrightarrow> option_values f (read_options xs) = [])"
  using assms(1) unfolding xs_def
proof (induction ns)
  case Nil
  then show ?case by (simp add: paired_nil ids_of_def values_cons)
next
  case (Cons n ns)
  then have ready: "nic_ready n" and plain: "no_comma (nc_id n)" by (simp_all add: nic_ready_def)
  obtain kind rest mac where args: "nic_launch_args ports n =
      [''-netdev'', kind @ '',id='' @ nc_id n @ rest, ''-device'', ''virtio-net-pci,netdev='' @ nc_id n @ mac]"
    and k: "set kind \<inter> {CHR '','', CHR ''=''} = {}" and r: "rest = [] \<or> hd rest = CHR '',''"
    and mac: "mac = [] \<or> (\<exists>m. mac = '',mac='' @ m \<and> no_comma m)"
    using nic_launch_shape [OF ready, of ports] by (elim exE conjE)
  define nd where "nd = kind @ '',id='' @ nc_id n @ rest"
  define dv where "dv = ''virtio-net-pci,netdev='' @ nc_id n @ mac"
  have nd: "param ''id'' nd = Some (nc_id n)" unfolding nd_def by (rule nic_params) (use k plain r in simp_all)
  have dv: "param ''netdev'' dv = Some (nc_id n)" "param ''drive'' dv = None" "param ''chardev'' dv = None"
    unfolding dv_def using device_params [OF plain mac] by simp_all
  have a: "nic_launch_args ports n = [''-netdev'', nd, ''-device'', dv]" using args by (simp only: nd_def dv_def)
  show ?case using Cons nd dv
    by (auto simp: a paired_pair paired_nil paired_append values_cons ids_of_def map_filter_Cons list_all_iff)
qed

lemma chardev_id: "no_comma cid \<Longrightarrow> param ''id'' (socket_chardev cid where_to @ r) = Some cid"
  by (simp add: socket_chardev_def param_eval no_comma_def)

definition channel_opts :: "launch_host \<Rightarrow> launch_config \<Rightarrow> (string \<times> string) list" where
  "channel_opts h c = read_options (buildChannelArgs h c)"

lemma channels_read:
  "paired (buildChannelArgs h c)"
  "set (ids_of ''-chardev'' (channel_opts h c)) = {''monitor0'', ''serial0''} \<union> (if lc_arch c = X86 then {''qga0''} else {})"
  "distinct (ids_of ''-chardev'' (channel_opts h c))"
  "list_all (\<lambda>v. param ''drive'' v = None \<and> param ''netdev'' v = None
      \<and> (param ''chardev'' v = None \<or> param ''chardev'' v = Some ''qga0'' \<and> lc_arch c = X86)) (option_values ''-device'' (channel_opts h c))"
  "list_all (\<lambda>v. param ''chardev'' v \<in> {Some ''monitor0'', Some ''serial0''}) (option_values ''-mon'' (channel_opts h c))"
  "option_values ''-serial'' (channel_opts h c) = [''chardev:serial0'']"
  "f \<notin> {''-chardev'', ''-device'', ''-mon'', ''-serial''} \<Longrightarrow> option_values f (channel_opts h c) = []"
proof -
  have ids: "param ''id'' (socket_chardev ''monitor0'' w) = Some ''monitor0''"
    "param ''id'' (socket_chardev ''serial0'' w @ r) = Some ''serial0''"
    "param ''id'' (socket_chardev ''qga0'' w) = Some ''qga0''" for w r
    using chardev_id [of "''monitor0''" w "[]"] chardev_id [of "''serial0''" w r] chardev_id [of "''qga0''" w "[]"]
    by (simp_all add: no_comma_def)
  have mons: "param ''id'' ''stdio,id=serial0,mux=on,signal=off'' = Some ''serial0''"
    "param ''chardev'' ''chardev=monitor0,mode=readline'' = Some ''monitor0''"
    "param ''chardev'' ''chardev=serial0,mode=readline'' = Some ''serial0''"
    by (simp_all add: param_eval)
  have devs: "param k ''virtio-serial-pci,id=virtio-serial-qga'' = (if k = ''id'' then Some ''virtio-serial-qga'' else None)"
    "param ''chardev'' ''virtserialport,chardev=qga0,name=org.qemu.guest_agent.0,id=qga-port0'' = Some ''qga0''"
    "param ''drive'' ''virtserialport,chardev=qga0,name=org.qemu.guest_agent.0,id=qga-port0'' = None"
    "param ''netdev'' ''virtserialport,chardev=qga0,name=org.qemu.guest_agent.0,id=qga-port0'' = None" for k
    by (simp_all add: param_eval)
  note defs = channel_opts_def buildChannelArgs_def monitor_args_def qga_args_def
  show "paired (buildChannelArgs h c)" by (simp add: defs paired_pair paired_nil)
  show "set (ids_of ''-chardev'' (channel_opts h c)) = {''monitor0'', ''serial0''} \<union> (if lc_arch c = X86 then {''qga0''} else {})"
    "distinct (ids_of ''-chardev'' (channel_opts h c))"
    by (auto simp: defs values_cons ids_of_def map_filter_Cons ids mons)
  show "list_all (\<lambda>v. param ''drive'' v = None \<and> param ''netdev'' v = None
      \<and> (param ''chardev'' v = None \<or> param ''chardev'' v = Some ''qga0'' \<and> lc_arch c = X86)) (option_values ''-device'' (channel_opts h c))"
    by (simp add: defs values_cons devs)
  show "list_all (\<lambda>v. param ''chardev'' v \<in> {Some ''monitor0'', Some ''serial0''}) (option_values ''-mon'' (channel_opts h c))"
    "option_values ''-serial'' (channel_opts h c) = [''chardev:serial0'']"
    "f \<notin> {''-chardev'', ''-device'', ''-mon'', ''-serial''} \<Longrightarrow> option_values f (channel_opts h c) = []"
    by (auto simp: defs values_cons mons)
qed


section \<open>The EFI variables\<close>

lemma stage_other: "stage_path d \<noteq> d"
  by (simp add: stage_path_def)

text \<open>Preparing the variables touches only three paths. When it succeeds the machine's
  variables hold as many bytes as the code ROM, namely the legacy file's where there is one (which is
  then gone, if it can be deleted) and the template's otherwise, cut or padded with zeroes, so arm64
  snapshots and the NVRAM state both work. When it fails the error says so, the legacy file is intact, and
  no variables are left behind unless a failed conversion left a file that cannot be deleted.\<close>

lemma efi_variables:
  assumes "fs dest = None" "legacy \<noteq> dest" "legacy \<noteq> stage_path dest"
  shows "case prepareEfiVars h fw dest legacy fs of
      (Inr _, fs') \<Rightarrow>
        (\<exists>b. fs' dest = Some (QcowImage b) \<and> length b = length (fw_codeBytes fw)
           \<and> b = truncated (length b) (stage_source fw legacy fs))
        \<and> (hq_unlinks h (stage_path dest) \<longrightarrow> fs' (stage_path dest) = None)
        \<and> (hq_unlinks h legacy \<longrightarrow> fs' legacy = None)
        \<and> (\<forall>p. p \<notin> {dest, stage_path dest, legacy} \<longrightarrow> fs' p = fs p)
    | (Inl e, fs') \<Rightarrow>
        (err_code e = PROCESS_FAILED \<or> Inl e = hq_requireQemuImg h)
        \<and> (fs' dest = None \<or> fs' dest = hq_leaves h \<and> \<not> hq_unlinks h dest)
        \<and> fs' legacy = fs legacy
        \<and> (\<forall>p. p \<notin> {dest, stage_path dest} \<longrightarrow> fs' p = fs p)
        \<and> (hq_unlinks h (stage_path dest) \<longrightarrow> (\<exists>x. hq_requireQemuImg h = Inr x) \<longrightarrow> fs' (stage_path dest) = None)"
proof -
  have len: "length (truncated n b) = n" for n b by (simp add: truncated_def)
  have same: "truncated (length b) b = b" for b by (simp add: truncated_def)
  have sized: "length (size_matched fw b) = length (fw_codeBytes fw)"
    "size_matched fw b = truncated (length (fw_codeBytes fw)) b" for b
    by (auto simp: size_matched_def len same) (metis same)
  note st = stage_other [of dest] stage_other [of dest, symmetric]
  show ?thesis
  proof (cases "hq_requireQemuImg h")
    case (Inl e)
    then show ?thesis using assms st
      by (auto simp: prepareEfiVars_def Let_def unlink_def)
  next
    case (Inr img)
    then show ?thesis using assms st sized
      by (cases "hq_leaves h"; cases "fs legacy") (auto simp: prepareEfiVars_def Let_def unlink_def len)
  qed
qed

section \<open>The whole line\<close>

text \<open>What a launch has to be given: paths, ids and addresses without a comma (QEMU would read one as the
  end of the value), interfaces with distinct ids, and resolved interfaces as the resolution makes them.\<close>

definition launchable :: "launch_host \<Rightarrow> launch_config \<Rightarrow> bool" where
  "launchable h c \<longleftrightarrow> list_all plain_disk (disks_of c) \<and> list_all nic_ready (lc_networks c)
     \<and> distinct (map nc_id (lc_networks c)) \<and> no_comma (lc_machineDir c)
     \<and> (case hq_requireFirmware h of Inr fw \<Rightarrow> no_comma (fw_code fw) | Inl _ \<Rightarrow> True)"

definition vars_path :: "launch_host \<Rightarrow> launch_config \<Rightarrow> string" where
  "vars_path h c = in_dir (hq_platform h) (lc_machineDir c) ''efi-vars.qcow2''"

text \<open>The files of the pflash drives.\<close>

definition pflash_files :: "launch_host \<Rightarrow> launch_config \<Rightarrow> string list" where
  "pflash_files h c = (case hq_requireFirmware h of
     Inr fw \<Rightarrow> if lc_arch c = ARM64 then [fw_code fw, vars_path h c] else [] | Inl _ \<Rightarrow> [])"

lemma vars_no_comma: "no_comma (lc_machineDir c) \<Longrightarrow> no_comma (vars_path h c)"
  by (simp add: vars_path_def no_comma_def in_dir_def)

lemma efi_read:
  assumes "no_comma (fw_code fw)" "no_comma vars"
  shows "paired (efi_args fw vars)"
    "map (param ''file'') (option_values ''-drive'' (read_options (efi_args fw vars))) = [Some (fw_code fw), Some vars]"
    "ids_of ''-drive'' (read_options (efi_args fw vars)) = []"
    "f \<noteq> ''-drive'' \<Longrightarrow> option_values f (read_options (efi_args fw vars)) = []"
  using assms by (simp_all add: efi_args_def paired_pair paired_nil values_cons ids_of_def map_filter_Cons param_eval no_comma_def)

lemma machine_read:
  "paired (machine_args c accel)"
  "f \<notin> {''-M'', ''-m'', ''-smp'', ''-accel'', ''-cpu''} \<Longrightarrow> option_values f (read_options (machine_args c accel)) = []"
  by (auto simp: machine_args_def cpu_args_def paired_pair paired_nil values_cons)

lemma frozen_read:
  "paired (frozen_args h c)"
  "f \<noteq> ''-S'' \<Longrightarrow> f \<noteq> ''-gdb'' \<Longrightarrow> option_values f (read_options (frozen_args h c)) = []"
  "option_values ''-S'' (read_options (frozen_args h c)) = (if lc_frozen c then [[]] else [])"
  by (auto simp: frozen_args_def paired_pair paired_nil paired_flag values_cons)

lemma firmware_result:
  assumes "firmware_args h c fs = (Inr efi, fs')" "launchable h c"
  shows "paired efi \<and> map (param ''file'') (option_values ''-drive'' (read_options efi)) = map Some (pflash_files h c)
    \<and> ids_of ''-drive'' (read_options efi) = [] \<and> (\<forall>f. f \<noteq> ''-drive'' \<longrightarrow> option_values f (read_options efi) = [])
    \<and> (lc_arch c = ARM64 \<longrightarrow> fs' (vars_path h c) \<noteq> None)"
proof (cases "lc_arch c = ARM64")
  case True
  then obtain fw where fw: "hq_requireFirmware h = Inr fw" and efi: "efi = efi_args fw (vars_path h c)"
    using assms(1) by (auto simp: firmware_args_def Let_def vars_path_def split: sum.splits prod.splits if_splits)
  have plain: "no_comma (fw_code fw)" "no_comma (vars_path h c)"
    using assms(2) fw by (simp_all add: launchable_def vars_no_comma)
  have "fs' (vars_path h c) \<noteq> None"
  proof (cases "fs (vars_path h c) = None")
    case fresh: True
    let ?legacy = "in_dir (hq_platform h) (lc_machineDir c) ''efi-vars.fd''"
    have apart: "?legacy \<noteq> vars_path h c" "?legacy \<noteq> stage_path (vars_path h c)"
      by (simp_all add: vars_path_def in_dir_def stage_path_def)
    have "prepareEfiVars h fw (vars_path h c) ?legacy fs = (Inr (), fs')"
      using assms(1) True fw fresh by (auto simp: firmware_args_def Let_def vars_path_def split: sum.splits prod.splits)
    then show ?thesis using efi_variables [where fs = fs and dest = "vars_path h c" and legacy = ?legacy and h = h and fw = fw] fresh apart by auto
  next
    case False
    then show ?thesis using assms(1) True fw by (auto simp: firmware_args_def Let_def vars_path_def)
  qed
  then show ?thesis using True fw efi efi_read [OF plain] by (simp add: pflash_files_def)
next
  case False
  then show ?thesis using assms(1) by (simp add: firmware_args_def pflash_files_def paired_nil values_cons ids_of_def split: sum.splits)
qed


definition the_line :: "launch_host \<Rightarrow> launch_config \<Rightarrow> string \<Rightarrow> string list \<Rightarrow> string list" where
  "the_line h c accel efi = machine_args c accel @ efi @ drives_args c
     @ concat (map (nic_launch_args (lc_ports c)) (lc_networks c))
     @ [''-display'', ''none''] @ buildChannelArgs h c @ frozen_args h c"

lemma line_values:
  assumes "paired efi" "launchable h c" "f \<notin> {''-M'', ''-m'', ''-smp'', ''-accel'', ''-cpu'', ''-display''}"
  shows "option_values f (read_options (the_line h c accel efi)) =
     option_values f (read_options efi) @ option_values f (read_options (drives_args c))
     @ option_values f (read_options (concat (map (nic_launch_args (lc_ports c)) (lc_networks c))))
     @ option_values f (channel_opts h c) @ option_values f (read_options (frozen_args h c))"
proof -
  have "list_all nic_ready (lc_networks c)" using assms(2) by (simp add: launchable_def)
  from nics_read [OF this] have nics: "paired (concat (map (nic_launch_args (lc_ports c)) (lc_networks c)))" by blast
  have d: "paired [''-display'', ''none'']" by (simp add: paired_pair paired_nil)
  have none: "option_values f (read_options [''-display'', ''none'']) = []" "option_values f (read_options (machine_args c accel)) = []"
    using assms(3) by (auto simp: values_cons machine_read)
  note split = read_paired [OF machine_read(1)] read_paired [OF assms(1)] read_paired [OF drives_read(1)]
    read_paired [OF nics] read_paired [OF d] read_paired [OF channels_read(1)]
  show ?thesis
    unfolding the_line_def split values_append none channel_opts_def by simp
qed



definition demo_firmware :: firmware where
  "demo_firmware = \<lparr>fw_code = ''/fw/code.fd'', fw_vars = ''/fw/vars.fd'', fw_codeBytes = ''abcd'', fw_varsBytes = ''xy''\<rparr>"

definition demo_launch_host :: launch_host where
  "demo_launch_host = \<lparr>hq_platform = Linux, hq_requireQemu = (\<lambda>_. Inr ''qemu''), hq_detectAccel = (\<lambda>_. ''tcg''),
     hq_requireFirmware = Inr demo_firmware, hq_requireQemuImg = Inr ''qemu-img'', hq_truncates = (\<lambda>_. True),
     hq_unlinks = (\<lambda>_. True), hq_convert = (0, [], []), hq_leaves = None, hq_serialLog = False\<rparr>"

definition demo_launch_nic :: launch_nic where
  "demo_launch_nic = \<lparr>nc_specifier = UserNet, nc_id = ''net0'', nc_mac = Some ''0e:00'', ln_resolved = None\<rparr>"

definition demo_launch_config :: launch_config where
  "demo_launch_config = \<lparr>lc_arch = ARM64, lc_machineDir = ''/m/a'', lc_bootDisk = (''/m/a/disk.qcow2'', ''qcow2''),
     lc_extraDisks = [(''/m/a/disk1.qcow2'', ''qcow2'')], lc_mem = 512, lc_cpu = 1, lc_ports = [],
     lc_networks = [demo_launch_nic], lc_background = True, lc_portBase = 9100, lc_accel = None,
     lc_qemuArgs = Some [''-snapshot''], lc_frozen = True\<rparr>"

lemma demo_launchable: "launchable demo_launch_host demo_launch_config"
  by (simp add: launchable_def demo_launch_host_def demo_launch_config_def demo_firmware_def demo_launch_nic_def
      disks_of_def plain_disk_def no_comma_def nic_ready_def)


lemma update_entry: "(k, v) \<in> set (AList.update k v xs)"
  by (induction xs) auto


definition demo_extra :: port_mapping where
  "demo_extra = \<lparr>pm_name = ''syslog'', pm_host = 0, pm_guest = 514, pm_proto = UDP\<rparr>"


end
