(* ===== verification/Json.thy ===== *)
theory Json
  imports Prelude
begin

text \<open>
  The values \<open>JSON.parse\<close> returns. The parser is the language's; a text that does not parse is the
  value \<open>None\<close> of whoever asks. Numbers are integers: the ones the program reads are ids and counts.
\<close>

datatype json =
    JNull | JBool bool | JNum int | JStr string | JArr "json list" | JObj "(string \<times> json) list"

text \<open>A field of a value, absent on anything but an object; \<open>undefined\<close> is \<open>None\<close>.\<close>

definition field :: "string \<Rightarrow> json \<Rightarrow> json option" where
  "field k v = (case v of JObj kvs \<Rightarrow> map_of kvs k | _ \<Rightarrow> None)"

definition is_plain_object :: "json option \<Rightarrow> bool" where
  "is_plain_object v = (case v of Some (JObj _) \<Rightarrow> True | _ \<Rightarrow> False)"

definition is_array :: "json option \<Rightarrow> bool" where
  "is_array v = (case v of Some (JArr _) \<Rightarrow> True | _ \<Rightarrow> False)"

definition str_of :: "json option \<Rightarrow> string option" where
  "str_of v = (case v of Some (JStr s) \<Rightarrow> Some s | _ \<Rightarrow> None)"

lemma field_simps [simp]:
  "field k (JObj kvs) = map_of kvs k" "field k JNull = None" "field k (JBool b) = None" "field k (JNum n) = None"
  "field k (JStr s) = None" "field k (JArr xs) = None"
  by (simp_all add: field_def)

end
