(* ===== verification/Boot_Wait.thy ===== *)
theory Boot_Wait
  imports Json
begin

text \<open>
  Waiting for a guest (\<open>waitForBoot\<close> and \<open>waitForApiReady\<close> of \<open>src/lib/qemu.ts\<close>) and the record of what
  the probes saw (\<open>src/lib/diagnostics.ts\<close>). The answers of the guest, and how long each probe takes, are
  given: the \<open>i\<close>-th probe answers \<open>answers i\<close>. Times are milliseconds.
\<close>

section \<open>What a probe saw\<close>

datatype boot_outcome =
    ORefused | OReset | OProbeTimeout | OUnauthorized | OWrongBody | OHttpError | OReady | OOther

definition outcome_text :: "boot_outcome \<Rightarrow> string" where
  "outcome_text x = (case x of ORefused \<Rightarrow> ''refused'' | OReset \<Rightarrow> ''reset'' | OProbeTimeout \<Rightarrow> ''probe-timeout''
     | OUnauthorized \<Rightarrow> ''unauthorized'' | OWrongBody \<Rightarrow> ''wrong-body'' | OHttpError \<Rightarrow> ''http-error''
     | OReady \<Rightarrow> ''ready'' | OOther \<Rightarrow> ''other'')"

record probe_entry =
  pe_atMs :: nat
  pe_outcome :: boot_outcome
  pe_detail :: "string option"

record boot_probe_stats =
  bs_kind :: "string option"
  bs_attempts :: nat
  bs_counts :: "(boot_outcome \<times> nat) list"
  bs_firstHttpAtMs :: "nat option"
  bs_first :: "probe_entry option"
  bs_last :: "probe_entry option"

definition newBootProbeStats :: boot_probe_stats where
  "newBootProbeStats = \<lparr>bs_kind = None, bs_attempts = 0, bs_counts = [], bs_firstHttpAtMs = None,
     bs_first = None, bs_last = None\<rparr>"

text \<open>A thrown error: its \<open>code\<close>, if it has one, and its message.\<close>

record thrown_error =
  te_code :: "string option"
  te_message :: string

definition contains :: "string \<Rightarrow> string \<Rightarrow> bool" where
  "contains s p \<longleftrightarrow> (\<exists>t \<in> set (suffixes s). prefix p t)"

definition classifyProbeError :: "thrown_error \<Rightarrow> boot_outcome \<times> string" where
  "classifyProbeError e =
     (let code = te_code e; message = te_message e in
      if code = Some ''ECONNREFUSED'' then (ORefused, ''ECONNREFUSED'')
      else if code = Some ''ECONNRESET'' \<or> code = Some ''EPIPE'' then (OReset, the code)
      else if code = Some ''ETIMEDOUT'' \<or> contains message ''restGet timeout'' \<or> contains message ''apiLogin timeout'' then
        (OProbeTimeout, case code of Some c \<Rightarrow> c | None \<Rightarrow> ''probe deadline'')
      else if message = ''closed before reply'' then (OReset, message)
      else (OOther, case code of Some c \<Rightarrow> if c \<noteq> [] then c @ '': '' @ message else message | None \<Rightarrow> message))"

definition sawHttp :: "boot_outcome \<Rightarrow> bool" where
  "sawHttp x \<longleftrightarrow> x = OUnauthorized \<or> x = OWrongBody \<or> x = OHttpError \<or> x = OReady"

fun bump :: "boot_outcome \<Rightarrow> (boot_outcome \<times> nat) list \<Rightarrow> (boot_outcome \<times> nat) list" where
  "bump x [] = [(x, 1)]"
| "bump x ((y, n) # counts) = (if y = x then (y, n + 1) # counts else (y, n) # bump x counts)"

definition recordBootProbe ::
    "nat \<Rightarrow> boot_outcome \<Rightarrow> string option \<Rightarrow> boot_probe_stats \<Rightarrow> boot_probe_stats" where
  "recordBootProbe elapsedMs x detail stats =
     (let e = \<lparr>pe_atMs = elapsedMs, pe_outcome = x, pe_detail = (if detail = Some [] then None else detail)\<rparr> in
      stats\<lparr>bs_attempts := bs_attempts stats + 1, bs_counts := bump x (bs_counts stats),
        bs_first := (case bs_first stats of None \<Rightarrow> Some e | f \<Rightarrow> f), bs_last := Some e,
        bs_firstHttpAtMs := (if sawHttp x \<and> bs_firstHttpAtMs stats = None then Some elapsedMs else bs_firstHttpAtMs stats)\<rparr>)"

text \<open>\<open>Math.round(ms / 1000)\<close>, and the stable sort of the counts, most frequent first.\<close>

definition seconds :: "nat \<Rightarrow> nat" where
  "seconds ms = (ms + 500) div 1000"

fun insert_count :: "boot_outcome \<times> nat \<Rightarrow> (boot_outcome \<times> nat) list \<Rightarrow> (boot_outcome \<times> nat) list" where
  "insert_count e [] = [e]"
| "insert_count e (x # xs) = (if snd x < snd e then e # x # xs else x # insert_count e xs)"

definition tally :: "(boot_outcome \<times> nat) list \<Rightarrow> (boot_outcome \<times> nat) list" where
  "tally counts = fold insert_count counts []"

definition summarizeBootProbe :: "boot_probe_stats \<Rightarrow> string" where
  "summarizeBootProbe s =
     (if bs_attempts s = 0 then ''no probes recorded''
      else
        (let table = join '' '' (map (\<lambda>(k, v). outcome_text k @ ''='' @ show_nat v) (tally (bs_counts s)));
             reply = (if bs_kind s = Some ''api'' then ''API reply'' else ''HTTP response'');
             reached = (case bs_firstHttpAtMs s of
                 None \<Rightarrow> ''forwarded port never produced an '' @ reply
               | Some t \<Rightarrow> ''first '' @ reply @ '' at '' @ show_nat (seconds t) @ ''s'');
             last_text = (case bs_last s of None \<Rightarrow> []
               | Some e \<Rightarrow> ''last: '' @ outcome_text (pe_outcome e)
                   @ (case pe_detail e of Some d \<Rightarrow> if d \<noteq> [] then '' ('' @ d @ '')'' else [] | None \<Rightarrow> [])
                   @ '' at '' @ show_nat (seconds (pe_atMs e)) @ ''s'') in
         show_nat (bs_attempts s) @ '' probes ['' @ table @ ''], '' @ reached @ ''; '' @ last_text))"

section \<open>The two probes\<close>

text \<open>A probe of the REST service is answered by a status and a body, with what \<open>JSON.parse\<close> makes of it,
  or throws. \<open>judge_rest\<close> says whether the answer counts as ready, and what is recorded.\<close>

datatype rest_answer = RestReply nat string "json option" | RestThrew thrown_error

definition is_singleton :: "json option \<Rightarrow> bool" where
  "is_singleton v = (case v of Some (JObj kvs) \<Rightarrow> ''board-name'' \<in> fst ` set kvs | _ \<Rightarrow> False)"

definition threw :: "thrown_error \<Rightarrow> bool \<times> boot_outcome \<times> string option" where
  "threw e = (case classifyProbeError e of (x, detail) \<Rightarrow> (False, x, Some detail))"

definition judge_rest :: "rest_answer \<Rightarrow> bool \<times> boot_outcome \<times> string option" where
  "judge_rest a =
     (case a of
        RestReply status body parsed \<Rightarrow>
          if status = 401 \<or> status = 403 then (True, OUnauthorized, Some (show_nat status))
          else if 200 \<le> status \<and> status < 300 then
            (if is_singleton parsed then (True, OReady, None) else (False, OWrongBody, Some (take 80 body)))
          else (False, OHttpError, Some (show_nat status))
      | RestThrew e \<Rightarrow> threw e)"

datatype api_answer = ApiDone | ApiTrap string | ApiFatal string | ApiThrew thrown_error

definition judge_api :: "api_answer \<Rightarrow> bool \<times> boot_outcome \<times> string option" where
  "judge_api a =
     (case a of
        ApiDone \<Rightarrow> (True, OReady, None)
      | ApiTrap m \<Rightarrow> (True, OUnauthorized, Some m)
      | ApiFatal m \<Rightarrow> (False, OOther, Some (''!fatal '' @ m))
      | ApiThrew e \<Rightarrow> threw e)"

section \<open>The loop\<close>

text \<open>How a wait ended: whether the guest was ready, how many probes it made, when, and the record.\<close>

record wait_end =
  we_ready :: bool
  we_probes :: nat
  we_at :: nat
  we_stats :: "boot_probe_stats option"

text \<open>The body both waits share: \<open>answers i\<close> is the \<open>i\<close>-th answer with the time it took, a pause of two
  seconds follows a probe, and two ready answers in a row end the wait.\<close>

function probe_loop ::
    "('a \<Rightarrow> bool \<times> boot_outcome \<times> string option) \<Rightarrow> (nat \<Rightarrow> 'a \<times> nat) \<Rightarrow> nat \<Rightarrow> nat \<Rightarrow> nat \<Rightarrow> nat \<Rightarrow> nat
     \<Rightarrow> boot_probe_stats option \<Rightarrow> wait_end" where
  "probe_loop judge answers start deadline i now consecutive stats =
     (if now < deadline then
        (let (a, took) = answers i;
             t = now + took;
             (good, x, detail) = judge a;
             consecutive' = (if good then consecutive + 1 else 0);
             stats' = map_option (recordBootProbe (t - start) x detail) stats in
         if 2 \<le> consecutive' then \<lparr>we_ready = True, we_probes = i + 1, we_at = t, we_stats = stats'\<rparr>
         else probe_loop judge answers start deadline (i + 1) (t + 2000) consecutive' stats')
      else \<lparr>we_ready = False, we_probes = i, we_at = now, we_stats = stats\<rparr>)"
  by pat_completeness auto
termination
  by (relation "measure (\<lambda>(judge, answers, start, deadline, i, now, consecutive, stats). deadline - now)") auto

declare probe_loop.simps [simp del]

definition waitForBoot :: "(nat \<Rightarrow> rest_answer \<times> nat) \<Rightarrow> nat \<Rightarrow> nat \<Rightarrow> boot_probe_stats option \<Rightarrow> wait_end" where
  "waitForBoot answers timeoutMs start stats = probe_loop judge_rest answers start (start + timeoutMs) 0 start 0 stats"

definition waitForApiReady :: "(nat \<Rightarrow> api_answer \<times> nat) \<Rightarrow> nat \<Rightarrow> nat \<Rightarrow> boot_probe_stats option \<Rightarrow> wait_end" where
  "waitForApiReady answers timeoutMs start stats =
     probe_loop judge_api answers start (start + timeoutMs) 0 start 0 (map_option (bs_kind_update (\<lambda>_. Some ''api'')) stats)"

section \<open>What a wait does\<close>

text \<open>The counts of a record add up.\<close>

definition counted :: "boot_probe_stats \<Rightarrow> bool" where
  "counted s \<longleftrightarrow> distinct (map fst (bs_counts s)) \<and> sum_list (map snd (bs_counts s)) = bs_attempts s"

lemma bump_keys: "fst ` set (bump x c) = insert x (fst ` set c)"
  by (induction x c rule: bump.induct) auto

lemma bump_distinct: "distinct (map fst c) \<Longrightarrow> distinct (map fst (bump x c))"
  by (induction x c rule: bump.induct) (auto simp: bump_keys)

lemma bump_sum: "sum_list (map snd (bump x c)) = Suc (sum_list (map snd c))"
  by (induction x c rule: bump.induct) auto

lemma counted_record: "counted s \<Longrightarrow> counted (recordBootProbe t x d s)"
  by (simp add: counted_def recordBootProbe_def Let_def bump_distinct bump_sum)

text \<open>Whether the \<open>j\<close>-th probe counts as ready, and whether two in a row before the \<open>n\<close>-th did.\<close>

definition good :: "('a \<Rightarrow> bool \<times> boot_outcome \<times> string option) \<Rightarrow> (nat \<Rightarrow> 'a \<times> nat) \<Rightarrow> nat \<Rightarrow> bool" where
  "good judge answers j \<longleftrightarrow> fst (judge (fst (answers j)))"

definition pair_before :: "(nat \<Rightarrow> bool) \<Rightarrow> nat \<Rightarrow> bool" where
  "pair_before g n \<longleftrightarrow> (\<exists>j. j + 1 < n \<and> g j \<and> g (j + 1))"

lemma pair_before_Suc: "pair_before g (Suc n) \<longleftrightarrow> pair_before g n \<or> (n > 0 \<and> g (n - 1) \<and> g n)"
  by (cases n) (auto simp: pair_before_def less_Suc_eq)

lemma pair_before_0: "\<not> pair_before g 0"
  by (simp add: pair_before_def)

text \<open>One round of the loop.\<close>

lemma probe_round:
  fixes judge :: "'a \<Rightarrow> bool \<times> boot_outcome \<times> string option" and answers :: "nat \<Rightarrow> 'a \<times> nat"
    and i k start :: nat and stats :: "boot_probe_stats option"
  assumes "now < deadline"
  defines "t \<equiv> now + snd (answers i)"
  defines "k' \<equiv> (if good judge answers i then k + 1 else 0)"
  defines "stats' \<equiv> map_option (recordBootProbe (t - start) (fst (snd (judge (fst (answers i))))) (snd (snd (judge (fst (answers i)))))) stats"
  shows "probe_loop judge answers start deadline i now k stats =
    (if 2 \<le> k' then \<lparr>we_ready = True, we_probes = i + 1, we_at = t, we_stats = stats'\<rparr>
     else probe_loop judge answers start deadline (i + 1) (t + 2000) k' stats')"
  using assms(1) unfolding t_def k'_def stats'_def good_def
  by (subst probe_loop.simps) (simp add: Let_def case_prod_beta)

lemma probe_end:
  "\<not> now < deadline \<Longrightarrow> probe_loop judge answers start deadline i now k stats =
     \<lparr>we_ready = False, we_probes = i, we_at = now, we_stats = stats\<rparr>"
  by (subst probe_loop.simps) simp

text \<open>The state of the loop when the \<open>i\<close>-th probe is due.\<close>

definition due :: "(nat \<Rightarrow> bool) \<Rightarrow> nat \<Rightarrow> nat \<Rightarrow> bool" where
  "due g i k \<longleftrightarrow> \<not> pair_before g i \<and> k = (if i > 0 \<and> g (i - 1) then 1 else 0)"

lemma due_step:
  assumes "due g i k"
  shows "2 \<le> (if g i then k + 1 else 0) \<longleftrightarrow> i > 0 \<and> g (i - 1) \<and> g i"
    "\<not> (i > 0 \<and> g (i - 1) \<and> g i) \<Longrightarrow> due g (i + 1) (if g i then k + 1 else 0)"
  using assms by (auto simp: due_def pair_before_Suc split: if_splits)

lemma loop_result:
  fixes judge :: "'a \<Rightarrow> bool \<times> boot_outcome \<times> string option" and answers :: "nat \<Rightarrow> 'a \<times> nat"
    and stats :: "boot_probe_stats option"
  assumes "due (good judge answers) i k" "start + 2000 * i \<le> now" "\<forall>j. snd (answers j) \<le> d"
    "now < max (start + 1) (deadline + d + 2000)"
  defines "w \<equiv> probe_loop judge answers start deadline i now k stats"
  shows "(if we_ready w then 2 \<le> we_probes w \<and> good judge answers (we_probes w - 2) \<and> good judge answers (we_probes w - 1)
            \<and> \<not> pair_before (good judge answers) (we_probes w - 1)
          else \<not> pair_before (good judge answers) (we_probes w) \<and> deadline \<le> we_at w)
    \<and> i \<le> we_probes w \<and> (we_probes w = i \<or> start + 2000 * (we_probes w - 1) < deadline)
    \<and> we_at w < max (start + 1) (deadline + d + 2000)"
  using assms(1,2,4) unfolding w_def
proof (induction "deadline - now" arbitrary: i now k stats rule: less_induct)
  case less
  show ?case
  proof (cases "now < deadline")
    case False
    then show ?thesis using less.prems by (auto simp: probe_end due_def)
  next
    case True
    define t where "t = now + snd (answers i)"
    define k' where "k' = (if good judge answers i then k + 1 else 0)"
    define stats' where "stats' = map_option (recordBootProbe (t - start) (fst (snd (judge (fst (answers i))))) (snd (snd (judge (fst (answers i)))))) stats"
    note round = probe_round [OF True, of judge answers start i k stats, folded t_def k'_def, folded stats'_def]
    have took: "t + 2000 < max (start + 1) (deadline + d + 2000)" "t < max (start + 1) (deadline + d + 2000)"
      using True assms(3) [rule_format, of i] by (simp_all add: t_def less_max_iff_disj)
    show ?thesis
    proof (cases "i > 0 \<and> good judge answers (i - 1) \<and> good judge answers i")
      case two: True
      then have "2 \<le> k'" using due_step(1) [OF less.prems(1)] by (simp add: k'_def)
      then have e: "probe_loop judge answers start deadline i now k stats =
          \<lparr>we_ready = True, we_probes = i + 1, we_at = t, we_stats = stats'\<rparr>" by (simp add: round)
      show ?thesis unfolding e using two less.prems(1,2) took(2) True by (auto simp: due_def)
    next
      case False
      then have k: "\<not> 2 \<le> k'" using due_step(1) [OF less.prems(1)] by (simp add: k'_def)
      have "due (good judge answers) (i + 1) k'" unfolding k'_def by (rule due_step(2) [OF less.prems(1) False])
      moreover have "start + 2000 * (i + 1) \<le> t + 2000" using less.prems(2) by (simp add: t_def)
      moreover have "deadline - (t + 2000) < deadline - now" using True by (simp add: t_def)
      ultimately show ?thesis
        using less.hyps [of "t + 2000" "i + 1" k' stats'] took k less.prems(2) True by (auto simp: round)
    qed
  qed
qed

lemma loop_stats:
  fixes judge :: "'a \<Rightarrow> bool \<times> boot_outcome \<times> string option" and answers :: "nat \<Rightarrow> 'a \<times> nat"
    and start deadline i now k :: nat
  assumes "counted s"
  defines "w \<equiv> probe_loop judge answers start deadline i now k (Some s)"
  shows "\<exists>s'. we_stats w = Some s' \<and> counted s' \<and> bs_attempts s' + i = bs_attempts s + we_probes w \<and> i \<le> we_probes w
    \<and> bs_kind s' = bs_kind s
    \<and> (if we_probes w = i then s' = s
        else map_option pe_outcome (bs_last s') = Some (fst (snd (judge (fst (answers (we_probes w - 1)))))))"
  using assms(1) unfolding w_def
proof (induction "deadline - now" arbitrary: i now k s rule: less_induct)
  case less
  show ?case
  proof (cases "now < deadline")
    case False
    then show ?thesis using less.prems by (simp add: probe_end)
  next
    case True
    define t where "t = now + snd (answers i)"
    define k' where "k' = (if good judge answers i then k + 1 else 0)"
    define s' where "s' = recordBootProbe (t - start) (fst (snd (judge (fst (answers i))))) (snd (snd (judge (fst (answers i))))) s"
    note round = probe_round [OF True, of judge answers start i k "Some s", folded t_def k'_def, simplified option.map, folded s'_def]
    have s': "counted s'" "bs_attempts s' = bs_attempts s + 1" "bs_kind s' = bs_kind s"
      "map_option pe_outcome (bs_last s') = Some (fst (snd (judge (fst (answers i)))))"
      using counted_record [OF less.prems] by (simp_all add: s'_def recordBootProbe_def Let_def)
    show ?thesis
    proof (cases "2 \<le> k'")
      case True
      then show ?thesis using s' by (simp add: round)
    next
      case False
      have "deadline - (t + 2000) < deadline - now" using True by (simp add: t_def)
      from less.hyps [OF this s'(1), of "i + 1" k'] show ?thesis using False s' by (auto simp: round split: if_splits)
    qed
  qed
qed

text \<open>Both waits have one contract, for a probe that takes at most \<open>d\<close>.\<close>

definition wait_contract :: "(nat \<Rightarrow> bool) \<Rightarrow> nat \<Rightarrow> nat \<Rightarrow> nat \<Rightarrow> wait_end \<Rightarrow> bool" where
  "wait_contract g timeoutMs start d w \<longleftrightarrow>
     (if we_ready w then 2 \<le> we_probes w \<and> g (we_probes w - 2) \<and> g (we_probes w - 1) \<and> \<not> pair_before g (we_probes w - 1)
      else \<not> pair_before g (we_probes w) \<and> start + timeoutMs \<le> we_at w)
     \<and> we_probes w \<le> (timeoutMs + 1999) div 2000 \<and> we_at w \<le> start + timeoutMs + d + 2000"

lemma loop_contract:
  fixes judge :: "'a \<Rightarrow> bool \<times> boot_outcome \<times> string option" and answers :: "nat \<Rightarrow> 'a \<times> nat"
  assumes "\<forall>j. snd (answers j) \<le> d"
  shows "wait_contract (good judge answers) timeoutMs start d (probe_loop judge answers start (start + timeoutMs) 0 start 0 stats)"
proof -
  let ?w = "probe_loop judge answers start (start + timeoutMs) 0 start 0 stats"
  have r: "(if we_ready ?w then 2 \<le> we_probes ?w \<and> good judge answers (we_probes ?w - 2) \<and> good judge answers (we_probes ?w - 1)
            \<and> \<not> pair_before (good judge answers) (we_probes ?w - 1)
          else \<not> pair_before (good judge answers) (we_probes ?w) \<and> start + timeoutMs \<le> we_at ?w)
    \<and> 0 \<le> we_probes ?w \<and> (we_probes ?w = 0 \<or> start + 2000 * (we_probes ?w - 1) < start + timeoutMs)
    \<and> we_at ?w < max (start + 1) (start + timeoutMs + d + 2000)"
    by (rule loop_result) (use assms in \<open>simp_all add: due_def pair_before_0\<close>)
  then have "we_probes ?w \<le> (timeoutMs + 1999) div 2000" by (cases "we_probes ?w") auto
  moreover have "we_at ?w \<le> start + timeoutMs + d + 2000" using r by auto
  ultimately show ?thesis using r unfolding wait_contract_def by blast
qed

lemma loop_counts:
  fixes judge :: "'a \<Rightarrow> bool \<times> boot_outcome \<times> string option" and answers :: "nat \<Rightarrow> 'a \<times> nat"
  assumes "counted s"
  shows "\<exists>s'. we_stats (probe_loop judge answers start deadline 0 now 0 (Some s)) = Some s' \<and> counted s'
    \<and> bs_kind s' = bs_kind s \<and> bs_attempts s' = bs_attempts s + we_probes (probe_loop judge answers start deadline 0 now 0 (Some s))"
  using loop_stats [OF assms, of judge answers start deadline 0 now 0] by auto

text \<open>C11: both waits end. They make at most one probe per two seconds of the timeout, return at most
  one probe and one pause after it, say the guest is ready exactly at the first two consecutive probes
  that were answered by a working or a refusing service, and say it is not only once the time is over and
  no two such probes were in a row. The record of the probes counts each of them once.\<close>

theorem boot_wait:
  assumes "\<forall>j. snd (rest j) \<le> d" "\<forall>j. snd (api j) \<le> d"
  shows "wait_contract (good judge_rest rest) timeoutMs start d (waitForBoot rest timeoutMs start s1)
    \<and> wait_contract (good judge_api api) timeoutMs start d (waitForApiReady api timeoutMs start s2)
    \<and> (\<exists>s'. we_stats (waitForBoot rest timeoutMs start (Some newBootProbeStats)) = Some s' \<and> counted s'
         \<and> bs_attempts s' = we_probes (waitForBoot rest timeoutMs start (Some newBootProbeStats)))
    \<and> (\<exists>s'. we_stats (waitForApiReady api timeoutMs start (Some newBootProbeStats)) = Some s' \<and> counted s'
         \<and> bs_attempts s' = we_probes (waitForApiReady api timeoutMs start (Some newBootProbeStats)) \<and> bs_kind s' = Some ''api'')"
proof -
  have c: "counted newBootProbeStats" "counted (newBootProbeStats\<lparr>bs_kind := Some ''api''\<rparr>)"
    "bs_attempts newBootProbeStats = 0"
    by (simp_all add: counted_def newBootProbeStats_def)
  have a: "\<exists>s'. we_stats (waitForApiReady api timeoutMs start (Some newBootProbeStats)) = Some s' \<and> counted s'
         \<and> bs_attempts s' = we_probes (waitForApiReady api timeoutMs start (Some newBootProbeStats)) \<and> bs_kind s' = Some ''api''"
    using loop_counts [OF c(2), of judge_api api start "start + timeoutMs" start] c(3) by (auto simp: waitForApiReady_def)
  have b: "\<exists>s'. we_stats (waitForBoot rest timeoutMs start (Some newBootProbeStats)) = Some s' \<and> counted s'
         \<and> bs_attempts s' = we_probes (waitForBoot rest timeoutMs start (Some newBootProbeStats))"
    using loop_counts [OF c(1), of judge_rest rest start "start + timeoutMs" start] c(3) by (auto simp: waitForBoot_def)
  show ?thesis
    using a b loop_contract [OF assms(1), of judge_rest timeoutMs start s1]
      loop_contract [OF assms(2), of judge_api timeoutMs start "map_option (bs_kind_update (\<lambda>_. Some ''api'')) s2"]
    unfolding waitForBoot_def waitForApiReady_def by blast
qed

text \<open>A guest whose service is refused twice and then answers twice.\<close>

definition demo_rest :: "nat \<Rightarrow> rest_answer \<times> nat" where
  "demo_rest i = (if i < 2 then RestThrew \<lparr>te_code = Some ''ECONNREFUSED'', te_message = []\<rparr>
     else RestReply 200 [] (Some (JObj [(''board-name'', JStr ''CHR'')])), 10)"

definition demo_api :: "nat \<Rightarrow> api_answer \<times> nat" where
  "demo_api i = (ApiTrap ''invalid user name or password'', 10)"

theorem boot_wait_witness:
  "(\<forall>j. snd (demo_rest j) \<le> 10) \<and> (\<forall>j. snd (demo_api j) \<le> 10)
   \<and> wait_contract (good judge_rest demo_rest) 120000 0 10 (waitForBoot demo_rest 120000 0 None)
   \<and> we_ready (waitForBoot demo_rest 120000 0 None) \<and> we_probes (waitForBoot demo_rest 120000 0 None) = 4"
proof -
  have d: "\<forall>j. snd (demo_rest j) \<le> 10" "\<forall>j. snd (demo_api j) \<le> 10" by (simp_all add: demo_rest_def demo_api_def)
  have "we_ready (waitForBoot demo_rest 120000 0 None) \<and> we_probes (waitForBoot demo_rest 120000 0 None) = 4"
    by (simp add: waitForBoot_def probe_loop.simps demo_rest_def judge_rest_def threw_def classifyProbeError_def is_singleton_def Let_def)
  then show ?thesis using boot_wait [OF d, of 120000 0 None] d by blast
qed

end
