(* ===== verification/Guest_Snapshot.thy ===== *)
theory Guest_Snapshot
  imports Json Js_Number
begin

text \<open>
  Forensics inside the guest over its serial console (\<open>src/lib/guest-snapshot.ts\<close>): the read-only snapshot
  within its budget, and the rule that counts whether packets reach the guest. \<open>JSON.parse\<close> is the
  argument \<open>parse\<close>: a message or a value. What the console answers, and how long it takes, is given.
\<close>

section \<open>Replies of the console\<close>

record guest_reply =
  gr_output :: string
  gr_framed :: "bool option"

text \<open>An executor returns a bare string or a reply, or throws.\<close>

datatype exec_answer = PlainOutput string | Reply guest_reply | ExecThrew string

definition asReply :: "exec_answer \<Rightarrow> string + guest_reply" where
  "asReply a = (case a of PlainOutput s \<Rightarrow> Inr \<lparr>gr_output = s, gr_framed = None\<rparr> | Reply r \<Rightarrow> Inr r | ExecThrew m \<Rightarrow> Inl m)"

definition serializeJsonCommand :: "string \<Rightarrow> string" where
  "serializeJsonCommand query = '':put [:serialize to=json ['' @ query @ '']]''"

definition GUEST_SNAPSHOT_QUERIES :: "(string \<times> string) list" where
  "GUEST_SNAPSHOT_QUERIES =
     [(''log'', ''/log print as-value''), (''ipAddress'', ''/ip/address print as-value''),
      (''ipService'', ''/ip/service print as-value''), (''firewallFilter'', ''/ip/firewall/filter print as-value''),
      (''systemResource'', ''/system/resource print as-value''), (''interfaceStats'', ''/interface print stats as-value''),
      (''connectionTracking'', ''/ip/firewall/connection/tracking print as-value'')]"

definition trim_start :: "string \<Rightarrow> string" where
  "trim_start s = dropWhile is_space s"

definition payload_start :: "string \<Rightarrow> bool" where
  "payload_start l \<longleftrightarrow> starts_with ''['' (trim_start l) \<or> starts_with ''{'' (trim_start l)"

definition empty_reply_error :: "bool option \<Rightarrow> string" where
  "empty_reply_error framed =
     (if framed = Some True then ''empty console reply, RouterOS printed nothing''
      else if framed = Some False then ''empty console reply, the reader could not frame it''
      else ''empty console reply, framing unknown'')"

text \<open>The candidate payloads are tried from the last start to the first.\<close>

fun try_starts :: "(string \<Rightarrow> string + json) \<Rightarrow> string list \<Rightarrow> nat list \<Rightarrow> string \<Rightarrow> string + json" where
  "try_starts parse ls [] lastError = Inl lastError"
| "try_starts parse ls (i # is) lastError =
     (case parse (trim (concat (drop i ls))) of
        Inr v \<Rightarrow> Inr v
      | Inl e \<Rightarrow> try_starts parse ls is e)"

definition parseSerializedJson :: "(string \<Rightarrow> string + json) \<Rightarrow> string \<Rightarrow> bool option \<Rightarrow> string + json" where
  "parseSerializedJson parse raw framed =
     (let cleaned = filter (\<lambda>c. c \<noteq> CHR 0x0D) raw;
          ls = split_on (CHR 0x0A) cleaned;
          starts = filter (\<lambda>i. payload_start (ls ! i)) [0..<length ls] in
      if starts = [] then
        (if trim cleaned \<noteq> [] then Inl ''no JSON payload in console reply'' else Inl (empty_reply_error framed))
      else try_starts parse ls (rev starts) ''unparsable console reply'')"

section \<open>The snapshot\<close>

definition GUEST_QUERY_TIMEOUT_MS :: nat where
  "GUEST_QUERY_TIMEOUT_MS = 15000"

definition GUEST_LOGIN_ALLOWANCE_MS :: nat where
  "GUEST_LOGIN_ALLOWANCE_MS = 15000"

definition GUEST_SNAPSHOT_BUDGET_MS :: nat where
  "GUEST_SNAPSHOT_BUDGET_MS = 60000"

definition MAX_RAW_BYTES :: nat where
  "MAX_RAW_BYTES = 32 * 1024"

record snapshot_entry =
  se_command :: string
  se_ok :: bool
  se_elapsedMs :: nat
  se_value :: "json option"
  se_error :: "string option"
  se_raw :: "string option"
  se_framed :: "bool option"

record guest_snapshot =
  gs_consoleReachable :: bool
  gs_loginUser :: string
  gs_elapsedMs :: nat
  gs_entries :: "(string \<times> snapshot_entry) list"
  gs_summary :: string

text \<open>The executor: the answer to a command with a time limit, at a moment of the snapshot, and the time it takes.\<close>

type_synonym guest_exec = "nat \<Rightarrow> string \<Rightarrow> nat \<Rightarrow> exec_answer \<times> nat"

definition bare_entry :: "string \<Rightarrow> nat \<Rightarrow> string \<Rightarrow> snapshot_entry" where
  "bare_entry command t e = \<lparr>se_command = command, se_ok = False, se_elapsedMs = t, se_value = None,
     se_error = Some e, se_raw = None, se_framed = None\<rparr>"

definition last_bytes :: "nat \<Rightarrow> string \<Rightarrow> string" where
  "last_bytes n s = drop (length s - n) s"

definition reply_entry ::
    "(string \<Rightarrow> string + json) \<Rightarrow> string \<Rightarrow> nat \<Rightarrow> guest_reply \<Rightarrow> snapshot_entry" where
  "reply_entry parse command t r =
     (case parseSerializedJson parse (gr_output r) (gr_framed r) of
        Inr v \<Rightarrow> \<lparr>se_command = command, se_ok = True, se_elapsedMs = t, se_value = Some v,
                   se_error = None, se_raw = None, se_framed = gr_framed r\<rparr>
      | Inl e \<Rightarrow> \<lparr>se_command = command, se_ok = False, se_elapsedMs = t, se_value = None,
                   se_error = Some e, se_raw = Some (last_bytes MAX_RAW_BYTES (gr_output r)), se_framed = gr_framed r\<rparr>)"

fun snapshot_loop ::
    "(string \<Rightarrow> string + json) \<Rightarrow> guest_exec \<Rightarrow> nat \<Rightarrow> nat \<Rightarrow> nat \<Rightarrow> (string \<times> string) list \<Rightarrow> nat \<Rightarrow> bool
     \<Rightarrow> (string \<times> snapshot_entry) list \<times> bool \<times> nat" where
  "snapshot_loop parse exec queryTimeout budget allow [] elapsed reachable = ([], reachable, elapsed)"
| "snapshot_loop parse exec queryTimeout budget allow ((key, query) # qs) elapsed reachable =
     (let command = serializeJsonCommand query in
      if budget \<le> elapsed then
        (case snapshot_loop parse exec queryTimeout budget allow qs elapsed reachable of
           (es, x) \<Rightarrow> ((key, bare_entry command 0 ''skipped, snapshot budget spent'') # es, x))
      else
        (let allowance = (if reachable then 0 else allow);
             (a, took) = exec elapsed command (min (queryTimeout + allowance) (budget - elapsed)) in
         case asReply a of
           Inr r \<Rightarrow>
             (case snapshot_loop parse exec queryTimeout budget allow qs (elapsed + took) True of
                (es, x) \<Rightarrow> ((key, reply_entry parse command took r) # es, x))
         | Inl e \<Rightarrow>
             (case snapshot_loop parse exec queryTimeout budget allow qs (elapsed + took) reachable of
                (es, x) \<Rightarrow> ((key, bare_entry command took e) # es, x))))"

definition rowCount :: "json option \<Rightarrow> nat option" where
  "rowCount v = (case v of Some (JArr xs) \<Rightarrow> Some (length xs) | Some (JObj _) \<Rightarrow> Some 1 | _ \<Rightarrow> None)"

text \<open>\<open>String(value)\<close>.\<close>

fun js_string :: "json \<Rightarrow> string" where
  "js_string JNull = ''null''"
| "js_string (JBool b) = (if b then ''true'' else ''false'')"
| "js_string (JNum n) = (if n < 0 then ''-'' @ show_nat (nat (- n)) else show_nat (nat n))"
| "js_string (JStr s) = s"
| "js_string (JArr xs) = join '','' (map (\<lambda>x. if x = JNull then [] else js_string x) xs)"
| "js_string (JObj _) = ''[object Object]''"

definition js_string_opt :: "json option \<Rightarrow> string" where
  "js_string_opt v = (case v of None \<Rightarrow> ''undefined'' | Some x \<Rightarrow> js_string x)"

definition entry_value :: "string \<Rightarrow> (string \<times> snapshot_entry) list \<Rightarrow> json option" where
  "entry_value k es = (case map_of es k of None \<Rightarrow> None | Some e \<Rightarrow> se_value e)"

definition www_part :: "json option \<Rightarrow> string list" where
  "www_part services =
     (case services of
        Some (JArr xs) \<Rightarrow>
          (case find (\<lambda>s. field ''name'' s = Some (JStr ''www'')) xs of
             Some w \<Rightarrow> [''www disabled='' @ js_string_opt (field ''disabled'' w) @ '' port='' @ js_string_opt (field ''port'' w)]
           | None \<Rightarrow> [])
      | _ \<Rightarrow> [])"

definition uptime_of :: "json option \<Rightarrow> json option" where
  "uptime_of v =
     (case v of
        Some (JObj kvs) \<Rightarrow> (case map_of kvs ''uptime'' of Some JNull \<Rightarrow> None | u \<Rightarrow> u)
      | Some (JArr (x # _)) \<Rightarrow> field ''uptime'' x
      | _ \<Rightarrow> None)"

definition count_part :: "json option \<Rightarrow> string \<Rightarrow> string list" where
  "count_part v what = (case rowCount v of None \<Rightarrow> [] | Some n \<Rightarrow> [show_nat n @ what])"

definition summarizeGuestSnapshot :: "bool \<Rightarrow> (string \<times> snapshot_entry) list \<Rightarrow> string" where
  "summarizeGuestSnapshot reachable es =
     (if \<not> reachable then ''guest snapshot: console unreachable, RouterOS answered nothing over serial''
      else ''guest snapshot: '' @ join '', ''
        ((show_nat (length (filter (\<lambda>e. se_ok (snd e)) es)) @ ''/'' @ show_nat (length es) @ '' queries answered'')
         # count_part (entry_value ''ipAddress'' es) '' ip address(es)''
         @ count_part (entry_value ''firewallFilter'' es) '' firewall filter rule(s)''
         @ www_part (entry_value ''ipService'' es)
         @ (case uptime_of (entry_value ''systemResource'' es) of None \<Rightarrow> [] | Some u \<Rightarrow> [''uptime='' @ js_string u])))"

definition captureGuestSnapshot ::
    "(string \<Rightarrow> string + json) \<Rightarrow> guest_exec \<Rightarrow> string \<Rightarrow> nat \<Rightarrow> nat \<Rightarrow> nat \<Rightarrow> guest_snapshot" where
  "captureGuestSnapshot parse exec loginUser queryTimeout budget allow =
     (case snapshot_loop parse exec queryTimeout budget allow GUEST_SNAPSHOT_QUERIES 0 False of
        (es, reachable, elapsed) \<Rightarrow>
          \<lparr>gs_consoleReachable = reachable, gs_loginUser = loginUser, gs_elapsedMs = elapsed, gs_entries = es,
           gs_summary = summarizeGuestSnapshot reachable es\<rparr>)"

section \<open>The counting rule\<close>

text \<open>The number in a field of the first row: \<open>Number(String(raw))\<close> without white space, if it is finite.\<close>

definition firstNumber :: "json \<Rightarrow> string \<Rightarrow> rat option" where
  "firstNumber value f =
     (case (case value of JArr [] \<Rightarrow> None | JArr (x # _) \<Rightarrow> Some x | v \<Rightarrow> Some v) of
        Some (JObj kvs) \<Rightarrow>
          (case map_of kvs f of
             None \<Rightarrow> None | Some JNull \<Rightarrow> None
           | Some raw \<Rightarrow> (case Number_of (filter (\<lambda>c. \<not> is_space c) (js_string raw)) of Finite n \<Rightarrow> Some n | NonFinite \<Rightarrow> None))
      | _ \<Rightarrow> None)"

definition execJson :: "(string \<Rightarrow> string + json) \<Rightarrow> exec_answer \<Rightarrow> string + json" where
  "execJson parse a = (case asReply a of Inl e \<Rightarrow> Inl e | Inr r \<Rightarrow> parseSerializedJson parse (gr_output r) (gr_framed r))"

definition readCounter :: "(string \<Rightarrow> string + json) \<Rightarrow> exec_answer \<Rightarrow> rat option" where
  "readCounter parse a = (case execJson parse a of Inl _ \<Rightarrow> None | Inr v \<Rightarrow> firstNumber v ''packets'')"

datatype probe_verdict = GuestReceived | NotDelivered | Inconclusive

record counting_probe =
  cp_ran :: bool
  cp_before :: "rat option"
  cp_after :: "rat option"
  cp_connections :: "json option"
  cp_verdict :: "probe_verdict option"
  cp_detail :: string

text \<open>The answers of the guest to the commands of the probe, in order: adding the rule, reading its counter
  before and after the connections, reading the connection table. Removing the rule is answered too; its
  answer is ignored.\<close>

record counting_guest =
  cg_add :: exec_answer
  cg_before :: exec_answer
  cg_after :: exec_answer
  cg_connections :: exec_answer

definition verdict_of :: "rat option \<Rightarrow> rat option \<Rightarrow> probe_verdict" where
  "verdict_of before after =
     (case map_option (\<lambda>a. a - (case before of None \<Rightarrow> 0 | Some b \<Rightarrow> b)) after of
        None \<Rightarrow> Inconclusive
      | Some d \<Rightarrow> if d < 0 then Inconclusive else if d > 0 then GuestReceived else NotDelivered)"

definition verdict_detail :: "rat option \<Rightarrow> rat option \<Rightarrow> string" where
  "verdict_detail before after =
     (case after of
        None \<Rightarrow> ''could not read the rule counter after the probes, cannot localize the drop''
      | Some a \<Rightarrow>
          (let d = a - (case before of None \<Rightarrow> 0 | Some b \<Rightarrow> b) in
           if d > 0 then ''rule counter advanced, the guest IS receiving the SYNs; the drop is RouterOS-side''
           else if d < 0 then ''rule counter went BACKWARDS, the rule was replaced or reset mid-probe; treat as not measured''
           else ''rule counter flat, the SYNs never reach RouterOS; the drop is in the slirp/virtio RX path''))"

definition runCountingRuleProbe :: "(string \<Rightarrow> string + json) \<Rightarrow> counting_guest \<Rightarrow> counting_probe" where
  "runCountingRuleProbe parse g =
     (case asReply (cg_add g) of
        Inl e \<Rightarrow> \<lparr>cp_ran = False, cp_before = None, cp_after = None, cp_connections = None, cp_verdict = None,
                   cp_detail = ''could not install counting rule: '' @ e\<rparr>
      | Inr _ \<Rightarrow>
          (let before = readCounter parse (cg_before g); after = readCounter parse (cg_after g) in
           \<lparr>cp_ran = True, cp_before = before, cp_after = after,
            cp_connections = (case execJson parse (cg_connections g) of Inl _ \<Rightarrow> None | Inr v \<Rightarrow> Some v),
            cp_verdict = Some (verdict_of before after), cp_detail = verdict_detail before after\<rparr>))"


section \<open>What the snapshot promises\<close>

text \<open>An entry is either a parsed value, or an error; raw text is kept exactly when the guest answered and
  the answer could not be read.\<close>

definition entry_ok :: "snapshot_entry \<Rightarrow> bool" where
  "entry_ok e \<longleftrightarrow> (se_ok e \<longleftrightarrow> se_value e \<noteq> None) \<and> (se_ok e \<longleftrightarrow> se_error e = None) \<and> (se_ok e \<longrightarrow> se_raw e = None)"

definition answered :: "snapshot_entry \<Rightarrow> bool" where
  "answered e \<longleftrightarrow> se_ok e \<or> se_raw e \<noteq> None"

text \<open>Every entry stays within the query's limit, which includes the login only until a query is answered.\<close>

fun paced :: "nat \<Rightarrow> nat \<Rightarrow> bool \<Rightarrow> snapshot_entry list \<Rightarrow> bool" where
  "paced queryTimeout allow reachable [] \<longleftrightarrow> True"
| "paced queryTimeout allow reachable (e # es) \<longleftrightarrow>
     se_elapsedMs e \<le> queryTimeout + (if reachable then 0 else allow) \<and> paced queryTimeout allow (reachable \<or> answered e) es"

lemma entries_ok:
  "entry_ok (bare_entry c t e)" "\<not> answered (bare_entry c t e)" "se_elapsedMs (bare_entry c t e) = t"
  "entry_ok (reply_entry p c t r)" "answered (reply_entry p c t r)" "se_elapsedMs (reply_entry p c t r) = t"
  by (auto simp: bare_entry_def reply_entry_def entry_ok_def answered_def split: sum.splits)

lemma snapshot_loop_result:
  assumes "\<And>t c limit. snd (exec t c limit) \<le> limit" "elapsed \<le> budget"
    "snapshot_loop parse exec qt budget allow qs elapsed reachable = (es, r, t)"
  shows "map fst es = map fst qs \<and> list_all entry_ok (map snd es) \<and> (r \<longleftrightarrow> reachable \<or> list_ex answered (map snd es))
    \<and> t = elapsed + sum_list (map (se_elapsedMs \<circ> snd) es) \<and> t \<le> budget \<and> paced qt allow reachable (map snd es)"
  using assms(2,3)
proof (induction qs arbitrary: elapsed reachable es r t)
  case Nil
  then show ?case by simp
next
  case (Cons q qs)
  obtain key query where q: "q = (key, query)" by fastforce
  show ?case
  proof (cases "budget \<le> elapsed")
    case True
    obtain es' r' t' where rest: "snapshot_loop parse exec qt budget allow qs elapsed reachable = (es', r', t')" by (metis prod_cases3)
    show ?thesis using Cons.IH [OF Cons.prems(1) rest] Cons.prems(2) True rest by (auto simp: q Let_def entries_ok)
  next
    case False
    define limit where "limit = min (qt + (if reachable then 0 else allow)) (budget - elapsed)"
    define command where "command = serializeJsonCommand query"
    obtain a took where a: "exec elapsed command limit = (a, took)" by fastforce
    have took: "took \<le> qt + (if reachable then 0 else allow)" "elapsed + took \<le> budget"
      using assms(1) [of elapsed command limit] a False by (auto simp: limit_def)
    obtain es' r' t' where rest: "snapshot_loop parse exec qt budget allow qs (elapsed + took)
        (case asReply a of Inr _ \<Rightarrow> True | Inl _ \<Rightarrow> reachable) = (es', r', t')" by (metis prod_cases3)
    note ih = Cons.IH [OF took(2) rest]
    show ?thesis
      using ih Cons.prems(2) False rest took
      by (cases "asReply a") (auto simp: q Let_def a [unfolded command_def limit_def] entries_ok)
  qed
qed

text \<open>C24: a snapshot, run by an executor that keeps its time limits, ends within its budget, whose
  time is what its entries took; it has one entry per query, in order, each either a value or an error with
  the raw text when there was an answer; the console counts as reachable exactly when a query was
  answered; and only queries before the first answer may take the time of a login.\<close>

theorem snapshot_bounded:
  assumes "\<And>t c limit. snd (exec t c limit) \<le> limit"
  shows "gs_elapsedMs (captureGuestSnapshot parse exec u qt budget allow) \<le> budget
    \<and> gs_elapsedMs (captureGuestSnapshot parse exec u qt budget allow)
        = sum_list (map (se_elapsedMs \<circ> snd) (gs_entries (captureGuestSnapshot parse exec u qt budget allow)))
    \<and> map fst (gs_entries (captureGuestSnapshot parse exec u qt budget allow)) = map fst GUEST_SNAPSHOT_QUERIES
    \<and> list_all entry_ok (map snd (gs_entries (captureGuestSnapshot parse exec u qt budget allow)))
    \<and> gs_consoleReachable (captureGuestSnapshot parse exec u qt budget allow)
        = list_ex answered (map snd (gs_entries (captureGuestSnapshot parse exec u qt budget allow)))
    \<and> paced qt allow False (map snd (gs_entries (captureGuestSnapshot parse exec u qt budget allow)))"
proof -
  obtain es r t where l: "snapshot_loop parse exec qt budget allow GUEST_SNAPSHOT_QUERIES 0 False = (es, r, t)" by (metis prod_cases3)
  show ?thesis using snapshot_loop_result [OF assms _ l] by (simp add: captureGuestSnapshot_def l)
qed

text \<open>A console that hangs once and then answers with an empty list.\<close>

definition demo_console :: guest_exec where
  "demo_console t c limit = (if t = 0 then (ExecThrew ''console timeout'', limit) else (PlainOutput ''[]'', min limit 300))"

definition demo_parse :: "string \<Rightarrow> string + json" where
  "demo_parse s = (if s = ''[]'' then Inr (JArr []) else Inl ''JSON Parse error'')"

theorem snapshot_bounded_witness:
  "(\<forall>t c limit. snd (demo_console t c limit) \<le> limit)
   \<and> gs_elapsedMs (captureGuestSnapshot demo_parse demo_console ''admin'' 15000 60000 15000) \<le> 60000"
proof -
  have "snd (demo_console t c limit) \<le> limit" for t c limit by (simp add: demo_console_def)
  then show ?thesis using snapshot_bounded [of demo_console demo_parse "''admin''" 15000 60000 15000] by blast
qed

section \<open>What the counting rule shows\<close>

text \<open>The rule counted \<open>n\<close> packets when it was first read and \<open>d\<close> more arrived. The verdict is right whenever
  the first reading worked. When it did not, the verdict takes the counter for fresh: a rule left behind
  by an earlier probe, whose removal failed, makes a guest that receives nothing look as if it did.\<close>

lemma counting_verdict:
  assumes "asReply (cg_add g) = Inr r" "readCounter parse (cg_after g) = Some (n + d)" "0 \<le> n" "0 \<le> d"
  shows "readCounter parse (cg_before g) = Some n \<Longrightarrow>
      cp_verdict (runCountingRuleProbe parse g) = Some (if d > 0 then GuestReceived else NotDelivered)"
    "readCounter parse (cg_before g) = None \<Longrightarrow>
      cp_verdict (runCountingRuleProbe parse g) = Some (if n > 0 \<or> d > 0 then GuestReceived else NotDelivered)"
  using assms by (auto simp: runCountingRuleProbe_def Let_def verdict_of_def add_pos_nonneg)

end
