(* ===== verification/Forensics.thy ===== *)
theory Forensics
  imports Boot_Wait Guest_Snapshot Forward_Spec "HOL-Library.Multiset"
begin

text \<open>
  The evidence of a failed boot (\<open>src/lib/diagnostics.ts\<close>): reading the table of QEMU's user-mode network,
  what it says of every forwarded port, the capture of a failure with its summary, the reports kept on
  disk, and the phases of a monitor command.
\<close>

section \<open>The table of the user-mode network\<close>

record usernet_row =
  ur_proto :: string
  ur_state :: string
  ur_fd :: nat
  ur_srcAddr :: string
  ur_srcPort :: nat
  ur_dstAddr :: string
  ur_dstPort :: nat
  ur_recvQ :: nat
  ur_sendQ :: nat

text \<open>The words of a line: what the pattern separates by \<open>\\s+\<close>.\<close>

fun take_word :: "string \<Rightarrow> string list \<Rightarrow> string list" where
  "take_word w ws = (if w = [] then ws else w # ws)"

fun words_from :: "string \<Rightarrow> string \<Rightarrow> string list" where
  "words_from w [] = take_word (rev w) []"
| "words_from w (c # s) = (if is_space c then take_word (rev w) (words_from [] s) else words_from (c # w) s)"

definition words :: "string \<Rightarrow> string list" where
  "words s = words_from [] s"

text \<open>\<open>USERNET_ROW_RE\<close>: the protocol, the state in brackets, then seven words after white space.\<close>

definition row_proto :: "string \<Rightarrow> string option" where
  "row_proto s = (if starts_with ''TCP['' s then Some ''TCP'' else if starts_with ''UDP['' s then Some ''UDP'' else None)"

definition row_of_words :: "string \<Rightarrow> string \<Rightarrow> string list \<Rightarrow> usernet_row option" where
  "row_of_words proto state ws =
     (case ws of
        [fd, sa, sp, da, dp, rq, sq] \<Rightarrow>
          if all_digits fd \<and> all_digits sp \<and> all_digits dp \<and> all_digits rq \<and> all_digits sq then
            Some \<lparr>ur_proto = proto, ur_state = state, ur_fd = read_nat fd, ur_srcAddr = sa, ur_srcPort = read_nat sp,
                  ur_dstAddr = da, ur_dstPort = read_nat dp, ur_recvQ = read_nat rq, ur_sendQ = read_nat sq\<rparr>
          else None
      | _ \<Rightarrow> None)"

definition parse_row :: "string \<Rightarrow> usernet_row option" where
  "parse_row line =
     (let s = dropWhile is_space line in
      case row_proto s of
        None \<Rightarrow> None
      | Some proto \<Rightarrow>
          (let r = drop 4 s in
           case index_of (CHR '']'') r of
             None \<Rightarrow> None
           | Some i \<Rightarrow>
               (let rest = drop (Suc i) r in
                if rest = [] \<or> \<not> is_space (hd rest) then None
                else row_of_words proto (take i r) (words rest))))"

text \<open>The lines of a text, with the carriage return before a line break taken off.\<close>

definition strip_cr :: "string \<Rightarrow> string" where
  "strip_cr l = (if l \<noteq> [] \<and> last l = CHR 0x0D then butlast l else l)"

definition crlf_lines :: "string \<Rightarrow> string list" where
  "crlf_lines t = (let ls = split_on (CHR 0x0A) t in map strip_cr (butlast ls) @ [last ls])"

definition parseUsernetTable :: "string \<Rightarrow> usernet_row list" where
  "parseUsernetTable t = List.map_filter parse_row (crlf_lines t)"

section \<open>What became of every forward\<close>

datatype forward_outcome = FServed | FRefused | FDropped | FNotForwarded | FUnknown

record forward_class =
  fc_name :: string
  fc_hostPort :: nat
  fc_guestPort :: nat
  fc_proto :: proto
  fc_outcome :: forward_outcome
  fc_states :: "string list"
  fc_hostConnect :: string

definition SERVED_STATES :: "string list" where
  "SERVED_STATES = [''ESTABLISHED'', ''TIME_WAIT'', ''FIN_WAIT_1'', ''FIN_WAIT_2'', ''CLOSE_WAIT'', ''LAST_ACK'', ''CLOSING'']"

abbreviation HOST_FORWARD :: string where
  "HOST_FORWARD \<equiv> ''HOST_FORWARD''"

fun add_state :: "string \<Rightarrow> (string \<times> nat) list \<Rightarrow> (string \<times> nat) list" where
  "add_state s [] = [(s, 1)]"
| "add_state s ((x, n) # r) = (if x = s then (x, n + 1) # r else (x, n) # add_state s r)"

definition state_text :: "string \<times> nat \<Rightarrow> string" where
  "state_text e = (if snd e > 1 then fst e @ [CHR 0xD7] @ show_nat (snd e) else fst e)"

definition rows_carry_host_port :: "usernet_row list \<Rightarrow> port_mapping list \<Rightarrow> bool" where
  "rows_carry_host_port rows forwards \<longleftrightarrow>
     list_ex (\<lambda>r. ur_state r \<noteq> HOST_FORWARD \<and> list_ex (\<lambda>f. pm_host f = ur_srcPort r) forwards) rows"

definition by_guest_port :: "usernet_row list \<Rightarrow> port_mapping \<Rightarrow> usernet_row list" where
  "by_guest_port rows f =
     filter (\<lambda>r. to_upper (ur_proto r) = to_upper (proto_str (pm_proto f)) \<and> ur_dstPort r = pm_guest f) rows"

definition live_rows :: "bool \<Rightarrow> usernet_row list \<Rightarrow> port_mapping \<Rightarrow> usernet_row list" where
  "live_rows carry rows f =
     (let live = filter (\<lambda>r. ur_state r \<noteq> HOST_FORWARD) (by_guest_port rows f) in
      if carry then filter (\<lambda>r. ur_srcPort r = pm_host f) live else live)"

definition outcome_of :: "bool \<Rightarrow> usernet_row list \<Rightarrow> forward_outcome" where
  "outcome_of forwarded live =
     (if \<not> forwarded then FNotForwarded
      else if list_ex (\<lambda>r. ur_state r = ''SYN_SENT'') live then FDropped
      else if live = [] then FRefused
      else if list_ex (\<lambda>r. ur_state r \<in> set SERVED_STATES) live then FServed
      else FUnknown)"

definition classify_forward ::
    "bool \<Rightarrow> usernet_row list \<Rightarrow> (string \<rightharpoonup> string) \<Rightarrow> port_mapping \<Rightarrow> forward_class" where
  "classify_forward carry rows hostConnect f =
     (let live = live_rows carry rows f;
          forwarded = list_ex (\<lambda>r. ur_state r = HOST_FORWARD \<and> ur_srcPort r = pm_host f) (by_guest_port rows f) in
      \<lparr>fc_name = pm_name f, fc_hostPort = pm_host f, fc_guestPort = pm_guest f, fc_proto = pm_proto f,
       fc_outcome = outcome_of forwarded live,
       fc_states = map state_text (fold (\<lambda>r. add_state (ur_state r)) live []),
       fc_hostConnect = (case hostConnect (pm_name f) of None \<Rightarrow> ''not probed'' | Some c \<Rightarrow> c)\<rparr>)"

definition classifyForwardedPorts ::
    "usernet_row list \<Rightarrow> port_mapping list \<Rightarrow> (string \<rightharpoonup> string) \<Rightarrow> forward_class list" where
  "classifyForwardedPorts rows forwards hostConnect =
     map (classify_forward (rows_carry_host_port rows forwards) rows hostConnect) forwards"

definition forward_outcome_text :: "forward_outcome \<Rightarrow> string" where
  "forward_outcome_text x = (case x of FServed \<Rightarrow> ''served'' | FRefused \<Rightarrow> ''refused'' | FDropped \<Rightarrow> ''dropped''
     | FNotForwarded \<Rightarrow> ''not-forwarded'' | FUnknown \<Rightarrow> ''unknown'')"

definition summarizeForwardOutcomes :: "forward_class list \<Rightarrow> string" where
  "summarizeForwardOutcomes ports =
     (if ports = [] then ''no TCP forwards to classify''
      else
        (let dropped = filter (\<lambda>p. fc_outcome p = FDropped) ports;
             table = join '' '' (map (\<lambda>p. fc_name p @ '':'' @ show_nat (fc_guestPort p) @ ''='' @ forward_outcome_text (fc_outcome p)) ports) in
         if dropped = [] then table @ '', no silent drop observed''
         else if length dropped = length ports then
           table @ '', EVERY forwarded port is silently dropped: whole-stack silence, points at the guest RX path''
         else table @ '', '' @ join '','' (map fc_name dropped) @ '' silently dropped while others are not: service-specific''))"

text \<open>What happens first on the socket of a port probe decides it.\<close>

datatype socket_event = SockConnect | SockTimeout | SockError "string option" string

definition probeTcpPort :: "socket_event list \<Rightarrow> string" where
  "probeTcpPort evs =
     (case evs of
        [] \<Rightarrow> ''connect timed out''
      | SockConnect # _ \<Rightarrow> ''accepting''
      | SockTimeout # _ \<Rightarrow> ''connect timed out''
      | SockError (Some k) _ # _ \<Rightarrow> k
      | SockError None m # _ \<Rightarrow> m)"

record forward_probe =
  fp_probesPerPort :: nat
  fp_ports :: "forward_class list"
  fp_usernet :: string
  fp_summary :: string

text \<open>Every TCP forward is probed \<open>probesPerPort\<close> times, \<open>connect name i\<close> being the outcome of a probe.\<close>

definition last_probe :: "nat \<Rightarrow> (string \<Rightarrow> nat \<Rightarrow> string) \<Rightarrow> string \<Rightarrow> string" where
  "last_probe n connect name = (if n = 0 then ''not probed'' else connect name (n - 1))"

definition probeForwardedPorts ::
    "nat \<Rightarrow> (string \<Rightarrow> nat \<Rightarrow> string) \<Rightarrow> (string + string) \<Rightarrow> port_mapping list \<Rightarrow> forward_probe" where
  "probeForwardedPorts n connect monitor forwards =
     (let tcp = filter (\<lambda>f. pm_proto f = TCP) forwards;
          usernet = (case monitor of Inr t \<Rightarrow> t | Inl e \<Rightarrow> ''<failed: '' @ e @ ''>'');
          hostConnect = (\<lambda>name. if name \<in> pm_name ` set tcp then Some (last_probe n connect name) else None);
          ports = classifyForwardedPorts (parseUsernetTable usernet) tcp hostConnect in
      \<lparr>fp_probesPerPort = n, fp_ports = ports, fp_usernet = usernet, fp_summary = summarizeForwardOutcomes ports\<rparr>)"

section \<open>The capture\<close>

datatype pid_probe = PidAlive | PidDenied | PidGone

definition isProcessAlive :: "(nat \<Rightarrow> pid_probe) \<Rightarrow> nat option \<Rightarrow> string" where
  "isProcessAlive probe pid =
     (case pid of
        None \<Rightarrow> ''unknown (no pid recorded)''
      | Some p \<Rightarrow>
          (case probe p of
             PidAlive \<Rightarrow> ''alive (pid '' @ show_nat p @ '')''
           | PidDenied \<Rightarrow> ''alive but not signalable (pid '' @ show_nat p @ '')''
           | PidGone \<Rightarrow> ''not running (pid '' @ show_nat p @ '')''))"

definition MAX_EMBEDDED_LOG_BYTES :: nat where
  "MAX_EMBEDDED_LOG_BYTES = 256 * 1024"

definition readIfPresent :: "string option \<Rightarrow> string option" where
  "readIfPresent file =
     map_option (\<lambda>t. if MAX_EMBEDDED_LOG_BYTES < length t then
         ''<truncated to last '' @ show_nat MAX_EMBEDDED_LOG_BYTES @ '' bytes of '' @ show_nat (length t) @ ''>''
           @ [CHR 0x0A] @ last_bytes MAX_EMBEDDED_LOG_BYTES t
       else t) file"

text \<open>Whether the probe that writes to the guest runs.\<close>

datatype counting_plan = NoCounting | SkipCounting string | RunCounting

definition counting_plan_of :: "bool \<Rightarrow> nat option \<Rightarrow> bool option \<Rightarrow> bool \<Rightarrow> bool \<Rightarrow> counting_plan" where
  "counting_plan_of has_exec httpPort guestReachable deep preserve =
     (if has_exec \<and> httpPort \<noteq> None then
        (if guestReachable = Some False then SkipCounting ''serial console unreachable''
         else if \<not> deep then SkipCounting ''QUICKCHR_DEEP_BOOT_DIAGNOSTICS is not 1''
         else if preserve then SkipCounting ''QUICKCHR_PRESERVE_ON_FAILURE=1, guest left untouched''
         else RunCounting)
      else NoCounting)"

definition http_guest_port :: "port_mapping list \<Rightarrow> nat \<Rightarrow> nat" where
  "http_guest_port forwards httpPort =
     (case find (\<lambda>f. pm_host f = httpPort) forwards of Some f \<Rightarrow> pm_guest f | None \<Rightarrow> 80)"

record failure_trigger =
  ft_operation :: string
  ft_error :: string
  ft_since :: "string option"
  ft_transition :: "string option"

text \<open>What the summary of a capture is made of; the report holds the rest.\<close>

record capture =
  ca_trigger :: "failure_trigger option"
  ca_probe :: "boot_probe_stats option"
  ca_process :: string
  ca_hostfwd :: "(nat \<times> string) option"
  ca_forwards :: "forward_probe option"
  ca_guest :: "guest_snapshot option"
  ca_counting :: "counting_probe option"
  ca_status :: "string option"
  ca_serialLog :: "string option"
  ca_qemuLog :: "string option"
  ca_reportPath :: "string option"

text \<open>\<open>replace(/\\s+/g, " ").trim()\<close> makes one line of its words.\<close>

definition one_line :: "string \<Rightarrow> string" where
  "one_line s = join '' '' (words s)"

definition opt_line :: "('a \<Rightarrow> string) \<Rightarrow> 'a option \<Rightarrow> string list" where
  "opt_line f x = (case x of None \<Rightarrow> [] | Some v \<Rightarrow> [f v])"

definition nonempty :: "string option \<Rightarrow> string option" where
  "nonempty x = (if x = Some [] then None else x)"

definition trigger_lines :: "failure_trigger option \<Rightarrow> string list" where
  "trigger_lines t =
     (case t of None \<Rightarrow> []
      | Some t \<Rightarrow>
          (''Failed after readiness: '' @ ft_operation t
             @ (case ft_since t of None \<Rightarrow> [] | Some s \<Rightarrow> '' at +'' @ s @ ''s after REST-ready'') @ '', '' @ ft_error t)
          # opt_line (\<lambda>c. ''Preceding credential transition: '' @ c) (nonempty (ft_transition t)))"

definition capture_lines :: "capture \<Rightarrow> string list" where
  "capture_lines c =
     trigger_lines (ca_trigger c)
     @ opt_line (\<lambda>p. (if bs_kind p = Some ''api'' then ''API login'' else ''REST'') @ '' probe: '' @ summarizeBootProbe p) (ca_probe c)
     @ [''QEMU process: '' @ ca_process c]
     @ opt_line (\<lambda>(port, r). ''hostfwd 127.0.0.1:'' @ show_nat port @ '': '' @ r) (ca_hostfwd c)
     @ opt_line (\<lambda>f. ''slirp per-port: '' @ fp_summary f) (ca_forwards c)
     @ opt_line gs_summary (ca_guest c)
     @ (case ca_counting c of Some p \<Rightarrow> if cp_ran p then [''counting rule: '' @ cp_detail p] else [] | None \<Rightarrow> [])
     @ opt_line (\<lambda>s. ''monitor info status: '' @ one_line s) (ca_status c)
     @ opt_line (\<lambda>s. ''serial.log: '' @ show_nat (length s) @ '' bytes captured, not inlined'') (nonempty (ca_serialLog c))
     @ opt_line (\<lambda>s. ''qemu.log tail:'' @ [CHR 0x0A] @ last_bytes 1200 s) (nonempty (ca_qemuLog c))
     @ opt_line (\<lambda>p. ''Full report: '' @ p) (nonempty (ca_reportPath c))"

definition capture_summary :: "capture \<Rightarrow> string" where
  "capture_summary c = join [CHR 0x0A] (capture_lines c)"

section \<open>The reports\<close>

definition FAILURE_REPORT_PREFIXES :: "string list" where
  "FAILURE_REPORT_PREFIXES = [''boot-failure-'', ''post-readiness-failure-'']"

definition is_report :: "string \<Rightarrow> bool" where
  "is_report name \<longleftrightarrow> list_ex (\<lambda>p. starts_with p name) FAILURE_REPORT_PREFIXES \<and> ends_with ''.json'' name"

text \<open>\<open>REPORT_STAMP\<close>: the first place of a name from which on it is a time stamp and the extension.\<close>

definition digits_at :: "nat \<Rightarrow> string \<Rightarrow> bool" where
  "digits_at n s \<longleftrightarrow> n \<le> length s \<and> list_all is_digit (take n s)"

definition match_stamp :: "string \<Rightarrow> string option" where
  "match_stamp s =
     (if digits_at 4 s \<and> starts_with ''-'' (drop 4 s) \<and> digits_at 2 (drop 5 s) \<and> starts_with ''-'' (drop 7 s)
         \<and> digits_at 2 (drop 8 s) \<and> starts_with ''T'' (drop 10 s) then
        (let r = drop 11 s; clock = takeWhile (\<lambda>c. is_digit c \<or> c = CHR ''-'') r in
         if clock \<noteq> [] \<and> drop (length clock) r = ''Z.json'' then Some (take (length s - 5) s) else None)
      else None)"

fun report_stamp :: "string \<Rightarrow> string" where
  "report_stamp [] = []"
| "report_stamp (c # s) = (case match_stamp (c # s) of Some x \<Rightarrow> x | None \<Rightarrow> report_stamp s)"

text \<open>\<open>localeCompare\<close> on stamps of one shape compares code by code; no stamp sorts first.\<close>

fun stamp_less :: "string \<Rightarrow> string \<Rightarrow> bool" where
  "stamp_less _ [] = False"
| "stamp_less [] (_ # _) = True"
| "stamp_less (a # x) (b # y) = (code a < (code b :: nat) \<or> a = b \<and> stamp_less x y)"

fun insert_report :: "string \<Rightarrow> string list \<Rightarrow> string list" where
  "insert_report x [] = [x]"
| "insert_report x (y # ys) =
     (if stamp_less (report_stamp x) (report_stamp y) then x # y # ys else y # insert_report x ys)"

definition sorted_reports :: "string list \<Rightarrow> string list" where
  "sorted_reports xs = fold insert_report xs []"

definition stale_reports :: "nat \<Rightarrow> string list \<Rightarrow> string list" where
  "stale_reports keep names = drop keep (rev (sorted_reports (filter is_report names)))"

definition pruneBootFailureReports :: "(string \<Rightarrow> bool) \<Rightarrow> nat \<Rightarrow> string list \<Rightarrow> string list" where
  "pruneBootFailureReports unlinks keep names =
     filter (\<lambda>n. \<not> (n \<in> set (stale_reports keep names) \<and> unlinks n)) names"

section \<open>Monitor phases\<close>

record monitor_phases =
  mp_connectedAtMs :: "nat option"
  mp_firstByteAtMs :: "nat option"
  mp_promptAtMs :: "nat option"
  mp_commandWrittenAtMs :: "nat option"
  mp_responseFirstByteAtMs :: "nat option"
  mp_bytesReceived :: nat

definition newMonitorPhaseTimings :: monitor_phases where
  "newMonitorPhaseTimings = \<lparr>mp_connectedAtMs = None, mp_firstByteAtMs = None, mp_promptAtMs = None,
     mp_commandWrittenAtMs = None, mp_responseFirstByteAtMs = None, mp_bytesReceived = 0\<rparr>"

definition phase_ms :: "nat option \<Rightarrow> string" where
  "phase_ms v = (case v of None \<Rightarrow> ''never'' | Some n \<Rightarrow> show_nat n @ ''ms'')"

definition summarizeMonitorPhases :: "monitor_phases \<Rightarrow> string" where
  "summarizeMonitorPhases t =
     ''connect='' @ phase_ms (mp_connectedAtMs t) @ '' first-byte='' @ phase_ms (mp_firstByteAtMs t)
     @ '' prompt='' @ phase_ms (mp_promptAtMs t) @ '' command-written='' @ phase_ms (mp_commandWrittenAtMs t)
     @ '' response-first-byte='' @ phase_ms (mp_responseFirstByteAtMs t) @ '' bytes='' @ show_nat (mp_bytesReceived t)"


section \<open>The table read back\<close>

definition spaceless :: "string \<Rightarrow> bool" where
  "spaceless s \<longleftrightarrow> s \<noteq> [] \<and> list_all (\<lambda>c. \<not> is_space c) s"

lemma words_from_word: "list_all (\<lambda>c. \<not> is_space c) u \<Longrightarrow> words_from w (u @ s) = words_from (rev u @ w) s"
  by (induction u arbitrary: w) auto

lemma words_word: "spaceless u \<Longrightarrow> words (u @ CHR '' '' # s) = u # words s"
  using words_from_word [of u "[]" "CHR '' '' # s"] by (simp add: words_def spaceless_def is_space_def)

lemma words_last: "spaceless u \<Longrightarrow> words u = [u]"
  using words_from_word [of u "[]" "[]"] by (simp add: words_def spaceless_def)

lemma words_blank: "words (CHR '' '' # s) = words s"
  by (simp add: words_def is_space_def)

lemma spaceless_show_nat: "spaceless (show_nat n)"
proof -
  have "\<not> is_space c" if "c \<in> set (show_nat n)" for c
    using that all_digits_show_nat [of n] is_digit_not_space by (auto simp: all_digits_def list_all_iff)
  then show ?thesis by (simp add: spaceless_def list_all_iff)
qed

text \<open>A row as QEMU prints it.\<close>

definition render_row :: "usernet_row \<Rightarrow> string" where
  "render_row r = ''  '' @ ur_proto r @ ''['' @ ur_state r @ '']  '' @ show_nat (ur_fd r) @ '' '' @ ur_srcAddr r @ '' ''
     @ show_nat (ur_srcPort r) @ '' '' @ ur_dstAddr r @ '' '' @ show_nat (ur_dstPort r) @ '' ''
     @ show_nat (ur_recvQ r) @ '' '' @ show_nat (ur_sendQ r)"

definition printable_row :: "usernet_row \<Rightarrow> bool" where
  "printable_row r \<longleftrightarrow> ur_proto r \<in> {''TCP'', ''UDP''} \<and> CHR '']'' \<notin> set (ur_state r) \<and> CHR 0x0A \<notin> set (ur_state r)
     \<and> spaceless (ur_srcAddr r) \<and> spaceless (ur_dstAddr r)"

definition table_header :: string where
  "table_header = ''  Protocol[State]    FD  Source Address  Port   Dest. Address  Port RecvQ SQ''"

definition render_table :: "usernet_row list \<Rightarrow> string" where
  "render_table rows = join [CHR 0x0A] (table_header # map render_row rows)"

lemma parse_render_row:
  assumes "printable_row r"
  shows "parse_row (render_row r) = Some r"
proof -
  define tail where "tail = show_nat (ur_fd r) @ CHR '' '' # ur_srcAddr r @ CHR '' '' #
     show_nat (ur_srcPort r) @ CHR '' '' # ur_dstAddr r @ CHR '' '' # show_nat (ur_dstPort r) @ CHR '' '' #
     show_nat (ur_recvQ r) @ CHR '' '' # show_nat (ur_sendQ r)"
  have words: "words (CHR '' '' # CHR '' '' # tail) =
     [show_nat (ur_fd r), ur_srcAddr r, show_nat (ur_srcPort r), ur_dstAddr r, show_nat (ur_dstPort r),
      show_nat (ur_recvQ r), show_nat (ur_sendQ r)]"
    using assms unfolding tail_def by (simp add: words_blank words_word words_last spaceless_show_nat printable_row_def)
  have line: "render_row r = CHR '' '' # CHR '' '' # ur_proto r @ CHR ''['' # ur_state r @ CHR '']'' # CHR '' '' # CHR '' '' # tail"
    by (simp add: render_row_def tail_def)
  have state: "CHR '']'' \<notin> set (ur_state r)" using assms by (simp add: printable_row_def)
  consider "ur_proto r = ''TCP''" | "ur_proto r = ''UDP''" using assms by (auto simp: printable_row_def)
  then show ?thesis
    by cases (simp_all add: parse_row_def line is_space_def row_proto_def starts_with_def state words row_of_words_def)
qed

lemma row_line:
  assumes "printable_row r"
  shows "CHR 0x0A \<notin> set (render_row r)" "strip_cr (render_row r) = render_row r"
proof -
  have n: "c \<notin> set s" if "spaceless s" "is_space c" for c s using that by (auto simp: spaceless_def list_all_iff)
  have nl: "is_space (CHR 0x0A)" "is_space (CHR 0x0D)" by (simp_all add: is_space_def)
  have p: "CHR 0x0A \<notin> set (ur_proto r)" using assms by (auto simp: printable_row_def)
  show "CHR 0x0A \<notin> set (render_row r)"
    using assms p nl n spaceless_show_nat by (auto simp: render_row_def printable_row_def)
  have "last (render_row r) = last (show_nat (ur_sendQ r))" "show_nat (ur_sendQ r) \<noteq> []" by (simp_all add: render_row_def)
  then have "last (render_row r) \<noteq> CHR 0x0D"
    using n [OF spaceless_show_nat [of "ur_sendQ r"] nl(2)] last_in_set by metis
  then show "strip_cr (render_row r) = render_row r" by (simp add: strip_cr_def)
qed

lemma crlf_lines_join:
  assumes "ls \<noteq> []" "\<And>l. l \<in> set ls \<Longrightarrow> CHR 0x0A \<notin> set l \<and> strip_cr l = l"
  shows "crlf_lines (join [CHR 0x0A] ls) = ls"
proof -
  have "split_on (CHR 0x0A) (join [CHR 0x0A] ls) = ls" using assms by (intro split_on_join) auto
  moreover have "map strip_cr (butlast ls) = butlast ls" using assms(2) by (intro map_idI) (meson in_set_butlastD)
  ultimately show ?thesis using assms(1) by (simp add: crlf_lines_def Let_def)
qed

lemma parse_render_table:
  assumes "list_all printable_row rows"
  shows "parseUsernetTable (render_table rows) = rows"
proof -
  have head: "parse_row table_header = None" "CHR 0x0A \<notin> set table_header" "strip_cr table_header = table_header"
    by (simp_all add: table_header_def parse_row_def is_space_def row_proto_def starts_with_def strip_cr_def)
  have "crlf_lines (render_table rows) = table_header # map render_row rows"
    unfolding render_table_def using assms head row_line by (intro crlf_lines_join) (auto simp: list_all_iff)
  moreover have "List.map_filter parse_row (map render_row rows) = rows"
    using assms by (induction rows) (auto simp: map_filter_Cons parse_render_row)
  ultimately show ?thesis by (simp add: parseUsernetTable_def map_filter_Cons head)
qed


section \<open>What the table says of every forward\<close>

text \<open>The state of the guest behind a forward, and the rows QEMU's user-mode network is documented to show
  for it after a probe: completed connections linger, a refused one leaves nothing, dropped ones stay in
  \<open>SYN_SENT\<close>, and a forward that was never bound has no row at all.\<close>

datatype guest_state = Serving nat | Closed | Dropping nat | Unbound

definition forward_row :: "port_mapping \<Rightarrow> usernet_row" where
  "forward_row f = \<lparr>ur_proto = ''TCP'', ur_state = HOST_FORWARD, ur_fd = 21, ur_srcAddr = ''*'', ur_srcPort = pm_host f,
     ur_dstAddr = ''10.0.2.15'', ur_dstPort = pm_guest f, ur_recvQ = 0, ur_sendQ = 0\<rparr>"

definition live_row :: "string \<Rightarrow> port_mapping \<Rightarrow> usernet_row" where
  "live_row state f = \<lparr>ur_proto = ''TCP'', ur_state = state, ur_fd = 103, ur_srcAddr = ''127.0.0.1'', ur_srcPort = pm_host f,
     ur_dstAddr = ''10.0.2.15'', ur_dstPort = pm_guest f, ur_recvQ = 0, ur_sendQ = 0\<rparr>"

fun live_rows_of :: "port_mapping \<times> guest_state \<Rightarrow> usernet_row list" where
  "live_rows_of (f, Serving n) = replicate (Suc n) (live_row ''TIME_WAIT'' f)"
| "live_rows_of (f, Dropping n) = replicate (Suc n) (live_row ''SYN_SENT'' f)"
| "live_rows_of (f, _) = []"

definition rows_of :: "port_mapping \<times> guest_state \<Rightarrow> usernet_row list" where
  "rows_of x = (if snd x = Unbound then [] else forward_row (fst x) # live_rows_of x)"

definition expected :: "guest_state \<Rightarrow> forward_outcome" where
  "expected g = (case g of Serving _ \<Rightarrow> FServed | Closed \<Rightarrow> FRefused | Dropping _ \<Rightarrow> FDropped | Unbound \<Rightarrow> FNotForwarded)"

text \<open>Other traffic of the guest: connections of its own, on other ports.\<close>

definition unrelated :: "port_mapping list \<Rightarrow> usernet_row \<Rightarrow> bool" where
  "unrelated fs r \<longleftrightarrow> printable_row r \<and> ur_state r \<noteq> HOST_FORWARD \<and> ur_srcPort r \<notin> pm_host ` set fs
     \<and> ur_dstPort r \<notin> pm_guest ` set fs"

lemma rows_of_fields:
  "r \<in> set (rows_of x) \<Longrightarrow> ur_srcPort r = pm_host (fst x) \<and> ur_dstPort r = pm_guest (fst x) \<and> ur_proto r = ''TCP'' \<and> printable_row r"
  by (cases x rule: live_rows_of.cases)
    (auto simp: rows_of_def forward_row_def live_row_def printable_row_def spaceless_def is_space_def split: if_splits)

lemma live_of_rows: "filter (\<lambda>r. ur_state r \<noteq> HOST_FORWARD) (rows_of x) = live_rows_of x"
  by (cases x rule: live_rows_of.cases) (auto simp: rows_of_def forward_row_def live_row_def)

lemma outcome_expected:
  "outcome_of (snd x \<noteq> Unbound) (live_rows_of x) = expected (snd x)"
  by (cases x rule: live_rows_of.cases) (auto simp: outcome_of_def expected_def live_row_def SERVED_STATES_def list_ex_iff)

lemma own_rows:
  assumes "distinct (map (pm_host \<circ> fst) xs)" "x \<in> set xs"
    and "\<And>r. P r \<Longrightarrow> ur_srcPort r = pm_host (fst x)"
  shows "filter P (concat (map rows_of xs)) = filter P (rows_of x)"
  using assms(1,2)
proof (induction xs)
  case (Cons y ys)
  show ?case
  proof (cases "y = x")
    case True
    have "filter P (rows_of z) = []" if "z \<in> set ys" for z
    proof -
      have "pm_host (fst z) \<noteq> pm_host (fst x)" using that Cons.prems(1) True by (auto simp: comp_def image_iff)
      then show ?thesis unfolding filter_empty_conv using rows_of_fields assms(3) by metis
    qed
    then have "filter P (concat (map rows_of ys)) = []" by (induction ys) auto
    then show ?thesis using True by simp
  next
    case False
    then have x: "x \<in> set ys" using Cons.prems(2) by simp
    then have "pm_host (fst y) \<noteq> pm_host (fst x)" using Cons.prems(1) by (auto simp: comp_def image_iff)
    then have "filter P (rows_of y) = []" unfolding filter_empty_conv using rows_of_fields assms(3) by metis
    then show ?thesis using Cons x by simp
  qed
qed simp

lemma tcp_upper: "to_upper ''tcp'' = ''TCP''" "to_upper ''TCP'' = ''TCP''"
  by code_simp+

lemma classify_one:
  assumes "distinct (map (pm_host \<circ> fst) xs)" "x \<in> set xs" "list_all (\<lambda>y. pm_proto (fst y) = TCP) xs"
    "list_all (unrelated (map fst xs)) noise"
  defines "rows \<equiv> concat (map rows_of xs) @ noise"
  shows "fc_outcome (classify_forward (rows_carry_host_port rows (map fst xs)) rows h (fst x)) = expected (snd x)"
proof -
  have tcp: "to_upper (proto_str (pm_proto (fst x))) = ''TCP''" "to_upper ''TCP'' = ''TCP''"
    using assms(2,3) tcp_upper by (auto simp: list_all_iff proto_str_def)
  have noise: "r \<in> set noise \<Longrightarrow> ur_state r \<noteq> HOST_FORWARD \<and> ur_srcPort r \<noteq> pm_host (fst x) \<and> ur_dstPort r \<noteq> pm_guest (fst x)" for r
    using assms(2,4) by (auto simp: list_all_iff unrelated_def)
  have own: "r \<in> set (rows_of x) \<Longrightarrow> ur_srcPort r = pm_host (fst x) \<and> ur_dstPort r = pm_guest (fst x) \<and> to_upper (ur_proto r) = ''TCP''" for r
    using rows_of_fields [of r x] tcp(2) by simp
  let ?P = "\<lambda>r. ur_srcPort r = pm_host (fst x) \<and> ur_state r \<noteq> HOST_FORWARD \<and> to_upper (ur_proto r) = ''TCP'' \<and> ur_dstPort r = pm_guest (fst x)"
  have "filter ?P (concat (map rows_of xs)) = filter ?P (rows_of x)" by (rule own_rows [OF assms(1,2)]) simp
  also have "\<dots> = live_rows_of x" unfolding live_of_rows [symmetric] using own by (intro filter_cong) auto
  finally have mine: "filter ?P rows = live_rows_of x" using noise by (auto simp: rows_def filter_empty_conv)
  have live: "live_rows (rows_carry_host_port rows (map fst xs)) rows (fst x) = live_rows_of x"
  proof (cases "rows_carry_host_port rows (map fst xs)")
    case True
    then show ?thesis using mine by (simp add: live_rows_def by_guest_port_def Let_def tcp conj_ac)
  next
    case False
    have none: "ur_state r = HOST_FORWARD" if "y \<in> set xs" "r \<in> set (rows_of y)" for y r
    proof (rule ccontr)
      assume "ur_state r \<noteq> HOST_FORWARD"
      moreover have "r \<in> set rows" "ur_srcPort r = pm_host (fst y)" using that rows_of_fields [OF that(2)] by (auto simp: rows_def)
      ultimately have "rows_carry_host_port rows (map fst xs)"
        using that(1) unfolding rows_carry_host_port_def list_ex_iff by (metis image_eqI list.set_map)
      then show False using False by simp
    qed
    then have "filter (\<lambda>r. ur_state r \<noteq> HOST_FORWARD) (rows_of x) = []" using assms(2) by (auto simp: filter_empty_conv)
    then have "live_rows_of x = []" by (simp add: live_of_rows)
    moreover have "filter (\<lambda>r. ur_state r \<noteq> HOST_FORWARD) (by_guest_port rows (fst x)) = []"
      using none noise by (auto simp: by_guest_port_def rows_def filter_empty_conv)
    ultimately show ?thesis using False by (simp add: live_rows_def Let_def)
  qed
  have "list_ex (\<lambda>r. ur_state r = HOST_FORWARD \<and> ur_srcPort r = pm_host (fst x)) (by_guest_port rows (fst x)) \<longleftrightarrow> snd x \<noteq> Unbound"
  proof
    assume "snd x \<noteq> Unbound"
    then have "forward_row (fst x) \<in> set rows" using assms(2) by (force simp: rows_def rows_of_def)
    then show "list_ex (\<lambda>r. ur_state r = HOST_FORWARD \<and> ur_srcPort r = pm_host (fst x)) (by_guest_port rows (fst x))"
      by (auto simp: list_ex_iff by_guest_port_def forward_row_def tcp intro!: bexI [of _ "forward_row (fst x)"])
  next
    assume "list_ex (\<lambda>r. ur_state r = HOST_FORWARD \<and> ur_srcPort r = pm_host (fst x)) (by_guest_port rows (fst x))"
    then obtain r where r: "r \<in> set rows" "ur_state r = HOST_FORWARD" "ur_srcPort r = pm_host (fst x)"
      by (auto simp: list_ex_iff by_guest_port_def)
    then have "r \<in> set (filter (\<lambda>r. ur_srcPort r = pm_host (fst x)) (concat (map rows_of xs)))" using noise by (auto simp: rows_def)
    moreover have "filter (\<lambda>r. ur_srcPort r = pm_host (fst x)) (concat (map rows_of xs)) = filter (\<lambda>r. ur_srcPort r = pm_host (fst x)) (rows_of x)"
      by (rule own_rows [OF assms(1,2)])
    ultimately have "r \<in> set (rows_of x)" by simp
    then show "snd x \<noteq> Unbound" by (auto simp: rows_of_def)
  qed
  then show ?thesis by (simp add: classify_forward_def Let_def live outcome_expected)
qed

text \<open>C25: on the table QEMU prints for forwards of distinct host ports, whatever the guest
  does behind each of them, and with other connections of the guest on unrelated ports in it, the
  classification of the parsed text tells for every forward, in order, what the guest does.\<close>

theorem forward_diagnosis:
  assumes "distinct (map (pm_host \<circ> fst) xs)" "list_all (\<lambda>y. pm_proto (fst y) = TCP) xs"
    "list_all (unrelated (map fst xs)) noise"
  shows "map fc_outcome (classifyForwardedPorts
      (parseUsernetTable (render_table (concat (map rows_of xs) @ noise))) (map fst xs) h) = map (expected \<circ> snd) xs"
proof -
  have "list_all printable_row (concat (map rows_of xs) @ noise)"
    using assms(3) rows_of_fields by (force simp: list_all_iff unrelated_def)
  then have "parseUsernetTable (render_table (concat (map rows_of xs) @ noise)) = concat (map rows_of xs) @ noise"
    by (rule parse_render_table)
  then show ?thesis using classify_one [OF assms(1) _ assms(2,3)] by (simp add: classifyForwardedPorts_def comp_def)
qed

definition demo_forward :: "string \<Rightarrow> nat \<Rightarrow> nat \<Rightarrow> port_mapping" where
  "demo_forward n host guest = \<lparr>pm_name = n, pm_host = host, pm_guest = guest, pm_proto = TCP\<rparr>"

definition outbound_row :: "nat \<Rightarrow> usernet_row" where
  "outbound_row port = \<lparr>ur_proto = ''TCP'', ur_state = ''ESTABLISHED'', ur_fd = 40, ur_srcAddr = ''10.0.2.15'',
     ur_srcPort = 49152, ur_dstAddr = ''159.148.147.251'', ur_dstPort = port, ur_recvQ = 0, ur_sendQ = 0\<rparr>"

definition demo_states :: "(port_mapping \<times> guest_state) list" where
  "demo_states = [(demo_forward ''http'' 9100 80, Dropping 1), (demo_forward ''https'' 9101 443, Closed),
     (demo_forward ''web'' 9106 80, Serving 0), (demo_forward ''ssh'' 9102 22, Unbound)]"

theorem forward_diagnosis_witness:
  "distinct (map (pm_host \<circ> fst) demo_states) \<and> list_all (\<lambda>y. pm_proto (fst y) = TCP) demo_states
   \<and> list_all (unrelated (map fst demo_states)) [outbound_row 53]
   \<and> map fc_outcome (classifyForwardedPorts
        (parseUsernetTable (render_table (concat (map rows_of demo_states) @ [outbound_row 53]))) (map fst demo_states) Map.empty)
      = [FDropped, FRefused, FServed, FNotForwarded]"
proof -
  have h: "distinct (map (pm_host \<circ> fst) demo_states)" "list_all (\<lambda>y. pm_proto (fst y) = TCP) demo_states"
    "list_all (unrelated (map fst demo_states)) [outbound_row 53]"
    by (simp_all add: demo_states_def demo_forward_def unrelated_def outbound_row_def printable_row_def spaceless_def is_space_def)
  show ?thesis using forward_diagnosis [OF h, of Map.empty] h by (simp add: demo_states_def expected_def)
qed

text \<open>The classification does not look at the address a row goes to. While no forward has a connection of its
  own, a connection of the guest to port 443 of some server makes the forward of the guest's 443, where
  nothing listens, look served.\<close>

lemma outbound_misread:
  "map fc_outcome (classifyForwardedPorts (rows_of (demo_forward ''https'' 9101 443, Closed) @ [outbound_row 443])
      [demo_forward ''https'' 9101 443] h) = [FServed]"
  by (simp add: classifyForwardedPorts_def classify_forward_def rows_carry_host_port_def Let_def live_rows_def by_guest_port_def
      rows_of_def forward_row_def demo_forward_def outbound_row_def outcome_of_def SERVED_STATES_def proto_str_def tcp_upper)

section \<open>The summary and the reports\<close>

text \<open>The summary, which ends up in a public log, tells nothing of the serial log but its length, and of
  the guest's answers only what \<open>summarizeGuestSnapshot\<close> takes from them: its own line.\<close>

lemma summary_hides_serial:
  "length s = length t \<Longrightarrow> capture_summary (c\<lparr>ca_serialLog := Some s\<rparr>) = capture_summary (c\<lparr>ca_serialLog := Some t\<rparr>)"
  by (auto simp: capture_summary_def capture_lines_def opt_line_def nonempty_def)

lemma insert_report_mset: "mset (insert_report x ys) = add_mset x (mset ys)"
  by (induction x ys rule: insert_report.induct) auto

lemma sorted_reports_mset: "mset (sorted_reports xs) = mset xs"
proof -
  have "mset (fold insert_report xs ys) = mset xs + mset ys" for ys
    by (induction xs arbitrary: ys) (auto simp: insert_report_mset)
  then show ?thesis by (simp add: sorted_reports_def)
qed

lemma stamp_less_irrefl: "\<not> stamp_less a a"
  by (induction a) auto

lemma stamp_less_trans: "stamp_less a b \<Longrightarrow> stamp_less b c \<Longrightarrow> stamp_less a c"
  by (induction a b arbitrary: c rule: stamp_less.induct) (case_tac [!] c, auto)

lemma stamp_less_total: "\<not> stamp_less a b \<Longrightarrow> \<not> stamp_less b a \<Longrightarrow> a = b"
proof (induction a b rule: stamp_less.induct)
  case (3 a x b y)
  then show ?case by (cases "code a = (code b :: nat)") auto
qed (auto elim: stamp_less.elims)

definition older :: "string \<Rightarrow> string \<Rightarrow> bool" where
  "older x y \<longleftrightarrow> \<not> stamp_less (report_stamp y) (report_stamp x)"

lemma older_trans: "older x y \<Longrightarrow> older y z \<Longrightarrow> older x z"
  using stamp_less_trans stamp_less_total unfolding older_def by metis

lemma insert_report_sorted: "sorted_wrt older ys \<Longrightarrow> sorted_wrt older (insert_report x ys)"
proof (induction ys)
  case (Cons y ys)
  show ?case
  proof (cases "stamp_less (report_stamp x) (report_stamp y)")
    case True
    then have "older x y" using stamp_less_trans stamp_less_irrefl by (auto simp: older_def)
    then show ?thesis using Cons True older_trans by auto
  next
    case False
    then have "older y x" by (simp add: older_def)
    moreover have "set (insert_report x ys) = insert x (set ys)"
      using insert_report_mset [of x ys] by (metis set_mset_add_mset_insert set_mset_mset)
    ultimately show ?thesis using Cons False by auto
  qed
qed simp

lemma sorted_reports_sorted: "sorted_wrt older (sorted_reports xs)"
proof -
  have "sorted_wrt older ys \<Longrightarrow> sorted_wrt older (fold insert_report xs ys)" for ys
    by (induction xs arbitrary: ys) (auto simp: insert_report_sorted)
  then show ?thesis by (simp add: sorted_reports_def)
qed

text \<open>pruning deletes nothing but reports, keeps every report it cannot delete, leaves no more
  than the number to keep when every delete works, and what it deletes is never newer than a report
  it does not choose, whichever of the two kinds either is.\<close>

theorem prune_reports:
  assumes "distinct names"
  shows "set (stale_reports keep names) \<subseteq> set (filter is_report names)
    \<and> pruneBootFailureReports unlinks keep names = filter (\<lambda>n. n \<notin> set (stale_reports keep names) \<or> \<not> unlinks n) names
    \<and> length (filter is_report (pruneBootFailureReports (\<lambda>_. True) keep names)) \<le> keep
    \<and> (\<forall>old \<in> set (stale_reports keep names). \<forall>kept \<in> set (filter is_report names) - set (stale_reports keep names). older old kept)"
proof -
  let ?r = "rev (sorted_reports (filter is_report names))"
  have sets: "set ?r = set (filter is_report names)" "distinct ?r"
    using sorted_reports_mset [of "filter is_report names"] assms
    by (metis mset_eq_setD set_rev) (metis assms distinct_filter distinct_rev mset_eq_imp_distinct_iff sorted_reports_mset)
  have split: "set ?r = set (take keep ?r) \<union> set (drop keep ?r)" "set (take keep ?r) \<inter> set (drop keep ?r) = {}"
    using sets(2) by (metis append_take_drop_id set_append) (metis append_take_drop_id distinct_append sets(2))
  have kept: "set (filter is_report names) - set (stale_reports keep names) = set (take keep ?r)"
    using split sets(1) unfolding stale_reports_def by blast
  have "sorted_wrt (\<lambda>x y. older y x) ?r" using sorted_reports_sorted by (simp add: sorted_wrt_rev)
  then have order: "\<forall>k \<in> set (take keep ?r). \<forall>old \<in> set (drop keep ?r). older old k"
    by (metis append_take_drop_id sorted_wrt_append)
  have "filter is_report (pruneBootFailureReports (\<lambda>_. True) keep names) =
      filter (\<lambda>n. n \<notin> set (stale_reports keep names)) (filter is_report names)"
    by (auto simp: pruneBootFailureReports_def intro: filter_cong)
  moreover have "set (filter (\<lambda>n. n \<notin> set (stale_reports keep names)) (filter is_report names)) = set (take keep ?r)"
    using kept by auto
  moreover have "distinct (filter (\<lambda>n. n \<notin> set (stale_reports keep names)) (filter is_report names))" using assms by simp
  ultimately have "length (filter is_report (pruneBootFailureReports (\<lambda>_. True) keep names)) = card (set (take keep ?r))"
    by (metis distinct_card)
  also have "\<dots> \<le> keep" using card_length [of "take keep ?r"] by simp
  finally have "length (filter is_report (pruneBootFailureReports (\<lambda>_. True) keep names)) \<le> keep" .
  moreover have "set (stale_reports keep names) \<subseteq> set (filter is_report names)"
    unfolding stale_reports_def sets(1) [symmetric] by (rule set_drop_subset)
  moreover have "\<forall>old \<in> set (stale_reports keep names). \<forall>k \<in> set (filter is_report names) - set (stale_reports keep names). older old k"
    unfolding kept using order by (simp add: stale_reports_def)
  ultimately show ?thesis by (simp add: pruneBootFailureReports_def)
qed

end
