(* ===== verification/License.thy ===== *)
theory License
  imports Boot_Wait
begin

text \<open>
  The licence of a guest (\<open>src/lib/license.ts\<close>): waiting for the endpoint, asking for a renewal, reading the
  licence. The answers of the guest are given in the order of the requests of each kind, each with the
  time it took; times are milliseconds.
\<close>

section \<open>Errors and bodies\<close>

text \<open>\<open>"x" in data\<close> throws a \<open>TypeError\<close> when \<open>data\<close> is no object.\<close>

datatype license_error = LicenseFailed string | TypeErrorThrown

definition has_key :: "string \<Rightarrow> json \<Rightarrow> bool option" where
  "has_key k v = (case v of JObj kvs \<Rightarrow> Some (k \<in> fst ` set kvs) | JArr _ \<Rightarrow> Some False | _ \<Rightarrow> None)"

datatype renew_class = RenewDone | RenewError | RenewPending | RenewNotReady

definition classifyRenewResponse :: "json option \<Rightarrow> renew_class" where
  "classifyRenewResponse body =
     (case body of
        Some (JArr xs) \<Rightarrow>
          (case (if xs = [] then None else field ''status'' (last xs)) of
             Some (JStr s) \<Rightarrow>
               if s = ''done'' then RenewDone else if starts_with ''ERROR:'' s then RenewError else RenewPending
           | _ \<Rightarrow> RenewPending)
      | Some (JObj kvs) \<Rightarrow>
          if ''board-name'' \<in> fst ` set kvs \<or> ''architecture-name'' \<in> fst ` set kvs then RenewNotReady else RenewPending
      | _ \<Rightarrow> RenewPending)"

definition ok_status :: "nat \<Rightarrow> bool" where
  "ok_status status \<longleftrightarrow> 200 \<le> status \<and> status < 300"

section \<open>Waiting for the endpoint\<close>

definition license_api_ready :: "rest_answer \<Rightarrow> bool" where
  "license_api_ready a =
     (case a of
        RestReply status body parsed \<Rightarrow>
          ok_status status \<and>
          (case parsed of
             Some v \<Rightarrow> has_key ''system-id'' v = Some True \<and> has_key ''board-name'' v = Some False
           | None \<Rightarrow> False)
      | RestThrew _ \<Rightarrow> False)"

text \<open>How many requests a loop made, and when it ended.\<close>

function waitForLicenseApi :: "(nat \<Rightarrow> rest_answer \<times> nat) \<Rightarrow> nat \<Rightarrow> nat \<Rightarrow> nat \<Rightarrow> nat \<times> nat" where
  "waitForLicenseApi answers deadline i now =
     (if now < deadline then
        (let (a, took) = answers i in
         if license_api_ready a then (i + 1, now + took)
         else waitForLicenseApi answers deadline (i + 1) (now + took + 2000))
      else (i, now))"
  by pat_completeness auto
termination
  by (relation "measure (\<lambda>(answers, deadline, i, now). deadline - now)") auto

declare waitForLicenseApi.simps [simp del]

section \<open>Reading the licence\<close>

text \<open>A level that is falsy counts as missing: \<open>free\<close>.\<close>

definition falsy :: "json option \<Rightarrow> bool" where
  "falsy v \<longleftrightarrow> v \<in> {None, Some JNull, Some (JBool False), Some (JNum 0), Some (JStr [])}"

definition license_level :: "json \<Rightarrow> json" where
  "license_level info = (if falsy (field ''level'' info) then JStr ''free'' else the (field ''level'' info))"

text \<open>What one answer is: the licence, an error that is thrown, or another try with the error to remember.\<close>

datatype info_step = InfoGot json | InfoThrow license_error | InfoAgain "string option"

definition info_step :: "rest_answer \<Rightarrow> string option \<Rightarrow> info_step" where
  "info_step a lastError =
     (case a of
        RestThrew e \<Rightarrow> InfoAgain (Some (te_message e))
      | RestReply status body parsed \<Rightarrow>
          if \<not> ok_status status then
            InfoThrow (LicenseFailed (''Failed to get license info: HTTP '' @ show_nat status @ '', '' @ body))
          else
            (case parsed of
               None \<Rightarrow> InfoAgain (Some (''Invalid JSON from /system/license: '' @ body))
             | Some v \<Rightarrow>
                 (case (has_key ''board-name'' v, has_key ''architecture-name'' v) of
                    (Some False, Some False) \<Rightarrow> InfoGot v
                  | (Some _, Some _) \<Rightarrow> InfoAgain lastError
                  | _ \<Rightarrow> InfoThrow TypeErrorThrown)))"

record 'a timed =
  tm_value :: 'a
  tm_requests :: nat
  tm_at :: nat

definition info_failed :: "string option \<Rightarrow> license_error" where
  "info_failed lastError = LicenseFailed (''License info request failed after retries: ''
     @ (case lastError of Some m \<Rightarrow> m | None \<Rightarrow> ''timed out''))"

function getLicenseInfo ::
    "(nat \<Rightarrow> rest_answer \<times> nat) \<Rightarrow> nat \<Rightarrow> nat \<Rightarrow> nat \<Rightarrow> string option \<Rightarrow> (license_error + json) timed" where
  "getLicenseInfo answers deadline i now lastError =
     (let (a, took) = answers i; t = now + took in
      case info_step a lastError of
        InfoGot v \<Rightarrow> \<lparr>tm_value = Inr v, tm_requests = i + 1, tm_at = t\<rparr>
      | InfoThrow e \<Rightarrow> \<lparr>tm_value = Inl e, tm_requests = i + 1, tm_at = t\<rparr>
      | InfoAgain err \<Rightarrow>
          (let t' = t + min 1000 (deadline - t) in
           if t' < deadline then getLicenseInfo answers deadline (i + 1) t' err
           else \<lparr>tm_value = Inl (info_failed err), tm_requests = i + 1, tm_at = t'\<rparr>))"
  by pat_completeness auto
termination
  by (relation "measure (\<lambda>(answers, deadline, i, now, e). deadline - now)") (auto simp: min_def split: if_splits)

declare getLicenseInfo.simps [simp del]

lemma info_time: "now \<le> tm_at (getLicenseInfo answers deadline i now e)"
proof (induction answers deadline i now e rule: getLicenseInfo.induct)
  case (1 answers deadline i now e)
  obtain a took where a: "answers i = (a, took)" by fastforce
  define u where "u = now + took + min 1000 (deadline - (now + took))"
  have ih: "u \<le> tm_at (getLicenseInfo answers deadline (i + 1) u err)" if "info_step a e = InfoAgain err" "u < deadline" for err
    using 1 [OF refl a [symmetric] refl that(1) u_def that(2)] .
  show ?case
  proof (cases "info_step a e")
    case (InfoAgain err)
    have e: "getLicenseInfo answers deadline i now e = (if u < deadline then getLicenseInfo answers deadline (i + 1) u err
        else \<lparr>tm_value = Inl (info_failed err), tm_requests = i + 1, tm_at = u\<rparr>)"
      by (subst getLicenseInfo.simps) (simp add: a Let_def InfoAgain u_def)
    have "now \<le> u" by (simp add: u_def)
    then show ?thesis unfolding e using ih [OF InfoAgain] by (cases "u < deadline") auto
  qed (subst getLicenseInfo.simps, simp add: a Let_def)+
qed

section \<open>Renewing\<close>

definition LICENSE_VERIFY_TIMEOUT :: nat where
  "LICENSE_VERIFY_TIMEOUT = 90000"

definition MAX_RENEW_ATTEMPTS :: nat where
  "MAX_RENEW_ATTEMPTS = 3"

text \<open>The poll after an accepted renewal: whether the level showed up before the deadline.\<close>

function poll_level :: "(nat \<Rightarrow> rest_answer \<times> nat) \<Rightarrow> string \<Rightarrow> nat \<Rightarrow> nat \<Rightarrow> nat \<Rightarrow> bool timed" where
  "poll_level answers level deadline i now =
     (if now < deadline then
        (let r = getLicenseInfo answers (now + 15000) i now None in
         if (case tm_value r of Inr v \<Rightarrow> license_level v = JStr level | Inl _ \<Rightarrow> False) then
           \<lparr>tm_value = True, tm_requests = tm_requests r, tm_at = tm_at r\<rparr>
         else poll_level answers level deadline (tm_requests r) (tm_at r + 2000))
      else \<lparr>tm_value = False, tm_requests = i, tm_at = now\<rparr>)"
  by pat_completeness auto
termination
proof (relation "measure (\<lambda>(answers, level, deadline, i, now). deadline - now)", goal_cases)
  case (2 answers level deadline i now x)
  then show ?case using info_time [of now answers "now + 15000" i None] by simp
qed simp

declare poll_level.simps [simp del]

definition rejected_detail :: "string \<Rightarrow> json option \<Rightarrow> string" where
  "rejected_detail body parsed =
     (case parsed of
        Some (JArr xs) \<Rightarrow> (case (if xs = [] then None else field ''status'' (last xs)) of
            Some (JStr s) \<Rightarrow> if s \<noteq> [] then s else body | _ \<Rightarrow> body)
      | _ \<Rightarrow> body)"

text \<open>One answer of the renewal: a refusal, another attempt, or acceptance.\<close>

datatype renew_step = RenewRefused string | RenewAgain | RenewAccepted

definition renew_step :: "rest_answer \<Rightarrow> renew_step" where
  "renew_step a =
     (case a of
        RestThrew e \<Rightarrow> RenewRefused (''License renewal request failed: '' @ te_message e)
      | RestReply status body parsed \<Rightarrow>
          if \<not> ok_status status then RenewRefused (''License renewal failed: HTTP '' @ show_nat status @ '', '' @ body)
          else
            (case classifyRenewResponse parsed of
               RenewError \<Rightarrow> RenewRefused (''License renewal rejected by MikroTik: '' @ rejected_detail body parsed)
             | RenewNotReady \<Rightarrow> RenewAgain
             | _ \<Rightarrow> RenewAccepted))"

record renew_end =
  re_result :: "license_error + unit"
  re_posts :: nat
  re_at :: nat

text \<open>The attempts: \<open>left\<close> are left, \<open>k\<close> were made.\<close>

fun renew_attempts ::
    "(nat \<Rightarrow> rest_answer \<times> nat) \<Rightarrow> (nat \<Rightarrow> rest_answer \<times> nat) \<Rightarrow> string option \<Rightarrow> nat \<Rightarrow> nat \<Rightarrow> nat \<Rightarrow> renew_end" where
  "renew_attempts posts gets level 0 k now = \<lparr>re_result = Inr (), re_posts = k, re_at = now\<rparr>"
| "renew_attempts posts gets level (Suc left) k now =
     (let (a, took) = posts k; t = now + took in
      case renew_step a of
        RenewRefused m \<Rightarrow> \<lparr>re_result = Inl (LicenseFailed m), re_posts = k + 1, re_at = t\<rparr>
      | RenewAgain \<Rightarrow>
          (if 0 < left then renew_attempts posts gets level left (k + 1) (t + 5000)
           else \<lparr>re_result = Inl (LicenseFailed ''License renew endpoint returned system resource data after multiple attempts''),
                  re_posts = k + 1, re_at = t\<rparr>)
      | RenewAccepted \<Rightarrow>
          (case level of
             None \<Rightarrow> \<lparr>re_result = Inr (), re_posts = k + 1, re_at = t\<rparr>
           | Some l \<Rightarrow>
               (let p = poll_level gets l (t + LICENSE_VERIFY_TIMEOUT) 0 t in
                \<lparr>re_result = (if tm_value p then Inr ()
                   else Inl (LicenseFailed (''License renewal accepted but level did not change to '' @ l))),
                 re_posts = k + 1, re_at = tm_at p\<rparr>)))"

definition renewLicense ::
    "(nat \<Rightarrow> rest_answer \<times> nat) \<Rightarrow> (nat \<Rightarrow> rest_answer \<times> nat) \<Rightarrow> (nat \<Rightarrow> rest_answer \<times> nat) \<Rightarrow> string option \<Rightarrow> renew_end" where
  "renewLicense ready posts gets level =
     (let level' = (if level = Some [] then None else level) in
      renew_attempts posts gets level' MAX_RENEW_ATTEMPTS 0 (snd (waitForLicenseApi ready 30000 0 0)))"

section \<open>What a renewal promises\<close>

text \<open>The level was seen: some reading of the licence returned it.\<close>

definition level_seen :: "(nat \<Rightarrow> rest_answer \<times> nat) \<Rightarrow> string \<Rightarrow> bool" where
  "level_seen gets level \<longleftrightarrow>
     (\<exists>j v err. info_step (fst (gets j)) err = InfoGot v \<and> license_level v = JStr level)"

lemma info_got: "tm_value (getLicenseInfo answers deadline i now e) = Inr v \<Longrightarrow> \<exists>j err. info_step (fst (answers j)) err = InfoGot v"
proof (induction answers deadline i now e rule: getLicenseInfo.induct)
  case (1 answers deadline i now e)
  obtain a took where a: "answers i = (a, took)" by fastforce
  let ?t = "now + took" let ?u = "?t + min 1000 (deadline - ?t)"
  show ?case
  proof (cases "info_step a e")
    case (InfoGot w)
    then have "v = w" using "1.prems" by (subst (asm) getLicenseInfo.simps) (simp add: a Let_def)
    then show ?thesis using InfoGot a by (metis fst_conv)
  next
    case (InfoThrow x)
    then show ?thesis using "1.prems" by (subst (asm) getLicenseInfo.simps) (simp add: a Let_def)
  next
    case (InfoAgain err)
    have e: "getLicenseInfo answers deadline i now e = (if ?u < deadline then getLicenseInfo answers deadline (i + 1) ?u err
        else \<lparr>tm_value = Inl (info_failed err), tm_requests = i + 1, tm_at = ?u\<rparr>)"
      by (subst getLicenseInfo.simps) (simp add: a Let_def InfoAgain)
    have "?u < deadline \<and> tm_value (getLicenseInfo answers deadline (i + 1) ?u err) = Inr v"
      using "1.prems" unfolding e by (simp split: if_splits)
    then show ?thesis using "1.IH" [OF refl a [symmetric] refl InfoAgain refl] by blast
  qed
qed

lemma poll_seen: "tm_value (poll_level gets level deadline i now) \<Longrightarrow> level_seen gets level"
proof (induction gets level deadline i now rule: poll_level.induct)
  case (1 gets level deadline i now)
  let ?r = "getLicenseInfo gets (now + 15000) i now None"
  show ?case
  proof (cases "now < deadline")
    case now: True
    show ?thesis
    proof (cases "\<exists>v. tm_value ?r = Inr v \<and> license_level v = JStr level")
      case True
      then show ?thesis using info_got unfolding level_seen_def by blast
    next
      case False
      then have none: "\<not> (case tm_value ?r of Inr v \<Rightarrow> license_level v = JStr level | Inl _ \<Rightarrow> False)"
        by (auto split: sum.splits)
      then have "tm_value (poll_level gets level deadline (tm_requests ?r) (tm_at ?r + 2000))"
        using "1.prems" now by (subst (asm) poll_level.simps) (simp add: Let_def)
      then show ?thesis using "1.IH" [OF now refl none] by blast
    qed
  next
    case False
    then show ?thesis using "1.prems" by (subst (asm) poll_level.simps) simp
  qed
qed

text \<open>What the attempts from the \<open>k\<close>-th on end with.\<close>

definition renew_ok ::
    "(nat \<Rightarrow> rest_answer \<times> nat) \<Rightarrow> (nat \<Rightarrow> rest_answer \<times> nat) \<Rightarrow> string option \<Rightarrow> nat \<Rightarrow> renew_end \<Rightarrow> bool" where
  "renew_ok posts gets level k r \<longleftrightarrow>
     k < re_posts r
     \<and> (\<forall>j. k \<le> j \<and> j + 1 < re_posts r \<longrightarrow> renew_step (fst (posts j)) = RenewAgain)
     \<and> (case re_result r of
          Inr _ \<Rightarrow> renew_step (fst (posts (re_posts r - 1))) = RenewAccepted
            \<and> (case level of None \<Rightarrow> True | Some l \<Rightarrow> level_seen gets l)
        | Inl e \<Rightarrow> e \<noteq> TypeErrorThrown)"

lemma attempts_ok: "0 < left \<Longrightarrow> renew_ok posts gets level k (renew_attempts posts gets level left k now)
    \<and> re_posts (renew_attempts posts gets level left k now) \<le> k + left"
proof (induction left arbitrary: k now)
  case (Suc left)
  obtain a took where a: "posts k = (a, took)" by fastforce
  show ?case
  proof (cases "renew_step a")
    case (RenewRefused m)
    then show ?thesis by (auto simp: a Let_def renew_ok_def)
  next
    case RenewAccepted
    then show ?thesis
      using poll_seen by (auto simp: a Let_def renew_ok_def split: option.splits)
  next
    case RenewAgain
    show ?thesis
    proof (cases "0 < left")
      case True
      let ?r = "renew_attempts posts gets level left (k + 1) (now + took + 5000)"
      have ih: "renew_ok posts gets level (k + 1) ?r" "re_posts ?r \<le> k + 1 + left" using Suc.IH [OF True] by blast+
      have first: "renew_step (fst (posts j)) = RenewAgain" if "k \<le> j" "j + 1 < re_posts ?r" for j
        using that ih(1) RenewAgain a by (cases "j = k") (auto simp: renew_ok_def)
      have "renew_ok posts gets level k ?r" using ih(1) first unfolding renew_ok_def by auto
      then show ?thesis using RenewAgain True ih(2) by (simp add: a Let_def)
    next
      case False
      then show ?thesis using RenewAgain by (auto simp: a Let_def renew_ok_def)
    qed
  qed
qed simp

text \<open>C22: a renewal asks at most three times, and asks again only after an answer that is not
  the licence service's; a refusal is never retried. It succeeds only when the last answer was taken and,
  when a level was asked for, a reading of the licence returned exactly that level; whatever the guest
  answers, it fails only with an error of its own.\<close>

theorem renew_result:
  "renew_ok posts gets (if level = Some [] then None else level) 0 (renewLicense ready posts gets level)
   \<and> re_posts (renewLicense ready posts gets level) \<le> MAX_RENEW_ATTEMPTS"
  using attempts_ok [of MAX_RENEW_ATTEMPTS posts gets _ 0] by (simp add: renewLicense_def Let_def MAX_RENEW_ATTEMPTS_def)

text \<open>A renewal that is still pending counts as done when the guest has the level from before.\<close>

lemma pending_counts_as_done:
  assumes "posts 0 = (RestReply 200 body (Some (JArr [JObj [(''status'', JStr ''connecting'')]])), t1)"
    "gets 0 = (RestReply 200 body' (Some (JObj [(''system-id'', JStr ''x''), (''level'', JStr level)])), t2)"
    "level \<noteq> []"
  shows "re_result (renewLicense ready posts gets (Some level)) = Inr () \<and> re_posts (renewLicense ready posts gets (Some level)) = 1"
proof -
  have step: "renew_step (RestReply 200 body (Some (JArr [JObj [(''status'', JStr ''connecting'')]]))) = RenewAccepted"
    by (simp add: renew_step_def ok_status_def classifyRenewResponse_def starts_with_def)
  have info: "info_step (RestReply 200 body' (Some (JObj [(''system-id'', JStr ''x''), (''level'', JStr level)]))) None
      = InfoGot (JObj [(''system-id'', JStr ''x''), (''level'', JStr level)])"
    by (simp add: info_step_def ok_status_def has_key_def)
  have get: "tm_value (getLicenseInfo gets d 0 n None) = Inr (JObj [(''system-id'', JStr ''x''), (''level'', JStr level)])" for d n
    by (subst getLicenseInfo.simps) (simp add: assms(2) Let_def info)
  have "tm_value (poll_level gets level (n + LICENSE_VERIFY_TIMEOUT) 0 n)" for n
    by (subst poll_level.simps) (simp add: Let_def get LICENSE_VERIFY_TIMEOUT_def license_level_def falsy_def assms(3))
  then show ?thesis
    by (simp add: renewLicense_def Let_def MAX_RENEW_ATTEMPTS_def numeral_3_eq_3 assms(1,3) step)
qed

end
