(* ===== verification/Api_Login.thy ===== *)
theory Api_Login
  imports Boot_Wait "HOL-Library.Word"
begin

text \<open>
  The login of RouterOS's own API as a sign of readiness (\<open>src/lib/api-login.ts\<close>): words with a length
  prefix of one to five bytes, sentences, the classification of a reply, and a round trip whose reply
  arrives in chunks. A word is the list of its UTF-8 bytes, which \<open>TextEncoder\<close> and \<open>TextDecoder\<close>
  turn a string into and back.
\<close>

unbundle bit_operations_syntax

section \<open>Lengths\<close>

type_synonym byte = "8 word"

text \<open>\<open>Uint8Array.of\<close> takes every number modulo 256; \<open>>>>\<close> works on the number modulo \<open>2^32\<close>.\<close>

definition bytes_of_nats :: "nat list \<Rightarrow> byte list" where
  "bytes_of_nats = map word_of_nat"

definition encodeApiLength :: "nat \<Rightarrow> byte list" where
  "encodeApiLength n =
     (if n < 0x80 then bytes_of_nats [n]
      else if n < 0x4000 then bytes_of_nats [drop_bit 8 n OR 0x80, n AND 0xff]
      else if n < 0x200000 then bytes_of_nats [drop_bit 16 n OR 0xc0, drop_bit 8 n AND 0xff, n AND 0xff]
      else if n < 0x10000000 then
        bytes_of_nats [drop_bit 24 n OR 0xe0, drop_bit 16 n AND 0xff, drop_bit 8 n AND 0xff, n AND 0xff]
      else
        bytes_of_nats [0xf0, drop_bit 24 (take_bit 32 n) AND 0xff, drop_bit 16 n AND 0xff, drop_bit 8 n AND 0xff, n AND 0xff])"

text \<open>The number of bytes of a prefix, by its first byte, and what it says. The buffer is what follows the offset.\<close>

definition prefix_size :: "byte \<Rightarrow> nat" where
  "prefix_size first =
     (if first AND 0x80 = 0 then 1
      else if first AND 0xc0 = 0x80 then 2
      else if first AND 0xe0 = 0xc0 then 3
      else if first AND 0xf0 = 0xe0 then 4
      else 5)"

definition decodeApiLength :: "byte list \<Rightarrow> (nat \<times> nat) option" where
  "decodeApiLength buf =
     (case buf of
        [] \<Rightarrow> None
      | first # rest \<Rightarrow>
          (let k = prefix_size first in
           if length buf < k then None
           else Some (foldl (\<lambda>len b. len * 256 + unat b)
                        (if k = 5 then 0 else unat (first AND drop_bit k 0xff)) (take (k - 1) rest), k)))"

section \<open>Sentences\<close>

definition encodeApiSentence :: "byte list list \<Rightarrow> byte list" where
  "encodeApiSentence ws = concat (map (\<lambda>w. encodeApiLength (length w) @ w) ws) @ [0]"

lemma decode_progress: "decodeApiLength buf = Some (len, k) \<Longrightarrow> 0 < k \<and> k \<le> length buf"
  by (auto simp: decodeApiLength_def Let_def prefix_size_def split: list.splits if_splits)

function parse_sentences :: "byte list \<Rightarrow> byte list list \<Rightarrow> byte list list list" where
  "parse_sentences buf ws =
     (case decodeApiLength buf of
        None \<Rightarrow> []
      | Some (len, k) \<Rightarrow>
          if length buf < k + len then []
          else if len = 0 then ws # parse_sentences (drop k buf) []
          else parse_sentences (drop (k + len) buf) (ws @ [take len (drop k buf)]))"
  by pat_completeness auto
termination
proof (relation "measure (\<lambda>(buf, ws). length buf)", goal_cases)
  case (2 buf ws p len k)
  then show ?case using decode_progress [of buf len k] by auto
next
  case (3 buf ws p len k)
  then show ?case using decode_progress [of buf len k] by auto
qed simp

declare parse_sentences.simps [simp del]

definition parseApiSentences :: "byte list \<Rightarrow> byte list list list" where
  "parseApiSentences buf = parse_sentences buf []"

section \<open>The reply\<close>

definition ascii :: "string \<Rightarrow> byte list" where
  "ascii s = map (\<lambda>c. word_of_nat (of_char c)) s"

datatype login_result = LoginDone | LoginTrap "byte list" | LoginFatal "byte list"

definition starts_bytes :: "byte list \<Rightarrow> byte list \<Rightarrow> bool" where
  "starts_bytes p w \<longleftrightarrow> take (length p) w = p"

fun join_bytes :: "byte list list \<Rightarrow> byte list" where
  "join_bytes [] = []"
| "join_bytes [w] = w"
| "join_bytes (w # x # ws) = w @ ascii '' '' @ join_bytes (x # ws)"

definition messageOf :: "byte list list \<Rightarrow> byte list" where
  "messageOf sentence =
     (case find (starts_bytes (ascii ''=message='')) sentence of
        Some w \<Rightarrow> drop (length ''=message='') w
      | None \<Rightarrow> join_bytes (drop 1 sentence))"

definition opens :: "string \<Rightarrow> byte list list \<Rightarrow> bool" where
  "opens w sentence \<longleftrightarrow> (case sentence of x # _ \<Rightarrow> x = ascii w | [] \<Rightarrow> False)"

definition classifyLoginReply :: "byte list list list \<Rightarrow> login_result option" where
  "classifyLoginReply ss =
     (case find (opens ''!fatal'') ss of
        Some f \<Rightarrow> Some (LoginFatal (messageOf f))
      | None \<Rightarrow>
          if \<not> list_ex (opens ''!done'') ss then None
          else (case find (opens ''!trap'') ss of
                  Some t \<Rightarrow> Some (LoginTrap (messageOf t))
                | None \<Rightarrow> Some LoginDone))"

section \<open>The round trip\<close>

text \<open>What the socket delivers, in order; the deadline is an event among them.\<close>

datatype login_event = Chunk "byte list" | SocketError thrown_error | SocketClosed | LoginDeadline

definition login_request :: "byte list \<Rightarrow> byte list \<Rightarrow> byte list" where
  "login_request user password =
     encodeApiSentence [ascii ''/login'', ascii ''=name='' @ user, ascii ''=password='' @ password]"

definition plain_error :: "string \<Rightarrow> thrown_error" where
  "plain_error m = \<lparr>te_code = None, te_message = m\<rparr>"

text \<open>The first event that settles the promise decides; without one the deadline does.\<close>

fun await_login :: "byte list \<Rightarrow> login_event list \<Rightarrow> thrown_error + login_result" where
  "await_login received [] = Inl (plain_error ''apiLogin timeout'')"
| "await_login received (Chunk c # evs) =
     (case classifyLoginReply (parseApiSentences (received @ c)) of
        Some r \<Rightarrow> Inr r
      | None \<Rightarrow> await_login (received @ c) evs)"
| "await_login received (SocketError e # evs) = Inl e"
| "await_login received (SocketClosed # evs) = Inl (plain_error ''closed before reply'')"
| "await_login received (LoginDeadline # evs) = Inl (plain_error ''apiLogin timeout'')"

definition apiLogin :: "login_event list \<Rightarrow> thrown_error + login_result" where
  "apiLogin evs = await_login [] evs"

text \<open>The answer the wait for readiness sees.\<close>

definition text_of_bytes :: "byte list \<Rightarrow> string" where
  "text_of_bytes w = map (\<lambda>b. char_of (unat b)) w"

definition api_answer_of :: "thrown_error + login_result \<Rightarrow> api_answer" where
  "api_answer_of r =
     (case r of
        Inl e \<Rightarrow> ApiThrew e
      | Inr LoginDone \<Rightarrow> ApiDone
      | Inr (LoginTrap m) \<Rightarrow> ApiTrap (text_of_bytes m)
      | Inr (LoginFatal m) \<Rightarrow> ApiFatal (text_of_bytes m))"

section \<open>Round trips\<close>

lemma and_high: "(x :: nat) AND push_bit k (mask m) = take_bit m (x div 2 ^ k) * 2 ^ k"
  unfolding push_bit_eq_mult [symmetric] drop_bit_eq_div [symmetric]
  by (rule bit_eqI) (auto simp: bit_simps)

lemma masks: "(0x80 :: nat) = push_bit 7 (mask 1)" "(0xc0 :: nat) = push_bit 6 (mask 2)"
  "(0xe0 :: nat) = push_bit 5 (mask 3)" "(0xf0 :: nat) = push_bit 4 (mask 4)"
  by (simp_all add: push_bit_eq_mult mask_eq_exp_minus_1)

lemma byte_high:
  assumes "x < 256"
  shows "(x :: nat) AND 0x80 = x div 128 * 128" "x AND 0xc0 = x div 64 * 64" "x AND 0xe0 = x div 32 * 32"
    "x AND 0xf0 = x div 16 * 16"
  using assms unfolding masks and_high by (simp_all add: take_bit_eq_mod)

lemma or_high:
  "x < 64 \<Longrightarrow> (x :: nat) OR 0x80 = x + 128" "x < 32 \<Longrightarrow> x OR 0xc0 = x + 192" "x < 16 \<Longrightarrow> x OR 0xe0 = x + 224"
proof -
  have sum: "x OR push_bit k (mask m) = x + push_bit k (mask m)" if "x < 2 ^ k" for k m
  proof (rule disjunctive_add_eq_or [symmetric])
    show "x AND push_bit k (mask m) = 0" using that by (simp add: and_high)
  qed
  show "x < 64 \<Longrightarrow> x OR 0x80 = x + 128" "x < 32 \<Longrightarrow> x OR 0xc0 = x + 192" "x < 16 \<Longrightarrow> x OR 0xe0 = x + 224"
    using sum [of 7 1] sum [of 6 2] sum [of 5 3] by (simp_all add: masks [symmetric])
qed

lemma unat_byte: "unat (word_of_nat n :: byte) = n mod 256"
  by (simp add: unat_of_nat)

lemma size_by_value:
  "prefix_size b = (if unat b < 128 then 1 else if unat b < 192 then 2 else if unat b < 224 then 3 else if unat b < 240 then 4 else 5)"
proof -
  have lt: "unat b < 256" using unsigned_less [of b] by simp
  have eq: "(b AND m = n) = (unat b AND unat m = unat n)" for m n by (simp add: word_unat_eq_iff unsigned_and_eq)
  have "(b AND 0x80 = 0) = (unat b < 128)" "(b AND 0xc0 = 0x80) = (128 \<le> unat b \<and> unat b < 192)"
    "(b AND 0xe0 = 0xc0) = (192 \<le> unat b \<and> unat b < 224)" "(b AND 0xf0 = 0xe0) = (224 \<le> unat b \<and> unat b < 240)"
    unfolding eq using lt by (simp_all add: byte_high) linarith+
  then show ?thesis by (auto simp: prefix_size_def)
qed

lemma low_bits:
  fixes b :: byte
  shows "unat (b AND 127) = unat b mod 128" "unat (b AND 63) = unat b mod 64" "unat (b AND 31) = unat b mod 32"
    "unat (b AND 15) = unat b mod 16"
proof -
  have m: "unat (b AND mask k) = unat b mod 2 ^ k" for k
    by (simp only: take_bit_eq_mask [symmetric] unsigned_take_bit_eq) (rule take_bit_eq_mod)
  show "unat (b AND 127) = unat b mod 128" "unat (b AND 63) = unat b mod 64" "unat (b AND 31) = unat b mod 32"
    "unat (b AND 15) = unat b mod 16"
    using m [of 7] m [of 6] m [of 5] m [of 4] by (simp_all add: mask_eq_exp_minus_1)
qed

lemma mod_above:
  fixes x :: nat
  assumes "a * k \<le> x" "x < a * k + k"
  shows "x mod k = x - a * k"
proof -
  have "x = (x - a * k) + a * k" using assms(1) by simp
  then have "x mod k = (x - a * k) mod k" by (metis mod_mult_self1)
  moreover have "x - a * k < k" using assms by simp
  ultimately show ?thesis by simp
qed

lemma byte_shift: "n div (k * 256) * 256 + n div k mod 256 = n div (k :: nat)"
  by (simp add: div_mult2_eq)

lemma decode_prefix:
  "unat b < 128 \<Longrightarrow> decodeApiLength (b # r) = Some (unat b, 1)"
  "128 \<le> unat b \<Longrightarrow> unat b < 192 \<Longrightarrow> decodeApiLength (b # c # r) = Some ((unat b - 128) * 256 + unat c, 2)"
  "192 \<le> unat b \<Longrightarrow> unat b < 224 \<Longrightarrow>
     decodeApiLength (b # c # d # r) = Some (((unat b - 192) * 256 + unat c) * 256 + unat d, 3)"
  "224 \<le> unat b \<Longrightarrow> unat b < 240 \<Longrightarrow>
     decodeApiLength (b # c # d # e # r) = Some ((((unat b - 224) * 256 + unat c) * 256 + unat d) * 256 + unat e, 4)"
  "240 \<le> unat b \<Longrightarrow>
     decodeApiLength (b # c # d # e # f # r) = Some (((unat c * 256 + unat d) * 256 + unat e) * 256 + unat f, 5)"
proof -
  have m: "128 \<le> x \<Longrightarrow> x < 192 \<Longrightarrow> x mod 64 = x - 128" "192 \<le> x \<Longrightarrow> x < 224 \<Longrightarrow> x mod 32 = x - 192"
    "224 \<le> x \<Longrightarrow> x < 240 \<Longrightarrow> x mod 16 = x - 224" for x :: nat
    using mod_above [of 2 64 x] mod_above [of 6 32 x] mod_above [of 14 16 x] by simp_all
  show "unat b < 128 \<Longrightarrow> decodeApiLength (b # r) = Some (unat b, 1)"
    by (simp add: decodeApiLength_def Let_def size_by_value low_bits)
  show "128 \<le> unat b \<Longrightarrow> unat b < 192 \<Longrightarrow> decodeApiLength (b # c # r) = Some ((unat b - 128) * 256 + unat c, 2)"
    by (simp add: decodeApiLength_def Let_def size_by_value low_bits m)
  show "192 \<le> unat b \<Longrightarrow> unat b < 224 \<Longrightarrow>
     decodeApiLength (b # c # d # r) = Some (((unat b - 192) * 256 + unat c) * 256 + unat d, 3)"
    by (simp add: decodeApiLength_def Let_def size_by_value low_bits m)
  show "224 \<le> unat b \<Longrightarrow> unat b < 240 \<Longrightarrow>
     decodeApiLength (b # c # d # e # r) = Some ((((unat b - 224) * 256 + unat c) * 256 + unat d) * 256 + unat e, 4)"
    by (simp add: decodeApiLength_def Let_def size_by_value low_bits m)
  show "240 \<le> unat b \<Longrightarrow>
     decodeApiLength (b # c # d # e # f # r) = Some (((unat c * 256 + unat d) * 256 + unat e) * 256 + unat f, 5)"
    by (simp add: decodeApiLength_def Let_def size_by_value)
qed

text \<open>A length below \<open>2^32\<close> is read back from its prefix, whatever follows.\<close>

lemma decode_encode:
  assumes "n < 2 ^ 32"
  shows "decodeApiLength (encodeApiLength n @ rest) = Some (n, length (encodeApiLength n))"
proof -
  have ff: "m AND 0xff = m mod 256" for m :: nat
    using take_bit_eq_mask [of 8 m] by (simp add: take_bit_eq_mod mask_eq_exp_minus_1)
  have db: "drop_bit 8 n = n div 256" "drop_bit 16 n = n div 65536" "drop_bit 24 n = n div 16777216"
    by (simp_all add: drop_bit_eq_div)
  have tb: "take_bit 32 n = n" using assms by (simp add: take_bit_nat_eq_self)
  note byte = unat_byte [of "n mod 256"] unat_byte [of "n div 256 mod 256"] unat_byte [of "n div 65536 mod 256"]
    unat_byte [of "n div 16777216 mod 256"]
  consider "n < 0x80" | "0x80 \<le> n" "n < 0x4000" | "0x4000 \<le> n" "n < 0x200000" | "0x200000 \<le> n" "n < 0x10000000" | "0x10000000 \<le> n"
    by linarith
  then show ?thesis
  proof cases
    case 1
    have "unat (word_of_nat n :: byte) = n" using 1 unat_byte [of n] by simp
    then show ?thesis using 1 decode_prefix(1) [of "word_of_nat n" rest] by (simp add: encodeApiLength_def bytes_of_nats_def)
  next
    case 2
    define b :: byte where "b = word_of_nat (n div 256 OR 0x80)"
    define c :: byte where "c = word_of_nat (n mod 256)"
    have s: "n div 256 < 64" using 2 by (simp add: less_mult_imp_div_less)
    have b: "unat b = n div 256 + 128" using s unat_byte [of "n div 256 + 128"] by (simp only: b_def or_high) simp
    have c: "unat c = n mod 256" using unat_byte [of "n mod 256"] by (simp only: c_def mod_mod_trivial)
    have "encodeApiLength n = [b, c]" using 2 by (simp add: encodeApiLength_def bytes_of_nats_def b_def c_def ff db)
    then show ?thesis using decode_prefix(2) [of b c rest] s by (simp add: b c)
  next
    case 3
    define b :: byte where "b = word_of_nat (n div 65536 OR 0xc0)"
    define c :: byte where "c = word_of_nat (n div 256 mod 256)"
    define d :: byte where "d = word_of_nat (n mod 256)"
    have s: "n div 65536 < 32" using 3 by (simp add: less_mult_imp_div_less)
    have b: "unat b = n div 65536 + 192" using s unat_byte [of "n div 65536 + 192"] by (simp only: b_def or_high) simp
    have c: "unat c = n div 256 mod 256" using unat_byte [of "n div 256 mod 256"] by (simp only: c_def mod_mod_trivial)
    have d: "unat d = n mod 256" using unat_byte [of "n mod 256"] by (simp only: d_def mod_mod_trivial)
    have "encodeApiLength n = [b, c, d]" using 3 by (simp add: encodeApiLength_def bytes_of_nats_def b_def c_def d_def ff db)
    moreover have "(n div 65536 * 256 + n div 256 mod 256) * 256 + n mod 256 = n" using byte_shift [of n 256] by simp
    ultimately show ?thesis using decode_prefix(3) [of b c d rest] s by (simp add: b c d)
  next
    case 4
    define b :: byte where "b = word_of_nat (n div 16777216 OR 0xe0)"
    define c :: byte where "c = word_of_nat (n div 65536 mod 256)"
    define d :: byte where "d = word_of_nat (n div 256 mod 256)"
    define e :: byte where "e = word_of_nat (n mod 256)"
    have s: "n div 16777216 < 16" using 4 by (simp add: less_mult_imp_div_less)
    have b: "unat b = n div 16777216 + 224" using s unat_byte [of "n div 16777216 + 224"] by (simp only: b_def or_high) simp
    have c: "unat c = n div 65536 mod 256" using unat_byte [of "n div 65536 mod 256"] by (simp only: c_def mod_mod_trivial)
    have d: "unat d = n div 256 mod 256" using unat_byte [of "n div 256 mod 256"] by (simp only: d_def mod_mod_trivial)
    have e: "unat e = n mod 256" using unat_byte [of "n mod 256"] by (simp only: e_def mod_mod_trivial)
    have "encodeApiLength n = [b, c, d, e]" using 4 by (simp add: encodeApiLength_def bytes_of_nats_def b_def c_def d_def e_def ff db)
    moreover have "((n div 16777216 * 256 + n div 65536 mod 256) * 256 + n div 256 mod 256) * 256 + n mod 256 = n"
      using byte_shift [of n 256] byte_shift [of n 65536] by simp
    ultimately show ?thesis using decode_prefix(4) [of b c d e rest] s by (simp add: b c d e)
  next
    case 5
    define c :: byte where "c = word_of_nat (n div 16777216 mod 256)"
    define d :: byte where "d = word_of_nat (n div 65536 mod 256)"
    define e :: byte where "e = word_of_nat (n div 256 mod 256)"
    define f :: byte where "f = word_of_nat (n mod 256)"
    have c: "unat c = n div 16777216" using unat_byte [of "n div 16777216 mod 256"] assms by (simp only: c_def mod_mod_trivial) simp
    have d: "unat d = n div 65536 mod 256" using unat_byte [of "n div 65536 mod 256"] by (simp only: d_def mod_mod_trivial)
    have e: "unat e = n div 256 mod 256" using unat_byte [of "n div 256 mod 256"] by (simp only: e_def mod_mod_trivial)
    have f: "unat f = n mod 256" using unat_byte [of "n mod 256"] by (simp only: f_def mod_mod_trivial)
    have "encodeApiLength n = [0xf0, c, d, e, f]"
      using 5 by (simp add: encodeApiLength_def bytes_of_nats_def c_def d_def e_def f_def ff db tb)
    moreover have "((n div 16777216 * 256 + n div 65536 mod 256) * 256 + n div 256 mod 256) * 256 + n mod 256 = n"
      using byte_shift [of n 256] byte_shift [of n 65536] by simp
    ultimately show ?thesis using decode_prefix(5) [of "0xf0" c d e f rest] by (simp add: c d e f)
  qed
qed

section \<open>What arrives is what was sent\<close>

definition word_ok :: "byte list \<Rightarrow> bool" where
  "word_ok w \<longleftrightarrow> w \<noteq> [] \<and> length w < 2 ^ 32"

lemma parse_step:
  assumes "decodeApiLength (p @ r) = Some (n, length p)" "n \<le> length r"
  shows "parse_sentences (p @ r) ws =
    (if n = 0 then ws # parse_sentences r [] else parse_sentences (drop n r) (ws @ [take n r]))"
  using assms by (subst parse_sentences.simps) (simp add: add.commute)

lemma parse_word: "word_ok w \<Longrightarrow> parse_sentences (encodeApiLength (length w) @ w @ r) ws = parse_sentences r (ws @ [w])"
  using parse_step [OF decode_encode [of "length w" "w @ r"], of ws] by (simp add: word_ok_def)

lemma parse_end: "parse_sentences (0 # r) ws = ws # parse_sentences r []"
proof -
  have e: "encodeApiLength 0 = [0]" by (simp add: encodeApiLength_def bytes_of_nats_def)
  show ?thesis using parse_step [of "[0]" r 0 ws] decode_encode [of 0 r] by (simp add: e)
qed

lemma parse_sentence:
  "list_all word_ok s \<Longrightarrow> parse_sentences (encodeApiSentence s @ r) ws = (ws @ s) # parse_sentences r []"
  by (induction s arbitrary: ws) (simp_all add: encodeApiSentence_def parse_end parse_word)

lemma parse_all: "list_all (list_all word_ok) ss \<Longrightarrow> parseApiSentences (concat (map encodeApiSentence ss)) = ss"
proof (induction ss)
  case Nil
  then show ?case by (simp add: parseApiSentences_def parse_sentences.simps [of "[]"] decodeApiLength_def)
next
  case (Cons s ss)
  then show ?case by (simp add: parseApiSentences_def parse_sentence)
qed

lemma decode_more: "decodeApiLength a = Some x \<Longrightarrow> decodeApiLength (a @ b) = Some x"
  by (cases a) (auto simp: decodeApiLength_def Let_def split: if_splits)

text \<open>More bytes only add sentences.\<close>

lemma parse_prefix: "prefix (parse_sentences a ws) (parse_sentences (a @ b) ws)"
proof (induction a ws rule: parse_sentences.induct)
  case (1 a ws)
  show ?case
  proof (cases "decodeApiLength a")
    case None
    then show ?thesis by (simp add: parse_sentences.simps [of a])
  next
    case (Some x)
    obtain n k where x: "x = (n, k)" by fastforce
    have k: "k \<le> length a" using decode_progress Some x by blast
    show ?thesis
    proof (cases "length a < k + n")
      case True
      then show ?thesis using Some x by (simp add: parse_sentences.simps [of a])
    next
      case False
      have a: "parse_sentences a ws = (if n = 0 then ws # parse_sentences (drop k a) [] else parse_sentences (drop (k + n) a) (ws @ [take n (drop k a)]))"
        using Some x False by (subst parse_sentences.simps) simp
      have ab: "parse_sentences (a @ b) ws = (if n = 0 then ws # parse_sentences (drop k a @ b) []
          else parse_sentences (drop (k + n) a @ b) (ws @ [take n (drop k a)]))"
        using decode_more [OF Some] x False k by (subst parse_sentences.simps) auto
      show ?thesis
      proof (cases "n = 0")
        case True
        then show ?thesis using 1(1) [OF Some x [symmetric]] False a ab x Some by auto
      next
        case n: False
        then show ?thesis using 1(2) [OF Some x [symmetric]] False a ab x Some by auto
      qed
    qed
  qed
qed

lemma classify_none: "classifyLoginReply ss = None \<longleftrightarrow> (\<forall>s \<in> set ss. \<not> opens ''!fatal'' s \<and> \<not> opens ''!done'' s)"
proof (cases "find (opens ''!fatal'') ss")
  case None
  then have "\<forall>s \<in> set ss. \<not> opens ''!fatal'' s" by (auto simp: find_None_iff)
  moreover have "classifyLoginReply ss = None \<longleftrightarrow> \<not> list_ex (opens ''!done'') ss"
    unfolding classifyLoginReply_def None by (simp split: option.split)
  ultimately show ?thesis by (simp add: list_ex_iff)
next
  case (Some f)
  then have "f \<in> set ss" "opens ''!fatal'' f" by (auto simp: find_Some_iff)
  moreover have "classifyLoginReply ss \<noteq> None" unfolding classifyLoginReply_def Some by simp
  ultimately show ?thesis by blast
qed

lemma await_chunks:
  assumes "\<And>a. prefix a (received @ concat cs) \<Longrightarrow> classifyLoginReply (parseApiSentences a) \<in> {None, Some r}"
    and "classifyLoginReply (parseApiSentences received) = None"
    and "classifyLoginReply (parseApiSentences (received @ concat cs)) = Some r"
  shows "await_login received (map Chunk cs @ evs) = Inr r"
  using assms
proof (induction cs arbitrary: received)
  case Nil
  then show ?case by simp
next
  case (Cons c cs)
  show ?case
  proof (cases "classifyLoginReply (parseApiSentences (received @ c))")
    case None
    moreover have "await_login (received @ c) (map Chunk cs @ evs) = Inr r"
      by (rule Cons.IH) (use Cons.prems None in \<open>simp_all\<close>)
    ultimately show ?thesis by simp
  next
    case (Some x)
    have "classifyLoginReply (parseApiSentences (received @ c)) \<in> {None, Some r}" by (rule Cons.prems(1)) simp
    then have "x = r" using Some by simp
    then show ?thesis using Some by simp
  qed
qed

lemma await_silent:
  assumes "\<And>a. prefix a (received @ concat cs) \<Longrightarrow> classifyLoginReply (parseApiSentences a) = None"
  shows "await_login received (map Chunk cs @ evs) = await_login (received @ concat cs) evs"
  using assms
proof (induction cs arbitrary: received)
  case (Cons c cs)
  have "classifyLoginReply (parseApiSentences (received @ c)) = None" by (rule Cons.prems) simp
  then show ?case using Cons.IH [of "received @ c"] Cons.prems by simp
qed simp

lemma reply_facts:
  assumes "list_all (list_all word_ok) ss" "classifyLoginReply (butlast ss) = None" "classifyLoginReply ss = Some r"
  shows "parseApiSentences (login_request u p) = [[ascii ''/login'', ascii ''=name='' @ u, ascii ''=password='' @ p]]
      \<or> 2 ^ 32 \<le> length u + 6 \<or> 2 ^ 32 \<le> length p + 10"
    "concat cs = concat (map encodeApiSentence ss) \<Longrightarrow> apiLogin (map Chunk cs @ evs) = Inr r"
    "prefix (concat cs) (concat (map encodeApiSentence (butlast ss))) \<Longrightarrow>
       apiLogin (map Chunk cs @ SocketClosed # evs) = Inl (plain_error ''closed before reply'')
       \<and> classifyProbeError (plain_error ''closed before reply'') = (OReset, ''closed before reply'')"
proof -
  have ne: "ss \<noteq> []" using assms(2,3) by auto
  have ok: "list_all (list_all word_ok) (butlast ss)" using assms(1) by (auto simp: list_all_iff dest: in_set_butlastD)
  have cut: "classifyLoginReply (parseApiSentences a) \<in> {None, Some r}" if pre: "prefix a (concat (map encodeApiSentence ss))" for a
  proof -
    obtain b where "concat (map encodeApiSentence ss) = a @ b" using pre unfolding prefix_def by blast
    then have "prefix (parseApiSentences a) ss"
      using parse_prefix [of a "[]" b] parse_all [OF assms(1)] by (simp add: parseApiSentences_def)
    then consider "parseApiSentences a = ss" | "prefix (parseApiSentences a) (butlast ss)"
      using ne by (metis append_butlast_last_id prefix_snoc)
    then show ?thesis
    proof cases
      case 2
      then have "set (parseApiSentences a) \<subseteq> set (butlast ss)" by (auto dest: set_mono_prefix)
      then have "classifyLoginReply (parseApiSentences a) = None" using assms(2) unfolding classify_none by blast
      then show ?thesis by simp
    qed (use assms(3) in simp)
  qed
  have nil: "classifyLoginReply (parseApiSentences []) = None"
    by (simp add: classify_none parseApiSentences_def parse_sentences.simps [of "[]"] decodeApiLength_def)
  show "concat cs = concat (map encodeApiSentence ss) \<Longrightarrow> apiLogin (map Chunk cs @ evs) = Inr r"
    unfolding apiLogin_def by (rule await_chunks) (use cut nil assms(3) parse_all [OF assms(1)] in \<open>simp_all\<close>)
  show "prefix (concat cs) (concat (map encodeApiSentence (butlast ss))) \<Longrightarrow>
       apiLogin (map Chunk cs @ SocketClosed # evs) = Inl (plain_error ''closed before reply'')
       \<and> classifyProbeError (plain_error ''closed before reply'') = (OReset, ''closed before reply'')"
  proof
    assume p: "prefix (concat cs) (concat (map encodeApiSentence (butlast ss)))"
    have "classifyLoginReply (parseApiSentences a) = None" if pre: "prefix a (concat cs)" for a
    proof -
      obtain b where "concat (map encodeApiSentence (butlast ss)) = a @ b"
        using prefix_order.trans [OF pre p] unfolding prefix_def by blast
      then have "prefix (parseApiSentences a) (butlast ss)"
        using parse_prefix [of a "[]" b] parse_all [OF ok] by (simp add: parseApiSentences_def)
      then show ?thesis using assms(2) set_mono_prefix unfolding classify_none by blast
    qed
    then show "apiLogin (map Chunk cs @ SocketClosed # evs) = Inl (plain_error ''closed before reply'')"
      unfolding apiLogin_def by (subst await_silent) simp_all
    show "classifyProbeError (plain_error ''closed before reply'') = (OReset, ''closed before reply'')"
      by (simp add: classifyProbeError_def plain_error_def Let_def contains_def)
  qed
  have "list_all word_ok [ascii ''/login'', ascii ''=name='' @ u, ascii ''=password='' @ p]"
    if "\<not> (2 ^ 32 \<le> length u + 6 \<or> 2 ^ 32 \<le> length p + 10)"
    using that by (simp add: word_ok_def ascii_def)
  then show "parseApiSentences (login_request u p) = [[ascii ''/login'', ascii ''=name='' @ u, ascii ''=password='' @ p]]
      \<or> 2 ^ 32 \<le> length u + 6 \<or> 2 ^ 32 \<le> length p + 10"
    using parse_all [of "[[ascii ''/login'', ascii ''=name='' @ u, ascii ''=password='' @ p]]"]
    by (auto simp: login_request_def)
qed


definition demo_trap :: "byte list list list" where
  "demo_trap = [[ascii ''!trap'', ascii ''=message=invalid user name or password (6)''], [ascii ''!done'']]"


end
