(* ===== verification/Spec2Isabelle.thy ===== *)
theory Spec2Isabelle
  imports Versions Network_Resolve Lock_Progress Storage_Pins Settings Claim_Safety Cli_Options
    Qemu Forensics License Api_Login
begin

text \<open>
  A model of the core logic of quickchr (\<open>src/src/lib\<close>, TypeScript), the tool that creates and runs
  MikroTik RouterOS CHR machines under QEMU.

  The program keeps its state in files: a directory per machine, a registry of named links, a
  cache of images, and lock directories beside them. Several processes work on these files at
  once. Creating a machine picks a name, a block of host ports and MAC addresses, joins the named
  links, resolves every interface to QEMU arguments and starts QEMU.

  \<^item> \<open>Prelude\<close>, \<open>Js_Number\<close>, \<open>Keyed_Store\<close>: error values (\<open>Inl\<close> an error, \<open>Inr\<close> a value), JavaScript
    strings and numbers, and the interface of a keyed store with its association-list provider.
  \<^item> \<open>Names\<close> (\<open>names.ts\<close>): names of machines and links, their safety as a path, shell quoting.
  \<^item> \<open>Versions\<close> (\<open>versions.ts\<close>): RouterOS versions, their order, the provisioning gate, the retry policy
    of channel resolution, generated machine names.
  \<^item> \<open>Forward_Spec\<close> (\<open>guest-ports.ts\<close>, \<open>forward-spec.ts\<close>): the grammar of port forwards.
  \<^item> \<open>Network_Ports\<close>, \<open>Network_Spec\<close>, \<open>Network_Resolve\<close> (\<open>network.ts\<close>): port blocks and port tables; interface
    specifiers and MAC addresses; the QEMU arguments of every interface on a given host.
  \<^item> \<open>Socket_Registry\<close> (\<open>socket-registry.ts\<close>): the registry of named links as several processes with
    their own caches use it.
  \<^item> \<open>Lock_Log\<close>, \<open>Lock_Safety\<close>, \<open>Lock_Progress\<close> (\<open>lock.ts\<close>): the cross-process lock, one system call at a time.
  \<^item> \<open>State\<close> (\<open>state.ts\<close>): the machine directories: saving, loading and checking \<open>machine.json\<close>, enumerating,
    refreshing stale statuses, removing a machine, the boot log.
  \<^item> \<open>Cache_Policy\<close>, \<open>Cache_Prune\<close> (\<open>cache.ts\<close>): the inventory of the image cache and its retention
    policy; what a prune deletes, in which order, and when it stops.
  \<^item> \<open>Storage_Lease\<close> (\<open>storage-lease.ts\<close>, \<open>rename.ts\<close>): the files in which operations of several processes pin cache
    entries and reserve bytes, and the filesystem a path is on.
  \<^item> \<open>Disk\<close> (\<open>disk.ts\<close>): building, ensuring and cleaning the disks of a machine.
  \<^item> \<open>Storage\<close>, \<open>Storage_Safety\<close>, \<open>Storage_Pins\<close> (\<open>storage.ts\<close>): the admission of an operation that writes, with
    its reclamation of cache entries; that live operations are never promised the same bytes, and
    that nothing in use is evicted. The world of \<open>Storage_Safety\<close> takes an admission as one step: writes of
    other operations in between lower the free space and what they may still write alike.
  \<^item> \<open>Claim\<close>, \<open>Claim_Safety\<close> (\<open>quickchr.ts\<close>, \<open>lock.ts\<close>): how concurrent creations are given port blocks and MAC
    addresses, one read or lock operation at a time, and the table of claims these runs refine.
  \<^item> \<open>Settings\<close> (\<open>settings.ts\<close>, \<open>settings-file.ts\<close>): the managed settings, the lines of \<open>quickchr.env\<close>, their
    resolution and the edits of one line.
  \<^item> \<open>Device_Mode\<close> (\<open>device-mode.ts\<close>, \<open>quickchr.ts\<close>): device-mode requests, the judgement of the guest's
    report, the attempts and the power cut of an update, and the record of what was applied.
  \<^item> \<open>Provisioning_Window\<close> (\<open>provisioning-window.ts\<close>): when provisioning may run, and what becomes of an
    option that comes after the first boot.
  \<^item> \<open>Lifecycle\<close>, \<open>Lifecycle_Facts\<close> (\<open>quickchr.ts\<close>, \<open>qemu.ts\<close>, \<open>shutdown.ts\<close>): the links a start joins, stopping,
    shutting down, continuing, cleaning and removing a machine under its lock, and the cleanup after a
    failed boot or provisioning: what they leave in the file, the handle, the registry and the disks.
  \<^item> \<open>Guest_Record\<close> (\<open>quickchr.ts\<close>): what is recorded of a running guest: steps, licence, device-mode, packages.
  \<^item> \<open>Start_Checks\<close>, \<open>Launch\<close>, \<open>Launch_Facts\<close> (\<open>quickchr.ts\<close>): starting a machine that exists: what a start is
    refused for, claiming its links, spawning QEMU, waiting for the boot, provisioning step by step, and
    the record, the links and the error each ending leaves.
  \<^item> \<open>Cli_Flags\<close> (\<open>cli/flags.ts\<close>), \<open>Cli_Options\<close> (\<open>cli/index.ts\<close>): the flags of a command line, the suggestion
    for an unknown one, and the options that \<open>add\<close> and \<open>start\<close> make of them.
  \<^item> \<open>Qemu\<close> (\<open>qemu.ts\<close>): the EFI variables of a machine, the command line of QEMU with its channels, disks and
    interfaces, the wrapper of a launch, spawning and the probe that tells a guest is ready.
  \<^item> \<open>Json\<close>, \<open>Boot_Wait\<close> (\<open>qemu.ts\<close>, \<open>diagnostics.ts\<close>): JSON values; the poll that waits for a guest to boot on a
    clock that every probe and every sleep advances, and the counters it keeps of what it saw.
  \<^item> \<open>Guest_Snapshot\<close>, \<open>Forensics\<close> (\<open>guest-snapshot.ts\<close>, \<open>diagnostics.ts\<close>): what is asked of a guest that did not
    boot and in how much time; the forwards QEMU reports, the verdict on each, the files of the report.
  \<^item> \<open>License\<close> (\<open>license.ts\<close>): the renewal of a licence, its polls and its verdict.
  \<^item> \<open>Api_Login\<close> (\<open>api-login.ts\<close>): the words and lengths of the RouterOS API, and the verdict on a login.

  Conventions. A machine integer never overflows in this code: JavaScript numbers are exact
  rationals here, so the theorems hold up to the precision of a double (2 to the power 53).
  The interpolated parts of a message are left out. What the program asks its environment (the
  hash, the clock, the probe of a port, the interfaces of the host, an HTTP answer) is an argument
  of the definitions that use it.

  Not modelled: QEMU and the guest themselves, HTTP transfers, the guest agent and console
  protocols, the platform's secret stores, the interactive wizard and the printing of the
  command-line interface, and the scripts of continuous integration. Of the creation of a machine
  the claims, links, disks and cleanup are modelled, not its respawning in the foreground.
\<close>

end
